(* ===== verification/Quilt_Prelude.thy ===== *)
theory Quilt_Prelude
  imports Main "HOL-Library.Sublist" "HOL-Library.While_Combinator"
begin

text \<open>
  Shared vocabulary of the development: the characters the text formats of quilt are built
  from, byte ranges, small facts on lists indexed by \<open>ptrdiff_t\<close> values (modelled as
  \<^typ>\<open>int\<close>), and the named collections the component theories fill:
  \<open>edit_simps\<close> for edit scripts, \<open>text_simps\<close> for the line and token
  splitters, \<open>state_simps\<close> for the stack commands.
\<close>

named_theorems edit_simps \<open>simplification of edit scripts\<close>
named_theorems text_simps \<open>simplification of text splitting\<close>
named_theorems state_simps \<open>simplification of state updates\<close>

type_synonym lines = "string list"

section \<open>Characters\<close>

abbreviation nl :: char where "nl \<equiv> CHR 0x0A"
abbreviation cr :: char where "cr \<equiv> CHR 0x0D"
abbreviation tab :: char where "tab \<equiv> CHR 0x09"
abbreviation spc :: char where "spc \<equiv> CHR 0x20"
abbreviation slash :: char where "slash \<equiv> CHR 0x2F"
abbreviation bslash :: char where "bslash \<equiv> CHR 0x5C"

definition char_in :: "char \<Rightarrow> char \<Rightarrow> char \<Rightarrow> bool" where
  "char_in lo hi c \<longleftrightarrow> (of_char lo :: nat) \<le> of_char c \<and> (of_char c :: nat) \<le> of_char hi"

section \<open>Lists indexed by signed integers\<close>

lemma nth_drop_int:
  "0 \<le> i \<Longrightarrow> i + int k < int (length xs) \<Longrightarrow> drop k xs ! nat i = xs ! nat (i + int k)"
  by (simp add: nat_add_distrib add.commute)

lemma drop_conv_nth_int:
  "0 \<le> i \<Longrightarrow> i < int (length xs) \<Longrightarrow> drop (nat i) xs = xs ! nat i # drop (nat (i + 1)) xs"
  by (simp add: Cons_nth_drop_Suc nat_add_distrib nat_less_iff)

lemma take_conv_snoc_int:
  "0 \<le> i \<Longrightarrow> i < int (length xs) \<Longrightarrow> take (nat (i + 1)) xs = take (nat i) xs @ [xs ! nat i]"
  by (simp add: nat_add_distrib take_Suc_conv_app_nth nat_less_iff)

lemma nat_int_add: "0 \<le> i \<Longrightarrow> 0 \<le> j \<Longrightarrow> nat (i + j) = nat i + nat j"
  by (rule nat_add_distrib)

lemma last_snoc_conv: "xs \<noteq> [] \<Longrightarrow> xs = butlast xs @ [last xs]"
  by simp

lemma takeWhile_neq_append [text_simps]:
  "c \<notin> set l \<Longrightarrow> takeWhile (\<lambda>x. x \<noteq> c) (l @ c # r) = l"
  by (induction l) auto

lemma dropWhile_neq_append [text_simps]:
  "c \<notin> set l \<Longrightarrow> dropWhile (\<lambda>x. x \<noteq> c) (l @ c # r) = c # r"
  by (induction l) auto

lemma takeWhile_neq_id [text_simps]:
  "c \<notin> set l \<Longrightarrow> takeWhile (\<lambda>x. x \<noteq> c) l = l"
  by (induction l) auto

end
