(* ===== verification/Quilt_Strings.thy ===== *)
theory Quilt_Strings
  imports Quilt_Prelude
begin

text \<open>
  The string helpers of \<open>src/src/quilt.cpp\<close> (its \<open>quilt.hpp\<close> and \<open>core.cpp\<close>
  parts) and what they use of the C++ library: searching, decimal numbers in and out
  (\<open>std::from_chars\<close>, \<open>std::to_string\<close>, \<open>std::format\<close>), trimming,
  splitting into lines and tokens, and paths. Bytes are \<^typ>\<open>char\<close>; sizes and positions
  that carry \<open>-1\<close> are \<^typ>\<open>int\<close>.
\<close>

section \<open>Searching\<close>

definition find_from :: "(char \<Rightarrow> bool) \<Rightarrow> string \<Rightarrow> nat \<Rightarrow> int" where
  "find_from p s pos =
     (if \<exists>c \<in> set (drop pos s). p c then int pos + int (length (takeWhile (\<lambda>c. \<not> p c) (drop pos s)))
      else - 1)"

definition str_find :: "string \<Rightarrow> char \<Rightarrow> int \<Rightarrow> int" where
  "str_find s c pos = find_from (\<lambda>x. x = c) s (nat pos)"

fun str_find_sub_from :: "string \<Rightarrow> string \<Rightarrow> nat \<Rightarrow> int" where
  "str_find_sub_from s needle i =
     (if take (length needle) s = needle then int i
      else case s of [] \<Rightarrow> - 1 | _ # s' \<Rightarrow> str_find_sub_from s' needle (Suc i))"

declare str_find_sub_from.simps [simp del]

definition str_find_sub :: "string \<Rightarrow> string \<Rightarrow> int" where
  "str_find_sub s needle = str_find_sub_from s needle 0"

definition str_rfind :: "string \<Rightarrow> char \<Rightarrow> int" where
  "str_rfind s c =
     (if c \<in> set s then int (length s) - 1 - int (length (takeWhile (\<lambda>x. x \<noteq> c) (rev s))) else - 1)"

definition substr :: "string \<Rightarrow> int \<Rightarrow> int \<Rightarrow> string" where
  "substr s pos len = take (nat len) (drop (nat pos) s)"

definition starts_with :: "string \<Rightarrow> string \<Rightarrow> bool" where
  "starts_with s p \<longleftrightarrow> take (length p) s = p"

definition ends_with :: "string \<Rightarrow> string \<Rightarrow> bool" where
  "ends_with s p \<longleftrightarrow> length p \<le> length s \<and> drop (length s - length p) s = p"

section \<open>Decimal numbers\<close>

definition is_digit :: "char \<Rightarrow> bool" where
  "is_digit c \<longleftrightarrow> char_in (CHR ''0'') (CHR ''9'') c"

definition digit_value :: "char \<Rightarrow> int" where
  "digit_value c = int (of_char c) - 48"

definition digits_value :: "string \<Rightarrow> int" where
  "digits_value ds = fold (\<lambda>c v. 10 * v + digit_value c) ds 0"

text \<open>\<open>std::from_chars\<close> on a signed type with the given range: the value and the unread rest,
  or \<open>None\<close> when there is no number or it does not fit (the target is then left alone).\<close>

definition from_chars :: "int \<Rightarrow> int \<Rightarrow> string \<Rightarrow> (int \<times> string) option" where
  "from_chars lo hi s =
     (let neg = (s \<noteq> [] \<and> hd s = CHR ''-'');
          body = (if neg then tl s else s);
          ds = takeWhile is_digit body;
          v = (if neg then - digits_value ds else digits_value ds)
      in if ds = [] \<or> v < lo \<or> hi < v then None else Some (v, dropWhile is_digit body))"

definition PTRDIFF_MAX :: int where "PTRDIFF_MAX = 2 ^ 63 - 1"
definition INT_MAX :: int where "INT_MAX = 2 ^ 31 - 1"

definition parse_int :: "string \<Rightarrow> int" where
  "parse_int s = (case from_chars (- PTRDIFF_MAX - 1) PTRDIFF_MAX s of
     Some (v, _) \<Rightarrow> v | None \<Rightarrow> 0)"

text \<open>\<open>checked_cast<int>\<close>: the assertion fails (\<open>None\<close>) out of range.\<close>

definition checked_int :: "int \<Rightarrow> int option" where
  "checked_int v = (if - INT_MAX - 1 \<le> v \<and> v \<le> INT_MAX then Some v else None)"

fun nat_str :: "nat \<Rightarrow> string" where
  "nat_str n = (if n < 10 then [char_of (48 + n)] else nat_str (n div 10) @ [char_of (48 + n mod 10)])"

declare nat_str.simps [simp del]

definition int_str :: "int \<Rightarrow> string" where
  "int_str i = (if i < 0 then CHR ''-'' # nat_str (nat (- i)) else nat_str (nat i))"

text \<open>The format of a number with leading zeros up to a width, the sign first.\<close>

definition pad_int :: "nat \<Rightarrow> int \<Rightarrow> string" where
  "pad_int width i =
     (let ds = nat_str (nat \<bar>i\<bar>); sign = (if i < 0 then ''-'' else [])
      in sign @ replicate (width - length sign - length ds) (CHR ''0'') @ ds)"

definition pad_signed :: "nat \<Rightarrow> int \<Rightarrow> string" where
  "pad_signed width i =
     (let ds = nat_str (nat \<bar>i\<bar>)
      in (if i < 0 then ''-'' else ''+'') @ replicate (width - 1 - length ds) (CHR ''0'') @ ds)"

section \<open>Trimming and splitting\<close>

definition is_space :: "char \<Rightarrow> bool" where
  "is_space c \<longleftrightarrow> c = spc \<or> c = tab \<or> c = cr \<or> c = nl"

definition rdrop_while :: "(char \<Rightarrow> bool) \<Rightarrow> string \<Rightarrow> string" where
  "rdrop_while p s = rev (dropWhile p (rev s))"

definition trim :: "string \<Rightarrow> string" where
  "trim s = rdrop_while is_space (dropWhile is_space s)"

definition strip_cr :: "string \<Rightarrow> string" where
  "strip_cr s = (if s \<noteq> [] \<and> last s = cr then butlast s else s)"

function split_lines :: "string \<Rightarrow> lines" where
  "split_lines s =
     (if s = [] then []
      else let pos = str_find s nl 0 in
        if pos < 0 then [strip_cr s]
        else strip_cr (take (nat pos) s) # split_lines (drop (nat (pos + 1)) s))"
  by pat_completeness auto
termination
  by (relation "measure length") (auto simp: str_find_def find_from_def)

declare split_lines.simps [simp del]

definition is_blank :: "char \<Rightarrow> bool" where
  "is_blank c \<longleftrightarrow> c = spc \<or> c = tab"

function split_on_whitespace :: "string \<Rightarrow> string list" where
  "split_on_whitespace s =
     (let s = dropWhile is_blank s in
      if s = [] then []
      else takeWhile (\<lambda>c. \<not> is_blank c) s # split_on_whitespace (dropWhile (\<lambda>c. \<not> is_blank c) s))"
  by pat_completeness auto
termination
proof (relation "measure length", goal_cases)
  case (2 s x)
  then obtain c cs where "x = c # cs" "\<not> is_blank c"
    by (metis hd_dropWhile list.exhaust_sel)
  then have "length (dropWhile (\<lambda>c. \<not> is_blank c) x) < length x"
    by (simp add: le_imp_less_Suc length_dropWhile_le)
  also have "length x \<le> length s"
    using 2 by (simp add: length_dropWhile_le)
  finally show ?case by simp
qed simp

declare split_on_whitespace.simps [simp del]

section \<open>Paths\<close>

definition is_absolute_path :: "string \<Rightarrow> bool" where
  "is_absolute_path p \<longleftrightarrow>
     (p \<noteq> [] \<and> p ! 0 = slash) \<or>
     (length p \<ge> 3 \<and> (char_in (CHR ''A'') (CHR ''Z'') (p ! 0) \<or> char_in (CHR ''a'') (CHR ''z'') (p ! 0)) \<and>
      p ! 1 = CHR '':'' \<and> (p ! 2 = slash \<or> p ! 2 = bslash))"

definition path_join :: "string \<Rightarrow> string \<Rightarrow> string" where
  "path_join a b =
     (if a = [] then b
      else if b = [] then a
      else if is_absolute_path b then b
      else if last a = slash \<or> last a = bslash then a @ b
      else a @ [slash] @ b)"

definition path_join3 :: "string \<Rightarrow> string \<Rightarrow> string \<Rightarrow> string" where
  "path_join3 a b c = path_join (path_join a b) c"

text \<open>Trailing slashes go, but the first character stays.\<close>

fun drop_trailing_slashes :: "string \<Rightarrow> string" where
  "drop_trailing_slashes [] = []"
| "drop_trailing_slashes (c # s) = c # rdrop_while (\<lambda>x. x = slash) s"

definition basename :: "string \<Rightarrow> string" where
  "basename path =
     (if path = [] then []
      else let path = drop_trailing_slashes path; pos = str_rfind path slash in
        if pos < 0 then path else drop (nat (pos + 1)) path)"

definition dirname :: "string \<Rightarrow> string" where
  "dirname path =
     (if path = [] then ''.''
      else let path = drop_trailing_slashes path; pos = str_rfind path slash in
        if pos < 0 then ''.'' else if pos = 0 then ''/'' else take (nat pos) path)"

definition strip_trailing_slash :: "string \<Rightarrow> string" where
  "strip_trailing_slash s =
     (let s = rdrop_while (\<lambda>x. x = slash) s in if s = [] then ''/'' else s)"

section \<open>Laws: searching and lines\<close>

lemma str_find_hit [text_simps]:
  "c \<notin> set l \<Longrightarrow> str_find (l @ c # r) c 0 = int (length l)"
  by (simp add: str_find_def find_from_def takeWhile_neq_append)

lemma str_find_miss [text_simps]: "c \<notin> set s \<Longrightarrow> str_find s c 0 = - 1"
  by (simp add: str_find_def find_from_def)

lemma find_from_shift:
  "find_from p (u @ s) (length u + n) = (if find_from p s n < 0 then - 1 else int (length u) + find_from p s n)"
  by (simp add: find_from_def)

lemma str_find_shift:
  "0 \<le> n \<Longrightarrow> str_find (u @ s) c (int (length u) + n) =
     (if str_find s c n < 0 then - 1 else int (length u) + str_find s c n)"
  by (simp add: str_find_def find_from_shift nat_add_distrib)

lemma str_find_nonneg: "str_find s c n < 0 \<longleftrightarrow> str_find s c n = - 1"
  by (simp add: str_find_def find_from_def)

lemma split_lines_Nil [simp]: "split_lines [] = []"
  by (subst split_lines.simps) simp

lemma split_lines_hit [text_simps]:
  "nl \<notin> set l \<Longrightarrow> split_lines (l @ nl # r) = strip_cr l # split_lines r"
  by (subst split_lines.simps) (simp add: text_simps Let_def nat_add_distrib)

lemma split_lines_last [text_simps]:
  "nl \<notin> set l \<Longrightarrow> l \<noteq> [] \<Longrightarrow> split_lines l = [strip_cr l]"
  by (subst split_lines.simps) (simp add: text_simps)

lemma strip_cr_id [text_simps]: "last l \<noteq> cr \<Longrightarrow> strip_cr l = l"
  by (simp add: strip_cr_def)

lemma strip_cr_Nil [simp]: "strip_cr [] = []"
  by (simp add: strip_cr_def)

lemma strip_cr_Cons [text_simps]: "last (c # l) \<noteq> cr \<Longrightarrow> strip_cr (c # l) = c # l"
  by (simp add: strip_cr_def)

lemma set_strip_cr: "set (strip_cr l) \<subseteq> set l"
  by (auto simp: strip_cr_def dest: in_set_butlastD)

text \<open>Text made of terminated lines splits into these lines, up to a carriage return at
  the end of a line.\<close>

definition unlines :: "lines \<Rightarrow> string" where
  "unlines ls = concat (map (\<lambda>l. l @ [nl]) ls)"

lemma unlines_simps [simp]:
  "unlines [] = []" "unlines (l # ls) = l @ nl # unlines ls" "unlines (ls @ ms) = unlines ls @ unlines ms"
  by (simp_all add: unlines_def)

lemma split_lines_unlines:
  "(\<And>l. l \<in> set ls \<Longrightarrow> nl \<notin> set l) \<Longrightarrow> split_lines (unlines ls @ s) = map strip_cr ls @ split_lines s"
  by (induction ls) (auto simp: text_simps)

lemma split_lines_no_nl: "l \<in> set (split_lines s) \<Longrightarrow> nl \<notin> set l"
proof (induction s rule: split_lines.induct)
  case (1 s)
  show ?case
  proof (cases "nl \<in> set s")
    case True
    then obtain l' r where s: "s = l' @ nl # r" "nl \<notin> set l'" by (metis split_list_first)
    have "nl \<notin> set (strip_cr l')" using s(2) set_strip_cr by blast
    moreover have "l \<in> set (split_lines r) \<Longrightarrow> nl \<notin> set l"
      using "1.IH"[of "int (length l')"] s
      by (simp add: text_simps nat_add_distrib)
    ultimately show ?thesis using "1.prems" s by (auto simp: split_lines_hit)
  next
    case False
    then show ?thesis
      using "1.prems" set_strip_cr[of s] by (cases "s = []") (auto simp: text_simps)
  qed
qed

section \<open>Laws: numbers\<close>

lemma of_char_digit [simp]: "n < 10 \<Longrightarrow> (of_char (char_of (48 + n) :: char) :: nat) = 48 + n"
  by (simp add: of_char_of)

lemma nat_str_digits: "c \<in> set (nat_str n) \<Longrightarrow> is_digit c"
  by (induction n rule: nat_str.induct)
    (subst (asm) nat_str.simps, auto simp: is_digit_def char_in_def split: if_splits)

lemma nat_str_nonempty [simp]: "nat_str n \<noteq> []"
  by (subst nat_str.simps) simp

lemma int_str_nonempty [simp]: "int_str i \<noteq> []"
  by (simp add: int_str_def)

lemma digits_value_append:
  "digits_value (ds @ [d]) = 10 * digits_value ds + digit_value d"
  by (simp add: digits_value_def)

lemma digits_value_nat_str: "digits_value (nat_str n) = int n"
proof (induction n rule: nat_str.induct)
  case (1 n)
  show ?case
  proof (cases "n < 10")
    case True
    then show ?thesis by (subst nat_str.simps) (simp add: digits_value_def digit_value_def)
  next
    case False
    with "1.IH" have "digits_value (nat_str n) = 10 * int (n div 10) + int (n mod 10)"
      by (subst nat_str.simps) (simp add: digits_value_append digit_value_def)
    then show ?thesis by (simp add: zdiv_int zmod_int)
  qed
qed

lemma takeWhile_nat_str:
  assumes "rest = [] \<or> \<not> is_digit (hd rest)"
  shows "takeWhile is_digit (nat_str n @ rest) = nat_str n"
    "dropWhile is_digit (nat_str n @ rest) = rest"
  using assms nat_str_digits[of _ n] by (cases rest; simp add: takeWhile_append dropWhile_append)+

lemma hd_nat_str: "is_digit (hd (nat_str n))"
  using nat_str_digits[of "hd (nat_str n)" n] by simp

lemma minus_no_digit [simp]: "\<not> is_digit (CHR ''-'')"
  by (simp add: is_digit_def char_in_def)

text \<open>Reading what was printed.\<close>

lemma from_chars_nat_str:
  assumes "rest = [] \<or> \<not> is_digit (hd rest)" "lo \<le> int n" "int n \<le> hi"
  shows "from_chars lo hi (nat_str n @ rest) = Some (int n, rest)"
proof -
  have "hd (nat_str n @ rest) \<noteq> CHR ''-''"
    using hd_nat_str[of n] by (metis hd_append2 minus_no_digit nat_str_nonempty)
  then show ?thesis
    using assms by (simp add: from_chars_def Let_def takeWhile_nat_str digits_value_nat_str)
qed

lemma from_chars_int_str:
  assumes "rest = [] \<or> \<not> is_digit (hd rest)" "lo \<le> i" "i \<le> hi"
  shows "from_chars lo hi (int_str i @ rest) = Some (i, rest)"
proof (cases "i < 0")
  case True
  with assms show ?thesis
    by (simp add: from_chars_def Let_def int_str_def takeWhile_nat_str digits_value_nat_str)
next
  case False
  with assms from_chars_nat_str[of rest lo "nat i" hi] show ?thesis by (simp add: int_str_def)
qed

lemma parse_int_int_str:
  "- PTRDIFF_MAX - 1 \<le> i \<Longrightarrow> i \<le> PTRDIFF_MAX \<Longrightarrow> parse_int (int_str i) = i"
  using from_chars_int_str[of "[]" "- PTRDIFF_MAX - 1" i PTRDIFF_MAX] by (simp add: parse_int_def)

lemma parse_int_range: "- PTRDIFF_MAX - 1 \<le> parse_int s \<and> parse_int s \<le> PTRDIFF_MAX"
  by (auto simp: parse_int_def from_chars_def Let_def PTRDIFF_MAX_def)

section \<open>Laws: trimming and tokens\<close>

lemma rdrop_while_snoc: "rdrop_while p (s @ [c]) = (if p c then rdrop_while p s else s @ [c])"
  by (simp add: rdrop_while_def)

lemma rdrop_while_Nil [simp]: "rdrop_while p [] = []"
  by (simp add: rdrop_while_def)

lemma rdrop_while_id: "s = [] \<or> \<not> p (last s) \<Longrightarrow> rdrop_while p s = s"
  by (cases s rule: rev_cases) (auto simp: rdrop_while_snoc)

lemma rdrop_while_last: "rdrop_while p s \<noteq> [] \<Longrightarrow> \<not> p (last (rdrop_while p s))"
  by (induction s rule: rev_induct) (auto simp: rdrop_while_snoc)

lemma rdrop_while_hd: "rdrop_while p s \<noteq> [] \<Longrightarrow> hd (rdrop_while p s) = hd s"
proof (induction s rule: rev_induct)
  case (snoc c s)
  then show ?case by (cases "s = []"; cases "p c") (simp_all add: rdrop_while_def)
qed simp

lemma trim_no_space_ends:
  "trim s \<noteq> [] \<Longrightarrow> \<not> is_space (hd (trim s)) \<and> \<not> is_space (last (trim s))"
  unfolding trim_def
  by (metis hd_dropWhile rdrop_while_Nil rdrop_while_hd rdrop_while_last)

lemma trim_id:
  "s = [] \<or> (\<not> is_space (hd s) \<and> \<not> is_space (last s)) \<Longrightarrow> trim s = s"
  by (cases s) (auto simp: trim_def rdrop_while_id)

lemma trim_idem: "trim (trim s) = trim s"
  using trim_id trim_no_space_ends by blast

lemma split_on_whitespace_Nil [simp]: "split_on_whitespace [] = []"
  by (subst split_on_whitespace.simps) simp

lemma split_on_whitespace_blank [text_simps]:
  "is_blank c \<Longrightarrow> split_on_whitespace (c # s) = split_on_whitespace s"
  by (subst (1 2) split_on_whitespace.simps) simp

lemma split_on_whitespace_token [text_simps]:
  assumes "t \<noteq> []" "\<And>c. c \<in> set t \<Longrightarrow> \<not> is_blank c" "s = [] \<or> is_blank (hd s)"
  shows "split_on_whitespace (t @ s) = t # split_on_whitespace s"
proof -
  have "dropWhile is_blank (t @ s) = t @ s"
    using assms(1,2) by (cases t) auto
  moreover have "takeWhile (\<lambda>c. \<not> is_blank c) (t @ s) = t" "dropWhile (\<lambda>c. \<not> is_blank c) (t @ s) = s"
    using assms(2,3) by (cases s; simp add: takeWhile_append dropWhile_append)+
  ultimately show ?thesis
    using assms(1) by (subst split_on_whitespace.simps) simp
qed

lemma split_on_whitespace_step:
  "dropWhile is_blank s = u \<Longrightarrow> u \<noteq> [] \<Longrightarrow> split_on_whitespace s =
     takeWhile (\<lambda>c. \<not> is_blank c) u # split_on_whitespace (dropWhile (\<lambda>c. \<not> is_blank c) u)"
  by (subst split_on_whitespace.simps) (simp add: Let_def)

lemma split_on_whitespace_done: "dropWhile is_blank s = [] \<Longrightarrow> split_on_whitespace s = []"
  by (subst split_on_whitespace.simps) (simp add: Let_def)

lemma split_on_whitespace_tokens:
  "t \<in> set (split_on_whitespace s) \<Longrightarrow> t \<noteq> [] \<and> (\<forall>c \<in> set t. \<not> is_blank c)"
proof (induction s rule: split_on_whitespace.induct)
  case (1 s)
  let ?s = "dropWhile is_blank s"
  show ?case
  proof (cases "?s = []")
    case True
    with "1.prems" show ?thesis by (simp add: split_on_whitespace_done)
  next
    case False
    then have "\<not> is_blank (hd ?s)" by (rule hd_dropWhile)
    with False have ne: "takeWhile (\<lambda>c. \<not> is_blank c) ?s \<noteq> []" by (cases ?s) auto
    from "1.prems" consider "t = takeWhile (\<lambda>c. \<not> is_blank c) ?s"
      | "t \<in> set (split_on_whitespace (dropWhile (\<lambda>c. \<not> is_blank c) ?s))"
      unfolding split_on_whitespace_step[OF refl False] by fastforce
    then show ?thesis
    proof cases
      case 1
      then show ?thesis using ne set_takeWhileD by fastforce
    next
      case 2
      then show ?thesis using "1.IH"[OF refl False] by blast
    qed
  qed
qed

end
