(* ===== verification/Patch_Parse.thy ===== *)
theory Patch_Parse
  imports Quilt_Strings
begin

text \<open>
  The unified diff parser of \<open>src/src/quilt.cpp\<close> (its \<open>patch.cpp\<close> part): path
  stripping, hunk headers, hunk bodies and files. The line index \<open>i\<close> of the loops is
  the list of the lines not read yet.
\<close>

section \<open>Data\<close>

record patch_hunk =
  p_old_start :: int
  p_old_count :: int
  p_new_start :: int
  p_new_count :: int
  p_lines :: lines
  p_old_no_newline :: bool
  p_new_no_newline :: bool

record patch_file =
  pf_old_path :: string
  pf_new_path :: string
  pf_target_path :: string
  pf_is_creation :: bool
  pf_is_deletion :: bool
  pf_hunks :: "patch_hunk list"

section \<open>Paths\<close>

fun strip_components :: "nat \<Rightarrow> string \<Rightarrow> string" where
  "strip_components 0 p = p"
| "strip_components (Suc n) p =
     (if p = [] then p
      else let pos = str_find p slash 0 in
        if pos < 0 then p
        else strip_components n (dropWhile (\<lambda>c. c = slash) (drop (nat pos + 1) p)))"

definition strip_path :: "string \<Rightarrow> int \<Rightarrow> string" where
  "strip_path path strip = (if strip < 0 then path else strip_components (nat strip) path)"

definition extract_path :: "string \<Rightarrow> string" where
  "extract_path line =
     (let t = str_find line tab 0;
          rest = (if t \<ge> 0 then take (nat t) line else line)
      in rdrop_while (\<lambda>c. c = spc \<or> c = cr) rest)"

definition choose_target :: "string \<Rightarrow> string \<Rightarrow> int \<Rightarrow> string" where
  "choose_target raw_old raw_new strip_level =
     (if raw_old = ''/dev/null'' then strip_path raw_new strip_level
      else if raw_new = ''/dev/null'' then strip_path raw_old strip_level
      else
        let stripped_old = strip_path raw_old strip_level;
            stripped_new = strip_path raw_new strip_level
        in if ends_with stripped_old ''.orig'' then stripped_new
           else if length stripped_new \<le> length stripped_old then stripped_new
           else stripped_old)"

section \<open>Hunk headers\<close>

text \<open>The old range: start, count and the position of the plus sign.\<close>

definition parse_old_range :: "string \<Rightarrow> (int \<times> int \<times> int) option" where
  "parse_old_range hdr =
     (let at1 = str_find hdr (CHR ''-'') 3 in
      if at1 < 0 then None
      else
        let pos = at1 + 1;
            comma = str_find hdr (CHR '','') pos;
            space = str_find hdr spc pos;
            plus_pos = str_find hdr (CHR ''+'') pos
        in if plus_pos < 0 then None
           else if comma \<ge> 0 \<and> comma < plus_pos \<and> plus_pos - comma \<ge> 2 then
             Some (parse_int (substr hdr pos (comma - pos)),
                   parse_int (substr hdr (comma + 1) (plus_pos - comma - 2)), plus_pos)
           else if space \<ge> 0 \<and> space < plus_pos then
             Some (parse_int (substr hdr pos (space - pos)), 1, plus_pos)
           else None)"

definition parse_new_range :: "string \<Rightarrow> int \<Rightarrow> (int \<times> int) option" where
  "parse_new_range hdr plus_pos =
     (let pos = plus_pos + 1;
          comma = str_find hdr (CHR '','') pos;
          end_at = str_find hdr spc pos;
          end_at = (if end_at < 0 then int (length hdr) else end_at)
      in if end_at \<le> pos then None
         else if comma \<ge> 0 \<and> comma < end_at then
           Some (parse_int (substr hdr pos (comma - pos)),
                 parse_int (substr hdr (comma + 1) (end_at - comma - 1)))
         else Some (parse_int (substr hdr pos (end_at - pos)), 1))"

definition parse_hunk_header :: "bool \<Rightarrow> string \<Rightarrow> patch_hunk option" where
  "parse_hunk_header rv hdr =
     (case parse_old_range hdr of
        None \<Rightarrow> None
      | Some (os, oc, plus_pos) \<Rightarrow>
          (case parse_new_range hdr plus_pos of
             None \<Rightarrow> None
           | Some (ns, nc) \<Rightarrow>
               Some \<lparr>p_old_start = (if rv then ns else os), p_old_count = (if rv then nc else oc),
                     p_new_start = (if rv then os else ns), p_new_count = (if rv then oc else nc),
                     p_lines = [], p_old_no_newline = False, p_new_no_newline = False\<rparr>))"

section \<open>Hunk bodies\<close>

definition is_no_newline_line :: "string \<Rightarrow> bool" where
  "is_no_newline_line ln \<longleftrightarrow>
     starts_with ln (bslash # '' No newline at end of file'') \<or>
     starts_with ln (bslash # '' no newline at end of file'')"

definition mark_no_newline :: "patch_hunk \<Rightarrow> patch_hunk" where
  "mark_no_newline h =
     (if p_lines h = [] then h
      else let prev_prefix = hd (last (p_lines h)) in
        if prev_prefix = CHR ''-'' then h\<lparr>p_old_no_newline := True\<rparr>
        else if prev_prefix = CHR ''+'' then h\<lparr>p_new_no_newline := True\<rparr>
        else h\<lparr>p_old_no_newline := True, p_new_no_newline := True\<rparr>)"

definition add_line :: "string \<Rightarrow> patch_hunk \<Rightarrow> patch_hunk" where
  "add_line l h = h\<lparr>p_lines := p_lines h @ [l]\<rparr>"

text \<open>The prefix of a body line, swapped when the patch is reversed.\<close>

definition swap_prefix :: "bool \<Rightarrow> char \<Rightarrow> char" where
  "swap_prefix rv c =
     (if rv then (if c = CHR ''-'' then CHR ''+'' else if c = CHR ''+'' then CHR ''-'' else c) else c)"

text \<open>One round of the body loop with \<open>old_seen\<close> and \<open>new_seen\<close>;
  \<open>None\<close> is the \<open>break\<close>.\<close>

definition body_step ::
  "bool \<Rightarrow> patch_hunk \<Rightarrow> int \<Rightarrow> int \<Rightarrow> string \<Rightarrow> (patch_hunk \<times> int \<times> int) option" where
  "body_step rv h old_seen new_seen ln =
     (if is_no_newline_line ln then Some (mark_no_newline h, old_seen, new_seen)
      else if ln = [] then
        (if old_seen \<ge> p_old_count h \<and> new_seen \<ge> p_new_count h then None
         else Some (add_line '' '' h, old_seen + 1, new_seen + 1))
      else if hd ln = spc \<or> hd ln = CHR ''-'' \<or> hd ln = CHR ''+'' then
        let actual_prefix = swap_prefix rv (hd ln); line_str = actual_prefix # tl ln in
        if actual_prefix = spc then
          (if old_seen \<ge> p_old_count h \<and> new_seen \<ge> p_new_count h then None
           else Some (add_line line_str h, old_seen + 1, new_seen + 1))
        else if actual_prefix = CHR ''-'' then
          (if old_seen \<ge> p_old_count h then None
           else Some (add_line line_str h, old_seen + 1, new_seen))
        else
          (if new_seen \<ge> p_new_count h then None
           else Some (add_line line_str h, old_seen, new_seen + 1))
      else None)"

fun parse_body :: "bool \<Rightarrow> patch_hunk \<Rightarrow> int \<Rightarrow> int \<Rightarrow> lines \<Rightarrow> patch_hunk \<times> lines" where
  "parse_body rv h old_seen new_seen [] = (h, [])"
| "parse_body rv h old_seen new_seen (ln # lns) =
     (case body_step rv h old_seen new_seen ln of
        None \<Rightarrow> (h, ln # lns)
      | Some (h, old_seen, new_seen) \<Rightarrow> parse_body rv h old_seen new_seen lns)"

lemma parse_body_rest: "parse_body rv h os ns lns = (h', rest) \<Longrightarrow> length rest \<le> length lns"
  by (induction lns arbitrary: h os ns) (auto split: option.splits intro: le_SucI)

section \<open>Files\<close>

function parse_hunks :: "bool \<Rightarrow> lines \<Rightarrow> patch_hunk list \<Rightarrow> patch_hunk list \<times> lines" where
  "parse_hunks rv [] hunks = (hunks, [])"
| "parse_hunks rv (ln # lns) hunks =
     (if starts_with ln ''@@ '' then
        case parse_hunk_header rv ln of
          None \<Rightarrow> parse_hunks rv lns hunks
        | Some h \<Rightarrow>
            let (h, rest) = parse_body rv h 0 0 lns in parse_hunks rv rest (hunks @ [h])
      else (hunks, ln # lns))"
  by pat_completeness auto
termination
proof (relation "measure (\<lambda>(rv, lns, hunks). length lns)", goal_cases)
  case (3 rv ln lns hunks h x h' rest)
  then show ?case using parse_body_rest[of rv h 0 0 lns h' rest] by (simp add: le_imp_less_Suc)
qed auto

lemma parse_hunks_rest: "parse_hunks rv lns hunks = (hs, rest) \<Longrightarrow> length rest \<le> length lns"
proof (induction rv lns hunks rule: parse_hunks.induct)
  case (2 rv ln lns hunks)
  show ?case
  proof (cases "starts_with ln ''@@ ''")
    case True
    show ?thesis
    proof (cases "parse_hunk_header rv ln")
      case None
      then show ?thesis using 2 True by simp
    next
      case (Some h)
      obtain h' r where b: "parse_body rv h 0 0 lns = (h', r)" by fastforce
      have "length rest \<le> length r"
        using 2(2)[OF True Some b[symmetric] refl] 2(3) True Some b by simp
      then show ?thesis using parse_body_rest[OF b] by simp
    qed
  next
    case False
    then show ?thesis using 2(3) by auto
  qed
qed simp

definition new_patch_file :: "int \<Rightarrow> bool \<Rightarrow> string \<Rightarrow> string \<Rightarrow> patch_file" where
  "new_patch_file strip_level rv old_line new_line =
     (let raw_old = extract_path (drop 4 old_line);
          raw_new = extract_path (drop 4 new_line);
          (raw_old, raw_new) = (if rv then (raw_new, raw_old) else (raw_old, raw_new))
      in \<lparr>pf_old_path = raw_old, pf_new_path = raw_new,
          pf_target_path = choose_target raw_old raw_new strip_level,
          pf_is_creation = (raw_old = ''/dev/null''), pf_is_deletion = (raw_new = ''/dev/null''),
          pf_hunks = []\<rparr>)"

function parse_files :: "int \<Rightarrow> bool \<Rightarrow> lines \<Rightarrow> patch_file list" where
  "parse_files strip_level rv [] = []"
| "parse_files strip_level rv (ln # lns) =
     (if \<not> starts_with ln ''--- '' then parse_files strip_level rv lns
      else if lns = [] \<or> \<not> starts_with (hd lns) ''+++ '' then parse_files strip_level rv lns
      else
        let pf = new_patch_file strip_level rv ln (hd lns);
            (hunks, rest) = parse_hunks rv (tl lns) []
        in pf\<lparr>pf_hunks := hunks\<rparr> # parse_files strip_level rv rest)"
  by pat_completeness auto
termination
proof (relation "measure (\<lambda>(sl, rv, lns). length lns)", goal_cases)
  case (4 sl rv ln lns pf x hunks rest)
  then have "length rest \<le> length (tl lns)" using parse_hunks_rest by metis
  then show ?case by simp
qed auto

definition parse_patch :: "string \<Rightarrow> int \<Rightarrow> bool \<Rightarrow> patch_file list" where
  "parse_patch text strip_level rv = parse_files strip_level rv (split_lines text)"

section \<open>Laws\<close>

text \<open>A body line of a parsed hunk is never empty and starts with a space, a minus or a plus
  sign: reading its first character is safe.\<close>

definition line_ok :: "string \<Rightarrow> bool" where
  "line_ok l \<longleftrightarrow> l \<noteq> [] \<and> (hd l = spc \<or> hd l = CHR ''-'' \<or> hd l = CHR ''+'')"

definition old_lines_of :: "lines \<Rightarrow> int" where
  "old_lines_of ls = int (length (filter (\<lambda>l. hd l \<noteq> CHR ''+'') ls))"

definition new_lines_of :: "lines \<Rightarrow> int" where
  "new_lines_of ls = int (length (filter (\<lambda>l. hd l \<noteq> CHR ''-'') ls))"

lemma mark_no_newline_simps [simp]:
  "p_lines (mark_no_newline h) = p_lines h"
  "p_old_count (mark_no_newline h) = p_old_count h" "p_new_count (mark_no_newline h) = p_new_count h"
  "p_old_start (mark_no_newline h) = p_old_start h" "p_new_start (mark_no_newline h) = p_new_start h"
  by (simp_all add: mark_no_newline_def Let_def)

lemma add_line_simps [simp]:
  "p_lines (add_line l h) = p_lines h @ [l]"
  "p_old_count (add_line l h) = p_old_count h" "p_new_count (add_line l h) = p_new_count h"
  "p_old_start (add_line l h) = p_old_start h" "p_new_start (add_line l h) = p_new_start h"
  "p_old_no_newline (add_line l h) = p_old_no_newline h"
  "p_new_no_newline (add_line l h) = p_new_no_newline h"
  by (simp_all add: add_line_def)

lemma swap_prefix_cases: "swap_prefix rv c = c \<or> swap_prefix rv c = CHR ''-'' \<or> swap_prefix rv c = CHR ''+''"
  by (simp add: swap_prefix_def)

lemma body_step_lines:
  assumes "body_step rv h os ns ln = Some (h', os', ns')"
  shows "p_old_count h' = p_old_count h \<and> p_new_count h' = p_new_count h \<and>
    (p_lines h' = p_lines h \<and> os' = os \<and> ns' = ns \<or>
     (\<exists>l. line_ok l \<and> p_lines h' = p_lines h @ [l] \<and>
       os' = os + (if hd l \<noteq> CHR ''+'' then 1 else 0) \<and> ns' = ns + (if hd l \<noteq> CHR ''-'' then 1 else 0) \<and>
       (hd l = CHR ''-'' \<longrightarrow> os < p_old_count h) \<and> (hd l = CHR ''+'' \<longrightarrow> ns < p_new_count h) \<and>
       (hd l = spc \<longrightarrow> os < p_old_count h \<or> ns < p_new_count h)))"
proof (cases "is_no_newline_line ln \<or> ln = []")
  case True
  with assms show ?thesis
    by (auto simp: body_step_def line_ok_def split: if_splits)
next
  case False
  then obtain c l where ln: "ln = c # l" by (cases ln) auto
  consider "swap_prefix rv c = spc" | "swap_prefix rv c = CHR ''-''"
    | "swap_prefix rv c \<noteq> spc" "swap_prefix rv c \<noteq> CHR ''-''" by blast
  then show ?thesis
  proof cases
    case 1
    with assms False ln show ?thesis
      by (auto simp: body_step_def line_ok_def Let_def split: if_splits)
  next
    case 2
    with assms False ln show ?thesis
      by (auto simp: body_step_def line_ok_def Let_def split: if_splits intro!: exI[of _ "CHR ''-'' # l"])
  next
    case 3
    then have "c = spc \<or> c = CHR ''-'' \<or> c = CHR ''+'' \<Longrightarrow> swap_prefix rv c = CHR ''+''"
      by (auto simp: swap_prefix_def split: if_splits)
    with 3 assms False ln show ?thesis
      by (auto simp: body_step_def line_ok_def Let_def split: if_splits intro!: exI[of _ "CHR ''+'' # l"])
  qed
qed

lemma parse_body_lines:
  "parse_body rv h os ns lns = (h', rest) \<Longrightarrow> \<forall>l \<in> set (p_lines h). line_ok l \<Longrightarrow>
   (\<forall>l \<in> set (p_lines h'). line_ok l) \<and> p_old_count h' = p_old_count h \<and> p_new_count h' = p_new_count h"
proof (induction lns arbitrary: h os ns)
  case (Cons ln lns)
  show ?case
  proof (cases "body_step rv h os ns ln")
    case (Some r)
    obtain h1 os1 ns1 where r: "r = (h1, os1, ns1)" by (cases r) auto
    from body_step_lines[OF Some[unfolded r]] Cons.prems(2)
    have "\<forall>l \<in> set (p_lines h1). line_ok l" by auto
    with Cons.IH[of h1 os1 ns1] Cons.prems(1) Some r body_step_lines[OF Some[unfolded r]]
    show ?thesis by auto
  qed (use Cons.prems in auto)
qed auto

lemma parse_hunks_lines:
  "parse_hunks rv lns hunks = (hs, rest) \<Longrightarrow> \<forall>h \<in> set hunks. \<forall>l \<in> set (p_lines h). line_ok l \<Longrightarrow>
   \<forall>h \<in> set hs. \<forall>l \<in> set (p_lines h). line_ok l"
proof (induction rv lns hunks rule: parse_hunks.induct)
  case (2 rv ln lns hunks)
  show ?case
  proof (cases "starts_with ln ''@@ ''")
    case True
    show ?thesis
    proof (cases "parse_hunk_header rv ln")
      case None
      then show ?thesis using 2 True by simp
    next
      case (Some h)
      obtain h' r where b: "parse_body rv h 0 0 lns = (h', r)" by fastforce
      have "p_lines h = []"
        using Some by (auto simp: parse_hunk_header_def split: option.splits prod.splits)
      then have "\<forall>l \<in> set (p_lines h'). line_ok l" using parse_body_lines[OF b] by simp
      then have "\<forall>h \<in> set (hunks @ [h']). \<forall>l \<in> set (p_lines h). line_ok l" using 2(4) by simp
      then show ?thesis
        using 2(2)[OF True Some b[symmetric] refl] 2(3) True Some b by simp
    qed
  next
    case False
    then show ?thesis using 2(3,4) by auto
  qed
qed simp

lemma parse_files_lines:
  "pf \<in> set (parse_files sl rv lns) \<Longrightarrow> h \<in> set (pf_hunks pf) \<Longrightarrow> l \<in> set (p_lines h) \<Longrightarrow> line_ok l"
proof (induction sl rv lns rule: parse_files.induct)
  case (2 sl rv ln lns)
  show ?case
  proof (cases "starts_with ln ''--- '' \<and> lns \<noteq> [] \<and> starts_with (hd lns) ''+++ ''")
    case False
    then show ?thesis using 2(1,2) "2.prems" by (auto split: if_splits)
  next
    case True
    obtain hs r where hs: "parse_hunks rv (tl lns) [] = (hs, r)" by fastforce
    then have ok: "\<forall>h \<in> set hs. \<forall>l \<in> set (p_lines h). line_ok l" using parse_hunks_lines by fastforce
    have eq: "parse_files sl rv (ln # lns) =
        (new_patch_file sl rv ln (hd lns))\<lparr>pf_hunks := hs\<rparr> # parse_files sl rv r"
      using True hs by simp
    have IH: "pf \<in> set (parse_files sl rv r) \<Longrightarrow> line_ok l"
      using 2(3)[OF _ _ refl hs[symmetric] refl] True "2.prems"(2,3) by auto
    show ?thesis using "2.prems" ok IH unfolding eq by auto
  qed
qed simp

end
