(* ===== verification/Edit_Script.thy ===== *)
theory Edit_Script
  imports Quilt_Prelude
begin

text \<open>
  Edit operations of the diff engine (\<open>struct EditOp\<close>) and what it means for a list of
  them to turn one list of lines into another: \<open>script_from\<close> walks both files in
  lock step, so every operation carries exactly the next index of the side it consumes.
  The replay of a script gives back the new file, and the old file is its old side.
\<close>

section \<open>Operations\<close>

datatype op_type = OpE | OpD | OpI

record edit_op =
  ty :: op_type
  old_idx :: int
  new_idx :: int

abbreviation eq_op :: "int \<Rightarrow> int \<Rightarrow> edit_op" where
  "eq_op i j \<equiv> \<lparr>ty = OpE, old_idx = i, new_idx = j\<rparr>"
abbreviation del_op :: "int \<Rightarrow> edit_op" where
  "del_op i \<equiv> \<lparr>ty = OpD, old_idx = i, new_idx = - 1\<rparr>"
abbreviation ins_op :: "int \<Rightarrow> edit_op" where
  "ins_op j \<equiv> \<lparr>ty = OpI, old_idx = - 1, new_idx = j\<rparr>"

section \<open>Scripts\<close>

fun script_from :: "lines \<Rightarrow> lines \<Rightarrow> int \<Rightarrow> int \<Rightarrow> edit_op list \<Rightarrow> int \<Rightarrow> int \<Rightarrow> bool" where
  "script_from a b i j [] i' j' \<longleftrightarrow> i = i' \<and> j = j'"
| "script_from a b i j (p # ps) i' j' \<longleftrightarrow>
     (case ty p of
        OpE \<Rightarrow> p = eq_op i j \<and> 0 \<le> i \<and> i < int (length a) \<and> 0 \<le> j \<and> j < int (length b)
               \<and> a ! nat i = b ! nat j \<and> script_from a b (i + 1) (j + 1) ps i' j'
      | OpD \<Rightarrow> p = del_op i \<and> 0 \<le> i \<and> i < int (length a) \<and> script_from a b (i + 1) j ps i' j'
      | OpI \<Rightarrow> p = ins_op j \<and> 0 \<le> j \<and> j < int (length b) \<and> script_from a b i (j + 1) ps i' j')"

definition edit_script :: "lines \<Rightarrow> lines \<Rightarrow> edit_op list \<Rightarrow> bool" where
  "edit_script a b ps \<longleftrightarrow> script_from a b 0 0 ps (int (length a)) (int (length b))"

definition old_side :: "lines \<Rightarrow> edit_op list \<Rightarrow> lines" where
  "old_side a ps = map (\<lambda>p. a ! nat (old_idx p)) (filter (\<lambda>p. ty p \<noteq> OpI) ps)"

definition new_side :: "lines \<Rightarrow> edit_op list \<Rightarrow> lines" where
  "new_side b ps = map (\<lambda>p. b ! nat (new_idx p)) (filter (\<lambda>p. ty p \<noteq> OpD) ps)"

text \<open>Replaying a script on the old file: kept lines come from the old file, inserted
  lines from the new one.\<close>

fun replay :: "lines \<Rightarrow> lines \<Rightarrow> edit_op list \<Rightarrow> lines" where
  "replay a b [] = []"
| "replay a b (p # ps) =
     (case ty p of
        OpE \<Rightarrow> a ! nat (old_idx p) # replay a b ps
      | OpD \<Rightarrow> replay a b ps
      | OpI \<Rightarrow> b ! nat (new_idx p) # replay a b ps)"

definition edits :: "edit_op list \<Rightarrow> nat" where
  "edits ps = length (filter (\<lambda>p. ty p \<noteq> OpE) ps)"

definition shift_op :: "int \<Rightarrow> int \<Rightarrow> edit_op \<Rightarrow> edit_op" where
  "shift_op di dj p =
     p\<lparr>old_idx := (if old_idx p \<ge> 0 then old_idx p + di else old_idx p),
       new_idx := (if new_idx p \<ge> 0 then new_idx p + dj else new_idx p)\<rparr>"

section \<open>Laws\<close>

lemma edits_simps [simp]:
  "edits [] = 0"
  "edits (p # ps) = (if ty p = OpE then edits ps else Suc (edits ps))"
  "edits (ps @ qs) = edits ps + edits qs"
  by (simp_all add: edits_def)

lemma shift_op_simps [simp]:
  "ty (shift_op di dj p) = ty p"
  "0 \<le> i \<Longrightarrow> 0 \<le> j \<Longrightarrow> shift_op di dj (eq_op i j) = eq_op (i + di) (j + dj)"
  "0 \<le> i \<Longrightarrow> shift_op di dj (del_op i) = del_op (i + di)"
  "0 \<le> j \<Longrightarrow> shift_op di dj (ins_op j) = ins_op (j + dj)"
  by (simp_all add: shift_op_def)

lemma script_from_append [edit_simps]:
  "script_from a b i j (ps @ qs) i' j' \<longleftrightarrow>
     (\<exists>k l. script_from a b i j ps k l \<and> script_from a b k l qs i' j')"
  by (induction ps arbitrary: i j) (auto split: op_type.splits)

lemma script_from_appendI [intro]:
  "script_from a b i j ps k l \<Longrightarrow> script_from a b k l qs i' j' \<Longrightarrow>
   script_from a b i j (ps @ qs) i' j'"
  by (auto simp: script_from_append)

lemma script_from_mono:
  "script_from a b i j ps i' j' \<Longrightarrow> i \<le> i' \<and> j \<le> j'"
  by (induction ps arbitrary: i j) (force split: op_type.splits)+

lemma script_from_upper:
  "script_from a b i j ps i' j' \<Longrightarrow> i \<le> int (length a) \<Longrightarrow> j \<le> int (length b) \<Longrightarrow>
   i' \<le> int (length a) \<and> j' \<le> int (length b)"
  by (induction ps arbitrary: i j) (force split: op_type.splits)+

lemma script_old_side:
  "script_from a b i j ps i' j' \<Longrightarrow> 0 \<le> i \<Longrightarrow>
   take (nat i) a @ old_side a ps = take (nat i') a"
proof (induction ps arbitrary: i j)
  case (Cons p ps)
  then show ?case
    by (force simp: old_side_def take_conv_snoc_int split: op_type.splits)
qed (simp add: old_side_def)

lemma script_new_side:
  "script_from a b i j ps i' j' \<Longrightarrow> 0 \<le> j \<Longrightarrow>
   take (nat j) b @ new_side b ps = take (nat j') b"
proof (induction ps arbitrary: i j)
  case (Cons p ps)
  then show ?case
    by (force simp: new_side_def take_conv_snoc_int split: op_type.splits)
qed (simp add: new_side_def)

lemma script_replay:
  "script_from a b i j ps i' j' \<Longrightarrow> replay a b ps = new_side b ps"
  by (induction ps arbitrary: i j) (auto simp: new_side_def split: op_type.splits)

lemma edit_script_old_side: "edit_script a b ps \<Longrightarrow> old_side a ps = a"
  using script_old_side[of a b 0 0 ps] by (simp add: edit_script_def)

lemma edit_script_new_side: "edit_script a b ps \<Longrightarrow> new_side b ps = b"
  using script_new_side[of a b 0 0 ps] by (simp add: edit_script_def)

lemma edit_script_replay: "edit_script a b ps \<Longrightarrow> replay a b ps = b"
  using edit_script_new_side script_replay edit_script_def by metis

lemma script_in_range:
  "script_from a b i j ps i' j' \<Longrightarrow> p \<in> set ps \<Longrightarrow>
     (ty p \<noteq> OpI \<longrightarrow> 0 \<le> old_idx p \<and> old_idx p < int (length a)) \<and>
     (ty p \<noteq> OpD \<longrightarrow> 0 \<le> new_idx p \<and> new_idx p < int (length b))"
  by (induction ps arbitrary: i j) (auto split: op_type.splits)

text \<open>A script on the tails of the two files, shifted, is a script on the files.\<close>

lemma script_from_shift:
  assumes "script_from (take la (drop di a)) (take lb (drop dj b)) i j ps i' j'" "0 \<le> i" "0 \<le> j"
  shows "script_from a b (i + int di) (j + int dj) (map (shift_op (int di) (int dj)) ps)
           (i' + int di) (j' + int dj)"
  using assms
proof (induction ps arbitrary: i j)
  case (Cons p ps)
  show ?case
  proof (cases "ty p")
    case OpE
    with Cons.prems have p: "p = eq_op i j" and b: "i < int (min la (length a - di))" "j < int (min lb (length b - dj))"
      and eq: "take la (drop di a) ! nat i = take lb (drop dj b) ! nat j"
      and r: "script_from (take la (drop di a)) (take lb (drop dj b)) (i + 1) (j + 1) ps i' j'"
      by (simp_all add: min.commute)
    from Cons.IH[OF r] Cons.prems(2,3)
    have IH: "script_from a b (i + int di + 1) (j + int dj + 1) (map (shift_op (int di) (int dj)) ps) (i' + int di) (j' + int dj)"
      by (simp add: algebra_simps)
    have "a ! nat (i + int di) = b ! nat (j + int dj)"
      using eq b Cons.prems(2,3) by (simp add: nat_int_add add.commute)
    moreover have "i + int di < int (length a)" "j + int dj < int (length b)"
      using b Cons.prems(2,3) by auto
    ultimately show ?thesis
      using p Cons.prems(2,3) IH by simp
  next
    case OpD
    with Cons.prems have p: "p = del_op i" and b: "i < int (min la (length a - di))"
      and r: "script_from (take la (drop di a)) (take lb (drop dj b)) (i + 1) j ps i' j'"
      by (simp_all add: min.commute)
    from Cons.IH[OF r] Cons.prems(2,3)
    have "script_from a b (i + int di + 1) (j + int dj) (map (shift_op (int di) (int dj)) ps) (i' + int di) (j' + int dj)"
      by (simp add: algebra_simps)
    then show ?thesis using p b Cons.prems(2,3) by simp
  next
    case OpI
    with Cons.prems have p: "p = ins_op j" and b: "j < int (min lb (length b - dj))"
      and r: "script_from (take la (drop di a)) (take lb (drop dj b)) i (j + 1) ps i' j'"
      by (simp_all add: min.commute)
    from Cons.IH[OF r] Cons.prems(2,3)
    have "script_from a b (i + int di) (j + int dj + 1) (map (shift_op (int di) (int dj)) ps) (i' + int di) (j' + int dj)"
      by (simp add: algebra_simps)
    then show ?thesis using p b Cons.prems(2,3) by simp
  qed
qed simp

lemma edit_script_shift:
  assumes "edit_script (take la (drop di a)) (take lb (drop dj b)) ps"
    "la + di \<le> length a" "lb + dj \<le> length b"
  shows "script_from a b (int di) (int dj) (map (shift_op (int di) (int dj)) ps)
           (int (di + la)) (int (dj + lb))"
proof -
  have "length (take la (drop di a)) = la" "length (take lb (drop dj b)) = lb"
    using assms(2,3) by auto
  then show ?thesis
    using script_from_shift[of la di a lb dj b 0 0 ps "int la" "int lb"] assms(1)
    by (simp add: edit_script_def add.commute)
qed

text \<open>Runs of equal lines, of deletions and of insertions.\<close>

lemma script_eq_run:
  assumes "\<And>t. t < k \<Longrightarrow> a ! (i + t) = b ! (j + t)" "i + k \<le> length a" "j + k \<le> length b"
  shows "script_from a b (int i) (int j) (map (\<lambda>t. eq_op (int (i + t)) (int (j + t))) [0..<k])
           (int (i + k)) (int (j + k))"
  using assms
proof (induction k)
  case (Suc k)
  then have "script_from a b (int i) (int j) (map (\<lambda>t. eq_op (int (i + t)) (int (j + t))) [0..<k])
           (int (i + k)) (int (j + k))" by simp
  moreover have "script_from a b (int (i + k)) (int (j + k)) [eq_op (int (i + k)) (int (j + k))]
     (int (i + Suc k)) (int (j + Suc k))"
    using Suc.prems by (simp flip: of_nat_add)
  ultimately show ?case by (auto simp: script_from_append)
qed simp

lemma script_del_run:
  "i + k \<le> length a \<Longrightarrow>
   script_from a b (int i) j (map (\<lambda>t. del_op (int (i + t))) [0..<k]) (int (i + k)) j"
  by (induction k) (auto simp: script_from_append)

lemma script_ins_run:
  "j + k \<le> length b \<Longrightarrow>
   script_from a b i (int j) (map (\<lambda>t. ins_op (int (j + t))) [0..<k]) i (int (j + k))"
  by (induction k) (auto simp: script_from_append)

lemma edit_script_all_del: "edit_script a [] (map (\<lambda>i. del_op (int i)) [0..<length a])"
  using script_del_run[of 0 "length a" a "[]" 0] by (simp add: edit_script_def)

lemma edit_script_all_ins: "edit_script [] b (map (\<lambda>j. ins_op (int j)) [0..<length b])"
  using script_ins_run[of 0 "length b" b "[]" 0] by (simp add: edit_script_def)

text \<open>A script of kept lines only relates equal files.\<close>

lemma edit_script_no_change:
  assumes "edit_script a b ps" "\<And>p. p \<in> set ps \<Longrightarrow> ty p = OpE"
  shows "a = b"
proof -
  have "script_from a b i j ps i' j' \<Longrightarrow> (\<And>p. p \<in> set ps \<Longrightarrow> ty p = OpE) \<Longrightarrow>
        old_side a ps = new_side b ps" for i j i' j'
    by (induction ps arbitrary: i j) (auto simp: old_side_def new_side_def split: op_type.splits)
  with assms show ?thesis
    using edit_script_def edit_script_old_side edit_script_new_side by metis
qed

end
