(* ===== verification/Diff_Hunks.thy ===== *)
theory Diff_Hunks
  imports Edit_Script
begin

text \<open>
  Grouping an edit script into hunks (\<open>build_hunks\<close> of \<open>src/src/quilt.cpp\<close>): the
  maximal runs of changes, their merging when the context windows touch, and the hunk
  headers. The specification is \<open>hunk_chain\<close>: the hunks are pieces of the script, in
  order and disjoint, everything between them is unchanged, and every header says where its
  hunk sits in both files.
\<close>

section \<open>Model\<close>

record hunk =
  h_old_start :: int
  h_old_count :: int
  h_new_start :: int
  h_new_count :: int
  h_ops :: "edit_op list"

record change_range =
  c_first :: int
  c_last :: int

definition add_change :: "int \<Rightarrow> change_range list \<Rightarrow> change_range list" where
  "add_change i cs =
     (if cs = [] \<or> i > c_last (last cs) + 1 then cs @ [\<lparr>c_first = i, c_last = i\<rparr>]
      else butlast cs @ [(last cs)\<lparr>c_last := i\<rparr>])"

fun change_ranges :: "edit_op list \<Rightarrow> int \<Rightarrow> change_range list \<Rightarrow> change_range list" where
  "change_ranges [] i cs = cs"
| "change_ranges (p # ps) i cs =
     change_ranges ps (i + 1) (if ty p \<noteq> OpE then add_change i cs else cs)"

fun merge_ranges :: "int \<Rightarrow> change_range list \<Rightarrow> change_range list \<Rightarrow> change_range list" where
  "merge_ranges ctx [] merged = merged"
| "merge_ranges ctx (r # rs) merged =
     merge_ranges ctx rs
       (if c_first r - c_last (last merged) \<le> 2 * ctx
        then butlast merged @ [(last merged)\<lparr>c_last := c_last r\<rparr>]
        else merged @ [r])"

text \<open>One step of the header loop: the hunk, \<open>first_old\<close> and \<open>first_new\<close>.\<close>

definition see_old_line :: "edit_op \<Rightarrow> hunk \<times> bool \<times> bool \<Rightarrow> hunk \<times> bool \<times> bool" where
  "see_old_line p = (\<lambda>(h, fo, fn).
     (h\<lparr>h_old_start := (if fo then old_idx p + 1 else h_old_start h),
        h_old_count := h_old_count h + 1\<rparr>, False, fn))"

definition see_new_line :: "edit_op \<Rightarrow> hunk \<times> bool \<times> bool \<Rightarrow> hunk \<times> bool \<times> bool" where
  "see_new_line p = (\<lambda>(h, fo, fn).
     (h\<lparr>h_new_start := (if fn then new_idx p + 1 else h_new_start h),
        h_new_count := h_new_count h + 1\<rparr>, fo, False))"

definition scan_op :: "edit_op \<Rightarrow> hunk \<times> bool \<times> bool \<Rightarrow> hunk \<times> bool \<times> bool" where
  "scan_op p s = (case ty p of
       OpE \<Rightarrow> see_new_line p (see_old_line p s)
     | OpD \<Rightarrow> see_old_line p s
     | OpI \<Rightarrow> see_new_line p s)"

text \<open>The loops that look back from the hunk for the last line of a side.\<close>

fun look_back :: "(edit_op \<Rightarrow> int) \<Rightarrow> edit_op list \<Rightarrow> nat \<Rightarrow> int \<Rightarrow> int" where
  "look_back idx ops 0 start = start"
| "look_back idx ops (Suc i) start =
     (if idx (ops ! i) \<ge> 0 then idx (ops ! i) + 1 else look_back idx ops i start)"

definition make_hunk :: "edit_op list \<Rightarrow> int \<Rightarrow> change_range \<Rightarrow> hunk" where
  "make_hunk ops ctx r =
     (let hunk_start = max 0 (c_first r - ctx);
          hunk_end = min (int (length ops) - 1) (c_last r + ctx);
          hops = take (nat (hunk_end + 1 - hunk_start)) (drop (nat hunk_start) ops);
          (h, first_old, first_new) =
            fold scan_op hops (\<lparr>h_old_start = 0, h_old_count = 0, h_new_start = 0, h_new_count = 0, h_ops = hops\<rparr>, True, True);
          h = (if first_old then h\<lparr>h_old_start := look_back old_idx ops (nat hunk_start) (h_old_start h)\<rparr> else h);
          h = (if first_new then h\<lparr>h_new_start := look_back new_idx ops (nat hunk_start) (h_new_start h)\<rparr> else h)
      in h)"

definition build_hunks :: "edit_op list \<Rightarrow> int \<Rightarrow> hunk list" where
  "build_hunks ops ctx =
     (if ops = [] then []
      else let changes = change_ranges ops 0 [] in
        if changes = [] then []
        else map (make_hunk ops ctx) (merge_ranges ctx (tl changes) [hd changes]))"

section \<open>Ranges of changes\<close>

definition spans :: "int \<Rightarrow> int \<Rightarrow> change_range list \<Rightarrow> bool" where
  "spans n gap rs \<longleftrightarrow>
     (\<forall>r \<in> set rs. 0 \<le> c_first r \<and> c_first r \<le> c_last r \<and> c_last r < n) \<and>
     sorted_wrt (\<lambda>r s. gap < c_first s - c_last r) rs"

definition covers :: "change_range list \<Rightarrow> int \<Rightarrow> bool" where
  "covers rs i \<longleftrightarrow> (\<exists>r \<in> set rs. c_first r \<le> i \<and> i \<le> c_last r)"

lemma covers_simps [simp]:
  "\<not> covers [] i"
  "covers (r # rs) i \<longleftrightarrow> (c_first r \<le> i \<and> i \<le> c_last r) \<or> covers rs i"
  "covers (rs @ ss) i \<longleftrightarrow> covers rs i \<or> covers ss i"
  by (auto simp: covers_def)

lemma spans_Nil [simp]: "spans n gap []"
  by (simp add: spans_def)

lemma spans_snoc [simp]:
  "spans n gap (rs @ [r]) \<longleftrightarrow>
     spans n gap rs \<and> 0 \<le> c_first r \<and> c_first r \<le> c_last r \<and> c_last r < n \<and>
     (\<forall>s \<in> set rs. gap < c_first r - c_last s)"
  by (auto simp: spans_def sorted_wrt_append)

lemma spans_Cons [simp]:
  "spans n gap (r # rs) \<longleftrightarrow>
     spans n gap rs \<and> 0 \<le> c_first r \<and> c_first r \<le> c_last r \<and> c_last r < n \<and>
     (\<forall>s \<in> set rs. gap < c_first s - c_last r)"
  by (auto simp: spans_def)

lemma spans_mono: "spans n gap rs \<Longrightarrow> n \<le> m \<Longrightarrow> spans m gap rs"
  by (force simp: spans_def)

lemma add_change_spans:
  assumes "spans i 1 cs" "0 \<le> i"
  shows "spans (i + 1) 1 (add_change i cs) \<and>
         (\<forall>k. covers (add_change i cs) k \<longleftrightarrow> covers cs k \<or> k = i)"
proof (cases cs rule: rev_cases)
  case Nil
  with assms show ?thesis by (auto simp: add_change_def spans_def)
next
  case (snoc rs r)
  then have r: "spans i 1 rs" "0 \<le> c_first r" "c_first r \<le> c_last r" "c_last r < i"
    "\<And>s. s \<in> set rs \<Longrightarrow> 1 < c_first r - c_last s"
    using assms by auto
  have rs: "spans (i + 1) 1 rs" using spans_mono[OF r(1)] by simp
  show ?thesis
  proof (cases "i > c_last r + 1")
    case True
    then have eq: "add_change i cs = cs @ [\<lparr>c_first = i, c_last = i\<rparr>]"
      using snoc by (simp add: add_change_def)
    have "\<forall>s \<in> set cs. 1 < i - c_last s"
      using r(2-5) True snoc by fastforce
    moreover have "spans (i + 1) 1 cs" using spans_mono[OF assms(1)] by simp
    ultimately show ?thesis unfolding eq using assms(2) by auto
  next
    case False
    with r rs snoc assms show ?thesis by (fastforce simp: add_change_def)
  qed
qed

lemma change_ranges_spans:
  assumes "spans i 1 cs" "0 \<le> i"
  shows "spans (i + int (length ps)) 1 (change_ranges ps i cs) \<and>
         (\<forall>k. covers (change_ranges ps i cs) k \<longleftrightarrow>
            covers cs k \<or> (i \<le> k \<and> k < i + int (length ps) \<and> ty (ps ! nat (k - i)) \<noteq> OpE))"
  using assms
proof (induction ps arbitrary: i cs)
  case (Cons p ps)
  let ?cs = "if ty p \<noteq> OpE then add_change i cs else cs"
  have cs: "spans (i + 1) 1 ?cs" "\<And>k. covers ?cs k \<longleftrightarrow> covers cs k \<or> (k = i \<and> ty p \<noteq> OpE)"
    using add_change_spans[OF Cons.prems] spans_mono[OF Cons.prems(1), of "i + 1"] by auto
  note IH = Cons.IH[OF cs(1)]
  have idx: "(i \<le> k \<and> k < i + int (length (p # ps)) \<and> ty ((p # ps) ! nat (k - i)) \<noteq> OpE) \<longleftrightarrow>
      (k = i \<and> ty p \<noteq> OpE) \<or>
      (i + 1 \<le> k \<and> k < i + 1 + int (length ps) \<and> ty (ps ! nat (k - (i + 1))) \<noteq> OpE)" for k
  proof (cases "k \<le> i")
    case False
    then have "nat (k - i) = Suc (nat (k - (i + 1)))" by linarith
    then show ?thesis using False by auto
  qed auto
  have "change_ranges (p # ps) i cs = change_ranges ps (i + 1) ?cs" by simp
  then show ?case
    unfolding idx using IH Cons.prems(2) cs(2) by (auto simp: algebra_simps)
qed auto

lemma merge_ranges_spans:
  assumes "spans n 1 (merged @ rs)" "spans n (2 * ctx) merged" "merged \<noteq> []"
  shows "spans n (2 * ctx) (merge_ranges ctx rs merged) \<and>
         (\<forall>k. covers (merged @ rs) k \<longrightarrow> covers (merge_ranges ctx rs merged) k)"
  using assms
proof (induction rs arbitrary: merged)
  case (Cons r rs)
  from Cons.prems(3) obtain ms m where m: "merged = ms @ [m]" by (cases merged rule: rev_cases) auto
  note P = Cons.prems(1,2)[unfolded m]
  have ms: "spans n (2 * ctx) ms" "0 \<le> c_first m" "c_first m \<le> c_last m" "c_last m < n"
    "\<And>s. s \<in> set ms \<Longrightarrow> 2 * ctx < c_first m - c_last s"
    using P(2) by auto
  have r: "0 \<le> c_first r" "c_first r \<le> c_last r" "c_last r < n" "1 < c_first r - c_last m"
    using P(1) by (auto simp: spans_def sorted_wrt_append)
  show ?case
  proof (cases "c_first r - c_last m \<le> 2 * ctx")
    case True
    let ?m = "ms @ [m\<lparr>c_last := c_last r\<rparr>]"
    have "spans n 1 (?m @ rs)" using P(1) by (auto simp: spans_def sorted_wrt_append)
    moreover have "spans n (2 * ctx) ?m" using ms r by auto
    ultimately have IH: "spans n (2 * ctx) (merge_ranges ctx rs ?m)"
      "\<And>k. covers (?m @ rs) k \<Longrightarrow> covers (merge_ranges ctx rs ?m) k"
      using Cons.IH[of ?m] by blast+
    have "merge_ranges ctx (r # rs) merged = merge_ranges ctx rs ?m" using m True by simp
    then show ?thesis using IH r ms(3) m by auto
  next
    case False
    let ?m = "merged @ [r]"
    have "2 * ctx < c_first r - c_last s" if "s \<in> set merged" for s
      using that ms(2-4) ms(5)[of s] False m r by fastforce
    then have "spans n (2 * ctx) ?m" using Cons.prems(2) r by simp
    moreover have "spans n 1 (?m @ rs)" using Cons.prems(1) by simp
    ultimately have IH: "spans n (2 * ctx) (merge_ranges ctx rs ?m)"
      "\<And>k. covers (?m @ rs) k \<Longrightarrow> covers (merge_ranges ctx rs ?m) k"
      using Cons.IH[of ?m] by blast+
    have "merge_ranges ctx (r # rs) merged = merge_ranges ctx rs ?m" using m False by simp
    moreover have "covers (?m @ rs) k" if "covers (merged @ r # rs) k" for k
      using that by simp
    ultimately show ?thesis using IH by presburger
  qed
qed simp

section \<open>Headers\<close>

lemma scan_op_simps:
  "scan_op (eq_op i j) (h, fo, fn) =
     (h\<lparr>h_old_start := (if fo then i + 1 else h_old_start h), h_old_count := h_old_count h + 1,
        h_new_start := (if fn then j + 1 else h_new_start h), h_new_count := h_new_count h + 1\<rparr>, False, False)"
  "scan_op (del_op i) (h, fo, fn) =
     (h\<lparr>h_old_start := (if fo then i + 1 else h_old_start h), h_old_count := h_old_count h + 1\<rparr>, False, fn)"
  "scan_op (ins_op j) (h, fo, fn) =
     (h\<lparr>h_new_start := (if fn then j + 1 else h_new_start h), h_new_count := h_new_count h + 1\<rparr>, fo, False)"
  by (simp_all add: scan_op_def see_old_line_def see_new_line_def)

lemma fold_scan_op:
  assumes "script_from a b i j hops i' j'"
  shows "fold scan_op hops (h, fo, fn) =
    (h\<lparr>h_old_start := (if fo \<and> i < i' then i + 1 else h_old_start h),
       h_old_count := h_old_count h + (i' - i),
       h_new_start := (if fn \<and> j < j' then j + 1 else h_new_start h),
       h_new_count := h_new_count h + (j' - j)\<rparr>, fo \<and> i = i', fn \<and> j = j')"
  using assms
proof (induction hops arbitrary: i j h fo fn)
  case (Cons p ps)
  show ?case
  proof (cases "ty p")
    case OpE
    with Cons.prems have p: "p = eq_op i j" and r: "script_from a b (i + 1) (j + 1) ps i' j'" by auto
    from script_from_mono[OF r] show ?thesis
      by (simp add: Cons.IH[OF r] p scan_op_simps)
  next
    case OpD
    with Cons.prems have p: "p = del_op i" and r: "script_from a b (i + 1) j ps i' j'" by auto
    from script_from_mono[OF r] show ?thesis
      by (simp add: Cons.IH[OF r] p scan_op_simps)
  next
    case OpI
    with Cons.prems have p: "p = ins_op j" and r: "script_from a b i (j + 1) ps i' j'" by auto
    from script_from_mono[OF r] show ?thesis
      by (simp add: Cons.IH[OF r] p scan_op_simps)
  qed
qed simp

lemma look_back_script:
  assumes "script_from a b 0 0 (take s ops) i j" "s \<le> length ops"
  shows "look_back old_idx ops s 0 = i \<and> look_back new_idx ops s 0 = j"
  using assms
proof (induction s arbitrary: i j)
  case (Suc s)
  then have "script_from a b 0 0 (take s ops @ [ops ! s]) i j" by (simp add: take_Suc_conv_app_nth)
  then obtain k l where kl: "script_from a b 0 0 (take s ops) k l" "script_from a b k l [ops ! s] i j"
    by (auto simp: script_from_append)
  from Suc.IH[OF kl(1)] Suc.prems(2) have IH: "look_back old_idx ops s 0 = k" "look_back new_idx ops s 0 = l"
    by simp_all
  from kl(2) IH script_from_mono[OF kl(1)] show ?case
    by (cases "ty (ops ! s)") auto
qed simp

section \<open>Hunks of a script\<close>

definition hunk_at :: "lines \<Rightarrow> lines \<Rightarrow> int \<Rightarrow> int \<Rightarrow> hunk \<Rightarrow> int \<Rightarrow> int \<Rightarrow> bool" where
  "hunk_at a b i j h i' j' \<longleftrightarrow>
     script_from a b i j (h_ops h) i' j' \<and> (\<exists>p \<in> set (h_ops h). ty p \<noteq> OpE) \<and>
     h_old_count h = i' - i \<and> h_new_count h = j' - j \<and>
     h_old_start h = (if i < i' then i + 1 else i) \<and>
     h_new_start h = (if j < j' then j + 1 else j)"

text \<open>With context, a hunk opens with a kept line unless it sits at the start of both files, and
  closes with one unless it reaches the end of both.\<close>

definition framed :: "lines \<Rightarrow> lines \<Rightarrow> int \<Rightarrow> int \<Rightarrow> int \<Rightarrow> int \<Rightarrow> bool" where
  "framed a b i j i' j' \<longleftrightarrow>
     (i = 0 \<and> j = 0 \<or> i < i' \<and> j < j') \<and>
     (i' = int (length a) \<and> j' = int (length b) \<or>
      i < i' \<and> j < j' \<and> i' < int (length a) \<and> j' < int (length b))"

inductive hunk_chain ::
  "lines \<Rightarrow> lines \<Rightarrow> edit_op list \<Rightarrow> int \<Rightarrow> int \<Rightarrow> int \<Rightarrow> hunk list \<Rightarrow> bool" for a b ops ctx where
  chain_end: "script_from a b i j gap (int (length a)) (int (length b)) \<Longrightarrow>
     \<forall>p \<in> set gap. ty p = OpE \<Longrightarrow> set gap \<subseteq> set ops \<Longrightarrow> hunk_chain a b ops ctx i j []"
| chain_hunk: "script_from a b i j gap i1 j1 \<Longrightarrow> \<forall>p \<in> set gap. ty p = OpE \<Longrightarrow>
     hunk_at a b i1 j1 h i2 j2 \<Longrightarrow> 1 \<le> ctx \<longrightarrow> framed a b i1 j1 i2 j2 \<Longrightarrow>
     hunk_chain a b ops ctx i2 j2 hs \<Longrightarrow> hunk_chain a b ops ctx i j (h # hs)"

inductive_cases hunk_chain_NilE: "hunk_chain a b ops ctx i j []"
inductive_cases hunk_chain_ConsE: "hunk_chain a b ops ctx i j (h # hs)"
inductive_simps hunk_chain_Nil: "hunk_chain a b ops ctx i j []"

lemma framed_ops:
  assumes "script_from a b i j ps i' j'" "script_from a b i' j' qs (int (length a)) (int (length b))"
    "i = 0 \<and> j = 0 \<or> ty (hd ps) = OpE" "qs = [] \<or> ty (last ps) = OpE \<and> ty (hd qs) = OpE" "ps \<noteq> []"
  shows "framed a b i j i' j'"
proof -
  have hd: "i < i' \<and> j < j'" if "ty (hd ps) = OpE"
    using that assms(1,5) script_from_mono[of a b "i + 1" "j + 1" "tl ps" i' j'] by (cases ps) auto
  have lst: "i < i' \<and> j < j'" if l: "ty (last ps) = OpE"
  proof -
    have "script_from a b i j (butlast ps @ [last ps]) i' j'" using assms(1,5) by simp
    then obtain k l where "script_from a b i j (butlast ps) k l" "script_from a b k l [last ps] i' j'"
      unfolding script_from_append by blast
    then show ?thesis using script_from_mono[of a b i j "butlast ps" k l] l by auto
  qed
  have "i' < int (length a) \<and> j' < int (length b)" if "qs \<noteq> []" "ty (hd qs) = OpE"
    using that assms(2) by (cases qs) auto
  with assms hd lst show ?thesis unfolding framed_def by (cases "qs = []") auto
qed

lemma make_hunk_at:
  assumes "script_from a b 0 0 (take s ops) i j" "s \<le> e" "e \<le> length ops"
    "script_from a b i j (take (e - s) (drop s ops)) i' j'"
    "int s = max 0 (c_first r - ctx)" "int e = min (int (length ops) - 1) (c_last r + ctx) + 1"
    "\<exists>p \<in> set (take (e - s) (drop s ops)). ty p \<noteq> OpE"
  shows "hunk_at a b i j (make_hunk ops ctx r) i' j' \<and> h_ops (make_hunk ops ctx r) = take (e - s) (drop s ops)"
proof -
  let ?h = "\<lparr>h_old_start = 0, h_old_count = 0, h_new_start = 0, h_new_count = 0, h_ops = take (e - s) (drop s ops)\<rparr>"
  have s: "nat (max 0 (c_first r - ctx)) = s" using assms(5) by linarith
  have n: "nat (min (int (length ops) - 1) (c_last r + ctx) + 1 - max 0 (c_first r - ctx)) = e - s"
    using assms(5,6) by linarith
  have lb: "look_back old_idx ops s 0 = i" "look_back new_idx ops s 0 = j"
    using look_back_script[OF assms(1)] assms(2,3) by auto
  from script_from_mono[OF assms(4)] assms(4,7) show ?thesis
    unfolding make_hunk_def Let_def s n fold_scan_op[OF assms(4)] hunk_at_def
    by (auto simp: lb)
qed

lemma make_hunks_chain:
  assumes "spans (int (length ops)) (2 * ctx) rs" "0 \<le> ctx"
    "script_from a b 0 0 (take pos ops) i j"
    "script_from a b i j (drop pos ops) (int (length a)) (int (length b))"
    "pos \<le> length ops" "\<And>r. r \<in> set rs \<Longrightarrow> int pos \<le> max 0 (c_first r - ctx)"
    "\<And>r. r \<in> set rs \<Longrightarrow> ty (ops ! nat (c_first r)) \<noteq> OpE"
    "\<And>k. pos \<le> k \<Longrightarrow> k < length ops \<Longrightarrow> ty (ops ! k) \<noteq> OpE \<Longrightarrow> covers rs (int k)"
  shows "hunk_chain a b ops ctx i j (map (make_hunk ops ctx) rs)"
  using assms
proof (induction rs arbitrary: pos i j)
  case Nil
  have "ty p = OpE" if "p \<in> set (drop pos ops)" for p
  proof -
    from that obtain t where t: "t < length ops - pos" "p = ops ! (pos + t)"
      by (auto simp: in_set_conv_nth)
    then have "pos + t < length ops" by linarith
    then show ?thesis using Nil.prems(8)[of "pos + t"] t by auto
  qed
  then show ?case using Nil.prems(4) by (auto intro!: chain_end[of a b i j "drop pos ops"] dest: in_set_dropD)
next
  case (Cons r rs)
  define s where "s = nat (max 0 (c_first r - ctx))"
  define e where "e = nat (min (int (length ops) - 1) (c_last r + ctx) + 1)"
  have r: "0 \<le> c_first r" "c_first r \<le> c_last r" "c_last r < int (length ops)"
    "\<And>q. q \<in> set rs \<Longrightarrow> 2 * ctx < c_first q - c_last r"
    and rs: "spans (int (length ops)) (2 * ctx) rs"
    using Cons.prems(1) by auto
  have se: "int s = max 0 (c_first r - ctx)" "int e = min (int (length ops) - 1) (c_last r + ctx) + 1"
    "pos \<le> s" "s < e" "e \<le> length ops" "int s \<le> c_first r" "c_first r < int e"
    using r Cons.prems(2) Cons.prems(6)[of r] by (auto simp: s_def e_def)
  let ?gap = "take (s - pos) (drop pos ops)"
  let ?hop = "take (e - s) (drop s ops)"
  have split: "drop pos ops = ?gap @ ?hop @ drop e ops"
    using se(3-5) by (metis append_assoc append_take_drop_id drop_drop le_add_diff_inverse2 less_imp_le)
  have whole: "script_from a b i j (?gap @ ?hop @ drop e ops) (int (length a)) (int (length b))"
    by (subst split[symmetric]) (rule Cons.prems(4))
  obtain i1 j1 i2 j2 where ss: "script_from a b i j ?gap i1 j1" "script_from a b i1 j1 ?hop i2 j2"
    "script_from a b i2 j2 (drop e ops) (int (length a)) (int (length b))"
    using whole unfolding script_from_append by blast
  have gapE: "ty p = OpE" if p: "p \<in> set ?gap" for p
  proof (rule ccontr)
    assume ne: "ty p \<noteq> OpE"
    obtain t where t: "t < s - pos" "p = ops ! (pos + t)"
      using p se(3-5) by (auto simp: in_set_conv_nth)
    have "pos + t < length ops" using t(1) se(3-5) by linarith
    then have "covers (r # rs) (int (pos + t))" using Cons.prems(8)[of "pos + t"] ne t(2) by simp
    then obtain q where q: "q \<in> set (r # rs)" "c_first q \<le> int (pos + t)" by (auto simp: covers_def)
    have "c_first r \<le> c_first q" using q(1) r(2) r(4)[of q] Cons.prems(2) by fastforce
    then show False using t(1) se(6) q(2) by linarith
  qed
  have pre: "script_from a b 0 0 (take s ops) i1 j1"
  proof -
    have "take s ops = take pos ops @ ?gap" using se(3) by (metis le_add_diff_inverse take_add)
    then show ?thesis using Cons.prems(3) ss(1) by auto
  qed
  have pre2: "script_from a b 0 0 (take e ops) i2 j2"
  proof -
    have "take e ops = take s ops @ ?hop" using se(4) by (metis le_add_diff_inverse less_imp_le take_add)
    then show ?thesis using pre ss(2) by auto
  qed
  have chg: "\<exists>p \<in> set ?hop. ty p \<noteq> OpE"
  proof -
    have "?hop ! (nat (c_first r) - s) = ops ! nat (c_first r)" "nat (c_first r) - s < length ?hop"
      using se by auto
    then show ?thesis using Cons.prems(7)[of r] nth_mem[of "nat (c_first r) - s" ?hop] by auto
  qed
  have h: "hunk_at a b i1 j1 (make_hunk ops ctx r) i2 j2"
    using make_hunk_at[OF pre _ se(5) ss(2) se(1,2) chg] se(4) by simp
  have after: "c_first r \<le> c_first q" if "q \<in> set (r # rs)" for q
    using that r(2) r(4)[of q] Cons.prems(2) by fastforce
  have frame: "framed a b i1 j1 i2 j2" if ctx: "1 \<le> ctx"
  proof (rule framed_ops[OF ss(2,3)])
    show "i1 = 0 \<and> j1 = 0 \<or> ty (hd ?hop) = OpE"
    proof (cases "s = 0")
      case True
      then show ?thesis using pre by simp
    next
      case False
      then have "int s < c_first r" using se(1) ctx by linarith
      then have "\<not> covers (r # rs) (int s)" using after unfolding covers_def by (meson not_le order_trans)
      then have "ty (ops ! s) = OpE" using Cons.prems(8)[of s] se(3-5) by auto
      then show ?thesis using se(4,5) by (simp add: hd_drop_conv_nth hd_take)
    qed
    have out: "ty (ops ! k) = OpE" if k: "c_last r < int k" "int k \<le> c_last r + 2 * ctx" "k < length ops" for k
    proof -
      have "\<not> covers (r # rs) (int k)" using k r(4) by (fastforce simp: covers_def)
      then show ?thesis using Cons.prems(8)[of k] k se r(1,2) by auto
    qed
    show "drop e ops = [] \<or> ty (last ?hop) = OpE \<and> ty (hd (drop e ops)) = OpE"
    proof (cases "e = length ops")
      case False
      then have e: "int e = c_last r + ctx + 1" "e < length ops" using se(2,5) by linarith+
      have "last ?hop = ops ! (e - 1)" using se(4,5) by (simp add: last_conv_nth)
      then show ?thesis using out[of "e - 1"] out[of e] e ctx by (auto simp: hd_drop_conv_nth of_nat_diff)
    qed simp
    show "?hop \<noteq> []" using se(4,5) by simp
  qed
  have "hunk_chain a b ops ctx i2 j2 (map (make_hunk ops ctx) rs)"
  proof (rule Cons.IH[OF rs Cons.prems(2) pre2 ss(3) se(5)])
    show "int e \<le> max 0 (c_first q - ctx)" if "q \<in> set rs" for q
      using r(4)[OF that] se(2) by linarith
    show "ty (ops ! nat (c_first q)) \<noteq> OpE" if "q \<in> set rs" for q
      using Cons.prems(7)[of q] that by simp
    show "covers rs (int k)" if "e \<le> k" "k < length ops" "ty (ops ! k) \<noteq> OpE" for k
      using Cons.prems(8)[of k] that se Cons.prems(2) by auto
  qed
  with ss(1) gapE h frame show ?case by (auto intro!: chain_hunk[of a b i j ?gap i1 j1])
qed

lemma merge_ranges_firsts:
  "merged \<noteq> [] \<Longrightarrow> c_first ` set (merge_ranges ctx rs merged) \<subseteq> c_first ` set (merged @ rs)"
proof (induction rs arbitrary: merged)
  case (Cons r rs)
  obtain ms m where m: "merged = ms @ [m]" using Cons.prems by (cases merged rule: rev_cases) auto
  show ?case
    using Cons.IH[of "ms @ [m\<lparr>c_last := c_last r\<rparr>]"] Cons.IH[of "merged @ [r]"] m
    by (cases "c_first r - c_last m \<le> 2 * ctx") auto
qed simp

lemma change_ranges_firsts:
  assumes "\<And>r. r \<in> set cs \<Longrightarrow> 0 \<le> c_first r \<and> ty ((pre @ ps) ! nat (c_first r)) \<noteq> OpE"
    "i = int (length pre)" "r \<in> set (change_ranges ps i cs)"
  shows "ty ((pre @ ps) ! nat (c_first r)) \<noteq> OpE"
  using assms
proof (induction ps arbitrary: pre i cs)
  case (Cons p ps)
  let ?cs = "if ty p \<noteq> OpE then add_change i cs else cs"
  have "0 \<le> c_first q \<and> ty (((pre @ [p]) @ ps) ! nat (c_first q)) \<noteq> OpE" if "q \<in> set ?cs" for q
  proof -
    from that consider "q \<in> set cs" | "ty p \<noteq> OpE" "c_first q = i"
      | "cs \<noteq> []" "c_first q = c_first (last cs)"
      by (auto simp: add_change_def split: if_splits dest: in_set_butlastD)
    then show ?thesis using Cons.prems(1)[of q] Cons.prems(1)[of "last cs"] Cons.prems(2)
      by cases (auto simp: nth_append)
  qed
  moreover have "i + 1 = int (length (pre @ [p]))" using Cons.prems(2) by simp
  moreover have "r \<in> set (change_ranges ps (i + 1) ?cs)" using Cons.prems(3) by simp
  ultimately have "ty (((pre @ [p]) @ ps) ! nat (c_first r)) \<noteq> OpE" by (rule Cons.IH)
  then show ?case by simp
qed auto

text \<open>The specification of \<open>build_hunks\<close>.\<close>

lemma build_hunks_chain:
  assumes s: "edit_script a b ops" and ctx: "0 \<le> ctx"
  shows "hunk_chain a b ops ctx 0 0 (build_hunks ops ctx)"
proof -
  let ?n = "int (length ops)"
  let ?cs = "change_ranges ops 0 []"
  have cs: "spans ?n 1 ?cs" "\<And>k. covers ?cs k \<longleftrightarrow> 0 \<le> k \<and> k < ?n \<and> ty (ops ! nat k) \<noteq> OpE"
    using change_ranges_spans[of 0 "[]" ops] by auto
  show ?thesis
  proof (cases "?cs = []")
    case True
    then have "ty p = OpE" if "p \<in> set ops" for p
      using cs(2) that by (auto simp: in_set_conv_nth) (metis int_nat_eq nat_int of_nat_0_le_iff of_nat_less_iff)
    then show ?thesis
      using s True by (auto simp: build_hunks_def edit_script_def intro!: chain_end[of a b 0 0 ops])
  next
    case False
    let ?m = "merge_ranges ctx (tl ?cs) [hd ?cs]"
    have hd: "[hd ?cs] @ tl ?cs = ?cs" using False by simp
    have "0 \<le> c_first (hd ?cs) \<and> c_first (hd ?cs) \<le> c_last (hd ?cs) \<and> c_last (hd ?cs) < ?n"
      using cs(1) False hd_in_set by (auto simp: spans_def)
    then have m: "spans ?n (2 * ctx) ?m" "\<And>k. covers ?cs k \<Longrightarrow> covers ?m k"
      using merge_ranges_spans[of ?n "[hd ?cs]" "tl ?cs" ctx] cs(1) unfolding hd by auto
    have f: "ty (ops ! nat (c_first r)) \<noteq> OpE" if "r \<in> set ?m" for r
    proof -
      from merge_ranges_firsts[of "[hd ?cs]" ctx "tl ?cs"] that obtain q where
        "q \<in> set ?cs" "c_first q = c_first r" unfolding hd by auto
      then show ?thesis using change_ranges_firsts[of "[]" "[]" ops 0 q] by simp
    qed
    have "hunk_chain a b ops ctx 0 0 (map (make_hunk ops ctx) ?m)"
      by (rule make_hunks_chain[where pos = 0, OF m(1) ctx])
        (use s f m(2) cs(2) in \<open>auto simp: edit_script_def\<close>)
    moreover have "build_hunks ops ctx = map (make_hunk ops ctx) ?m"
      using False by (auto simp: build_hunks_def Let_def)
    ultimately show ?thesis by simp
  qed
qed

text \<open>The hunks replayed over the unchanged rest give the new file.\<close>

fun replay_hunks :: "lines \<Rightarrow> lines \<Rightarrow> int \<Rightarrow> hunk list \<Rightarrow> lines" where
  "replay_hunks a b i [] = drop (nat i) a"
| "replay_hunks a b i (h # hs) =
     (let s = (if h_old_count h = 0 then h_old_start h else h_old_start h - 1) in
      take (nat (s - i)) (drop (nat i) a) @ new_side b (h_ops h) @ replay_hunks a b (s + h_old_count h) hs)"

lemma equal_gap:
  assumes "script_from a b i j gap i' j'" "\<forall>p \<in> set gap. ty p = OpE" "0 \<le> i" "0 \<le> j"
  shows "i' - i = j' - j" "take (nat (i' - i)) (drop (nat i) a) = take (nat (j' - j)) (drop (nat j) b)"
proof -
  have "i' - i = j' - j \<and> take (nat (i' - i)) (drop (nat i) a) = take (nat (j' - j)) (drop (nat j) b)"
    using assms
  proof (induction gap arbitrary: i j)
    case (Cons p ps)
    then have p: "i < int (length a)" "j < int (length b)" "a ! nat i = b ! nat j"
      and r: "script_from a b (i + 1) (j + 1) ps i' j'" by auto
    from Cons.IH[OF r] Cons.prems have IH: "i' - (i + 1) = j' - (j + 1)"
      "take (nat (i' - (i + 1))) (drop (nat (i + 1)) a) = take (nat (j' - (j + 1))) (drop (nat (j + 1)) b)"
      by auto
    have n: "nat (i' - (i + 1)) = nat (j' - (j + 1))" using IH(1) by simp
    have "nat (i' - i) = Suc (nat (j' - (j + 1)))" "nat (j' - j) = Suc (nat (j' - (j + 1)))"
      using script_from_mono[OF r] IH(1) by linarith+
    moreover have "i' - i = j' - j" using IH(1) by simp
    ultimately show ?case
      using IH(2)[unfolded n] p Cons.prems(3,4) by (simp add: drop_conv_nth_int)
  qed simp
  then show "i' - i = j' - j" "take (nat (i' - i)) (drop (nat i) a) = take (nat (j' - j)) (drop (nat j) b)"
    by auto
qed

lemma replay_hunks_chain:
  assumes "hunk_chain a b ops ctx i j hs" "0 \<le> i" "0 \<le> j" "i \<le> int (length a)" "j \<le> int (length b)"
  shows "replay_hunks a b i hs = drop (nat j) b"
  using assms
proof (induction rule: hunk_chain.induct)
  case (chain_end i j gap)
  from equal_gap[OF chain_end(1,2) chain_end.prems(1,2)] show ?case
    using script_from_mono[OF chain_end(1)] by (simp add: nat_diff_distrib)
next
  case (chain_hunk i j gap i1 j1 h i2 j2 hs)
  from script_from_mono[OF chain_hunk(1)] chain_hunk.prems
  have m: "i \<le> i1" "j \<le> j1" "0 \<le> i1" "0 \<le> j1" by auto
  from chain_hunk(3) have h: "script_from a b i1 j1 (h_ops h) i2 j2"
    "(if h_old_count h = 0 then h_old_start h else h_old_start h - 1) = i1" "i1 + h_old_count h = i2"
    using script_from_mono[of a b i1 j1 "h_ops h" i2 j2] by (auto simp: hunk_at_def)
  from script_from_mono[OF h(1)] m have m2: "0 \<le> i2" "0 \<le> j2" "j1 \<le> j2" by auto
  have u: "i1 \<le> int (length a)" "j1 \<le> int (length b)"
    using script_from_upper[OF chain_hunk(1)] chain_hunk.prems by auto
  have IH: "replay_hunks a b i2 hs = drop (nat j2) b"
    using chain_hunk.IH m2 script_from_upper[OF h(1) u] by blast
  have n: "take (nat j1) b @ new_side b (h_ops h) = take (nat j2) b"
    by (rule script_new_side[OF h(1) m(4)])
  have "take (nat (j1 - j)) (drop (nat j) b) @ new_side b (h_ops h) @ drop (nat j2) b = drop (nat j) b"
  proof -
    have "nat j \<le> length (take (nat j1) b)" using m u by simp
    then have "drop (nat j) (take (nat j1) b @ new_side b (h_ops h) @ drop (nat j2) b) =
        drop (nat j) (take (nat j1) b) @ new_side b (h_ops h) @ drop (nat j2) b"
      by (simp only: drop_append diff_is_0_eq' drop_0)
    moreover have "drop (nat j) (take (nat j1) b) = take (nat (j1 - j)) (drop (nat j) b)"
      using m chain_hunk.prems by (simp add: drop_take nat_diff_distrib)
    moreover have "take (nat j1) b @ new_side b (h_ops h) @ drop (nat j2) b = b"
      using n by (metis append_assoc append_take_drop_id)
    ultimately show ?thesis by simp
  qed
  then show ?case
    using IH h(2,3) equal_gap(2)[OF chain_hunk(1,2) chain_hunk.prems(1,2)] by (simp add: Let_def)
qed

end
