(* ===== verification/Diff_Format.thy ===== *)
theory Diff_Format
  imports Diff_Hunks Quilt_Strings
begin

text \<open>
  Files as lines (\<open>split_file_lines\<close>) and the two printers of the diff engine of
  \<open>src/src/quilt.cpp\<close>: \<open>format_unified\<close> and \<open>format_context\<close>. The
  printed unified diff is described as a list of lines, one block per hunk.
\<close>

section \<open>Files as lines\<close>

record file_lines =
  fl_lines :: lines
  fl_trailing_nl :: bool

text \<open>The loop over the bytes: the line being read, then the rest of the content.\<close>

fun split_loop :: "string \<Rightarrow> string \<Rightarrow> lines" where
  "split_loop cur [] = (if cur = [] then [] else [cur])"
| "split_loop cur (c # s) = (if c = nl then cur # split_loop [] s else split_loop (cur @ [c]) s)"

definition split_file_lines :: "string \<Rightarrow> file_lines" where
  "split_file_lines content =
     (if content = [] then \<lparr>fl_lines = [], fl_trailing_nl = True\<rparr>
      else \<lparr>fl_lines = split_loop [] content, fl_trailing_nl = (last content = nl)\<rparr>)"

text \<open>The content back from the lines.\<close>

definition join_lines :: "lines \<Rightarrow> bool \<Rightarrow> string" where
  "join_lines ls trailing =
     (if ls = [] then [] else if trailing then unlines ls else unlines (butlast ls) @ last ls)"

section \<open>Unified format\<close>

definition no_newline_text :: string where
  "no_newline_text = bslash # '' No newline at end of file''"

definition no_newline_mark :: string where
  "no_newline_mark = no_newline_text @ [nl]"

definition unified_header :: "hunk \<Rightarrow> string" where
  "unified_header h =
     (if h_old_count h = 1 \<and> h_new_count h = 1 then
        ''@@ -'' @ int_str (h_old_start h) @ '' +'' @ int_str (h_new_start h) @ '' @@''
      else if h_old_count h = 1 then
        ''@@ -'' @ int_str (h_old_start h) @ '' +'' @ int_str (h_new_start h) @ '','' @ int_str (h_new_count h) @ '' @@''
      else if h_new_count h = 1 then
        ''@@ -'' @ int_str (h_old_start h) @ '','' @ int_str (h_old_count h) @ '' +'' @ int_str (h_new_start h) @ '' @@''
      else
        ''@@ -'' @ int_str (h_old_start h) @ '','' @ int_str (h_old_count h) @
        '' +'' @ int_str (h_new_start h) @ '','' @ int_str (h_new_count h) @ '' @@'')"

definition unified_op :: "lines \<Rightarrow> lines \<Rightarrow> bool \<Rightarrow> bool \<Rightarrow> edit_op \<Rightarrow> string" where
  "unified_op a b old_nl new_nl p = (case ty p of
       OpE \<Rightarrow>
         let last_old = (old_idx p = int (length a) - 1);
             last_new = (new_idx p = int (length b) - 1);
             old_need_annot = (last_old \<and> \<not> old_nl);
             new_need_annot = (last_new \<and> \<not> new_nl)
         in if old_need_annot \<noteq> new_need_annot then
              ''-'' @ a ! nat (old_idx p) @ [nl] @ (if \<not> old_nl then no_newline_mark else []) @
              ''+'' @ b ! nat (new_idx p) @ [nl] @ (if \<not> new_nl then no_newline_mark else [])
            else
              '' '' @ a ! nat (old_idx p) @ [nl] @
              (if last_old \<and> \<not> old_nl \<and> last_new \<and> \<not> new_nl then no_newline_mark else [])
     | OpD \<Rightarrow> ''-'' @ a ! nat (old_idx p) @ [nl] @
         (if old_idx p = int (length a) - 1 \<and> \<not> old_nl then no_newline_mark else [])
     | OpI \<Rightarrow> ''+'' @ b ! nat (new_idx p) @ [nl] @
         (if new_idx p = int (length b) - 1 \<and> \<not> new_nl then no_newline_mark else []))"

definition format_unified ::
  "lines \<Rightarrow> lines \<Rightarrow> bool \<Rightarrow> bool \<Rightarrow> hunk list \<Rightarrow> string \<Rightarrow> string \<Rightarrow> string" where
  "format_unified a b old_nl new_nl hunks old_label new_label =
     ''--- '' @ old_label @ [nl] @ ''+++ '' @ new_label @ [nl] @
     concat (map (\<lambda>h. unified_header h @ [nl] @
       concat (map (unified_op a b old_nl new_nl) (h_ops h))) hunks)"

section \<open>Context format\<close>

record side_line =
  sl_prefix :: char
  sl_text :: string
  sl_no_newline :: bool

definition old_side_lines :: "lines \<Rightarrow> bool \<Rightarrow> char \<Rightarrow> edit_op list \<Rightarrow> side_line list" where
  "old_side_lines a old_nl pre = map (\<lambda>p.
     \<lparr>sl_prefix = pre, sl_text = a ! nat (old_idx p),
      sl_no_newline = (old_idx p = int (length a) - 1 \<and> \<not> old_nl)\<rparr>)"

definition new_side_lines :: "lines \<Rightarrow> bool \<Rightarrow> char \<Rightarrow> edit_op list \<Rightarrow> side_line list" where
  "new_side_lines b new_nl pre = map (\<lambda>p.
     \<lparr>sl_prefix = pre, sl_text = b ! nat (new_idx p),
      sl_no_newline = (new_idx p = int (length b) - 1 \<and> \<not> new_nl)\<rparr>)"

function context_sides ::
  "lines \<Rightarrow> lines \<Rightarrow> bool \<Rightarrow> bool \<Rightarrow> edit_op list \<Rightarrow> side_line list \<times> side_line list" where
  "context_sides a b old_nl new_nl [] = ([], [])"
| "context_sides a b old_nl new_nl (p # ps) =
     (if ty p = OpE then
        let onl = (old_idx p = int (length a) - 1 \<and> \<not> old_nl \<and> new_idx p = int (length b) - 1 \<and> \<not> new_nl);
            (os, ns) = context_sides a b old_nl new_nl ps
        in (\<lparr>sl_prefix = spc, sl_text = a ! nat (old_idx p), sl_no_newline = onl\<rparr> # os,
            \<lparr>sl_prefix = spc, sl_text = b ! nat (new_idx p), sl_no_newline = onl\<rparr> # ns)
      else
        let dels = takeWhile (\<lambda>p. ty p = OpD) (p # ps);
            rest = dropWhile (\<lambda>p. ty p = OpD) (p # ps);
            inss = takeWhile (\<lambda>p. ty p = OpI) rest;
            is_change = (dels \<noteq> [] \<and> inss \<noteq> []);
            (os, ns) = context_sides a b old_nl new_nl (dropWhile (\<lambda>p. ty p = OpI) rest)
        in (old_side_lines a old_nl (if is_change then CHR ''!'' else CHR ''-'') dels @ os,
            new_side_lines b new_nl (if is_change then CHR ''!'' else CHR ''+'') inss @ ns))"
  by pat_completeness auto
termination
proof (relation "measure (\<lambda>(_, _, _, _, ps). length ps)", goal_cases)
  case (3 a b old_nl new_nl p ps dels rest)
  show ?case
  proof (cases "ty p")
    case OpD
    then show ?thesis
      using 3 order_trans[OF length_dropWhile_le[of "\<lambda>p. ty p = OpI" "dropWhile (\<lambda>p. ty p = OpD) ps"]
          length_dropWhile_le[of "\<lambda>p. ty p = OpD" ps]]
      by (simp add: le_imp_less_Suc)
  next
    case OpI
    then show ?thesis using 3 by (auto intro!: le_imp_less_Suc length_dropWhile_le)
  qed (use 3 in simp)
qed auto

definition side_str :: "side_line list \<Rightarrow> string" where
  "side_str sls =
     (if \<exists>sl \<in> set sls. sl_prefix sl \<noteq> spc then
        concat (map (\<lambda>sl. [sl_prefix sl, spc] @ sl_text sl @ [nl] @
          (if sl_no_newline sl then no_newline_mark else [])) sls)
      else [])"

definition range_end :: "int \<Rightarrow> int \<Rightarrow> int" where
  "range_end start count = (if count = 0 then start else start + count - 1)"

definition context_hunk :: "lines \<Rightarrow> lines \<Rightarrow> bool \<Rightarrow> bool \<Rightarrow> hunk \<Rightarrow> string" where
  "context_hunk a b old_nl new_nl h =
     (let (os, ns) = context_sides a b old_nl new_nl (h_ops h) in
      ''***************'' @ [nl] @
      ''*** '' @ int_str (h_old_start h) @ '','' @ int_str (range_end (h_old_start h) (h_old_count h)) @ '' ****'' @ [nl] @
      side_str os @
      ''--- '' @ int_str (h_new_start h) @ '','' @ int_str (range_end (h_new_start h) (h_new_count h)) @ '' ----'' @ [nl] @
      side_str ns)"

definition format_context ::
  "lines \<Rightarrow> lines \<Rightarrow> bool \<Rightarrow> bool \<Rightarrow> hunk list \<Rightarrow> string \<Rightarrow> string \<Rightarrow> string" where
  "format_context a b old_nl new_nl hunks old_label new_label =
     ''*** '' @ old_label @ [nl] @ ''--- '' @ new_label @ [nl] @
     concat (map (context_hunk a b old_nl new_nl) hunks)"

section \<open>Laws: lines\<close>

lemma split_loop_line [text_simps]:
  "nl \<notin> set l \<Longrightarrow> split_loop cur (l @ nl # s) = (cur @ l) # split_loop [] s"
  by (induction l arbitrary: cur) auto

lemma split_loop_last [text_simps]:
  "nl \<notin> set l \<Longrightarrow> split_loop cur l = (if cur @ l = [] then [] else [cur @ l])"
  by (induction l arbitrary: cur) auto

lemma split_loop_no_nl: "nl \<notin> set cur \<Longrightarrow> l \<in> set (split_loop cur s) \<Longrightarrow> nl \<notin> set l"
  by (induction cur s rule: split_loop.induct) (auto split: if_splits)

lemma split_loop_nonempty: "cur @ s \<noteq> [] \<Longrightarrow> split_loop cur s \<noteq> []"
  by (induction cur s rule: split_loop.induct) auto

lemma join_split_loop:
  "s \<noteq> [] \<Longrightarrow> join_lines (split_loop cur s) (last s = nl) = cur @ s \<and> split_loop cur s \<noteq> []"
proof (induction cur s rule: split_loop.induct)
  case (2 cur c s)
  show ?case
  proof (cases "s = []")
    case True
    then show ?thesis by (auto simp: join_lines_def)
  next
    case False
    then have "split_loop x s \<noteq> []" for x
      by (simp add: split_loop_nonempty)
    then show ?thesis using 2 False by (auto simp: join_lines_def)
  qed
qed simp

text \<open>No byte is lost: the lines and the flag determine the content.\<close>

lemma join_split_file_lines:
  "join_lines (fl_lines (split_file_lines s)) (fl_trailing_nl (split_file_lines s)) = s"
  using join_split_loop[of s "[]"] by (auto simp: split_file_lines_def join_lines_def)

lemma split_file_lines_no_nl: "l \<in> set (fl_lines (split_file_lines s)) \<Longrightarrow> nl \<notin> set l"
  using split_loop_no_nl[of "[]"] by (auto simp: split_file_lines_def split: if_splits)

lemma split_loop_last_nonempty:
  "split_loop cur s \<noteq> [] \<Longrightarrow> s \<noteq> [] \<Longrightarrow> last s \<noteq> nl \<Longrightarrow> last (split_loop cur s) \<noteq> []"
proof (induction cur s rule: split_loop.induct)
  case (2 cur c s)
  then show ?case using split_loop_nonempty[of "[]" s] by (cases "s = []") (auto split: if_splits)
qed simp

end
