(* ===== verification/Patch_Match.thy ===== *)
theory Patch_Match
  imports Patch_Parse Diff_Format
begin

text \<open>
  Where a hunk goes (\<open>src/src/quilt.cpp\<close>, \<open>patch.cpp\<close> part): files as lines with
  their line ending style, the old side of a hunk as a pattern, and the search for it,
  outward from the expected line and with growing fuzz. A position the search returns is in
  the file, behind the lines already patched, and the lines there equal the pattern but for the
  fuzzed context; and the search finds such a position whenever there is one.
\<close>

section \<open>Files\<close>

record file_content =
  fc_lines :: lines
  fc_trailing_nl :: bool
  fc_crlf :: bool

definition load_file_lines :: "string \<Rightarrow> file_content" where
  "load_file_lines content =
     (if content = [] then \<lparr>fc_lines = [], fc_trailing_nl = True, fc_crlf = False\<rparr>
      else let first_lf = str_find content nl 0 in
        \<lparr>fc_lines = map strip_cr (split_loop [] content),
         fc_trailing_nl = (last content = nl),
         fc_crlf = (first_lf > 0 \<and> content ! nat (first_lf - 1) = cr)\<rparr>)"

section \<open>Patterns\<close>

record pattern_line =
  pl_text :: string
  pl_is_context :: bool

fun get_old_pattern :: "lines \<Rightarrow> pattern_line list" where
  "get_old_pattern [] = []"
| "get_old_pattern (l # ls) =
     (if hd l = spc then \<lparr>pl_text = tl l, pl_is_context = True\<rparr> # get_old_pattern ls
      else if hd l = CHR ''-'' then \<lparr>pl_text = tl l, pl_is_context = False\<rparr> # get_old_pattern ls
      else get_old_pattern ls)"

record hunk_context =
  ctx_prefix :: int
  ctx_suffix :: int

definition get_hunk_context :: "lines \<Rightarrow> hunk_context" where
  "get_hunk_context ls =
     \<lparr>ctx_prefix = int (length (takeWhile (\<lambda>l. hd l = spc) ls)),
      ctx_suffix = int (length (takeWhile (\<lambda>l. hd l = spc) (rev ls)))\<rparr>"

fun match_from :: "lines \<Rightarrow> int \<Rightarrow> pattern_line list \<Rightarrow> bool" where
  "match_from file_lines file_pos [] = True"
| "match_from file_lines file_pos (p # ps) =
     (if file_pos < 0 \<or> file_pos \<ge> int (length file_lines) then False
      else if file_lines ! nat file_pos \<noteq> pl_text p then False
      else match_from file_lines (file_pos + 1) ps)"

definition try_match :: "lines \<Rightarrow> int \<Rightarrow> pattern_line list \<Rightarrow> int \<Rightarrow> hunk_context \<Rightarrow> bool" where
  "try_match file_lines pos pattern fuzz ctx =
     (if pattern = [] then True
      else
        let prefix_fuzz = min fuzz (ctx_prefix ctx);
            suffix_fuzz = min fuzz (ctx_suffix ctx);
            match_start = prefix_fuzz;
            match_end = int (length pattern) - suffix_fuzz
        in match_from file_lines (pos + prefix_fuzz)
             (take (nat (match_end - match_start)) (drop (nat match_start) pattern)))"

section \<open>The search\<close>

definition pos_ok ::
  "lines \<Rightarrow> pattern_line list \<Rightarrow> hunk_context \<Rightarrow> int \<Rightarrow> int \<Rightarrow> int \<Rightarrow> int \<Rightarrow> bool" where
  "pos_ok file_lines pattern ctx fuzz max_search last_frozen_line pos \<longleftrightarrow>
     pos \<ge> 0 \<and> pos \<le> max_search \<and> pos > last_frozen_line - 1 \<and>
     try_match file_lines pos pattern fuzz ctx"

text \<open>The outward loop over \<open>delta\<close>; \<open>ok\<close> is the test of a position.\<close>

function spiral :: "(int \<Rightarrow> bool) \<Rightarrow> int \<Rightarrow> int \<Rightarrow> int \<Rightarrow> int option" where
  "spiral ok first_guess max_range delta =
     (if delta \<le> max_range then
        if ok (first_guess + delta) then Some (first_guess + delta)
        else if ok (first_guess - delta) then Some (first_guess - delta)
        else spiral ok first_guess max_range (delta + 1)
      else None)"
  by pat_completeness auto
termination
  by (relation "measure (\<lambda>(ok, g, m, d). nat (m - d + 1))") auto

declare spiral.simps [simp del]

definition max_search_of :: "lines \<Rightarrow> pattern_line list \<Rightarrow> hunk_context \<Rightarrow> int \<Rightarrow> int" where
  "max_search_of file_lines pattern ctx fuzz =
     (let prefix_fuzz = min fuzz (ctx_prefix ctx);
          suffix_fuzz = min fuzz (ctx_suffix ctx);
          effective_pat_len = int (length pattern) - prefix_fuzz - suffix_fuzz
      in if effective_pat_len = 0 then int (length file_lines)
         else int (length file_lines) - effective_pat_len)"

definition search_at_fuzz ::
  "lines \<Rightarrow> pattern_line list \<Rightarrow> hunk_context \<Rightarrow> int \<Rightarrow> int \<Rightarrow> int \<Rightarrow> int option" where
  "search_at_fuzz file_lines pattern ctx last_frozen_line first_guess fuzz =
     (let max_search = max_search_of file_lines pattern ctx fuzz;
          ok = pos_ok file_lines pattern ctx fuzz max_search last_frozen_line
      in if ok first_guess then Some first_guess
         else
           let max_range = max (max_search - first_guess) (first_guess - last_frozen_line);
               max_range = (if max_range < 0 then 0 else max_range)
           in spiral ok first_guess max_range 1)"

function fuzz_loop :: "(int \<Rightarrow> int option) \<Rightarrow> int \<Rightarrow> int \<Rightarrow> int option" where
  "fuzz_loop search max_fuzz fuzz =
     (if fuzz \<le> max_fuzz then
        case search fuzz of Some pos \<Rightarrow> Some pos | None \<Rightarrow> fuzz_loop search max_fuzz (fuzz + 1)
      else None)"
  by pat_completeness auto
termination
  by (relation "measure (\<lambda>(s, m, f). nat (m - f + 1))") auto

declare fuzz_loop.simps [simp del]

definition locate_hunk ::
  "lines \<Rightarrow> patch_hunk \<Rightarrow> pattern_line list \<Rightarrow> int \<Rightarrow> int \<Rightarrow> int \<Rightarrow> int" where
  "locate_hunk file_lines hunk pattern last_frozen_line cumulative_offset max_fuzz =
     (let ctx = get_hunk_context (p_lines hunk);
          first_guess = p_old_start hunk - 1 + cumulative_offset
      in case fuzz_loop (search_at_fuzz file_lines pattern ctx last_frozen_line first_guess) max_fuzz 0 of
           Some pos \<Rightarrow> pos
         | None \<Rightarrow> - 1)"

section \<open>Laws: matching\<close>

lemma match_from_iff:
  "0 \<le> pos \<Longrightarrow> match_from f pos ps \<longleftrightarrow>
     pos + int (length ps) \<le> int (length f) \<and> take (length ps) (drop (nat pos) f) = map pl_text ps
   \<or> ps = []"
proof (induction ps arbitrary: pos)
  case (Cons p ps)
  show ?case
  proof (cases "pos < int (length f)")
    case True
    then have "drop (nat pos) f = f ! nat pos # drop (nat (pos + 1)) f"
      by (rule drop_conv_nth_int[OF Cons.prems])
    then show ?thesis using Cons.IH[of "pos + 1"] Cons.prems True by (cases "ps = []") auto
  qed auto
qed simp

lemma try_match_no_fuzz:
  assumes "0 \<le> pos" "0 \<le> ctx_prefix ctx" "0 \<le> ctx_suffix ctx"
  shows "try_match f pos pattern 0 ctx \<longleftrightarrow> pattern = [] \<or>
     pos + int (length pattern) \<le> int (length f) \<and>
     take (length pattern) (drop (nat pos) f) = map pl_text pattern"
  using assms match_from_iff[of pos f pattern] by (auto simp: try_match_def min_def)

lemma get_hunk_context_nonneg [simp]:
  "0 \<le> ctx_prefix (get_hunk_context ls)" "0 \<le> ctx_suffix (get_hunk_context ls)"
  by (simp_all add: get_hunk_context_def)

section \<open>Laws: the search\<close>

text \<open>The outward search visits every position in its range, the nearest first.\<close>

lemma spiral_sound: "spiral ok g m d = Some p \<Longrightarrow> ok p"
  by (induction ok g m d rule: spiral.induct) (subst (asm) spiral.simps, auto split: if_splits)

lemma spiral_complete:
  "spiral ok g m d = None \<Longrightarrow> d \<le> k \<Longrightarrow> k \<le> m \<Longrightarrow> \<not> ok (g + k) \<and> \<not> ok (g - k)"
proof (induction ok g m d rule: spiral.induct)
  case (1 ok g m d)
  then have "d \<le> m" by linarith
  then have s: "\<not> ok (g + d)" "\<not> ok (g - d)" "spiral ok g m (d + 1) = None"
    using "1.prems"(1) by (subst (asm) spiral.simps, simp split: if_splits)+
  show ?case
  proof (cases "k = d")
    case False
    then show ?thesis using "1.IH"[OF \<open>d \<le> m\<close> s(1,2) s(3)] "1.prems" by simp
  qed (use s in simp)
qed

lemma spiral_nearest:
  "spiral ok g m d = Some p \<Longrightarrow> d \<le> k \<Longrightarrow> k < \<bar>p - g\<bar> \<Longrightarrow> 0 \<le> d \<Longrightarrow> \<not> ok (g + k) \<and> \<not> ok (g - k)"
proof (induction ok g m d rule: spiral.induct)
  case (1 ok g m d)
  have dm: "d \<le> m" using "1.prems"(1) by (subst (asm) spiral.simps) (simp split: if_splits)
  then consider "p = g + d" | "p = g - d" | "\<not> ok (g + d)" "\<not> ok (g - d)" "spiral ok g m (d + 1) = Some p"
    using "1.prems"(1) by (subst (asm) spiral.simps) (auto split: if_splits)
  then show ?case
  proof cases
    case 3
    show ?thesis
    proof (cases "k = d")
      case False
      then show ?thesis using "1.IH"[OF dm 3(1,2) 3(3)] "1.prems" by simp
    qed (use 3 in simp)
  qed (use "1.prems" in auto)
qed

lemma search_at_fuzz_sound:
  "search_at_fuzz f pat ctx frozen g fuzz = Some p \<Longrightarrow>
   pos_ok f pat ctx fuzz (max_search_of f pat ctx fuzz) frozen p"
  using spiral_sound by (fastforce simp: search_at_fuzz_def Let_def split: if_splits)

lemma search_at_fuzz_complete:
  assumes "search_at_fuzz f pat ctx frozen g fuzz = None"
  shows "\<not> pos_ok f pat ctx fuzz (max_search_of f pat ctx fuzz) frozen p"
proof
  let ?ok = "pos_ok f pat ctx fuzz (max_search_of f pat ctx fuzz) frozen"
  let ?m = "max (max_search_of f pat ctx fuzz - g) (g - frozen)"
  assume p: "?ok p"
  from assms p have ne: "p \<noteq> g"
    and s: "spiral ?ok g (if ?m < 0 then 0 else ?m) 1 = None"
    by (auto simp: search_at_fuzz_def Let_def split: if_splits)
  from p have "p \<le> max_search_of f pat ctx fuzz" "frozen \<le> p" by (auto simp: pos_ok_def)
  then have "\<bar>p - g\<bar> \<le> (if ?m < 0 then 0 else ?m)" by auto
  from spiral_complete[OF s _ this] ne p show False
    by (cases "g \<le> p") auto
qed

lemma search_at_fuzz_nearest:
  assumes "search_at_fuzz f pat ctx frozen g fuzz = Some p"
    "pos_ok f pat ctx fuzz (max_search_of f pat ctx fuzz) frozen q"
  shows "\<bar>p - g\<bar> \<le> \<bar>q - g\<bar>"
proof -
  let ?ok = "pos_ok f pat ctx fuzz (max_search_of f pat ctx fuzz) frozen"
  let ?m = "max (max_search_of f pat ctx fuzz - g) (g - frozen)"
  show ?thesis
  proof (cases "?ok g")
    case True
    then show ?thesis using assms(1) by (simp add: search_at_fuzz_def Let_def)
  next
    case False
    then have s: "spiral ?ok g (if ?m < 0 then 0 else ?m) 1 = Some p"
      using assms(1) by (simp add: search_at_fuzz_def Let_def)
    show ?thesis
    proof (rule ccontr)
      assume a: "\<not> ?thesis"
      have "q \<noteq> g" using False assms(2) by auto
      with a have "1 \<le> \<bar>q - g\<bar>" "\<bar>q - g\<bar> < \<bar>p - g\<bar>" by linarith+
      from spiral_nearest[OF s this] have "\<not> ?ok (g + \<bar>q - g\<bar>) \<and> \<not> ?ok (g - \<bar>q - g\<bar>)" by simp
      moreover have "q = g + \<bar>q - g\<bar> \<or> q = g - \<bar>q - g\<bar>" by linarith
      ultimately show False using assms(2) by auto
    qed
  qed
qed

lemma fuzz_loop_sound:
  "fuzz_loop s m f = Some p \<Longrightarrow> \<exists>g. f \<le> g \<and> g \<le> m \<and> s g = Some p \<and> (\<forall>k. f \<le> k \<and> k < g \<longrightarrow> s k = None)"
proof (induction s m f rule: fuzz_loop.induct)
  case (1 s m f)
  then have fm: "f \<le> m" by (subst (asm) fuzz_loop.simps) (simp split: if_splits)
  show ?case
  proof (cases "s f")
    case (Some q)
    with "1.prems" fm have "s f = Some p" by (subst (asm) fuzz_loop.simps) simp
    then show ?thesis using fm by (intro exI[of _ f]) auto
  next
    case None
    with "1.prems" fm have "fuzz_loop s m (f + 1) = Some p" by (subst (asm) fuzz_loop.simps) simp
    from "1.IH"[OF fm None this] obtain g where g: "f + 1 \<le> g" "g \<le> m" "s g = Some p"
      "\<forall>k. f + 1 \<le> k \<and> k < g \<longrightarrow> s k = None" by blast
    have "s k = None" if "f \<le> k" "k < g" for k
      using that g(4) None by (cases "k = f") auto
    with g show ?thesis by (intro exI[of _ g]) auto
  qed
qed

lemma fuzz_loop_complete: "fuzz_loop s m f = None \<Longrightarrow> f \<le> k \<Longrightarrow> k \<le> m \<Longrightarrow> s k = None"
proof (induction s m f rule: fuzz_loop.induct)
  case (1 s m f)
  then have fm: "f \<le> m" by simp
  then have n: "s f = None" "fuzz_loop s m (f + 1) = None"
    using "1.prems"(1) by (subst (asm) fuzz_loop.simps, simp split: option.splits)+
  then show ?case using "1.IH"[OF fm] "1.prems" by (cases "k = f") auto
qed

definition hunk_pos_ok :: "lines \<Rightarrow> patch_hunk \<Rightarrow> int \<Rightarrow> int \<Rightarrow> int \<Rightarrow> bool" where
  "hunk_pos_ok f h frozen fuzz =
     pos_ok f (get_old_pattern (p_lines h)) (get_hunk_context (p_lines h)) fuzz
       (max_search_of f (get_old_pattern (p_lines h)) (get_hunk_context (p_lines h)) fuzz) frozen"

text \<open>\<open>locate_hunk\<close> returns a matching position at the least fuzz that has one, and fails
  only when no position matches at any allowed fuzz.\<close>

lemma locate_hunk_spec:
  fixes f h frozen off max_fuzz
  defines "p \<equiv> locate_hunk f h (get_old_pattern (p_lines h)) frozen off max_fuzz"
  shows "(p \<noteq> - 1 \<longrightarrow> (\<exists>fuzz. 0 \<le> fuzz \<and> fuzz \<le> max_fuzz \<and> hunk_pos_ok f h frozen fuzz p \<and>
            (\<forall>k q. 0 \<le> k \<and> k < fuzz \<longrightarrow> \<not> hunk_pos_ok f h frozen k q))) \<and>
         (p = - 1 \<longrightarrow> (\<forall>fuzz q. 0 \<le> fuzz \<and> fuzz \<le> max_fuzz \<longrightarrow> \<not> hunk_pos_ok f h frozen fuzz q))"
proof -
  let ?pat = "get_old_pattern (p_lines h)"
  let ?ctx = "get_hunk_context (p_lines h)"
  let ?s = "search_at_fuzz f ?pat ?ctx frozen (p_old_start h - 1 + off)"
  show ?thesis
  proof (cases "fuzz_loop ?s max_fuzz 0")
    case None
    then have "p = - 1" by (simp add: p_def locate_hunk_def Let_def)
    then show ?thesis
      using fuzz_loop_complete[OF None] search_at_fuzz_complete
      unfolding hunk_pos_ok_def by blast
  next
    case (Some q)
    then have p: "p = q" by (simp add: p_def locate_hunk_def Let_def)
    from fuzz_loop_sound[OF Some] obtain g where g: "0 \<le> g" "g \<le> max_fuzz" "?s g = Some q"
      "\<forall>k. 0 \<le> k \<and> k < g \<longrightarrow> ?s k = None" by blast
    have "hunk_pos_ok f h frozen g q" unfolding hunk_pos_ok_def by (rule search_at_fuzz_sound[OF g(3)])
    moreover from this have "q \<noteq> - 1" by (auto simp: hunk_pos_ok_def pos_ok_def)
    moreover have "\<not> hunk_pos_ok f h frozen k q'" if "0 \<le> k" "k < g" for k q'
      unfolding hunk_pos_ok_def using search_at_fuzz_complete g(4) that by blast
    ultimately show ?thesis using g(1,2) p by blast
  qed
qed

end
