(* ===== verification/Patch_Apply.thy ===== *)
theory Patch_Apply
  imports Patch_Match
begin

text \<open>
  What the patch engine of \<open>src/src/quilt.cpp\<close> writes: the patched file
  (\<open>build_output\<close>), the file with conflict markers (\<open>build_merge_output\<close>) and
  the reject file (\<open>format_rejects\<close>). The marker loop makes no progress on a line
  whose prefix is none of space, minus and plus; it is a partial function whose value is
  \<open>None\<close> there, and the lines of a parsed hunk are never such lines.
\<close>

section \<open>Output of the matched hunks\<close>

record hunk_fuzz =
  fz_prefix :: int
  fz_suffix :: int

definition slice :: "lines \<Rightarrow> int \<Rightarrow> int \<Rightarrow> lines" where
  "slice ls i j = take (nat (j - i)) (drop (nat i) ls)"

fun get_new_lines :: "lines \<Rightarrow> lines" where
  "get_new_lines [] = []"
| "get_new_lines (l # ls) =
     (if hd l = spc \<or> hd l = CHR ''+'' then tl l # get_new_lines ls else get_new_lines ls)"

text \<open>Lines with their newlines, but for the last one when \<open>bare\<close> holds.\<close>

definition write_lines :: "lines \<Rightarrow> bool \<Rightarrow> string" where
  "write_lines ls bare = join_lines ls (\<not> bare)"

definition apply_hunk :: "lines \<Rightarrow> patch_hunk \<Rightarrow> int \<Rightarrow> hunk_fuzz \<Rightarrow> string \<times> int \<Rightarrow> string \<times> int" where
  "apply_hunk file_lines hunk pos fz = (\<lambda>(output, last_copied).
     let file_len = int (length file_lines);
         new_lines = get_new_lines (p_lines hunk);
         pos = pos + fz_prefix fz;
         pat_len = int (length (get_old_pattern (p_lines hunk))) - (fz_prefix fz + fz_suffix fz);
         pat_len = (if pat_len < 0 then 0 else pat_len);
         new_start = fz_prefix fz;
         new_end = int (length new_lines) - fz_suffix fz;
         new_end = (if new_end < new_start then new_start else new_end);
         pos = (if pos > file_len then file_len else pos);
         output = output @ unlines (slice file_lines last_copied pos) @
           write_lines (slice new_lines new_start new_end) (fz_suffix fz = 0 \<and> p_new_no_newline hunk);
         last_copied = pos + pat_len
     in (output, if last_copied > file_len then file_len else last_copied))"

definition copy_rest :: "lines \<Rightarrow> bool \<Rightarrow> string \<times> int \<Rightarrow> string" where
  "copy_rest file_lines has_trailing_newline = (\<lambda>(output, last_copied).
     output @ write_lines (drop (nat last_copied) file_lines) (\<not> has_trailing_newline))"

fun output_loop ::
  "lines \<Rightarrow> patch_hunk list \<Rightarrow> int list \<Rightarrow> hunk_fuzz list \<Rightarrow> string \<times> int \<Rightarrow> string \<times> int" where
  "output_loop file_lines (h # hs) (pos # ps) (fz # fzs) st =
     output_loop file_lines hs ps fzs (if pos < 0 then st else apply_hunk file_lines h pos fz st)"
| "output_loop file_lines _ _ _ st = st"

definition build_output :: "lines \<Rightarrow> bool \<Rightarrow> patch_hunk list \<Rightarrow> int list \<Rightarrow> hunk_fuzz list \<Rightarrow> string" where
  "build_output file_lines has_trailing_newline hunks positions fuzz =
     copy_rest file_lines has_trailing_newline (output_loop file_lines hunks positions fuzz ([], 0))"

section \<open>Conflict markers\<close>

definition conflict_block :: "lines \<Rightarrow> bool \<Rightarrow> lines \<Rightarrow> lines \<Rightarrow> string" where
  "conflict_block here diff3 old_lines new_change =
     unlines ([''<<<<<<<''] @ here @ (if diff3 then ''|||||||'' # old_lines else []) @
       [''=======''] @ new_change @ [''>>>>>>>''])"

partial_function (option) conflict_loop ::
  "lines \<Rightarrow> bool \<Rightarrow> lines \<Rightarrow> int \<Rightarrow> string \<Rightarrow> (string \<times> int) option" where
  "conflict_loop file_lines diff3 hls file_pos output =
     (case hls of
        [] \<Rightarrow> Some (output, file_pos)
      | l # ls \<Rightarrow>
          if hd l = spc then
            (if file_pos < int (length file_lines)
             then conflict_loop file_lines diff3 ls (file_pos + 1)
                    (output @ file_lines ! nat file_pos @ [nl])
             else conflict_loop file_lines diff3 ls file_pos output)
          else
            let olds = takeWhile (\<lambda>l. hd l = CHR ''-'') hls;
                rest = dropWhile (\<lambda>l. hd l = CHR ''-'') hls;
                news = takeWhile (\<lambda>l. hd l = CHR ''+'') rest;
                rest = dropWhile (\<lambda>l. hd l = CHR ''+'') rest;
                end_pos = file_pos + int (length olds);
                end_pos = (if end_pos > int (length file_lines) then int (length file_lines) else end_pos)
            in conflict_loop file_lines diff3 rest end_pos
                 (output @ conflict_block (slice file_lines file_pos end_pos) diff3 (map tl olds) (map tl news)))"

definition conflict_hunk :: "lines \<Rightarrow> bool \<Rightarrow> patch_hunk \<Rightarrow> string \<times> int \<Rightarrow> (string \<times> int) option" where
  "conflict_hunk file_lines diff3 hunk = (\<lambda>(output, last_copied).
     let file_len = int (length file_lines);
         expected = p_old_start hunk - 1;
         expected = (if expected < last_copied then last_copied else expected);
         expected = (if expected > file_len then file_len else expected)
     in conflict_loop file_lines diff3 (p_lines hunk) expected
          (output @ unlines (slice file_lines last_copied expected)))"

fun merge_loop ::
  "lines \<Rightarrow> bool \<Rightarrow> patch_hunk list \<Rightarrow> int list \<Rightarrow> hunk_fuzz list \<Rightarrow> string \<times> int \<Rightarrow> (string \<times> int) option" where
  "merge_loop file_lines diff3 (h # hs) (pos # ps) (fz # fzs) st =
     (if pos \<ge> 0 then
        merge_loop file_lines diff3 hs ps fzs
          (apply_hunk file_lines h (if pos > int (length file_lines) then int (length file_lines) else pos) fz st)
      else case conflict_hunk file_lines diff3 h st of
             None \<Rightarrow> None
           | Some st \<Rightarrow> merge_loop file_lines diff3 hs ps fzs st)"
| "merge_loop file_lines diff3 _ _ _ st = Some st"

definition build_merge_output ::
  "lines \<Rightarrow> bool \<Rightarrow> patch_hunk list \<Rightarrow> int list \<Rightarrow> hunk_fuzz list \<Rightarrow> string \<Rightarrow> string option" where
  "build_merge_output file_lines has_trailing_newline hunks positions fuzz merge_style =
     map_option (copy_rest file_lines has_trailing_newline)
       (merge_loop file_lines (merge_style = ''diff3'') hunks positions fuzz ([], 0))"

section \<open>Rejects\<close>

definition reject_hunk :: "patch_hunk \<Rightarrow> string" where
  "reject_hunk h =
     ''@@ -'' @ int_str (p_old_start h) @ '','' @ int_str (p_old_count h) @
     '' +'' @ int_str (p_new_start h) @ '','' @ int_str (p_new_count h) @ '' @@'' @ [nl] @
     unlines (p_lines h) @ (if p_old_no_newline h then no_newline_mark else [])"

fun reject_loop :: "patch_file \<Rightarrow> patch_hunk list \<Rightarrow> bool list \<Rightarrow> bool \<Rightarrow> string" where
  "reject_loop pf (h # hs) (r # rs) has_any =
     (if \<not> r then reject_loop pf hs rs has_any
      else (if \<not> has_any then ''--- '' @ pf_old_path pf @ [nl] @ ''+++ '' @ pf_new_path pf @ [nl] else []) @
        reject_hunk h @ reject_loop pf hs rs True)"
| "reject_loop pf _ _ has_any = []"

definition format_rejects :: "patch_file \<Rightarrow> bool list \<Rightarrow> string" where
  "format_rejects pf rejected = reject_loop pf (pf_hunks pf) rejected False"

section \<open>Laws\<close>

lemma write_lines_simps [simp]:
  "write_lines [] bare = []"
  "write_lines ls False = unlines ls"
  "write_lines (ls @ [l]) True = unlines ls @ l"
  by (simp_all add: write_lines_def join_lines_def)

lemma write_lines_append:
  "ms \<noteq> [] \<Longrightarrow> write_lines (ls @ ms) bare = unlines ls @ write_lines ms bare"
  by (simp add: write_lines_def join_lines_def butlast_append)

text \<open>The marker loop ends on the lines of a hunk, and leaves the file position in range.\<close>

lemma conflict_loop_returns:
  assumes "\<forall>l \<in> set hls. line_ok l" "0 \<le> pos" "pos \<le> int (length f)"
  shows "\<exists>out' pos'. conflict_loop f d hls pos out = Some (out', pos') \<and> pos \<le> pos' \<and> pos' \<le> int (length f)"
  using assms
proof (induction "length hls" arbitrary: hls pos out rule: less_induct)
  case less
  show ?case
  proof (cases hls)
    case Nil
    then show ?thesis using less.prems by (subst conflict_loop.simps) simp
  next
    case (Cons l ls)
    show ?thesis
    proof (cases "hd l = spc")
      case True
      let ?p = "if pos < int (length f) then pos + 1 else pos"
      let ?o = "if pos < int (length f) then out @ f ! nat pos @ [nl] else out"
      have "\<exists>out' pos'. conflict_loop f d ls ?p ?o = Some (out', pos') \<and> ?p \<le> pos' \<and> pos' \<le> int (length f)"
        by (rule less.hyps) (use less.prems Cons in auto)
      moreover have "conflict_loop f d hls pos out = conflict_loop f d ls ?p ?o"
        using Cons True by (subst conflict_loop.simps) simp
      ultimately show ?thesis by (auto split: if_splits)
    next
      case False
      define rest where "rest = dropWhile (\<lambda>l. hd l = CHR ''+'') (dropWhile (\<lambda>l. hd l = CHR ''-'') hls)"
      define e where "e = (if pos + int (length (takeWhile (\<lambda>l. hd l = CHR ''-'') hls)) > int (length f)
          then int (length f) else pos + int (length (takeWhile (\<lambda>l. hd l = CHR ''-'') hls)))"
      have e: "0 \<le> e" "pos \<le> e" "e \<le> int (length f)" using less.prems by (auto simp: e_def)
      have "hd l = CHR ''-'' \<or> hd l = CHR ''+''" using less.prems(1) Cons False by (auto simp: line_ok_def)
      then have len: "length rest < length hls"
        unfolding rest_def Cons
        by (auto intro!: le_imp_less_Suc length_dropWhile_le order_trans[OF length_dropWhile_le])
      have "set rest \<subseteq> set hls" unfolding rest_def by (meson set_dropWhileD subsetI)
      then have ok: "\<forall>l \<in> set rest. line_ok l" using less.prems(1) by blast
      have "\<exists>out'. conflict_loop f d hls pos out = conflict_loop f d rest e out'"
        using Cons False unfolding rest_def e_def by (subst conflict_loop.simps) (auto simp: Let_def)
      then show ?thesis using less.hyps[OF len ok e(1,3)] e(2) by fastforce
    qed
  qed
qed

lemma apply_hunk_last:
  assumes "0 \<le> lc" "lc \<le> int (length f)" "0 \<le> pos" "0 \<le> fz_prefix fz"
    "apply_hunk f h pos fz (out, lc) = (out', lc')"
  shows "0 \<le> lc' \<and> lc' \<le> int (length f)"
  using assms by (auto simp: apply_hunk_def Let_def split: if_splits)

lemma merge_loop_returns:
  assumes "\<forall>h \<in> set hs. \<forall>l \<in> set (p_lines h). line_ok l" "\<forall>fz \<in> set fzs. 0 \<le> fz_prefix fz"
    "0 \<le> lc" "lc \<le> int (length f)"
  shows "merge_loop f d hs ps fzs (out, lc) \<noteq> None"
  using assms
proof (induction f d hs ps fzs "(out, lc)" arbitrary: out lc rule: merge_loop.induct)
  case (1 f d h hs pos ps fz fzs out lc)
  show ?case
  proof (cases "pos \<ge> 0")
    case True
    let ?p = "if pos > int (length f) then int (length f) else pos"
    obtain o' l' where a: "apply_hunk f h ?p fz (out, lc) = (o', l')" by fastforce
    with apply_hunk_last[OF "1.prems"(3,4) _ _ a] True "1.prems"(2)
    have "0 \<le> l'" "l' \<le> int (length f)" by auto
    with "1.hyps"(1)[OF True a] "1.prems"(1,2) show ?thesis using True a by simp
  next
    case False
    let ?e = "p_old_start h - 1"
    let ?e = "if ?e < lc then lc else ?e"
    let ?e = "if ?e > int (length f) then int (length f) else ?e"
    have ok: "\<forall>l \<in> set (p_lines h). line_ok l" "0 \<le> ?e" "?e \<le> int (length f)" using "1.prems" by auto
    from conflict_loop_returns[OF ok] obtain o' l' where
      c: "conflict_hunk f d h (out, lc) = Some (o', l')" "?e \<le> l'" "l' \<le> int (length f)"
      unfolding conflict_hunk_def Let_def by fastforce
    from c(2) ok(2) have "0 \<le> l'" by linarith
    with "1.hyps"(2)[OF False c(1)] "1.prems"(1,2) c(3) show ?thesis using False c(1) by simp
  qed
qed auto

lemma build_merge_output_returns:
  assumes "\<forall>h \<in> set hs. \<forall>l \<in> set (p_lines h). line_ok l" "\<forall>fz \<in> set fzs. 0 \<le> fz_prefix fz"
  shows "build_merge_output f tr hs ps fzs ms \<noteq> None"
  using merge_loop_returns[OF assms, of 0 f] by (simp add: build_merge_output_def)

end
