(* ===== verification/File_Store.thy ===== *)
theory File_Store
  imports Quilt_Strings
begin

text \<open>
  What the program asks of the system. \<open>platform\<close> lists the functions of
  \<open>platform.hpp\<close> (in \<open>src/src/quilt.cpp\<close>) the modelled commands call, over a
  world of any type: it is the parameter of every definition that does input or output.
  \<open>io\<close> adds the in-memory file system of the diff and patch engines: their four
  lambdas \<open>fs_exists\<close>, \<open>fs_read\<close>, \<open>fs_write\<close> and
  \<open>fs_delete\<close> use the map when it is set and the platform otherwise. The locale
  \<open>file_store\<close> states what a store of files promises; the lambdas over the map meet it.
\<close>

section \<open>The platform\<close>

record process_result =
  pr_exit_code :: int
  pr_out :: string
  pr_err :: string

record date_time =
  dt_year :: int
  dt_month :: int
  dt_day :: int
  dt_hour :: int
  dt_min :: int
  dt_sec :: int
  dt_weekday :: int
  dt_utc_offset :: int

record 'w platform =
  read_file :: "string \<Rightarrow> 'w \<Rightarrow> string"
  write_file :: "string \<Rightarrow> string \<Rightarrow> 'w \<Rightarrow> bool \<times> 'w"
  copy_file :: "string \<Rightarrow> string \<Rightarrow> 'w \<Rightarrow> bool \<times> 'w"
  rename_path :: "string \<Rightarrow> string \<Rightarrow> 'w \<Rightarrow> bool \<times> 'w"
  delete_file :: "string \<Rightarrow> 'w \<Rightarrow> bool \<times> 'w"
  delete_dir_recursive :: "string \<Rightarrow> 'w \<Rightarrow> bool \<times> 'w"
  make_dir :: "string \<Rightarrow> 'w \<Rightarrow> bool \<times> 'w"
  make_dirs :: "string \<Rightarrow> 'w \<Rightarrow> bool \<times> 'w"
  file_exists :: "string \<Rightarrow> 'w \<Rightarrow> bool"
  is_directory :: "string \<Rightarrow> 'w \<Rightarrow> bool"
  file_mtime :: "string \<Rightarrow> 'w \<Rightarrow> int"
  list_dir :: "string \<Rightarrow> 'w \<Rightarrow> (string \<times> bool) list"
  find_files_recursive :: "string \<Rightarrow> 'w \<Rightarrow> string list"
  fd_write_stdout :: "string \<Rightarrow> 'w \<Rightarrow> 'w"
  fd_write_stderr :: "string \<Rightarrow> 'w \<Rightarrow> 'w"
  get_env :: "string \<Rightarrow> 'w \<Rightarrow> string"
  set_env :: "string \<Rightarrow> string \<Rightarrow> 'w \<Rightarrow> 'w"
  get_home_dir :: "'w \<Rightarrow> string"
  get_system_quiltrc :: "'w \<Rightarrow> string"
  get_cwd :: "'w \<Rightarrow> string"
  set_cwd :: "string \<Rightarrow> 'w \<Rightarrow> bool \<times> 'w"
  stdout_is_tty :: "'w \<Rightarrow> bool"
  read_stdin :: "'w \<Rightarrow> string \<times> 'w"
  run_cmd_tty :: "string list \<Rightarrow> 'w \<Rightarrow> int \<times> 'w"
  run_cmd :: "string list \<Rightarrow> 'w \<Rightarrow> process_result \<times> 'w"
  make_temp_dir :: "'w \<Rightarrow> string \<times> 'w"
  current_time :: "'w \<Rightarrow> int"
  local_time :: "int \<Rightarrow> 'w \<Rightarrow> date_time"

definition out :: "'w platform \<Rightarrow> string \<Rightarrow> 'w \<Rightarrow> 'w" where
  "out P s w = fd_write_stdout P s w"

definition out_line :: "'w platform \<Rightarrow> string \<Rightarrow> 'w \<Rightarrow> 'w" where
  "out_line P s w = fd_write_stdout P [nl] (fd_write_stdout P s w)"

definition err :: "'w platform \<Rightarrow> string \<Rightarrow> 'w \<Rightarrow> 'w" where
  "err P s w = fd_write_stderr P s w"

definition err_line :: "'w platform \<Rightarrow> string \<Rightarrow> 'w \<Rightarrow> 'w" where
  "err_line P s w = fd_write_stderr P [nl] (fd_write_stderr P s w)"

section \<open>The file system of the engines\<close>

record 'w io =
  io_fs :: "(string \<rightharpoonup> string) option"
  io_world :: 'w

definition fs_exists :: "'w platform \<Rightarrow> string \<Rightarrow> 'w io \<Rightarrow> bool" where
  "fs_exists P p s = (case io_fs s of
     Some m \<Rightarrow> m p \<noteq> None | None \<Rightarrow> file_exists P p (io_world s))"

definition fs_read :: "'w platform \<Rightarrow> string \<Rightarrow> 'w io \<Rightarrow> string" where
  "fs_read P p s = (case io_fs s of
     Some m \<Rightarrow> (case m p of Some c \<Rightarrow> c | None \<Rightarrow> [])
   | None \<Rightarrow> read_file P p (io_world s))"

definition fs_write :: "'w platform \<Rightarrow> string \<Rightarrow> string \<Rightarrow> 'w io \<Rightarrow> 'w io" where
  "fs_write P p c s = (case io_fs s of
     Some m \<Rightarrow> s\<lparr>io_fs := Some (m(p \<mapsto> c))\<rparr>
   | None \<Rightarrow> s\<lparr>io_world := snd (write_file P p c (io_world s))\<rparr>)"

definition fs_delete :: "'w platform \<Rightarrow> string \<Rightarrow> 'w io \<Rightarrow> 'w io" where
  "fs_delete P p s = (case io_fs s of
     Some m \<Rightarrow> s\<lparr>io_fs := Some (m(p := None))\<rparr>
   | None \<Rightarrow> s\<lparr>io_world := snd (delete_file P p (io_world s))\<rparr>)"

text \<open>The state of the in-memory file system.\<close>

definition mem_io :: "(string \<rightharpoonup> string) \<Rightarrow> 'w \<Rightarrow> 'w io" where
  "mem_io m w = \<lparr>io_fs = Some m, io_world = w\<rparr>"

section \<open>The contract of a store\<close>

locale file_store =
  fixes valid :: "'s \<Rightarrow> bool"
    and ex :: "string \<Rightarrow> 's \<Rightarrow> bool"
    and rd :: "string \<Rightarrow> 's \<Rightarrow> string"
    and wr :: "string \<Rightarrow> string \<Rightarrow> 's \<Rightarrow> 's"
    and del :: "string \<Rightarrow> 's \<Rightarrow> 's"
  assumes valid_wr: "valid s \<Longrightarrow> valid (wr p c s)"
    and valid_del: "valid s \<Longrightarrow> valid (del p s)"
    and ex_wr: "valid s \<Longrightarrow> ex q (wr p c s) \<longleftrightarrow> q = p \<or> ex q s"
    and rd_wr: "valid s \<Longrightarrow> rd q (wr p c s) = (if q = p then c else rd q s)"
    and ex_del: "valid s \<Longrightarrow> ex q (del p s) \<longleftrightarrow> q \<noteq> p \<and> ex q s"
    and rd_del: "valid s \<Longrightarrow> q \<noteq> p \<Longrightarrow> rd q (del p s) = rd q s"
begin

text \<open>What a file holds: nothing when it is missing.\<close>

definition content :: "string \<Rightarrow> 's \<Rightarrow> string option" where
  "content p s = (if ex p s then Some (rd p s) else None)"

lemma content_wr: "valid s \<Longrightarrow> content q (wr p c s) = (if q = p then Some c else content q s)"
  by (simp add: content_def ex_wr rd_wr)

lemma content_del: "valid s \<Longrightarrow> content q (del p s) = (if q = p then None else content q s)"
  by (simp add: content_def ex_del rd_del)

lemma write_all_content:
  "valid s \<Longrightarrow> distinct (map fst pcs) \<Longrightarrow>
   content q (fold (\<lambda>(p, c). wr p c) pcs s) =
     (case map_of pcs q of Some c \<Rightarrow> Some c | None \<Rightarrow> content q s)"
proof (induction pcs arbitrary: s)
  case (Cons pc pcs)
  obtain p c where pc: "pc = (p, c)" by (cases pc)
  have "map_of pcs p = None" using Cons.prems(2) pc by (simp add: map_of_eq_None_iff)
  then show ?case
    using Cons.IH[OF valid_wr[OF Cons.prems(1), of p c]] Cons.prems pc
    by (auto simp: content_wr split: option.splits)
qed simp

end

interpretation mem: file_store "\<lambda>s. io_fs s \<noteq> None" "fs_exists P" "fs_read P" "fs_write P" "fs_delete P"
  for P :: "'w platform"
  by unfold_locales
    (auto simp: fs_exists_def fs_read_def fs_write_def fs_delete_def split: option.splits)

lemma mem_io_simps [simp]:
  "fs_exists P p (mem_io m w) \<longleftrightarrow> m p \<noteq> None"
  "fs_read P p (mem_io m w) = (case m p of Some c \<Rightarrow> c | None \<Rightarrow> [])"
  "fs_write P p c (mem_io m w) = mem_io (m(p \<mapsto> c)) w"
  "fs_delete P p (mem_io m w) = mem_io (m(p := None)) w"
  "io_fs (mem_io m w) = Some m"
  by (simp_all add: mem_io_def fs_exists_def fs_read_def fs_write_def fs_delete_def)

end
