(* ===== verification/Builtin_Patch.thy ===== *)
theory Builtin_Patch
  imports Patch_Apply File_Store
begin

text \<open>
  \<open>builtin_patch\<close> of \<open>src/src/quilt.cpp\<close>: the hunks of a file are located in
  order, each behind the last one, then the file, its conflict markers or its rejects are
  written. The value is \<open>None\<close> when the program would not return; the last lemma shows
  that this never happens.
\<close>

section \<open>Options and results\<close>

record patch_options =
  o_strip_level :: int
  o_fuzz :: int
  o_reverse :: bool
  o_dry_run :: bool
  o_force :: bool
  o_remove_empty :: bool
  o_quiet :: bool
  o_merge :: bool
  o_merge_style :: string

definition default_options :: patch_options where
  "default_options = \<lparr>o_strip_level = 1, o_fuzz = 2, o_reverse = False, o_dry_run = False,
     o_force = False, o_remove_empty = False, o_quiet = False, o_merge = False, o_merge_style = []\<rparr>"

record patch_result =
  r_exit_code :: int
  r_out :: string
  r_err :: string

section \<open>Matching the hunks of a file\<close>

record match_state =
  m_positions :: "int list"
  m_fuzz :: "hunk_fuzz list"
  m_rejected :: "bool list"
  m_offset :: int
  m_frozen :: int
  m_has_rejects :: bool
  m_out :: string
  m_err :: string

definition fuzz_used_for :: "int \<Rightarrow> lines \<Rightarrow> int \<Rightarrow> pattern_line list \<Rightarrow> hunk_context \<Rightarrow> int" where
  "fuzz_used_for max_fuzz file_lines pos pattern ctx =
     (if max_fuzz > 0 then
        case fuzz_loop (\<lambda>f. if try_match file_lines pos pattern f ctx then Some f else None) max_fuzz 0 of
          Some f \<Rightarrow> f | None \<Rightarrow> 0
      else 0)"

definition hunk_message :: "int \<Rightarrow> int \<Rightarrow> int \<Rightarrow> int \<Rightarrow> int \<Rightarrow> string" where
  "hunk_message h pos fuzz_used actual_offset cumulative_offset =
     (if actual_offset \<noteq> cumulative_offset then
        (if fuzz_used > 0 then
           ''Hunk #'' @ int_str (h + 1) @ '' succeeded at '' @ int_str (pos + 1) @ '' with fuzz '' @
           int_str fuzz_used @ '' (offset '' @ int_str (actual_offset - cumulative_offset) @ '' lines).'' @ [nl]
         else
           ''Hunk #'' @ int_str (h + 1) @ '' succeeded at '' @ int_str (pos + 1) @
           '' (offset '' @ int_str (actual_offset - cumulative_offset) @ '' lines).'' @ [nl])
      else if fuzz_used > 0 then
        ''Hunk #'' @ int_str (h + 1) @ '' succeeded at '' @ int_str (pos + 1) @ '' with fuzz '' @
        int_str fuzz_used @ ''.'' @ [nl]
      else [])"

definition match_hunk ::
  "patch_options \<Rightarrow> lines \<Rightarrow> int \<Rightarrow> patch_hunk \<Rightarrow> match_state \<Rightarrow> match_state" where
  "match_hunk opts file_lines h hunk st =
     (let pattern = get_old_pattern (p_lines hunk);
          pos = locate_hunk file_lines hunk pattern (m_frozen st) (m_offset st) (o_fuzz opts)
      in if pos \<ge> 0 then
           let actual_offset = pos - (max (p_old_start hunk) 1 - 1);
               ctx = get_hunk_context (p_lines hunk);
               fuzz_used = fuzz_used_for (o_fuzz opts) file_lines pos pattern ctx;
               fz = \<lparr>fz_prefix = min fuzz_used (ctx_prefix ctx), fz_suffix = min fuzz_used (ctx_suffix ctx)\<rparr>
           in st\<lparr>m_positions := m_positions st @ [pos],
                 m_fuzz := m_fuzz st @ [fz],
                 m_rejected := m_rejected st @ [False],
                 m_out := m_out st @
                   (if o_quiet opts then [] else hunk_message h pos fuzz_used actual_offset (m_offset st)),
                 m_offset := actual_offset,
                 m_frozen := pos + int (length pattern) - fz_suffix fz\<rparr>
         else
           st\<lparr>m_positions := m_positions st @ [- 1],
              m_fuzz := m_fuzz st @ [\<lparr>fz_prefix = 0, fz_suffix = 0\<rparr>],
              m_rejected := m_rejected st @ [True],
              m_has_rejects := True,
              m_err := m_err st @
                (if o_quiet opts then []
                 else ''Hunk #'' @ int_str (h + 1) @ (if o_merge opts then '' NOT MERGED at '' else '' FAILED at '') @
                   int_str (p_old_start hunk) @ ''.'' @ [nl])\<rparr>)"

fun match_hunks ::
  "patch_options \<Rightarrow> lines \<Rightarrow> int \<Rightarrow> patch_hunk list \<Rightarrow> match_state \<Rightarrow> match_state" where
  "match_hunks opts file_lines h [] st = st"
| "match_hunks opts file_lines h (hunk # hunks) st =
     match_hunks opts file_lines (h + 1) hunks (match_hunk opts file_lines h hunk st)"

definition start_match :: match_state where
  "start_match = \<lparr>m_positions = [], m_fuzz = [], m_rejected = [], m_offset = 0, m_frozen = 0,
     m_has_rejects = False, m_out = [], m_err = []\<rparr>"

section \<open>Writing the results\<close>

text \<open>The loop that restores carriage returns; \<open>prev\<close> is the byte before.\<close>

fun to_crlf :: "char \<Rightarrow> string \<Rightarrow> string" where
  "to_crlf prev [] = []"
| "to_crlf prev (c # s) = (if c = nl \<and> prev \<noteq> cr then [cr] else []) @ c # to_crlf c s"

definition patched_content ::
  "patch_options \<Rightarrow> file_content \<Rightarrow> patch_hunk list \<Rightarrow> match_state \<Rightarrow> string option" where
  "patched_content opts fc hunks st =
     map_option (\<lambda>c. if fc_crlf fc then to_crlf nl c else c)
       (if o_merge opts \<and> m_has_rejects st
        then build_merge_output (fc_lines fc) (fc_trailing_nl fc) hunks (m_positions st) (m_fuzz st)
               (o_merge_style opts)
        else Some (build_output (fc_lines fc) (fc_trailing_nl fc) hunks (m_positions st) (m_fuzz st)))"

definition make_parent_dirs :: "'w platform \<Rightarrow> string \<Rightarrow> 'w io \<Rightarrow> 'w io" where
  "make_parent_dirs P target s =
     (case io_fs s of
        Some _ \<Rightarrow> s
      | None \<Rightarrow>
          let dir = dirname target in
          if dir \<noteq> [] \<and> dir \<noteq> ''.'' \<and> \<not> is_directory P dir (io_world s)
          then s\<lparr>io_world := snd (make_dirs P dir (io_world s))\<rparr> else s)"

definition write_patched ::
  "'w platform \<Rightarrow> patch_options \<Rightarrow> patch_file \<Rightarrow> bool \<Rightarrow> file_content \<Rightarrow> match_state \<Rightarrow> 'w io \<Rightarrow> 'w io option" where
  "write_patched P opts pf file_existed fc st s =
     (if (\<exists>pos \<in> set (m_positions st). pos \<ge> 0) \<or> pf_is_creation pf \<or> (o_merge opts \<and> m_has_rejects st) then
        case patched_content opts fc (pf_hunks pf) st of
          None \<Rightarrow> None
        | Some new_content \<Rightarrow>
            let s = make_parent_dirs P (pf_target_path pf) s in
            if o_remove_empty opts \<and> new_content = [] \<and> \<not> pf_is_creation pf
            then Some (if file_existed then fs_delete P (pf_target_path pf) s else s)
            else Some (fs_write P (pf_target_path pf) new_content s)
      else Some s)"

definition write_rejects ::
  "'w platform \<Rightarrow> patch_file \<Rightarrow> bool list \<Rightarrow> 'w io \<Rightarrow> 'w io" where
  "write_rejects P pf rejected s =
     (let rej_content = format_rejects pf rejected in
      if rej_content \<noteq> [] then fs_write P (pf_target_path pf @ ''.rej'') rej_content s else s)"

definition rejects_message :: "patch_file \<Rightarrow> bool list \<Rightarrow> string" where
  "rejects_message pf rejected =
     int_str (int (length (filter id rejected))) @ '' out of '' @ int_str (int (length (pf_hunks pf))) @ '' '' @
     (if length (pf_hunks pf) = 1 then ''hunk'' else ''hunks'') @
     '' FAILED -- saving rejects to file '' @ pf_target_path pf @ ''.rej'' @ [nl]"

section \<open>A file and a patch\<close>

text \<open>The result, \<open>had_rejects\<close> and the file system.\<close>

type_synonym 'w patch_state = "patch_result \<times> bool \<times> 'w io"

definition missing_file ::
  "'w platform \<Rightarrow> patch_options \<Rightarrow> patch_file \<Rightarrow> 'w patch_state \<Rightarrow> 'w patch_state" where
  "missing_file P opts pf = (\<lambda>(res, had_rejects, s).
     (res\<lparr>r_exit_code := 1\<rparr>,
      (if o_dry_run opts then had_rejects else True),
      (if o_dry_run opts then s else write_rejects P pf (replicate (length (pf_hunks pf)) True) s)))"

definition patch_body ::
  "'w platform \<Rightarrow> patch_options \<Rightarrow> patch_file \<Rightarrow> bool \<Rightarrow> file_content \<Rightarrow> 'w patch_state \<Rightarrow> 'w patch_state option" where
  "patch_body P opts pf file_existed fc = (\<lambda>(res, had_rejects, s).
     let st = match_hunks opts (fc_lines fc) 0 (pf_hunks pf) start_match;
         res = res\<lparr>r_out := r_out res @ m_out st, r_err := r_err res @ m_err st\<rparr>;
         res = (if m_has_rejects st then res\<lparr>r_exit_code := 1\<rparr> else res);
         had_rejects = (had_rejects \<or> m_has_rejects st)
     in if o_dry_run opts then Some (res, had_rejects, s)
        else case write_patched P opts pf file_existed fc st s of
          None \<Rightarrow> None
        | Some s \<Rightarrow>
            if m_has_rejects st \<and> \<not> o_merge opts then
              Some (if o_quiet opts then res
                    else res\<lparr>r_err := r_err res @ rejects_message pf (m_rejected st)\<rparr>,
                    had_rejects, write_rejects P pf (m_rejected st) s)
            else Some (res, had_rejects, s))"

definition patch_one_file ::
  "'w platform \<Rightarrow> patch_options \<Rightarrow> patch_file \<Rightarrow> 'w patch_state \<Rightarrow> 'w patch_state option" where
  "patch_one_file P opts pf = (\<lambda>(res, had_rejects, s).
     if pf_target_path pf = [] then Some (res, had_rejects, s)
     else
       let res = (if o_quiet opts then res
             else res\<lparr>r_out := r_out res @ ''patching file '' @ pf_target_path pf @ [nl]\<rparr>);
           file_existed = fs_exists P (pf_target_path pf) s;
           fc = load_file_lines (if file_existed then fs_read P (pf_target_path pf) s else [])
       in if \<not> file_existed \<and> \<not> pf_is_creation pf then
            let res = res\<lparr>r_err := r_err res @ ''can't find file to patch at input line 0'' @ [nl]\<rparr> in
            if \<not> o_force opts then Some (missing_file P opts pf (res, had_rejects, s))
            else patch_body P opts pf file_existed fc (res, had_rejects, s)
          else patch_body P opts pf file_existed fc (res, had_rejects, s))"

fun patch_files ::
  "'w platform \<Rightarrow> patch_options \<Rightarrow> patch_file list \<Rightarrow> 'w patch_state \<Rightarrow> 'w patch_state option" where
  "patch_files P opts [] st = Some st"
| "patch_files P opts (pf # pfs) st =
     (case patch_one_file P opts pf st of None \<Rightarrow> None | Some st \<Rightarrow> patch_files P opts pfs st)"

definition builtin_patch ::
  "'w platform \<Rightarrow> string \<Rightarrow> patch_options \<Rightarrow> 'w io \<Rightarrow> (patch_result \<times> 'w io) option" where
  "builtin_patch P patch_text opts s =
     (let res = \<lparr>r_exit_code = 0, r_out = [], r_err = []\<rparr>;
          files = parse_patch patch_text (o_strip_level opts) (o_reverse opts)
      in if files = [] then Some (res, s)
         else map_option (\<lambda>(res, had_rejects, s).
                (if had_rejects then res\<lparr>r_exit_code := 1\<rparr> else res, s))
              (patch_files P opts files (res, False, s)))"

section \<open>Laws\<close>

lemma fuzz_used_nonneg: "0 \<le> fuzz_used_for m f pos pat ctx"
  using fuzz_loop_sound by (force simp: fuzz_used_for_def split: option.splits if_splits)

lemma match_hunk_fuzz:
  "\<forall>fz \<in> set (m_fuzz st). 0 \<le> fz_prefix fz \<Longrightarrow>
   \<forall>fz \<in> set (m_fuzz (match_hunk opts f h hunk st)). 0 \<le> fz_prefix fz"
  using fuzz_used_nonneg by (auto simp: match_hunk_def Let_def)

lemma match_hunks_fuzz:
  "\<forall>fz \<in> set (m_fuzz st). 0 \<le> fz_prefix fz \<Longrightarrow>
   \<forall>fz \<in> set (m_fuzz (match_hunks opts f h hunks st)). 0 \<le> fz_prefix fz"
  by (induction opts f h hunks st rule: match_hunks.induct) (simp_all add: match_hunk_fuzz)

definition hunks_ok :: "patch_file \<Rightarrow> bool" where
  "hunks_ok pf \<longleftrightarrow> (\<forall>h \<in> set (pf_hunks pf). \<forall>l \<in> set (p_lines h). line_ok l)"

lemma patch_body_returns:
  assumes "hunks_ok pf"
  shows "patch_body P opts pf ex fc (res, hr, s) \<noteq> None"
proof -
  let ?st = "match_hunks opts (fc_lines fc) 0 (pf_hunks pf) start_match"
  have "\<forall>fz \<in> set (m_fuzz ?st). 0 \<le> fz_prefix fz"
    by (rule match_hunks_fuzz) (simp add: start_match_def)
  with assms have "patched_content opts fc (pf_hunks pf) ?st \<noteq> None"
    using build_merge_output_returns unfolding hunks_ok_def patched_content_def by fastforce
  then have "write_patched P opts pf ex fc ?st s \<noteq> None"
    by (auto simp: write_patched_def Let_def)
  then show ?thesis by (auto simp: patch_body_def Let_def)
qed

lemma patch_files_returns:
  "\<forall>pf \<in> set pfs. hunks_ok pf \<Longrightarrow> patch_files P opts pfs st \<noteq> None"
proof (induction pfs arbitrary: st)
  case (Cons pf pfs)
  obtain res hr s where st: "st = (res, hr, s)" by (cases st) auto
  have "patch_one_file P opts pf st \<noteq> None"
    using patch_body_returns[of pf P opts] Cons.prems
    by (simp add: patch_one_file_def st Let_def del: not_None_eq)
  then show ?case using Cons by auto
qed simp

lemma builtin_patch_total: "builtin_patch P text opts s \<noteq> None"
proof -
  have "\<forall>pf \<in> set (parse_patch text sl rv). hunks_ok pf" for sl rv
    using parse_files_lines by (auto simp: hunks_ok_def parse_patch_def)
  then show ?thesis
    using patch_files_returns by (simp add: builtin_patch_def Let_def del: not_None_eq) blast
qed

end
