(* ===== verification/Patch_Chain.thy ===== *)
theory Patch_Chain
  imports Builtin_Patch
begin

text \<open>
  What \<open>builtin_patch\<close> does with a patch that fits the file: \<open>patch_chain\<close> says
  that the hunks sit on the old file one behind the other, with the same lines between them
  in both files. Then every hunk is found at the line its header names, with no fuzz and no
  offset, nothing is rejected, and the output is the new file.
\<close>

definition placed ::
  "lines \<Rightarrow> lines \<Rightarrow> bool \<Rightarrow> int \<Rightarrow> int \<Rightarrow> patch_hunk \<Rightarrow> int \<Rightarrow> int \<Rightarrow> bool" where
  "placed x y y_nl i j h i' j' \<longleftrightarrow>
     0 \<le> i \<and> i \<le> i' \<and> i' \<le> int (length x) \<and> 0 \<le> j \<and> j \<le> j' \<and> j' \<le> int (length y) \<and>
     map pl_text (get_old_pattern (p_lines h)) = slice x i i' \<and>
     get_new_lines (p_lines h) = slice y j j' \<and>
     p_old_start h = (if i < i' then i + 1 else i) \<and>
     (i = i' \<longrightarrow> x = []) \<and> (j = j' \<longrightarrow> y = []) \<and>
     (p_new_no_newline h \<longleftrightarrow> j < j' \<and> j' = int (length y) \<and> \<not> y_nl)"

inductive patch_chain ::
  "lines \<Rightarrow> lines \<Rightarrow> bool \<Rightarrow> bool \<Rightarrow> int \<Rightarrow> int \<Rightarrow> patch_hunk list \<Rightarrow> bool" for x y x_nl y_nl where
  patch_end: "drop (nat i) x = drop (nat j) y \<Longrightarrow> drop (nat j) y = [] \<or> x_nl = y_nl \<Longrightarrow>
     patch_chain x y x_nl y_nl i j []"
| patch_next: "0 \<le> i \<Longrightarrow> i \<le> i1 \<Longrightarrow> 0 \<le> j \<Longrightarrow> j \<le> j1 \<Longrightarrow> slice x i i1 = slice y j j1 \<Longrightarrow>
     placed x y y_nl i1 j1 h i2 j2 \<Longrightarrow> patch_chain x y x_nl y_nl i2 j2 hs \<Longrightarrow>
     patch_chain x y x_nl y_nl i j (h # hs)"

section \<open>Finding the hunks\<close>

lemma length_slice [simp]:
  "0 \<le> i \<Longrightarrow> i \<le> i' \<Longrightarrow> i' \<le> int (length x) \<Longrightarrow> length (slice x i i') = nat (i' - i)"
  by (simp add: slice_def)

lemma placed_pattern:
  assumes "placed x y y_nl i j h i' j'"
  shows "int (length (get_old_pattern (p_lines h))) = i' - i"
proof -
  have "length (map pl_text (get_old_pattern (p_lines h))) = length (slice x i i')"
    using assms by (simp only: placed_def)
  then show ?thesis using assms by (simp add: placed_def)
qed

lemma placed_pos_ok:
  fixes h defines "pat \<equiv> get_old_pattern (p_lines h)" and "ctx \<equiv> get_hunk_context (p_lines h)"
  assumes p: "placed x y y_nl i j h i' j'" and "frozen \<le> i"
  shows "pos_ok x pat ctx 0 (max_search_of x pat ctx 0) frozen i"
    "try_match x i pat 0 ctx"
proof -
  have len: "int (length pat) = i' - i" unfolding pat_def by (rule placed_pattern[OF p])
  have t: "take (length pat) (drop (nat i) x) = map pl_text pat"
    using p len by (simp add: placed_def slice_def pat_def nat_diff_distrib flip: len)
  have nn: "0 \<le> ctx_prefix ctx" "0 \<le> ctx_suffix ctx" by (simp_all add: ctx_def)
  show m: "try_match x i pat 0 ctx"
    using t p len nn by (simp add: try_match_no_fuzz placed_def)
  show "pos_ok x pat ctx 0 (max_search_of x pat ctx 0) frozen i"
    using m p len nn assms(4) by (auto simp: pos_ok_def max_search_of_def Let_def placed_def)
qed

lemma locate_placed:
  assumes p: "placed x y y_nl i j h i' j'" and "frozen \<le> i" "0 \<le> max_fuzz"
  shows "locate_hunk x h (get_old_pattern (p_lines h)) frozen 0 max_fuzz = i"
proof -
  let ?pat = "get_old_pattern (p_lines h)" and ?ctx = "get_hunk_context (p_lines h)"
  note ok = placed_pos_ok(1)[OF p assms(2)]
  have "search_at_fuzz x ?pat ?ctx frozen (p_old_start h - 1) 0 = Some i"
  proof (cases "i < i'")
    case True
    then have "p_old_start h - 1 = i" using p by (simp add: placed_def)
    then show ?thesis using ok by (simp add: search_at_fuzz_def Let_def)
  next
    case False
    then have e: "x = []" "i = 0" "i' = 0" "p_old_start h = 0" using p by (auto simp: placed_def)
    then have "?pat = []" using placed_pattern[OF p] by simp
    then have m: "max_search_of x ?pat ?ctx 0 = 0" using e by (simp add: max_search_of_def)
    have "\<not> pos_ok x ?pat ?ctx 0 0 frozen (- 1)" by (simp add: pos_ok_def)
    then show ?thesis using ok assms(2) e(2,4)
      by (simp add: search_at_fuzz_def Let_def m spiral.simps[of _ _ _ 1])
  qed
  then show ?thesis using assms(3)
    by (simp add: locate_hunk_def Let_def fuzz_loop.simps[of _ _ 0])
qed

abbreviation no_fuzz :: hunk_fuzz where
  "no_fuzz \<equiv> \<lparr>fz_prefix = 0, fz_suffix = 0\<rparr>"

lemma match_placed:
  assumes p: "placed x y y_nl i j h i' j'" and "m_frozen st \<le> i" "m_offset st = 0" "0 \<le> o_fuzz opts"
  shows "match_hunk opts x n h st =
    st\<lparr>m_positions := m_positions st @ [i], m_fuzz := m_fuzz st @ [no_fuzz],
       m_rejected := m_rejected st @ [False], m_offset := 0, m_frozen := i'\<rparr>"
proof -
  let ?pat = "get_old_pattern (p_lines h)" and ?ctx = "get_hunk_context (p_lines h)"
  have "fuzz_used_for (o_fuzz opts) x i ?pat ?ctx = 0"
    using placed_pos_ok(2)[OF p assms(2)] assms(4)
    by (simp add: fuzz_used_for_def fuzz_loop.simps[of _ _ 0])
  moreover have "i - (max (p_old_start h) 1 - 1) = 0" "0 \<le> i"
    using p by (auto simp: placed_def)
  ultimately show ?thesis
    using locate_placed[OF p assms(2,4)] assms(3) placed_pattern[OF p]
    by (simp add: match_hunk_def Let_def hunk_message_def)
qed

section \<open>Writing the new file\<close>

lemma slice_drop:
  "0 \<le> i \<Longrightarrow> i \<le> i' \<Longrightarrow> slice x i i' @ drop (nat i') x = drop (nat i) x"
  by (simp add: slice_def) (metis append_take_drop_id drop_drop le_add_diff_inverse2 nat_diff_distrib nat_mono)

lemma apply_placed:
  assumes p: "placed x y y_nl i j h i' j'"
  shows "apply_hunk x h i no_fuzz (buf, lc) =
    (buf @ unlines (slice x lc i) @ write_lines (slice y j j') (p_new_no_newline h), i')"
  using p placed_pattern[OF p] by (auto simp: apply_hunk_def Let_def placed_def slice_def)

lemma write_placed:
  assumes p: "placed x y y_nl i j h i' j'" and "0 \<le> k" "k \<le> j" "k = j \<or> j < j'"
  shows "unlines (slice y k j) @ write_lines (slice y j j') (p_new_no_newline h) @
      write_lines (drop (nat j') y) (\<not> y_nl) = write_lines (drop (nat k) y) (\<not> y_nl)"
proof -
  have j: "0 \<le> j" "j \<le> j'" "j' \<le> int (length y)" using p by (auto simp: placed_def)
  have split: "drop (nat k) y = slice y k j @ slice y j j' @ drop (nat j') y"
    using assms(2,3) j by (simp add: slice_drop)
  show ?thesis
  proof (cases "j < j'")
    case True
    then have ne: "slice y j j' \<noteq> []" using j by (auto simp: slice_def)
    show ?thesis
    proof (cases "j' = int (length y)")
      case last: True
      then show ?thesis
        using p True ne unfolding split by (simp add: placed_def write_lines_append)
    next
      case False
      then have "drop (nat j') y \<noteq> []" using j by simp
      then show ?thesis
        using p False unfolding split by (simp add: placed_def write_lines_append)
    qed
  next
    case False
    then have "y = []" using p j(2) by (auto simp: placed_def)
    then show ?thesis by (simp add: slice_def)
  qed
qed

section \<open>All hunks of a file\<close>

lemma match_chain:
  assumes "patch_chain x y x_nl y_nl i j hs" "m_offset st = 0" "m_frozen st = i" "0 \<le> o_fuzz opts"
  shows "\<exists>ps fr. match_hunks opts x n hs st =
      st\<lparr>m_positions := m_positions st @ ps, m_fuzz := m_fuzz st @ replicate (length hs) no_fuzz,
         m_rejected := m_rejected st @ replicate (length hs) False, m_offset := 0, m_frozen := fr\<rparr> \<and>
      length ps = length hs \<and> (\<forall>p \<in> set ps. 0 \<le> p) \<and>
      (\<forall>buf. copy_rest x x_nl (output_loop x hs ps (replicate (length hs) no_fuzz) (buf, i)) =
         buf @ write_lines (drop (nat j) y) (\<not> y_nl))"
  using assms
proof (induction arbitrary: st n rule: patch_chain.induct)
  case (patch_end i j)
  have "copy_rest x x_nl (output_loop x [] [] (replicate (length []) no_fuzz) (buf, i)) =
      buf @ write_lines (drop (nat j) y) (\<not> y_nl)" for buf
    using patch_end by (auto simp: copy_rest_def)
  then show ?case using patch_end.prems by (intro exI[of _ "[]"] exI[of _ i]) simp
next
  case (patch_next i i1 j j1 h i2 j2 hs)
  let ?st = "st\<lparr>m_positions := m_positions st @ [i1], m_fuzz := m_fuzz st @ [no_fuzz],
       m_rejected := m_rejected st @ [False], m_offset := 0, m_frozen := i2\<rparr>"
  have m: "match_hunk opts x n h st = ?st"
    using match_placed[OF patch_next(6)] patch_next(2) patch_next.prems by simp
  from patch_next.IH[of ?st "n + 1"] patch_next.prems obtain ps fr where IH:
    "match_hunks opts x (n + 1) hs ?st =
      ?st\<lparr>m_positions := m_positions ?st @ ps, m_fuzz := m_fuzz ?st @ replicate (length hs) no_fuzz,
         m_rejected := m_rejected ?st @ replicate (length hs) False, m_offset := 0, m_frozen := fr\<rparr>"
    "length ps = length hs" "\<forall>p \<in> set ps. 0 \<le> p"
    "\<And>buf. copy_rest x x_nl (output_loop x hs ps (replicate (length hs) no_fuzz) (buf, i2)) =
         buf @ write_lines (drop (nat j2) y) (\<not> y_nl)"
    by auto
  have i1: "0 \<le> i1" "\<not> i1 < 0" using patch_next(1,2) by simp_all
  have kj: "j = j1 \<or> j1 < j2"
  proof (cases "j1 = j2")
    case True
    then have "y = []" "j1 = 0" using patch_next(6) by (auto simp: placed_def)
    then show ?thesis using patch_next(3,4) by simp
  next
    case False
    then show ?thesis using patch_next(6) by (auto simp: placed_def)
  qed
  have "copy_rest x x_nl (output_loop x (h # hs) (i1 # ps) (replicate (length (h # hs)) no_fuzz) (buf, i)) =
      buf @ write_lines (drop (nat j) y) (\<not> y_nl)" for buf
    using write_placed[OF patch_next(6,3,4) kj] i1
    by (simp add: apply_placed[OF patch_next(6)] IH(4) patch_next(5))
  then show ?case
    using IH(1-3) i1 m
    by (intro exI[of _ "i1 # ps"] exI[of _ fr]) (simp add: del: output_loop.simps)
qed

end
