(* ===== verification/Myers_Diff.thy ===== *)
theory Myers_Diff
  imports Edit_Script
begin

text \<open>
  The Myers engine of \<open>src/src/quilt.cpp\<close>: the forward search over the vector \<open>v\<close>
  of furthest points, the trace of its copies, the cost cut-off of the \<open>myers\<close> mode with
  its restart on the rest of the files, and the backtracking that turns the trace into an edit
  script. Indices are \<^typ>\<open>int\<close> (\<open>ptrdiff_t\<close>), vectors are lists read at
  \<open>offset + k\<close>. The lemmas show that the search always ends at the corner \<open>(n, m)\<close>
  within \<open>n + m\<close> rounds, that every engine mode returns a script, and that the full
  search returns one with the fewest edits.
\<close>

section \<open>The engine\<close>

datatype diff_algorithm = Myers | Minimal | Patience | Histogram

definition bogosqrt :: "int \<Rightarrow> int" where
  "bogosqrt n = while (\<lambda>r. r * r < n) (\<lambda>r. push_bit 1 r) 1"

type_synonym vec = "int list"

definition vget :: "vec \<Rightarrow> int \<Rightarrow> int \<Rightarrow> int" where
  "vget v offset k = v ! nat (offset + k)"

text \<open>The choice between coming down from diagonal \<open>k + 1\<close> and right from
  \<open>k - 1\<close>, which the search and the backtracking make by the same test.\<close>

definition came_down :: "vec \<Rightarrow> int \<Rightarrow> int \<Rightarrow> int \<Rightarrow> bool" where
  "came_down v offset d k \<longleftrightarrow>
     k = - d \<or> (k \<noteq> d \<and> vget v offset (k - 1) < vget v offset (k + 1))"

function bt_diagonal :: "int \<Rightarrow> int \<Rightarrow> int \<Rightarrow> int \<Rightarrow> edit_op list \<Rightarrow> int \<times> int \<times> edit_op list" where
  "bt_diagonal prev_x prev_y x y ops =
     (if x > prev_x \<and> y > prev_y
      then bt_diagonal prev_x prev_y (x - 1) (y - 1) (ops @ [eq_op (x - 1) (y - 1)])
      else (x, y, ops))"
  by pat_completeness auto
termination
  by (relation "measure (\<lambda>(px, py, x, y, ops). nat (x - px))") auto

function bt_loop :: "vec list \<Rightarrow> int \<Rightarrow> int \<Rightarrow> int \<Rightarrow> int \<Rightarrow> edit_op list \<Rightarrow> edit_op list" where
  "bt_loop trace offset d x y ops =
     (if d > 0 then
        let prev_v = trace ! nat d;
            k = x - y;
            prev_k = (if came_down prev_v offset d k then k + 1 else k - 1);
            prev_x = vget prev_v offset prev_k;
            prev_y = prev_x - prev_k;
            (x, y, ops) = bt_diagonal prev_x prev_y x y ops
        in if x > prev_x then bt_loop trace offset (d - 1) (x - 1) y (ops @ [del_op (x - 1)])
           else if y > prev_y then bt_loop trace offset (d - 1) x (y - 1) (ops @ [ins_op (y - 1)])
           else bt_loop trace offset (d - 1) x y ops
      else (let (x, y, ops) = bt_diagonal 0 0 x y ops in ops))"
  by pat_completeness auto
termination
  by (relation "measure (\<lambda>(trace, off, d, x, y, ops). nat d)") auto

definition backtrack_trace :: "vec list \<Rightarrow> int \<Rightarrow> int \<Rightarrow> int \<Rightarrow> int \<Rightarrow> edit_op list" where
  "backtrack_trace trace final_d x y offset = rev (bt_loop trace offset final_d x y [])"

function snake :: "lines \<Rightarrow> lines \<Rightarrow> int \<Rightarrow> int \<Rightarrow> int \<times> int" where
  "snake a b x y =
     (if x < int (length a) \<and> y < int (length b) \<and> a ! nat x = b ! nat y
      then snake a b (x + 1) (y + 1) else (x, y))"
  by pat_completeness auto
termination
  by (relation "measure (\<lambda>(a, b, x, y). nat (int (length a) - x))") auto

text \<open>One round of the search for one \<open>d\<close>: \<open>None\<close> is the jump to
  \<open>found\<close>.\<close>

function myers_round :: "lines \<Rightarrow> lines \<Rightarrow> int \<Rightarrow> int \<Rightarrow> int \<Rightarrow> vec \<Rightarrow> vec option" where
  "myers_round a b offset d k v =
     (if k \<le> d then
        let x = (if came_down v offset d k then vget v offset (k + 1) else vget v offset (k - 1) + 1);
            y = x - k;
            (x, y) = snake a b x y;
            v = v[nat (offset + k) := x]
        in if x \<ge> int (length a) \<and> y \<ge> int (length b) then None
           else myers_round a b offset d (k + 2) v
      else Some v)"
  by pat_completeness auto
termination
  by (relation "measure (\<lambda>(a, b, off, d, k, v). nat (d - k + 1))") auto

text \<open>The furthest endpoint inside the files, for the cut-off.\<close>

function best_endpoint :: "lines \<Rightarrow> lines \<Rightarrow> int \<Rightarrow> vec \<Rightarrow> int \<Rightarrow> int \<Rightarrow> int \<Rightarrow> int \<Rightarrow> int \<times> int" where
  "best_endpoint a b offset v d k best_x best_y =
     (if k \<le> d then
        let x = vget v offset k; y = x - k in
        if x < 0 \<or> x > int (length a) \<or> y > int (length b) \<or> y < 0
        then best_endpoint a b offset v d (k + 2) best_x best_y
        else if best_x < 0 \<or> x + y > best_x + best_y
        then best_endpoint a b offset v d (k + 2) x y
        else best_endpoint a b offset v d (k + 2) best_x best_y
      else (best_x, best_y))"
  by pat_completeness auto
termination
  by (relation "measure (\<lambda>(a, b, off, v, d, k, bx, by). nat (d - k + 1))") auto

datatype search_result = Found int "vec list" | Cutoff int "vec list" int int

function myers_search ::
  "lines \<Rightarrow> lines \<Rightarrow> int \<Rightarrow> int \<Rightarrow> int \<Rightarrow> int \<Rightarrow> vec \<Rightarrow> vec list \<Rightarrow> search_result" where
  "myers_search a b mxcost max_d offset d v trace =
     (if d \<le> max_d then
        let trace = trace @ [v] in
        case myers_round a b offset d (- d) v of
          None \<Rightarrow> Found d trace
        | Some v \<Rightarrow>
            if d \<ge> mxcost \<and> d < max_d then
              let (best_x, best_y) = best_endpoint a b offset v d (- d) (- 1) (- 1) in
              if best_x \<ge> 0 then Cutoff d trace best_x best_y
              else myers_search a b mxcost max_d offset (d + 1) v trace
            else myers_search a b mxcost max_d offset (d + 1) v trace
      else Found (- 1) trace)"
  by pat_completeness auto
termination
  by (relation "measure (\<lambda>(a, b, mx, md, off, d, v, tr). nat (md - d + 1))") auto

declare bt_diagonal.simps [simp del] bt_loop.simps [simp del] snake.simps [simp del]
  myers_round.simps [simp del] best_endpoint.simps [simp del] myers_search.simps [simp del]

definition max_cost :: "diff_algorithm \<Rightarrow> int \<Rightarrow> int" where
  "max_cost alg max_d =
     (if alg = Myers then
        let mxcost = bogosqrt max_d;
            mxcost = (if mxcost < 256 then 256 else mxcost)
        in if mxcost > max_d then max_d else mxcost
      else max_d)"

text \<open>The vector before the first round.\<close>

definition init_vec :: "int \<Rightarrow> vec" where
  "init_vec max_d = (replicate (nat (2 * max_d + 1)) (- 1))[nat (max_d + 1) := 0]"

definition myers_start :: "diff_algorithm \<Rightarrow> lines \<Rightarrow> lines \<Rightarrow> search_result" where
  "myers_start alg a b =
     (let max_d = int (length a) + int (length b)
      in myers_search a b (max_cost alg max_d) max_d max_d 0 (init_vec max_d) [])"


section \<open>Furthest points\<close>

definition cell_match :: "lines \<Rightarrow> lines \<Rightarrow> int \<Rightarrow> int \<Rightarrow> bool" where
  "cell_match a b x y \<longleftrightarrow>
     0 \<le> x \<and> x < int (length a) \<and> 0 \<le> y \<and> y < int (length b) \<and> a ! nat x = b ! nat y"

definition at_corner :: "lines \<Rightarrow> lines \<Rightarrow> int \<Rightarrow> int \<Rightarrow> bool" where
  "at_corner a b x y \<longleftrightarrow> x \<ge> int (length a) \<and> y \<ge> int (length b)"

text \<open>Paths in the edit graph, extended past its right and lower edge as the search
  extends them: \<open>epath a b d x y\<close> says that \<open>(x, y)\<close> is reached with \<open>d\<close> edits.\<close>

inductive epath :: "lines \<Rightarrow> lines \<Rightarrow> nat \<Rightarrow> int \<Rightarrow> int \<Rightarrow> bool" for a b where
  origin: "epath a b 0 0 0"
| diag: "epath a b d x y \<Longrightarrow> cell_match a b x y \<Longrightarrow> epath a b d (x + 1) (y + 1)"
| right: "epath a b d x y \<Longrightarrow> epath a b (Suc d) (x + 1) y"
| down: "epath a b d x y \<Longrightarrow> epath a b (Suc d) x (y + 1)"

lemma epath_bounds:
  "epath a b d x y \<Longrightarrow> 0 \<le> x \<and> 0 \<le> y \<and> \<bar>x - y\<bar> \<le> int d \<and> int d \<le> x + y \<and> even (int d - (x - y))"
  by (induction rule: epath.induct) auto

lemma epath_run:
  assumes "epath a b d x y" "\<And>t. x \<le> t \<Longrightarrow> t < x + int r \<Longrightarrow> cell_match a b t (t - x + y)"
  shows "epath a b d (x + int r) (y + int r)"
  using assms(2)
proof (induction r)
  case (Suc r)
  then have "epath a b d (x + int r) (y + int r)" by simp
  moreover have "cell_match a b (x + int r) (y + int r)"
    using Suc.prems[of "x + int r"] by (simp add: add.commute)
  ultimately show ?case
    using epath.diag by (fastforce simp: algebra_simps)
qed (simp add: assms(1))

text \<open>Clipping a path at the edges of the graph saves the edits outside.\<close>

lemma epath_clip:
  assumes "epath a b d x y"
  defines "ex \<equiv> nat (x - int (length a)) + nat (y - int (length b))"
  shows "ex \<le> d \<and> epath a b (d - ex) (min x (int (length a))) (min y (int (length b)))"
  using assms(1) unfolding ex_def
proof (induction rule: epath.induct)
  case origin
  then show ?case by (simp add: epath.origin)
next
  case (diag d x y)
  then show ?case
    using epath.diag[of a b d x y] by (auto simp: cell_match_def)
next
  case (right d x y)
  then show ?case
  proof (cases "x < int (length a)")
    case True
    with right.IH epath.right[of a b _ x "min y (int (length b))"] show ?thesis
      by (simp add: Suc_diff_le)
  next
    case False
    then have "nat (x + 1 - int (length a)) = Suc (nat (x - int (length a)))" by simp
    with False right.IH show ?thesis by simp
  qed
next
  case (down d x y)
  then show ?case
  proof (cases "y < int (length b)")
    case True
    with down.IH epath.down[of a b _ "min x (int (length a))" y] show ?thesis
      by (simp add: Suc_diff_le)
  next
    case False
    then have "nat (y + 1 - int (length b)) = Suc (nat (y - int (length b)))" by simp
    with False down.IH show ?thesis by simp
  qed
qed

lemma epath_all_edits: "epath a b (r + s) (int r) (int s)"
proof (induction s)
  case 0
  show ?case
  proof (induction r)
    case (Suc r)
    from epath.right[OF Suc] show ?case by (simp add: add.commute)
  qed (simp add: epath.origin)
next
  case (Suc s)
  from epath.down[OF Suc] show ?case by (simp add: add.commute)
qed

lemma script_epath:
  "script_from a b i j ps i' j' \<Longrightarrow> epath a b d i j \<Longrightarrow> epath a b (d + edits ps) i' j'"
proof (induction ps arbitrary: d i j)
  case (Cons p ps)
  show ?case
  proof (cases "ty p")
    case OpE
    with Cons.prems have "epath a b d (i + 1) (j + 1)"
      by (auto intro!: epath.diag simp: cell_match_def)
    with OpE Cons.IH[of "i + 1" "j + 1" d] Cons.prems(1) show ?thesis by simp
  next
    case OpD
    with Cons.IH[of "i + 1" j "Suc d"] Cons.prems show ?thesis by (simp add: epath.right)
  next
    case OpI
    with Cons.IH[of i "j + 1" "Suc d"] Cons.prems show ?thesis by (simp add: epath.down)
  qed
qed simp

section \<open>The snake\<close>

lemma snake_spec:
  assumes "0 \<le> x" "0 \<le> y"
  shows "\<exists>r. snake a b x y = (x + int r, y + int r)
    \<and> (\<forall>t. x \<le> t \<and> t < x + int r \<longrightarrow> cell_match a b t (t - x + y))
    \<and> \<not> cell_match a b (x + int r) (y + int r)"
  using assms
proof (induction a b x y rule: snake.induct)
  case (1 a b x y)
  show ?case
  proof (cases "cell_match a b x y")
    case True
    then have step: "snake a b x y = snake a b (x + 1) (y + 1)"
      by (subst snake.simps) (simp add: cell_match_def)
    from True "1.IH" "1.prems" obtain r where
      r: "snake a b (x + 1) (y + 1) = (x + 1 + int r, y + 1 + int r)"
      "\<forall>t. x + 1 \<le> t \<and> t < x + 1 + int r \<longrightarrow> cell_match a b t (t - (x + 1) + (y + 1))"
      "\<not> cell_match a b (x + 1 + int r) (y + 1 + int r)"
      by (auto simp: cell_match_def)
    have "cell_match a b t (t - x + y)" if "x \<le> t" "t < x + int (Suc r)" for t
      using that r(2) True by (cases "t = x") (auto simp: algebra_simps)
    with r step show ?thesis
      by (intro exI[of _ "Suc r"]) (auto simp: algebra_simps)
  next
    case False
    then have "snake a b x y = (x, y)"
      using "1.prems" by (subst snake.simps) (auto simp: cell_match_def)
    with False show ?thesis by (intro exI[of _ 0]) auto
  qed
qed

definition step_x :: "vec \<Rightarrow> int \<Rightarrow> int \<Rightarrow> int \<Rightarrow> int" where
  "step_x v offset d k =
     (if came_down v offset d k then vget v offset (k + 1) else vget v offset (k - 1) + 1)"

definition reach :: "lines \<Rightarrow> lines \<Rightarrow> vec \<Rightarrow> int \<Rightarrow> int \<Rightarrow> int \<Rightarrow> int" where
  "reach a b v offset d k = fst (snake a b (step_x v offset d k) (step_x v offset d k - k))"

text \<open>The diagonals a round visits.\<close>

definition on_round :: "int \<Rightarrow> int \<Rightarrow> bool" where
  "on_round d k \<longleftrightarrow> \<bar>k\<bar> \<le> d \<and> even (d - k)"

lemma vget_update:
  "0 \<le> md + k \<Longrightarrow> md + k < int (length v) \<Longrightarrow> 0 \<le> md + k' \<Longrightarrow>
   vget (v[nat (md + k) := x]) md k' = (if k = k' then x else vget v md k')"
  by (auto simp: vget_def nth_list_update nat_eq_iff2)


section \<open>One round\<close>

text \<open>\<open>v\<close> holds the results of the previous round: only entries of the other parity are
  read, only entries of the round's parity are written.\<close>

definition same_other :: "int \<Rightarrow> int \<Rightarrow> vec \<Rightarrow> vec \<Rightarrow> bool" where
  "same_other md d v w \<longleftrightarrow> (\<forall>k. \<bar>k\<bar> \<le> md \<and> odd (d - k) \<longrightarrow> vget v md k = vget w md k)"

definition vec_ok :: "int \<Rightarrow> vec \<Rightarrow> bool" where
  "vec_ok md v \<longleftrightarrow> length v = nat (2 * md + 1)"

lemma step_x_cong:
  assumes "same_other md d v w" "on_round d k" "d \<le> md" "1 \<le> md"
  shows "step_x v md d k = step_x w md d k"
proof -
  have "odd (d - (k + 1))" "odd (d - (k - 1))"
    using assms(2) by (auto simp: on_round_def)
  moreover have "k \<noteq> d \<Longrightarrow> \<bar>k + 1\<bar> \<le> md" "k \<noteq> - d \<Longrightarrow> \<bar>k - 1\<bar> \<le> md" "k = - d \<Longrightarrow> \<bar>k + 1\<bar> \<le> md"
    using assms by (auto simp: on_round_def)
  ultimately have "k \<noteq> d \<Longrightarrow> vget v md (k + 1) = vget w md (k + 1)"
    "k \<noteq> - d \<Longrightarrow> vget v md (k - 1) = vget w md (k - 1)"
    "k = - d \<Longrightarrow> vget v md (k + 1) = vget w md (k + 1)"
    using assms(1) unfolding same_other_def by auto
  then show ?thesis
    by (cases "k = - d"; cases "k = d") (auto simp: step_x_def came_down_def)
qed

lemma reach_cong:
  "same_other md d v w \<Longrightarrow> on_round d k \<Longrightarrow> d \<le> md \<Longrightarrow> 1 \<le> md \<Longrightarrow>
   reach a b v md d k = reach a b w md d k"
  by (simp add: reach_def step_x_cong)

lemma snake_snd: "0 \<le> x \<Longrightarrow> 0 \<le> x - k \<Longrightarrow> snd (snake a b x (x - k)) = fst (snake a b x (x - k)) - k"
  using snake_spec[of x "x - k" a b] by fastforce

lemma snake_snd_any: "snd (snake a b x y) = fst (snake a b x y) - (x - y)"
  by (induction a b x y rule: snake.induct) (subst (1 2) snake.simps, auto)

lemma myers_round_unfold:
  "myers_round a b md d k v =
     (if k \<le> d then
        if at_corner a b (reach a b v md d k) (reach a b v md d k - k) then None
        else myers_round a b md d (k + 2) (v[nat (md + k) := reach a b v md d k])
      else Some v)"
proof -
  have "snake a b (step_x v md d k) (step_x v md d k - k) =
      (reach a b v md d k, reach a b v md d k - k)"
    using snake_snd_any[of a b "step_x v md d k" "step_x v md d k - k"]
    by (simp add: reach_def prod_eq_iff)
  then show ?thesis
    by (subst myers_round.simps) (simp add: step_x_def[symmetric] at_corner_def Let_def)
qed

lemma myers_round_spec:
  assumes "vec_ok md v" "vec_ok md v0" "0 \<le> d" "d \<le> md" "1 \<le> md" "even (d - k)" "- d \<le> k"
    "same_other md d v v0"
    "\<And>k'. on_round d k' \<Longrightarrow> k' < k \<Longrightarrow> vget v md k' = reach a b v0 md d k'"
  shows "case myers_round a b md d k v of
      None \<Rightarrow> \<exists>k'\<ge>k. on_round d k' \<and> at_corner a b (reach a b v0 md d k') (reach a b v0 md d k' - k')
    | Some w \<Rightarrow> vec_ok md w \<and>
        (\<forall>k'. on_round d k' \<longrightarrow> vget w md k' = reach a b v0 md d k') \<and>
        (\<forall>k'\<ge>k. on_round d k' \<longrightarrow> \<not> at_corner a b (reach a b v0 md d k') (reach a b v0 md d k' - k'))"
  using assms
proof (induction "nat (d - k + 1)" arbitrary: k v rule: less_induct)
  case less
  show ?case
  proof (cases "k \<le> d")
    case False
    with less.prems show ?thesis
      by (subst myers_round_unfold) (auto simp: on_round_def)
  next
    case True
    then have on: "on_round d k" using less.prems by (auto simp: on_round_def)
    have r: "reach a b v md d k = reach a b v0 md d k"
      using reach_cong less.prems on by blast
    have next_k: "k + 2 \<le> k'" if "on_round d k'" "k < k'" for k'
      using that less.prems(6) by (cases "k' = k + 1") (auto simp: on_round_def)
    show ?thesis
    proof (cases "at_corner a b (reach a b v md d k) (reach a b v md d k - k)")
      case c: True
      with True on r show ?thesis
        by (subst myers_round_unfold) auto
    next
      case c: False
      let ?v = "v[nat (md + k) := reach a b v md d k]"
      have len: "0 \<le> md + k" "md + k < int (length v)"
        using less.prems True by (auto simp: vec_ok_def)
      have v1: "vec_ok md ?v" using less.prems by (simp add: vec_ok_def)
      have v2: "same_other md d ?v v0"
        unfolding same_other_def
      proof (intro allI impI, elim conjE)
        fix k' assume k': "\<bar>k'\<bar> \<le> md" "odd (d - k')"
        with on have "k \<noteq> k'" by (auto simp: on_round_def)
        with k' len less.prems(8) show "vget ?v md k' = vget v0 md k'"
          by (simp add: vget_update same_other_def)
      qed
      have v3: "vget ?v md k' = reach a b v0 md d k'" if "on_round d k'" "k' < k + 2" for k'
      proof (cases "k' = k")
        case False
        then have "k' < k" using that next_k[of k'] by force
        moreover have "0 \<le> md + k'" using that less.prems(4) by (auto simp: on_round_def)
        ultimately show ?thesis
          using that less.prems(9)[of k'] len by (simp add: vget_update)
      qed (use len r less.prems True in \<open>simp add: vget_update\<close>)
      have IH: "case myers_round a b md d (k + 2) ?v of
          None \<Rightarrow> \<exists>k'\<ge>k + 2. on_round d k' \<and> at_corner a b (reach a b v0 md d k') (reach a b v0 md d k' - k')
        | Some w \<Rightarrow> vec_ok md w \<and>
          (\<forall>k'. on_round d k' \<longrightarrow> vget w md k' = reach a b v0 md d k') \<and>
          (\<forall>k'\<ge>k + 2. on_round d k' \<longrightarrow> \<not> at_corner a b (reach a b v0 md d k') (reach a b v0 md d k' - k'))"
        by (rule less.hyps) (use True less.prems v1 v2 v3 in auto)
      have rec: "myers_round a b md d k v = myers_round a b md d (k + 2) ?v"
        using True c by (subst myers_round_unfold) simp
      show ?thesis
      proof (cases "myers_round a b md d (k + 2) ?v")
        case None
        with IH obtain k' where "k + 2 \<le> k'" "on_round d k'"
          "at_corner a b (reach a b v0 md d k') (reach a b v0 md d k' - k')" by auto
        with None rec show ?thesis by (auto intro!: exI[of _ k'])
      next
        case (Some w)
        have "\<not> at_corner a b (reach a b v0 md d k') (reach a b v0 md d k' - k')"
          if "k \<le> k'" "on_round d k'" for k'
          using that c r IH Some next_k[of k'] by (cases "k' = k") auto
        with Some IH rec show ?thesis by auto
      qed
    qed
  qed
qed

section \<open>The trace\<close>

text \<open>A trace of \<open>d\<close> finished rounds, none of which reached the corner.\<close>

definition good_trace :: "lines \<Rightarrow> lines \<Rightarrow> int \<Rightarrow> vec list \<Rightarrow> nat \<Rightarrow> bool" where
  "good_trace a b md T d \<longleftrightarrow>
     length T = Suc d \<and> T ! 0 = init_vec md \<and>
     (\<forall>e \<le> d. vec_ok md (T ! e)) \<and>
     (\<forall>e < d. \<forall>k. on_round (int e) k \<longrightarrow>
        vget (T ! Suc e) md k = reach a b (T ! e) md (int e) k \<and>
        \<not> at_corner a b (reach a b (T ! e) md (int e) k) (reach a b (T ! e) md (int e) k - k))"

definition furthest :: "lines \<Rightarrow> lines \<Rightarrow> int \<Rightarrow> vec list \<Rightarrow> nat \<Rightarrow> int \<Rightarrow> int" where
  "furthest a b md T e k = reach a b (T ! e) md (int e) k"

lemma good_trace_init: "0 \<le> md \<Longrightarrow> good_trace a b md [init_vec md] 0"
  by (simp add: good_trace_def vec_ok_def init_vec_def)

lemma good_trace_snoc:
  assumes "good_trace a b md T d" "vec_ok md w"
    "\<And>k. on_round (int d) k \<Longrightarrow> vget w md k = reach a b (T ! d) md (int d) k"
    "\<And>k. on_round (int d) k \<Longrightarrow>
       \<not> at_corner a b (reach a b (T ! d) md (int d) k) (reach a b (T ! d) md (int d) k - k)"
  shows "good_trace a b md (T @ [w]) (Suc d)"
  using assms by (auto simp: good_trace_def nth_append less_Suc_eq le_Suc_eq)

lemma good_traceD:
  assumes "good_trace a b md T d" "e < d" "on_round (int e) k"
  shows "vget (T ! Suc e) md k = furthest a b md T e k"
    "\<not> at_corner a b (furthest a b md T e k) (furthest a b md T e k - k)"
  using assms by (auto simp: good_trace_def furthest_def)

lemma init_vec_at_1: "1 \<le> md \<Longrightarrow> vget (init_vec md) md 1 = 0"
  by (simp add: vget_def init_vec_def nat_less_iff)

text \<open>The start of round \<open>e + 1\<close> on diagonal \<open>k\<close> comes from one of the neighbours.\<close>

lemma step_x_cases:
  assumes g: "good_trace a b md T d" and e: "Suc e \<le> d" and on: "on_round (int (Suc e)) k"
  shows "(came_down (T ! Suc e) md (int (Suc e)) k \<and> on_round (int e) (k + 1) \<and>
          vget (T ! Suc e) md (k + 1) = furthest a b md T e (k + 1) \<and>
          step_x (T ! Suc e) md (int (Suc e)) k = furthest a b md T e (k + 1)) \<or>
         (\<not> came_down (T ! Suc e) md (int (Suc e)) k \<and> on_round (int e) (k - 1) \<and>
          vget (T ! Suc e) md (k - 1) = furthest a b md T e (k - 1) \<and>
          step_x (T ! Suc e) md (int (Suc e)) k = furthest a b md T e (k - 1) + 1)"
proof (cases "came_down (T ! Suc e) md (int (Suc e)) k")
  case True
  then have "k \<noteq> int (Suc e)" by (auto simp: came_down_def)
  with on have "on_round (int e) (k + 1)"
    by (cases "k = int e") (auto simp: on_round_def)
  with True good_traceD(1)[OF g, of e "k + 1"] e show ?thesis by (simp add: step_x_def)
next
  case False
  then have "k \<noteq> - int (Suc e)" by (auto simp: came_down_def)
  with on have "on_round (int e) (k - 1)"
    by (cases "k = - int e") (auto simp: on_round_def)
  with False good_traceD(1)[OF g, of e "k - 1"] e show ?thesis by (simp add: step_x_def)
qed

lemma step_x_ge:
  assumes g: "good_trace a b md T d" and e: "Suc e \<le> d" and on: "on_round (int (Suc e)) k"
  shows "on_round (int e) (k + 1) \<Longrightarrow> furthest a b md T e (k + 1) \<le> step_x (T ! Suc e) md (int (Suc e)) k"
    and "on_round (int e) (k - 1) \<Longrightarrow> furthest a b md T e (k - 1) + 1 \<le> step_x (T ! Suc e) md (int (Suc e)) k"
  using good_traceD(1)[OF g, of e "k + 1"] good_traceD(1)[OF g, of e "k - 1"] e on
  by (auto simp: step_x_def came_down_def on_round_def)

section \<open>Furthest points are furthest\<close>

text \<open>Soundness: the furthest points are reached, and the snake before them matches.\<close>

lemma furthest_spec:
  assumes g: "good_trace a b md T d" and md: "1 \<le> md" and "e \<le> d" and "on_round (int e) k"
  shows "let x = furthest a b md T e k; s = step_x (T ! e) md (int e) k in
     epath a b e s (s - k) \<and> epath a b e x (x - k) \<and> s \<le> x \<and>
     (\<forall>t. s \<le> t \<and> t < x \<longrightarrow> cell_match a b t (t - k)) \<and> \<not> cell_match a b x (x - k)"
  using assms(3,4)
proof (induction e arbitrary: k)
  case 0
  then have k: "k = 0" by (simp add: on_round_def)
  have s: "step_x (T ! 0) md 0 0 = 0"
    using g md init_vec_at_1 by (simp add: step_x_def came_down_def good_trace_def)
  obtain r where r: "snake a b 0 0 = (int r, int r)"
    "\<forall>t. 0 \<le> t \<and> t < int r \<longrightarrow> cell_match a b t t" "\<not> cell_match a b (int r) (int r)"
    using snake_spec[of 0 0 a b] by auto
  have "epath a b 0 (int r) (int r)"
    using epath_run[OF epath.origin, where r = r] r(2) by auto
  with r s k show ?case
    by (simp add: furthest_def reach_def Let_def epath.origin)
next
  case (Suc e)
  let ?s = "step_x (T ! Suc e) md (int (Suc e)) k"
  have ep: "epath a b (Suc e) ?s (?s - k)"
    using step_x_cases[OF g Suc.prems]
  proof (elim disjE conjE)
    assume "on_round (int e) (k + 1)" and eq: "?s = furthest a b md T e (k + 1)"
    with Suc.IH[of "k + 1"] Suc.prems(1)
    have "epath a b e ?s (?s - (k + 1))" by (simp add: Let_def)
    from epath.down[OF this] show ?thesis by (simp add: algebra_simps)
  next
    assume "on_round (int e) (k - 1)" and eq: "?s = furthest a b md T e (k - 1) + 1"
    with Suc.IH[of "k - 1"] Suc.prems(1)
    have "epath a b e (?s - 1) (?s - 1 - (k - 1))" by (simp add: Let_def)
    from epath.right[OF this] show ?thesis by (simp add: algebra_simps)
  qed
  from epath_bounds[OF ep] have "0 \<le> ?s" "0 \<le> ?s - k" by auto
  then obtain r where r: "snake a b ?s (?s - k) = (?s + int r, ?s - k + int r)"
    "\<forall>t. ?s \<le> t \<and> t < ?s + int r \<longrightarrow> cell_match a b t (t - ?s + (?s - k))"
    "\<not> cell_match a b (?s + int r) (?s - k + int r)"
    using snake_spec[of ?s "?s - k" a b] by auto
  have x: "furthest a b md T (Suc e) k = ?s + int r"
    using r(1) by (simp add: furthest_def reach_def)
  have "epath a b (Suc e) (?s + int r) (?s + int r - k)"
    using epath_run[OF ep, where r = r] r(2) by (simp add: algebra_simps)
  moreover have "\<forall>t. ?s \<le> t \<and> t < ?s + int r \<longrightarrow> cell_match a b t (t - k)"
    using r(2) by (simp add: algebra_simps)
  moreover have "\<not> cell_match a b (?s + int r) (?s + int r - k)"
    using r(3) by (simp add: algebra_simps)
  ultimately show ?case using ep x by (simp add: Let_def)
qed

lemma step_x_le_furthest:
  "good_trace a b md T d \<Longrightarrow> 1 \<le> md \<Longrightarrow> e \<le> d \<Longrightarrow> on_round (int e) k \<Longrightarrow>
   step_x (T ! e) md (int e) k \<le> furthest a b md T e k"
  using furthest_spec[of a b md T d e k] by (simp add: Let_def)

text \<open>Completeness: no path with \<open>e\<close> edits gets further on its diagonal.\<close>

lemma furthest_complete:
  assumes g: "good_trace a b md T d" and md: "1 \<le> md" and "epath a b e x y" and "e \<le> d"
  shows "x \<le> furthest a b md T e (x - y)"
  using assms(3,4)
proof (induction rule: epath.induct)
  case origin
  have "epath a b 0 (furthest a b md T 0 0) (furthest a b md T 0 0 - 0)"
    using furthest_spec[OF g md, of 0 0] by (simp add: Let_def on_round_def)
  then show ?case using epath_bounds by fastforce
next
  case (diag e x y)
  then have "on_round (int e) (x - y)"
    using epath_bounds[of a b e x y] by (simp add: on_round_def)
  then have "\<not> cell_match a b (furthest a b md T e (x - y)) (furthest a b md T e (x - y) - (x - y))"
    using furthest_spec[OF g md diag.prems] by (simp add: Let_def)
  with diag have "x \<noteq> furthest a b md T e (x - y)" by auto
  with diag show ?case by simp
next
  case (right e x y)
  then have on: "on_round (int e) (x - y)" "on_round (int (Suc e)) (x + 1 - y)"
    using epath_bounds[of a b e x y] by (auto simp: on_round_def)
  have "furthest a b md T e (x - y) + 1 \<le> step_x (T ! Suc e) md (int (Suc e)) (x + 1 - y)"
    using step_x_ge(2)[OF g right.prems on(2)] on(1) by simp
  also have "\<dots> \<le> furthest a b md T (Suc e) (x + 1 - y)"
    by (rule step_x_le_furthest[OF g md right.prems on(2)])
  finally show ?case using right.IH right.prems by simp
next
  case (down e x y)
  then have on: "on_round (int e) (x - y)" "on_round (int (Suc e)) (x - (y + 1))"
    using epath_bounds[of a b e x y] by (auto simp: on_round_def)
  have "furthest a b md T e (x - y) \<le> step_x (T ! Suc e) md (int (Suc e)) (x - (y + 1))"
    using step_x_ge(1)[OF g down.prems on(2)] on(1) by simp
  also have "\<dots> \<le> furthest a b md T (Suc e) (x - (y + 1))"
    by (rule step_x_le_furthest[OF g md down.prems on(2)])
  finally show ?case using down.IH down.prems by simp
qed


section \<open>The search\<close>

lemma best_endpoint_spec:
  assumes "best_endpoint a b md v d k bx by = (bx', by')"
    "even (d - k)" "- d \<le> k"
    "bx \<ge> 0 \<Longrightarrow> on_round d (bx - by) \<and> vget v md (bx - by) = bx \<and>
        bx \<le> int (length a) \<and> 0 \<le> by \<and> by \<le> int (length b)"
  shows "bx' \<ge> 0 \<Longrightarrow> on_round d (bx' - by') \<and> vget v md (bx' - by') = bx' \<and>
        bx' \<le> int (length a) \<and> 0 \<le> by' \<and> by' \<le> int (length b)"
  using assms
proof (induction a b md v d k bx "by" rule: best_endpoint.induct)
  case (1 a b md v d k bx "by")
  let ?x = "vget v md k"
  consider "\<not> k \<le> d" | "k \<le> d" "?x < 0 \<or> ?x > int (length a) \<or> ?x - k > int (length b) \<or> ?x - k < 0"
    | "k \<le> d" "\<not> (?x < 0 \<or> ?x > int (length a) \<or> ?x - k > int (length b) \<or> ?x - k < 0)"
      "bx < 0 \<or> ?x + (?x - k) > bx + by"
    | "k \<le> d" "\<not> (?x < 0 \<or> ?x > int (length a) \<or> ?x - k > int (length b) \<or> ?x - k < 0)"
      "\<not> (bx < 0 \<or> ?x + (?x - k) > bx + by)" by blast
  then show ?case
  proof cases
    case 1
    with "1.prems" show ?thesis by (subst (asm) best_endpoint.simps) simp
  next
    case 2
    with "1.prems"(2) have "best_endpoint a b md v d (k + 2) bx by = (bx', by')"
      by (subst (asm) best_endpoint.simps) (simp add: Let_def)
    from "1.IH"(1)[OF 2(1) refl refl 2(2) "1.prems"(1) this] show ?thesis
      using "1.prems" by auto
  next
    case 3
    with "1.prems"(2) have e: "best_endpoint a b md v d (k + 2) ?x (?x - k) = (bx', by')"
      by (subst (asm) best_endpoint.simps) (simp add: Let_def)
    have "on_round d k" using "1.prems" 3(1) by (auto simp: on_round_def)
    with "1.IH"(2)[OF 3(1) refl refl 3(2) 3(3) "1.prems"(1) e] 3(2) show ?thesis
      using "1.prems" by auto
  next
    case 4
    with "1.prems"(2) have e: "best_endpoint a b md v d (k + 2) bx by = (bx', by')"
      by (subst (asm) best_endpoint.simps) (simp add: Let_def)
    from "1.IH"(3)[OF 4(1) refl refl 4(2) 4(3) "1.prems"(1) e] show ?thesis
      using "1.prems" by auto
  qed
qed

text \<open>What the search returns: the trace of the finished rounds, and a corner reached in the
  last one, or the endpoint the cut-off chose.\<close>

definition search_ok :: "lines \<Rightarrow> lines \<Rightarrow> int \<Rightarrow> int \<Rightarrow> search_result \<Rightarrow> bool" where
  "search_ok a b mxcost md r =
     (case r of
        Found d T \<Rightarrow>
          (0 \<le> d \<and> d \<le> md \<and> good_trace a b md T (nat d) \<and>
             (\<exists>k. on_round d k \<and>
                at_corner a b (furthest a b md T (nat d) k) (furthest a b md T (nat d) k - k)))
          \<or> (d = - 1 \<and> (\<exists>w. good_trace a b md (T @ [w]) (Suc (nat md))))
      | Cutoff d T bx by \<Rightarrow>
          mxcost \<le> d \<and> 0 \<le> d \<and> d < md \<and> good_trace a b md T (nat d) \<and> 0 \<le> bx \<and> on_round d (bx - by) \<and>
          furthest a b md T (nat d) (bx - by) = bx \<and>
          bx \<le> int (length a) \<and> 0 \<le> by \<and> by \<le> int (length b))"

lemma myers_search_ok:
  assumes "good_trace a b md (T @ [v]) (nat d)" "0 \<le> d" "d \<le> md + 1" "1 \<le> md"
  shows "search_ok a b mxcost md (myers_search a b mxcost md md d v T)"
  using assms
proof (induction "nat (md + 1 - d)" arbitrary: d v T rule: less_induct)
  case less
  show ?case
  proof (cases "d \<le> md")
    case False
    then have "myers_search a b mxcost md md d v T = Found (- 1) T"
      by (subst myers_search.simps) simp
    moreover have "nat d = Suc (nat md)" using False less.prems by linarith
    ultimately show ?thesis using less.prems by (auto simp: search_ok_def)
  next
    case True
    let ?T = "T @ [v]"
    have T: "?T ! nat d = v" "vec_ok md v"
      using less.prems(1) by (auto simp: good_trace_def nth_append)
    have spec: "case myers_round a b md d (- d) v of
      None \<Rightarrow> \<exists>k'\<ge>- d. on_round d k' \<and> at_corner a b (reach a b v md d k') (reach a b v md d k' - k')
    | Some w \<Rightarrow> vec_ok md w \<and>
        (\<forall>k'. on_round d k' \<longrightarrow> vget w md k' = reach a b v md d k') \<and>
        (\<forall>k'\<ge>- d. on_round d k' \<longrightarrow> \<not> at_corner a b (reach a b v md d k') (reach a b v md d k' - k'))"
      by (rule myers_round_spec)
        (use T(2) True less.prems in \<open>auto simp: same_other_def on_round_def\<close>)
    have F: "furthest a b md ?T (nat d) k = reach a b v md d k" for k
      using T less.prems(2) by (simp add: furthest_def)
    show ?thesis
    proof (cases "myers_round a b md d (- d) v")
      case None
      then have "myers_search a b mxcost md md d v T = Found d ?T"
        using True by (subst myers_search.simps) (simp add: Let_def)
      with None spec True less.prems F show ?thesis by (auto simp: search_ok_def)
    next
      case (Some w)
      have rng: "- d \<le> k" if "on_round d k" for k using that by (auto simp: on_round_def)
      have w: "vec_ok md w" "\<And>k. on_round d k \<Longrightarrow> vget w md k = reach a b v md d k"
        "\<And>k. on_round d k \<Longrightarrow> \<not> at_corner a b (reach a b v md d k) (reach a b v md d k - k)"
        using Some spec rng by auto
      have g: "good_trace a b md (?T @ [w]) (nat (d + 1))"
        using good_trace_snoc[OF less.prems(1) w(1)] w T(1) less.prems(2)
        by (simp add: nat_add_distrib)
      have IH: "search_ok a b mxcost md (myers_search a b mxcost md md (d + 1) w ?T)"
        by (rule less.hyps) (use True less.prems g in auto)
      obtain bx "by" where be: "best_endpoint a b md w d (- d) (- 1) (- 1) = (bx, by)"
        by fastforce
      show ?thesis
      proof (cases "(d \<ge> mxcost \<and> d < md) \<and> bx \<ge> 0")
        case c: True
        then have "myers_search a b mxcost md md d v T = Cutoff d ?T bx by"
          using True Some be by (subst myers_search.simps) (simp add: Let_def)
        moreover have "on_round d (bx - by) \<and> vget w md (bx - by) = bx \<and>
            bx \<le> int (length a) \<and> 0 \<le> by \<and> by \<le> int (length b)"
          using best_endpoint_spec[OF be] c by simp
        ultimately show ?thesis
          using c less.prems w F by (auto simp: search_ok_def)
      next
        case c: False
        then have "myers_search a b mxcost md md d v T = myers_search a b mxcost md md (d + 1) w ?T"
          using True Some be by (subst myers_search.simps) (auto simp: Let_def)
        with IH show ?thesis by simp
      qed
    qed
  qed
qed

lemma myers_start_ok:
  assumes "a \<noteq> [] \<or> b \<noteq> []"
  shows "search_ok a b (max_cost alg (int (length a) + int (length b))) (int (length a) + int (length b))
     (myers_start alg a b)"
proof -
  have "1 \<le> int (length a) + int (length b)"
    using assms by (cases a; cases b) auto
  then show ?thesis
    unfolding myers_start_def Let_def by (intro myers_search_ok) (auto simp: good_trace_init)
qed

text \<open>A round that reaches a corner reaches exactly \<open>(n, m)\<close>, on its own diagonal.\<close>

lemma corner_exact:
  assumes g: "good_trace a b md T d" and md: "1 \<le> md" and on: "on_round (int d) k"
    and c: "at_corner a b (furthest a b md T d k) (furthest a b md T d k - k)"
  shows "k = int (length a) - int (length b) \<and> furthest a b md T d k = int (length a)"
proof -
  let ?x = "furthest a b md T d k" and ?n = "int (length a)" and ?m = "int (length b)"
  have ep: "epath a b d ?x (?x - k)"
    using furthest_spec[OF g md _ on] by (simp add: Let_def)
  define ex where "ex = nat (?x - ?n) + nat (?x - k - ?m)"
  from epath_clip[OF ep] c have cl: "ex \<le> d" "epath a b (d - ex) ?n ?m"
    by (simp_all add: ex_def at_corner_def)
  have "ex = 0"
  proof (rule ccontr)
    assume "ex \<noteq> 0"
    with cl(1) have lt: "d - ex < d" by simp
    have "?n \<le> furthest a b md T (d - ex) (?n - ?m)"
      using furthest_complete[OF g md cl(2)] by simp
    moreover have "on_round (int (d - ex)) (?n - ?m)"
      using epath_bounds[OF cl(2)] by (simp add: on_round_def)
    ultimately show False
      using good_traceD(2)[OF g lt] by (fastforce simp: at_corner_def)
  qed
  then show ?thesis using c by (simp add: ex_def at_corner_def)
qed

text \<open>The loop never runs out of rounds.\<close>

lemma search_never_fails:
  assumes "search_ok a b mx md (Found d T)" "md = int (length a) + int (length b)" "1 \<le> md"
  shows "0 \<le> d"
proof (rule ccontr)
  assume "\<not> 0 \<le> d"
  with assms(1) obtain w where g: "good_trace a b md (T @ [w]) (Suc (nat md))"
    by (auto simp: search_ok_def)
  have e: "epath a b (nat md) (int (length a)) (int (length b))"
    using epath_all_edits[of a b "length a" "length b"] assms(2) by (simp add: nat_add_distrib)
  have "int (length a) \<le> furthest a b md (T @ [w]) (nat md) (int (length a) - int (length b))"
    using furthest_complete[OF g assms(3) e] by simp
  moreover have "on_round (int (nat md)) (int (length a) - int (length b))"
    using epath_bounds[OF e] by (simp add: on_round_def)
  ultimately show False
    using good_traceD(2)[OF g, of "nat md"] by (fastforce simp: at_corner_def)
qed


section \<open>Backtracking\<close>

lemma bt_diagonal_spec:
  assumes "0 \<le> px" "0 \<le> py" "px \<le> x" "py \<le> y"
    "\<And>t. x - min (x - px) (y - py) \<le> t \<Longrightarrow> t < x \<Longrightarrow> cell_match a b t (t - x + y)"
  shows "\<exists>es. bt_diagonal px py x y ops =
      (x - min (x - px) (y - py), y - min (x - px) (y - py), ops @ rev es)
    \<and> script_from a b (x - min (x - px) (y - py)) (y - min (x - px) (y - py)) es x y \<and> edits es = 0"
  using assms
proof (induction px py x y ops rule: bt_diagonal.induct)
  case (1 px py x y ops)
  show ?case
  proof (cases "x > px \<and> y > py")
    case True
    let ?r = "min (x - px) (y - py)" and ?r' = "min (x - 1 - px) (y - 1 - py)"
    have r: "x - 1 - ?r' = x - ?r" "y - 1 - ?r' = y - ?r" by auto
    have cells: "cell_match a b t (t - (x - 1) + (y - 1))" if "x - 1 - ?r' \<le> t" "t < x - 1" for t
      using "1.prems"(5)[of t] that r by (simp add: algebra_simps)
    have "px \<le> x - 1" "py \<le> y - 1" using True by auto
    from "1.IH"[OF True "1.prems"(1,2) this cells] obtain es where es:
      "bt_diagonal px py (x - 1) (y - 1) (ops @ [eq_op (x - 1) (y - 1)]) =
         (x - ?r, y - ?r, (ops @ [eq_op (x - 1) (y - 1)]) @ rev es)"
      "script_from a b (x - ?r) (y - ?r) es (x - 1) (y - 1)" "edits es = 0"
      by (auto simp: r)
    have "cell_match a b (x - 1) (y - 1)"
      using "1.prems"(5)[of "x - 1"] True by (simp add: algebra_simps)
    then have "script_from a b (x - 1) (y - 1) [eq_op (x - 1) (y - 1)] x y"
      by (simp add: cell_match_def)
    with es(2) have "script_from a b (x - ?r) (y - ?r) (es @ [eq_op (x - 1) (y - 1)]) x y" by blast
    moreover have "bt_diagonal px py x y ops = (x - ?r, y - ?r, ops @ rev (es @ [eq_op (x - 1) (y - 1)]))"
      using True es(1) by (subst bt_diagonal.simps) simp
    moreover have "edits (es @ [eq_op (x - 1) (y - 1)]) = 0" using es(3) by simp
    ultimately show ?thesis by blast
  next
    case False
    then have "min (x - px) (y - py) = 0" using "1.prems" by auto
    then show ?thesis
      using False by (intro exI[of _ "[]"]) (subst bt_diagonal.simps, auto)
  qed
qed

lemma bt_loop_Suc:
  assumes "prev_k = (if came_down (T ! Suc d) off (int (Suc d)) (x - y) then x - y + 1 else x - y - 1)"
    "vget (T ! Suc d) off prev_k = px" "bt_diagonal px (px - prev_k) x y ops = (x', y', ops')"
  shows "bt_loop T off (int (Suc d)) x y ops =
     (if x' > px then bt_loop T off (int d) (x' - 1) y' (ops' @ [del_op (x' - 1)])
      else if y' > px - prev_k then bt_loop T off (int d) x' (y' - 1) (ops' @ [ins_op (y' - 1)])
      else bt_loop T off (int d) x' y' ops')"
proof -
  have n: "nat (int (Suc d)) = Suc d" "int (Suc d) - 1 = int d" "0 < int (Suc d)" by simp_all
  show ?thesis
    by (subst bt_loop.simps)
      (simp only: n if_True Let_def assms(1)[symmetric] assms(2,3) prod.case)
qed

lemma bt_loop_spec:
  assumes g: "good_trace a b md T D" and md: "1 \<le> md" and "d \<le> D" and "on_round (int d) (x - y)"
    and "step_x (T ! d) md (int d) (x - y) \<le> x" "x \<le> furthest a b md T d (x - y)"
    and "x \<le> int (length a)" "y \<le> int (length b)"
  shows "\<exists>ps. bt_loop T md (int d) x y ops = ops @ rev ps \<and> script_from a b 0 0 ps x y \<and> edits ps = d"
  using assms(3-)
proof (induction d arbitrary: x y ops)
  case 0
  then have y: "y = x" by (simp add: on_round_def)
  have sp: "\<forall>t. step_x (T ! 0) md 0 0 \<le> t \<and> t < furthest a b md T 0 0 \<longrightarrow> cell_match a b t t"
    "epath a b 0 (step_x (T ! 0) md 0 0) (step_x (T ! 0) md 0 0)"
    using furthest_spec[OF g md, of 0 0] by (simp_all add: Let_def on_round_def)
  have s: "step_x (T ! 0) md 0 0 = 0"
    using g md init_vec_at_1 by (simp add: step_x_def came_down_def good_trace_def)
  have "0 \<le> x" using "0.prems"(3) y s by simp
  then obtain es where es: "bt_diagonal 0 0 x y ops = (0, 0, ops @ rev es)"
    "script_from a b 0 0 es x y" "edits es = 0"
    using bt_diagonal_spec[of 0 0 x y a b ops] sp(1) s y "0.prems"(4) by auto
  then show ?case by (subst bt_loop.simps) auto
next
  case (Suc d)
  let ?k = "x - y" and ?d = "int (Suc d)"
  let ?s = "step_x (T ! Suc d) md ?d ?k"
  have sp: "\<forall>t. ?s \<le> t \<and> t < furthest a b md T (Suc d) ?k \<longrightarrow> cell_match a b t (t - ?k)"
    using furthest_spec[OF g md Suc.prems(1,2)] by (simp add: Let_def)
  have cells: "cell_match a b t (t - x + y)" if "?s \<le> t" "t < x" for t
    using sp that Suc.prems(4) by (simp add: algebra_simps)
  have dD: "d \<le> D" using Suc.prems(1) by simp
  consider (dn) "came_down (T ! Suc d) md ?d ?k" "on_round (int d) (?k + 1)"
      "vget (T ! Suc d) md (?k + 1) = furthest a b md T d (?k + 1)" "?s = furthest a b md T d (?k + 1)"
    | (rt) "\<not> came_down (T ! Suc d) md ?d ?k" "on_round (int d) (?k - 1)"
      "vget (T ! Suc d) md (?k - 1) = furthest a b md T d (?k - 1)"
      "?s = furthest a b md T d (?k - 1) + 1"
    using step_x_cases[OF g Suc.prems(1,2)] by blast
  then show ?case
  proof cases
    case dn
    let ?px = "furthest a b md T d (?k + 1)"
    let ?py = "?px - (?k + 1)"
    have F: "epath a b d ?px ?py" "step_x (T ! d) md (int d) (?k + 1) \<le> ?px"
      using furthest_spec[OF g md dD dn(2)] by (simp_all add: Let_def)
    have pos: "0 \<le> ?px" "0 \<le> ?py" using epath_bounds[OF F(1)] by auto
    have le: "?px \<le> x" using dn(4) Suc.prems(3) by simp
    have m: "min (x - ?px) (y - ?py) = x - ?px" by simp
    have q: "x - (x - ?px) = ?px" "y - (x - ?px) = ?py + 1" by simp_all
    have ce: "cell_match a b t (t - x + y)" if "x - min (x - ?px) (y - ?py) \<le> t" "t < x" for t
      using cells[of t] that dn(4) unfolding m q by simp
    have "?py \<le> y" using le by simp
    from bt_diagonal_spec[OF pos le this ce, of ops, unfolded m q]
    obtain es where es: "bt_diagonal ?px ?py x y ops = (?px, ?py + 1, ops @ rev es)"
      "script_from a b ?px (?py + 1) es x y" "edits es = 0" by blast
    have in_b: "?py < int (length b)" using le Suc.prems(6) by simp
    have kk: "?px - ?py = ?k + 1" by simp
    have "\<exists>ps. bt_loop T md (int d) ?px ?py (ops @ rev es @ [ins_op ?py]) = (ops @ rev es @ [ins_op ?py]) @ rev ps
        \<and> script_from a b 0 0 ps ?px ?py \<and> edits ps = d"
      by (rule Suc.IH[of ?px ?py, unfolded kk, OF dD dn(2) F(2) order_refl]) (use le Suc.prems(5) in_b in simp_all)
    then obtain ps where ps: "bt_loop T md (int d) ?px ?py (ops @ rev es @ [ins_op ?py]) =
        (ops @ rev es @ [ins_op ?py]) @ rev ps"
      "script_from a b 0 0 ps ?px ?py" "edits ps = d" by blast
    have "script_from a b ?px ?py [ins_op ?py] ?px (?py + 1)"
      using pos in_b by simp
    with ps(2) es(2) have "script_from a b 0 0 (ps @ [ins_op ?py] @ es) x y" by blast
    moreover have "bt_loop T md ?d x y ops = bt_loop T md (int d) ?px ?py (ops @ rev es @ [ins_op ?py])"
      using bt_loop_Suc[OF _ dn(3) es(1)] dn(1) by (simp add: algebra_simps)
    ultimately show ?thesis
      using ps es(3) by (intro exI[of _ "ps @ [ins_op ?py] @ es"]) simp
  next
    case rt
    let ?px = "furthest a b md T d (?k - 1)"
    let ?py = "?px - (?k - 1)"
    have F: "epath a b d ?px ?py" "step_x (T ! d) md (int d) (?k - 1) \<le> ?px"
      using furthest_spec[OF g md dD rt(2)] by (simp_all add: Let_def)
    have pos: "0 \<le> ?px" "0 \<le> ?py" using epath_bounds[OF F(1)] by auto
    have le: "?px + 1 \<le> x" using rt(4) Suc.prems(3) by simp
    have m: "min (x - ?px) (y - ?py) = x - ?px - 1" by simp
    have q: "x - (x - ?px - 1) = ?px + 1" "y - (x - ?px - 1) = ?py" by simp_all
    have ce: "cell_match a b t (t - x + y)" if "x - min (x - ?px) (y - ?py) \<le> t" "t < x" for t
      using cells[of t] that rt(4) unfolding m q by simp
    have "?px \<le> x" "?py \<le> y" using le by simp_all
    from bt_diagonal_spec[OF pos this ce, of ops, unfolded m q]
    obtain es where es: "bt_diagonal ?px ?py x y ops = (?px + 1, ?py, ops @ rev es)"
      "script_from a b (?px + 1) ?py es x y" "edits es = 0" by blast
    have in_a: "?px < int (length a)" using le Suc.prems(5) by simp
    have in_b: "?py \<le> int (length b)" using le Suc.prems(6) by simp
    have kk: "?px - ?py = ?k - 1" by simp
    have "\<exists>ps. bt_loop T md (int d) ?px ?py (ops @ rev es @ [del_op ?px]) = (ops @ rev es @ [del_op ?px]) @ rev ps
        \<and> script_from a b 0 0 ps ?px ?py \<and> edits ps = d"
      by (rule Suc.IH[of ?px ?py, unfolded kk, OF dD rt(2) F(2) order_refl]) (use in_a in_b in simp_all)
    then obtain ps where ps: "bt_loop T md (int d) ?px ?py (ops @ rev es @ [del_op ?px]) =
        (ops @ rev es @ [del_op ?px]) @ rev ps"
      "script_from a b 0 0 ps ?px ?py" "edits ps = d" by blast
    have "script_from a b ?px ?py [del_op ?px] (?px + 1) ?py"
      using pos in_a by simp
    with ps(2) es(2) have "script_from a b 0 0 (ps @ [del_op ?px] @ es) x y" by blast
    moreover have "bt_loop T md ?d x y ops = bt_loop T md (int d) ?px ?py (ops @ rev es @ [del_op ?px])"
      using bt_loop_Suc[OF _ rt(3) es(1)] rt(1) by (simp add: algebra_simps)
    ultimately show ?thesis
      using ps es(3) by (intro exI[of _ "ps @ [del_op ?px] @ es"]) simp
  qed
qed

lemma backtrack_furthest:
  assumes "good_trace a b md T d" "1 \<le> md" "on_round (int d) (x - y)"
    "furthest a b md T d (x - y) = x" "x \<le> int (length a)" "y \<le> int (length b)"
  shows "script_from a b 0 0 (backtrack_trace T (int d) x y md) x y"
    "edits (backtrack_trace T (int d) x y md) = d"
  using bt_loop_spec[of a b md T d d x y "[]"] assms step_x_le_furthest[of a b md T d d "x - y"]
  by (auto simp: backtrack_trace_def)

lemma found_script:
  assumes "myers_start alg a b = Found d T" "a \<noteq> []" "b \<noteq> []"
  defines "ops \<equiv> backtrack_trace T d (int (length a)) (int (length b)) (int (length a) + int (length b))"
  shows "edit_script a b ops" "edits ops = nat d"
    and "\<And>ps. edit_script a b ps \<Longrightarrow> edits ops \<le> edits ps"
proof -
  let ?n = "int (length a)" and ?m = "int (length b)"
  let ?md = "?n + ?m"
  have md: "1 \<le> ?md" using assms(2) by (cases a) auto
  have ok: "search_ok a b (max_cost alg ?md) ?md (Found d T)"
    using myers_start_ok[of a b alg] assms by simp
  have d: "0 \<le> d" using search_never_fails[OF ok refl md] .
  with ok obtain k where g: "good_trace a b ?md T (nat d)" and on: "on_round d k"
    and c: "at_corner a b (furthest a b ?md T (nat d) k) (furthest a b ?md T (nat d) k - k)"
    by (auto simp: search_ok_def)
  have k: "k = ?n - ?m" "furthest a b ?md T (nat d) k = ?n"
    using corner_exact[OF g md _ c] on d by auto
  have "script_from a b 0 0 (backtrack_trace T (int (nat d)) ?n ?m ?md) ?n ?m"
    "edits (backtrack_trace T (int (nat d)) ?n ?m ?md) = nat d"
    by (rule backtrack_furthest[OF g md]; use k on d in simp)+
  with d show s: "edit_script a b ops" and e: "edits ops = nat d"
    by (simp_all add: ops_def edit_script_def)
  show "edits ops \<le> edits ps" if "edit_script a b ps" for ps
  proof (rule ccontr)
    assume "\<not> edits ops \<le> edits ps"
    with e have lt: "edits ps < nat d" by simp
    have ep: "epath a b (edits ps) ?n ?m"
      using script_epath[of a b 0 0 ps ?n ?m 0] that by (simp add: edit_script_def epath.origin)
    have "?n \<le> furthest a b ?md T (edits ps) (?n - ?m)"
      using furthest_complete[OF g md ep] lt by simp
    moreover have "on_round (int (edits ps)) (?n - ?m)"
      using epath_bounds[OF ep] by (simp add: on_round_def)
    ultimately show False
      using good_traceD(2)[OF g lt] by (fastforce simp: at_corner_def)
  qed
qed


section \<open>The diff\<close>

lemma bogosqrt_terminates:
  "0 \<le> n \<Longrightarrow> bogosqrt n * bogosqrt n \<ge> n \<and> 1 \<le> bogosqrt n"
  unfolding bogosqrt_def
proof (rule while_rule [where P = "\<lambda>r. 1 \<le> r" and r = "measure (\<lambda>r. nat (n - r))"])
  fix r :: int
  assume r: "1 \<le> r" "r * r < n"
  have "r * 1 \<le> r * r" using r(1) by (intro mult_left_mono) auto
  with r have "r < n" by linarith
  with r show "(push_bit 1 r, r) \<in> measure (\<lambda>r. nat (n - r))"
    by (simp add: push_bit_eq_mult)
qed (auto simp: push_bit_eq_mult)

lemma max_cost_cutoff:
  "max_cost alg md \<le> d \<Longrightarrow> d < md \<Longrightarrow> alg = Myers \<and> 256 \<le> d"
  by (auto simp: max_cost_def Let_def split: if_splits)

lemma cutoff_script:
  assumes "myers_start alg a b = Cutoff d T bx by" "a \<noteq> []" "b \<noteq> []"
  shows "script_from a b 0 0
     (backtrack_trace T d bx by (int (length a) + int (length b))) bx by"
    and "0 \<le> bx" "bx \<le> int (length a)" "0 \<le> by" "by \<le> int (length b)" "0 < bx + by"
    and "alg = Myers" "256 < length a + length b"
proof -
  let ?md = "int (length a) + int (length b)"
  have md: "1 \<le> ?md" using assms(2) by (cases a) auto
  have ok: "search_ok a b (max_cost alg ?md) ?md (Cutoff d T bx by)"
    using myers_start_ok[of a b alg] assms by simp
  then have g: "good_trace a b ?md T (nat d)" and d: "0 \<le> d" "d < ?md" "max_cost alg ?md \<le> d"
    and f: "on_round d (bx - by)" "furthest a b ?md T (nat d) (bx - by) = bx"
    and b: "0 \<le> bx" "bx \<le> int (length a)" "0 \<le> by" "by \<le> int (length b)"
    by (auto simp: search_ok_def)
  show "alg = Myers" "256 < length a + length b"
    using max_cost_cutoff[OF d(3,2)] d(2) by auto
  have "epath a b (nat d) bx (bx - (bx - by))"
    using furthest_spec[OF g md, of "nat d" "bx - by"] f d(1) by (simp add: Let_def)
  from epath_bounds[OF this] max_cost_cutoff[OF d(3,2)] show "0 < bx + by" by auto
  show "script_from a b 0 0 (backtrack_trace T d bx by ?md) bx by"
    using backtrack_furthest(1)[OF g md, of bx "by"] f b d(1) by simp
  show "0 \<le> bx" "bx \<le> int (length a)" "0 \<le> by" "by \<le> int (length b)" by (rule b)+
qed

function myers_diff :: "diff_algorithm \<Rightarrow> lines \<Rightarrow> lines \<Rightarrow> edit_op list" where
  "myers_diff alg old_lines new_lines =
     (let n = int (length old_lines); m = int (length new_lines) in
      if n = 0 \<and> m = 0 then []
      else if n = 0 then map (\<lambda>j. ins_op (int j)) [0..<length new_lines]
      else if m = 0 then map (\<lambda>i. del_op (int i)) [0..<length old_lines]
      else
        case myers_start alg old_lines new_lines of
          Found final_d trace \<Rightarrow> backtrack_trace trace final_d n m (n + m)
        | Cutoff final_d trace best_x best_y \<Rightarrow>
            backtrack_trace trace final_d best_x best_y (n + m) @
            map (shift_op best_x best_y)
              (myers_diff alg (drop (nat best_x) old_lines) (drop (nat best_y) new_lines)))"
  by pat_completeness auto
termination
proof (relation "measure (\<lambda>(alg, a, b). length a + length b)", goal_cases)
  case (2 alg a b n m d T bx "by")
  then have "a \<noteq> []" "b \<noteq> []" by auto
  from cutoff_script[OF _ this, of alg d T bx "by"] 2 show ?case by auto
qed simp

declare myers_diff.simps [simp del]

lemma myers_diff_script: "edit_script a b (myers_diff alg a b)"
proof (induction alg a b rule: myers_diff.induct)
  case (1 alg a b)
  let ?n = "int (length a)" and ?m = "int (length b)"
  consider "a = []" | "a \<noteq> []" "b = []" | "a \<noteq> []" "b \<noteq> []" by blast
  then show ?case
  proof cases
    case 1
    then show ?thesis
      using edit_script_all_ins[of b] by (subst myers_diff.simps) (simp add: edit_script_def Let_def)
  next
    case 2
    then show ?thesis
      using edit_script_all_del[of a] by (subst myers_diff.simps) simp
  next
    case 3
    show ?thesis
    proof (cases "myers_start alg a b")
      case (Found d T)
      with 3 found_script(1)[OF Found 3] show ?thesis
        by (subst myers_diff.simps) (simp add: Let_def)
    next
      case (Cutoff d T bx "by")
      note c = cutoff_script[OF Cutoff 3]
      let ?ta = "drop (nat bx) a" and ?tb = "drop (nat by) b"
      have IH: "edit_script ?ta ?tb (myers_diff alg ?ta ?tb)"
        using "1.IH"[OF refl refl] 3 Cutoff by simp
      have "script_from a b bx by (map (shift_op bx by) (myers_diff alg ?ta ?tb)) ?n ?m"
        using edit_script_shift[of "length ?ta" "nat bx" a "length ?tb" "nat by" b "myers_diff alg ?ta ?tb"]
          IH c by simp
      with c(1) have "script_from a b 0 0 (backtrack_trace T d bx by (?n + ?m) @
          map (shift_op bx by) (myers_diff alg ?ta ?tb)) ?n ?m" by blast
      with 3 Cutoff show ?thesis
        by (subst myers_diff.simps) (simp add: edit_script_def)
    qed
  qed
qed

lemma edits_all_ins: "edits (map (\<lambda>j. ins_op (f j)) xs) = length xs"
  by (induction xs) auto

lemma edits_all_del: "edits (map (\<lambda>j. del_op (f j)) xs) = length xs"
  by (induction xs) auto

text \<open>Every script has at least as many edits as the files differ in length.\<close>

lemma script_edits_ge:
  "script_from a b i j ps i' j' \<Longrightarrow> \<bar>(i' - i) - (j' - j)\<bar> \<le> int (edits ps)"
  by (induction ps arbitrary: i j) (force split: op_type.splits)+

lemma edit_script_edits_ge:
  "edit_script a b ps \<Longrightarrow> \<bar>int (length a) - int (length b)\<bar> \<le> int (edits ps)"
  using script_edits_ge[of a b 0 0 ps] by (simp add: edit_script_def)

text \<open>Without the cut-off the script has the fewest edits of all scripts.\<close>

lemma myers_diff_fewest:
  assumes "alg \<noteq> Myers \<or> length a + length b \<le> 256" "edit_script a b ps"
  shows "edits (myers_diff alg a b) \<le> edits ps"
proof -
  consider "a = []" | "a \<noteq> []" "b = []" | "a \<noteq> []" "b \<noteq> []" by blast
  then show ?thesis
  proof cases
    case 1
    then show ?thesis using edit_script_edits_ge[OF assms(2)]
      by (subst myers_diff.simps) (simp add: edits_all_ins Let_def)
  next
    case 2
    then show ?thesis using edit_script_edits_ge[OF assms(2)]
      by (subst myers_diff.simps) (simp add: edits_all_del)
  next
    case 3
    show ?thesis
    proof (cases "myers_start alg a b")
      case (Found d T)
      with found_script(3)[OF Found 3 assms(2)] 3 show ?thesis
        by (subst myers_diff.simps) (simp add: Let_def)
    next
      case (Cutoff d T bx "by")
      with cutoff_script(7,8)[OF Cutoff 3] assms(1) show ?thesis by simp
    qed
  qed
qed

end
