(* ===== verification/Diff_Trim.thy ===== *)
theory Diff_Trim
  imports Myers_Diff
begin

text \<open>
  What the patience and the histogram engine of \<open>src/src/quilt.cpp\<close> share: the common
  pre and suf loops, and the assembly of a script of the interior between the two runs
  of kept lines. The locale \<open>diff_engine\<close> is the contract of a diff engine; the Myers
  modes meet it, and the trimming lemmas are what an engine built on another one needs.
\<close>

section \<open>Common prefix and suffix\<close>

function prefix_len :: "lines \<Rightarrow> lines \<Rightarrow> nat \<Rightarrow> nat" where
  "prefix_len a b pre =
     (if pre < length a \<and> pre < length b \<and> a ! pre = b ! pre
      then prefix_len a b (Suc pre) else pre)"
  by pat_completeness auto
termination
  by (relation "measure (\<lambda>(a, b, p). length a - p)") auto

function suffix_len :: "lines \<Rightarrow> lines \<Rightarrow> nat \<Rightarrow> nat \<Rightarrow> nat" where
  "suffix_len a b pre suf =
     (if suf < length a - pre \<and> suf < length b - pre \<and>
         a ! (length a - 1 - suf) = b ! (length b - 1 - suf)
      then suffix_len a b pre (Suc suf) else suf)"
  by pat_completeness auto
termination
  by (relation "measure (\<lambda>(a, b, p, s). length a - s)") auto

declare prefix_len.simps [simp del] suffix_len.simps [simp del]

definition eq_run :: "nat \<Rightarrow> nat \<Rightarrow> nat \<Rightarrow> edit_op list" where
  "eq_run i j len = map (\<lambda>t. eq_op (int (i + t)) (int (j + t))) [0..<len]"

text \<open>Prefix, the script of the interior moved to its place, suffix.\<close>

definition assemble :: "lines \<Rightarrow> lines \<Rightarrow> nat \<Rightarrow> nat \<Rightarrow> edit_op list \<Rightarrow> edit_op list" where
  "assemble a b pre suf inner_ops =
     eq_run 0 0 pre @ map (shift_op (int pre) (int pre)) inner_ops @
     eq_run (length a - suf) (length b - suf) suf"

definition interior :: "lines \<Rightarrow> nat \<Rightarrow> nat \<Rightarrow> lines" where
  "interior xs pre suf = take (length xs - pre - suf) (drop pre xs)"

lemma prefix_len_spec:
  assumes "p \<le> length a" "p \<le> length b" "\<And>t. t < p \<Longrightarrow> a ! t = b ! t"
  shows "prefix_len a b p \<le> length a \<and> prefix_len a b p \<le> length b
    \<and> (\<forall>t < prefix_len a b p. a ! t = b ! t)"
  using assms
proof (induction a b p rule: prefix_len.induct)
  case (1 a b p)
  show ?case
  proof (cases "p < length a \<and> p < length b \<and> a ! p = b ! p")
    case True
    then have eq: "prefix_len a b p = prefix_len a b (Suc p)" by (subst prefix_len.simps) simp
    show ?thesis unfolding eq
      by (rule "1.IH"[OF True]) (use True "1.prems" in \<open>auto simp: less_Suc_eq\<close>)
  next
    case False
    then have eq: "prefix_len a b p = p" by (subst prefix_len.simps) auto
    with "1.prems" show ?thesis by simp
  qed
qed

lemma suffix_len_spec:
  assumes "p + s \<le> length a" "p + s \<le> length b"
    "\<And>t. t < s \<Longrightarrow> a ! (length a - 1 - t) = b ! (length b - 1 - t)"
  shows "p + suffix_len a b p s \<le> length a \<and> p + suffix_len a b p s \<le> length b
    \<and> (\<forall>t < suffix_len a b p s. a ! (length a - 1 - t) = b ! (length b - 1 - t))"
  using assms
proof (induction a b p s rule: suffix_len.induct)
  case (1 a b p s)
  show ?case
  proof (cases "s < length a - p \<and> s < length b - p \<and> a ! (length a - 1 - s) = b ! (length b - 1 - s)")
    case True
    then have eq: "suffix_len a b p s = suffix_len a b p (Suc s)" by (subst suffix_len.simps) simp
    show ?thesis unfolding eq
      by (rule "1.IH"[OF True]) (use True "1.prems" in \<open>auto simp: less_Suc_eq\<close>)
  next
    case False
    then have eq: "suffix_len a b p s = s" by (subst suffix_len.simps) auto
    with "1.prems" show ?thesis by simp
  qed
qed

definition trimmed :: "lines \<Rightarrow> lines \<Rightarrow> nat \<Rightarrow> nat \<Rightarrow> bool" where
  "trimmed a b pre suf \<longleftrightarrow>
     pre + suf \<le> length a \<and> pre + suf \<le> length b \<and>
     (\<forall>t < pre. a ! t = b ! t) \<and>
     (\<forall>t < suf. a ! (length a - suf + t) = b ! (length b - suf + t))"

lemma trimmed_loops:
  "trimmed a b (prefix_len a b 0) (suffix_len a b (prefix_len a b 0) 0)"
proof -
  let ?p = "prefix_len a b 0"
  let ?s = "suffix_len a b ?p 0"
  have p: "?p \<le> length a" "?p \<le> length b" "\<forall>t < ?p. a ! t = b ! t"
    using prefix_len_spec[of 0 a b] by auto
  have s: "?p + ?s \<le> length a" "?p + ?s \<le> length b"
    "\<And>t. t < ?s \<Longrightarrow> a ! (length a - 1 - t) = b ! (length b - 1 - t)"
    using suffix_len_spec[of ?p 0 a b] p by auto
  have "a ! (length a - ?s + t) = b ! (length b - ?s + t)" if "t < ?s" for t
  proof -
    have "length a - ?s + t = length a - 1 - (?s - 1 - t)" "length b - ?s + t = length b - 1 - (?s - 1 - t)"
      using that s(1,2) by linarith+
    then show ?thesis using s(3)[of "?s - 1 - t"] that by simp
  qed
  with p s show ?thesis by (simp add: trimmed_def)
qed

text \<open>A script of the interior, at its place, makes a script of the files.\<close>

lemma script_eq_run_block:
  assumes "\<And>t. t < len \<Longrightarrow> a ! (i + t) = b ! (j + t)" "i + len \<le> length a" "j + len \<le> length b"
  shows "script_from a b (int i) (int j) (eq_run i j len) (int (i + len)) (int (j + len))"
  unfolding eq_run_def using assms by (rule script_eq_run)

lemma sandwich:
  assumes t: "trimmed a b pre suf"
    and s: "script_from a b (int pre) (int pre) ops
       (int (length a - suf)) (int (length b - suf))"
  shows "edit_script a b (eq_run 0 0 pre @ ops @ eq_run (length a - suf) (length b - suf) suf)"
proof -
  have "script_from a b 0 0 (eq_run 0 0 pre) (int pre) (int pre)"
    using script_eq_run_block[of pre a 0 b 0] t by (simp add: trimmed_def)
  moreover have l: "length a - suf + suf = length a" "length b - suf + suf = length b"
    using t by (auto simp: trimmed_def)
  have "script_from a b (int (length a - suf)) (int (length b - suf))
      (eq_run (length a - suf) (length b - suf) suf) (int (length a)) (int (length b))"
    by (rule script_eq_run_block[of suf a "length a - suf" b "length b - suf", unfolded l])
      (use t[unfolded trimmed_def] in \<open>blast | simp\<close>)+
  ultimately show ?thesis
    using s unfolding edit_script_def by blast
qed

lemma interior_script:
  assumes "trimmed a b pre suf"
    "edit_script (interior a pre suf) (interior b pre suf) ops"
  shows "script_from a b (int pre) (int pre) (map (shift_op (int pre) (int pre)) ops)
       (int (length a - suf)) (int (length b - suf))"
  using edit_script_shift[of "length a - pre - suf" pre a "length b - pre - suf" pre b ops]
    assms by (simp add: interior_def trimmed_def algebra_simps)

lemma assemble_script:
  assumes "trimmed a b pre suf"
    "edit_script (interior a pre suf) (interior b pre suf) ops"
  shows "edit_script a b (assemble a b pre suf ops)"
  unfolding assemble_def by (rule sandwich[OF assms(1) interior_script[OF assms]])

lemma all_equal_script:
  assumes "trimmed a b pre suf" "length a - pre - suf = 0" "length b - pre - suf = 0"
  shows "edit_script a b (eq_run 0 0 (length a))"
proof -
  have l: "length a = pre + suf" "length b = pre + suf"
    using assms by (auto simp: trimmed_def)
  have "a ! t = b ! t" if "t < length a" for t
  proof (cases "t < pre")
    case False
    with assms(1) that l show ?thesis
      by (auto simp: trimmed_def dest!: spec[of _ "t - pre"])
  qed (use assms in \<open>simp add: trimmed_def\<close>)
  then show ?thesis
    using script_eq_run_block[of "length a" a 0 b 0] l by (simp add: edit_script_def)
qed

section \<open>The contract of a diff engine\<close>

locale diff_engine =
  fixes engine :: "lines \<Rightarrow> lines \<Rightarrow> edit_op list"
  assumes engine_script: "edit_script a b (engine a b)"
begin

lemma engine_replay: "replay a b (engine a b) = b"
  by (rule edit_script_replay[OF engine_script])

lemma engine_old_side: "old_side a (engine a b) = a"
  by (rule edit_script_old_side[OF engine_script])

lemma engine_new_side: "new_side b (engine a b) = b"
  by (rule edit_script_new_side[OF engine_script])

lemma engine_no_change: "(\<forall>p \<in> set (engine a b). ty p = OpE) \<Longrightarrow> a = b"
  using edit_script_no_change[OF engine_script] by blast

lemma engine_finds_change: "a \<noteq> b \<Longrightarrow> \<exists>p \<in> set (engine a b). ty p \<noteq> OpE"
  using engine_no_change by blast

lemma engine_in_range:
  "p \<in> set (engine a b) \<Longrightarrow>
     (ty p \<noteq> OpI \<longrightarrow> 0 \<le> old_idx p \<and> old_idx p < int (length a)) \<and>
     (ty p \<noteq> OpD \<longrightarrow> 0 \<le> new_idx p \<and> new_idx p < int (length b))"
  using script_in_range[OF engine_script[unfolded edit_script_def]] by blast

lemma engine_assemble:
  "trimmed a b pre suf \<Longrightarrow>
   edit_script a b (assemble a b pre suf
     (engine (interior a pre suf) (interior b pre suf)))"
  by (rule assemble_script[OF _ engine_script])

end

interpretation myers: diff_engine "myers_diff alg"
  by unfold_locales (rule myers_diff_script)

end
