(* ===== verification/Patience_Diff.thy ===== *)
theory Patience_Diff
  imports Diff_Trim
begin

text \<open>
  The patience engine (\<open>patience_diff\<close> in \<open>src/src/quilt.cpp\<close>): the count map of the
  interior lines, the matches of lines unique on both sides, the longest increasing
  subsequence by patience sorting with a binary search over the piles, and the recursion on
  the gaps between the anchors. The anchors are shown to increase strictly on both sides and
  to match equal lines; the recursion is on fuel, and the sum of the lengths is enough of it.
\<close>

section \<open>Unique common lines\<close>

record line_info =
  info_old_count :: nat
  info_old_idx :: int
  info_new_count :: nat
  info_new_idx :: int

definition no_info :: line_info where
  "no_info = \<lparr>info_old_count = 0, info_old_idx = - 1, info_new_count = 0, info_new_idx = - 1\<rparr>"

definition info_at :: "(string \<rightharpoonup> line_info) \<Rightarrow> string \<Rightarrow> line_info" where
  "info_at m l = (case m l of Some info \<Rightarrow> info | None \<Rightarrow> no_info)"

definition see_old :: "string \<Rightarrow> int \<Rightarrow> (string \<rightharpoonup> line_info) \<Rightarrow> (string \<rightharpoonup> line_info)" where
  "see_old l i m =
     m(l \<mapsto> (info_at m l)\<lparr>info_old_count := Suc (info_old_count (info_at m l)), info_old_idx := i\<rparr>)"

fun count_old :: "lines \<Rightarrow> int \<Rightarrow> (string \<rightharpoonup> line_info) \<Rightarrow> (string \<rightharpoonup> line_info)" where
  "count_old [] i m = m"
| "count_old (l # ls) i m =
     count_old ls (i + 1) (see_old l i m)"

definition see_new :: "string \<Rightarrow> int \<Rightarrow> (string \<rightharpoonup> line_info) \<Rightarrow> (string \<rightharpoonup> line_info)" where
  "see_new l i m =
     m(l \<mapsto> (info_at m l)\<lparr>info_new_count := Suc (info_new_count (info_at m l)), info_new_idx := i\<rparr>)"

fun count_new :: "lines \<Rightarrow> int \<Rightarrow> (string \<rightharpoonup> line_info) \<Rightarrow> (string \<rightharpoonup> line_info)" where
  "count_new [] j m = m"
| "count_new (l # ls) j m =
     count_new ls (j + 1) (see_new l j m)"

definition line_map :: "lines \<Rightarrow> lines \<Rightarrow> (string \<rightharpoonup> line_info)" where
  "line_map inner_old inner_new = count_new inner_new 0 (count_old inner_old 0 Map.empty)"

type_synonym line_match = "int \<times> int"  \<comment> \<open>\<open>struct Match\<close>: old index, new index\<close>

text \<open>The source walks the hash map in its own order and sorts by the old index. A line counted
  once on the old side occurs once in \<open>inner_old\<close>, so walking that list meets every
  such entry once.\<close>

definition unique_matches :: "lines \<Rightarrow> lines \<Rightarrow> line_match list" where
  "unique_matches inner_old inner_new =
     (let m = line_map inner_old inner_new in
      sort_key fst
        (concat (map (\<lambda>l. let info = info_at m l in
                    if info_old_count info = 1 \<and> info_new_count info = 1
                    then [(info_old_idx info, info_new_idx info)] else []) inner_old)))"

section \<open>Longest increasing subsequence\<close>

record card =
  card_new :: int
  card_old :: int
  card_back :: int

type_synonym piles = "card list \<times> nat list"

function pile_search :: "card list \<Rightarrow> nat list \<Rightarrow> int \<Rightarrow> nat \<Rightarrow> nat \<Rightarrow> nat" where
  "pile_search cards pile_tops x lo hi =
     (if lo < hi then
        let mid = lo + (hi - lo) div 2 in
        if card_new (cards ! (pile_tops ! mid)) < x
        then pile_search cards pile_tops x (mid + 1) hi
        else pile_search cards pile_tops x lo mid
      else lo)"
  by pat_completeness auto
termination
  by (relation "measure (\<lambda>(c, p, x, lo, hi). hi - lo)") auto

declare pile_search.simps [simp del]

fun deal :: "line_match \<Rightarrow> piles \<Rightarrow> piles" where
  "deal (old, new) (cards, pile_tops) =
     (let lo = pile_search cards pile_tops new 0 (length pile_tops);
          back = (if lo > 0 then int (pile_tops ! (lo - 1)) else - 1);
          card_idx = length cards
      in (cards @ [\<lparr>card_new = new, card_old = old, card_back = back\<rparr>],
          if lo = length pile_tops then pile_tops @ [card_idx] else pile_tops[lo := card_idx]))"

declare deal.simps [simp del]

definition deal_all :: "line_match list \<Rightarrow> piles" where
  "deal_all ms = fold deal ms ([], [])"

text \<open>Walking the back pointers; the fuel is the number of cards.\<close>

fun walk_back :: "nat \<Rightarrow> card list \<Rightarrow> int \<Rightarrow> line_match list \<Rightarrow> line_match list option" where
  "walk_back fuel cards idx anchors =
     (if idx \<ge> 0 then
        case fuel of 0 \<Rightarrow> None
        | Suc fuel \<Rightarrow>
            let c = cards ! nat idx
            in walk_back fuel cards (card_back c) (anchors @ [(card_old c, card_new c)])
      else Some anchors)"

declare walk_back.simps [simp del]

definition lis_anchors :: "line_match list \<Rightarrow> line_match list option" where
  "lis_anchors ms =
     (let (cards, pile_tops) = deal_all ms in
      if pile_tops = [] then Some []
      else map_option rev (walk_back (length cards) cards (int (last pile_tops)) []))"

section \<open>The recursion\<close>

definition subspan :: "lines \<Rightarrow> int \<Rightarrow> int \<Rightarrow> lines" where
  "subspan xs start len = take (nat len) (drop (nat start) xs)"

text \<open>One gap: nothing when it is empty on both sides, else the recursive script moved to
  its place.\<close>

definition gap_ops ::
  "(lines \<Rightarrow> lines \<Rightarrow> edit_op list option) \<Rightarrow> lines \<Rightarrow> lines \<Rightarrow> int \<Rightarrow> int \<Rightarrow> int \<Rightarrow> int \<Rightarrow> int \<Rightarrow>
   edit_op list option" where
  "gap_ops rec a b pre prev_old prev_new gap_old_len gap_new_len =
     (if gap_old_len > 0 \<or> gap_new_len > 0 then
        map_option (map (shift_op (pre + prev_old) (pre + prev_new)))
          (rec (subspan a (pre + prev_old) gap_old_len) (subspan b (pre + prev_new) gap_new_len))
      else Some [])"

fun patience_gaps ::
  "(lines \<Rightarrow> lines \<Rightarrow> edit_op list option) \<Rightarrow> lines \<Rightarrow> lines \<Rightarrow> int \<Rightarrow> int \<Rightarrow> int \<Rightarrow>
   int \<Rightarrow> int \<Rightarrow> line_match list \<Rightarrow> edit_op list option" where
  "patience_gaps rec a b pre inner_old_len inner_new_len prev_old prev_new [] =
     gap_ops rec a b pre prev_old prev_new (inner_old_len - prev_old) (inner_new_len - prev_new)"
| "patience_gaps rec a b pre inner_old_len inner_new_len prev_old prev_new ((old, new) # anchors) =
     (case gap_ops rec a b pre prev_old prev_new (old - prev_old) (new - prev_new) of
        None \<Rightarrow> None
      | Some gap \<Rightarrow>
          map_option (\<lambda>ops. gap @ [eq_op (pre + old) (pre + new)] @ ops)
            (patience_gaps rec a b pre inner_old_len inner_new_len (old + 1) (new + 1) anchors))"

fun patience_fuel :: "nat \<Rightarrow> lines \<Rightarrow> lines \<Rightarrow> edit_op list option" where
  "patience_fuel 0 a b = None"
| "patience_fuel (Suc fuel) a b =
     (let n = length a; m = length b in
      if n = 0 \<and> m = 0 then Some []
      else if n = 0 then Some (map (\<lambda>j. ins_op (int j)) [0..<m])
      else if m = 0 then Some (map (\<lambda>i. del_op (int i)) [0..<n])
      else
        let pre = prefix_len a b 0;
            suf = suffix_len a b pre 0;
            inner_old = interior a pre suf;
            inner_new = interior b pre suf
        in if length inner_old = 0 \<and> length inner_new = 0 then Some (eq_run 0 0 n)
           else case lis_anchors (unique_matches inner_old inner_new) of
             None \<Rightarrow> None
           | Some anchors \<Rightarrow>
               if anchors = [] then Some (assemble a b pre suf (myers_diff Minimal inner_old inner_new))
               else map_option (\<lambda>ops. eq_run 0 0 pre @ ops @ eq_run (n - suf) (m - suf) suf)
                 (patience_gaps (patience_fuel fuel) a b (int pre) (int (length inner_old))
                    (int (length inner_new)) 0 0 anchors))"

definition patience_diff :: "lines \<Rightarrow> lines \<Rightarrow> edit_op list" where
  "patience_diff old_lines new_lines =
     the (patience_fuel (Suc (length old_lines + length new_lines)) old_lines new_lines)"


section \<open>The matches\<close>

lemma info_at_update [simp]:
  "info_at (m(l \<mapsto> info)) l' = (if l' = l then info else info_at m l')"
  by (simp add: info_at_def)

lemma info_at_see [simp]:
  "info_at (see_old l i m) l' = (if l' = l
     then (info_at m l)\<lparr>info_old_count := Suc (info_old_count (info_at m l)), info_old_idx := i\<rparr>
     else info_at m l')"
  "info_at (see_new l i m) l' = (if l' = l
     then (info_at m l)\<lparr>info_new_count := Suc (info_new_count (info_at m l)), info_new_idx := i\<rparr>
     else info_at m l')"
  by (simp_all add: see_old_def see_new_def)

lemma info_at_empty [simp]: "info_at Map.empty l = no_info"
  by (simp add: info_at_def)

lemma count_old_spec:
  "info_old_count (info_at (count_old ls i m) l) = info_old_count (info_at m l) + count_list ls l
   \<and> info_new_count (info_at (count_old ls i m) l) = info_new_count (info_at m l)
   \<and> info_new_idx (info_at (count_old ls i m) l) = info_new_idx (info_at m l)
   \<and> (if l \<in> set ls then \<exists>k < length ls. ls ! k = l \<and> info_old_idx (info_at (count_old ls i m) l) = i + int k
      else info_old_idx (info_at (count_old ls i m) l) = info_old_idx (info_at m l))"
proof (induction ls arbitrary: i m)
  case (Cons x xs)
  let ?m = "see_old x i m"
  show ?case
  proof (cases "l \<in> set xs")
    case True
    with Cons.IH[of "i + 1" ?m] obtain k where "k < length xs" "xs ! k = l"
      "info_old_idx (info_at (count_old xs (i + 1) ?m) l) = i + 1 + int k" by auto
    then have "\<exists>k < length (x # xs). (x # xs) ! k = l \<and>
        info_old_idx (info_at (count_old xs (i + 1) ?m) l) = i + int k"
      by (intro exI[of _ "Suc k"]) auto
    with True Cons.IH[of "i + 1" ?m] show ?thesis by (cases "x = l") simp_all
  next
    case False
    show ?thesis
    proof (cases "l = x")
      case True
      have "\<exists>k < length (x # xs). (x # xs) ! k = l \<and> i = i + int k"
        using True by (intro exI[of _ 0]) simp
      with True False Cons.IH[of "i + 1" ?m] show ?thesis by simp
    next
      case neq: False
      with False Cons.IH[of "i + 1" ?m] show ?thesis by simp
    qed
  qed
qed simp

lemma count_new_spec:
  "info_new_count (info_at (count_new ls i m) l) = info_new_count (info_at m l) + count_list ls l
   \<and> info_old_count (info_at (count_new ls i m) l) = info_old_count (info_at m l)
   \<and> info_old_idx (info_at (count_new ls i m) l) = info_old_idx (info_at m l)
   \<and> (if l \<in> set ls then \<exists>k < length ls. ls ! k = l \<and> info_new_idx (info_at (count_new ls i m) l) = i + int k
      else info_new_idx (info_at (count_new ls i m) l) = info_new_idx (info_at m l))"
proof (induction ls arbitrary: i m)
  case (Cons x xs)
  let ?m = "see_new x i m"
  show ?case
  proof (cases "l \<in> set xs")
    case True
    with Cons.IH[of "i + 1" ?m] obtain k where "k < length xs" "xs ! k = l"
      "info_new_idx (info_at (count_new xs (i + 1) ?m) l) = i + 1 + int k" by auto
    then have "\<exists>k < length (x # xs). (x # xs) ! k = l \<and>
        info_new_idx (info_at (count_new xs (i + 1) ?m) l) = i + int k"
      by (intro exI[of _ "Suc k"]) auto
    with True Cons.IH[of "i + 1" ?m] show ?thesis by (cases "x = l") simp_all
  next
    case False
    show ?thesis
    proof (cases "l = x")
      case True
      have "\<exists>k < length (x # xs). (x # xs) ! k = l \<and> i = i + int k"
        using True by (intro exI[of _ 0]) simp
      with True False Cons.IH[of "i + 1" ?m] show ?thesis by simp
    next
      case neq: False
      with False Cons.IH[of "i + 1" ?m] show ?thesis by simp
    qed
  qed
qed simp

lemma line_map_spec:
  fixes l :: string and inner_old inner_new :: lines
  defines "info \<equiv> info_at (line_map inner_old inner_new) l"
  shows "info_old_count info = count_list inner_old l" "info_new_count info = count_list inner_new l"
    "l \<in> set inner_old \<Longrightarrow> \<exists>k < length inner_old. inner_old ! k = l \<and> info_old_idx info = int k"
    "l \<in> set inner_new \<Longrightarrow> \<exists>k < length inner_new. inner_new ! k = l \<and> info_new_idx info = int k"
  using count_new_spec[of inner_new 0 "count_old inner_old 0 Map.empty" l]
    count_old_spec[of inner_old 0 Map.empty l]
  by (simp_all add: info_def line_map_def no_info_def split: if_splits)

lemma distinct_filter_once:
  "(\<And>x. x \<in> set xs \<Longrightarrow> P x \<Longrightarrow> count_list xs x \<le> 1) \<Longrightarrow> distinct (filter P xs)"
proof (induction xs)
  case (Cons y xs)
  have "count_list xs x \<le> 1" if "x \<in> set xs" "P x" for x
    using Cons.prems[of x] that by (auto split: if_splits)
  moreover have "P y \<Longrightarrow> y \<notin> set xs"
    using Cons.prems[of y] by (simp add: count_list_0_iff[symmetric])
  ultimately show ?case using Cons.IH by auto
qed simp

lemma concat_map_if: "concat (map (\<lambda>x. if P x then [f x] else []) xs) = map f (filter P xs)"
  by (induction xs) auto

text \<open>Matches are in range, match equal lines and increase strictly on the old side.\<close>

definition match_ok :: "lines \<Rightarrow> lines \<Rightarrow> line_match \<Rightarrow> bool" where
  "match_ok a b p \<longleftrightarrow> 0 \<le> fst p \<and> fst p < int (length a) \<and> 0 \<le> snd p \<and> snd p < int (length b)
     \<and> a ! nat (fst p) = b ! nat (snd p)"

lemma unique_matches_ok:
  "p \<in> set (unique_matches a b) \<Longrightarrow> match_ok a b p"
  "sorted_wrt (\<lambda>p q. fst p < fst q) (unique_matches a b)"
proof -
  let ?i = "info_at (line_map a b)"
  let ?P = "\<lambda>l. info_old_count (?i l) = 1 \<and> info_new_count (?i l) = 1"
  let ?f = "\<lambda>l. (info_old_idx (?i l), info_new_idx (?i l))"
  have um: "unique_matches a b = sort_key fst (map ?f (filter ?P a))"
    by (simp add: unique_matches_def Let_def concat_map_if)
  have in_new: "l \<in> set b" if "?P l" for l
    using that line_map_spec(2)[of a b l] by (metis count_notin zero_neq_one)
  show "match_ok a b p" if "p \<in> set (unique_matches a b)"
  proof -
    from that um obtain l where "l \<in> set a" "?P l" and p: "p = ?f l" by auto
    with line_map_spec(3,4)[where l = l and inner_old = a and inner_new = b] in_new[of l]
    show ?thesis by (auto simp: match_ok_def)
  qed
  have dist: "distinct (filter ?P a)"
    by (rule distinct_filter_once) (simp add: line_map_spec(1))
  have inj: "inj_on (\<lambda>l. info_old_idx (?i l)) (set (filter ?P a))"
  proof (rule inj_onI)
    fix l l' assume "l \<in> set (filter ?P a)" "l' \<in> set (filter ?P a)"
      and eq: "info_old_idx (?i l) = info_old_idx (?i l')"
    then obtain k k' where "a ! k = l" "info_old_idx (?i l) = int k"
      "a ! k' = l'" "info_old_idx (?i l') = int k'"
      using line_map_spec(3)[where l = l and inner_old = a and inner_new = b]
        line_map_spec(3)[where l = l' and inner_old = a and inner_new = b] by auto
    with eq show "l = l'" by simp
  qed
  have "distinct (map fst (map ?f (filter ?P a)))"
    using dist inj by (simp add: distinct_map comp_def)
  then have "distinct (map fst (unique_matches a b))"
    unfolding um by (simp only: distinct_map distinct_sort set_sort)
  moreover have "sorted (map fst (unique_matches a b))"
    by (simp add: um)
  ultimately have "sorted_wrt (<) (map fst (unique_matches a b))"
    by (simp add: strict_sorted_iff)
  then show "sorted_wrt (\<lambda>p q. fst p < fst q) (unique_matches a b)"
    by (simp add: sorted_wrt_map)
qed

section \<open>The piles\<close>

lemma pile_search_spec:
  assumes "lo \<le> hi" "lo = 0 \<or> card_new (cards ! (piles ! (lo - 1))) < x"
  shows "pile_search cards piles x lo hi \<le> hi \<and>
    (pile_search cards piles x lo hi = 0 \<or>
     card_new (cards ! (piles ! (pile_search cards piles x lo hi - 1))) < x)"
  using assms
proof (induction cards piles x lo hi rule: pile_search.induct)
  case (1 cards piles x lo hi)
  let ?mid = "lo + (hi - lo) div 2"
  show ?case
  proof (cases "lo < hi")
    case True
    show ?thesis
    proof (cases "card_new (cards ! (piles ! ?mid)) < x")
      case c: True
      then have eq: "pile_search cards piles x lo hi = pile_search cards piles x (?mid + 1) hi"
        using True by (subst pile_search.simps) (simp add: Let_def)
      show ?thesis unfolding eq
        by (rule "1.IH"(1)[OF True refl c]) (use True c in auto)
    next
      case c: False
      then have eq: "pile_search cards piles x lo hi = pile_search cards piles x lo ?mid"
        using True by (subst pile_search.simps) (simp add: Let_def)
      have "pile_search cards piles x lo ?mid \<le> ?mid \<and>
        (pile_search cards piles x lo ?mid = 0 \<or>
         card_new (cards ! (piles ! (pile_search cards piles x lo ?mid - 1))) < x)"
        by (rule "1.IH"(2)[OF True refl c]) (use "1.prems" in auto)
      then show ?thesis unfolding eq using True by auto
    qed
  next
    case False
    then have "pile_search cards piles x lo hi = lo" by (subst pile_search.simps) simp
    with "1.prems" False show ?thesis by simp
  qed
qed

text \<open>Back pointers lead to earlier cards that are smaller on both sides.\<close>

definition cards_ok :: "card list \<Rightarrow> bool" where
  "cards_ok cards \<longleftrightarrow> (\<forall>i < length cards. card_back (cards ! i) < 0 \<or>
     (card_back (cards ! i) < int i \<and>
      card_new (cards ! nat (card_back (cards ! i))) < card_new (cards ! i) \<and>
      card_old (cards ! nat (card_back (cards ! i))) < card_old (cards ! i)))"

definition piles_ok :: "line_match set \<Rightarrow> piles \<Rightarrow> bool" where
  "piles_ok S cp \<longleftrightarrow> cards_ok (fst cp) \<and> (\<forall>p \<in> set (snd cp). p < length (fst cp)) \<and>
     (\<forall>c \<in> set (fst cp). (card_old c, card_new c) \<in> S)"

lemma cards_ok_snoc:
  assumes "cards_ok cards"
    "bk < 0 \<or> (bk < int (length cards) \<and> card_new (cards ! nat bk) < new \<and> card_old (cards ! nat bk) < old)"
  shows "cards_ok (cards @ [\<lparr>card_new = new, card_old = old, card_back = bk\<rparr>])"
proof -
  have "nat bk < length cards" if "\<not> bk < 0" using that assms(2) by auto
  moreover have "nat (card_back (cards ! i)) < length cards"
    if "i < length cards" "\<not> card_back (cards ! i) < 0" for i
    using that assms(1) by (force simp: cards_ok_def)
  ultimately show ?thesis
    using assms by (fastforce simp: cards_ok_def nth_append less_Suc_eq)
qed

lemma deal_ok:
  assumes "piles_ok S (cards, piles)" "\<And>c. c \<in> set cards \<Longrightarrow> card_old c < old"
  shows "piles_ok (insert (old, new) S) (deal (old, new) (cards, piles))"
    "snd (deal (old, new) (cards, piles)) \<noteq> []"
    "c \<in> set (fst (deal (old, new) (cards, piles))) \<Longrightarrow> card_old c \<le> old"
proof -
  let ?lo = "pile_search cards piles new 0 (length piles)"
  define bk where "bk = (if ?lo > 0 then int (piles ! (?lo - 1)) else - 1)"
  let ?c = "\<lparr>card_new = new, card_old = old, card_back = bk\<rparr>"
  have lo: "?lo \<le> length piles" "?lo = 0 \<or> card_new (cards ! (piles ! (?lo - 1))) < new"
    using pile_search_spec[of 0 "length piles" cards piles new] by auto
  have deal: "deal (old, new) (cards, piles) = (cards @ [?c],
      if ?lo = length piles then piles @ [length cards] else piles[?lo := length cards])"
    by (simp add: Let_def deal.simps bk_def)
  have "bk < 0 \<or> (bk < int (length cards) \<and> card_new (cards ! nat bk) < new \<and> card_old (cards ! nat bk) < old)"
  proof (cases "?lo > 0")
    case True
    then have "piles ! (?lo - 1) < length cards"
      using assms(1) lo(1) by (simp add: piles_ok_def)
    then show ?thesis using True lo(2) assms(2)[OF nth_mem] by (simp add: bk_def)
  qed (simp add: bk_def)
  then have "cards_ok (cards @ [?c])"
    using assms(1) by (intro cards_ok_snoc) (simp_all add: piles_ok_def)
  moreover have "p < length (cards @ [?c])"
    if "p \<in> set (if ?lo = length piles then piles @ [length cards] else piles[?lo := length cards])" for p
    using that assms(1) set_update_subset_insert[of piles ?lo "length cards"]
    by (fastforce simp: piles_ok_def less_Suc_eq split: if_splits)
  ultimately show "piles_ok (insert (old, new) S) (deal (old, new) (cards, piles))"
    using assms(1) unfolding deal piles_ok_def by (auto split del: if_split)
  show "snd (deal (old, new) (cards, piles)) \<noteq> []"
    unfolding deal using lo(1) by auto
  show "c \<in> set (fst (deal (old, new) (cards, piles))) \<Longrightarrow> card_old c \<le> old"
    unfolding deal using assms(2) by fastforce
qed

lemma fold_deal_ok:
  assumes "sorted_wrt (\<lambda>p q. fst p < fst q) ms" "piles_ok S cp"
    "\<And>c p. c \<in> set (fst cp) \<Longrightarrow> p \<in> set ms \<Longrightarrow> card_old c < fst p"
  shows "piles_ok (S \<union> set ms) (fold deal ms cp) \<and> (ms \<noteq> [] \<longrightarrow> snd (fold deal ms cp) \<noteq> [])"
  using assms
proof (induction ms arbitrary: S cp)
  case (Cons p ms)
  obtain old new cards piles where [simp]: "p = (old, new)" "cp = (cards, piles)"
    by (cases p; cases cp)
  have lt: "card_old c < old" if "c \<in> set cards" for c
    using Cons.prems(3)[of c p] that by simp
  have d: "piles_ok (insert p S) (deal p cp)" "snd (deal p cp) \<noteq> []"
    "\<And>c. c \<in> set (fst (deal p cp)) \<Longrightarrow> card_old c \<le> old"
    using deal_ok[where S = S and cards = cards and piles = piles and old = old and new = new]
      Cons.prems(2) lt by auto
  have "piles_ok (insert p S \<union> set ms) (fold deal ms (deal p cp)) \<and>
      (ms \<noteq> [] \<longrightarrow> snd (fold deal ms (deal p cp)) \<noteq> [])"
    by (rule Cons.IH) (use Cons.prems(1) d in \<open>fastforce+\<close>)
  moreover have "insert p S \<union> set ms = S \<union> set (p # ms)" by auto
  ultimately show ?case using d(2) by (cases "ms = []") simp_all
qed simp

lemma walk_back_spec:
  assumes "cards_ok cards" "idx < int (length cards)" "idx < int fuel"
  shows "\<exists>ch. walk_back fuel cards idx acc = Some (acc @ ch)
    \<and> sorted_wrt (\<lambda>p q. fst q < fst p \<and> snd q < snd p) ch
    \<and> (\<forall>p \<in> set ch. fst p \<le> card_old (cards ! nat idx) \<and> snd p \<le> card_new (cards ! nat idx)
         \<and> (\<exists>c \<in> set cards. p = (card_old c, card_new c)))
    \<and> (idx \<ge> 0 \<longrightarrow> ch \<noteq> [])"
  using assms(2,3)
proof (induction fuel arbitrary: idx acc)
  case 0
  then have "walk_back 0 cards idx acc = Some acc" by (subst walk_back.simps) simp
  with 0 show ?case by (intro exI[of _ "[]"]) simp
next
  case (Suc fuel)
  show ?case
  proof (cases "idx \<ge> 0")
    case True
    let ?c = "cards ! nat idx"
    have i: "nat idx < length cards" using True Suc.prems(1) by simp
    then have b: "card_back ?c < 0 \<or> (card_back ?c < idx \<and>
        card_new (cards ! nat (card_back ?c)) < card_new ?c \<and> card_old (cards ! nat (card_back ?c)) < card_old ?c)"
      using assms(1) True by (auto simp: cards_ok_def)
    obtain ch where ch: "walk_back fuel cards (card_back ?c) (acc @ [(card_old ?c, card_new ?c)]) =
        Some ((acc @ [(card_old ?c, card_new ?c)]) @ ch)"
      "sorted_wrt (\<lambda>p q. fst q < fst p \<and> snd q < snd p) ch"
      "\<forall>p \<in> set ch. fst p \<le> card_old (cards ! nat (card_back ?c)) \<and> snd p \<le> card_new (cards ! nat (card_back ?c))
         \<and> (\<exists>c \<in> set cards. p = (card_old c, card_new c))"
      using Suc.IH[of "card_back ?c" "acc @ [(card_old ?c, card_new ?c)]"] b Suc.prems by fastforce
    have lt: "fst p < card_old ?c \<and> snd p < card_new ?c" if "p \<in> set ch" for p
    proof (cases "card_back ?c < 0")
      case neg: True
      then have "walk_back fuel cards (card_back ?c) (acc @ [(card_old ?c, card_new ?c)]) =
        Some (acc @ [(card_old ?c, card_new ?c)])"
        by (subst walk_back.simps) simp
      with ch(1) that show ?thesis by simp
    next
      case False
      with b have "card_new (cards ! nat (card_back ?c)) < card_new ?c"
        "card_old (cards ! nat (card_back ?c)) < card_old ?c" by simp_all
      moreover have "fst p \<le> card_old (cards ! nat (card_back ?c))" "snd p \<le> card_new (cards ! nat (card_back ?c))"
        using ch(3) that by simp_all
      ultimately show ?thesis by linarith
    qed
    have "walk_back (Suc fuel) cards idx acc = Some (acc @ (card_old ?c, card_new ?c) # ch)"
      using True ch(1) by (subst walk_back.simps) (simp add: Let_def)
    moreover have "sorted_wrt (\<lambda>p q. fst q < fst p \<and> snd q < snd p) ((card_old ?c, card_new ?c) # ch)"
      using ch(2) lt by simp
    ultimately show ?thesis
      using ch(3) lt nth_mem[OF i] True
      by (intro exI[of _ "(card_old ?c, card_new ?c) # ch"]) (auto intro: less_imp_le)
  next
    case False
    then have "walk_back (Suc fuel) cards idx acc = Some acc" by (subst walk_back.simps) simp
    with False show ?thesis by (intro exI[of _ "[]"]) simp
  qed
qed

text \<open>The anchors: always found, increasing strictly on both sides, taken from the matches,
  and none only when there is no match.\<close>

lemma lis_anchors_ok:
  assumes "sorted_wrt (\<lambda>p q. fst p < fst q) ms"
  shows "\<exists>as. lis_anchors ms = Some as \<and> sorted_wrt (\<lambda>p q. fst p < fst q \<and> snd p < snd q) as
    \<and> set as \<subseteq> set ms \<and> (as = [] \<longleftrightarrow> ms = [])"
proof -
  obtain cards piles where cp: "deal_all ms = (cards, piles)" by fastforce
  have ok: "piles_ok (set ms) (cards, piles)" "ms \<noteq> [] \<Longrightarrow> piles \<noteq> []"
    using fold_deal_ok[OF assms, of "{}" "([], [])"] cp
    by (auto simp: deal_all_def piles_ok_def cards_ok_def)
  show ?thesis
  proof (cases "piles = []")
    case True
    with ok(2) cp show ?thesis by (auto simp: lis_anchors_def)
  next
    case False
    then have "last piles < length cards" using ok(1) by (auto simp: piles_ok_def)
    then obtain ch where ch: "walk_back (length cards) cards (int (last piles)) [] = Some ch"
      "sorted_wrt (\<lambda>p q. fst q < fst p \<and> snd q < snd p) ch"
      "\<forall>p \<in> set ch. \<exists>c \<in> set cards. p = (card_old c, card_new c)" "ch \<noteq> []"
      using walk_back_spec[of cards "int (last piles)" "length cards" "[]"] ok(1)
      by (auto simp: piles_ok_def)
    have ne: "ms \<noteq> []"
    proof
      assume "ms = []" with cp False show False by (simp add: deal_all_def)
    qed
    have "set ch \<subseteq> set ms" using ch(3) ok(1) by (auto simp: piles_ok_def)
    with False cp ch ne show ?thesis
      by (auto simp: lis_anchors_def sorted_wrt_rev)
  qed
qed


section \<open>The script\<close>

text \<open>What the recursion may assume of its calls on smaller parts.\<close>

definition solves :: "(lines \<Rightarrow> lines \<Rightarrow> edit_op list option) \<Rightarrow> nat \<Rightarrow> bool" where
  "solves rec N \<longleftrightarrow>
     (\<forall>a b. length a + length b < N \<longrightarrow> (\<exists>ops. rec a b = Some ops \<and> edit_script a b ops))"

lemma gap_ops_script:
  assumes "solves rec N" "0 \<le> pre" "0 \<le> po" "0 \<le> pn" "0 \<le> gol" "0 \<le> gnl" "gol + gnl < int N"
    "pre + po + gol \<le> int (length a)" "pre + pn + gnl \<le> int (length b)"
  shows "\<exists>ops. gap_ops rec a b pre po pn gol gnl = Some ops \<and>
    script_from a b (pre + po) (pre + pn) ops (pre + po + gol) (pre + pn + gnl)"
proof (cases "gol > 0 \<or> gnl > 0")
  case True
  let ?a = "subspan a (pre + po) gol" and ?b = "subspan b (pre + pn) gnl"
  have l: "length ?a = nat gol" "length ?b = nat gnl"
    using assms by (auto simp: subspan_def min_def)
  then have "length ?a + length ?b < N" using assms(5,6,7) by simp
  then obtain ops where ops: "rec ?a ?b = Some ops" "edit_script ?a ?b ops"
    using assms(1) by (auto simp: solves_def)
  have "script_from a b (pre + po) (pre + pn) (map (shift_op (pre + po) (pre + pn)) ops)
      (pre + po + gol) (pre + pn + gnl)"
    using edit_script_shift[of "nat gol" "nat (pre + po)" a "nat gnl" "nat (pre + pn)" b ops] ops(2) assms
    by (simp add: subspan_def)
  with True ops(1) show ?thesis by (auto simp: gap_ops_def)
next
  case False
  with assms show ?thesis by (auto simp: gap_ops_def)
qed

lemma patience_gaps_script:
  assumes "solves rec (length a + length b)" "0 \<le> pre"
    "pre + io \<le> int (length a)" "pre + inn \<le> int (length b)"
    "0 \<le> po" "0 \<le> pn" "po \<le> io" "pn \<le> inn" "anchors = [] \<Longrightarrow> 0 < po"
    "sorted_wrt (\<lambda>p q. fst p < fst q \<and> snd p < snd q) anchors"
    "\<And>p. p \<in> set anchors \<Longrightarrow> po \<le> fst p \<and> pn \<le> snd p \<and> fst p < io \<and> snd p < inn
       \<and> a ! nat (pre + fst p) = b ! nat (pre + snd p)"
  shows "\<exists>ops. patience_gaps rec a b pre io inn po pn anchors = Some ops \<and>
    script_from a b (pre + po) (pre + pn) ops (pre + io) (pre + inn)"
  using assms(5-)
proof (induction anchors arbitrary: po pn)
  case Nil
  from Nil.prems(5) have "0 < po" by simp
  with gap_ops_script[OF assms(1,2), of po pn "io - po" "inn - pn"] Nil.prems assms show ?case
    by auto
next
  case (Cons p anchors)
  obtain old new where p: "p = (old, new)" by (cases p)
  from Cons.prems(7)[of p] p have r: "po \<le> old" "pn \<le> new" "old < io" "new < inn"
    "a ! nat (pre + old) = b ! nat (pre + new)" by auto
  have "(old - po) + (new - pn) < int (length a + length b)"
    "pre + po + (old - po) \<le> int (length a)" "pre + pn + (new - pn) \<le> int (length b)"
    using r Cons.prems(1,2) assms(2-4) by linarith+
  from gap_ops_script[OF assms(1,2) Cons.prems(1,2) _ _ this] r(1,2)
  obtain gap where gap: "gap_ops rec a b pre po pn (old - po) (new - pn) = Some gap"
    "script_from a b (pre + po) (pre + pn) gap (pre + old) (pre + new)" by auto
  have "\<exists>ops. patience_gaps rec a b pre io inn (old + 1) (new + 1) anchors = Some ops \<and>
    script_from a b (pre + (old + 1)) (pre + (new + 1)) ops (pre + io) (pre + inn)"
    by (rule Cons.IH) (use r Cons.prems p in \<open>fastforce+\<close>)
  then obtain ops where ops: "patience_gaps rec a b pre io inn (old + 1) (new + 1) anchors = Some ops"
    "script_from a b (pre + old + 1) (pre + new + 1) ops (pre + io) (pre + inn)"
    by (auto simp: add.assoc)
  have "script_from a b (pre + old) (pre + new) (eq_op (pre + old) (pre + new) # ops) (pre + io) (pre + inn)"
    using r Cons.prems assms(2-4) ops(2) by simp
  with gap(2) have "script_from a b (pre + po) (pre + pn)
      (gap @ eq_op (pre + old) (pre + new) # ops) (pre + io) (pre + inn)" by blast
  with gap(1) ops(1) p show ?case by simp
qed

lemma nth_interior:
  "k < length xs - pre - suf \<Longrightarrow> interior xs pre suf ! k = xs ! (pre + k)"
  by (simp add: interior_def)

lemma length_interior [simp]: "length (interior xs pre suf) = length xs - pre - suf"
  by (simp add: interior_def)

text \<open>Enough fuel gives a script.\<close>

lemma patience_fuel_script:
  "length a + length b < fuel \<Longrightarrow> \<exists>ops. patience_fuel fuel a b = Some ops \<and> edit_script a b ops"
proof (induction fuel arbitrary: a b)
  case (Suc fuel)
  let ?n = "length a" and ?m = "length b"
  let ?pre = "prefix_len a b 0"
  let ?suf = "suffix_len a b ?pre 0"
  let ?io = "interior a ?pre ?suf" and ?in = "interior b ?pre ?suf"
  have t: "trimmed a b ?pre ?suf" by (rule trimmed_loops)
  consider "a = []" | "a \<noteq> []" "b = []" | "a \<noteq> []" "b \<noteq> []" "?io = []" "?in = []"
    | "a \<noteq> []" "b \<noteq> []" "\<not> (?io = [] \<and> ?in = [])" by blast
  then show ?case
  proof cases
    case 1
    then show ?thesis using edit_script_all_ins[of b]
      by (cases "b = []") (auto simp: edit_script_def)
  next
    case 2
    then show ?thesis using edit_script_all_del[of a] by simp
  next
    case 3
    then have "edit_script a b (eq_run 0 0 ?n)"
      using all_equal_script[OF t] by (metis length_interior list.size(3))
    with 3 show ?thesis by (simp add: Let_def)
  next
    case 4
    have um: "sorted_wrt (\<lambda>p q. fst p < fst q) (unique_matches ?io ?in)"
      by (rule unique_matches_ok(2))
    obtain anchors where an: "lis_anchors (unique_matches ?io ?in) = Some anchors"
      "sorted_wrt (\<lambda>p q. fst p < fst q \<and> snd p < snd q) anchors"
      "set anchors \<subseteq> set (unique_matches ?io ?in)"
      using lis_anchors_ok[OF um] by blast
    show ?thesis
    proof (cases "anchors = []")
      case True
      with 4 an(1) show ?thesis
        using myers.engine_assemble[OF t, of Minimal] by (auto simp: Let_def)
    next
      case False
      have pr: "0 \<le> fst p \<and> 0 \<le> snd p \<and> fst p < int (length ?io) \<and> snd p < int (length ?in)
         \<and> a ! nat (int ?pre + fst p) = b ! nat (int ?pre + snd p)" if "p \<in> set anchors" for p
      proof -
        have m: "match_ok ?io ?in p" using that an(3) unique_matches_ok(1) by blast
        then have "nat (fst p) < length a - ?pre - ?suf" "nat (snd p) < length b - ?pre - ?suf"
          by (auto simp: match_ok_def nat_less_iff)
        with m show ?thesis
          by (simp add: match_ok_def nth_interior nat_add_distrib)
      qed
      have sol: "solves (patience_fuel fuel) (length a + length b)"
        using Suc by (simp add: solves_def)
      have len: "?pre + length ?io = ?n - ?suf" "?pre + length ?in = ?m - ?suf"
        using t by (auto simp: trimmed_def)
      have "\<exists>ops. patience_gaps (patience_fuel fuel) a b (int ?pre) (int (length ?io))
            (int (length ?in)) 0 0 anchors = Some ops \<and>
          script_from a b (int ?pre + 0) (int ?pre + 0) ops (int ?pre + int (length ?io)) (int ?pre + int (length ?in))"
        by (rule patience_gaps_script[OF sol]) (use False pr an(2) len in \<open>fastforce+\<close>)
      then obtain ops where ops: "patience_gaps (patience_fuel fuel) a b (int ?pre) (int (length ?io))
            (int (length ?in)) 0 0 anchors = Some ops"
        "script_from a b (int ?pre) (int ?pre) ops (int (?n - ?suf)) (int (?m - ?suf))"
        by (auto simp flip: of_nat_add simp: len simp del: length_interior)
      from sandwich[OF t ops(2)] ops(1) 4 an(1) False show ?thesis
        by (auto simp: Let_def)
    qed
  qed
qed simp

lemma patience_diff_script: "edit_script a b (patience_diff a b)"
  using patience_fuel_script[of a b "Suc (length a + length b)"]
  by (auto simp: patience_diff_def)

interpretation patience: diff_engine patience_diff
  by unfold_locales (rule patience_diff_script)

end
