(* ===== verification/Histogram_Diff.thy ===== *)
theory Histogram_Diff
  imports Patience_Diff
begin

text \<open>
  The histogram engine (\<open>histogram_diff_impl\<close> in \<open>src/src/quilt.cpp\<close>): the
  occurrence index of the old interior, the scan of the new interior for the best matching
  block (fewest occurrences, then longest) with its skips, and the recursion on the regions
  before and after the block, cut off at depth \<open>MAX_RECURSION\<close>, which is also what makes
  the definition terminate. The block the scan returns is inside both interiors and matches
  line by line.
\<close>

section \<open>The occurrence index\<close>

definition MAX_CHAIN_LENGTH :: nat where "MAX_CHAIN_LENGTH = 64"
definition MAX_RECURSION :: nat where "MAX_RECURSION = 1024"

record hist_entry =
  entry_count :: nat
  entry_positions :: "nat list"

fun build_hist :: "lines \<Rightarrow> nat \<Rightarrow> (string \<rightharpoonup> hist_entry) \<Rightarrow> (string \<rightharpoonup> hist_entry)" where
  "build_hist [] i h = h"
| "build_hist (l # ls) i h =
     (let entry = (case h l of Some e \<Rightarrow> e | None \<Rightarrow> \<lparr>entry_count = 0, entry_positions = []\<rparr>)
      in build_hist ls (Suc i)
           (h(l \<mapsto> \<lparr>entry_count = Suc (entry_count entry), entry_positions = entry_positions entry @ [i]\<rparr>)))"

definition old_counts :: "lines \<Rightarrow> (string \<rightharpoonup> hist_entry) \<Rightarrow> nat list" where
  "old_counts inner_old h =
     map (\<lambda>l. case h l of Some e \<Rightarrow> entry_count e | None \<Rightarrow> 0) inner_old"

section \<open>Extending a match\<close>

function extend_back ::
  "lines \<Rightarrow> lines \<Rightarrow> nat \<Rightarrow> nat list \<Rightarrow> nat \<Rightarrow> nat \<Rightarrow> nat \<Rightarrow> nat \<Rightarrow> nat \<times> nat" where
  "extend_back a b pre counts oi j bk min_occ =
     (if bk < oi \<and> bk < j \<and> a ! (pre + oi - bk - 1) = b ! (pre + j - bk - 1) then
        let occ = counts ! (oi - (bk + 1))
        in extend_back a b pre counts oi j (bk + 1) (if occ < min_occ then occ else min_occ)
      else (bk, min_occ))"
  by pat_completeness auto
termination
  by (relation "measure (\<lambda>(a, b, p, c, oi, j, bk, mo). oi - bk)") auto

function extend_fwd ::
  "lines \<Rightarrow> lines \<Rightarrow> nat \<Rightarrow> nat list \<Rightarrow> nat \<Rightarrow> nat \<Rightarrow> nat \<Rightarrow> nat \<Rightarrow> nat \<Rightarrow> nat \<Rightarrow> nat \<times> nat" where
  "extend_fwd a b pre counts inner_old_len inner_new_len oi j fwd min_occ =
     (if oi + fwd + 1 < inner_old_len \<and> j + fwd + 1 < inner_new_len \<and>
         a ! (pre + oi + fwd + 1) = b ! (pre + j + fwd + 1) then
        let occ = counts ! (oi + (fwd + 1))
        in extend_fwd a b pre counts inner_old_len inner_new_len oi j (fwd + 1)
             (if occ < min_occ then occ else min_occ)
      else (fwd, min_occ))"
  by pat_completeness auto
termination
  by (relation "measure (\<lambda>(a, b, p, c, io, inn, oi, j, fwd, mo). io - (oi + fwd))") auto

declare extend_back.simps [simp del] extend_fwd.simps [simp del]

record best_block =
  best_old_start :: int
  best_new_start :: int
  best_len :: nat
  best_threshold :: nat

definition no_block :: best_block where
  "no_block = \<lparr>best_old_start = - 1, best_new_start = - 1, best_len = 0,
     best_threshold = MAX_CHAIN_LENGTH + 1\<rparr>"

text \<open>The loop over the old positions of one line, with \<open>j_advance\<close>.\<close>

fun scan_positions ::
  "lines \<Rightarrow> lines \<Rightarrow> nat \<Rightarrow> nat list \<Rightarrow> nat \<Rightarrow> nat \<Rightarrow> nat \<Rightarrow> nat \<Rightarrow> nat list \<Rightarrow>
   best_block \<Rightarrow> nat \<Rightarrow> best_block \<times> nat" where
  "scan_positions a b pre counts inner_old_len inner_new_len j entry_cnt [] best j_advance = (best, j_advance)"
| "scan_positions a b pre counts inner_old_len inner_new_len j entry_cnt (oi # ois) best j_advance =
     (let (bk, min_occ) = extend_back a b pre counts oi j 0 entry_cnt;
          (fwd, min_occ) = extend_fwd a b pre counts inner_old_len inner_new_len oi j 0 min_occ;
          block_len = bk + 1 + fwd;
          block_old_start = int oi - int bk;
          block_new_start = int j - int bk;
          j_advance = (if fwd + 1 > j_advance then fwd + 1 else j_advance);
          best = (if min_occ < best_threshold best \<or>
                     (min_occ = best_threshold best \<and> block_len > best_len best)
                  then \<lparr>best_old_start = block_old_start, best_new_start = block_new_start,
                        best_len = block_len, best_threshold = min_occ\<rparr>
                  else best)
      in scan_positions a b pre counts inner_old_len inner_new_len j entry_cnt ois best j_advance)"

lemma scan_positions_advance:
  "scan_positions a b pre counts io inn j cnt ois best adv = (best', adv') \<Longrightarrow> adv \<le> adv'"
  by (induction ois arbitrary: best adv) (fastforce simp: Let_def split: prod.splits if_splits)+

function scan_new ::
  "lines \<Rightarrow> lines \<Rightarrow> nat \<Rightarrow> (string \<rightharpoonup> hist_entry) \<Rightarrow> nat list \<Rightarrow> nat \<Rightarrow> nat \<Rightarrow> nat \<Rightarrow> best_block \<Rightarrow>
   best_block" where
  "scan_new a b pre h counts inner_old_len inner_new_len j best =
     (if j < inner_new_len then
        case h (b ! (pre + j)) of
          None \<Rightarrow> scan_new a b pre h counts inner_old_len inner_new_len (j + 1) best
        | Some entry \<Rightarrow>
            if entry_count entry > MAX_CHAIN_LENGTH \<or> entry_count entry > best_threshold best
            then scan_new a b pre h counts inner_old_len inner_new_len (j + 1) best
            else
              let (best, j_advance) = scan_positions a b pre counts inner_old_len inner_new_len j
                     (entry_count entry) (entry_positions entry) best 1
              in scan_new a b pre h counts inner_old_len inner_new_len (j + j_advance) best
      else best)"
  by pat_completeness auto
termination
proof (relation "measure (\<lambda>(a, b, p, h, c, io, inn, j, best). inn - j)", goal_cases)
  case (4 a b pre h counts io inn j best entry x best' adv)
  then have "scan_positions a b pre counts io inn j (entry_count entry) (entry_positions entry) best 1 = (best', adv)"
    by simp
  from scan_positions_advance[OF this] 4 show ?case by simp
qed auto

declare scan_new.simps [simp del]

definition find_block :: "lines \<Rightarrow> lines \<Rightarrow> nat \<Rightarrow> nat \<Rightarrow> nat \<Rightarrow> best_block" where
  "find_block a b pre inner_old_len inner_new_len =
     (let inner_old = take inner_old_len (drop pre a);
          h = build_hist inner_old 0 Map.empty;
          counts = old_counts inner_old h
      in scan_new a b pre h counts inner_old_len inner_new_len 0 no_block)"

section \<open>The engine\<close>

function histogram_impl :: "lines \<Rightarrow> lines \<Rightarrow> nat \<Rightarrow> edit_op list" where
  "histogram_impl a b depth =
     (let n = length a; m = length b in
      if n = 0 \<and> m = 0 then []
      else if n = 0 then map (\<lambda>j. ins_op (int j)) [0..<m]
      else if m = 0 then map (\<lambda>i. del_op (int i)) [0..<n]
      else
        let pre = prefix_len a b 0;
            suf = suffix_len a b pre 0;
            inner_old_len = n - pre - suf;
            inner_new_len = m - pre - suf
        in if inner_old_len = 0 \<and> inner_new_len = 0 then eq_run 0 0 n
           else if depth \<ge> MAX_RECURSION
           then assemble a b pre suf (myers_diff Minimal (interior a pre suf) (interior b pre suf))
           else
             let best = find_block a b pre inner_old_len inner_new_len in
             if best_len best = 0
             then assemble a b pre suf (myers_diff Minimal (interior a pre suf) (interior b pre suf))
             else
               let bo = nat (best_old_start best); bn = nat (best_new_start best); bl = best_len best;
                   before = (if bo > 0 \<or> bn > 0
                     then map (shift_op (int pre) (int pre))
                            (histogram_impl (take bo (drop pre a)) (take bn (drop pre b)) (depth + 1))
                     else []);
                   ao = bo + bl; an = bn + bl;
                   after_old_len = inner_old_len - ao;
                   after_new_len = inner_new_len - an;
                   after = (if after_old_len > 0 \<or> after_new_len > 0
                     then map (shift_op (int (pre + ao)) (int (pre + an)))
                            (histogram_impl (take after_old_len (drop (pre + ao) a))
                               (take after_new_len (drop (pre + an) b)) (depth + 1))
                     else [])
               in eq_run 0 0 pre @ before @ eq_run (pre + bo) (pre + bn) bl @ after @
                  eq_run (n - suf) (m - suf) suf)"
  by pat_completeness auto
termination
  by (relation "measure (\<lambda>(a, b, depth). MAX_RECURSION - depth)") auto

declare histogram_impl.simps [simp del]

definition histogram_diff :: "lines \<Rightarrow> lines \<Rightarrow> edit_op list" where
  "histogram_diff old_lines new_lines = histogram_impl old_lines new_lines 0"

section \<open>The block\<close>

definition block_ok :: "lines \<Rightarrow> lines \<Rightarrow> nat \<Rightarrow> nat \<Rightarrow> nat \<Rightarrow> best_block \<Rightarrow> bool" where
  "block_ok a b pre io inn best \<longleftrightarrow> best_len best = 0 \<or>
     (0 \<le> best_old_start best \<and> 0 \<le> best_new_start best \<and>
      nat (best_old_start best) + best_len best \<le> io \<and> nat (best_new_start best) + best_len best \<le> inn \<and>
      (\<forall>t < best_len best. a ! (pre + nat (best_old_start best) + t) = b ! (pre + nat (best_new_start best) + t)))"

lemma extend_back_spec:
  assumes "extend_back a b pre counts oi j bk mo = (bk', mo')" "bk \<le> oi" "bk \<le> j"
    "\<And>t. 0 < t \<Longrightarrow> t \<le> bk \<Longrightarrow> a ! (pre + oi - t) = b ! (pre + j - t)"
  shows "bk' \<le> oi \<and> bk' \<le> j \<and> (\<forall>t. 0 < t \<and> t \<le> bk' \<longrightarrow> a ! (pre + oi - t) = b ! (pre + j - t))"
  using assms
proof (induction a b pre counts oi j bk mo rule: extend_back.induct)
  case (1 a b pre counts oi j bk mo)
  show ?case
  proof (cases "bk < oi \<and> bk < j \<and> a ! (pre + oi - bk - 1) = b ! (pre + j - bk - 1)")
    case True
    let ?occ = "counts ! (oi - (bk + 1))"
    have e: "extend_back a b pre counts oi j (bk + 1) (if ?occ < mo then ?occ else mo) = (bk', mo')"
      using True "1.prems"(1) by (subst (asm) extend_back.simps) (simp add: Let_def cong: if_cong split del: if_split)
    have m: "a ! (pre + oi - t) = b ! (pre + j - t)" if "0 < t" "t \<le> bk + 1" for t
      using that True "1.prems"(4)[of t] by (cases "t = bk + 1") auto
    show ?thesis
      by (rule "1.IH"[OF True refl e]) (use True m in auto)
  next
    case False
    with "1.prems"(1) have "bk' = bk" by (subst (asm) extend_back.simps) auto
    with "1.prems" show ?thesis by simp
  qed
qed

lemma extend_fwd_spec:
  assumes "extend_fwd a b pre counts io inn oi j fwd mo = (fwd', mo')" "oi + fwd < io" "j + fwd < inn"
    "\<And>t. t \<le> fwd \<Longrightarrow> a ! (pre + oi + t) = b ! (pre + j + t)"
  shows "oi + fwd' < io \<and> j + fwd' < inn \<and> (\<forall>t \<le> fwd'. a ! (pre + oi + t) = b ! (pre + j + t))"
  using assms
proof (induction a b pre counts io inn oi j fwd mo rule: extend_fwd.induct)
  case (1 a b pre counts io inn oi j fwd mo)
  show ?case
  proof (cases "oi + fwd + 1 < io \<and> j + fwd + 1 < inn \<and> a ! (pre + oi + fwd + 1) = b ! (pre + j + fwd + 1)")
    case True
    let ?occ = "counts ! (oi + (fwd + 1))"
    have e: "extend_fwd a b pre counts io inn oi j (fwd + 1) (if ?occ < mo then ?occ else mo) = (fwd', mo')"
      using True "1.prems"(1) by (subst (asm) extend_fwd.simps) (simp add: Let_def cong: if_cong split del: if_split)
    have m: "a ! (pre + oi + t) = b ! (pre + j + t)" if "t \<le> fwd + 1" for t
      using that True "1.prems"(4)[of t] by (cases "t = fwd + 1") auto
    show ?thesis
      by (rule "1.IH"[OF True refl e]) (use True m in auto)
  next
    case False
    with "1.prems"(1) have "fwd' = fwd" by (subst (asm) extend_fwd.simps) auto
    with "1.prems" show ?thesis by simp
  qed
qed

lemma scan_positions_ok:
  assumes "block_ok a b pre io inn best" "j < inn"
    "\<And>oi. oi \<in> set ois \<Longrightarrow> oi < io \<and> a ! (pre + oi) = b ! (pre + j)"
    "scan_positions a b pre counts io inn j cnt ois best adv = (best', adv')"
  shows "block_ok a b pre io inn best'"
  using assms
proof (induction ois arbitrary: best adv)
  case (Cons oi ois)
  obtain bk mo where bk: "extend_back a b pre counts oi j 0 cnt = (bk, mo)" by fastforce
  obtain fwd mo' where fwd: "extend_fwd a b pre counts io inn oi j 0 mo = (fwd, mo')" by fastforce
  have B: "bk \<le> oi" "bk \<le> j" "\<And>t. 0 < t \<Longrightarrow> t \<le> bk \<Longrightarrow> a ! (pre + oi - t) = b ! (pre + j - t)"
    using extend_back_spec[OF bk] by auto
  have F: "oi + fwd < io" "j + fwd < inn" "\<And>t. t \<le> fwd \<Longrightarrow> a ! (pre + oi + t) = b ! (pre + j + t)"
    using extend_fwd_spec[OF fwd] Cons.prems(2,3) by auto
  let ?new = "\<lparr>best_old_start = int oi - int bk, best_new_start = int j - int bk,
                  best_len = bk + 1 + fwd, best_threshold = mo'\<rparr>"
  have starts: "nat (int oi - int bk) = oi - bk" "nat (int j - int bk) = j - bk" by auto
  have "a ! (pre + (oi - bk) + t) = b ! (pre + (j - bk) + t)" if "t < bk + 1 + fwd" for t
  proof (cases "t < bk")
    case True
    with B(1,2) have "pre + (oi - bk) + t = pre + oi - (bk - t)" "pre + (j - bk) + t = pre + j - (bk - t)"
      by linarith+
    with B(3)[of "bk - t"] True show ?thesis by simp
  next
    case False
    with B(1,2) have "pre + (oi - bk) + t = pre + oi + (t - bk)" "pre + (j - bk) + t = pre + j + (t - bk)"
      by linarith+
    with F(3)[of "t - bk"] False that show ?thesis by simp
  qed
  then have new: "block_ok a b pre io inn ?new"
    using B(1,2) F(1,2) by (simp add: block_ok_def starts)
  from Cons.prems(4) bk fwd obtain best1 adv1 where
    "best1 = best \<or> best1 = ?new" "scan_positions a b pre counts io inn j cnt ois best1 adv1 = (best', adv')"
    by (auto simp: Let_def split: if_splits)
  with Cons.IH[of best1 adv1] new Cons.prems(1-3) show ?case by auto
qed simp

definition hist_ok :: "lines \<Rightarrow> nat \<Rightarrow> (string \<rightharpoonup> hist_entry) \<Rightarrow> bool" where
  "hist_ok inner i h \<longleftrightarrow>
     (\<forall>l e. h l = Some e \<longrightarrow> (\<forall>p \<in> set (entry_positions e). p < i \<and> inner ! p = l)
        \<and> entry_count e = length (entry_positions e))"

lemma build_hist_ok:
  assumes "hist_ok inner i h" "drop i inner = ls" "i \<le> length inner"
  shows "hist_ok inner (length inner) (build_hist ls i h)"
  using assms
proof (induction ls arbitrary: i h)
  case (Cons l ls)
  then have l: "inner ! i = l" "i < length inner" "drop (Suc i) inner = ls"
    by (metis nth_via_drop, metis drop_all linorder_not_le list.simps(3),
        metis drop_Suc drop_tl list.sel(3))
  let ?e = "case h l of Some e \<Rightarrow> e | None \<Rightarrow> \<lparr>entry_count = 0, entry_positions = []\<rparr>"
  have "hist_ok inner (Suc i) (h(l \<mapsto> \<lparr>entry_count = Suc (entry_count ?e), entry_positions = entry_positions ?e @ [i]\<rparr>))"
    using Cons.prems(1) l(1) unfolding hist_ok_def
    by (auto split: option.splits simp: less_Suc_eq)
  with Cons.IH[of "Suc i"] l show ?case by (simp add: Let_def)
qed simp

lemma scan_new_ok:
  assumes "block_ok a b pre io inn best" "hist_ok (take io (drop pre a)) io h" "pre + io \<le> length a"
  shows "block_ok a b pre io inn (scan_new a b pre h counts io inn j best)"
  using assms
proof (induction a b pre h counts io inn j best rule: scan_new.induct)
  case (1 a b pre h counts io inn j best)
  consider "\<not> j < inn" | "j < inn" "h (b ! (pre + j)) = None"
    | e where "j < inn" "h (b ! (pre + j)) = Some e" "entry_count e > MAX_CHAIN_LENGTH \<or> entry_count e > best_threshold best"
    | e where "j < inn" "h (b ! (pre + j)) = Some e" "\<not> (entry_count e > MAX_CHAIN_LENGTH \<or> entry_count e > best_threshold best)"
    by (cases "h (b ! (pre + j))") blast+
  then show ?case
  proof cases
    case 1
    with "1.prems" show ?thesis by (subst scan_new.simps) simp
  next
    case 2
    with "1.IH"(1)[OF 2 "1.prems"] show ?thesis by (subst scan_new.simps) simp
  next
    case (3 e)
    with "1.IH"(2)[OF 3 "1.prems"] show ?thesis by (subst scan_new.simps) simp
  next
    case (4 e)
    obtain best' adv where s: "scan_positions a b pre counts io inn j (entry_count e) (entry_positions e) best 1 = (best', adv)"
      by fastforce
    have pos: "oi < io \<and> a ! (pre + oi) = b ! (pre + j)" if "oi \<in> set (entry_positions e)" for oi
    proof -
      have "\<forall>p \<in> set (entry_positions e). p < io \<and> take io (drop pre a) ! p = b ! (pre + j)"
        using "1.prems"(2) 4(2) unfolding hist_ok_def by blast
      with that have "oi < io" "take io (drop pre a) ! oi = b ! (pre + j)" by blast+
      then show ?thesis using "1.prems"(3) by simp
    qed
    have "block_ok a b pre io inn best'"
      by (rule scan_positions_ok[OF "1.prems"(1) 4(1) pos s])
    from "1.IH"(3)[OF 4 s[symmetric] refl this "1.prems"(2,3)] 4 s show ?thesis
      by (subst scan_new.simps) simp
  qed
qed

lemma find_block_ok:
  assumes "pre + io \<le> length a"
  shows "block_ok a b pre io inn (find_block a b pre io inn)"
proof -
  have l: "length (take io (drop pre a)) = io" using assms by simp
  have "hist_ok (take io (drop pre a)) io (build_hist (take io (drop pre a)) 0 Map.empty)"
    by (rule build_hist_ok[of "take io (drop pre a)" 0, unfolded l]) (simp_all add: hist_ok_def)
  then show ?thesis
    unfolding find_block_def Let_def by (intro scan_new_ok) (use assms in \<open>simp_all add: block_ok_def no_block_def\<close>)
qed


section \<open>The script\<close>

lemma block_script:
  assumes t: "trimmed a b pre suf" and bl: "block_ok a b pre (length a - pre - suf) (length b - pre - suf) best"
    and nz: "best_len best \<noteq> 0"
    and bo: "bo = nat (best_old_start best)" and bn: "bn = nat (best_new_start best)" and bl': "l = best_len best"
    and before: "edit_script (take bo (drop pre a)) (take bn (drop pre b)) ops1"
    and after: "edit_script (take (length a - pre - suf - (bo + l)) (drop (pre + (bo + l)) a))
       (take (length b - pre - suf - (bn + l)) (drop (pre + (bn + l)) b)) ops2"
  shows "edit_script a b (eq_run 0 0 pre @ map (shift_op (int pre) (int pre)) ops1 @
     eq_run (pre + bo) (pre + bn) l @ map (shift_op (int (pre + (bo + l))) (int (pre + (bn + l)))) ops2 @
     eq_run (length a - suf) (length b - suf) suf)"
proof -
  have r: "bo + l \<le> length a - pre - suf" "bn + l \<le> length b - pre - suf"
    "\<And>t. t < l \<Longrightarrow> a ! (pre + bo + t) = b ! (pre + bn + t)"
    using bl nz by (auto simp: block_ok_def bo bn bl')
  have tt: "pre + suf \<le> length a" "pre + suf \<le> length b" using t by (auto simp: trimmed_def)
  have s1: "script_from a b (int pre) (int pre) (map (shift_op (int pre) (int pre)) ops1)
      (int (pre + bo)) (int (pre + bn))"
    using edit_script_shift[OF before] r tt by simp
  have s2: "script_from a b (int (pre + bo)) (int (pre + bn)) (eq_run (pre + bo) (pre + bn) l)
      (int (pre + (bo + l))) (int (pre + (bn + l)))"
    using script_eq_run_block[of l a "pre + bo" b "pre + bn"] r tt by (simp add: add.assoc)
  have e: "pre + (bo + l) + (length a - pre - suf - (bo + l)) = length a - suf"
    "pre + (bn + l) + (length b - pre - suf - (bn + l)) = length b - suf"
    using r tt by linarith+
  have s3: "script_from a b (int (pre + (bo + l))) (int (pre + (bn + l)))
      (map (shift_op (int (pre + (bo + l))) (int (pre + (bn + l)))) ops2)
      (int (length a - suf)) (int (length b - suf))"
    using edit_script_shift[OF after, unfolded e] r tt by simp
  have "script_from a b (int pre) (int pre) (map (shift_op (int pre) (int pre)) ops1 @
     eq_run (pre + bo) (pre + bn) l @ map (shift_op (int (pre + (bo + l))) (int (pre + (bn + l)))) ops2)
      (int (length a - suf)) (int (length b - suf))"
    using s1 s2 s3 by blast
  from sandwich[OF t this] show ?thesis by simp
qed

lemma histogram_impl_script: "edit_script a b (histogram_impl a b depth)"
proof (induction a b depth rule: histogram_impl.induct)
  case (1 a b depth)
  let ?n = "length a" and ?m = "length b"
  let ?pre = "prefix_len a b 0"
  let ?suf = "suffix_len a b ?pre 0"
  let ?io = "?n - ?pre - ?suf" and ?in = "?m - ?pre - ?suf"
  let ?best = "find_block a b ?pre ?io ?in"
  have t: "trimmed a b ?pre ?suf" by (rule trimmed_loops)
  have ok: "block_ok a b ?pre ?io ?in ?best"
    by (rule find_block_ok) (use t in \<open>auto simp: trimmed_def\<close>)
  have emp: "edit_script [] [] []" by (simp add: edit_script_def)
  consider "a = []" | "a \<noteq> []" "b = []" | "a \<noteq> []" "b \<noteq> []" "?io = 0 \<and> ?in = 0"
    | "a \<noteq> []" "b \<noteq> []" "\<not> (?io = 0 \<and> ?in = 0)" "depth \<ge> MAX_RECURSION \<or> best_len ?best = 0"
    | "a \<noteq> []" "b \<noteq> []" "\<not> (?io = 0 \<and> ?in = 0)" "\<not> depth \<ge> MAX_RECURSION" "best_len ?best \<noteq> 0"
    by blast
  then show ?case
  proof cases
    case 1
    then show ?thesis using edit_script_all_ins[of b]
      by (subst histogram_impl.simps) (auto simp: edit_script_def Let_def)
  next
    case 2
    then show ?thesis using edit_script_all_del[of a] by (subst histogram_impl.simps) simp
  next
    case 3
    with all_equal_script[OF t] show ?thesis
      by (subst histogram_impl.simps) (simp add: Let_def)
  next
    case 4
    have c: "\<not> (length a = 0 \<and> length b = 0)" "length a \<noteq> 0" "length b \<noteq> 0" using 4 by auto
    have "histogram_impl a b depth =
        assemble a b ?pre ?suf (myers_diff Minimal (interior a ?pre ?suf) (interior b ?pre ?suf))"
      using 4(1-3) c 4(4)
      by (cases "depth \<ge> MAX_RECURSION"; subst histogram_impl.simps)
        (simp_all only: Let_def if_True if_False simp_thms)
    with myers.engine_assemble[OF t, of Minimal] show ?thesis by simp
  next
    case 5
    let ?bo = "nat (best_old_start ?best)" and ?bn = "nat (best_new_start ?best)" and ?bl = "best_len ?best"
    let ?a1 = "take ?bo (drop ?pre a)" and ?b1 = "take ?bn (drop ?pre b)"
    let ?a2 = "take (?io - (?bo + ?bl)) (drop (?pre + (?bo + ?bl)) a)"
    let ?b2 = "take (?in - (?bn + ?bl)) (drop (?pre + (?bn + ?bl)) b)"
    define ops1 where "ops1 = (if ?bo > 0 \<or> ?bn > 0 then histogram_impl ?a1 ?b1 (depth + 1) else [])"
    define ops2 where "ops2 = (if ?io - (?bo + ?bl) > 0 \<or> ?in - (?bn + ?bl) > 0
       then histogram_impl ?a2 ?b2 (depth + 1) else [])"
    have c: "\<not> (length a = 0 \<and> length b = 0)" "length a \<noteq> 0" "length b \<noteq> 0" using 5 by auto
    have eq: "histogram_impl a b depth = eq_run 0 0 ?pre @ map (shift_op (int ?pre) (int ?pre)) ops1 @
       eq_run (?pre + ?bo) (?pre + ?bn) ?bl @
       map (shift_op (int (?pre + (?bo + ?bl))) (int (?pre + (?bn + ?bl)))) ops2 @
       eq_run (?n - ?suf) (?m - ?suf) ?suf"
      unfolding ops1_def ops2_def using 5 c
      by (subst histogram_impl.simps) (simp only: Let_def if_False simp_thms map_append list.map if_distrib[of "map _"])
    have i1: "edit_script ?a1 ?b1 ops1"
      unfolding ops1_def
      using "1.IH"(1)[OF refl refl c refl refl refl refl 5(3,4) refl 5(5) refl refl refl] emp by auto
    have i2: "edit_script ?a2 ?b2 ops2"
      unfolding ops2_def
      using "1.IH"(2)[OF refl refl c refl refl refl refl 5(3,4) refl 5(5) refl refl refl _ refl refl refl refl] emp by auto
    show ?thesis unfolding eq
      by (rule block_script[OF t ok 5(5) refl refl refl i1 i2])
  qed
qed

lemma histogram_diff_script: "edit_script a b (histogram_diff a b)"
  unfolding histogram_diff_def by (rule histogram_impl_script)

interpretation histogram: diff_engine histogram_diff
  by unfold_locales (rule histogram_diff_script)

end
