(* ===== verification/Builtin_Diff.thy ===== *)
theory Builtin_Diff
  imports Diff_Format File_Store Histogram_Diff
begin

text \<open>
  The diff command of \<open>src/src/quilt.cpp\<close>: the choice of the engine, the treatment of a
  final line whose newline differs, and \<open>builtin_diff\<close> itself. The locale
  \<open>exact_engine\<close> adds to the contract of an engine that equal files give no change:
  with it the exit code tells equal files from different ones.
\<close>

section \<open>Model\<close>

datatype diff_format = Unified | Context

definition parse_diff_algorithm :: "string \<Rightarrow> diff_algorithm option" where
  "parse_diff_algorithm name =
     (if name = ''myers'' then Some Myers
      else if name = ''minimal'' then Some Minimal
      else if name = ''patience'' then Some Patience
      else if name = ''histogram'' then Some Histogram
      else None)"

definition run_engine :: "diff_algorithm \<Rightarrow> lines \<Rightarrow> lines \<Rightarrow> edit_op list" where
  "run_engine alg a b =
     (if alg = Patience then patience_diff a b
      else if alg = Histogram then histogram_diff a b
      else myers_diff alg a b)"

text \<open>The loop from the end that splits the last kept line when it is the last line of both
  files.\<close>

definition split_last_equal :: "lines \<Rightarrow> lines \<Rightarrow> edit_op list \<Rightarrow> edit_op list" where
  "split_last_equal a b ops =
     (case dropWhile (\<lambda>p. ty p \<noteq> OpE) (rev ops) of
        [] \<Rightarrow> ops
      | p # ps \<Rightarrow>
          if old_idx p = int (length a) - 1 \<and> new_idx p = int (length b) - 1
          then rev ps @ [del_op (old_idx p), ins_op (new_idx p)] @
               rev (takeWhile (\<lambda>p. ty p \<noteq> OpE) (rev ops))
          else ops)"

definition diff_input :: "'w platform \<Rightarrow> string \<Rightarrow> 'w io \<Rightarrow> string" where
  "diff_input P path s =
     (let is_null = (path = ''/dev/null'' \<or> path = [])
      in if \<not> is_null \<and> fs_exists P path s then fs_read P path s else [])"

definition diff_texts ::
  "string \<Rightarrow> string \<Rightarrow> int \<Rightarrow> string \<Rightarrow> string \<Rightarrow> diff_format \<Rightarrow> diff_algorithm \<Rightarrow> int \<times> string" where
  "diff_texts old_content new_content context_lines old_lbl new_lbl format algorithm =
     (let old_fl = split_file_lines old_content;
          new_fl = split_file_lines new_content;
          a = fl_lines old_fl;
          b = fl_lines new_fl;
          nl_differs = (a \<noteq> [] \<and> fl_trailing_nl old_fl \<noteq> fl_trailing_nl new_fl);
          ops = run_engine algorithm a b;
          has_diff = ((\<exists>p \<in> set ops. ty p \<noteq> OpE) \<or> nl_differs)
      in if \<not> has_diff then (0, [])
         else
           let ops = (if nl_differs then split_last_equal a b ops else ops);
               hunks = build_hunks ops context_lines;
               fmt = (if format = Context then format_context else format_unified)
           in (1, fmt a b (fl_trailing_nl old_fl) (fl_trailing_nl new_fl) hunks old_lbl new_lbl))"

definition builtin_diff ::
  "'w platform \<Rightarrow> string \<Rightarrow> string \<Rightarrow> int \<Rightarrow> string \<Rightarrow> string \<Rightarrow> diff_format \<Rightarrow> diff_algorithm \<Rightarrow>
   'w io \<Rightarrow> int \<times> string" where
  "builtin_diff P old_path new_path context_lines old_label new_label format algorithm s =
     (let old_lbl = (if old_label = [] then old_path else old_label);
          new_lbl = (if new_label = [] then new_path else new_label)
      in diff_texts (diff_input P old_path s) (diff_input P new_path s) context_lines
           old_lbl new_lbl format algorithm)"

section \<open>Equal files\<close>

locale exact_engine = diff_engine +
  assumes engine_same: "p \<in> set (engine a a) \<Longrightarrow> ty p = OpE"
begin

lemma engine_change_iff: "(\<exists>p \<in> set (engine a b). ty p \<noteq> OpE) \<longleftrightarrow> a \<noteq> b"
  using engine_finds_change engine_same by blast

lemma engine_quiet_iff: "(\<forall>p \<in> set (engine a b). ty p = OpE) \<longleftrightarrow> a = b"
  using engine_change_iff by blast

end

lemma eq_run_type: "p \<in> set (eq_run i j k) \<Longrightarrow> ty p = OpE"
  by (auto simp: eq_run_def)

lemma edits_eq_run [simp]: "edits (eq_run i j k) = 0"
  by (auto simp: edits_def eq_run_def)

lemma edits_zero: "edits ps = 0 \<longleftrightarrow> (\<forall>p \<in> set ps. ty p = OpE)"
  by (induction ps) auto

lemma prefix_len_same: "p \<le> length a \<Longrightarrow> prefix_len a a p = length a"
proof (induction "length a - p" arbitrary: p)
  case 0
  then show ?case by (subst prefix_len.simps) simp
next
  case (Suc n)
  then show ?case by (subst prefix_len.simps) auto
qed

lemma suffix_len_none: "suffix_len a b (length a) 0 = 0"
  by (subst suffix_len.simps) simp

lemma snake_same: "0 \<le> x \<Longrightarrow> x \<le> int (length a) \<Longrightarrow> snake a a x x = (int (length a), int (length a))"
proof (induction "nat (int (length a) - x)" arbitrary: x)
  case 0
  then show ?case by (subst snake.simps) simp
next
  case (Suc n)
  then show ?case by (subst snake.simps) auto
qed

lemma myers_start_same:
  assumes "a \<noteq> []"
  shows "\<exists>T. myers_start alg a a = Found 0 T"
proof -
  define md where "md = int (length a) + int (length a)"
  have "1 \<le> md" using assms by (cases a) (auto simp: md_def)
  then have v: "vget (init_vec md) md 1 = 0" by (rule init_vec_at_1)
  have "myers_round a a md 0 0 (init_vec md) = None"
    by (subst myers_round.simps) (simp add: came_down_def v snake_same)
  then show ?thesis
    using \<open>1 \<le> md\<close> unfolding myers_start_def Let_def md_def[symmetric]
    by (subst myers_search.simps) simp
qed

lemma myers_diff_same: "p \<in> set (myers_diff alg a a) \<Longrightarrow> ty p = OpE"
proof (cases "a = []")
  case True
  then show "p \<in> set (myers_diff alg a a) \<Longrightarrow> ty p = OpE"
    by (subst (asm) myers_diff.simps) simp
next
  case False
  then obtain T where T: "myers_start alg a a = Found 0 T" using myers_start_same by blast
  have "edit_script a a (eq_run 0 0 (length a))"
    using script_eq_run_block[of "length a" a 0 a 0] by (simp add: edit_script_def)
  from found_script(3)[OF T False False this] T False have "edits (myers_diff alg a a) = 0"
    by (subst myers_diff.simps) (simp add: Let_def)
  then show "p \<in> set (myers_diff alg a a) \<Longrightarrow> ty p = OpE" by (simp add: edits_zero)
qed

lemma histogram_diff_same: "p \<in> set (histogram_diff a a) \<Longrightarrow> ty p = OpE"
  unfolding histogram_diff_def
  by (subst (asm) histogram_impl.simps)
    (auto simp: prefix_len_same suffix_len_none Let_def eq_run_type split: if_splits)

lemma patience_diff_same: "p \<in> set (patience_diff a a) \<Longrightarrow> ty p = OpE"
  by (auto simp: patience_diff_def prefix_len_same suffix_len_none Let_def eq_run_type interior_def
      split: if_splits)

interpretation chosen: exact_engine "run_engine alg"
  by unfold_locales
    (auto simp: run_engine_def myers_diff_script patience_diff_script histogram_diff_script
      dest: myers_diff_same patience_diff_same histogram_diff_same split: if_splits)

section \<open>The split of the last line\<close>

lemma split_last_equal_script:
  assumes "edit_script a b ops"
  shows "edit_script a b (split_last_equal a b ops)"
proof (cases "dropWhile (\<lambda>p. ty p \<noteq> OpE) (rev ops)")
  case Nil
  with assms show ?thesis unfolding split_last_equal_def Nil by simp
next
  case (Cons p ps)
  let ?t = "takeWhile (\<lambda>p. ty p \<noteq> OpE) (rev ops)"
  have E: "ty p = OpE" using hd_dropWhile[of "\<lambda>p. ty p \<noteq> OpE" "rev ops"] Cons by simp
  have "rev ops = ?t @ p # ps" using Cons by (metis takeWhile_dropWhile_id)
  then have "rev (rev ops) = rev (?t @ p # ps)" by (rule arg_cong)
  then have ops: "ops = rev ps @ [p] @ rev ?t" by simp
  have "script_from a b 0 0 (rev ps @ [p] @ rev ?t) (int (length a)) (int (length b))"
    using assms ops unfolding edit_script_def by metis
  then obtain k l k' l' where s: "script_from a b 0 0 (rev ps) k l" "script_from a b k l [p] k' l'"
    "script_from a b k' l' (rev ?t) (int (length a)) (int (length b))"
    unfolding script_from_append by blast
  from s(2) E have p: "p = eq_op k l" "k' = k + 1" "l' = l + 1" "0 \<le> k" "k < int (length a)"
    "0 \<le> l" "l < int (length b)" by auto
  then have "script_from a b k l [del_op k, ins_op l] k' l'" by simp
  with s(1,3) have "script_from a b 0 0 (rev ps @ [del_op k, ins_op l] @ rev ?t)
      (int (length a)) (int (length b))" by blast
  then show ?thesis
    using Cons p(1) assms by (auto simp: split_last_equal_def edit_script_def)
qed

section \<open>The exit code\<close>

lemma split_file_lines_inj:
  assumes "fl_lines (split_file_lines s) = fl_lines (split_file_lines t)"
    "fl_trailing_nl (split_file_lines s) = fl_trailing_nl (split_file_lines t)"
  shows "s = t"
proof -
  have "join_lines (fl_lines (split_file_lines t)) (fl_trailing_nl (split_file_lines t)) = s"
    by (simp only: assms[symmetric] join_split_file_lines)
  then show ?thesis by (simp only: join_split_file_lines)
qed

lemma split_file_lines_empty: "fl_lines (split_file_lines s) = [] \<longleftrightarrow> s = []"
  using split_loop_nonempty[of "[]" s] by (auto simp: split_file_lines_def)

lemma diff_texts_exit:
  "fst (diff_texts s t c ol nl' f alg) = (if s = t then 0 else 1)"
proof -
  have "(fl_lines (split_file_lines s) \<noteq> fl_lines (split_file_lines t) \<or>
      fl_lines (split_file_lines s) \<noteq> [] \<and>
      fl_trailing_nl (split_file_lines s) \<noteq> fl_trailing_nl (split_file_lines t)) \<longleftrightarrow> s \<noteq> t"
    using split_file_lines_inj[of s t] split_file_lines_empty[of s] split_file_lines_empty[of t] by auto
  then show ?thesis
    by (cases "s = t") (auto simp: diff_texts_def Let_def chosen.engine_change_iff chosen.engine_quiet_iff)
qed

end
