(* ===== verification/Diff_Reparse.thy ===== *)
theory Diff_Reparse
  imports Patch_Chain Builtin_Diff
begin

text \<open>
  The unified format is a language both engines speak: what \<open>format_unified\<close> prints,
  \<open>parse_patch\<close> reads back, forwards and reversed. The printed diff is described line by
  line (\<open>op_lines\<close>), the parsed hunk operation by operation (\<open>parsed_op\<close>); the flags
  for a missing final newline are set exactly by the printed markers.
\<close>

section \<open>The printed lines\<close>

definition differing_end :: "lines \<Rightarrow> lines \<Rightarrow> bool \<Rightarrow> bool \<Rightarrow> edit_op \<Rightarrow> bool" where
  "differing_end a b old_nl new_nl p \<longleftrightarrow>
     (old_idx p = int (length a) - 1 \<and> \<not> old_nl) \<noteq> (new_idx p = int (length b) - 1 \<and> \<not> new_nl)"

definition minus_mark :: "lines \<Rightarrow> lines \<Rightarrow> bool \<Rightarrow> bool \<Rightarrow> edit_op \<Rightarrow> bool" where
  "minus_mark a b old_nl new_nl p \<longleftrightarrow> (case ty p of
       OpE \<Rightarrow> if differing_end a b old_nl new_nl p then \<not> old_nl
              else old_idx p = int (length a) - 1 \<and> \<not> old_nl
     | OpD \<Rightarrow> old_idx p = int (length a) - 1 \<and> \<not> old_nl
     | OpI \<Rightarrow> False)"

definition plus_mark :: "lines \<Rightarrow> lines \<Rightarrow> bool \<Rightarrow> bool \<Rightarrow> edit_op \<Rightarrow> bool" where
  "plus_mark a b old_nl new_nl p \<longleftrightarrow> (case ty p of
       OpE \<Rightarrow> if differing_end a b old_nl new_nl p then \<not> new_nl
              else new_idx p = int (length b) - 1 \<and> \<not> new_nl
     | OpD \<Rightarrow> False
     | OpI \<Rightarrow> new_idx p = int (length b) - 1 \<and> \<not> new_nl)"

definition mark_lines :: "bool \<Rightarrow> lines" where
  "mark_lines m = (if m then [no_newline_text] else [])"

definition op_lines :: "lines \<Rightarrow> lines \<Rightarrow> bool \<Rightarrow> bool \<Rightarrow> edit_op \<Rightarrow> lines" where
  "op_lines a b old_nl new_nl p =
     (let minus = [CHR ''-'' # a ! nat (old_idx p)] @ mark_lines (minus_mark a b old_nl new_nl p);
          plus = [CHR ''+'' # b ! nat (new_idx p)] @ mark_lines (plus_mark a b old_nl new_nl p)
      in case ty p of
           OpE \<Rightarrow> if differing_end a b old_nl new_nl p then minus @ plus
                  else [spc # a ! nat (old_idx p)] @ mark_lines (minus_mark a b old_nl new_nl p)
         | OpD \<Rightarrow> minus
         | OpI \<Rightarrow> plus)"

lemma unified_op_lines: "unified_op a b old_nl new_nl p = unlines (op_lines a b old_nl new_nl p)"
  by (cases "ty p")
    (auto simp: unified_op_def op_lines_def mark_lines_def minus_mark_def plus_mark_def differing_end_def
      no_newline_mark_def Let_def)

definition range_str :: "int \<Rightarrow> int \<Rightarrow> string" where
  "range_str s c = (if c = 1 then int_str s else int_str s @ CHR '','' # int_str c)"

lemma unified_header_ranges:
  "unified_header h = ''@@ -'' @ range_str (h_old_start h) (h_old_count h) @ '' +'' @
     range_str (h_new_start h) (h_new_count h) @ '' @@''"
  by (simp add: unified_header_def range_str_def)

definition hunk_lines :: "lines \<Rightarrow> lines \<Rightarrow> bool \<Rightarrow> bool \<Rightarrow> hunk \<Rightarrow> lines" where
  "hunk_lines a b old_nl new_nl h =
     unified_header h # concat (map (op_lines a b old_nl new_nl) (h_ops h))"

lemma unlines_concat: "unlines (concat lss) = concat (map unlines lss)"
  by (induction lss) simp_all

lemma format_unified_lines:
  "format_unified a b old_nl new_nl hs ol nl' =
     unlines ((''--- '' @ ol) # (''+++ '' @ nl') # concat (map (hunk_lines a b old_nl new_nl) hs))"
proof -
  have "unified_op a b old_nl new_nl = (\<lambda>p. unlines (op_lines a b old_nl new_nl p))"
    by (simp add: fun_eq_iff unified_op_lines)
  then show ?thesis by (simp add: format_unified_def hunk_lines_def unlines_concat o_def)
qed

section \<open>Hunk headers\<close>

lemma takeWhile_neq_skip: "c \<notin> set u \<Longrightarrow> takeWhile (\<lambda>x. x \<noteq> c) (u @ r) = u @ takeWhile (\<lambda>x. x \<noteq> c) r"
  by (induction u) auto

lemma str_find_skip:
  "c \<notin> set u \<Longrightarrow> str_find (u @ r) c 0 = (if str_find r c 0 < 0 then - 1 else int (length u) + str_find r c 0)"
  by (auto simp: str_find_def find_from_def takeWhile_neq_skip)

lemma str_find_after:
  "n = int (length u) \<Longrightarrow> str_find (u @ s) c n = (if str_find s c 0 < 0 then - 1 else n + str_find s c 0)"
  using str_find_shift[of 0 u s c] by simp

lemma int_str_digits: "0 \<le> i \<Longrightarrow> c \<in> set (int_str i) \<Longrightarrow> is_digit c"
  by (auto simp: int_str_def nat_str_digits)

lemma int_str_no_char:
  assumes "0 \<le> i" "\<not> is_digit c" shows "c \<notin> set (int_str i)"
  using int_str_digits assms by blast

lemma not_digits [simp]:
  "\<not> is_digit (CHR '','')" "\<not> is_digit spc" "\<not> is_digit (CHR ''+'')" "\<not> is_digit nl" "\<not> is_digit (CHR ''@'')"
  "\<not> is_digit cr"
  by (simp_all add: is_digit_def char_in_def)

lemma range_str_no_char:
  "0 \<le> s \<Longrightarrow> 0 \<le> c \<Longrightarrow> \<not> is_digit ch \<Longrightarrow> ch \<noteq> CHR '','' \<Longrightarrow> ch \<notin> set (range_str s c)"
  by (simp add: range_str_def int_str_no_char)

lemma range_str_nonempty [simp]: "range_str s c \<noteq> []"
  by (simp add: range_str_def)

definition ranged :: "int \<Rightarrow> bool" where
  "ranged i \<longleftrightarrow> 0 \<le> i \<and> i \<le> PTRDIFF_MAX"

lemma parse_ranged: "ranged i \<Longrightarrow> parse_int (int_str i) = i"
  by (rule parse_int_int_str) (auto simp: ranged_def PTRDIFF_MAX_def)

lemma substr_mid: "pos = int (length u) \<Longrightarrow> n = int (length v) \<Longrightarrow> substr (u @ v @ w) pos n = v"
  by (simp add: substr_def)

lemma parse_old_range_printed:
  assumes "ranged s" "ranged c"
  shows "parse_old_range (''@@ -'' @ range_str s c @ '' +'' @ r) =
    Some (s, c, 4 + int (length (range_str s c)) + 1)"
proof -
  define hdr where "hdr = ''@@ -'' @ range_str s c @ '' +'' @ r"
  define n where "n = int (length (range_str s c))"
  let ?t = "range_str s c @ '' +'' @ r"
  have at4: "str_find hdr ch 4 = (if str_find ?t ch 0 < 0 then - 1 else 4 + str_find ?t ch 0)" for ch
    unfolding hdr_def by (rule str_find_after) simp
  have nn: "0 \<le> s" "0 \<le> c" using assms by (simp_all add: ranged_def)
  have minus: "str_find hdr (CHR ''-'') 3 = 3" by (simp add: hdr_def str_find_def find_from_def)
  have plus: "str_find hdr (CHR ''+'') 4 = 4 + n + 1"
    using str_find_hit[of "CHR ''+''" "range_str s c @ '' ''" r] range_str_no_char[OF nn, of "CHR ''+''"]
    by (simp add: at4 n_def)
  have space: "str_find hdr spc 4 = 4 + n"
    using str_find_hit[of spc "range_str s c" "CHR ''+'' # r"] range_str_no_char[OF nn, of spc]
    by (simp add: at4 n_def)
  have n: "0 \<le> n" by (simp add: n_def)
  have "parse_old_range hdr = Some (s, c, 4 + n + 1)"
  proof (cases "c = 1")
    case True
    have "CHR '','' \<notin> set (range_str s c @ '' +'')" using True nn by (simp add: range_str_def int_str_no_char)
    from str_find_skip[OF this, of r] have "str_find hdr (CHR '','') 4 < 0 \<or> str_find hdr (CHR '','') 4 > 4 + n + 1"
      by (simp add: at4 n_def split: if_splits)
    moreover have "substr hdr 4 n = int_str s" using True by (simp add: hdr_def n_def substr_def range_str_def)
    ultimately show ?thesis
      using True parse_ranged[OF assms(1)] n
      by (auto simp: parse_old_range_def minus plus space)
  next
    case False
    define k m where km: "k = int (length (int_str s))" "m = int (length (int_str c))"
    have len: "range_str s c = int_str s @ CHR '','' # int_str c" using False by (simp add: range_str_def)
    have comma: "str_find hdr (CHR '','') 4 = 4 + k"
      using str_find_hit[of "CHR '',''" "int_str s" "int_str c @ '' +'' @ r"] nn
      by (simp add: at4 len km int_str_no_char)
    have "substr hdr 4 k = int_str s" by (simp add: hdr_def km len substr_def)
    moreover have "substr hdr (5 + k) m = int_str c"
      using substr_mid[of "5 + k" "''@@ -'' @ int_str s @ '',''" m "int_str c" "'' +'' @ r"]
      by (simp add: hdr_def km len)
    moreover
    have "n = k + 1 + m" "0 < m" "0 \<le> k" by (simp_all add: n_def km len)
    ultimately show ?thesis
      using parse_ranged[OF assms(1)] parse_ranged[OF assms(2)]
      by (simp add: parse_old_range_def minus plus comma space algebra_simps)
  qed
  then show ?thesis by (simp add: hdr_def n_def)
qed

lemma parse_new_range_printed:
  assumes "ranged s" "ranged c" "p + 1 = int (length u)"
  shows "parse_new_range (u @ range_str s c @ '' @@'') p = Some (s, c)"
proof -
  define hdr where "hdr = u @ range_str s c @ '' @@''"
  define n where "n = int (length (range_str s c))"
  let ?t = "range_str s c @ '' @@''"
  have at: "str_find hdr ch (p + 1) = (if str_find ?t ch 0 < 0 then - 1 else p + 1 + str_find ?t ch 0)" for ch
    unfolding hdr_def by (rule str_find_after) (rule assms(3))
  have nn: "0 \<le> s" "0 \<le> c" using assms by (simp_all add: ranged_def)
  have p: "p = int (length u) - 1" "0 \<le> p + 1" using assms(3) by simp_all
  have space: "str_find hdr spc (p + 1) = p + 1 + n"
    using str_find_hit[of spc "range_str s c" "''@@''"] range_str_no_char[OF nn, of spc] by (simp add: at n_def)
  have n: "0 < n" by (simp add: n_def)
  have "parse_new_range hdr p = Some (s, c)"
  proof (cases "c = 1")
    case True
    then have "str_find ?t (CHR '','') 0 = - 1"
      using nn by (intro str_find_miss) (simp add: range_str_def int_str_no_char)
    then have "str_find hdr (CHR '','') (p + 1) = - 1" by (simp add: at)
    moreover have "substr hdr (p + 1) n = int_str s" using True p(1) by (simp add: hdr_def n_def range_str_def substr_def)
    ultimately show ?thesis
      using True parse_ranged[OF assms(1)] n p(2) by (simp add: parse_new_range_def space Let_def)
  next
    case False
    define k m where km: "k = int (length (int_str s))" "m = int (length (int_str c))"
    have len: "range_str s c = int_str s @ CHR '','' # int_str c" using False by (simp add: range_str_def)
    have comma: "str_find hdr (CHR '','') (p + 1) = p + 1 + k"
      using str_find_hit[of "CHR '',''" "int_str s" "int_str c @ '' @@''"] nn
      by (simp add: at len km int_str_no_char)
    have sub: "substr hdr (p + 1) k = int_str s" "substr hdr (p + 1 + k + 1) m = int_str c"
      by (simp_all add: hdr_def km len p(1) substr_def nat_add_distrib)
    have "n = k + 1 + m" "0 < m" "0 \<le> k" by (simp_all add: n_def km len)
    then show ?thesis
      using parse_ranged[OF assms(1)] parse_ranged[OF assms(2)] sub p(2)
      by (simp add: parse_new_range_def comma space Let_def)
  qed
  then show ?thesis by (simp add: hdr_def)
qed

definition header_ok :: "hunk \<Rightarrow> bool" where
  "header_ok h \<longleftrightarrow> ranged (h_old_start h) \<and> ranged (h_old_count h) \<and>
     ranged (h_new_start h) \<and> ranged (h_new_count h)"

definition empty_hunk :: "bool \<Rightarrow> hunk \<Rightarrow> patch_hunk" where
  "empty_hunk rv h =
     \<lparr>p_old_start = (if rv then h_new_start h else h_old_start h),
      p_old_count = (if rv then h_new_count h else h_old_count h),
      p_new_start = (if rv then h_old_start h else h_new_start h),
      p_new_count = (if rv then h_old_count h else h_new_count h),
      p_lines = [], p_old_no_newline = False, p_new_no_newline = False\<rparr>"

lemma parse_header_printed:
  assumes "header_ok h"
  shows "parse_hunk_header rv (unified_header h) = Some (empty_hunk rv h)"
proof -
  let ?o = "range_str (h_old_start h) (h_old_count h)" and ?n = "range_str (h_new_start h) (h_new_count h)"
  have "unified_header h = ''@@ -'' @ ?o @ '' +'' @ ?n @ '' @@''" by (rule unified_header_ranges)
  moreover have "parse_new_range ((''@@ -'' @ ?o @ '' +'') @ ?n @ '' @@'') (4 + int (length ?o) + 1) =
      Some (h_new_start h, h_new_count h)"
    by (rule parse_new_range_printed) (use assms in \<open>simp_all add: header_ok_def\<close>)
  ultimately show ?thesis
    using assms parse_old_range_printed[of "h_old_start h" "h_old_count h" "?n @ '' @@''"]
    by (simp add: parse_hunk_header_def header_ok_def empty_hunk_def)
qed

section \<open>Hunk bodies\<close>

declare parse_body.simps(2) [simp del]

definition op_body :: "bool \<Rightarrow> lines \<Rightarrow> lines \<Rightarrow> bool \<Rightarrow> bool \<Rightarrow> edit_op \<Rightarrow> lines" where
  "op_body rv a b old_nl new_nl p =
     (let minus = swap_prefix rv (CHR ''-'') # a ! nat (old_idx p);
          plus = swap_prefix rv (CHR ''+'') # b ! nat (new_idx p)
      in case ty p of
           OpE \<Rightarrow> if differing_end a b old_nl new_nl p then [minus, plus] else [spc # a ! nat (old_idx p)]
         | OpD \<Rightarrow> [minus]
         | OpI \<Rightarrow> [plus])"

definition parsed_op ::
  "bool \<Rightarrow> lines \<Rightarrow> lines \<Rightarrow> bool \<Rightarrow> bool \<Rightarrow> edit_op \<Rightarrow> patch_hunk \<Rightarrow> patch_hunk" where
  "parsed_op rv a b old_nl new_nl p h =
     h\<lparr>p_lines := p_lines h @ op_body rv a b old_nl new_nl p,
       p_old_no_newline := (p_old_no_newline h \<or>
         (if rv then plus_mark a b old_nl new_nl p else minus_mark a b old_nl new_nl p)),
       p_new_no_newline := (p_new_no_newline h \<or>
         (if rv then minus_mark a b old_nl new_nl p else plus_mark a b old_nl new_nl p))\<rparr>"

definition old_step :: "bool \<Rightarrow> edit_op \<Rightarrow> int" where
  "old_step rv p = (if ty p = (if rv then OpD else OpI) then 0 else 1)"

definition new_step :: "bool \<Rightarrow> edit_op \<Rightarrow> int" where
  "new_step rv p = (if ty p = (if rv then OpI else OpD) then 0 else 1)"

lemma swap_prefix_simps [simp]:
  "swap_prefix rv (CHR ''-'') = (if rv then CHR ''+'' else CHR ''-'')"
  "swap_prefix rv (CHR ''+'') = (if rv then CHR ''-'' else CHR ''+'')"
  "swap_prefix rv spc = spc"
  by (simp_all add: swap_prefix_def)

lemma not_mark_line [simp]:
  "\<not> is_no_newline_line (CHR ''-'' # t)" "\<not> is_no_newline_line (CHR ''+'' # t)"
  "\<not> is_no_newline_line (spc # t)" "\<not> is_no_newline_line (CHR ''@'' # t)"
  by (simp_all add: is_no_newline_line_def starts_with_def)

lemma mark_line [simp]: "is_no_newline_line no_newline_text"
  by (simp add: is_no_newline_line_def starts_with_def no_newline_text_def)

lemma mark_add_line [simp]:
  "mark_no_newline (add_line (c # t) h) =
     (add_line (c # t) h)
       \<lparr>p_old_no_newline := (p_old_no_newline h \<or> c \<noteq> CHR ''+''),
        p_new_no_newline := (p_new_no_newline h \<or> c \<noteq> CHR ''-'')\<rparr>"
  by (simp add: mark_no_newline_def add_line_def)

lemma parse_body_line:
  assumes "c = CHR ''-'' \<or> c = CHR ''+''" "swap_prefix rv c = CHR ''-'' \<Longrightarrow> os < p_old_count h"
    "swap_prefix rv c = CHR ''+'' \<Longrightarrow> ns < p_new_count h"
  shows "parse_body rv h os ns ((c # t) # rest) =
    parse_body rv (add_line (swap_prefix rv c # t) h)
      (if swap_prefix rv c = CHR ''-'' then os + 1 else os)
      (if swap_prefix rv c = CHR ''-'' then ns else ns + 1) rest"
  using assms by (auto simp: parse_body.simps(2) body_step_def Let_def split: if_splits)

lemma parse_body_space:
  assumes "os < p_old_count h \<or> ns < p_new_count h"
  shows "parse_body rv h os ns ((spc # t) # rest) = parse_body rv (add_line (spc # t) h) (os + 1) (ns + 1) rest"
  using assms by (auto simp: parse_body.simps(2) body_step_def Let_def)

lemma parse_body_marks:
  "parse_body rv h os ns (mark_lines m @ rest) =
     parse_body rv (if m then mark_no_newline h else h) os ns rest"
  by (simp add: parse_body.simps(2) mark_lines_def body_step_def)

lemma parse_body_marked:
  assumes "c = CHR ''-'' \<or> c = CHR ''+''" "swap_prefix rv c = CHR ''-'' \<Longrightarrow> os < p_old_count h"
    "swap_prefix rv c = CHR ''+'' \<Longrightarrow> ns < p_new_count h"
  shows "parse_body rv h os ns ((c # t) # mark_lines m @ rest) =
    parse_body rv
      (h\<lparr>p_lines := p_lines h @ [swap_prefix rv c # t],
         p_old_no_newline := (p_old_no_newline h \<or> (m \<and> swap_prefix rv c = CHR ''-'')),
         p_new_no_newline := (p_new_no_newline h \<or> (m \<and> swap_prefix rv c = CHR ''+''))\<rparr>)
      (if swap_prefix rv c = CHR ''-'' then os + 1 else os)
      (if swap_prefix rv c = CHR ''-'' then ns else ns + 1) rest"
proof -
  have "swap_prefix rv c = CHR ''-'' \<or> swap_prefix rv c = CHR ''+''" using assms(1) by (cases rv) auto
  then have "(if m then mark_no_newline (add_line (swap_prefix rv c # t) h) else add_line (swap_prefix rv c # t) h) =
      h\<lparr>p_lines := p_lines h @ [swap_prefix rv c # t],
         p_old_no_newline := (p_old_no_newline h \<or> (m \<and> swap_prefix rv c = CHR ''-'')),
         p_new_no_newline := (p_new_no_newline h \<or> (m \<and> swap_prefix rv c = CHR ''+''))\<rparr>"
    by (cases m; elim disjE; simp; simp add: add_line_def)
  then show ?thesis by (simp only: parse_body_line[OF assms] parse_body_marks)
qed

lemma parse_body_op:
  assumes "ty p = OpE \<longrightarrow> a ! nat (old_idx p) = b ! nat (new_idx p)"
    "os + old_step rv p \<le> p_old_count h" "ns + new_step rv p \<le> p_new_count h"
  shows "parse_body rv h os ns (op_lines a b old_nl new_nl p @ rest) =
    parse_body rv (parsed_op rv a b old_nl new_nl p h) (os + old_step rv p) (ns + new_step rv p) rest"
proof -
  note defs = op_lines_def op_body_def parsed_op_def old_step_def new_step_def Let_def
  note minus = parse_body_marked[of "CHR ''-''"] and plus = parse_body_marked[of "CHR ''+''"]
  show ?thesis
  proof (cases "ty p")
    case OpE
    then have "os < p_old_count h" "ns < p_new_count h" using assms(2,3) by (cases rv; simp add: old_step_def new_step_def)+
    show ?thesis
    proof (cases "differing_end a b old_nl new_nl p")
      case True
      then show ?thesis
        using OpE \<open>os < _\<close> \<open>ns < _\<close> by (cases rv; simp add: defs minus; subst plus; simp)
    next
      case False
      then have "minus_mark a b old_nl new_nl p = plus_mark a b old_nl new_nl p"
        using OpE by (auto simp: minus_mark_def plus_mark_def differing_end_def)
      with OpE False \<open>os < _\<close> show ?thesis
        by (simp add: defs parse_body_space parse_body_marks) (simp add: add_line_def)
    qed
  next
    case OpD
    then have "\<not> plus_mark a b old_nl new_nl p" by (simp add: plus_mark_def)
    with OpD assms show ?thesis by (cases rv; simp add: defs; subst minus; simp)
  next
    case OpI
    then have "\<not> minus_mark a b old_nl new_nl p" by (simp add: minus_mark_def)
    with OpI assms show ?thesis by (cases rv; simp add: defs; subst plus; simp)
  qed
qed

lemma parsed_op_counts [simp]:
  "p_old_count (parsed_op rv a b on nn p h) = p_old_count h"
  "p_new_count (parsed_op rv a b on nn p h) = p_new_count h"
  "p_old_start (parsed_op rv a b on nn p h) = p_old_start h"
  "p_lines (parsed_op rv a b on nn p h) = p_lines h @ op_body rv a b on nn p"
  "p_new_no_newline (parsed_op rv a b on nn p h) \<longleftrightarrow> p_new_no_newline h \<or>
     (if rv then minus_mark a b on nn p else plus_mark a b on nn p)"
  by (simp_all add: parsed_op_def)

lemma parse_body_ops:
  assumes "script_from a b i j ops i' j'"
    "os + (if rv then j' - j else i' - i) \<le> p_old_count h" "ns + (if rv then i' - i else j' - j) \<le> p_new_count h"
  shows "\<exists>os' ns'. parse_body rv h os ns (concat (map (op_lines a b old_nl new_nl) ops) @ rest) =
    parse_body rv (fold (parsed_op rv a b old_nl new_nl) ops h) os' ns' rest"
  using assms
proof (induction ops arbitrary: i j h os ns)
  case (Cons p ps)
  obtain k l where kl: "script_from a b k l ps i' j'"
    "k - i = (if ty p = OpI then 0 else 1)" "l - j = (if ty p = OpD then 0 else 1)"
    "ty p = OpE \<longrightarrow> a ! nat (old_idx p) = b ! nat (new_idx p)"
    using Cons.prems(1) by (cases "ty p") auto
  have m: "k \<le> i'" "l \<le> j'" using script_from_mono[OF kl(1)] by auto
  have st: "old_step rv p = (if rv then l - j else k - i)" "new_step rv p = (if rv then k - i else l - j)"
    using kl(2,3) by (auto simp: old_step_def new_step_def)
  let ?h = "parsed_op rv a b old_nl new_nl p h"
  have b: "os + old_step rv p \<le> p_old_count h" "ns + new_step rv p \<le> p_new_count h"
    "os + old_step rv p + (if rv then j' - l else i' - k) \<le> p_old_count ?h"
    "ns + new_step rv p + (if rv then i' - k else j' - l) \<le> p_new_count ?h"
    using Cons.prems(2,3) m unfolding st by (auto split: if_splits)
  from Cons.IH[OF kl(1) b(3,4)] parse_body_op[OF kl(4) b(1,2)] show ?case
    by simp
qed auto

lemma parse_body_stop:
  "rest = [] \<or> (\<exists>t. hd rest = CHR ''@'' # t) \<Longrightarrow> parse_body rv h os ns rest = (h, rest)"
  by (cases rest) (auto simp: parse_body.simps(2) body_step_def)

text \<open>What the parser makes of a printed hunk.\<close>

definition parsed_hunk :: "bool \<Rightarrow> lines \<Rightarrow> lines \<Rightarrow> bool \<Rightarrow> bool \<Rightarrow> hunk \<Rightarrow> patch_hunk" where
  "parsed_hunk rv a b old_nl new_nl h = fold (parsed_op rv a b old_nl new_nl) (h_ops h) (empty_hunk rv h)"

lemma parse_hunks_printed:
  assumes "\<forall>h \<in> set hs. header_ok h \<and> (\<exists>i j i' j'. hunk_at a b i j h i' j')"
  shows "parse_hunks rv (concat (map (hunk_lines a b old_nl new_nl) hs)) acc =
    (acc @ map (parsed_hunk rv a b old_nl new_nl) hs, [])"
  using assms
proof (induction hs arbitrary: acc)
  case (Cons h hs)
  from Cons.prems obtain i j i' j' where h: "header_ok h" "hunk_at a b i j h i' j'" by auto
  let ?rest = "concat (map (hunk_lines a b old_nl new_nl) hs)"
  have cnt: "p_old_count (empty_hunk rv h) = (if rv then j' - j else i' - i)"
    "p_new_count (empty_hunk rv h) = (if rv then i' - i else j' - j)"
    using h(2) by (auto simp: hunk_at_def empty_hunk_def)
  have s: "script_from a b i j (h_ops h) i' j'" using h(2) by (simp add: hunk_at_def)
  have stop: "?rest = [] \<or> (\<exists>t. hd ?rest = CHR ''@'' # t)"
    by (cases hs) (auto simp: hunk_lines_def unified_header_ranges)
  have "parse_body rv (empty_hunk rv h) 0 0 (concat (map (op_lines a b old_nl new_nl) (h_ops h)) @ ?rest) =
      (parsed_hunk rv a b old_nl new_nl h, ?rest)"
    using parse_body_ops[OF s, of 0 rv "empty_hunk rv h" 0 old_nl new_nl ?rest]
    by (auto simp: cnt parse_body_stop[OF stop] parsed_hunk_def)
  moreover have "starts_with (unified_header h) ''@@ ''"
    by (simp add: unified_header_ranges starts_with_def)
  ultimately show ?case
    using Cons.IH[of "acc @ [parsed_hunk rv a b old_nl new_nl h]"] Cons.prems
    by (simp add: hunk_lines_def[of _ _ _ _ h] parse_header_printed[OF h(1)])
qed simp

end
