(* ===== verification/Diff_Roundtrip.thy ===== *)
theory Diff_Roundtrip
  imports Diff_Reparse
begin

text \<open>
  The diff engine and the patch engine are inverse to each other: the unified diff of two
  files, given to \<open>builtin_patch\<close>, turns the old file into the new one, and reversed the
  new one into the old one. The hunks of the diff become a \<open>patch_chain\<close> in both
  directions.
\<close>

section \<open>The sides of a parsed hunk\<close>

lemma fold_parsed_op:
  "p_lines (fold (parsed_op rv a b on nn) ops h) = p_lines h @ concat (map (op_body rv a b on nn) ops)"
  "p_old_start (fold (parsed_op rv a b on nn) ops h) = p_old_start h"
  "p_new_no_newline (fold (parsed_op rv a b on nn) ops h) \<longleftrightarrow> p_new_no_newline h \<or>
     (\<exists>p \<in> set ops. if rv then minus_mark a b on nn p else plus_mark a b on nn p)"
  by (induction ops arbitrary: h) auto

lemma get_old_pattern_append [simp]: "get_old_pattern (xs @ ys) = get_old_pattern xs @ get_old_pattern ys"
  by (induction xs) auto

lemma get_new_lines_append [simp]: "get_new_lines (xs @ ys) = get_new_lines xs @ get_new_lines ys"
  by (induction xs) auto

lemma op_sides:
  assumes "ty p = OpE \<longrightarrow> a ! nat (old_idx p) = b ! nat (new_idx p)"
  shows "map pl_text (get_old_pattern (op_body rv a b on nn p)) = (if rv then new_side b [p] else old_side a [p])"
    "get_new_lines (op_body rv a b on nn p) = (if rv then old_side a [p] else new_side b [p])"
  using assms by (cases "ty p"; cases rv; simp add: op_body_def old_side_def new_side_def Let_def)+

lemma script_equal:
  "script_from a b i j ops i' j' \<Longrightarrow> p \<in> set ops \<Longrightarrow> ty p = OpE \<longrightarrow> a ! nat (old_idx p) = b ! nat (new_idx p)"
proof (induction ops arbitrary: i j)
  case (Cons q ps)
  obtain k l where kl: "script_from a b k l ps i' j'" "ty q = OpE \<longrightarrow> a ! nat (old_idx q) = b ! nat (new_idx q)"
    using Cons.prems(1) by (cases "ty q") auto
  then show ?case using Cons.IH[OF kl(1)] Cons.prems(2) by auto
qed simp

lemma body_sides:
  assumes "script_from a b i j ops i' j'"
  shows "map pl_text (get_old_pattern (concat (map (op_body rv a b on nn) ops))) =
      (if rv then new_side b ops else old_side a ops)"
    "get_new_lines (concat (map (op_body rv a b on nn) ops)) =
      (if rv then old_side a ops else new_side b ops)"
proof -
  have "\<forall>p \<in> set ops. ty p = OpE \<longrightarrow> a ! nat (old_idx p) = b ! nat (new_idx p)"
    using script_equal[OF assms] by blast
  then have "map pl_text (get_old_pattern (concat (map (op_body rv a b on nn) ops))) =
      (if rv then new_side b ops else old_side a ops) \<and>
      get_new_lines (concat (map (op_body rv a b on nn) ops)) = (if rv then old_side a ops else new_side b ops)"
  proof (induction ops)
    case (Cons p ps)
    then show ?case using op_sides[of p a b rv on nn] by (cases rv) (auto simp: old_side_def new_side_def)
  qed (simp add: old_side_def new_side_def)
  then show "map pl_text (get_old_pattern (concat (map (op_body rv a b on nn) ops))) =
      (if rv then new_side b ops else old_side a ops)"
    "get_new_lines (concat (map (op_body rv a b on nn) ops)) = (if rv then old_side a ops else new_side b ops)"
    by auto
qed

lemma slice_take: "0 \<le> i \<Longrightarrow> i \<le> i' \<Longrightarrow> slice x i i' = drop (nat i) (take (nat i') x)"
  by (simp add: slice_def drop_take nat_diff_distrib)

lemma script_slices:
  assumes "script_from a b i j ops i' j'" "0 \<le> i" "0 \<le> j" "i \<le> int (length a)" "j \<le> int (length b)"
  shows "old_side a ops = slice a i i'" "new_side b ops = slice b j j'"
proof -
  have m: "i \<le> i'" "j \<le> j'" using script_from_mono[OF assms(1)] by auto
  have "drop (nat i) (take (nat i) a @ old_side a ops) = drop (nat i) (take (nat i') a)"
    by (simp only: script_old_side[OF assms(1,2)])
  then show "old_side a ops = slice a i i'" using assms(2,4) m by (simp add: slice_take)
  have "drop (nat j) (take (nat j) b @ new_side b ops) = drop (nat j) (take (nat j') b)"
    by (simp only: script_new_side[OF assms(1,3)])
  then show "new_side b ops = slice b j j'" using assms(3,5) m by (simp add: slice_take)
qed

lemma script_idx:
  "script_from a b i j ops i' j' \<Longrightarrow> p \<in> set ops \<Longrightarrow>
     (ty p \<noteq> OpI \<longrightarrow> i \<le> old_idx p \<and> old_idx p < i') \<and> (ty p \<noteq> OpD \<longrightarrow> j \<le> new_idx p \<and> new_idx p < j')"
proof (induction ops arbitrary: i j)
  case (Cons q ps)
  obtain k l where kl: "script_from a b k l ps i' j'" "i \<le> k" "j \<le> l"
    "ty q \<noteq> OpI \<longrightarrow> old_idx q = i \<and> k = i + 1" "ty q \<noteq> OpD \<longrightarrow> new_idx q = j \<and> l = j + 1"
    using Cons.prems(1) by (cases "ty q") auto
  show ?case
  proof (cases "p = q")
    case True
    then show ?thesis using kl script_from_mono[OF kl(1)] by auto
  next
    case False
    then show ?thesis using Cons.IH[OF kl(1)] Cons.prems(2) kl(2,3) by auto
  qed
qed simp

lemma script_last_new:
  "script_from a b i j ops i' j' \<Longrightarrow> j < j' \<Longrightarrow> \<exists>p \<in> set ops. ty p \<noteq> OpD \<and> new_idx p = j' - 1"
proof (induction ops arbitrary: i j)
  case (Cons q ps)
  obtain k l where kl: "script_from a b k l ps i' j'"
    "ty q \<noteq> OpD \<longrightarrow> new_idx q = j \<and> l = j + 1" "ty q = OpD \<longrightarrow> l = j"
    using Cons.prems(1) by (cases "ty q") auto
  show ?case
  proof (cases "l < j'")
    case True
    then show ?thesis using Cons.IH[OF kl(1)] by auto
  next
    case False
    then show ?thesis using kl(2,3) Cons.prems(2) script_from_mono[OF kl(1)] by auto
  qed
qed simp

lemma script_last_old:
  "script_from a b i j ops i' j' \<Longrightarrow> i < i' \<Longrightarrow> \<exists>p \<in> set ops. ty p \<noteq> OpI \<and> old_idx p = i' - 1"
proof (induction ops arbitrary: i j)
  case (Cons q ps)
  obtain k l where kl: "script_from a b k l ps i' j'"
    "ty q \<noteq> OpI \<longrightarrow> old_idx q = i \<and> k = i + 1" "ty q = OpI \<longrightarrow> k = i"
    using Cons.prems(1) by (cases "ty q") auto
  show ?case
  proof (cases "k < i'")
    case True
    then show ?thesis using Cons.IH[OF kl(1)] by auto
  next
    case False
    then show ?thesis using kl(2,3) Cons.prems(2) script_from_mono[OF kl(1)] by auto
  qed
qed simp

text \<open>The markers of a framed hunk: a side is marked exactly when the hunk holds the last line of
  that side and the file ends without a newline.\<close>

lemma plus_mark_iff:
  assumes s: "script_from a b i j ops i' j'" and u: "i' \<le> int (length a)" "j' \<le> int (length b)"
    and f: "framed a b i j i' j'"
  shows "(\<exists>p \<in> set ops. plus_mark a b on nn p) \<longleftrightarrow> j < j' \<and> j' = int (length b) \<and> \<not> nn"
proof
  assume "\<exists>p \<in> set ops. plus_mark a b on nn p"
  then obtain p where p: "p \<in> set ops" "plus_mark a b on nn p" by blast
  then show "j < j' \<and> j' = int (length b) \<and> \<not> nn"
    using script_idx[OF s p(1)] u f
    by (cases "ty p") (auto simp: plus_mark_def differing_end_def framed_def split: if_splits)
next
  assume e: "j < j' \<and> j' = int (length b) \<and> \<not> nn"
  with script_last_new[OF s] obtain p where "p \<in> set ops" "ty p \<noteq> OpD" "new_idx p = j' - 1" by blast
  then show "\<exists>p \<in> set ops. plus_mark a b on nn p"
    using e by (cases "ty p") (auto simp: plus_mark_def intro!: bexI[of _ p])
qed

lemma minus_mark_iff:
  assumes s: "script_from a b i j ops i' j'" and u: "i' \<le> int (length a)" "j' \<le> int (length b)"
    and f: "framed a b i j i' j'"
  shows "(\<exists>p \<in> set ops. minus_mark a b on nn p) \<longleftrightarrow> i < i' \<and> i' = int (length a) \<and> \<not> on"
proof
  assume "\<exists>p \<in> set ops. minus_mark a b on nn p"
  then obtain p where p: "p \<in> set ops" "minus_mark a b on nn p" by blast
  then show "i < i' \<and> i' = int (length a) \<and> \<not> on"
    using script_idx[OF s p(1)] u f
    by (cases "ty p") (auto simp: minus_mark_def differing_end_def framed_def split: if_splits)
next
  assume e: "i < i' \<and> i' = int (length a) \<and> \<not> on"
  with script_last_old[OF s] obtain p where "p \<in> set ops" "ty p \<noteq> OpI" "old_idx p = i' - 1" by blast
  then show "\<exists>p \<in> set ops. minus_mark a b on nn p"
    using e by (cases "ty p") (auto simp: minus_mark_def intro!: bexI[of _ p])
qed

lemma parsed_hunk_placed:
  assumes h: "hunk_at a b i j h i' j'" and f: "framed a b i j i' j'"
    and p: "0 \<le> i" "0 \<le> j" "i \<le> int (length a)" "j \<le> int (length b)"
  shows "placed a b nn i j (parsed_hunk False a b on nn h) i' j'"
    "placed b a on j i (parsed_hunk True a b on nn h) j' i'"
proof -
  have s: "script_from a b i j (h_ops h) i' j'" using h by (simp add: hunk_at_def)
  have u: "i' \<le> int (length a)" "j' \<le> int (length b)" using script_from_upper[OF s p(3,4)] by auto
  have m: "i \<le> i'" "j \<le> j'" using script_from_mono[OF s] by auto
  have e: "i = i' \<Longrightarrow> a = []" "j = j' \<Longrightarrow> b = []" using f by (auto simp: framed_def)
  note sides = body_sides[OF s] script_slices[OF s p]
  have st: "h_old_start h = (if i < i' then i + 1 else i)" "h_new_start h = (if j < j' then j + 1 else j)"
    using h by (auto simp: hunk_at_def)
  show "placed a b nn i j (parsed_hunk False a b on nn h) i' j'"
    "placed b a on j i (parsed_hunk True a b on nn h) j' i'"
    using p u m e st plus_mark_iff[OF s u f] minus_mark_iff[OF s u f]
    unfolding placed_def parsed_hunk_def fold_parsed_op
    by (simp_all add: sides empty_hunk_def)
qed

section \<open>The hunks of a diff as a patch\<close>

lemma hunk_chain_patch:
  assumes "hunk_chain a b ops ctx i j hs" "1 \<le> ctx" "0 \<le> i" "0 \<le> j" "i \<le> int (length a)" "j \<le> int (length b)"
    "eq_op (int (length a) - 1) (int (length b) - 1) \<in> set ops \<longrightarrow> on = nn"
  shows "patch_chain a b on nn i j (map (parsed_hunk False a b on nn) hs) \<and>
    patch_chain b a nn on j i (map (parsed_hunk True a b on nn) hs)"
  using assms
proof (induction rule: hunk_chain.induct)
  case (chain_end i j gap)
  note g = equal_gap[OF chain_end(1,2) chain_end.prems(2,3)]
  have "int (length a) - i = int (length b) - j" by (rule g(1))
  then have d: "drop (nat i) a = drop (nat j) b"
    using g(2) chain_end.prems by (simp add: nat_diff_distrib)
  have "drop (nat j) b = [] \<or> on = nn"
  proof (cases gap rule: rev_cases)
    case Nil
    then show ?thesis using chain_end(1) by simp
  next
    case (snoc ps p)
    then obtain k l where "script_from a b k l [p] (int (length a)) (int (length b))"
      using chain_end(1) unfolding snoc script_from_append by blast
    then have "p = eq_op (int (length a) - 1) (int (length b) - 1)" using chain_end(2) snoc by auto
    then show ?thesis using chain_end(3) chain_end.prems(6) snoc by auto
  qed
  with d show ?case by (auto intro!: patch_end)
next
  case (chain_hunk i j gap i1 j1 h i2 j2 hs)
  note g = equal_gap[OF chain_hunk(1,2) chain_hunk.prems(2,3)]
  have m: "i \<le> i1" "j \<le> j1" using script_from_mono[OF chain_hunk(1)] by auto
  have u: "i1 \<le> int (length a)" "j1 \<le> int (length b)"
    using script_from_upper[OF chain_hunk(1)] chain_hunk.prems by auto
  have s: "script_from a b i1 j1 (h_ops h) i2 j2" using chain_hunk(3) by (simp add: hunk_at_def)
  have m2: "i1 \<le> i2" "j1 \<le> j2" using script_from_mono[OF s] by auto
  have f: "framed a b i1 j1 i2 j2" using chain_hunk(4) chain_hunk.prems(1) by simp
  have p: "0 \<le> i1" "0 \<le> j1" using m chain_hunk.prems by simp_all
  have IH: "patch_chain a b on nn i2 j2 (map (parsed_hunk False a b on nn) hs) \<and>
      patch_chain b a nn on j2 i2 (map (parsed_hunk True a b on nn) hs)"
    by (rule chain_hunk.IH) (use chain_hunk.prems m2 p script_from_upper[OF s u] in auto)
  have sl: "slice a i i1 = slice b j j1" using g by (simp add: slice_def)
  note pl = parsed_hunk_placed[OF chain_hunk(3) f p u, where on = on and nn = nn]
  show ?case
    using IH pl chain_hunk.prems(2,3) m sl sl[symmetric] by (auto intro!: patch_next)
qed

lemma hunk_chain_headers:
  assumes "hunk_chain a b ops ctx i j hs" "0 \<le> i" "0 \<le> j" "i \<le> int (length a)" "j \<le> int (length b)"
    "int (length a) \<le> PTRDIFF_MAX" "int (length b) \<le> PTRDIFF_MAX"
  shows "\<forall>h \<in> set hs. header_ok h \<and> (\<exists>i j i' j'. hunk_at a b i j h i' j')"
  using assms
proof (induction rule: hunk_chain.induct)
  case (chain_hunk i j gap i1 j1 h i2 j2 hs)
  have m: "i \<le> i1" "j \<le> j1" using script_from_mono[OF chain_hunk(1)] by auto
  have u: "i1 \<le> int (length a)" "j1 \<le> int (length b)"
    using script_from_upper[OF chain_hunk(1)] chain_hunk.prems by auto
  have s: "script_from a b i1 j1 (h_ops h) i2 j2" using chain_hunk(3) by (simp add: hunk_at_def)
  note m2 = script_from_mono[OF s] and u2 = script_from_upper[OF s u]
  have IH: "\<forall>h \<in> set hs. header_ok h \<and> (\<exists>i j i' j'. hunk_at a b i j h i' j')"
    by (rule chain_hunk.IH) (use chain_hunk.prems m m2 u2 in auto)
  have "header_ok h"
    using chain_hunk(3) chain_hunk.prems m m2 u2 by (auto simp: header_ok_def ranged_def hunk_at_def)
  then show ?case using IH chain_hunk(3) by auto
qed simp

lemma split_last_equal_no_last:
  assumes "edit_script a b ops"
  shows "eq_op (int (length a) - 1) (int (length b) - 1) \<notin> set (split_last_equal a b ops)"
    (is "?e \<notin> _")
proof (cases "dropWhile (\<lambda>p. ty p \<noteq> OpE) (rev ops)")
  case Nil
  then have "\<forall>p \<in> set ops. ty p \<noteq> OpE" by (simp add: dropWhile_eq_Nil_conv)
  then show ?thesis unfolding split_last_equal_def Nil by auto
next
  case (Cons p ps)
  let ?t = "takeWhile (\<lambda>p. ty p \<noteq> OpE) (rev ops)"
  have E: "ty p = OpE" using hd_dropWhile[of "\<lambda>p. ty p \<noteq> OpE" "rev ops"] Cons by simp
  have t: "?e \<notin> set ?t" by (auto dest: set_takeWhileD)
  have "rev ops = ?t @ p # ps" using Cons by (metis takeWhile_dropWhile_id)
  then have "rev (rev ops) = rev (?t @ p # ps)" by (rule arg_cong)
  then have ops: "ops = rev ps @ [p] @ rev ?t" by simp
  have "script_from a b 0 0 (rev ps @ [p] @ rev ?t) (int (length a)) (int (length b))"
    using assms ops unfolding edit_script_def by metis
  then obtain k l k' l' where s: "script_from a b 0 0 (rev ps) k l" "script_from a b k l [p] k' l'"
    unfolding script_from_append by blast
  from s(2) E have p: "p = eq_op k l" "k < int (length a)" by auto
  have "?e \<notin> set (rev ps)" using script_idx[OF s(1), of ?e] p(2) by auto
  moreover have "set ops = set (rev ps @ [p] @ rev ?t)" by (rule arg_cong[OF ops])
  ultimately show ?thesis
    using t p Cons by (auto simp: split_last_equal_def)
qed

section \<open>The texts\<close>

definition no_cr_end :: "string \<Rightarrow> bool" where
  "no_cr_end l \<longleftrightarrow> l = [] \<or> last l \<noteq> cr"

text \<open>A file none of whose lines ends in a carriage return.\<close>

definition plain_text :: "string \<Rightarrow> bool" where
  "plain_text s \<longleftrightarrow> (\<forall>l \<in> set (fl_lines (split_file_lines s)). no_cr_end l) \<and> int (length s) \<le> PTRDIFF_MAX"

text \<open>A label the patch parser reads back as it is.\<close>

definition plain_label :: "string \<Rightarrow> bool" where
  "plain_label l \<longleftrightarrow> nl \<notin> set l \<and> tab \<notin> set l \<and> (l = [] \<or> last l \<noteq> spc \<and> last l \<noteq> cr)"

lemma strip_no_cr_end: "no_cr_end l \<Longrightarrow> strip_cr l = l"
  by (auto simp: no_cr_end_def strip_cr_def)

lemma no_cr_end_Cons [simp]: "c \<noteq> cr \<Longrightarrow> no_cr_end l \<Longrightarrow> no_cr_end (c # l)"
  by (auto simp: no_cr_end_def)

lemma extract_plain_label:
  assumes "plain_label l" shows "extract_path l = l"
  using assms str_find_miss[of tab l] by (auto simp: plain_label_def extract_path_def rdrop_while_id)

lemma split_loop_map_strip:
  "\<forall>l \<in> set (split_loop [] s). no_cr_end l \<Longrightarrow> map strip_cr (split_loop [] s) = split_loop [] s"
  by (rule map_idI) (simp add: strip_no_cr_end)

lemma load_plain_text:
  assumes "plain_text s"
  shows "load_file_lines s = \<lparr>fc_lines = fl_lines (split_file_lines s),
    fc_trailing_nl = fl_trailing_nl (split_file_lines s), fc_crlf = False\<rparr>"
proof (cases "s = []")
  case True
  then show ?thesis by (simp add: load_file_lines_def split_file_lines_def)
next
  case False
  have ok: "\<forall>l \<in> set (split_loop [] s). no_cr_end l"
    using assms False by (simp add: plain_text_def split_file_lines_def)
  have "\<not> (str_find s nl 0 > 0 \<and> s ! nat (str_find s nl 0 - 1) = cr)"
  proof (cases "nl \<in> set s")
    case True
    then obtain l r where s: "s = l @ nl # r" "nl \<notin> set l" by (metis split_list_first)
    then have "no_cr_end l" using ok by (simp add: split_loop_line)
    moreover have "str_find s nl 0 = int (length l)" using s by (simp add: str_find_hit)
    ultimately show ?thesis
      using s by (auto simp: no_cr_end_def nth_append last_conv_nth nat_diff_distrib)
  next
    case False
    then show ?thesis by (simp add: str_find_miss)
  qed
  then show ?thesis
    using False split_loop_map_strip[OF ok] by (simp add: load_file_lines_def split_file_lines_def Let_def)
qed

lemma op_lines_ok:
  assumes "script_from a b i j ops i' j'" "p \<in> set ops" "\<forall>l \<in> set a \<union> set b. no_cr_end l \<and> nl \<notin> set l"
    "l \<in> set (op_lines a b on nn p)"
  shows "no_cr_end l \<and> nl \<notin> set l"
proof -
  have o: "ty p \<noteq> OpI \<Longrightarrow> a ! nat (old_idx p) \<in> set a" and n: "ty p \<noteq> OpD \<Longrightarrow> b ! nat (new_idx p) \<in> set b"
    using script_in_range[OF assms(1,2)] by (auto simp: nat_less_iff)
  have "no_cr_end no_newline_text \<and> nl \<notin> set no_newline_text" by (simp add: no_newline_text_def no_cr_end_def)
  then show ?thesis
    using assms(3,4) o n by (cases "ty p") (auto simp: op_lines_def mark_lines_def Let_def split: if_splits)
qed

lemma header_line_ok:
  assumes "header_ok h" shows "no_cr_end (unified_header h) \<and> nl \<notin> set (unified_header h)"
  using assms range_str_no_char[of "h_old_start h" "h_old_count h" nl]
    range_str_no_char[of "h_new_start h" "h_new_count h" nl]
  by (simp add: unified_header_ranges no_cr_end_def header_ok_def ranged_def)

lemma split_printed:
  assumes "\<forall>l \<in> set ls. no_cr_end l \<and> nl \<notin> set l"
  shows "split_lines (unlines ls) = ls"
proof -
  have "map strip_cr ls = ls" by (rule map_idI) (use assms strip_no_cr_end in auto)
  then show ?thesis using split_lines_unlines[of ls "[]"] assms by simp
qed

lemma length_split_loop: "length (split_loop cur s) \<le> length s + (if cur = [] then 0 else 1)"
  by (induction cur s rule: split_loop.induct) auto

lemma length_file_lines: "length (fl_lines (split_file_lines s)) \<le> length s"
  using length_split_loop[of "[]" s] by (auto simp: split_file_lines_def)

lemma parse_printed:
  assumes "\<forall>h \<in> set hs. header_ok h \<and> (\<exists>i j i' j'. hunk_at a b i j h i' j')"
    "\<forall>l \<in> set a \<union> set b. no_cr_end l \<and> nl \<notin> set l" "plain_label ol" "plain_label nl'"
  shows "parse_patch (format_unified a b on nn hs ol nl') sl rv =
    [(new_patch_file sl rv (''--- '' @ ol) (''+++ '' @ nl'))\<lparr>pf_hunks := map (parsed_hunk rv a b on nn) hs\<rparr>]"
proof -
  let ?ls = "(''--- '' @ ol) # (''+++ '' @ nl') # concat (map (hunk_lines a b on nn) hs)"
  have "no_cr_end l \<and> nl \<notin> set l" if l: "l \<in> set (concat (map (hunk_lines a b on nn) hs))" for l
  proof -
    from l obtain h where h: "h \<in> set hs" "l \<in> set (hunk_lines a b on nn h)" by auto
    from assms(1) h(1) obtain i j i' j' where hk: "header_ok h" "script_from a b i j (h_ops h) i' j'"
      unfolding hunk_at_def by blast
    show ?thesis
      using h(2) header_line_ok[OF hk(1)] op_lines_ok[OF hk(2) _ assms(2)] by (auto simp: hunk_lines_def)
  qed
  moreover have "no_cr_end (''--- '' @ ol) \<and> nl \<notin> set (''--- '' @ ol)"
    "no_cr_end (''+++ '' @ nl') \<and> nl \<notin> set (''+++ '' @ nl')"
    using assms(3,4) by (auto simp: plain_label_def no_cr_end_def)
  ultimately have "\<forall>l \<in> set ?ls. no_cr_end l \<and> nl \<notin> set l" by auto
  then have "split_lines (format_unified a b on nn hs ol nl') = ?ls"
    unfolding format_unified_lines by (rule split_printed)
  moreover have "starts_with (''--- '' @ ol) ''--- ''" "starts_with (''+++ '' @ nl') ''+++ ''"
    by (simp_all add: starts_with_def)
  ultimately show ?thesis
    using parse_hunks_printed[OF assms(1), of rv on nn "[]"] by (simp add: parse_patch_def Let_def)
qed

section \<open>The round trip\<close>

text \<open>The hypotheses on the names and options: the labels are plain, neither is
  \<open>/dev/null\<close>, and they strip to the file; the patch is applied for real.\<close>

definition patch_call :: "string \<Rightarrow> string \<Rightarrow> patch_options \<Rightarrow> string \<Rightarrow> bool" where
  "patch_call ol nl' opts f \<longleftrightarrow>
     plain_label ol \<and> plain_label nl' \<and> ol \<noteq> ''/dev/null'' \<and> nl' \<noteq> ''/dev/null'' \<and>
     0 \<le> o_fuzz opts \<and> \<not> o_dry_run opts \<and> \<not> o_remove_empty opts \<and> f \<noteq> [] \<and>
     choose_target (if o_reverse opts then nl' else ol) (if o_reverse opts then ol else nl') (o_strip_level opts) = f"

lemma fold_false [simp]: "filter id (replicate n False) = []"
  by (induction n) auto

lemma patch_one_chain:
  assumes c: "patch_chain (fl_lines (split_file_lines s)) (fl_lines (split_file_lines t))
      (fl_trailing_nl (split_file_lines s)) (fl_trailing_nl (split_file_lines t)) 0 0 (pf_hunks pf)"
    and pf: "pf_target_path pf = f" "f \<noteq> []" "\<not> pf_is_creation pf" "pf_hunks pf \<noteq> []"
    and o: "0 \<le> o_fuzz opts" "\<not> o_dry_run opts" "\<not> o_remove_empty opts"
    and s: "plain_text s" and m: "m f = Some s"
  shows "\<exists>res'. patch_one_file P opts pf (res, False, mem_io m w) = Some (res', False, mem_io (m(f \<mapsto> t)) w) \<and>
    r_exit_code res' = r_exit_code res \<and> r_err res' = r_err res"
proof -
  let ?x = "fl_lines (split_file_lines s)" and ?y = "fl_lines (split_file_lines t)"
  let ?xn = "fl_trailing_nl (split_file_lines s)" and ?yn = "fl_trailing_nl (split_file_lines t)"
  have "m_offset start_match = 0" "m_frozen start_match = 0" by (simp_all add: start_match_def)
  from match_chain[OF c this o(1), of 0] obtain ps fr where mt:
    "match_hunks opts ?x 0 (pf_hunks pf) start_match =
      start_match\<lparr>m_positions := ps, m_fuzz := replicate (length (pf_hunks pf)) no_fuzz,
         m_rejected := replicate (length (pf_hunks pf)) False, m_offset := 0, m_frozen := fr\<rparr>"
    "length ps = length (pf_hunks pf)" "\<forall>p \<in> set ps. 0 \<le> p"
    "\<And>buf. copy_rest ?x ?xn (output_loop ?x (pf_hunks pf) ps (replicate (length (pf_hunks pf)) no_fuzz) (buf, 0)) =
         buf @ write_lines (drop (nat 0) ?y) (\<not> ?yn)"
    by (auto simp: start_match_def)
  let ?st = "match_hunks opts ?x 0 (pf_hunks pf) start_match"
  have b: "build_output ?x ?xn (pf_hunks pf) ps (replicate (length (pf_hunks pf)) no_fuzz) = t"
    using mt(4)[of "[]"] join_split_file_lines[of t] by (simp add: build_output_def write_lines_def)
  have st: "m_positions ?st = ps" "m_has_rejects ?st = False" "m_out ?st = []" "m_err ?st = []"
    "m_fuzz ?st = replicate (length (pf_hunks pf)) no_fuzz"
    unfolding mt(1) by (simp_all add: start_match_def)
  have fc: "load_file_lines s = \<lparr>fc_lines = ?x, fc_trailing_nl = ?xn, fc_crlf = False\<rparr>"
    by (rule load_plain_text[OF s])
  have "ps \<noteq> []" using mt(2) pf(4) by auto
  then have "\<exists>pos \<in> set ps. 0 \<le> pos" using mt(3) by (cases ps) auto
  then have wp: "write_patched P opts pf True (load_file_lines s) ?st (mem_io m w) = Some (mem_io (m(f \<mapsto> t)) w)"
    using pf(1) o(3) b by (simp add: write_patched_def st fc patched_content_def make_parent_dirs_def Let_def)
  have "patch_body P opts pf True (load_file_lines s) (res', False, mem_io m w) =
      Some (res'\<lparr>r_out := r_out res', r_err := r_err res'\<rparr>, False, mem_io (m(f \<mapsto> t)) w)" for res'
    using wp o(2) by (simp add: patch_body_def Let_def fc st)
  then show ?thesis
    using pf m by (simp add: patch_one_file_def Let_def)
qed

lemma build_hunks_nonempty:
  assumes "edit_script a b ops" "p \<in> set ops" "ty p \<noteq> OpE" "0 \<le> ctx"
  shows "build_hunks ops ctx \<noteq> []"
proof -
  obtain k where k: "k < length ops" "ops ! k = p" using assms(2) by (auto simp: in_set_conv_nth)
  have "covers (change_ranges ops 0 []) (int k)"
    using change_ranges_spans[of 0 "[]" ops] k assms(3) by auto
  then have c: "change_ranges ops 0 [] \<noteq> []" by auto
  have ne: "ms \<noteq> [] \<Longrightarrow> merge_ranges ctx rs ms \<noteq> []" for rs ms
    by (induction rs arbitrary: ms) auto
  have "ops \<noteq> []" using assms(2) by auto
  then show ?thesis using c ne by (simp add: build_hunks_def Let_def)
qed

lemma diff_text_hunks:
  fixes s t defines "x \<equiv> split_file_lines s" and "y \<equiv> split_file_lines t"
  assumes "s \<noteq> t"
  shows "\<exists>ops. edit_script (fl_lines x) (fl_lines y) ops \<and> (\<exists>p \<in> set ops. ty p \<noteq> OpE) \<and>
    (eq_op (int (length (fl_lines x)) - 1) (int (length (fl_lines y)) - 1) \<in> set ops \<longrightarrow>
       fl_trailing_nl x = fl_trailing_nl y) \<and>
    snd (diff_texts s t ctx ol nl' Unified alg) =
      format_unified (fl_lines x) (fl_lines y) (fl_trailing_nl x) (fl_trailing_nl y) (build_hunks ops ctx) ol nl'"
proof -
  let ?a = "fl_lines x" and ?b = "fl_lines y"
  let ?e = "eq_op (int (length ?a) - 1) (int (length ?b) - 1)"
  let ?ops = "run_engine alg ?a ?b"
  have sc: "edit_script ?a ?b ?ops" by (rule chosen.engine_script)
  show ?thesis
  proof (cases "?a \<noteq> [] \<and> fl_trailing_nl x \<noteq> fl_trailing_nl y")
    case True
    let ?sp = "split_last_equal ?a ?b ?ops"
    have sp: "edit_script ?a ?b ?sp" by (rule split_last_equal_script[OF sc])
    have no: "?e \<notin> set ?sp" by (rule split_last_equal_no_last[OF sc])
    have "\<exists>p \<in> set ?sp. ty p \<noteq> OpE"
    proof (rule ccontr)
      assume all: "\<not> (\<exists>p \<in> set ?sp. ty p \<noteq> OpE)"
      show False
      proof (cases ?sp rule: rev_cases)
        case Nil
        then show False using sp True by (simp add: edit_script_def)
      next
        case (snoc qs p)
        then obtain k l where "script_from ?a ?b k l [p] (int (length ?a)) (int (length ?b))"
          using sp unfolding edit_script_def snoc script_from_append by blast
        then have "p = ?e" using all snoc by auto
        then show False using no snoc by simp
      qed
    qed
    moreover have "snd (diff_texts s t ctx ol nl' Unified alg) =
        format_unified ?a ?b (fl_trailing_nl x) (fl_trailing_nl y) (build_hunks ?sp ctx) ol nl'"
      using True by (simp add: diff_texts_def Let_def x_def y_def)
    ultimately show ?thesis using sp no by blast
  next
    case False
    have ne: "?a \<noteq> ?b"
    proof
      assume "?a = ?b"
      then show False
        using False assms(3) split_file_lines_inj[of s t] split_file_lines_empty[of s] split_file_lines_empty[of t]
        unfolding x_def y_def by auto
    qed
    then have ch: "\<exists>p \<in> set ?ops. ty p \<noteq> OpE" by (simp add: chosen.engine_change_iff)
    have "?e \<in> set ?ops \<longrightarrow> fl_trailing_nl x = fl_trailing_nl y"
      using False script_in_range[of ?a ?b 0 0 ?ops _ _ ?e] sc by (auto simp: edit_script_def)
    moreover have "snd (diff_texts s t ctx ol nl' Unified alg) =
        format_unified ?a ?b (fl_trailing_nl x) (fl_trailing_nl y) (build_hunks ?ops ctx) ol nl'"
      using False ch unfolding x_def y_def by (auto simp: diff_texts_def Let_def)
    ultimately show ?thesis using sc ch by blast
  qed
qed

lemma new_file_of_labels:
  assumes "plain_label ol" "plain_label nl'" "ol \<noteq> ''/dev/null''" "nl' \<noteq> ''/dev/null''"
  shows "pf_target_path (new_patch_file sl rv (''--- '' @ ol) (''+++ '' @ nl')) =
      choose_target (if rv then nl' else ol) (if rv then ol else nl') sl"
    "\<not> pf_is_creation (new_patch_file sl rv (''--- '' @ ol) (''+++ '' @ nl'))"
  using assms by (simp_all add: new_patch_file_def extract_plain_label)

text \<open>From \<open>s\<close> to \<open>t\<close>, or with a reversed patch back from \<open>t\<close> to
  \<open>s\<close>.\<close>

lemma patch_of_diff:
  assumes call: "patch_call ol nl' opts f" and pt: "plain_text s" "plain_text t" and ctx: "1 \<le> ctx"
    and m: "m f = Some (if o_reverse opts then t else s)"
  shows "\<exists>res. builtin_patch P (snd (diff_texts s t ctx ol nl' Unified alg)) opts (mem_io m w) =
      Some (res, mem_io (m(f \<mapsto> (if o_reverse opts then s else t))) w) \<and> r_exit_code res = 0 \<and> r_err res = []"
proof (cases "s = t")
  case True
  have "diff_texts s t ctx ol nl' Unified alg = (0, [])"
    using True by (simp add: diff_texts_def Let_def chosen.engine_quiet_iff)
  moreover have "m(f \<mapsto> s) = m" using True m by auto
  ultimately show ?thesis
    using True by (simp add: builtin_patch_def parse_patch_def)
next
  case False
  let ?x = "split_file_lines s" and ?y = "split_file_lines t"
  let ?a = "fl_lines ?x" and ?b = "fl_lines ?y" and ?on = "fl_trailing_nl ?x" and ?nn = "fl_trailing_nl ?y"
  let ?rv = "o_reverse opts"
  from diff_text_hunks[OF False, of ctx ol nl' alg] obtain ops where ops: "edit_script ?a ?b ops"
    "\<exists>p \<in> set ops. ty p \<noteq> OpE"
    "eq_op (int (length ?a) - 1) (int (length ?b) - 1) \<in> set ops \<longrightarrow> ?on = ?nn"
    "snd (diff_texts s t ctx ol nl' Unified alg) = format_unified ?a ?b ?on ?nn (build_hunks ops ctx) ol nl'"
    by blast
  let ?hs = "build_hunks ops ctx"
  have hc: "hunk_chain ?a ?b ops ctx 0 0 ?hs" using build_hunks_chain[OF ops(1)] ctx by simp
  have pc: "patch_chain ?a ?b ?on ?nn 0 0 (map (parsed_hunk False ?a ?b ?on ?nn) ?hs)"
    "patch_chain ?b ?a ?nn ?on 0 0 (map (parsed_hunk True ?a ?b ?on ?nn) ?hs)"
    using hunk_chain_patch[OF hc ctx _ _ _ _ ops(3)] by simp_all
  have len: "int (length ?a) \<le> PTRDIFF_MAX" "int (length ?b) \<le> PTRDIFF_MAX"
    using pt length_file_lines[of s] length_file_lines[of t] by (auto simp: plain_text_def)
  have hd: "\<forall>h \<in> set ?hs. header_ok h \<and> (\<exists>i j i' j'. hunk_at ?a ?b i j h i' j')"
    using hunk_chain_headers[OF hc _ _ _ _ len] by simp
  have ls: "\<forall>l \<in> set ?a \<union> set ?b. no_cr_end l \<and> nl \<notin> set l"
    using pt split_file_lines_no_nl by (auto simp: plain_text_def)
  have lab: "plain_label ol" "plain_label nl'" "ol \<noteq> ''/dev/null''" "nl' \<noteq> ''/dev/null''"
    using call by (simp_all add: patch_call_def)
  define pf where "pf = (new_patch_file (o_strip_level opts) ?rv (''--- '' @ ol) (''+++ '' @ nl'))
    \<lparr>pf_hunks := map (parsed_hunk ?rv ?a ?b ?on ?nn) ?hs\<rparr>"
  have parse: "parse_patch (snd (diff_texts s t ctx ol nl' Unified alg)) (o_strip_level opts) ?rv = [pf]"
    unfolding ops(4) pf_def by (rule parse_printed[OF hd ls lab(1,2)])
  have pf: "pf_target_path pf = f" "f \<noteq> []" "\<not> pf_is_creation pf" "pf_hunks pf \<noteq> []"
    using call new_file_of_labels[OF lab, of "o_strip_level opts" ?rv] build_hunks_nonempty[OF ops(1)] ops(2) ctx
    by (auto simp: pf_def patch_call_def)
  have o: "0 \<le> o_fuzz opts" "\<not> o_dry_run opts" "\<not> o_remove_empty opts"
    using call by (simp_all add: patch_call_def)
  define src where "src = (if ?rv then t else s)"
  define dst where "dst = (if ?rv then s else t)"
  have c: "patch_chain (fl_lines (split_file_lines src)) (fl_lines (split_file_lines dst))
      (fl_trailing_nl (split_file_lines src)) (fl_trailing_nl (split_file_lines dst)) 0 0 (pf_hunks pf)"
    using pc by (simp add: src_def dst_def pf_def)
  have "plain_text src" "m f = Some src" using pt m by (simp_all add: src_def)
  from patch_one_chain[where m = m and f = f and s = src and t = dst, OF c pf o this, of P "\<lparr>r_exit_code = 0, r_out = [], r_err = []\<rparr>" w]
  obtain res where res: "patch_one_file P opts pf (\<lparr>r_exit_code = 0, r_out = [], r_err = []\<rparr>, False, mem_io m w) =
      Some (res, False, mem_io (m(f \<mapsto> dst)) w)" "r_exit_code res = 0" "r_err res = []"
    by auto
  show ?thesis
    by (rule exI[of _ res]) (use res in \<open>simp add: builtin_patch_def Let_def parse dst_def\<close>)
qed

end
