(* ===== verification/Quilt_Shell.thy ===== *)
theory Quilt_Shell
  imports Quilt_Strings
begin

text \<open>
  The two small languages quilt reads its settings in (\<open>src/src/quilt.cpp\<close>,
  \<open>core.cpp\<close> part): shell words with quotes, escapes and variables
  (\<open>shell_split\<close>), and the assignments of a \<open>quiltrc\<close> file
  (\<open>parse_quiltrc\<close>). The environment is a function; the position \<open>i\<close> is the
  text not read yet.
\<close>

section \<open>Shell words\<close>

definition is_varname_start :: "char \<Rightarrow> bool" where
  "is_varname_start c \<longleftrightarrow>
     char_in (CHR ''A'') (CHR ''Z'') c \<or> char_in (CHR ''a'') (CHR ''z'') c \<or> c = CHR ''_''"

definition is_varname_char :: "char \<Rightarrow> bool" where
  "is_varname_char c \<longleftrightarrow> is_varname_start c \<or> char_in (CHR ''0'') (CHR ''9'') c"

abbreviation squote :: char where "squote \<equiv> CHR 0x27"
abbreviation dquote :: char where "dquote \<equiv> CHR 0x22"

definition expand_var :: "(string \<Rightarrow> string) \<Rightarrow> string \<Rightarrow> string \<times> string" where
  "expand_var env s =
     (let (name, rest) =
        (if s \<noteq> [] \<and> hd s = CHR ''{''
         then (takeWhile (\<lambda>c. c \<noteq> CHR ''}'') (tl s), tl (dropWhile (\<lambda>c. c \<noteq> CHR ''}'') (tl s)))
         else (takeWhile is_varname_char s, dropWhile is_varname_char s))
      in (if name = [] then ''$'' else env name, rest))"

lemma expand_var_rest: "expand_var env s = (v, r) \<Longrightarrow> length r \<le> length s"
  using length_dropWhile_le[of is_varname_char s] length_dropWhile_le[of "\<lambda>c. c \<noteq> CHR ''}''" "tl s"]
  by (auto simp: expand_var_def split: if_splits)

definition dquote_escape :: "char \<Rightarrow> bool" where
  "dquote_escape c \<longleftrightarrow> c = dquote \<or> c = bslash \<or> c = CHR ''$''"

text \<open>The rest of a double-quoted segment: the token so far and the text behind it.\<close>

function dquote_segment :: "(string \<Rightarrow> string) \<Rightarrow> string \<Rightarrow> string \<Rightarrow> string \<times> string" where
  "dquote_segment env [] tok = (tok, [])"
| "dquote_segment env (c # s) tok =
     (if c = dquote then (tok, s)
      else if c = bslash \<and> s \<noteq> [] \<and> dquote_escape (hd s) then dquote_segment env (tl s) (tok @ [hd s])
      else if c = CHR ''$'' then let (v, r) = expand_var env s in dquote_segment env r (tok @ v)
      else dquote_segment env s (tok @ [c]))"
  by pat_completeness auto
termination
proof (relation "measure (\<lambda>(env, s, tok). length s)", goal_cases)
  case (3 env c s tok x v r)
  then show ?case using expand_var_rest[of env s v r] by simp
qed (auto simp: le_imp_less_Suc)

lemma dquote_segment_rest: "dquote_segment env s tok = (t, r) \<Longrightarrow> length r \<le> length s"
proof (induction env s tok rule: dquote_segment.induct)
  case (2 env c s tok)
  obtain v r' where v: "expand_var env s = (v, r')" by fastforce
  show ?case
    using 2 v expand_var_rest[OF v] by (auto split: if_splits simp: le_Suc_eq) (meson order_trans)+
qed simp

function token_loop :: "(string \<Rightarrow> string) \<Rightarrow> string \<Rightarrow> string \<Rightarrow> string \<times> string" where
  "token_loop env [] tok = (tok, [])"
| "token_loop env (c # s) tok =
     (if is_blank c then (tok, c # s)
      else if c = squote then
        token_loop env (tl (dropWhile (\<lambda>c. c \<noteq> squote) s)) (tok @ takeWhile (\<lambda>c. c \<noteq> squote) s)
      else if c = dquote then let (t, r) = dquote_segment env s tok in token_loop env r t
      else if c = CHR ''$'' then let (v, r) = expand_var env s in token_loop env r (tok @ v)
      else if c = bslash \<and> s \<noteq> [] then token_loop env (tl s) (tok @ [hd s])
      else token_loop env s (tok @ [c]))"
  by pat_completeness auto
termination
proof (relation "measure (\<lambda>(env, s, tok). length s)", goal_cases)
  case (2 env c s tok)
  then show ?case using length_dropWhile_le[of "\<lambda>c. c \<noteq> squote" s] by simp
next
  case (3 env c s tok x t r)
  then show ?case using dquote_segment_rest[of env s tok t r] by simp
next
  case (4 env c s tok x v r)
  then show ?case using expand_var_rest[of env s v r] by simp
qed (auto simp: le_imp_less_Suc)

lemma token_loop_rest: "token_loop env s tok = (t, r) \<Longrightarrow> length r \<le> length s"
proof (induction env s tok rule: token_loop.induct)
  case (2 env c s tok)
  obtain v rv where v: "expand_var env s = (v, rv)" by fastforce
  obtain d rd where d: "dquote_segment env s tok = (d, rd)" by fastforce
  show ?case
    using 2 v d expand_var_rest[OF v] dquote_segment_rest[OF d]
      length_dropWhile_le[of "\<lambda>c. c \<noteq> squote" s]
    by (auto split: if_splits simp: le_Suc_eq) (meson order_trans)+
qed simp

lemma token_loop_progress:
  assumes "s \<noteq> []" "\<not> is_blank (hd s)" "token_loop env s [] = (t, r)"
  shows "length r < length s"
proof -
  obtain c u where s: "s = c # u" using assms(1) by (cases s) auto
  obtain v rv where v: "expand_var env u = (v, rv)" by fastforce
  obtain d rd where d: "dquote_segment env u [] = (d, rd)" by fastforce
  show ?thesis
    using assms(2,3) s v d expand_var_rest[OF v] dquote_segment_rest[OF d]
      length_dropWhile_le[of "\<lambda>c. c \<noteq> squote" u] token_loop_rest
    by (fastforce split: if_splits simp: less_Suc_eq_le)
qed

function shell_split :: "(string \<Rightarrow> string) \<Rightarrow> string \<Rightarrow> string list" where
  "shell_split env s =
     (let s = dropWhile is_blank s in
      if s = [] then []
      else let (tok, rest) = token_loop env s [] in
        (if tok \<noteq> [] then [tok] else []) @ shell_split env rest)"
  by pat_completeness auto
termination
proof (relation "measure (\<lambda>(env, s). length s)", goal_cases)
  case (2 env s x y t r)
  then have "\<not> is_blank (hd x)" using hd_dropWhile by metis
  with 2 token_loop_progress[of x env t r] have "length r < length x" by simp
  also have "length x \<le> length s" using 2 by (simp add: length_dropWhile_le)
  finally show ?case by simp
qed simp

declare shell_split.simps [simp del]

section \<open>The settings file\<close>

text \<open>The quoted values: what they hold, up to the closing quote.\<close>

fun rc_dquoted :: "string \<Rightarrow> string" where
  "rc_dquoted [] = []"
| "rc_dquoted [c] = (if c = dquote then [] else [c])"
| "rc_dquoted (c # d # s) =
     (if c = dquote then []
      else if c = bslash \<and> (d = dquote \<or> d = bslash) then d # rc_dquoted s
      else c # rc_dquoted (d # s))"

definition rc_value :: "string \<Rightarrow> string" where
  "rc_value rest =
     (if rest \<noteq> [] \<and> hd rest = dquote then rc_dquoted (tl rest)
      else if rest \<noteq> [] \<and> hd rest = squote then takeWhile (\<lambda>c. c \<noteq> squote) (tl rest)
      else takeWhile (\<lambda>c. c \<noteq> spc \<and> c \<noteq> tab \<and> c \<noteq> cr \<and> c \<noteq> nl \<and> c \<noteq> CHR ''#'') rest)"

definition rc_line :: "string \<Rightarrow> (string \<times> string) option" where
  "rc_line line =
     (let sv = dropWhile is_blank line in
      if sv = [] \<or> hd sv = CHR ''#'' then None
      else
        let sv = (if length sv > 7 \<and> take 7 sv = ''export '' then dropWhile is_blank (drop 7 sv) else sv);
            eq = str_find sv (CHR ''='') 0
        in if eq \<le> 0 then None
           else let key = take (nat eq) sv in
             if \<not> list_all is_varname_char key then None
             else Some (key, rc_value (drop (nat (eq + 1)) sv)))"

definition parse_quiltrc :: "string \<Rightarrow> (string \<rightharpoonup> string)" where
  "parse_quiltrc content =
     fold (\<lambda>line m. case rc_line line of None \<Rightarrow> m | Some (k, v) \<Rightarrow> m(k \<mapsto> v)) (split_lines content) Map.empty"

section \<open>Laws\<close>

text \<open>Words without quotes, escapes and variables split as plain words.\<close>

definition plain_char :: "char \<Rightarrow> bool" where
  "plain_char c \<longleftrightarrow> c \<noteq> squote \<and> c \<noteq> dquote \<and> c \<noteq> CHR ''$'' \<and> c \<noteq> bslash"

lemma token_loop_plain:
  "list_all plain_char s \<Longrightarrow>
   token_loop env s tok = (tok @ takeWhile (\<lambda>c. \<not> is_blank c) s, dropWhile (\<lambda>c. \<not> is_blank c) s)"
  by (induction s arbitrary: tok) (auto simp: plain_char_def)

lemma shell_split_step:
  "dropWhile is_blank s = u \<Longrightarrow> u \<noteq> [] \<Longrightarrow> token_loop env u [] = (t, r) \<Longrightarrow> t \<noteq> [] \<Longrightarrow>
   shell_split env s = t # shell_split env r"
  by (subst shell_split.simps) (simp add: Let_def)

lemma shell_split_plain:
  "list_all plain_char s \<Longrightarrow> shell_split env s = split_on_whitespace s"
proof (induction s rule: split_on_whitespace.induct)
  case (1 s)
  let ?s = "dropWhile is_blank s"
  show ?case
  proof (cases "?s = []")
    case True
    then show ?thesis by (subst shell_split.simps) (simp add: split_on_whitespace_done)
  next
    case False
    have pl: "list_all plain_char ?s" using 1(2) by (auto simp: list_all_iff dest: set_dropWhileD)
    then have pl2: "list_all plain_char (dropWhile (\<lambda>c. \<not> is_blank c) ?s)"
      by (auto simp: list_all_iff dest: set_dropWhileD)
    have "\<not> is_blank (hd ?s)" using False by (rule hd_dropWhile)
    with False have ne: "takeWhile (\<lambda>c. \<not> is_blank c) ?s \<noteq> []" by (cases ?s) auto
    have "shell_split env s = takeWhile (\<lambda>c. \<not> is_blank c) ?s # shell_split env (dropWhile (\<lambda>c. \<not> is_blank c) ?s)"
      by (rule shell_split_step[OF refl False _ ne]) (simp add: token_loop_plain[OF pl])
    then show ?thesis
      unfolding split_on_whitespace_step[OF refl False] by (simp only: 1(1)[OF refl False pl2])
  qed
qed

text \<open>A quoted word is one token.\<close>

lemma shell_split_squoted:
  assumes "w \<noteq> []" "squote \<notin> set w"
  shows "shell_split env (squote # w @ [squote]) = [w]"
proof -
  have nb: "\<not> is_blank squote" by (simp add: is_blank_def)
  have "takeWhile (\<lambda>c. c \<noteq> squote) (w @ [squote]) = w" "dropWhile (\<lambda>c. c \<noteq> squote) (w @ [squote]) = [squote]"
    using assms(2) takeWhile_neq_append[of squote w "[]"] dropWhile_neq_append[of squote w "[]"] by auto
  then have t: "token_loop env (squote # w @ [squote]) [] = (w, [])" using nb by simp
  have "shell_split env [] = []" by (subst shell_split.simps) simp
  then show ?thesis using assms(1) t nb by (subst shell_split.simps) simp
qed

text \<open>Assignments: a quoted value comes back.\<close>

lemma rc_dquoted_plain:
  "list_all (\<lambda>c. c \<noteq> dquote \<and> c \<noteq> bslash) v \<Longrightarrow> rc_dquoted (v @ dquote # rest) = v"
proof (induction v)
  case Nil
  then show ?case by (cases rest) auto
next
  case (Cons c v)
  then show ?case by (cases v) auto
qed

fun rc_escape :: "string \<Rightarrow> string" where
  "rc_escape [] = []"
| "rc_escape (c # s) = (if c = dquote \<or> c = bslash then bslash # c # rc_escape s else c # rc_escape s)"

lemma rc_dquoted_escape: "rc_dquoted (rc_escape v @ dquote # rest) = v"
proof (induction v)
  case Nil
  then show ?case by (cases rest) auto
next
  case (Cons c v)
  have "rc_dquoted (c # rc_escape v @ dquote # rest) = c # v" if "c \<noteq> dquote" "c \<noteq> bslash"
    using that Cons by (cases "rc_escape v @ dquote # rest") auto
  then show ?case using Cons by auto
qed

lemma rc_line_quoted:
  assumes "k \<noteq> []" "list_all is_varname_char k" "take 7 k \<noteq> ''export ''"
  shows "rc_line (k @ ''='' @ [dquote] @ rc_escape v @ [dquote]) = Some (k, v)"
proof -
  let ?l = "k @ ''='' @ [dquote] @ rc_escape v @ [dquote]"
  obtain c k' where k: "k = c # k'" using assms(1) by (cases k) auto
  then have c: "is_varname_char c" using assms(2) by simp
  have nb: "\<not> is_blank c" "c \<noteq> CHR ''#''"
    using c by (auto simp: is_varname_char_def is_varname_start_def char_in_def is_blank_def)
  have sp: "\<not> is_varname_char spc" "\<not> is_varname_char (CHR ''='')"
    by (simp_all add: is_varname_char_def is_varname_start_def char_in_def)
  have eqk: "CHR ''='' \<notin> set k" and spk: "spc \<notin> set k" using assms(2) sp by (auto simp: list_all_iff)
  have "take 7 ?l \<noteq> ''export ''"
  proof
    assume e: "take 7 ?l = ''export ''"
    show False
    proof (cases "length k \<ge> 7")
      case True
      with e assms(3) show False by simp
    next
      case False
      then have "take 7 ?l = k @ take (7 - length k) (''='' @ [dquote] @ rc_escape v @ [dquote])" by simp
      moreover obtain n where "7 - length k = Suc n" using False by (cases "7 - length k") auto
      ultimately have "CHR ''='' \<in> set (take 7 ?l)" by simp
      then show False unfolding e by simp
    qed
  qed
  then have ex: "(if length ?l > 7 \<and> take 7 ?l = ''export '' then dropWhile is_blank (drop 7 ?l) else ?l) = ?l"
    by (simp only: simp_thms if_False)
  have dw: "dropWhile is_blank ?l = ?l" using k nb by simp
  have find: "str_find ?l (CHR ''='') 0 = int (length k)" using str_find_hit[OF eqk] by simp
  have hd: "?l \<noteq> []" "hd ?l \<noteq> CHR ''#''" using k nb by auto
  have "\<not> (?l = [] \<or> hd ?l = CHR ''#'')" "\<not> int (length k) \<le> 0" using hd k by auto
  moreover have "take (nat (int (length k))) ?l = k" "drop (nat (int (length k) + 1)) ?l = dquote # rc_escape v @ [dquote]"
    by (simp_all add: nat_add_distrib)
  moreover have "rc_value (dquote # rc_escape v @ [dquote]) = v"
    using rc_dquoted_escape[of v "[]"] by (simp add: rc_value_def)
  ultimately show ?thesis
    using assms(2) unfolding rc_line_def Let_def dw ex find by (simp only: if_False simp_thms)
qed

end
