(* ===== verification/Quilt_Core.thy ===== *)
theory Quilt_Core
  imports Quilt_Shell File_Store
begin

text \<open>
  The state of quilt (\<open>core.cpp\<close> part of \<open>src/src/quilt.cpp\<close>):
  \<open>QuiltState\<close> and its helpers, the series and applied-patches files, the \<open>.pc\<close>
  directory, the start-up scan of \<open>load_state\<close>, and the backup and restore of a file.
  A function that can fail an assertion or a bounds check of the library has an optional value,
  \<open>None\<close> for the abort; the world is threaded in the order of the calls.
\<close>

section \<open>The state\<close>

record quilt_state =
  q_work_dir :: string
  q_patches_dir :: string
  q_pc_dir :: string
  q_series_file :: string
  q_subdir :: string
  q_series_file_exists :: bool
  q_series :: "string list"
  q_applied :: "string list"
  q_strip_level :: "string \<rightharpoonup> int"
  q_reversed :: "string set"
  q_config :: "string \<rightharpoonup> string"

fun index_of :: "string \<Rightarrow> string list \<Rightarrow> int \<Rightarrow> int option" where
  "index_of x [] i = None"
| "index_of x (y # ys) i = (if y = x then Some i else index_of x ys (i + 1))"

definition top_index :: "quilt_state \<Rightarrow> int" where
  "top_index q =
     (if q_applied q = [] then - 1
      else case index_of (last (q_applied q)) (q_series q) 0 of Some i \<Rightarrow> i | None \<Rightarrow> - 1)"

definition is_applied :: "quilt_state \<Rightarrow> string \<Rightarrow> bool" where
  "is_applied q patch \<longleftrightarrow> patch \<in> set (q_applied q)"

definition find_in_series :: "quilt_state \<Rightarrow> string \<Rightarrow> int option" where
  "find_in_series q patch = index_of patch (q_series q) 0"

definition get_strip_level :: "quilt_state \<Rightarrow> string \<Rightarrow> int" where
  "get_strip_level q patch = (case q_strip_level q patch of Some n \<Rightarrow> n | None \<Rightarrow> 1)"

definition get_p_format :: "quilt_state \<Rightarrow> string \<Rightarrow> string" where
  "get_p_format q patch = (if get_strip_level q patch = 0 then ''0'' else ''1'')"

definition strip_patches_prefix :: "quilt_state \<Rightarrow> string \<Rightarrow> string" where
  "strip_patches_prefix q name =
     (if starts_with name (q_patches_dir q) \<and> length name > length (q_patches_dir q) \<and>
         name ! length (q_patches_dir q) = slash
      then drop (length (q_patches_dir q) + 1) name else name)"

definition format_patch :: "'w platform \<Rightarrow> quilt_state \<Rightarrow> string \<Rightarrow> 'w \<Rightarrow> string" where
  "format_patch P q name w =
     (if get_env P ''QUILT_PATCHES_PREFIX'' w \<noteq> [] then q_patches_dir q @ ''/'' @ name else name)"

definition subdir_path :: "quilt_state \<Rightarrow> string \<Rightarrow> string" where
  "subdir_path q file = (if q_subdir q = [] then file else q_subdir q @ ''/'' @ file)"

section \<open>The series file\<close>

fun series_options :: "string list \<Rightarrow> int \<Rightarrow> bool \<Rightarrow> (int \<times> bool) option" where
  "series_options [] strip rv = Some (strip, rv)"
| "series_options (t # ts) strip rv =
     (if t = ''-p'' \<and> ts \<noteq> [] then
        (case checked_int (parse_int (hd ts)) of None \<Rightarrow> None | Some n \<Rightarrow> series_options (tl ts) n rv)
      else if starts_with t ''-p'' \<and> length t > 2 then
        (case checked_int (parse_int (drop 2 t)) of None \<Rightarrow> None | Some n \<Rightarrow> series_options ts n rv)
      else if t = ''-R'' then series_options ts strip True
      else series_options ts strip rv)"

type_synonym series_data = "string list \<times> (string \<rightharpoonup> int) \<times> string set"

text \<open>One line of the file; the inner option is \<open>None\<close> for a line without a patch.\<close>

definition series_line :: "string \<Rightarrow> (string \<times> int \<times> bool) option option" where
  "series_line line =
     (let trimmed = trim line in
      if trimmed = [] \<or> hd trimmed = CHR ''#'' then Some None
      else
        let hash = str_find_sub trimmed '' #'';
            trimmed = (if hash \<ge> 0 then trim (take (nat hash) trimmed) else trimmed)
        in case split_on_whitespace trimmed of
             [] \<Rightarrow> Some None
           | name # opts \<Rightarrow> map_option (\<lambda>(strip, rv). Some (name, strip, rv)) (series_options opts 1 False))"

definition add_series :: "string \<times> int \<times> bool \<Rightarrow> series_data \<Rightarrow> series_data" where
  "add_series = (\<lambda>(name, strip, rv) (patches, levels, reversed).
     (patches @ [name], (if strip \<noteq> 1 then levels(name \<mapsto> strip) else levels),
      (if rv then insert name reversed else reversed)))"

fun series_lines :: "lines \<Rightarrow> series_data \<Rightarrow> series_data option" where
  "series_lines [] d = Some d"
| "series_lines (l # ls) d =
     (case series_line l of
        None \<Rightarrow> None
      | Some None \<Rightarrow> series_lines ls d
      | Some (Some e) \<Rightarrow> series_lines ls (add_series e d))"

definition read_series :: "'w platform \<Rightarrow> string \<Rightarrow> 'w \<Rightarrow> series_data option" where
  "read_series P path w =
     (let content = read_file P path w in
      if content = [] then Some ([], Map.empty, {}) else series_lines (split_lines content) ([], Map.empty, {}))"

definition series_entry :: "(string \<rightharpoonup> int) \<Rightarrow> string set \<Rightarrow> string \<Rightarrow> string" where
  "series_entry levels reversed p =
     p @ (case levels p of Some n \<Rightarrow> if n \<noteq> 1 then '' -p'' @ int_str n else [] | None \<Rightarrow> []) @
     (if p \<in> reversed then '' -R'' else [])"

definition write_series ::
  "'w platform \<Rightarrow> string \<Rightarrow> string list \<Rightarrow> (string \<rightharpoonup> int) \<Rightarrow> string set \<Rightarrow> 'w \<Rightarrow> bool \<times> 'w" where
  "write_series P path patches levels reversed w =
     write_file P path (unlines (map (series_entry levels reversed) patches)) w"

section \<open>The applied patches\<close>

definition read_applied :: "'w platform \<Rightarrow> string \<Rightarrow> 'w \<Rightarrow> string list" where
  "read_applied P path w =
     (let content = read_file P path w in
      if content = [] then [] else filter (\<lambda>t. t \<noteq> []) (map trim (split_lines content)))"

definition write_applied :: "'w platform \<Rightarrow> string \<Rightarrow> string list \<Rightarrow> 'w \<Rightarrow> bool \<times> 'w" where
  "write_applied P path patches w = write_file P path (unlines patches) w"

section \<open>The .pc directory\<close>

text \<open>A file of \<open>.pc\<close> that is written once; on failure with its message.\<close>

definition write_if_missing :: "'w platform \<Rightarrow> string \<Rightarrow> string \<Rightarrow> 'w \<Rightarrow> bool \<times> 'w" where
  "write_if_missing P path content w =
     (if \<not> file_exists P path w then
        let (ok, w) = write_file P path content w in
        if \<not> ok then (False, err_line P (''Failed to write '' @ path) w) else (True, w)
      else (True, w))"

definition ensure_pc_dir :: "'w platform \<Rightarrow> quilt_state \<Rightarrow> 'w \<Rightarrow> bool \<times> 'w" where
  "ensure_pc_dir P q w =
     (let pc = path_join (q_work_dir q) (q_pc_dir q);
          (ok, w) = (if \<not> is_directory P pc w then
             let (ok, w) = make_dirs P pc w in
             if \<not> ok then (False, err_line P (''Failed to create '' @ pc) w) else (True, w)
           else (True, w))
      in if \<not> ok then (False, w)
         else let (ok, w) = write_if_missing P (path_join pc ''.version'') (''2'' @ [nl]) w in
           if \<not> ok then (False, w)
           else let (ok, w) = write_if_missing P (path_join pc ''.quilt_patches'') (q_patches_dir q @ [nl]) w in
             if \<not> ok then (False, w)
             else
               let qs_path = path_join pc ''.quilt_series'';
                   env_name = get_env P ''QUILT_SERIES'' w;
                   series_name = (if env_name = [] then ''series'' else env_name)
               in write_if_missing P qs_path (series_name @ [nl]) w)"

section \<open>Settings\<close>

definition load_quiltrc :: "'w platform \<Rightarrow> string \<Rightarrow> 'w \<Rightarrow> (string \<rightharpoonup> string)" where
  "load_quiltrc P quiltrc_path w =
     (if quiltrc_path = ''-'' then Map.empty
      else if quiltrc_path \<noteq> [] then
        (let content = read_file P quiltrc_path w in
         if content \<noteq> [] then parse_quiltrc content else Map.empty)
      else
        let home = get_home_dir P w;
            user_content = (if home \<noteq> [] then read_file P (path_join home ''.quiltrc'') w else [])
        in if user_content \<noteq> [] then parse_quiltrc user_content
           else let content = read_file P (get_system_quiltrc P w) w in
             if content \<noteq> [] then parse_quiltrc content else Map.empty)"

section \<open>Start-up\<close>

lemma length_rdrop_while: "length (rdrop_while p s) \<le> length s"
  using length_dropWhile_le[of p "rev s"] by (simp add: rdrop_while_def)

lemma length_drop_trailing_slashes: "length (drop_trailing_slashes p) \<le> length p"
  by (cases p) (simp_all add: length_rdrop_while)

lemma dirname_shorter: "dirname p \<noteq> p \<Longrightarrow> dirname p \<noteq> ''.'' \<Longrightarrow> length (dirname p) < length p"
proof -
  assume a: "dirname p \<noteq> p" "dirname p \<noteq> ''.''"
  let ?d = "drop_trailing_slashes p"
  let ?pos = "str_rfind ?d slash"
  from a have p: "p \<noteq> []" "\<not> ?pos < 0" by (auto simp: dirname_def Let_def split: if_splits)
  have pos: "?pos < int (length ?d)" by (simp add: str_rfind_def)
  show ?thesis
  proof (cases "?pos = 0")
    case True
    with a p have d: "dirname p = ''/''" by (simp add: dirname_def Let_def)
    show ?thesis
    proof (cases "length p = 1")
      case True
      then obtain c where c: "p = [c]" by (cases p) auto
      with p(2) have "c = slash" by (auto simp: str_rfind_def rdrop_while_def split: if_splits)
      with c d a show ?thesis by simp
    next
      case False
      with p d show ?thesis by (cases p) auto
    qed
  next
    case False
    with a p have "dirname p = take (nat ?pos) ?d" by (simp add: dirname_def Let_def)
    then show ?thesis using pos p length_drop_trailing_slashes[of p] by auto
  qed
qed

function find_work_dir :: "'w platform \<Rightarrow> string \<Rightarrow> string \<Rightarrow> string \<Rightarrow> 'w \<Rightarrow> string \<Rightarrow> string" where
  "find_work_dir P pc_dir patches_dir cwd w scan =
     (if is_directory P (path_join scan pc_dir) w \<or>
         (\<not> is_absolute_path patches_dir \<and> is_directory P (path_join scan patches_dir) w)
      then scan
      else let parent = dirname scan in
        if parent = scan then cwd else find_work_dir P pc_dir patches_dir cwd w parent)"
  by pat_completeness auto
termination
proof (relation "measure (\<lambda>(P, pc, pd, cwd, w, scan). if scan = ''.'' then 0 else Suc (length scan))", goal_cases)
  case (2 P pc pd cwd w scan parent)
  then have "scan \<noteq> ''.''" by (auto simp: dirname_def Let_def str_rfind_def rdrop_while_def)
  with 2 dirname_shorter[of scan] show ?case by auto
qed simp

declare find_work_dir.simps [simp del]

definition has_quilt_dirs :: "'w platform \<Rightarrow> string \<Rightarrow> string \<Rightarrow> string \<Rightarrow> 'w \<Rightarrow> bool" where
  "has_quilt_dirs P pc_dir patches_dir dir w \<longleftrightarrow>
     is_directory P (path_join dir pc_dir) w \<or>
     (\<not> is_absolute_path patches_dir \<and> is_directory P (path_join dir patches_dir) w)"

lemma find_work_dir_found:
  "find_work_dir P pc_dir patches_dir cwd w scan = cwd \<or>
   has_quilt_dirs P pc_dir patches_dir (find_work_dir P pc_dir patches_dir cwd w scan) w"
proof (induction P pc_dir patches_dir cwd w scan rule: find_work_dir.induct)
  case (1 P pc_dir patches_dir cwd w scan)
  then show ?case
    by (cases "has_quilt_dirs P pc_dir patches_dir scan w \<or> dirname scan = scan")
      (auto simp: find_work_dir.simps[of P pc_dir patches_dir cwd w scan] has_quilt_dirs_def Let_def)
qed

lemma find_work_dir_nearest:
  "has_quilt_dirs P pc_dir patches_dir scan w \<Longrightarrow> find_work_dir P pc_dir patches_dir cwd w scan = scan"
  by (subst find_work_dir.simps) (auto simp: has_quilt_dirs_def)

definition find_series_file ::
  "'w platform \<Rightarrow> string \<Rightarrow> string \<Rightarrow> string \<Rightarrow> string \<Rightarrow> 'w \<Rightarrow> string" where
  "find_series_file P work_dir patches_dir pc_dir series_name w =
     (if file_exists P (path_join3 work_dir pc_dir series_name) w then path_join pc_dir series_name
      else if file_exists P (path_join work_dir series_name) w then series_name
      else path_join patches_dir series_name)"

text \<open>The name of an override file in \<open>.pc\<close>, when there is one.\<close>

definition read_override :: "'w platform \<Rightarrow> string \<Rightarrow> string \<Rightarrow> 'w \<Rightarrow> string" where
  "read_override P pc_abs name w =
     (if is_directory P pc_abs w then trim (read_file P (path_join pc_abs name) w) else [])"

definition load_state :: "'w platform \<Rightarrow> 'w \<Rightarrow> (quilt_state \<times> 'w) option" where
  "load_state P w =
     (let env_pc = get_env P ''QUILT_PC'' w;
          pc_dir = (if env_pc \<noteq> [] then env_pc else ''.pc'');
          env_patches = get_env P ''QUILT_PATCHES'' w;
          patches_dir = (if env_patches \<noteq> [] then env_patches else ''patches'');
          env_series = get_env P ''QUILT_SERIES'' w;
          cwd = get_cwd P w;
          work_dir = find_work_dir P pc_dir patches_dir cwd w cwd
      in if work_dir \<noteq> cwd \<and> length work_dir + 1 > length cwd then None
         else
           let subdir = (if work_dir \<noteq> cwd then drop (length work_dir + 1) cwd else []);
               w = (if work_dir \<noteq> cwd then snd (set_cwd P work_dir w) else w);
               pc_abs = path_join work_dir pc_dir;
               qp = read_override P pc_abs ''.quilt_patches'' w;
               patches_dir = (if qp \<noteq> [] then qp else patches_dir);
               qs = read_override P pc_abs ''.quilt_series'' w;
               series_name = (if qs \<noteq> [] then qs else if env_series = [] then ''series'' else env_series);
               series_file = find_series_file P work_dir patches_dir pc_dir series_name w;
               series_abs = path_join work_dir series_file
           in map_option (\<lambda>(series, levels, reversed).
                (\<lparr>q_work_dir = work_dir, q_patches_dir = patches_dir, q_pc_dir = pc_dir,
                  q_series_file = series_file, q_subdir = subdir,
                  q_series_file_exists = file_exists P series_abs w,
                  q_series = series,
                  q_applied = read_applied P (path_join3 work_dir pc_dir ''applied-patches'') w,
                  q_strip_level = levels, q_reversed = reversed, q_config = Map.empty\<rparr>, w))
                (read_series P series_abs w))"

section \<open>Backups\<close>

definition pc_patch_dir :: "quilt_state \<Rightarrow> string \<Rightarrow> string" where
  "pc_patch_dir q patch = path_join3 (q_work_dir q) (q_pc_dir q) patch"

definition is_metadata :: "string \<Rightarrow> bool" where
  "is_metadata f =
     (let pos = str_rfind f slash; base = (if pos \<ge> 0 then drop (nat (pos + 1)) f else f)
      in base \<noteq> [] \<and> hd base = CHR ''.'')"

definition files_in_patch :: "'w platform \<Rightarrow> quilt_state \<Rightarrow> string \<Rightarrow> 'w \<Rightarrow> string list" where
  "files_in_patch P q patch w =
     (let dir = pc_patch_dir q patch in
      if \<not> is_directory P dir w then []
      else filter (\<lambda>f. \<not> is_metadata f) (find_files_recursive P dir w))"

text \<open>The check that a directory exists, made when it does not; on failure with its message.\<close>

definition need_dir :: "'w platform \<Rightarrow> string \<Rightarrow> 'w \<Rightarrow> bool \<times> 'w" where
  "need_dir P dir w =
     (if \<not> is_directory P dir w then
        let (ok, w) = make_dirs P dir w in
        if \<not> ok then (False, err_line P (''Failed to create directory: '' @ dir) w) else (True, w)
      else (True, w))"

definition backup_file :: "'w platform \<Rightarrow> quilt_state \<Rightarrow> string \<Rightarrow> string \<Rightarrow> 'w \<Rightarrow> bool \<times> 'w" where
  "backup_file P q patch file w =
     (let src = path_join (q_work_dir q) file;
          dst = path_join (pc_patch_dir q patch) file;
          (ok, w) = need_dir P (dirname dst) w
      in if \<not> ok then (False, w)
         else if file_exists P src w then copy_file P src dst w
         else write_file P dst [] w)"

definition restore_file :: "'w platform \<Rightarrow> quilt_state \<Rightarrow> string \<Rightarrow> string \<Rightarrow> 'w \<Rightarrow> bool \<times> 'w" where
  "restore_file P q patch file w =
     (let backup = path_join (pc_patch_dir q patch) file;
          target = path_join (q_work_dir q) file
      in if \<not> file_exists P backup w then (False, err_line P file (err P ''No backup for '' w))
         else
           let content = read_file P backup w in
           if content = [] then
             (if file_exists P target w then
                let (ok, w) = delete_file P target w in
                if \<not> ok then (False, err_line P (''Failed to remove '' @ target) w) else (True, w)
              else (True, w))
           else
             let (ok, w) = need_dir P (dirname target) w in
             if \<not> ok then (False, w) else write_file P target content w)"

section \<open>Laws: the series file\<close>

text \<open>Names the file can hold: no white space, no number sign, not empty.\<close>

definition name_ok :: "string \<Rightarrow> bool" where
  "name_ok n \<longleftrightarrow> n \<noteq> [] \<and> list_all (\<lambda>c. \<not> is_space c \<and> c \<noteq> CHR ''#'') n"

lemma str_find_sub_from_absent:
  "c \<in> set needle \<Longrightarrow> c \<notin> set s \<Longrightarrow> str_find_sub_from s needle i = - 1"
proof (induction s arbitrary: i)
  case Nil
  then show ?case by (subst str_find_sub_from.simps) auto
next
  case (Cons x s)
  have "take (length needle) (x # s) \<noteq> needle" using Cons.prems by (metis in_set_takeD)
  then show ?case using Cons by (subst str_find_sub_from.simps) simp
qed

lemma str_find_sub_absent: "c \<in> set needle \<Longrightarrow> c \<notin> set s \<Longrightarrow> str_find_sub s needle = - 1"
  by (simp add: str_find_sub_def str_find_sub_from_absent)

lemma digit_chars:
  assumes "c \<in> set (int_str n)"
  shows "\<not> is_space c \<and> c \<noteq> CHR ''#''"
proof -
  have "is_digit c \<or> c = CHR ''-''"
    using assms nat_str_digits by (auto simp: int_str_def split: if_splits)
  then show ?thesis by (auto simp: is_digit_def char_in_def is_space_def)
qed

definition entry_words :: "(string \<rightharpoonup> int) \<Rightarrow> string set \<Rightarrow> string \<Rightarrow> string list" where
  "entry_words levels reversed p =
     p # (case levels p of Some n \<Rightarrow> if n \<noteq> 1 then [''-p'' @ int_str n] else [] | None \<Rightarrow> []) @
     (if p \<in> reversed then [''-R''] else [])"

definition sep_words :: "string list \<Rightarrow> string" where
  "sep_words ws = concat (map (\<lambda>w. spc # w) ws)"

lemma split_sep_words:
  assumes "\<And>w. w \<in> set ws \<Longrightarrow> w \<noteq> [] \<and> (\<forall>c \<in> set w. \<not> is_blank c)"
  shows "split_on_whitespace (sep_words ws) = ws"
  using assms
proof (induction ws)
  case (Cons w ws)
  have "is_blank spc" by (simp add: is_blank_def)
  then have 1: "split_on_whitespace (spc # w @ sep_words ws) = split_on_whitespace (w @ sep_words ws)"
    by (rule split_on_whitespace_blank)
  have "sep_words ws = [] \<or> is_blank (hd (sep_words ws))"
    by (cases ws) (simp_all add: sep_words_def is_blank_def)
  then have "split_on_whitespace (w @ sep_words ws) = w # split_on_whitespace (sep_words ws)"
    using Cons.prems[of w] by (intro split_on_whitespace_token) auto
  moreover have "split_on_whitespace (sep_words ws) = ws" using Cons by auto
  moreover have "sep_words (w # ws) = spc # w @ sep_words ws" by (simp add: sep_words_def)
  ultimately show ?case using 1 by simp
qed (simp add: sep_words_def)

lemma series_entry_words:
  "series_entry levels reversed p = tl (sep_words (entry_words levels reversed p))"
  by (simp add: series_entry_def entry_words_def sep_words_def split: option.splits)

lemma entry_words_cases:
  assumes "w \<in> set (entry_words levels reversed p)"
  obtains "w = p" | n where "w = ''-p'' @ int_str n" | "w = ''-R''"
  using assms by (auto simp: entry_words_def split: option.splits if_splits)

lemma entry_words_ok:
  assumes "name_ok p" "w \<in> set (entry_words levels reversed p)" "c \<in> set w"
  shows "\<not> is_space c \<and> c \<noteq> CHR ''#''"
  using assms(2)
proof (cases rule: entry_words_cases)
  case 1
  then show ?thesis using assms(1,3) by (auto simp: name_ok_def list_all_iff)
next
  case (2 n)
  then show ?thesis using assms(3) digit_chars[of c n] by (auto simp: is_space_def)
next
  case 3
  then show ?thesis using assms(3) by (auto simp: is_space_def)
qed

lemma entry_words_nonempty: "name_ok p \<Longrightarrow> w \<in> set (entry_words levels reversed p) \<Longrightarrow> w \<noteq> []"
  by (erule entry_words_cases) (auto simp: name_ok_def)

lemma entry_split:
  assumes "name_ok p"
  shows "split_on_whitespace (series_entry levels reversed p) = entry_words levels reversed p"
proof -
  have "split_on_whitespace (sep_words (entry_words levels reversed p)) = entry_words levels reversed p"
  proof (rule split_sep_words)
    fix w assume w: "w \<in> set (entry_words levels reversed p)"
    show "w \<noteq> [] \<and> (\<forall>c \<in> set w. \<not> is_blank c)"
      using entry_words_nonempty[OF assms w] entry_words_ok[OF assms w]
      by (auto simp: is_blank_def is_space_def)
  qed
  moreover have "sep_words (entry_words levels reversed p) = spc # series_entry levels reversed p"
    by (simp add: series_entry_words) (simp add: sep_words_def entry_words_def)
  moreover have "is_blank spc" by (simp add: is_blank_def)
  ultimately show ?thesis using split_on_whitespace_blank by metis
qed

lemma entry_chars:
  assumes "name_ok p" "c \<in> set (series_entry levels reversed p)"
  shows "c \<noteq> CHR ''#'' \<and> c \<noteq> nl \<and> c \<noteq> cr"
  using assms digit_chars[of c]
  by (auto simp: series_entry_def name_ok_def list_all_iff is_space_def split: option.splits if_splits)

lemma entry_last:
  assumes "name_ok p"
  shows "series_entry levels reversed p \<noteq> []" "\<not> is_space (last (series_entry levels reversed p))"
    "\<not> is_space (hd (series_entry levels reversed p))"
proof -
  have p: "p \<noteq> []" "\<not> is_space (last p)" "\<not> is_space (hd p)"
    using assms by (auto simp: name_ok_def list_all_iff)
  have n: "\<not> is_space (last (int_str n))" for n using digit_chars[of "last (int_str n)" n] by simp
  show "series_entry levels reversed p \<noteq> []" "\<not> is_space (hd (series_entry levels reversed p))"
    using p by (auto simp: series_entry_def)
  show "\<not> is_space (last (series_entry levels reversed p))"
    using p n by (auto simp: series_entry_def is_space_def split: option.splits)
qed

lemma series_options_entry:
  assumes "\<And>n. levels p = Some n \<Longrightarrow> - INT_MAX - 1 \<le> n \<and> n \<le> INT_MAX"
  shows "series_options (tl (entry_words levels reversed p)) 1 False =
     Some (case levels p of Some n \<Rightarrow> n | None \<Rightarrow> 1, p \<in> reversed)"
proof -
  have pn: "checked_int (parse_int (int_str n)) = Some n" if "levels p = Some n" for n
    using assms[OF that] parse_int_int_str[of n]
    by (simp add: checked_int_def INT_MAX_def PTRDIFF_MAX_def)
  have st: "starts_with (''-p'' @ int_str n) ''-p''" for n by (simp add: starts_with_def)
  have ne: "''-p'' @ int_str n \<noteq> ''-p''" "\<not> ''-p'' @ int_str n = ''-R''" for n by auto
  have R: "series_options [''-R''] k False = Some (k, True)" for k by (simp add: starts_with_def)
  show ?thesis
  proof (cases "levels p")
    case None
    then show ?thesis using R by (simp add: entry_words_def)
  next
    case (Some n)
    have "series_options ((''-p'' @ int_str n) # ts) 1 False = series_options ts n False" for ts
      using st[of n] ne[of n] pn[OF Some] by simp
    then show ?thesis using R Some by (simp add: entry_words_def)
  qed
qed

lemma series_line_entry:
  assumes "name_ok p" "\<And>n. levels p = Some n \<Longrightarrow> - INT_MAX - 1 \<le> n \<and> n \<le> INT_MAX"
  shows "series_line (series_entry levels reversed p) =
     Some (Some (p, case levels p of Some n \<Rightarrow> n | None \<Rightarrow> 1, p \<in> reversed))"
proof -
  let ?e = "series_entry levels reversed p"
  have t: "trim ?e = ?e" using entry_last[OF assms(1)] by (intro trim_id) auto
  have h: "CHR ''#'' \<notin> set ?e" using entry_chars[OF assms(1)] by blast
  then have s: "str_find_sub ?e '' #'' = - 1" by (intro str_find_sub_absent[of "CHR ''#''"]) auto
  have hd: "hd ?e \<noteq> CHR ''#''" using h entry_last(1)[OF assms(1)] hd_in_set by metis
  have w: "entry_words levels reversed p = p # tl (entry_words levels reversed p)"
    by (simp add: entry_words_def)
  have "split_on_whitespace ?e = p # tl (entry_words levels reversed p)"
    using entry_split[OF assms(1)] w by metis
  then show ?thesis
    using entry_last(1)[OF assms(1)] hd series_options_entry[OF assms(2)]
    by (simp add: series_line_def Let_def t s)
qed

lemma series_lines_entries:
  assumes "\<And>p. p \<in> set ps \<Longrightarrow> name_ok p"
    "\<And>p n. levels p = Some n \<Longrightarrow> - INT_MAX - 1 \<le> n \<and> n \<le> INT_MAX"
  shows "series_lines (map (series_entry levels reversed) ps) (qs, lv, rv) =
     Some (qs @ ps,
       (\<lambda>p. if p \<in> set ps \<and> (\<exists>n. levels p = Some n \<and> n \<noteq> 1) then levels p else lv p),
       rv \<union> (reversed \<inter> set ps))"
  using assms(1)
proof (induction ps arbitrary: qs lv rv)
  case (Cons p ps)
  have "series_line (series_entry levels reversed p) =
     Some (Some (p, case levels p of Some n \<Rightarrow> n | None \<Rightarrow> 1, p \<in> reversed))"
    by (rule series_line_entry) (use Cons.prems assms(2) in auto)
  then show ?case
    using Cons by (auto simp: add_series_def fun_eq_iff split: option.splits)
qed simp

text \<open>What was written is read back.\<close>

lemma read_write_series:
  assumes "read_file P path w' = unlines (map (series_entry levels reversed) ps)"
    "\<And>p. p \<in> set ps \<Longrightarrow> name_ok p"
    "\<And>p n. levels p = Some n \<Longrightarrow> - INT_MAX - 1 \<le> n \<and> n \<le> INT_MAX"
  shows "read_series P path w' =
     Some (ps, (\<lambda>p. if p \<in> set ps \<and> levels p \<noteq> Some 1 then levels p else None), reversed \<inter> set ps)"
proof -
  let ?es = "map (series_entry levels reversed) ps"
  have e: "nl \<notin> set l \<and> strip_cr l = l" if "l \<in> set ?es" for l
  proof -
    from that obtain p where p: "p \<in> set ps" "l = series_entry levels reversed p" by auto
    have "last l \<noteq> cr" using entry_last(2)[OF assms(2)[OF p(1)]] p(2) by (auto simp: is_space_def)
    then show ?thesis using entry_chars[OF assms(2)[OF p(1)]] p(2) by (auto simp: strip_cr_id)
  qed
  have "split_lines (unlines ?es @ []) = map strip_cr ?es @ split_lines []"
    by (rule split_lines_unlines) (use e in blast)
  moreover have "map strip_cr ?es = ?es" using e by (intro map_idI) blast
  ultimately have s: "split_lines (unlines ?es) = ?es" by simp
  have r: "series_lines ?es ([], Map.empty, {}) =
      Some (ps, (\<lambda>p. if p \<in> set ps \<and> levels p \<noteq> Some 1 then levels p else None), reversed \<inter> set ps)"
  proof -
    have eq: "(\<lambda>p. if p \<in> set ps \<and> (\<exists>n. levels p = Some n \<and> n \<noteq> 1) then levels p else None) =
        (\<lambda>p. if p \<in> set ps \<and> levels p \<noteq> Some 1 then levels p else None)"
    proof (rule ext)
      fix p show "(if p \<in> set ps \<and> (\<exists>n. levels p = Some n \<and> n \<noteq> 1) then levels p else None) =
          (if p \<in> set ps \<and> levels p \<noteq> Some 1 then levels p else None)"
        by (cases "levels p") auto
    qed
    have "series_lines ?es ([], Map.empty, {}) = Some ([] @ ps,
        (\<lambda>p. if p \<in> set ps \<and> (\<exists>n. levels p = Some n \<and> n \<noteq> 1) then levels p else None),
        {} \<union> (reversed \<inter> set ps))"
      by (rule series_lines_entries[OF assms(2,3)])
    then show ?thesis by (simp only: eq append_Nil Un_empty_left)
  qed
  show ?thesis
  proof (cases "ps = []")
    case True
    then show ?thesis using assms(1) by (simp add: read_series_def)
  next
    case False
    then have "unlines ?es \<noteq> []" by (cases ps) auto
    then show ?thesis using assms(1) s r by (simp add: read_series_def)
  qed
qed

lemma read_write_applied:
  assumes "read_file P path w' = unlines ps" "\<And>p. p \<in> set ps \<Longrightarrow> name_ok p"
  shows "read_applied P path w' = ps"
proof -
  have e: "nl \<notin> set p \<and> strip_cr p = p \<and> trim p = p \<and> p \<noteq> []" if "p \<in> set ps" for p
  proof -
    have ok: "p \<noteq> []" "\<forall>c \<in> set p. \<not> is_space c" using assms(2)[OF that] by (auto simp: name_ok_def list_all_iff)
    then have "\<not> is_space (hd p)" "\<not> is_space (last p)" by auto
    then show ?thesis using ok by (auto simp: trim_id strip_cr_id is_space_def)
  qed
  have "split_lines (unlines ps @ []) = map strip_cr ps @ split_lines []"
    by (rule split_lines_unlines) (use e in blast)
  moreover have "map strip_cr ps = ps" "map trim ps = ps" "filter (\<lambda>t. t \<noteq> []) ps = ps"
    using e by (auto intro!: map_idI filter_True)
  ultimately have "filter (\<lambda>t. t \<noteq> []) (map trim (split_lines (unlines ps))) = ps" by simp
  then show ?thesis using assms(1) by (cases ps) (auto simp: read_applied_def)
qed

end
