(* ===== verification/Quilt_Command.thy ===== *)
theory Quilt_Command
  imports Quilt_Core
begin

text \<open>
  How the commands of \<open>src/src/quilt.cpp\<close> are modelled: a step of a command goes on
  with a value, ends the command with an exit code, or aborts the program (a failed assertion,
  a bounds check of the library, a call that does not return). The state is the
  \<open>QuiltState\<close> with the world. An argument is never indexed past its end: the first
  character of an empty argument is the terminator, which is no dash.
\<close>

datatype ('a, 's) res = Go 'a 's | Exit int 's | Abort

type_synonym 'w qs = "quilt_state \<times> 'w"

fun bind_res :: "('a, 's) res \<Rightarrow> ('a \<Rightarrow> 's \<Rightarrow> ('b, 's) res) \<Rightarrow> ('b, 's) res" where
  "bind_res (Go a s) f = f a s"
| "bind_res (Exit n s) f = Exit n s"
| "bind_res Abort f = Abort"

text \<open>The exit code and the state at the end of a command.\<close>

fun finish :: "(int, 's) res \<Rightarrow> (int \<times> 's) option" where
  "finish (Go n s) = Some (n, s)"
| "finish (Exit n s) = Some (n, s)"
| "finish Abort = None"

text \<open>A command called by another one: its exit code is a value.\<close>

fun call :: "(int, 's) res \<Rightarrow> (int, 's) res" where
  "call (Go n s) = Go n s"
| "call (Exit n s) = Go n s"
| "call Abort = Abort"

definition world :: "('w \<Rightarrow> 'w) \<Rightarrow> 'w qs \<Rightarrow> 'w qs" where
  "world f = (\<lambda>(q, w). (q, f w))"

definition is_option :: "string \<Rightarrow> bool" where
  "is_option arg \<longleftrightarrow> arg \<noteq> [] \<and> hd arg = CHR ''-''"

definition unrecognized :: "'w platform \<Rightarrow> string \<Rightarrow> 'w qs \<Rightarrow> ('a, 'w qs) res" where
  "unrecognized P arg s = Exit 1 (world (\<lambda>w. err_line P arg (err P ''Unrecognized option: '' w)) s)"

definition bad_color :: "'w platform \<Rightarrow> string \<Rightarrow> 'w qs \<Rightarrow> ('a, 'w qs) res" where
  "bad_color P val s = Exit 1 (world (\<lambda>w. err_line P val (err P ''Invalid --color value: '' w)) s)"

text \<open>The complaint about a patch: \<open>Patch <name><what>\<close>.\<close>

definition patch_error :: "'w platform \<Rightarrow> int \<Rightarrow> string \<Rightarrow> string \<Rightarrow> 'w qs \<Rightarrow> ('a, 'w qs) res" where
  "patch_error P code target what = (\<lambda>(q, w).
     Exit code (q, err_line P what (err P (format_patch P q target w) (err P ''Patch '' w))))"

definition no_patches :: "'w platform \<Rightarrow> int \<Rightarrow> 'w qs \<Rightarrow> ('a, 'w qs) res" where
  "no_patches P code = (\<lambda>(q, w).
     if q_series_file_exists q then Exit code (q, err_line P ''No patches in series'' w)
     else Exit 1 (q, err_line P ''No series file found'' w))"

lemma bind_res_simps [state_simps]:
  "bind_res m (\<lambda>a s. Go a s) = m"
  "bind_res (bind_res m f) g = bind_res m (\<lambda>a s. bind_res (f a s) g)"
  by (cases m; simp)+

text \<open>A property of the state a step leaves, however it ends.\<close>

fun holds :: "('s \<Rightarrow> bool) \<Rightarrow> ('a, 's) res \<Rightarrow> bool" where
  "holds Q (Go a s) = Q s"
| "holds Q (Exit n s) = Q s"
| "holds Q Abort = True"

lemma holds_bindI:
  "holds Q m \<Longrightarrow> (\<And>a s. m = Go a s \<Longrightarrow> Q s \<Longrightarrow> holds R (f a s)) \<Longrightarrow> (\<And>s. Q s \<Longrightarrow> R s) \<Longrightarrow> holds R (bind_res m f)"
  by (cases m) auto

lemma holds_mono: "holds Q m \<Longrightarrow> (\<And>s. Q s \<Longrightarrow> R s) \<Longrightarrow> holds R m"
  by (cases m) auto

lemma holds_call [simp]: "holds Q (call m) \<longleftrightarrow> holds Q m"
  by (cases m) auto

lemma bind_res_Go: "bind_res m f = Go b s' \<longleftrightarrow> (\<exists>a s. m = Go a s \<and> f a s = Go b s')"
  by (cases m) auto

text \<open>A step that leaves the \<open>QuiltState\<close> alone and ends the command only with an error
  code.\<close>

fun neutral :: "quilt_state \<Rightarrow> ('a, 'w qs) res \<Rightarrow> bool" where
  "neutral q (Go a s) \<longleftrightarrow> fst s = q"
| "neutral q (Exit n s) \<longleftrightarrow> n \<noteq> 0 \<and> fst s = q"
| "neutral q Abort \<longleftrightarrow> True"

lemma neutral_bindI:
  "neutral q m \<Longrightarrow> (\<And>a s. m = Go a s \<Longrightarrow> fst s = q \<Longrightarrow> neutral q (f a s)) \<Longrightarrow> neutral q (bind_res m f)"
  by (cases m) auto

lemma neutral_errors [simp]:
  "neutral q (unrecognized P arg s) \<longleftrightarrow> fst s = q"
  "neutral q (bad_color P arg s) \<longleftrightarrow> fst s = q"
  "neutral q (patch_error P code t what s) \<longleftrightarrow> code \<noteq> 0 \<and> fst s = q"
  by (auto simp: unrecognized_def bad_color_def patch_error_def world_def split: prod.splits)

lemma world_simps [simp]: "world f (q, w) = (q, f w)" "fst (world f s) = fst s"
  by (auto simp: world_def split: prod.splits)

end
