(* ===== verification/Stack_Query.thy ===== *)
theory Stack_Query
  imports Quilt_Command
begin

text \<open>
  The commands that report on the stack (\<open>cmd_stack.cpp\<close> part of
  \<open>src/src/quilt.cpp\<close>): series, applied, unapplied, top, next and previous. None of
  them changes the \<open>QuiltState\<close>.
\<close>

section \<open>Arguments\<close>

text \<open>The loop shared by applied, unapplied, next and previous: the last plain argument is
  the target.\<close>

fun target_args :: "'w platform \<Rightarrow> string list \<Rightarrow> string \<Rightarrow> 'w qs \<Rightarrow> (string, 'w qs) res" where
  "target_args P [] target s = Go target s"
| "target_args P (arg # args) target s =
     (if is_option arg then unrecognized P arg s
      else target_args P args (strip_patches_prefix (fst s) arg) s)"

section \<open>series\<close>

fun series_args :: "'w platform \<Rightarrow> string list \<Rightarrow> bool \<Rightarrow> int \<Rightarrow> 'w qs \<Rightarrow> (bool \<times> int, 'w qs) res" where
  "series_args P [] verbose color_mode s = Go (verbose, color_mode) s"
| "series_args P (arg # args) verbose color_mode s =
     (if arg = ''-v'' then series_args P args True color_mode s
      else if arg = ''--color'' then series_args P args verbose 1 s
      else if starts_with arg ''--color='' then
        let val = drop 8 arg in
        if val = ''always'' then series_args P args verbose 2 s
        else if val = ''auto'' then series_args P args verbose 1 s
        else if val = ''never'' then series_args P args verbose 0 s
        else bad_color P val s
      else if is_option arg then unrecognized P arg s
      else series_args P args verbose color_mode s)"

definition is_top :: "quilt_state \<Rightarrow> string \<Rightarrow> bool" where
  "is_top q patch \<longleftrightarrow> q_applied q \<noteq> [] \<and> patch = last (q_applied q)"

abbreviation esc :: char where "esc \<equiv> CHR 0x1B"

definition series_mark :: "quilt_state \<Rightarrow> string \<Rightarrow> string" where
  "series_mark q patch = (if is_top q patch then ''= '' else if is_applied q patch then ''+ '' else ''  '')"

definition series_color :: "quilt_state \<Rightarrow> string \<Rightarrow> string" where
  "series_color q patch =
     esc # (if is_top q patch then ''[33m'' else if is_applied q patch then ''[32m'' else ''[00m'')"

definition print_series_line :: "'w platform \<Rightarrow> quilt_state \<Rightarrow> bool \<Rightarrow> bool \<Rightarrow> string \<Rightarrow> 'w \<Rightarrow> 'w" where
  "print_series_line P q verbose use_color patch w =
     (let w = (if verbose then out P (series_mark q patch) w else w);
          name = format_patch P q patch w
      in if use_color
         then out_line P (esc # ''[00m'') (out P name (out P (series_color q patch) w))
         else out_line P name w)"

definition cmd_series :: "'w platform \<Rightarrow> string list \<Rightarrow> 'w qs \<Rightarrow> (int, 'w qs) res" where
  "cmd_series P args s =
     bind_res (series_args P args False 0 s) (\<lambda>(verbose, color_mode) (q, w).
       let use_color = (color_mode = 2 \<or> (color_mode = 1 \<and> stdout_is_tty P w)) in
       if q_series q = [] then
         (if q_series_file_exists q then Go 0 (q, w)
          else Go 1 (q, err_line P ''No series file found'' w))
       else Go 0 (q, fold (print_series_line P q verbose use_color) (q_series q) w))"

section \<open>applied and unapplied\<close>

definition print_patch :: "'w platform \<Rightarrow> quilt_state \<Rightarrow> string \<Rightarrow> 'w \<Rightarrow> 'w" where
  "print_patch P q patch w = out_line P (format_patch P q patch w) w"

text \<open>The loop that stops behind the target.\<close>

definition through :: "string \<Rightarrow> string list \<Rightarrow> string list" where
  "through target xs = takeWhile (\<lambda>x. x \<noteq> target) xs @ take 1 (dropWhile (\<lambda>x. x \<noteq> target) xs)"

definition cmd_applied :: "'w platform \<Rightarrow> string list \<Rightarrow> 'w qs \<Rightarrow> (int, 'w qs) res" where
  "cmd_applied P args s =
     bind_res (target_args P args [] s) (\<lambda>target (q, w).
       if target \<noteq> [] then
         (if find_in_series q target = None then patch_error P 1 target '' is not in series'' (q, w)
          else if \<not> is_applied q target then patch_error P 1 target '' is not applied'' (q, w)
          else Go 0 (q, fold (print_patch P q) (through target (q_applied q)) w))
       else if q_series q = [] then no_patches P 1 (q, w)
       else if q_applied q = [] then Exit 1 (q, err_line P ''No patches applied'' w)
       else Go 0 (q, fold (print_patch P q) (q_applied q) w))"

definition fully_applied :: "'w platform \<Rightarrow> int \<Rightarrow> 'w qs \<Rightarrow> ('a, 'w qs) res" where
  "fully_applied P code = (\<lambda>(q, w).
     let top_name = (if q_applied q = [] then ''??'' else last (q_applied q)) in
     Exit code (q, err_line P (format_patch P q top_name w)
       (err P ''File series fully applied, ends at patch '' w)))"

definition cmd_unapplied :: "'w platform \<Rightarrow> string list \<Rightarrow> 'w qs \<Rightarrow> (int, 'w qs) res" where
  "cmd_unapplied P args s =
     bind_res (target_args P args [] s) (\<lambda>target (q, w).
       if q_series q = [] then no_patches P 1 (q, w)
       else
         case (if target \<noteq> [] then map_option (\<lambda>i. i + 1) (find_in_series q target)
               else Some (top_index q + 1)) of
           None \<Rightarrow> patch_error P 1 target '' is not in series'' (q, w)
         | Some start_idx \<Rightarrow>
             if start_idx \<ge> int (length (q_series q)) then
               (if target \<noteq> [] then Go 0 (q, w) else fully_applied P 1 (q, w))
             else Go 0 (q, fold (print_patch P q) (drop (nat start_idx) (q_series q)) w))"

section \<open>top, next and previous\<close>

fun top_args :: "'w platform \<Rightarrow> string list \<Rightarrow> 'w qs \<Rightarrow> (unit, 'w qs) res" where
  "top_args P [] s = Go () s"
| "top_args P (arg # args) s = (if is_option arg then unrecognized P arg s else top_args P args s)"

definition cmd_top :: "'w platform \<Rightarrow> string list \<Rightarrow> 'w qs \<Rightarrow> (int, 'w qs) res" where
  "cmd_top P args s =
     bind_res (top_args P args s) (\<lambda>_ (q, w).
       if q_series q = [] then no_patches P 2 (q, w)
       else if q_applied q = [] then Exit 2 (q, err_line P ''No patches applied'' w)
       else Go 0 (q, print_patch P q (last (q_applied q)) w))"

definition cmd_next :: "'w platform \<Rightarrow> string list \<Rightarrow> 'w qs \<Rightarrow> (int, 'w qs) res" where
  "cmd_next P args s =
     bind_res (target_args P args [] s) (\<lambda>target (q, w).
       if q_series q = [] then no_patches P 2 (q, w)
       else if target \<noteq> [] then
         (if find_in_series q target = None then patch_error P 2 target '' is not in series'' (q, w)
          else if is_applied q target then patch_error P 2 target '' is currently applied'' (q, w)
          else Go 0 (q, print_patch P q target w))
       else
         let after_idx = top_index q + 1 in
         if after_idx \<ge> int (length (q_series q)) then fully_applied P 2 (q, w)
         else Go 0 (q, print_patch P q (q_series q ! nat after_idx) w))"

definition cmd_previous :: "'w platform \<Rightarrow> string list \<Rightarrow> 'w qs \<Rightarrow> (int, 'w qs) res" where
  "cmd_previous P args s =
     bind_res (target_args P args [] s) (\<lambda>target (q, w).
       if target \<noteq> [] then
         (case find_in_series q target of
            None \<Rightarrow> patch_error P 2 target '' is not in series'' (q, w)
          | Some idx \<Rightarrow>
              if idx = 0 then Exit 2 (q, w)
              else Go 0 (q, print_patch P q (q_series q ! nat (idx - 1)) w))
       else if q_series q = [] then no_patches P 2 (q, w)
       else if q_applied q = [] then Exit 1 (q, err_line P ''No patches applied'' w)
       else if length (q_applied q) = 1 then Exit 2 (q, w)
       else Go 0 (q, print_patch P q (q_applied q ! (length (q_applied q) - 2)) w))"

section \<open>Laws\<close>

lemma index_of_spec:
  "index_of x ys i = Some k \<Longrightarrow>
   i \<le> k \<and> k < i + int (length ys) \<and> ys ! nat (k - i) = x \<and> (\<forall>j < nat (k - i). ys ! j \<noteq> x)"
proof (induction ys arbitrary: i)
  case (Cons y ys)
  show ?case
  proof (cases "y = x")
    case True
    then show ?thesis using Cons.prems by simp
  next
    case False
    then have IH: "i + 1 \<le> k" "k < i + 1 + int (length ys)" "ys ! nat (k - (i + 1)) = x"
      "\<forall>j < nat (k - (i + 1)). ys ! j \<noteq> x"
      using Cons.IH[of "i + 1"] Cons.prems by auto
    then have n: "nat (k - i) = Suc (nat (k - (i + 1)))" by linarith
    show ?thesis unfolding n using IH False by (auto simp: less_Suc_eq_0_disj)
  qed
qed simp

lemma index_of_None: "index_of x ys i = None \<longleftrightarrow> x \<notin> set ys"
  by (induction ys arbitrary: i) auto

lemma index_of_nth:
  "distinct ys \<Longrightarrow> k < length ys \<Longrightarrow> index_of (ys ! k) ys i = Some (i + int k)"
proof (induction ys arbitrary: i k)
  case (Cons y ys)
  then show ?case by (cases k) (auto simp: nth_mem)
qed simp

text \<open>The stack: the applied patches are the first ones of the series.\<close>

definition stack_ok :: "quilt_state \<Rightarrow> bool" where
  "stack_ok q \<longleftrightarrow> distinct (q_series q) \<and> q_applied q = take (length (q_applied q)) (q_series q)"

lemma top_index_stack:
  assumes "stack_ok q"
  shows "top_index q = int (length (q_applied q)) - 1"
proof (cases "q_applied q = []")
  case False
  let ?n = "length (q_applied q)"
  have a: "q_applied q = take ?n (q_series q)" using assms by (simp add: stack_ok_def)
  then have len: "?n \<le> length (q_series q)" by (metis length_take min.cobounded1)
  have "last (q_applied q) = q_series q ! (?n - 1)"
    using False len a by (metis diff_less last_conv_nth length_greater_0_conv nth_take zero_less_one)
  moreover have n: "?n - 1 < length (q_series q)" "1 \<le> ?n" using False len by (cases "q_applied q"; simp)+
  moreover have "distinct (q_series q)" using assms by (simp add: stack_ok_def)
  ultimately have "index_of (last (q_applied q)) (q_series q) 0 = Some (int (?n - 1))"
    using index_of_nth[of "q_series q" "?n - 1" 0] by simp
  then show ?thesis using False n(2) by (simp add: top_index_def)
qed (simp add: top_index_def)

lemma target_args_state: "target_args P args t s = Go target s' \<Longrightarrow> s' = s"
  by (induction args arbitrary: t) (auto simp: unrecognized_def split: if_splits)

text \<open>On a stack, next prints the patch that follows the applied ones.\<close>

lemma cmd_next_stack:
  assumes "stack_ok q" "length (q_applied q) < length (q_series q)"
  shows "cmd_next P [] (q, w) = Go 0 (q, print_patch P q (q_series q ! length (q_applied q)) w)"
  using assms top_index_stack[OF assms(1)] by (auto simp: cmd_next_def)

end
