(* ===== verification/Stack_Move.thy ===== *)
theory Stack_Move
  imports Stack_Query Builtin_Patch
begin

text \<open>
  The commands that move on the stack (\<open>cmd_stack.cpp\<close> part of
  \<open>src/src/quilt.cpp\<close>): push and pop, with their options, the choice of the patches
  and the steps for one patch. \<open>cmd_refresh\<close>, which both can call, is an argument
  here. The loop of pop is a partial function, for a refresh may add patches.
\<close>

section \<open>Files of a patch\<close>

definition write_applied_patches :: "'w platform \<Rightarrow> 'w qs \<Rightarrow> 'w qs" where
  "write_applied_patches P = (\<lambda>(q, w).
     (q, snd (write_applied P (path_join3 (q_work_dir q) (q_pc_dir q) ''applied-patches'') (q_applied q) w)))"

text \<open>The loop that strips components like \<open>patch -pN\<close>; a name without a slash stays.\<close>

fun strip_slashes :: "nat \<Rightarrow> string \<Rightarrow> string" where
  "strip_slashes 0 f = f"
| "strip_slashes (Suc n) f =
     (if f = [] then f
      else let pos = str_find f slash 0 in
        strip_slashes n (if pos \<ge> 0 then drop (nat pos + 1) f else f))"

definition patch_file_of_line :: "int \<Rightarrow> string \<Rightarrow> string list" where
  "patch_file_of_line strip line =
     (if \<not> starts_with line ''+++ '' then []
      else
        let rest = drop 4 line in
        if starts_with rest ''/dev/null'' then []
        else
          let t = str_find rest tab 0;
              rest = (if t \<ge> 0 then take (nat t) rest else rest);
              f = strip_slashes (nat strip) (trim rest)
          in if f \<noteq> [] then [f] else [])"

definition parse_patch_files :: "string \<Rightarrow> int \<Rightarrow> string list" where
  "parse_patch_files content strip = concat (map (patch_file_of_line strip) (split_lines content))"

section \<open>The options of push\<close>

record push_opts =
  u_all :: bool
  u_force :: bool
  u_quiet :: bool
  u_verbose :: bool
  u_fuzz :: int
  u_merge :: bool
  u_merge_style :: string
  u_leave_rejects :: bool
  u_refresh :: bool
  u_count :: int
  u_target :: string

definition push_defaults :: push_opts where
  "push_defaults = \<lparr>u_all = False, u_force = False, u_quiet = False, u_verbose = False, u_fuzz = - 1,
     u_merge = False, u_merge_style = [], u_leave_rejects = False, u_refresh = False, u_count = - 1,
     u_target = []\<rparr>"

text \<open>A positive number that takes the whole argument.\<close>

definition count_arg :: "string \<Rightarrow> int option" where
  "count_arg arg = (case from_chars (- INT_MAX - 1) INT_MAX arg of
     Some (v, rest) \<Rightarrow> if rest = [] \<and> v > 0 then Some v else None | None \<Rightarrow> None)"

definition push_arg :: "'w platform \<Rightarrow> string \<Rightarrow> push_opts \<Rightarrow> 'w qs \<Rightarrow> (push_opts, 'w qs) res" where
  "push_arg P arg u s =
     (if arg = ''-a'' then Go (u\<lparr>u_all := True\<rparr>) s
      else if arg = ''-f'' then Go (u\<lparr>u_force := True\<rparr>) s
      else if arg = ''-q'' \<or> arg = ''--quiet'' then Go (u\<lparr>u_quiet := True\<rparr>) s
      else if arg = ''-v'' \<or> arg = ''--verbose'' then Go (u\<lparr>u_verbose := True\<rparr>) s
      else if starts_with arg ''--fuzz='' then
        (case checked_int (parse_int (drop 7 arg)) of
           None \<Rightarrow> Abort | Some n \<Rightarrow> Go (u\<lparr>u_fuzz := n\<rparr>) s)
      else if arg = ''-m'' \<or> arg = ''--merge'' then Go (u\<lparr>u_merge := True\<rparr>) s
      else if starts_with arg ''--merge='' then
        Go (u\<lparr>u_merge := True, u_merge_style := drop 8 arg\<rparr>) s
      else if arg = ''--leave-rejects'' then Go (u\<lparr>u_leave_rejects := True\<rparr>) s
      else if arg = ''--refresh'' then Go (u\<lparr>u_refresh := True\<rparr>) s
      else if arg = ''--color'' then Go u s
      else if starts_with arg ''--color='' then
        (let val = drop 8 arg in
         if val \<noteq> ''always'' \<and> val \<noteq> ''auto'' \<and> val \<noteq> ''never'' then bad_color P val s else Go u s)
      else if is_option arg then unrecognized P arg s
      else case count_arg arg of
             Some n \<Rightarrow> Go (u\<lparr>u_count := n\<rparr>) s
           | None \<Rightarrow> Go (u\<lparr>u_target := strip_patches_prefix (fst s) arg\<rparr>) s)"

fun push_args :: "'w platform \<Rightarrow> string list \<Rightarrow> push_opts \<Rightarrow> 'w qs \<Rightarrow> (push_opts, 'w qs) res" where
  "push_args P [] u s = Go u s"
| "push_args P (arg # args) u s = bind_res (push_arg P arg u s) (\<lambda>u s. push_args P args u s)"

section \<open>Which patches\<close>

definition needs_refresh_path :: "quilt_state \<Rightarrow> string \<Rightarrow> string" where
  "needs_refresh_path q name = path_join (pc_patch_dir q name) ''.needs_refresh''"

definition push_range :: "'w platform \<Rightarrow> push_opts \<Rightarrow> 'w qs \<Rightarrow> (int \<times> int, 'w qs) res" where
  "push_range P u = (\<lambda>(q, w).
     if q_applied q \<noteq> [] \<and> file_exists P (needs_refresh_path q (last (q_applied q))) w then
       Exit 1 (q, err_line P (''The topmost patch '' @ format_patch P q (last (q_applied q)) w @
         '' needs to be refreshed first.'') w)
     else
       let start_idx = top_index q + 1; n = int (length (q_series q)) in
       if q_series q = [] then
         Exit 2 (q, err_line P (if q_series_file_exists q then ''No patches in series'' else ''No series file found'') w)
       else if start_idx \<ge> n then
         Exit 2 (q, err_line P (''File series fully applied, ends at patch '' @
           format_patch P q (last (q_applied q)) w) w)
       else if u_all u then Go (start_idx, n - 1) (q, w)
       else if u_target u \<noteq> [] then
         (case find_in_series q (u_target u) of
            None \<Rightarrow> patch_error P 1 (u_target u) '' is not in series'' (q, w)
          | Some end_idx \<Rightarrow>
              if end_idx < start_idx then patch_error P 2 (u_target u) '' is currently applied'' (q, w)
              else Go (start_idx, end_idx) (q, w))
       else if u_count u > 0 then
         (let end_idx = start_idx + u_count u - 1 in
          Go (start_idx, if end_idx \<ge> n then n - 1 else end_idx) (q, w))
       else Go (start_idx, start_idx) (q, w))"

section \<open>One patch\<close>

fun extra_patch_opts :: "string list \<Rightarrow> patch_options \<Rightarrow> patch_options option" where
  "extra_patch_opts [] po = Some po"
| "extra_patch_opts (opt # opts) po =
     (if opt = ''-R'' then extra_patch_opts opts (po\<lparr>o_reverse := True\<rparr>)
      else if opt = ''-f'' \<or> opt = ''--force'' then extra_patch_opts opts (po\<lparr>o_force := True\<rparr>)
      else if opt = ''-s'' then extra_patch_opts opts (po\<lparr>o_quiet := True\<rparr>)
      else if opt = ''-E'' then extra_patch_opts opts (po\<lparr>o_remove_empty := True\<rparr>)
      else if starts_with opt ''--fuzz='' then
        (case checked_int (parse_int (drop 7 opt)) of
           None \<Rightarrow> None | Some n \<Rightarrow> extra_patch_opts opts (po\<lparr>o_fuzz := n\<rparr>))
      else extra_patch_opts opts po)"

definition push_patch_options :: "push_opts \<Rightarrow> string list \<Rightarrow> quilt_state \<Rightarrow> string \<Rightarrow> patch_options option" where
  "push_patch_options u extra q name =
     (let po = default_options\<lparr>o_strip_level := get_strip_level q name, o_remove_empty := True,
                 o_force := u_force u\<rparr>;
          po = (if name \<in> q_reversed q then po\<lparr>o_reverse := True\<rparr> else po);
          po = (if u_fuzz u \<ge> 0 then po\<lparr>o_fuzz := u_fuzz u\<rparr> else po);
          po = (if u_merge u then po\<lparr>o_merge := True, o_merge_style := u_merge_style u\<rparr> else po)
      in map_option (\<lambda>po. if u_verbose u then po\<lparr>o_quiet := True\<rparr> else po) (extra_patch_opts extra po))"

definition run_patch ::
  "'w platform \<Rightarrow> string \<Rightarrow> patch_options \<Rightarrow> 'w \<Rightarrow> (patch_result \<times> 'w) option" where
  "run_patch P text po w =
     map_option (\<lambda>(r, s). (r, io_world s)) (builtin_patch P text po \<lparr>io_fs = None, io_world = w\<rparr>)"

definition mark_applied :: "'w platform \<Rightarrow> string \<Rightarrow> 'w qs \<Rightarrow> 'w qs" where
  "mark_applied P name = (\<lambda>(q, w).
     let (q, w) = write_applied_patches P (q\<lparr>q_applied := q_applied q @ [name]\<rparr>, w)
     in (q, snd (write_file P (path_join (pc_patch_dir q name) ''.timestamp'') [] w)))"

definition push_forced :: "'w platform \<Rightarrow> string \<Rightarrow> string \<Rightarrow> 'w qs \<Rightarrow> ('a, 'w qs) res" where
  "push_forced P name display s =
     (let (q, w) = mark_applied P name s;
          w = snd (write_file P (needs_refresh_path q name) [] w)
      in Exit 1 (q, out_line P (''Applied patch '' @ display @ '' (forced; needs refresh)'') w))"

definition remove_reject :: "'w platform \<Rightarrow> quilt_state \<Rightarrow> string \<Rightarrow> 'w \<Rightarrow> 'w" where
  "remove_reject P q file w =
     (let rej = path_join (q_work_dir q) (file @ ''.rej'') in
      if file_exists P rej w then snd (delete_file P rej w) else w)"

definition push_failed ::
  "'w platform \<Rightarrow> push_opts \<Rightarrow> string \<Rightarrow> string \<Rightarrow> string list \<Rightarrow> 'w qs \<Rightarrow> ('a, 'w qs) res" where
  "push_failed P u name display affected = (\<lambda>(q, w).
     let w = fold (\<lambda>file w. snd (restore_file P q name file w)) affected w;
         w = err_line P (''Patch '' @ display @ '' does not apply (enforce with -f)'') w;
         w = (if u_leave_rejects u then w else fold (remove_reject P q) affected w);
         w = snd (delete_dir_recursive P (pc_patch_dir q name) w)
     in Exit 1 (q, w))"

text \<open>Backing up, patching and recording one patch whose text was read.\<close>

definition push_content ::
  "'w platform \<Rightarrow> (string list \<Rightarrow> 'w qs \<Rightarrow> (int, 'w qs) res) \<Rightarrow> push_opts \<Rightarrow> string list \<Rightarrow>
   string \<Rightarrow> string \<Rightarrow> string \<Rightarrow> 'w qs \<Rightarrow> (unit, 'w qs) res" where
  "push_content P refresh u extra name display patch_content = (\<lambda>(q, w).
     let affected = parse_patch_files patch_content (get_strip_level q name);
         pc_dir = pc_patch_dir q name;
         w = (if \<not> is_directory P pc_dir w then snd (make_dirs P pc_dir w) else w);
         w = fold (\<lambda>file w. snd (backup_file P q name file w)) affected w
     in case push_patch_options u extra q name of
          None \<Rightarrow> Abort
        | Some po \<Rightarrow>
            let w = (if u_verbose u \<and> \<not> u_quiet u
                     then fold (\<lambda>file. out_line P (''patching file '' @ file)) affected w else w)
            in case run_patch P patch_content po w of
                 None \<Rightarrow> Abort
               | Some (result, w) \<Rightarrow>
                   let w = (if \<not> u_quiet u \<and> \<not> u_verbose u \<and> r_out result \<noteq> [] then out P (r_out result) w else w)
                   in if r_exit_code result \<noteq> 0 then
                        let w = (if r_err result \<noteq> [] then err P (r_err result) w else w) in
                        if u_force u then push_forced P name display (q, w)
                        else push_failed P u name display affected (q, w)
                      else
                        let s = mark_applied P name (q, w) in
                        if u_refresh u then
                          bind_res (call (refresh [] s)) (\<lambda>rr s. if rr \<noteq> 0 then Exit rr s else Go () s)
                        else Go () s)"

definition push_one ::
  "'w platform \<Rightarrow> (string list \<Rightarrow> 'w qs \<Rightarrow> (int, 'w qs) res) \<Rightarrow> push_opts \<Rightarrow> string list \<Rightarrow> bool \<Rightarrow>
   string \<Rightarrow> 'w qs \<Rightarrow> (unit, 'w qs) res" where
  "push_one P refresh u extra is_first name = (\<lambda>(q, w).
     let display = format_patch P q name w;
         w = (if is_first then w else out_line P [] w);
         w = out_line P (''Applying patch '' @ display) w;
         patch_path = path_join3 (q_work_dir q) (q_patches_dir q) name;
         patch_content = read_file P patch_path w
     in if patch_content = [] \<and> \<not> file_exists P patch_path w then
          Exit 1 (q, err_line P (''Patch '' @ display @ '' does not exist'') w)
        else push_content P refresh u extra name display patch_content (q, w))"

function push_loop ::
  "'w platform \<Rightarrow> (string list \<Rightarrow> 'w qs \<Rightarrow> (int, 'w qs) res) \<Rightarrow> push_opts \<Rightarrow> string list \<Rightarrow>
   int \<Rightarrow> int \<Rightarrow> int \<Rightarrow> string \<Rightarrow> 'w qs \<Rightarrow> (string, 'w qs) res" where
  "push_loop P refresh u extra start_idx end_idx i last_applied s =
     (if i \<le> end_idx then
        if i < 0 \<or> i \<ge> int (length (q_series (fst s))) then Abort
        else
          let name = q_series (fst s) ! nat i in
          bind_res (push_one P refresh u extra (\<not> i > start_idx) name s)
            (\<lambda>_ s. push_loop P refresh u extra start_idx end_idx (i + 1) name s)
      else Go last_applied s)"
  by pat_completeness auto
termination
  by (relation "measure (\<lambda>(P, r, u, x, st, e, i, l, s). nat (e - i + 1))") auto

declare push_loop.simps [simp del]

definition cmd_push ::
  "'w platform \<Rightarrow> (string list \<Rightarrow> 'w qs \<Rightarrow> (int, 'w qs) res) \<Rightarrow> string list \<Rightarrow> 'w qs \<Rightarrow> (int, 'w qs) res" where
  "cmd_push P refresh args s =
     bind_res (push_args P args push_defaults s) (\<lambda>u s.
     bind_res (push_range P u s) (\<lambda>(start_idx, end_idx) (q, w).
       let (ok, w) = ensure_pc_dir P q w in
       if \<not> ok then Exit 1 (q, w)
       else
         let extra = shell_split (\<lambda>n. get_env P n w) (get_env P ''QUILT_PATCH_OPTS'' w) in
         bind_res (push_loop P refresh u extra start_idx end_idx start_idx [] (q, w))
           (\<lambda>last_applied (q, w).
              if last_applied \<noteq> [] then
                let w = (if u_quiet u then w else out_line P [] w)
                in Go 0 (q, out_line P (''Now at patch '' @ format_patch P q last_applied w) w)
              else Go 0 (q, w))))"

section \<open>pop\<close>

record pop_opts =
  v_all :: bool
  v_force :: bool
  v_quiet :: bool
  v_verbose :: bool
  v_refresh :: bool
  v_count :: int
  v_target :: string

definition pop_defaults :: pop_opts where
  "pop_defaults = \<lparr>v_all = False, v_force = False, v_quiet = False, v_verbose = False, v_refresh = False,
     v_count = - 1, v_target = []\<rparr>"

definition pop_arg :: "'w platform \<Rightarrow> string \<Rightarrow> pop_opts \<Rightarrow> 'w qs \<Rightarrow> (pop_opts, 'w qs) res" where
  "pop_arg P arg v s =
     (if arg = ''-a'' then Go (v\<lparr>v_all := True\<rparr>) s
      else if arg = ''-f'' then Go (v\<lparr>v_force := True\<rparr>) s
      else if arg = ''-q'' \<or> arg = ''--quiet'' then Go (v\<lparr>v_quiet := True\<rparr>) s
      else if arg = ''-v'' \<or> arg = ''--verbose'' then Go (v\<lparr>v_verbose := True\<rparr>) s
      else if arg = ''-R'' then Go v s
      else if arg = ''--refresh'' then Go (v\<lparr>v_refresh := True\<rparr>) s
      else if is_option arg then unrecognized P arg s
      else case count_arg arg of
             Some n \<Rightarrow> Go (v\<lparr>v_count := n\<rparr>) s
           | None \<Rightarrow> Go (v\<lparr>v_target := strip_patches_prefix (fst s) arg\<rparr>) s)"

fun pop_args :: "'w platform \<Rightarrow> string list \<Rightarrow> pop_opts \<Rightarrow> 'w qs \<Rightarrow> (pop_opts, 'w qs) res" where
  "pop_args P [] v s = Go v s"
| "pop_args P (arg # args) v s = bind_res (pop_arg P arg v s) (\<lambda>v s. pop_args P args v s)"

definition pop_stop :: "'w platform \<Rightarrow> pop_opts \<Rightarrow> 'w qs \<Rightarrow> (int, 'w qs) res" where
  "pop_stop P v = (\<lambda>(q, w).
     let n = int (length (q_applied q)) in
     if q_applied q = [] then
       (if \<not> q_series_file_exists q then Exit 1 (q, err_line P ''No series file found'' w)
        else Exit 2 (q, err_line P ''No patch removed'' w))
     else if v_all v then Go 0 (q, w)
     else if v_target v \<noteq> [] then
       (case index_of (v_target v) (q_applied q) 0 of
          None \<Rightarrow> patch_error P 1 (v_target v) '' is not applied'' (q, w)
        | Some found_idx \<Rightarrow>
            if found_idx + 1 \<ge> n then Exit 2 (q, err_line P ''No patch removed'' w)
            else Go (found_idx + 1) (q, w))
     else if v_count v > 0 then Go (if n - v_count v < 0 then 0 else n - v_count v) (q, w)
     else Go (n - 1) (q, w))"

definition verify_options :: "quilt_state \<Rightarrow> string \<Rightarrow> patch_options" where
  "verify_options q name = default_options\<lparr>o_strip_level := get_strip_level q name, o_reverse := True,
     o_dry_run := True, o_force := True, o_quiet := True\<rparr>"

text \<open>The refresh before the pop and the two checks.\<close>

definition pop_refresh ::
  "'w platform \<Rightarrow> (string list \<Rightarrow> 'w qs \<Rightarrow> (int, 'w qs) res) \<Rightarrow> string \<Rightarrow> 'w qs \<Rightarrow> (unit, 'w qs) res" where
  "pop_refresh P refresh display = (\<lambda>(q, w).
     bind_res (call (refresh (shell_split (\<lambda>n. get_env P n w) (get_env P ''QUILT_REFRESH_ARGS'' w)) (q, w)))
       (\<lambda>rr (q, w).
          if rr \<noteq> 0 then Exit 1 (q, err_line P (''Refresh of patch '' @ display @ '' failed, aborting pop'') w)
          else Go () (q, w)))"

definition pop_check :: "'w platform \<Rightarrow> pop_opts \<Rightarrow> string \<Rightarrow> string \<Rightarrow> 'w qs \<Rightarrow> (unit, 'w qs) res" where
  "pop_check P v name display = (\<lambda>(q, w).
     if file_exists P (needs_refresh_path q name) w \<and> \<not> v_force v \<and> \<not> v_refresh v then
       Exit 1 (q, err_line P (''Patch '' @ display @ '' needs to be refreshed first.'') w)
     else if v_force v then Go () (q, w)
     else
       let patch_content = read_file P (path_join3 (q_work_dir q) (q_patches_dir q) name) w in
       if patch_content = [] then Go () (q, w)
       else case run_patch P patch_content (verify_options q name) w of
              None \<Rightarrow> Abort
            | Some (vr, w) \<Rightarrow>
                if r_exit_code vr \<noteq> 0 then
                  Exit 1 (q, err_line P ''Hint: `quilt diff -z' will show the pending changes.''
                    (err_line P (''Patch '' @ display @ '' does not remove cleanly (refresh it or enforce with -f)'') w))
                else Go () (q, w))"

definition pop_file :: "'w platform \<Rightarrow> pop_opts \<Rightarrow> quilt_state \<Rightarrow> string \<Rightarrow> string \<Rightarrow> 'w \<Rightarrow> 'w" where
  "pop_file P v q name file w =
     (let w = snd (restore_file P q name file w) in
      if v_quiet v then w
      else if \<not> file_exists P (path_join (q_work_dir q) file) w then out_line P (''Removing '' @ file) w
      else out_line P (''Restoring '' @ file) w)"

definition pop_remove ::
  "'w platform \<Rightarrow> pop_opts \<Rightarrow> bool \<Rightarrow> string \<Rightarrow> string \<Rightarrow> 'w qs \<Rightarrow> 'w qs" where
  "pop_remove P v first_pop name display = (\<lambda>(q, w).
     let w = (if first_pop then w else out_line P [] w);
         w = out_line P (''Removing patch '' @ display) w;
         w = fold (pop_file P v q name) (files_in_patch P q name w) w;
         w = snd (delete_dir_recursive P (pc_patch_dir q name) w)
     in write_applied_patches P (q\<lparr>q_applied := butlast (q_applied q)\<rparr>, w))"

definition pop_one ::
  "'w platform \<Rightarrow> (string list \<Rightarrow> 'w qs \<Rightarrow> (int, 'w qs) res) \<Rightarrow> pop_opts \<Rightarrow> bool \<Rightarrow> 'w qs \<Rightarrow> (unit, 'w qs) res" where
  "pop_one P refresh v first_pop s =
     (let name = last (q_applied (fst s)); display = format_patch P (fst s) name (snd s) in
      bind_res (if v_refresh v then pop_refresh P refresh display s else Go () s) (\<lambda>_ s.
      bind_res (pop_check P v name display s) (\<lambda>_ s.
        Go () (pop_remove P v first_pop name display s))))"

partial_function (option) pop_loop ::
  "'w platform \<Rightarrow> (string list \<Rightarrow> 'w qs \<Rightarrow> (int, 'w qs) res) \<Rightarrow> pop_opts \<Rightarrow> int \<Rightarrow> bool \<Rightarrow> 'w qs \<Rightarrow>
   (unit, 'w qs) res option" where
  "pop_loop P refresh v stop_idx first_pop s =
     (if int (length (q_applied (fst s))) > stop_idx then
        case pop_one P refresh v first_pop s of
          Go _ s \<Rightarrow> pop_loop P refresh v stop_idx False s
        | Exit n s \<Rightarrow> Some (Exit n s)
        | Abort \<Rightarrow> Some Abort
      else Some (Go () s))"

definition pop_report :: "'w platform \<Rightarrow> pop_opts \<Rightarrow> 'w qs \<Rightarrow> (int, 'w qs) res" where
  "pop_report P v = (\<lambda>(q, w).
     let w = (if v_quiet v then w else out_line P [] w) in
     Go 0 (q, if q_applied q = [] then out_line P ''No patches applied'' w
              else out_line P (''Now at patch '' @ format_patch P q (last (q_applied q)) w) w))"

definition cmd_pop ::
  "'w platform \<Rightarrow> (string list \<Rightarrow> 'w qs \<Rightarrow> (int, 'w qs) res) \<Rightarrow> string list \<Rightarrow> 'w qs \<Rightarrow> (int, 'w qs) res option" where
  "cmd_pop P refresh args s =
     (case bind_res (pop_args P args pop_defaults s) (\<lambda>v s. bind_res (pop_stop P v s) (\<lambda>stop s. Go (v, stop) s)) of
        Exit n s \<Rightarrow> Some (Exit n s)
      | Abort \<Rightarrow> Some Abort
      | Go (v, stop_idx) s \<Rightarrow>
          map_option (\<lambda>r. bind_res r (\<lambda>_ s. pop_report P v s)) (pop_loop P refresh v stop_idx True s))"

section \<open>Laws: push\<close>

text \<open>A refresh that leaves the \<open>QuiltState\<close> alone.\<close>

definition keeps_state :: "(string list \<Rightarrow> 'w qs \<Rightarrow> (int, 'w qs) res) \<Rightarrow> bool" where
  "keeps_state refresh \<longleftrightarrow> (\<forall>args s. holds (\<lambda>s'. fst s' = fst s) (refresh args s))"

abbreviation pushed :: "quilt_state \<Rightarrow> string \<Rightarrow> quilt_state" where
  "pushed q name \<equiv> q\<lparr>q_applied := q_applied q @ [name]\<rparr>"

lemma push_arg_neutral: "neutral (fst s) (push_arg P arg u s)"
  by (simp add: push_arg_def Let_def split: option.split)

lemma push_args_neutral: "neutral (fst s) (push_args P args u s)"
proof (induction args arbitrary: u s)
  case (Cons arg args)
  show ?case
    unfolding push_args.simps by (rule neutral_bindI[OF push_arg_neutral]) (metis Cons.IH)
qed simp

lemma push_range_neutral: "neutral (fst s) (push_range P u s)"
  by (cases s) (simp add: push_range_def Let_def split: option.split)

lemma mark_applied_state [simp]: "fst (mark_applied P name s) = pushed (fst s) name"
  by (cases s) (simp add: mark_applied_def write_applied_patches_def)

lemma push_forced_state:
  "\<exists>s'. push_forced P name display s = (Exit 1 s' :: (unit, 'w qs) res) \<and> fst s' = pushed (fst s) name"
  using mark_applied_state[of P name s]
  by (cases "mark_applied P name s") (simp add: push_forced_def)

lemma push_failed_state:
  "\<exists>s'. push_failed P u name display affected s = (Exit 1 s' :: (unit, 'w qs) res) \<and> fst s' = fst s"
  by (cases s) (simp add: push_failed_def Let_def)

definition push_ends :: "quilt_state \<Rightarrow> string \<Rightarrow> (unit, 'w qs) res \<Rightarrow> bool" where
  "push_ends q name r \<longleftrightarrow> (case r of
       Go _ s \<Rightarrow> fst s = pushed q name
     | Exit n s \<Rightarrow> n \<noteq> 0 \<and> (fst s = q \<or> fst s = pushed q name)
     | Abort \<Rightarrow> True)"

lemma push_content_state:
  assumes "keeps_state refresh"
  shows "push_ends q name (push_content P refresh u extra name display text (q, w))"
proof -
  have refr: "push_ends q name (bind_res (call (refresh [] (mark_applied P name (q, w'))))
      (\<lambda>rr s. if rr \<noteq> 0 then Exit rr s else Go () s))" for w'
  proof -
    have "holds (\<lambda>s'. fst s' = pushed q name) (refresh [] (mark_applied P name (q, w')))"
      using assms[unfolded keeps_state_def, rule_format, of "mark_applied P name (q, w')" "[]"]
      by simp
    then show ?thesis by (cases "refresh [] (mark_applied P name (q, w'))") (auto simp: push_ends_def)
  qed
  have forced: "push_ends q name (push_forced P name display (q, w'))" for w'
    using push_forced_state[of P name display "(q, w')"] by (auto simp: push_ends_def)
  have failed: "push_ends q name (push_failed P u name display affected (q, w'))" for w' affected
    using push_failed_state[of P u name display affected "(q, w')"] by (auto simp: push_ends_def)
  have fin: "push_ends q name (Go () (mark_applied P name (q, w')))" for w'
    by (simp add: push_ends_def)
  have abort: "push_ends q name Abort" by (simp add: push_ends_def)
  show ?thesis
    unfolding push_content_def Let_def
    by (auto simp: refr forced failed fin abort split: option.split simp del: bind_res.simps)
qed

lemma push_one_state:
  assumes "keeps_state refresh"
  shows "push_ends q name (push_one P refresh u extra is_first name (q, w))"
  unfolding push_one_def Let_def
  using push_content_state[OF assms]
  by (auto simp: push_ends_def[of q name "Exit 1 _"])

text \<open>The loop of push keeps the stack, and when it goes through, the patches up to the last
  index are applied.\<close>

definition with_applied :: "quilt_state \<Rightarrow> int \<Rightarrow> quilt_state" where
  "with_applied q k = q\<lparr>q_applied := take (nat k) (q_series q)\<rparr>"

definition loop_ends :: "quilt_state \<Rightarrow> int \<Rightarrow> int \<Rightarrow> ('a, 'w qs) res \<Rightarrow> bool" where
  "loop_ends q i e r \<longleftrightarrow> (case r of
       Go _ s \<Rightarrow> fst s = with_applied q (e + 1)
     | Exit n s \<Rightarrow> n \<noteq> 0 \<and> (\<exists>k. i \<le> k \<and> k \<le> e + 1 \<and> fst s = with_applied q k)
     | Abort \<Rightarrow> True)"

lemma with_applied_simps [simp]:
  "with_applied (with_applied q k) l = with_applied q l"
  "q_series (with_applied q k) = q_series q"
  "q_applied (with_applied q k) = take (nat k) (q_series q)"
  by (simp_all add: with_applied_def)

lemma loop_ends_with_applied [simp]: "loop_ends (with_applied q k) i e r = loop_ends q i e r"
  by (cases r) (simp_all add: loop_ends_def)

lemma loop_ends_later: "loop_ends q (i + 1) e r \<Longrightarrow> loop_ends q i e r"
proof (cases r)
  case (Exit n s)
  assume "loop_ends q (i + 1) e r"
  then obtain k where "n \<noteq> 0" "i + 1 \<le> k" "k \<le> e + 1" "fst s = with_applied q k"
    using Exit by (auto simp: loop_ends_def)
  then show ?thesis using Exit by (auto simp: loop_ends_def intro!: exI[of _ k])
qed (auto simp: loop_ends_def)

lemma push_loop_stack:
  assumes "keeps_state refresh" "q_applied q = take (nat i) (q_series q)"
    "0 \<le> i" "e < int (length (q_series q))" "i \<le> e + 1"
  shows "loop_ends q i e (push_loop P refresh u extra st e i l (q, w))"
  using assms(2-)
proof (induction "nat (e - i + 1)" arbitrary: i l q w)
  case 0
  then have "i = e + 1" by simp
  then show ?case using 0 by (subst push_loop.simps) (simp add: loop_ends_def with_applied_def)
next
  case (Suc n)
  then have ie: "i \<le> e" "i < int (length (q_series q))" by auto
  let ?name = "q_series q ! nat i"
  let ?r = "push_one P refresh u extra (\<not> i > st) ?name (q, w)"
  have p: "push_ends q ?name ?r" by (rule push_one_state[OF assms(1)])
  have pu: "pushed q ?name = with_applied q (i + 1)"
    using Suc.prems(1,2) ie take_conv_snoc_int[of i "q_series q"] by (simp add: with_applied_def)
  have qi: "q = with_applied q i" using Suc.prems(1) by (simp add: with_applied_def)
  have step: "push_loop P refresh u extra st e i l (q, w) =
      bind_res ?r (\<lambda>_ s. push_loop P refresh u extra st e (i + 1) ?name s)"
    using ie Suc.prems(2) by (subst push_loop.simps) (simp add: Let_def)
  show ?case
  proof (cases ?r)
    case (Go a s)
    obtain q' w' where s: "s = (q', w')" by (cases s) auto
    with p Go pu have q': "q' = with_applied q (i + 1)" by (simp add: push_ends_def)
    have "loop_ends q' (i + 1) e (push_loop P refresh u extra st e (i + 1) ?name (q', w'))"
      by (rule Suc.hyps(1)) (use Suc.hyps(2) Suc.prems ie q' in auto)
    then have "loop_ends q i e (push_loop P refresh u extra st e (i + 1) ?name (q', w'))"
      unfolding q' by (simp add: loop_ends_later)
    then show ?thesis unfolding step Go s bind_res.simps .
  next
    case (Exit m s)
    with p have "m \<noteq> 0" "fst s = q \<or> fst s = pushed q ?name" by (auto simp: push_ends_def)
    then have "m \<noteq> 0" "fst s = with_applied q i \<or> fst s = with_applied q (i + 1)" using pu qi by auto
    then show ?thesis
      unfolding step Exit using ie by (auto simp: loop_ends_def intro: exI[of _ i] exI[of _ "i + 1"])
  next
    case Abort
    then show ?thesis unfolding step by (simp add: loop_ends_def)
  qed
qed

text \<open>The range push chooses starts behind the applied patches.\<close>

lemma push_range_ok:
  assumes "stack_ok q" "push_range P u (q, w) = Go (i, e) s"
  shows "s = (q, w) \<and> i = int (length (q_applied q)) \<and> i \<le> e \<and> e < int (length (q_series q))"
  using assms(2) top_index_stack[OF assms(1)] index_of_spec[of "u_target u" "q_series q" 0]
  by (auto simp: push_range_def Let_def patch_error_def find_in_series_def split: if_splits option.splits)

text \<open>What push does to the state: it only appends to the applied patches, in the order of the
  series, and code 0 means that at least one patch went on.\<close>

lemma cmd_push_stack:
  assumes "keeps_state refresh" "stack_ok q" "finish (cmd_push P refresh args (q, w)) = Some (n, (q', w'))"
  shows "\<exists>k. int (length (q_applied q)) \<le> k \<and> k \<le> int (length (q_series q)) \<and> q' = with_applied q k \<and>
    (n = 0 \<longrightarrow> int (length (q_applied q)) < k)"
proof -
  let ?a = "int (length (q_applied q))"
  have qa: "q = with_applied q ?a" using assms(2) by (simp add: stack_ok_def with_applied_def)
  have la: "?a \<le> int (length (q_series q))"
    using assms(2) unfolding stack_ok_def by (metis length_take min.cobounded1 of_nat_le_iff)
  have stay: "\<exists>k. ?a \<le> k \<and> k \<le> int (length (q_series q)) \<and> q = with_applied q k" using qa la by blast
  note pa = push_args_neutral[of "(q, w)" P args push_defaults]
  show ?thesis
  proof (cases "push_args P args push_defaults (q, w)")
    case Abort
    then show ?thesis using assms(3) by (simp add: cmd_push_def)
  next
    case (Exit m s)
    then show ?thesis using pa assms(3) stay by (auto simp: cmd_push_def)
  next
    case (Go u s)
    then obtain w1 where s: "s = (q, w1)" using pa by (cases s) auto
    note pr = push_range_neutral[of "(q, w1)" P u]
    show ?thesis
    proof (cases "push_range P u (q, w1)")
      case Abort
      then show ?thesis using assms(3) Go s by (simp add: cmd_push_def)
    next
      case (Exit m t)
      then show ?thesis using pr assms(3) stay Go s by (auto simp: cmd_push_def)
    next
      case r: (Go ie t)
      obtain i e where ie: "ie = (i, e)" by (cases ie) auto
      from push_range_ok[OF assms(2) r[unfolded ie]]
      have t: "t = (q, w1)" and i: "i = ?a" "i \<le> e" "e < int (length (q_series q))" by auto
      obtain ok w2 where pc: "ensure_pc_dir P q w1 = (ok, w2)" by fastforce
      let ?x = "shell_split (\<lambda>n. get_env P n w2) (get_env P ''QUILT_PATCH_OPTS'' w2)"
      let ?l = "push_loop P refresh u ?x i e i [] (q, w2)"
      have "q_applied q = take (nat i) (q_series q)" using assms(2) i(1) by (simp add: stack_ok_def)
      then have l: "loop_ends q i e ?l"
        by (rule push_loop_stack[OF assms(1)]) (use i in auto)
      show ?thesis
      proof (cases ok)
        case False
        then show ?thesis using assms(3) Go s r ie t pc stay by (auto simp: cmd_push_def)
      next
        case True
        note eq = assms(3)[unfolded cmd_push_def Go s bind_res.simps r ie t, simplified, unfolded pc, simplified True, simplified]
        show ?thesis
        proof (cases ?l)
          case (Go x t')
          then have "fst t' = with_applied q (e + 1)" using l by (simp add: loop_ends_def)
          then have "q' = with_applied q (e + 1)"
            using eq Go by (cases t') (auto simp: Let_def split: if_splits)
          then show ?thesis using i by (intro exI[of _ "e + 1"]) auto
        next
          case (Exit m t')
          then obtain k where "m \<noteq> 0" "i \<le> k" "k \<le> e + 1" "fst t' = with_applied q k"
            using l by (auto simp: loop_ends_def)
          then show ?thesis using eq Exit i by (intro exI[of _ k]) auto
        next
          case Abort
          then show ?thesis using eq by simp
        qed
      qed
    qed
  qed
qed

section \<open>Laws: pop\<close>

lemma pop_arg_neutral: "neutral (fst s) (pop_arg P arg v s)"
  by (simp add: pop_arg_def split: option.split)

lemma pop_args_neutral: "neutral (fst s) (pop_args P args v s)"
proof (induction args arbitrary: v s)
  case (Cons arg args)
  show ?case
    unfolding pop_args.simps by (rule neutral_bindI[OF pop_arg_neutral]) (metis Cons.IH)
qed simp

lemma pop_stop_neutral: "neutral (fst s) (pop_stop P v s)"
  by (cases s) (simp add: pop_stop_def Let_def split: option.split)

lemma pop_stop_range:
  assumes "pop_stop P v (q, w) = Go k s"
  shows "0 \<le> k \<and> k < int (length (q_applied q)) \<and> (v_all v \<longrightarrow> k = 0)"
proof -
  have "q_applied q \<noteq> []" using assms by (auto simp: pop_stop_def split: if_splits)
  then have "0 < int (length (q_applied q))" by simp
  then show ?thesis
    using assms index_of_spec[of "v_target v" "q_applied q" 0]
    by (auto simp: pop_stop_def Let_def patch_error_def split: if_splits option.splits)
qed

lemma pop_check_neutral: "neutral (fst s) (pop_check P v name display s)"
  by (cases s) (simp add: pop_check_def Let_def split: option.split prod.split)

lemma pop_refresh_neutral:
  assumes "keeps_state refresh"
  shows "neutral (fst s) (pop_refresh P refresh display s)"
proof -
  obtain q w where s: "s = (q, w)" by (cases s) auto
  let ?x = "shell_split (\<lambda>n. get_env P n w) (get_env P ''QUILT_REFRESH_ARGS'' w)"
  have "holds (\<lambda>s'. fst s' = q) (refresh ?x (q, w))"
    using assms[unfolded keeps_state_def, rule_format, of "(q, w)" ?x] by simp
  then show ?thesis
    unfolding s pop_refresh_def by (cases "refresh ?x (q, w)") (auto split: prod.splits)
qed

lemma pop_remove_state [simp]:
  "fst (pop_remove P v fp name display s) = (fst s)\<lparr>q_applied := butlast (q_applied (fst s))\<rparr>"
  by (cases s) (simp add: pop_remove_def write_applied_patches_def Let_def)

definition popped :: "quilt_state \<Rightarrow> nat \<Rightarrow> quilt_state" where
  "popped q k = q\<lparr>q_applied := take k (q_applied q)\<rparr>"

lemma popped_simps [simp]:
  "q_applied (popped q k) = take k (q_applied q)"
  "popped (popped q k) l = popped q (min l k)"
  "k \<ge> length (q_applied q) \<Longrightarrow> popped q k = q"
  by (simp_all add: popped_def)

lemma pop_one_ends:
  assumes "keeps_state refresh \<or> \<not> v_refresh v"
  shows "case pop_one P refresh v fp s of
      Go _ s' \<Rightarrow> fst s' = popped (fst s) (length (q_applied (fst s)) - 1)
    | Exit n s' \<Rightarrow> n \<noteq> 0 \<and> fst s' = fst s
    | Abort \<Rightarrow> True"
proof -
  let ?name = "last (q_applied (fst s))"
  let ?d = "format_patch P (fst s) ?name (snd s)"
  let ?r = "if v_refresh v then pop_refresh P refresh ?d s else Go () s"
  let ?c = "bind_res ?r (\<lambda>_ s. pop_check P v ?name ?d s)"
  have "neutral (fst s) ?r" using assms pop_refresh_neutral[of refresh s P ?d] by (cases s) auto
  then have c: "neutral (fst s) ?c" by (rule neutral_bindI) (metis pop_check_neutral)
  have "pop_one P refresh v fp s = bind_res ?c (\<lambda>_ s. Go () (pop_remove P v fp ?name ?d s))"
    by (simp add: pop_one_def Let_def state_simps)
  then show ?thesis
    using c by (cases ?c) (auto simp: popped_def butlast_conv_take)
qed

definition pop_ends :: "quilt_state \<Rightarrow> nat \<Rightarrow> (unit, 'w qs) res \<Rightarrow> bool" where
  "pop_ends q stop r \<longleftrightarrow> (case r of
       Go _ s \<Rightarrow> fst s = popped q stop
     | Exit n s \<Rightarrow> n \<noteq> 0 \<and> (\<exists>k. stop < k \<and> k \<le> length (q_applied q) \<and> fst s = popped q k)
     | Abort \<Rightarrow> True)"

text \<open>The loop of pop ends, and takes exactly the patches above the stop index off.\<close>

lemma pop_loop_returns:
  assumes "keeps_state refresh \<or> \<not> v_refresh v"
  shows "\<exists>r. pop_loop P refresh v (int stop) fp s = Some r \<and> pop_ends (fst s) stop r"
proof (induction "length (q_applied (fst s))" arbitrary: s fp)
  case 0
  then have "pop_loop P refresh v (int stop) fp s = Some (Go () s)"
    by (subst pop_loop.simps) simp
  then show ?case using 0 by (auto simp: pop_ends_def)
next
  case (Suc n)
  note one = pop_one_ends[OF assms, where P = P and fp = fp and s = s]
  show ?case
  proof (cases "int (length (q_applied (fst s))) > int stop")
    case False
    then have "pop_loop P refresh v (int stop) fp s = Some (Go () s)"
      by (subst pop_loop.simps) simp
    then show ?thesis using False by (auto simp: pop_ends_def)
  next
    case True
    then have step: "pop_loop P refresh v (int stop) fp s =
        (case pop_one P refresh v fp s of
          Go _ s \<Rightarrow> pop_loop P refresh v (int stop) False s
        | Exit n s \<Rightarrow> Some (Exit n s)
        | Abort \<Rightarrow> Some Abort)"
      by (subst pop_loop.simps) simp
    show ?thesis
    proof (cases "pop_one P refresh v fp s")
      case (Go a s')
      have "length (q_applied (fst s)) - 1 = n" using Suc.hyps(2) by simp
      with one Go have s': "fst s' = popped (fst s) n" by simp
      then have "n = length (q_applied (fst s'))" using Suc.hyps(2) by simp
      from Suc.hyps(1)[OF this, of False] obtain r where
        r: "pop_loop P refresh v (int stop) False s' = Some r" "pop_ends (fst s') stop r" by blast
      have "stop \<le> n" using True Suc.hyps(2) by simp
      then have "pop_ends (fst s) stop r"
        using r(2) Suc.hyps(2) unfolding s' by (cases r) (auto simp: pop_ends_def min_def)
      then show ?thesis using step Go r(1) by simp
    next
      case (Exit m s')
      with one have "m \<noteq> 0" "fst s' = popped (fst s) (length (q_applied (fst s)))" by auto
      then show ?thesis using step Exit True by (auto simp: pop_ends_def)
    next
      case Abort
      then show ?thesis using step by (simp add: pop_ends_def)
    qed
  qed
qed

text \<open>What pop does to the state: it returns, takes patches only from the end of the applied
  ones, and code 0 means that at least one came off, with \<open>-a\<close> all of them.\<close>

lemma cmd_pop_stack:
  assumes "keeps_state refresh"
  shows "\<exists>r. cmd_pop P refresh args (q, w) = Some r \<and>
    (case finish r of
       None \<Rightarrow> True
     | Some (n, s) \<Rightarrow> \<exists>k. k \<le> length (q_applied q) \<and> fst s = popped q k \<and> (n = 0 \<longrightarrow> k < length (q_applied q)))"
proof -
  let ?m = "bind_res (pop_args P args pop_defaults (q, w)) (\<lambda>v s. bind_res (pop_stop P v s) (\<lambda>stop s. Go (v, stop) s))"
  have m: "neutral q ?m"
  proof (rule neutral_bindI)
    show "neutral q (pop_args P args pop_defaults (q, w))" using pop_args_neutral[of "(q, w)"] by simp
    show "neutral q (bind_res (pop_stop P v s) (\<lambda>stop s. Go (v, stop) s))" if "fst s = q" for v s
      using pop_stop_neutral[of s P v] that by (intro neutral_bindI) auto
  qed
  have id: "q = popped q (length (q_applied q))" by simp
  show ?thesis
  proof (cases ?m)
    case (Go vs s)
    obtain v stop where vs: "vs = (v, stop)" by (cases vs) auto
    obtain w1 where s: "s = (q, w1)" using m Go by (cases s) auto
    have "\<exists>s0. pop_stop P v s0 = Go stop s \<and> fst s0 = q"
      using Go vs pop_args_neutral[of "(q, w)" P args pop_defaults] by (auto simp: bind_res_Go)
    then obtain w0 where "pop_stop P v (q, w0) = Go stop s" by auto
    from pop_stop_range[OF this] have st: "0 \<le> stop" "stop < int (length (q_applied q))" by auto
    have "keeps_state refresh \<or> \<not> v_refresh v" using assms by simp
    from pop_loop_returns[OF this, where P = P and stop = "nat stop" and fp = True and s = s] obtain r where
      r: "pop_loop P refresh v stop True s = Some r" "pop_ends q (nat stop) r" using st s by auto
    have c: "cmd_pop P refresh args (q, w) = Some (bind_res r (\<lambda>_ s. pop_report P v s))"
      using Go vs r(1) by (simp add: cmd_pop_def)
    show ?thesis
    proof (cases r)
      case (Go a t)
      obtain q1 w1 where t: "t = (q1, w1)" by (cases t) auto
      have "q1 = popped q (nat stop)" "nat stop < length (q_applied q)"
        using r(2) Go t st by (auto simp: pop_ends_def)
      then show ?thesis using c Go t
        by (auto simp: pop_report_def Let_def intro!: exI[of _ "nat stop"])
    next
      case (Exit n t)
      then obtain k where "n \<noteq> 0" "k \<le> length (q_applied q)" "fst t = popped q k"
        using r(2) by (auto simp: pop_ends_def)
      then show ?thesis using c Exit by (auto intro!: exI[of _ k])
    next
      case Abort
      then show ?thesis using c by simp
    qed
  next
    case (Exit n s)
    then have "cmd_pop P refresh args (q, w) = Some (Exit n s)" by (simp add: cmd_pop_def)
    moreover have "n \<noteq> 0" "fst s = q" using m Exit by auto
    ultimately show ?thesis using id by (auto intro!: exI[of _ "length (q_applied q)"])
  next
    case Abort
    then show ?thesis by (simp add: cmd_pop_def)
  qed
qed

end
