(* ===== verification/Quilt_Manage.thy ===== *)
theory Quilt_Manage
  imports Stack_Move
begin

text \<open>
  The commands that edit the stack (\<open>cmd_manage.cpp\<close> part of
  \<open>src/src/quilt.cpp\<close>): delete, rename and fork, with the migration of the settings of
  a patch to its new name and the undo steps when a file cannot be written. The laws: however
  these commands end, the applied patches are the first ones of the series.
\<close>

section \<open>Writing the lists\<close>

definition write_series_checked :: "'w platform \<Rightarrow> quilt_state \<Rightarrow> string list \<Rightarrow> 'w \<Rightarrow> bool \<times> 'w" where
  "write_series_checked P q series w =
     (let (ok, w) = write_series P (path_join (q_work_dir q) (q_series_file q)) series
           (q_strip_level q) (q_reversed q) w
      in if \<not> ok then (False, err_line P ''Failed to write series file.'' w) else (True, w))"

definition write_applied_checked :: "'w platform \<Rightarrow> quilt_state \<Rightarrow> string list \<Rightarrow> 'w \<Rightarrow> bool \<times> 'w" where
  "write_applied_checked P q applied w =
     (let (ok, w) = write_applied P (path_join3 (q_work_dir q) (q_pc_dir q) ''applied-patches'') applied w
      in if \<not> ok then (False, err_line P ''Failed to write applied-patches.'' w) else (True, w))"

definition patch_path :: "quilt_state \<Rightarrow> string \<Rightarrow> string" where
  "patch_path q patch = path_join3 (q_work_dir q) (q_patches_dir q) patch"

text \<open>The complaint about a name that is not in the series, without the prefix of the patch
  directory.\<close>

definition not_in_series :: "'w platform \<Rightarrow> string \<Rightarrow> 'w qs \<Rightarrow> ('a, 'w qs) res" where
  "not_in_series P name = (\<lambda>(q, w).
     Exit 1 (q, err_line P '' is not in series'' (err P name (err P ''Patch '' w))))"

definition fail :: "'w platform \<Rightarrow> string \<Rightarrow> 'w qs \<Rightarrow> ('a, 'w qs) res" where
  "fail P msg s = Exit 1 (world (err_line P msg) s)"

text \<open>A directory that is made when it is missing.\<close>

definition ensure_dir :: "'w platform \<Rightarrow> string \<Rightarrow> 'w qs \<Rightarrow> (unit, 'w qs) res" where
  "ensure_dir P dir = (\<lambda>(q, w).
     if \<not> is_directory P dir w then
       let (ok, w) = make_dirs P dir w in
       if \<not> ok then fail P (''Failed to create '' @ dir) (q, w) else Go () (q, w)
     else Go () (q, w))"

section \<open>delete\<close>

record delete_opts =
  d_remove :: bool
  d_backup :: bool
  d_next :: bool
  d_patch :: string

definition delete_defaults :: delete_opts where
  "delete_defaults = \<lparr>d_remove = False, d_backup = False, d_next = False, d_patch = []\<rparr>"

fun delete_args :: "'w platform \<Rightarrow> string list \<Rightarrow> delete_opts \<Rightarrow> 'w qs \<Rightarrow> (delete_opts, 'w qs) res" where
  "delete_args P [] u s = Go u s"
| "delete_args P (arg # args) u s =
     (if arg = ''-r'' then delete_args P args (u\<lparr>d_remove := True\<rparr>) s
      else if arg = ''--backup'' then delete_args P args (u\<lparr>d_backup := True\<rparr>) s
      else if arg = ''-n'' then delete_args P args (u\<lparr>d_next := True\<rparr>) s
      else if is_option arg then unrecognized P arg s
      else delete_args P args (u\<lparr>d_patch := strip_patches_prefix (fst s) arg\<rparr>) s)"

definition delete_target :: "'w platform \<Rightarrow> delete_opts \<Rightarrow> 'w qs \<Rightarrow> (string, 'w qs) res" where
  "delete_target P u s =
     (let q = fst s in
      if d_patch u \<noteq> [] then Go (d_patch u) s
      else if d_next u then
        (let next_idx = top_index q + 1 in
         if next_idx \<ge> int (length (q_series q)) then fail P ''No next patch'' s
         else Go (q_series q ! nat next_idx) s)
      else if q_applied q = [] then fail P ''No patches applied'' s
      else Go (last (q_applied q)) s)"

text \<open>Popping the topmost patch without messages for the files.\<close>

definition delete_pop :: "'w platform \<Rightarrow> string \<Rightarrow> 'w qs \<Rightarrow> (unit, 'w qs) res" where
  "delete_pop P patch = (\<lambda>(q, w).
     let tracked = files_in_patch P q patch w;
         w = out_line P (''Removing patch '' @ format_patch P q patch w) w;
         w = fold (\<lambda>f w. snd (restore_file P q patch f w)) tracked w;
         pc_dir = pc_patch_dir q patch;
         w = (if is_directory P pc_dir w then snd (delete_dir_recursive P pc_dir w) else w);
         q = q\<lparr>q_applied := butlast (q_applied q)\<rparr>;
         (ok, w) = write_applied_checked P q (q_applied q) w
     in if \<not> ok then Exit 1 (q, w)
        else Go () (q, out_line P (if q_applied q \<noteq> []
               then ''Now at patch '' @ format_patch P q (last (q_applied q)) w else ''No patches applied'') w))"

definition delete_patch_file :: "'w platform \<Rightarrow> delete_opts \<Rightarrow> string \<Rightarrow> 'w qs \<Rightarrow> (unit, 'w qs) res" where
  "delete_patch_file P u patch = (\<lambda>(q, w).
     let patch_file = patch_path q patch; backup = patch_file @ ''~'' in
     if \<not> d_remove u then Go () (q, w)
     else if d_backup u then
       (if file_exists P patch_file w then
          let (ok, w) = rename_path P patch_file backup w in
          if \<not> ok then fail P (''Failed to rename '' @ patch_file @ '' to '' @ backup) (q, w) else Go () (q, w)
        else Go () (q, w))
     else if file_exists P patch_file w then
       let (ok, w) = delete_file P patch_file w in
       if \<not> ok then fail P (''Failed to delete '' @ patch_file) (q, w) else Go () (q, w)
     else Go () (q, w))"

definition delete_from_series :: "'w platform \<Rightarrow> int \<Rightarrow> 'w qs \<Rightarrow> (unit, 'w qs) res" where
  "delete_from_series P idx = (\<lambda>(q, w).
     let new_series = take (nat idx) (q_series q) @ drop (nat idx + 1) (q_series q);
         (ok, w) = write_series_checked P q new_series w
     in if \<not> ok then Exit 1 (q, w) else Go () (q\<lparr>q_series := new_series\<rparr>, w))"

definition delete_patch :: "'w platform \<Rightarrow> delete_opts \<Rightarrow> string \<Rightarrow> int \<Rightarrow> 'w qs \<Rightarrow> (int, 'w qs) res" where
  "delete_patch P u patch idx s =
     bind_res (if is_applied (fst s) patch then delete_pop P patch s else Go () s) (\<lambda>_ s.
     bind_res (delete_from_series P idx s) (\<lambda>_ s.
     bind_res (delete_patch_file P u patch s) (\<lambda>_ (q, w).
       Go 0 (q, out_line P (''Removed patch '' @ format_patch P q patch w) w))))"

definition cmd_delete :: "'w platform \<Rightarrow> string list \<Rightarrow> 'w qs \<Rightarrow> (int, 'w qs) res" where
  "cmd_delete P args s =
     bind_res (delete_args P args delete_defaults s) (\<lambda>u s.
     bind_res (delete_target P u s) (\<lambda>patch s.
       case find_in_series (fst s) patch of
         None \<Rightarrow> not_in_series P patch s
       | Some idx \<Rightarrow>
           if is_applied (fst s) patch \<and> patch \<noteq> last (q_applied (fst s)) then
             patch_error P 1 patch '' is currently applied'' s
           else delete_patch P u patch idx s))"

section \<open>A new name for a patch\<close>

definition migrate :: "string \<Rightarrow> string \<Rightarrow> quilt_state \<Rightarrow> quilt_state" where
  "migrate old new q =
     q\<lparr>q_strip_level := (case q_strip_level q old of
          Some n \<Rightarrow> (q_strip_level q)(new \<mapsto> n, old := None) | None \<Rightarrow> q_strip_level q),
       q_reversed := (if old \<in> q_reversed q then insert new (q_reversed q - {old}) else q_reversed q)\<rparr>"

text \<open>The undo: a saved level below zero counts as none. \<open>q0\<close> is the state before the
  migration.\<close>

definition unmigrate :: "quilt_state \<Rightarrow> string \<Rightarrow> string \<Rightarrow> quilt_state \<Rightarrow> quilt_state" where
  "unmigrate q0 old new q =
     (let saved_strip = (case q_strip_level q0 old of Some n \<Rightarrow> n | None \<Rightarrow> - 1);
          saved_reversed = (old \<in> q_reversed q0)
      in q\<lparr>q_strip_level := (if saved_strip \<ge> 0 then (q_strip_level q)(old \<mapsto> saved_strip, new := None)
                              else q_strip_level q),
           q_reversed := (if saved_reversed then insert old (q_reversed q - {new}) else q_reversed q)\<rparr>)"

fun replace_first :: "string \<Rightarrow> string \<Rightarrow> string list \<Rightarrow> string list" where
  "replace_first old new [] = []"
| "replace_first old new (a # as) = (if a = old then new # as else a # replace_first old new as)"

definition rename_back :: "'w platform \<Rightarrow> bool \<Rightarrow> string \<Rightarrow> string \<Rightarrow> 'w \<Rightarrow> 'w" where
  "rename_back P renamed from to w = (if renamed then snd (rename_path P from to w) else w)"

text \<open>Writing the series, and the applied patches when asked to, under the new name; \<open>undo\<close>
  is what the command does to its files when it cannot.\<close>

definition commit_name ::
  "'w platform \<Rightarrow> ('w \<Rightarrow> 'w) \<Rightarrow> bool \<Rightarrow> string \<Rightarrow> string \<Rightarrow> int \<Rightarrow> 'w qs \<Rightarrow> (unit, 'w qs) res" where
  "commit_name P undo applied old new idx = (\<lambda>(q0, w).
     let q = migrate old new q0;
         new_series = (q_series q)[nat idx := new];
         new_applied = replace_first old new (q_applied q);
         (ok, w) = write_series_checked P q new_series w
     in if \<not> ok then Exit 1 (unmigrate q0 old new q, undo w)
        else
          let (ok, w) = (if applied then write_applied_checked P q new_applied w else (True, w)) in
          if \<not> ok then
            let w = snd (write_series_checked P q (q_series q) w)
            in Exit 1 (unmigrate q0 old new q, undo w)
          else Go () (q\<lparr>q_series := new_series, q_applied := (if applied then new_applied else q_applied q)\<rparr>, w))"

section \<open>rename\<close>

function rename_args :: "'w platform \<Rightarrow> string list \<Rightarrow> string \<times> string \<Rightarrow> 'w qs \<Rightarrow> (string \<times> string, 'w qs) res" where
  "rename_args P [] u s = Go u s"
| "rename_args P (arg # args) u s =
     (if arg = ''-P'' \<and> args \<noteq> [] then
        rename_args P (tl args) (strip_patches_prefix (fst s) (hd args), snd u) s
      else if is_option arg then unrecognized P arg s
      else rename_args P args (fst u, strip_patches_prefix (fst s) arg) s)"
  by pat_completeness auto
termination
  by (relation "measure (\<lambda>(P, args, u, s). length args)") auto

definition rename_names :: "'w platform \<Rightarrow> string \<times> string \<Rightarrow> 'w qs \<Rightarrow> (string \<times> string \<times> int, 'w qs) res" where
  "rename_names P u s =
     (let q = fst s; (old, new_name) = u in
      if old = [] \<and> q_applied q = [] then fail P ''No patches applied'' s
      else
        let old = (if old = [] then last (q_applied q) else old) in
        if new_name = [] then fail P ''Usage: quilt rename [-P patch] new_name'' s
        else case find_in_series q old of
               None \<Rightarrow> not_in_series P old s
             | Some idx \<Rightarrow>
                 if find_in_series q new_name \<noteq> None then
                   patch_error P 1 new_name '' exists already, please choose a different name'' s
                 else Go (old, new_name, idx) s)"

definition rename_patch_file :: "'w platform \<Rightarrow> string \<Rightarrow> string \<Rightarrow> 'w qs \<Rightarrow> (bool, 'w qs) res" where
  "rename_patch_file P old_file new_file s =
     (if file_exists P old_file (snd s) then
        bind_res (ensure_dir P (dirname new_file) s) (\<lambda>_ (q, w).
          let (ok, w) = rename_path P old_file new_file w in
          if \<not> ok then fail P (''Failed to rename '' @ old_file @ '' to '' @ new_file) (q, w) else Go True (q, w))
      else Go False s)"

text \<open>Renaming the backups; on failure \<open>undo\<close> and a message.\<close>

definition rename_backups ::
  "'w platform \<Rightarrow> ('w \<Rightarrow> 'w) \<Rightarrow> string \<Rightarrow> string \<Rightarrow> 'w qs \<Rightarrow> (bool, 'w qs) res" where
  "rename_backups P undo old_pc new_pc = (\<lambda>(q, w).
     if is_directory P old_pc w then
       let (ok, w) = rename_path P old_pc new_pc w in
       if \<not> ok then fail P (''Failed to rename '' @ old_pc @ '' to '' @ new_pc) (q, undo w)
       else Go True (q, w)
     else Go False (q, w))"

definition rename_patch :: "'w platform \<Rightarrow> string \<Rightarrow> string \<Rightarrow> int \<Rightarrow> 'w qs \<Rightarrow> (int, 'w qs) res" where
  "rename_patch P old new_name idx s =
     (let q = fst s;
          old_file = patch_path q old; new_file = patch_path q new_name;
          old_pc = pc_patch_dir q old; new_pc = pc_patch_dir q new_name;
          applied = is_applied q old
      in bind_res (rename_patch_file P old_file new_file s) (\<lambda>renamed_file s.
         bind_res (if applied then rename_backups P (rename_back P renamed_file new_file old_file) old_pc new_pc s
                   else Go False s) (\<lambda>renamed_pc s.
         bind_res (commit_name P (\<lambda>w. rename_back P renamed_file new_file old_file
                      (rename_back P renamed_pc new_pc old_pc w)) applied old new_name idx s) (\<lambda>_ (q, w).
           Go 0 (q, out_line P (format_patch P q new_name w)
             (out P '' renamed to '' (out P (format_patch P q old w) (out P ''Patch '' w))))))))"

definition cmd_rename :: "'w platform \<Rightarrow> string list \<Rightarrow> 'w qs \<Rightarrow> (int, 'w qs) res" where
  "cmd_rename P args s =
     bind_res (rename_args P args ([], []) s) (\<lambda>u s.
     bind_res (rename_names P u s) (\<lambda>(old, new_name, idx) s. rename_patch P old new_name idx s))"

section \<open>fork\<close>

text \<open>The name with the number behind the dash counted up; \<open>None\<close> when the number is the
  largest one, whose successor is undefined.\<close>

definition fork_name :: "string \<Rightarrow> string option" where
  "fork_name old_name =
     (let dot = str_rfind old_name (CHR ''.'');
          base = (if dot > 0 then take (nat dot) old_name else old_name);
          ext = (if dot > 0 then drop (nat dot) old_name else []);
          dash = str_rfind base (CHR ''-'')
      in if dash \<ge> 0 then
           (case from_chars (- INT_MAX - 1) INT_MAX (drop (nat dash + 1) base) of
              Some (n, []) \<Rightarrow>
                map_option (\<lambda>m. take (nat dash + 1) base @ int_str m @ ext) (checked_int (n + 1))
            | _ \<Rightarrow> Some (base @ ''-2'' @ ext))
         else Some (base @ ''-2'' @ ext))"

definition fork_arg :: "'w platform \<Rightarrow> string list \<Rightarrow> 'w qs \<Rightarrow> (string, 'w qs) res" where
  "fork_arg P args s =
     (case args of
        [] \<Rightarrow> Go [] s
      | arg # _ \<Rightarrow> if is_option arg then unrecognized P arg s else Go (strip_patches_prefix (fst s) arg) s)"

definition fork_copy :: "'w platform \<Rightarrow> string \<Rightarrow> string \<Rightarrow> 'w qs \<Rightarrow> (bool, 'w qs) res" where
  "fork_copy P old_file new_file s =
     (if file_exists P old_file (snd s) then
        bind_res (ensure_dir P (dirname new_file) s) (\<lambda>_ (q, w).
          let (ok, w) = copy_file P old_file new_file w in
          if \<not> ok then fail P (''Failed to copy '' @ old_file @ '' to '' @ new_file) (q, w) else Go True (q, w))
      else Go False s)"

definition fork_patch :: "'w platform \<Rightarrow> string \<Rightarrow> string \<Rightarrow> 'w qs \<Rightarrow> (int, 'w qs) res" where
  "fork_patch P old_name new_name s =
     (let q = fst s in
      if find_in_series q new_name \<noteq> None then
        Exit 1 (world (\<lambda>w. err_line P '' already exists in series'' (err P new_name (err P ''Patch '' w))) s)
      else case find_in_series q old_name of
        None \<Rightarrow> not_in_series P old_name s
      | Some idx \<Rightarrow>
          let old_file = patch_path q old_name; new_file = patch_path q new_name;
              old_pc = pc_patch_dir q old_name; new_pc = pc_patch_dir q new_name
          in bind_res (fork_copy P old_file new_file s) (\<lambda>copied s.
             let drop_copy = (\<lambda>w. if copied then snd (delete_file P new_file w) else w) in
             bind_res (rename_backups P drop_copy old_pc new_pc s) (\<lambda>renamed_pc s.
             bind_res (commit_name P (\<lambda>w. drop_copy (rename_back P renamed_pc new_pc old_pc w))
                 True old_name new_name idx s) (\<lambda>_ (q, w).
               Go 0 (q, out_line P (''Fork of patch '' @ old_name @ '' created as '' @ new_name) w)))))"

definition cmd_fork :: "'w platform \<Rightarrow> string list \<Rightarrow> 'w qs \<Rightarrow> (int, 'w qs) res" where
  "cmd_fork P args s =
     (if q_applied (fst s) = [] then fail P ''No patches applied'' s
      else
        let old_name = last (q_applied (fst s)) in
        bind_res (fork_arg P args s) (\<lambda>name s.
          if name \<noteq> [] then fork_patch P old_name name s
          else case fork_name old_name of
                 None \<Rightarrow> Abort | Some new_name \<Rightarrow> fork_patch P old_name new_name s))"

section \<open>Laws: the stack\<close>

lemma stack_ok_cong:
  "q_series q = q_series q' \<Longrightarrow> q_applied q = q_applied q' \<Longrightarrow> stack_ok q \<longleftrightarrow> stack_ok q'"
  by (simp add: stack_ok_def)

lemma stack_ok_applied_series: "stack_ok q \<Longrightarrow> set (q_applied q) \<subseteq> set (q_series q)"
  unfolding stack_ok_def by (metis set_take_subset)

lemma find_in_series_nth:
  "find_in_series q p = Some i \<Longrightarrow> 0 \<le> i \<and> nat i < length (q_series q) \<and> q_series q ! nat i = p"
  using index_of_spec[of p "q_series q" 0 i] by (auto simp: find_in_series_def)

lemma find_in_series_None: "find_in_series q p = None \<longleftrightarrow> p \<notin> set (q_series q)"
  by (simp add: find_in_series_def index_of_None)

lemma replace_first_update:
  "distinct xs \<Longrightarrow> i < length xs \<Longrightarrow> replace_first (xs ! i) new xs = xs[i := new]"
proof (induction xs arbitrary: i)
  case (Cons x xs)
  then show ?case by (cases i) (auto simp: nth_mem)
qed simp

lemma replace_first_id: "old \<notin> set xs \<Longrightarrow> replace_first old new xs = xs"
  by (induction xs) auto

lemma stack_ok_renamed:
  assumes "stack_ok q" "find_in_series q old = Some idx" "new \<notin> set (q_series q)"
    "q_series q' = (q_series q)[nat idx := new]" "q_applied q' = replace_first old new (q_applied q)"
  shows "stack_ok q'"
proof -
  let ?k = "length (q_applied q)" and ?i = "nat idx"
  have i: "?i < length (q_series q)" "q_series q ! ?i = old" using find_in_series_nth[OF assms(2)] by auto
  have d: "distinct (q_series q)" "q_applied q = take ?k (q_series q)" using assms(1) by (simp_all add: stack_ok_def)
  have r: "replace_first old new (q_applied q) = take ?k ((q_series q)[?i := new])"
  proof (cases "?i < ?k")
    case True
    have a: "distinct (q_applied q)" using d by (metis distinct_take)
    have "q_applied q ! ?i = old" using True i(2) d(2) by (metis nth_take)
    then have "replace_first old new (q_applied q) = (q_applied q)[?i := new]"
      using replace_first_update[OF a True] by simp
    then show ?thesis using d(2) by (metis take_update_swap)
  next
    case False
    have "old \<notin> set (take ?k (q_series q))"
      using False i d(1) by (auto simp: in_set_conv_nth nth_eq_iff_index_eq)
    then have "old \<notin> set (q_applied q)" using d(2) by simp
    then show ?thesis using False d(2) by (simp add: replace_first_id)
  qed
  have "distinct ((q_series q)[?i := new])" using assms(3) d(1) by (simp add: distinct_list_update)
  moreover have "length (replace_first old new xs) = length xs" for xs by (induction xs) auto
  then have "length (q_applied q') = ?k" using assms(5) by simp
  ultimately show ?thesis using r assms(4,5) by (simp add: stack_ok_def)
qed

text \<open>The settings are those of patches in the series, with levels from zero on.\<close>

definition settings_ok :: "quilt_state \<Rightarrow> bool" where
  "settings_ok q \<longleftrightarrow> dom (q_strip_level q) \<subseteq> set (q_series q) \<and> q_reversed q \<subseteq> set (q_series q) \<and>
     (\<forall>p n. q_strip_level q p = Some n \<longrightarrow> 0 \<le> n)"

lemma unmigrate_migrate:
  assumes "settings_ok q" "new \<notin> set (q_series q)" "old \<in> set (q_series q)"
  shows "unmigrate q old new (migrate old new q) = q"
proof -
  have n: "q_strip_level q new = None" "new \<notin> q_reversed q" "old \<noteq> new"
    using assms by (auto simp: settings_ok_def)
  have "case q_strip_level q old of Some n \<Rightarrow> 0 \<le> n | None \<Rightarrow> True"
    using assms(1) by (auto simp: settings_ok_def split: option.split)
  then show ?thesis using n
    by (auto simp: unmigrate_def migrate_def Let_def fun_eq_iff insert_absorb split: option.splits)
qed

lemma migrate_lists [simp]:
  "q_series (migrate old new q) = q_series q" "q_applied (migrate old new q) = q_applied q"
  "q_series (unmigrate q0 old new q) = q_series q" "q_applied (unmigrate q0 old new q) = q_applied q"
  by (simp_all add: migrate_def unmigrate_def Let_def)

lemma migrate_settings:
  "old \<noteq> new \<Longrightarrow> q_strip_level q new = None \<Longrightarrow> get_strip_level (migrate old new q) new = get_strip_level q old"
  "old \<noteq> new \<Longrightarrow> new \<notin> q_reversed q \<Longrightarrow> new \<in> q_reversed (migrate old new q) \<longleftrightarrow> old \<in> q_reversed q"
  by (auto simp: migrate_def get_strip_level_def split: option.splits)

text \<open>What a change of name leaves: the new name at the place of the old one with its
  settings, or the state as it was.\<close>

definition renamed_state :: "string \<Rightarrow> string \<Rightarrow> quilt_state \<Rightarrow> quilt_state \<Rightarrow> bool" where
  "renamed_state old new q q' \<longleftrightarrow>
     (\<exists>idx. find_in_series q old = Some idx \<and> new \<notin> set (q_series q) \<and>
        q_series q' = (q_series q)[nat idx := new] \<and> q_applied q' = replace_first old new (q_applied q) \<and>
        get_strip_level q' new = get_strip_level q old \<and> (new \<in> q_reversed q' \<longleftrightarrow> old \<in> q_reversed q))"

definition rename_ends :: "string \<Rightarrow> string \<Rightarrow> quilt_state \<Rightarrow> ('a, 'w qs) res \<Rightarrow> bool" where
  "rename_ends old new q r \<longleftrightarrow> (case r of
       Go _ s \<Rightarrow> renamed_state old new q (fst s)
     | Exit n s \<Rightarrow> n \<noteq> 0 \<and> fst s = q
     | Abort \<Rightarrow> True)"

lemma rename_ends_bind:
  "neutral q m \<Longrightarrow> (\<And>a s. m = Go a s \<Longrightarrow> fst s = q \<Longrightarrow> rename_ends old new q (f a s)) \<Longrightarrow>
   rename_ends old new q (bind_res m f)"
  by (cases m) (auto simp: rename_ends_def)

lemma commit_name_ends:
  assumes "settings_ok q" "find_in_series q old = Some idx" "new \<notin> set (q_series q)"
    "applied \<longleftrightarrow> old \<in> set (q_applied q)" "fst s = q"
  shows "rename_ends old new q (commit_name P undo applied old new idx s)"
proof -
  have old: "old \<in> set (q_series q)" using find_in_series_nth[OF assms(2)] by auto
  then have on: "old \<noteq> new" using assms(3) by blast
  have n: "q_strip_level q new = None" "new \<notin> q_reversed q" using assms(1,3) by (auto simp: settings_ok_def)
  have go: "renamed_state old new q ((migrate old new q)\<lparr>q_series := (q_series q)[nat idx := new],
      q_applied := (if applied then replace_first old new (q_applied q) else q_applied q)\<rparr>)"
    using assms(2-4) migrate_settings[OF on] n
    by (auto simp: renamed_state_def replace_first_id get_strip_level_def)
  obtain w where s: "s = (q, w)" using assms(5) by (cases s) auto
  show ?thesis
    using go unmigrate_migrate[OF assms(1,3) old] unfolding s
    by (cases applied) (auto simp: commit_name_def Let_def rename_ends_def split: prod.splits)
qed

lemma fail_neutral [simp]: "neutral q (fail P msg s) \<longleftrightarrow> fst s = q"
  by (simp add: fail_def)

lemma not_in_series_neutral [simp]: "neutral q (not_in_series P name s) \<longleftrightarrow> fst s = q"
  by (simp add: not_in_series_def split: prod.splits)

lemma ensure_dir_neutral: "neutral (fst s) (ensure_dir P dir s)"
  by (cases s) (simp add: ensure_dir_def split: prod.splits)

lemma rename_args_neutral: "neutral (fst s) (rename_args P args u s)"
  by (induction P args u s rule: rename_args.induct) auto

lemma rename_names_spec:
  "rename_names P u s = Go (old, new, idx) s' \<Longrightarrow>
   s' = s \<and> find_in_series (fst s) old = Some idx \<and> new \<notin> set (q_series (fst s)) \<and> new \<noteq> []"
  by (cases u) (auto simp: rename_names_def Let_def fail_def not_in_series_def patch_error_def find_in_series_None
      split: if_splits option.splits prod.splits)

lemma rename_names_neutral: "neutral (fst s) (rename_names P u s)"
  by (cases u) (auto simp: rename_names_def Let_def split: option.split)

lemma rename_patch_file_neutral: "neutral (fst s) (rename_patch_file P a b s)"
  unfolding rename_patch_file_def
  by (auto intro!: neutral_bindI[OF ensure_dir_neutral] split: prod.splits)

lemma rename_backups_neutral: "neutral (fst s) (rename_backups P undo a b s)"
  by (cases s) (auto simp: rename_backups_def split: prod.splits)

lemma fork_copy_neutral: "neutral (fst s) (fork_copy P a b s)"
  unfolding fork_copy_def
  by (auto intro!: neutral_bindI[OF ensure_dir_neutral] split: prod.splits)

text \<open>A rename or fork that ends in an error leaves the state as it was.\<close>

definition name_change :: "quilt_state \<Rightarrow> (int, 'w qs) res \<Rightarrow> bool" where
  "name_change q r \<longleftrightarrow> (case r of
       Go n s \<Rightarrow> n = 0 \<and> (\<exists>old new. renamed_state old new q (fst s))
     | Exit n s \<Rightarrow> n \<noteq> 0 \<and> fst s = q
     | Abort \<Rightarrow> True)"

lemma name_change_bind:
  "neutral q m \<Longrightarrow> (\<And>a s. m = Go a s \<Longrightarrow> fst s = q \<Longrightarrow> name_change q (f a s)) \<Longrightarrow> name_change q (bind_res m f)"
  by (cases m) (auto simp: name_change_def)

lemma name_change_ends:
  "rename_ends old new q m \<Longrightarrow> (\<And>a s. \<exists>s'. f a s = Go 0 s' \<and> fst s' = fst s) \<Longrightarrow> name_change q (bind_res m f)"
proof (cases m)
  case (Go a s)
  assume a: "rename_ends old new q m" "\<And>a s. \<exists>s'. f a s = Go 0 s' \<and> fst s' = fst s"
  obtain s' where "f a s = Go 0 s'" "fst s' = fst s" using a(2) by blast
  then show ?thesis using Go a(1) by (auto simp: name_change_def rename_ends_def)
qed (auto simp: rename_ends_def name_change_def)

text \<open>The common end of both commands.\<close>

lemma commit_change:
  assumes "settings_ok q" "find_in_series q old = Some idx" "new \<notin> set (q_series q)"
    "applied \<longleftrightarrow> old \<in> set (q_applied q)" "fst s = q" "\<And>a s. \<exists>s'. f a s = Go 0 s' \<and> fst s' = fst s"
  shows "name_change q (bind_res (commit_name P undo applied old new idx s) f)"
  by (rule name_change_ends[OF commit_name_ends[OF assms(1-5)] assms(6)])

lemma rename_patch_change:
  assumes "settings_ok (fst s)" "find_in_series (fst s) old = Some idx" "new \<notin> set (q_series (fst s))"
  shows "name_change (fst s) (rename_patch P old new idx s)"
  unfolding rename_patch_def Let_def
proof (rule name_change_bind[OF rename_patch_file_neutral], rule name_change_bind, goal_cases)
  case (1 a s1)
  then show ?case using rename_backups_neutral[of s1] by simp
next
  case (2 a s1 b s2)
  show ?case
    by (rule commit_change[OF assms _ 2(4)]) (auto simp: is_applied_def split: prod.split)
qed

lemma cmd_rename_change:
  assumes "settings_ok q"
  shows "name_change q (cmd_rename P args (q, w))"
  unfolding cmd_rename_def
proof (rule name_change_bind, goal_cases)
  case 1
  show ?case using rename_args_neutral[of "(q, w)"] by simp
next
  case (2 u s)
  show ?case
  proof (rule name_change_bind, goal_cases)
    case 1
    show ?case using rename_names_neutral[of s] 2(2) by simp
  next
    case (2 a s')
    then show ?case
      using rename_names_spec[of P u s _ _ _ s'] rename_patch_change[of s'] assms by (auto split: prod.split)
  qed
qed

lemma fork_patch_change:
  assumes "settings_ok (fst s)" "old \<in> set (q_applied (fst s))"
  shows "name_change (fst s) (fork_patch P old new s)"
proof (cases "find_in_series (fst s) new = None")
  case False
  then show ?thesis by (auto simp: fork_patch_def name_change_def)
next
  case fresh: True
  show ?thesis
  proof (cases "find_in_series (fst s) old")
    case None
    then show ?thesis using fresh by (simp add: fork_patch_def name_change_def not_in_series_def split: prod.split)
  next
    case (Some idx)
    have new: "new \<notin> set (q_series (fst s))" using fresh by (simp add: find_in_series_None)
    have "fork_patch P old new s = (let q = fst s in
        bind_res (fork_copy P (patch_path q old) (patch_path q new) s) (\<lambda>copied s.
          bind_res (rename_backups P (\<lambda>w. if copied then snd (delete_file P (patch_path q new) w) else w)
              (pc_patch_dir q old) (pc_patch_dir q new) s) (\<lambda>renamed_pc s.
            bind_res (commit_name P (\<lambda>w. (\<lambda>w. if copied then snd (delete_file P (patch_path q new) w) else w)
                (rename_back P renamed_pc (pc_patch_dir q new) (pc_patch_dir q old) w)) True old new idx s)
              (\<lambda>_ (q, w). Go 0 (q, out_line P (''Fork of patch '' @ old @ '' created as '' @ new) w)))))"
      using fresh Some by (simp add: fork_patch_def Let_def)
    also have "name_change (fst s) \<dots>"
      unfolding Let_def
    proof (rule name_change_bind[OF fork_copy_neutral], rule name_change_bind, goal_cases)
      case (1 a s1)
      then show ?case using rename_backups_neutral[of s1] by simp
    next
      case (2 a s1 b s2)
      show ?case
        by (rule commit_change[OF assms(1) Some new _ 2(4)]) (use assms(2) in \<open>auto split: prod.split\<close>)
    qed
    finally show ?thesis .
  qed
qed

lemma cmd_fork_change:
  assumes "settings_ok q"
  shows "name_change q (cmd_fork P args (q, w))"
proof (cases "q_applied q = []")
  case True
  then show ?thesis by (simp add: cmd_fork_def fail_def name_change_def)
next
  case False
  have go: "name_change q (fork_patch P (last (q_applied q)) new s)" if "fst s = q" for s :: "'a qs" and new
    using fork_patch_change[of s] that assms False by auto
  have "neutral q (fork_arg P args (q, w))" by (simp add: fork_arg_def split: list.split)
  then have "name_change q (bind_res (fork_arg P args (q, w)) (\<lambda>name s.
      if name \<noteq> [] then fork_patch P (last (q_applied q)) name s
      else case fork_name (last (q_applied q)) of
             None \<Rightarrow> Abort | Some new_name \<Rightarrow> fork_patch P (last (q_applied q)) new_name s))"
    by (rule name_change_bind) (use go in \<open>auto simp: name_change_def split: option.split\<close>)
  then show ?thesis using False by (simp add: cmd_fork_def Let_def)
qed

lemma renamed_stack_ok: "stack_ok q \<Longrightarrow> renamed_state old new q q' \<Longrightarrow> stack_ok q'"
  by (auto simp: renamed_state_def intro: stack_ok_renamed)

section \<open>Laws: delete\<close>

lemma delete_args_neutral: "neutral (fst s) (delete_args P args u s)"
  by (induction P args u s rule: delete_args.induct) auto

lemma delete_target_neutral: "neutral (fst s) (delete_target P u s)"
  by (auto simp: delete_target_def Let_def)

lemma delete_pop_lists:
  "holds (\<lambda>s'. q_series (fst s') = q_series (fst s) \<and> q_applied (fst s') = butlast (q_applied (fst s)))
     (delete_pop P patch s)"
  by (cases s) (simp add: delete_pop_def Let_def split: prod.splits)

lemma delete_from_series_lists:
  "holds (\<lambda>s'. q_applied (fst s') = q_applied (fst s) \<and>
       (q_series (fst s') = q_series (fst s) \<or>
        q_series (fst s') = take (nat idx) (q_series (fst s)) @ drop (nat idx + 1) (q_series (fst s))))
     (delete_from_series P idx s)"
  by (cases s) (simp add: delete_from_series_def Let_def split: prod.splits)

lemma delete_from_series_go:
  "delete_from_series P idx s = Go a s' \<Longrightarrow>
   q_applied (fst s') = q_applied (fst s) \<and>
   q_series (fst s') = take (nat idx) (q_series (fst s)) @ drop (nat idx + 1) (q_series (fst s))"
  by (cases s) (auto simp: delete_from_series_def Let_def split: prod.splits if_splits)

lemma delete_patch_file_neutral: "neutral (fst s) (delete_patch_file P u patch s)"
  by (cases s) (auto simp: delete_patch_file_def Let_def split: prod.splits)

lemma take_remove:
  "k \<le> i \<Longrightarrow> take k (take i xs @ drop (i + 1) xs) = take k xs"
  by (cases "i \<le> length xs") (simp_all add: min_def)

lemma stack_ok_removed:
  assumes "stack_ok q" "find_in_series q patch = Some idx"
    "patch \<in> set (q_applied q) \<Longrightarrow> patch = last (q_applied q)"
    "applied = (if patch \<in> set (q_applied q) then butlast (q_applied q) else q_applied q)"
    "q_applied q' = applied" "q_series q' = take (nat idx) (q_series q) @ drop (nat idx + 1) (q_series q)"
  shows "stack_ok q'"
proof -
  let ?k = "length (q_applied q)" and ?i = "nat idx"
  have d: "distinct (q_series q)" "q_applied q = take ?k (q_series q)" using assms(1) by (simp_all add: stack_ok_def)
  have k: "?k \<le> length (q_series q)" using d(2) by (metis length_take min.cobounded1)
  have i: "?i < length (q_series q)" "q_series q ! ?i = patch" using find_in_series_nth[OF assms(2)] by auto
  have "set (take ?i (q_series q)) \<inter> set (drop (?i + 1) (q_series q)) = {}"
    using d(1) set_take_disj_set_drop_if_distinct[of "q_series q" ?i "?i + 1"] by simp
  then have dist: "distinct (q_series q')" using d(1) assms(6) by simp
  have "applied = take (length applied) (q_series q')"
  proof (cases "patch \<in> set (q_applied q)")
    case True
    then have l: "patch = last (q_applied q)" "q_applied q \<noteq> []" using assms(3) by auto
    then have "q_series q ! (?k - 1) = patch"
      using d(2) by (metis diff_less last_conv_nth length_greater_0_conv nth_take zero_less_one)
    moreover have "?k - 1 < length (q_series q)" using k l(2) by (cases "q_applied q") auto
    ultimately have "?k - 1 = ?i" using i d(1) by (metis nth_eq_iff_index_eq)
    moreover have "butlast (q_applied q) = take (?k - 1) (q_series q)"
      using d(2) k by (metis butlast_conv_take butlast_take length_take min.absorb2)
    ultimately show ?thesis using True assms(4,6) i(1) take_remove[of ?i ?i "q_series q"] by simp
  next
    case False
    then have "?k \<le> ?i" using i d(2) by (metis in_set_conv_nth length_take linorder_not_less min_less_iff_conj nth_take)
    then show ?thesis using False assms(4,6) d(2) take_remove[of ?k ?i "q_series q"] by simp
  qed
  then show ?thesis using dist assms(5) by (simp add: stack_ok_def)
qed

lemma stack_ok_popped: "stack_ok q \<Longrightarrow> q_series q' = q_series q \<Longrightarrow> q_applied q' = butlast (q_applied q) \<Longrightarrow> stack_ok q'"
  unfolding stack_ok_def by (metis butlast_conv_take butlast_take diff_le_self length_butlast take_take min.absorb1)

text \<open>What delete leaves: the patch is gone from the series, and from the top of the stack
  when it was there.\<close>

definition deleted_state :: "quilt_state \<Rightarrow> quilt_state \<Rightarrow> bool" where
  "deleted_state q q' \<longleftrightarrow>
     (\<exists>patch idx. find_in_series q patch = Some idx \<and>
        q_series q' = take (nat idx) (q_series q) @ drop (nat idx + 1) (q_series q) \<and>
        q_applied q' = (if patch \<in> set (q_applied q) then butlast (q_applied q) else q_applied q))"

definition delete_ends :: "quilt_state \<Rightarrow> (int, 'w qs) res \<Rightarrow> bool" where
  "delete_ends q r \<longleftrightarrow> (case r of
       Go n s \<Rightarrow> n = 0 \<and> deleted_state q (fst s) \<and> stack_ok (fst s)
     | Exit n s \<Rightarrow> stack_ok (fst s)
     | Abort \<Rightarrow> True)"

lemma delete_ends_bind:
  "stack_ok q \<Longrightarrow> neutral q m \<Longrightarrow> (\<And>a s. m = Go a s \<Longrightarrow> fst s = q \<Longrightarrow> delete_ends q (f a s)) \<Longrightarrow>
   delete_ends q (bind_res m f)"
  by (cases m) (auto simp: delete_ends_def)

lemma delete_patch_ends:
  assumes "stack_ok (fst s)" "find_in_series (fst s) patch = Some idx"
    "is_applied (fst s) patch \<Longrightarrow> patch = last (q_applied (fst s))"
  shows "delete_ends (fst s) (delete_patch P u patch idx s)"
proof -
  let ?q = "fst s"
  define m where "m = (if is_applied ?q patch then delete_pop P patch s else Go () s)"
  define popped where "popped q' \<longleftrightarrow> q_series q' = q_series ?q \<and>
      q_applied q' = (if patch \<in> set (q_applied ?q) then butlast (q_applied ?q) else q_applied ?q)" for q' :: quilt_state
  have m: "holds (\<lambda>s'. popped (fst s')) m"
    using delete_pop_lists[of s P patch]
    by (auto simp: m_def popped_def is_applied_def elim: holds_mono)
  have ok1: "stack_ok q'" if "popped q'" for q'
  proof (cases "patch \<in> set (q_applied ?q)")
    case True
    then show ?thesis using that stack_ok_popped[OF assms(1), of q'] by (simp add: popped_def)
  next
    case False
    then show ?thesis using that stack_ok_cong[of q' ?q] assms(1) by (simp add: popped_def)
  qed
  show ?thesis
  proof (cases m)
    case (Exit n s1)
    then show ?thesis using m ok1 by (simp add: delete_patch_def m_def[symmetric] delete_ends_def)
  next
    case (Go a s1)
    then have p: "popped (fst s1)" using m by simp
    show ?thesis
    proof (cases "delete_from_series P idx s1")
      case (Exit n s2)
      then have "popped (fst s2)" using p by (cases s1) (auto simp: delete_from_series_def Let_def popped_def
          split: prod.splits if_splits)
      then show ?thesis using Go Exit ok1 by (simp add: delete_patch_def m_def[symmetric] delete_ends_def)
    next
      case (Go b s2)
      note l = delete_from_series_go[OF Go]
      have ser: "q_series (fst s2) = take (nat idx) (q_series ?q) @ drop (nat idx + 1) (q_series ?q)"
        "q_applied (fst s2) = (if patch \<in> set (q_applied ?q) then butlast (q_applied ?q) else q_applied ?q)"
        using l p by (simp_all add: popped_def)
      have ok2: "stack_ok (fst s2)"
        by (rule stack_ok_removed[OF assms(1,2) _ refl ser(2,1)]) (use assms(3) in \<open>simp add: is_applied_def\<close>)
      moreover have "deleted_state ?q (fst s2)" using ser assms(2) by (auto simp: deleted_state_def)
      moreover have "neutral (fst s2) (delete_patch_file P u patch s2)" by (rule delete_patch_file_neutral)
      ultimately show ?thesis
        using \<open>m = Go a s1\<close> Go unfolding delete_patch_def m_def[symmetric]
        by (cases "delete_patch_file P u patch s2") (auto simp: delete_ends_def split: prod.split)
    qed (use Go in \<open>simp add: delete_patch_def m_def[symmetric] delete_ends_def\<close>)
  qed (simp add: delete_patch_def m_def[symmetric] delete_ends_def)
qed

lemma cmd_delete_ends:
  assumes "stack_ok q"
  shows "delete_ends q (cmd_delete P args (q, w))"
  unfolding cmd_delete_def
proof (rule delete_ends_bind[OF assms], goal_cases)
  case 1
  show ?case using delete_args_neutral[of "(q, w)"] by simp
next
  case (2 u s)
  show ?case
  proof (rule delete_ends_bind[OF assms], goal_cases)
    case 1
    show ?case using delete_target_neutral[of s] 2(2) by simp
  next
    case (2 patch s')
    then show ?case
      using delete_patch_ends[of s' patch] assms
      by (auto simp: not_in_series_def patch_error_def delete_ends_def split: option.split prod.split)
  qed
qed

end
