(* ===== verification/Mem_Platform.thy ===== *)
theory Mem_Platform
  imports Quilt_Core
begin

text \<open>
  What the commands rely on of the file functions of \<open>platform.hpp\<close>, as laws over a
  platform (\<open>files_law\<close>), and a platform that has them: a world of files and directories
  in memory. The laws are what the documentation of the system calls says: a successful write
  is what the next read returns, and other files stay as they are.
\<close>

section \<open>The laws\<close>

definition platform_content :: "'w platform \<Rightarrow> string \<Rightarrow> 'w \<Rightarrow> string option" where
  "platform_content P p w = (if file_exists P p w then Some (read_file P p w) else None)"

definition same_files :: "'w platform \<Rightarrow> 'w \<Rightarrow> 'w \<Rightarrow> bool" where
  "same_files P w w' \<longleftrightarrow> (\<forall>p. platform_content P p w' = platform_content P p w)"

definition files_law :: "'w platform \<Rightarrow> bool" where
  "files_law P \<longleftrightarrow>
     (\<forall>p c w w'. write_file P p c w = (True, w') \<longrightarrow>
        (\<forall>q. platform_content P q w' = (if q = p then Some c else platform_content P q w))) \<and>
     (\<forall>p d w w'. copy_file P p d w = (True, w') \<and> file_exists P p w \<longrightarrow>
        (\<forall>q. platform_content P q w' = (if q = d then Some (read_file P p w) else platform_content P q w))) \<and>
     (\<forall>p w w'. delete_file P p w = (True, w') \<longrightarrow>
        (\<forall>q. platform_content P q w' = (if q = p then None else platform_content P q w))) \<and>
     (\<forall>d w ok w'. make_dirs P d w = (ok, w') \<longrightarrow> same_files P w w') \<and>
     (\<forall>p w q. q \<noteq> p \<longrightarrow> platform_content P q (snd (delete_file P p w)) = platform_content P q w) \<and>
     (\<forall>p c w q. q \<noteq> p \<longrightarrow> platform_content P q (snd (write_file P p c w)) = platform_content P q w) \<and>
     (\<forall>s w. same_files P w (fd_write_stderr P s w)) \<and>
     (\<forall>s w. same_files P w (fd_write_stdout P s w))"

section \<open>A platform in memory\<close>

record mem_world =
  w_files :: "(string \<times> string) list"
  w_dirs :: "string list"
  w_env :: "(string \<times> string) list"
  w_cwd :: string
  w_out :: string
  w_err :: string

definition mem_read :: "string \<Rightarrow> mem_world \<Rightarrow> string" where
  "mem_read p w = (case map_of (w_files w) p of Some c \<Rightarrow> c | None \<Rightarrow> [])"

definition mem_write :: "string \<Rightarrow> string \<Rightarrow> mem_world \<Rightarrow> bool \<times> mem_world" where
  "mem_write p c w = (True, w\<lparr>w_files := (p, c) # w_files w\<rparr>)"

definition mem_delete :: "string \<Rightarrow> mem_world \<Rightarrow> bool \<times> mem_world" where
  "mem_delete p w = (True, w\<lparr>w_files := filter (\<lambda>(q, c). q \<noteq> p) (w_files w)\<rparr>)"

definition mem_exists :: "string \<Rightarrow> mem_world \<Rightarrow> bool" where
  "mem_exists p w = (map_of (w_files w) p \<noteq> None)"

definition mem_copy :: "string \<Rightarrow> string \<Rightarrow> mem_world \<Rightarrow> bool \<times> mem_world" where
  "mem_copy p d w = (if mem_exists p w then mem_write d (mem_read p w) w else (False, w))"

definition mem_env :: "string \<Rightarrow> mem_world \<Rightarrow> string" where
  "mem_env n w = (case map_of (w_env w) n of Some v \<Rightarrow> v | None \<Rightarrow> [])"

text \<open>Everything under a directory, as paths relative to it.\<close>

definition mem_under :: "string \<Rightarrow> mem_world \<Rightarrow> string list" where
  "mem_under d w =
     remdups (map (\<lambda>(p, c). drop (length d + 1) p) (filter (\<lambda>(p, c). starts_with p (d @ ''/'')) (w_files w)))"

definition mem_platform :: "mem_world platform" where
  "mem_platform =
     \<lparr>read_file = mem_read, write_file = mem_write, copy_file = mem_copy,
      rename_path = (\<lambda>p d w. if mem_exists p w then mem_delete p (snd (mem_copy p d w)) else (False, w)),
      delete_file = mem_delete,
      delete_dir_recursive = (\<lambda>d w. (True, w\<lparr>w_files := filter (\<lambda>(p, c). \<not> starts_with p (d @ ''/'')) (w_files w),
        w_dirs := filter (\<lambda>p. p \<noteq> d \<and> \<not> starts_with p (d @ ''/'')) (w_dirs w)\<rparr>)),
      make_dir = (\<lambda>d w. (True, w\<lparr>w_dirs := d # w_dirs w\<rparr>)),
      make_dirs = (\<lambda>d w. (True, w\<lparr>w_dirs := d # w_dirs w\<rparr>)),
      file_exists = mem_exists, is_directory = (\<lambda>d w. d \<in> set (w_dirs w)),
      file_mtime = (\<lambda>p w. 0), list_dir = (\<lambda>d w. map (\<lambda>p. (p, False)) (mem_under d w)),
      find_files_recursive = mem_under,
      fd_write_stdout = (\<lambda>s w. w\<lparr>w_out := w_out w @ s\<rparr>),
      fd_write_stderr = (\<lambda>s w. w\<lparr>w_err := w_err w @ s\<rparr>),
      get_env = mem_env, set_env = (\<lambda>n v w. w\<lparr>w_env := (n, v) # w_env w\<rparr>),
      get_home_dir = mem_env ''HOME'', get_system_quiltrc = (\<lambda>w. ''/etc/quilt.quiltrc''),
      get_cwd = w_cwd, set_cwd = (\<lambda>d w. (True, w\<lparr>w_cwd := d\<rparr>)),
      stdout_is_tty = (\<lambda>w. False), read_stdin = (\<lambda>w. ([], w)), run_cmd_tty = (\<lambda>args w. (0, w)),
      run_cmd = (\<lambda>args w. (\<lparr>pr_exit_code = 0, pr_out = [], pr_err = []\<rparr>, w)),
      make_temp_dir = (\<lambda>w. (''/tmp'', w)), current_time = (\<lambda>w. 0),
      local_time = (\<lambda>t w. \<lparr>dt_year = 1970, dt_month = 1, dt_day = 1, dt_hour = 0, dt_min = 0, dt_sec = t,
        dt_weekday = 4, dt_utc_offset = 0\<rparr>)\<rparr>"

definition mem_start :: "(string \<times> string) list \<Rightarrow> mem_world" where
  "mem_start files = \<lparr>w_files = files, w_dirs = [], w_env = [], w_cwd = ''/'', w_out = [], w_err = []\<rparr>"

text \<open>A state with the default directories.\<close>

definition plain_state :: "string list \<Rightarrow> string list \<Rightarrow> quilt_state" where
  "plain_state series applied =
     \<lparr>q_work_dir = ''/w'', q_patches_dir = ''patches'', q_pc_dir = ''.pc'', q_series_file = ''patches/series'',
      q_subdir = [], q_series_file_exists = True, q_series = series, q_applied = applied,
      q_strip_level = Map.empty, q_reversed = {}, q_config = Map.empty\<rparr>"

lemma plain_state_simps [simp]:
  "q_work_dir (plain_state ss as) = ''/w''" "q_pc_dir (plain_state ss as) = ''.pc''"
  "q_patches_dir (plain_state ss as) = ''patches''"
  "q_series (plain_state ss as) = ss" "q_applied (plain_state ss as) = as"
  "q_series_file_exists (plain_state ss as)" "q_strip_level (plain_state ss as) p = None"
  by (simp_all add: plain_state_def)

lemma mem_platform_simps [simp]:
  "read_file mem_platform = mem_read" "write_file mem_platform = mem_write"
  "copy_file mem_platform = mem_copy" "delete_file mem_platform = mem_delete"
  "file_exists mem_platform = mem_exists" "get_env mem_platform = mem_env"
  "is_directory mem_platform d w \<longleftrightarrow> d \<in> set (w_dirs w)"
  "make_dirs mem_platform d w = (True, w\<lparr>w_dirs := d # w_dirs w\<rparr>)"
  by (simp_all add: mem_platform_def)

lemma need_dir_mem [simp]: "fst (need_dir mem_platform d w)"
  by (simp add: need_dir_def)

lemma restore_mem:
  "mem_exists (path_join (pc_patch_dir q patch) file) w \<Longrightarrow> fst (restore_file mem_platform q patch file w)"
  using need_dir_mem[of "dirname (path_join (q_work_dir q) file)" w]
  by (cases "need_dir mem_platform (dirname (path_join (q_work_dir q) file)) w")
    (simp add: restore_file_def Let_def mem_write_def mem_delete_def)

lemma map_of_filter_neq: "map_of (filter (\<lambda>(q, c). q \<noteq> p) xs) q = (if q = p then None else map_of xs q)"
  by (induction xs) auto

lemma mem_files_law: "files_law mem_platform"
  by (auto simp: files_law_def same_files_def platform_content_def mem_platform_def mem_write_def mem_copy_def
      mem_delete_def mem_exists_def mem_read_def map_of_filter_neq split: if_splits)

section \<open>Backups\<close>

lemma files_lawE:
  assumes "files_law P"
  obtains "\<And>p c w w' q. write_file P p c w = (True, w') \<Longrightarrow>
      platform_content P q w' = (if q = p then Some c else platform_content P q w)"
    "\<And>p d w w' q. copy_file P p d w = (True, w') \<Longrightarrow> file_exists P p w \<Longrightarrow>
      platform_content P q w' = (if q = d then Some (read_file P p w) else platform_content P q w)"
    "\<And>p w w' q. delete_file P p w = (True, w') \<Longrightarrow>
      platform_content P q w' = (if q = p then None else platform_content P q w)"
    "\<And>d w ok w'. make_dirs P d w = (ok, w') \<Longrightarrow> same_files P w w'"
    "\<And>p w q. q \<noteq> p \<Longrightarrow> platform_content P q (snd (delete_file P p w)) = platform_content P q w"
    "\<And>p c w q. q \<noteq> p \<Longrightarrow> platform_content P q (snd (write_file P p c w)) = platform_content P q w"
    "\<And>s w. same_files P w (fd_write_stderr P s w)"
    "\<And>s w. same_files P w (fd_write_stdout P s w)"
  by (rule that) (use assms in \<open>simp_all add: files_law_def\<close>)

lemma files_law_write:
  "files_law P \<Longrightarrow> write_file P p c w = (True, w') \<Longrightarrow>
   platform_content P q w' = (if q = p then Some c else platform_content P q w)"
  by (erule files_lawE) assumption

lemma files_law_copy:
  "files_law P \<Longrightarrow> copy_file P p d w = (True, w') \<Longrightarrow> file_exists P p w \<Longrightarrow>
   platform_content P q w' = (if q = d then Some (read_file P p w) else platform_content P q w)"
  by (erule files_lawE) assumption

lemma files_law_delete:
  "files_law P \<Longrightarrow> delete_file P p w = (True, w') \<Longrightarrow>
   platform_content P q w' = (if q = p then None else platform_content P q w)"
  by (erule files_lawE) assumption

lemma files_law_delete_other:
  "files_law P \<Longrightarrow> q \<noteq> p \<Longrightarrow> platform_content P q (snd (delete_file P p w)) = platform_content P q w"
  by (erule files_lawE) assumption

lemma files_law_write_other:
  "files_law P \<Longrightarrow> q \<noteq> p \<Longrightarrow> platform_content P q (snd (write_file P p c w)) = platform_content P q w"
  by (erule files_lawE) assumption

lemma files_law_print [simp]:
  assumes "files_law P"
  shows "platform_content P q (fd_write_stdout P s w) = platform_content P q w"
    "platform_content P q (fd_write_stderr P s w) = platform_content P q w"
    "platform_content P q (out P s w) = platform_content P q w"
    "platform_content P q (out_line P s w) = platform_content P q w"
    "platform_content P q (err P s w) = platform_content P q w"
    "platform_content P q (err_line P s w) = platform_content P q w"
  using assms by (auto simp: out_def out_line_def err_def err_line_def same_files_def elim!: files_lawE)

lemma files_law_make_dirs:
  "files_law P \<Longrightarrow> platform_content P q (snd (make_dirs P d w)) = platform_content P q w"
  by (erule files_lawE) (metis same_files_def prod.collapse)

lemma need_dir_files:
  assumes "files_law P" "need_dir P d w = (True, w')"
  shows "platform_content P q w' = platform_content P q w"
  using assms unfolding files_law_def same_files_def need_dir_def
  by (auto split: if_splits prod.splits)

lemma file_exists_content: "file_exists P p w \<longleftrightarrow> platform_content P p w \<noteq> None"
  by (simp add: platform_content_def)

lemma read_file_content: "platform_content P p w = Some c \<Longrightarrow> read_file P p w = c"
  by (simp add: platform_content_def split: if_splits)

text \<open>What a backup holds: the bytes of the file, and none when there is no file.\<close>

lemma backup_content:
  assumes "files_law P" "backup_file P q patch file w = (True, w')"
  shows "platform_content P (path_join (pc_patch_dir q patch) file) w' =
      Some (case platform_content P (path_join (q_work_dir q) file) w of Some c \<Rightarrow> c | None \<Rightarrow> [])"
    "p \<noteq> path_join (pc_patch_dir q patch) file \<Longrightarrow> platform_content P p w' = platform_content P p w"
proof -
  let ?src = "path_join (q_work_dir q) file" and ?dst = "path_join (pc_patch_dir q patch) file"
  obtain w1 where w1: "need_dir P (dirname ?dst) w = (True, w1)"
    using assms(2) by (auto simp: backup_file_def Let_def split: prod.splits if_splits)
  note same = need_dir_files[OF assms(1) w1]
  have "platform_content P q' w' = (if q' = ?dst
      then Some (case platform_content P ?src w of Some c \<Rightarrow> c | None \<Rightarrow> []) else platform_content P q' w)" for q'
  proof (cases "file_exists P ?src w1")
    case True
    then have "copy_file P ?src ?dst w1 = (True, w')" using assms(2) w1 by (simp add: backup_file_def)
    from files_law_copy[OF assms(1) this True, of q'] show ?thesis
      using True same[of ?src] same[of q'] by (auto simp: platform_content_def split: if_splits)
  next
    case False
    then have "write_file P ?dst [] w1 = (True, w')" using assms(2) w1 by (simp add: backup_file_def)
    from files_law_write[OF assms(1) this, of q'] show ?thesis
      using False same[of ?src] same[of q'] by (auto simp: file_exists_content)
  qed
  then show "platform_content P ?dst w' = Some (case platform_content P ?src w of Some c \<Rightarrow> c | None \<Rightarrow> [])"
    "p \<noteq> ?dst \<Longrightarrow> platform_content P p w' = platform_content P p w" by simp_all
qed

lemma restore_content:
  assumes "files_law P" "restore_file P q patch file w = (True, w')"
  shows "\<exists>c. platform_content P (path_join (pc_patch_dir q patch) file) w = Some c \<and>
    platform_content P (path_join (q_work_dir q) file) w' = (if c = [] then None else Some c) \<and>
    (\<forall>p. p \<noteq> path_join (q_work_dir q) file \<longrightarrow> platform_content P p w' = platform_content P p w)"
proof -
  let ?bak = "path_join (pc_patch_dir q patch) file" and ?tgt = "path_join (q_work_dir q) file"
  have ex: "file_exists P ?bak w" using assms(2) by (auto simp: restore_file_def Let_def split: if_splits)
  then obtain c where c: "platform_content P ?bak w = Some c" by (auto simp: platform_content_def)
  note rd = read_file_content[OF c]
  show ?thesis
  proof (cases "c = []")
    case True
    have "platform_content P p w' = (if p = ?tgt then None else platform_content P p w)" for p
    proof (cases "file_exists P ?tgt w")
      case ex': True
      then have "delete_file P ?tgt w = (True, w')"
        using assms(2) ex rd True by (auto simp: restore_file_def Let_def split: prod.splits if_splits)
      then show ?thesis using files_law_delete[OF assms(1)] by blast
    next
      case False
      then have "w' = w" using assms(2) ex rd True by (simp add: restore_file_def)
      then show ?thesis using False by (auto simp: platform_content_def)
    qed
    then show ?thesis using c True by auto
  next
    case False
    obtain w1 where w1: "need_dir P (dirname ?tgt) w = (True, w1)"
      using assms(2) ex rd False by (auto simp: restore_file_def Let_def split: prod.splits if_splits)
    then have "write_file P ?tgt c w1 = (True, w')"
      using assms(2) ex rd False by (simp add: restore_file_def)
    then have "platform_content P p w' = (if p = ?tgt then Some c else platform_content P p w)" for p
      using files_law_write[OF assms(1)] need_dir_files[OF assms(1) w1] by metis
    then show ?thesis using c False by auto
  qed
qed

end
