(* ===== verification/Patch_Files.thy ===== *)
theory Patch_Files
  imports Quilt_Manage Mem_Platform
begin

text \<open>
  The commands that start a patch and choose its files (\<open>cmd_patch.cpp\<close> part of
  \<open>src/src/quilt.cpp\<close>): init, new, add, remove, edit, snapshot and revert. The laws:
  a new patch comes directly above the topmost one and the stack stays a beginning of the
  series, however the command ends; the other commands leave the state alone, and revert writes
  what the patch makes of the backup.
\<close>

section \<open>init\<close>

text \<open>A file that is written when it is missing, with the message of a failure.\<close>

definition init_file :: "'w platform \<Rightarrow> string \<Rightarrow> ('w \<Rightarrow> bool \<times> 'w) \<Rightarrow> string \<Rightarrow> 'w qs \<Rightarrow> (unit, 'w qs) res" where
  "init_file P path write_it msg = (\<lambda>(q, w).
     if \<not> file_exists P path w then
       let (ok, w) = write_it w in if \<not> ok then fail P msg (q, w) else Go () (q, w)
     else Go () (q, w))"

definition init_dirs :: "'w platform \<Rightarrow> quilt_state \<Rightarrow> 'w \<Rightarrow> quilt_state" where
  "init_dirs P q w =
     (let env_pc = get_env P ''QUILT_PC'' w;
          env_patches = get_env P ''QUILT_PATCHES'' w;
          patches = (if env_patches \<noteq> [] then env_patches else ''patches'');
          env_series = get_env P ''QUILT_SERIES'' w;
          series_name = (if env_series = [] then ''series'' else env_series)
      in q\<lparr>q_work_dir := get_cwd P w,
           q_pc_dir := (if env_pc \<noteq> [] then env_pc else ''.pc''),
           q_patches_dir := patches,
           q_series_file := path_join patches series_name\<rparr>)"

definition pc_dir_ready :: "'w platform \<Rightarrow> 'w qs \<Rightarrow> (unit, 'w qs) res" where
  "pc_dir_ready P = (\<lambda>(q, w).
     let (ok, w) = ensure_pc_dir P q w in if \<not> ok then Exit 1 (q, w) else Go () (q, w))"

definition cmd_init :: "'w platform \<Rightarrow> string list \<Rightarrow> 'w qs \<Rightarrow> (int, 'w qs) res" where
  "cmd_init P args s =
     (if args \<noteq> [] then fail P ''Usage: quilt init'' s
      else
        let q = init_dirs P (fst s) (snd s);
            series_abs = path_join (q_work_dir q) (q_series_file q);
            applied_abs = path_join3 (q_work_dir q) (q_pc_dir q) ''applied-patches''
        in bind_res (pc_dir_ready P (q, snd s)) (\<lambda>_ s.
           bind_res (ensure_dir P (path_join (q_work_dir q) (q_patches_dir q)) s) (\<lambda>_ s.
           bind_res (init_file P series_abs (write_series P series_abs [] Map.empty {})
               ''Failed to write series file.'' s) (\<lambda>_ s.
           bind_res (init_file P applied_abs (write_applied P applied_abs [])
               ''Failed to write applied-patches.'' s) (\<lambda>_ s.
             Go 0 (world (out_line P ''The quilt meta-data is now initialized.'') s))))))"

section \<open>new\<close>

text \<open>The options, up to the first name: the rest of the arguments is not read.\<close>

fun new_args :: "'w platform \<Rightarrow> string list \<Rightarrow> string \<Rightarrow> 'w qs \<Rightarrow> (string \<times> string, 'w qs) res" where
  "new_args P [] p_value s = Go ([], p_value) s"
| "new_args P (arg # args) p_value s =
     (if arg = ''-p'' \<and> args \<noteq> [] then
        (case args of v # rest \<Rightarrow> new_args P rest v s | [] \<Rightarrow> Abort)
      else if starts_with arg ''-p'' \<and> length arg > 2 then new_args P args (drop 2 arg) s
      else if \<not> is_option arg then Go (arg, p_value) s
      else unrecognized P arg s)"

definition new_in_series :: "'w platform \<Rightarrow> string \<Rightarrow> 'w qs \<Rightarrow> (unit, 'w qs) res" where
  "new_in_series P name s =
     (let q = fst s; top_idx = top_index q in
      if q_applied q \<noteq> [] \<and> top_idx < 0 then
        fail P ''The series file no longer matches the applied patches. Please run 'quilt pop -a'.'' s
      else
        let k = (if top_idx < 0 then 0 else nat top_idx + 1)
        in Go () (q\<lparr>q_series := take k (q_series q) @ name # drop k (q_series q)\<rparr>, snd s))"

definition new_level :: "'w platform \<Rightarrow> string \<Rightarrow> string \<Rightarrow> 'w qs \<Rightarrow> (unit, 'w qs) res" where
  "new_level P p_value name s =
     (if p_value \<noteq> [] \<and> p_value \<noteq> ''0'' \<and> p_value \<noteq> ''1'' then
        fail P (''Cannot create patches with -p'' @ p_value @ '', please specify -p0 or -p1 instead'') s
      else if p_value \<noteq> [] \<and> p_value \<noteq> ''1'' then
        (case checked_int (parse_int p_value) of
           None \<Rightarrow> Abort
         | Some n \<Rightarrow> Go () ((fst s)\<lparr>q_strip_level := (q_strip_level (fst s))(name \<mapsto> n)\<rparr>, snd s))
      else Go () s)"

definition new_write :: "'w platform \<Rightarrow> string \<Rightarrow> 'w qs \<Rightarrow> (unit, 'w qs) res" where
  "new_write P name = (\<lambda>(q, w).
     let (ok, w) = write_series_checked P q (q_series q) w in
     if \<not> ok then Exit 1 (q, w)
     else
       let q = q\<lparr>q_applied := q_applied q @ [name]\<rparr>;
           (ok, w) = write_applied_checked P q (q_applied q) w
       in if \<not> ok then Exit 1 (q, w) else Go () (q, w))"

definition cmd_new :: "'w platform \<Rightarrow> string list \<Rightarrow> 'w qs \<Rightarrow> (int, 'w qs) res" where
  "cmd_new P args s =
     bind_res (new_args P args [] s) (\<lambda>(name, p_value) s.
       let q = fst s in
       if name = [] then fail P ''Usage: quilt new [-p n] patchname'' s
       else if find_in_series q name \<noteq> None then
         Exit 1 (world (\<lambda>w. err_line P '' already exists in series.'' (err P name (err P ''Patch '' w))) s)
       else
         bind_res (pc_dir_ready P s) (\<lambda>_ s.
         bind_res (ensure_dir P (path_join (q_work_dir q) (q_patches_dir q)) s) (\<lambda>_ s.
         bind_res (new_in_series P name s) (\<lambda>_ s.
         bind_res (new_level P p_value name s) (\<lambda>_ s.
         bind_res (new_write P name s) (\<lambda>_ s.
         bind_res (ensure_dir P (pc_patch_dir q name) s) (\<lambda>_ (q, w).
           Go 0 (q, out_line P (''Patch '' @ format_patch P q name w @ '' is now on top'') w))))))))"

section \<open>Files of a patch\<close>

text \<open>The arguments of add, remove and revert: a patch and files.\<close>

fun file_args ::
  "'w platform \<Rightarrow> string list \<Rightarrow> string \<times> string list \<Rightarrow> 'w qs \<Rightarrow> (string \<times> string list, 'w qs) res" where
  "file_args P [] u s = Go u s"
| "file_args P (arg # args) u s =
     (if arg = ''-P'' \<and> args \<noteq> [] then
        (case args of p # rest \<Rightarrow> file_args P rest (strip_patches_prefix (fst s) p, snd u) s | [] \<Rightarrow> Abort)
      else if is_option arg then unrecognized P arg s
      else file_args P args (fst u, snd u @ [subdir_path (fst s) arg]) s)"

definition file_command ::
  "'w platform \<Rightarrow> string \<Rightarrow> (string \<Rightarrow> string list \<Rightarrow> 'w qs \<Rightarrow> (int, 'w qs) res) \<Rightarrow> string list \<Rightarrow> 'w qs \<Rightarrow>
   (int, 'w qs) res" where
  "file_command P usage run args s =
     bind_res (file_args P args (last (q_applied (fst s)), []) s) (\<lambda>(patch, files) s.
       if files = [] then fail P usage s
       else if \<not> is_applied (fst s) patch then patch_error P 1 patch '' is not applied'' s
       else run patch files s)"

text \<open>The complaint about a file, with the patch at its end.\<close>

definition file_error :: "'w platform \<Rightarrow> int \<Rightarrow> string \<Rightarrow> string \<Rightarrow> string \<Rightarrow> 'w qs \<Rightarrow> ('a, 'w qs) res" where
  "file_error P code file what patch = (\<lambda>(q, w).
     let w = err P what (err P file (err P ''File '' w))
     in Exit code (q, err_line P (format_patch P q patch w) w))"

definition file_note :: "'w platform \<Rightarrow> string \<Rightarrow> string \<Rightarrow> string \<Rightarrow> 'w qs \<Rightarrow> 'w qs" where
  "file_note P file what patch = (\<lambda>(q, w).
     let w = out P what (out P file (out P ''File '' w))
     in (q, out_line P (format_patch P q patch w) w))"

text \<open>The patches above the first occurrence of a patch.\<close>

fun applied_after :: "string \<Rightarrow> string list \<Rightarrow> string list" where
  "applied_after patch [] = []"
| "applied_after patch (ap # aps) = (if ap = patch then aps else applied_after patch aps)"

definition file_failed :: "'w platform \<Rightarrow> string \<Rightarrow> string \<Rightarrow> 'w qs \<Rightarrow> ('a, 'w qs) res" where
  "file_failed P what file s = Exit 1 (world (\<lambda>w. err_line P file (err P what w)) s)"

text \<open>A step for each file, up to the first that ends the command.\<close>

fun each :: "('x \<Rightarrow> 's \<Rightarrow> (unit, 's) res) \<Rightarrow> 'x list \<Rightarrow> 's \<Rightarrow> (unit, 's) res" where
  "each step [] s = Go () s"
| "each step (x # xs) s = bind_res (step x s) (\<lambda>_ s. each step xs s)"

section \<open>add\<close>

fun add_conflict :: "'w platform \<Rightarrow> quilt_state \<Rightarrow> string \<Rightarrow> string list \<Rightarrow> 'w \<Rightarrow> string option" where
  "add_conflict P q file [] w = None"
| "add_conflict P q file (ap # aps) w =
     (if file_exists P (path_join (pc_patch_dir q ap) file) w then Some ap else add_conflict P q file aps w)"

definition add_backup :: "'w platform \<Rightarrow> string \<Rightarrow> string \<Rightarrow> 'w qs \<Rightarrow> (unit, 'w qs) res" where
  "add_backup P patch file = (\<lambda>(q, w).
     let (ok, w) = backup_file P q patch file w in
     if \<not> ok then file_failed P ''Failed to back up '' file (q, w)
     else Go () (file_note P file '' added to patch '' patch (q, w)))"

definition add_file :: "'w platform \<Rightarrow> string \<Rightarrow> string \<Rightarrow> 'w qs \<Rightarrow> (unit, 'w qs) res" where
  "add_file P patch file = (\<lambda>(q, w).
     if file_exists P (path_join (pc_patch_dir q patch) file) w then
       file_error P 2 file '' is already in patch '' patch (q, w)
     else case add_conflict P q file (applied_after patch (q_applied q)) w of
            Some ap \<Rightarrow> file_error P 1 file '' modified by patch '' ap (q, w)
          | None \<Rightarrow> add_backup P patch file (q, w))"

definition cmd_add :: "'w platform \<Rightarrow> string list \<Rightarrow> 'w qs \<Rightarrow> (int, 'w qs) res" where
  "cmd_add P args s =
     (if q_applied (fst s) = [] then
        (if \<not> q_series_file_exists (fst s) then fail P ''No series file found'' s else fail P ''No patches applied'' s)
      else file_command P ''Usage: quilt add [-P patch] file ...'' (\<lambda>patch files s.
             bind_res (each (add_file P patch) files s) (\<lambda>_ s. Go 0 s)) args s)"

section \<open>remove\<close>

definition remove_file :: "'w platform \<Rightarrow> string \<Rightarrow> string \<Rightarrow> 'w qs \<Rightarrow> (unit, 'w qs) res" where
  "remove_file P patch file = (\<lambda>(q, w).
     let backup_path = path_join (pc_patch_dir q patch) file in
     if \<not> file_exists P backup_path w then file_error P 1 file '' is not in patch '' patch (q, w)
     else
       let (ok, w) = restore_file P q patch file w in
       if \<not> ok then file_failed P ''Failed to restore '' file (q, w)
       else Go () (file_note P file '' removed from patch '' patch (q, snd (delete_file P backup_path w))))"

definition cmd_remove :: "'w platform \<Rightarrow> string list \<Rightarrow> 'w qs \<Rightarrow> (int, 'w qs) res" where
  "cmd_remove P args s =
     (if q_applied (fst s) = [] then fail P ''No patches applied'' s
      else file_command P ''Usage: quilt remove [-P patch] file ...'' (\<lambda>patch files s.
             bind_res (each (remove_file P patch) files s) (\<lambda>_ s. Go 0 s)) args s)"

section \<open>edit\<close>

fun edit_args :: "'w platform \<Rightarrow> string list \<Rightarrow> string list \<Rightarrow> 'w qs \<Rightarrow> (string list, 'w qs) res" where
  "edit_args P [] files s = Go files s"
| "edit_args P (arg # args) files s =
     (if is_option arg then unrecognized P arg s
      else edit_args P args (files @ [subdir_path (fst s) arg]) s)"

definition edit_track :: "'w platform \<Rightarrow> string \<Rightarrow> string \<Rightarrow> 'w qs \<Rightarrow> (unit, 'w qs) res" where
  "edit_track P patch file s =
     (if \<not> file_exists P (path_join (pc_patch_dir (fst s) patch) file) (snd s) then add_backup P patch file s
      else Go () s)"

definition edit_command :: "'w platform \<Rightarrow> string list \<Rightarrow> quilt_state \<Rightarrow> 'w \<Rightarrow> string list" where
  "edit_command P files q w =
     (let editor = get_env P ''EDITOR'' w
      in (if editor = [] then ''vi'' else editor) # map (path_join (q_work_dir q)) files)"

definition cmd_edit :: "'w platform \<Rightarrow> string list \<Rightarrow> 'w qs \<Rightarrow> (int, 'w qs) res" where
  "cmd_edit P args s =
     (if q_applied (fst s) = [] then fail P ''No patches applied'' s
      else bind_res (edit_args P args [] s) (\<lambda>files s.
        if files = [] then fail P ''Usage: quilt edit file ...'' s
        else bind_res (each (edit_track P (last (q_applied (fst s)))) files s) (\<lambda>_ (q, w).
          let (code, w) = run_cmd_tty P (edit_command P files q w) w in Go code (q, w))))"

section \<open>snapshot\<close>

definition snapshot_patch :: string where
  "snapshot_patch = ''.snap''"

fun append_unique_files :: "string list \<times> string set \<Rightarrow> string list \<Rightarrow> string list \<times> string set" where
  "append_unique_files (dst, seen) [] = (dst, seen)"
| "append_unique_files (dst, seen) (f # fs) =
     append_unique_files (if f \<in> seen then (dst, seen) else (dst @ [f], insert f seen)) fs"

definition collect_files_for_patches :: "'w platform \<Rightarrow> quilt_state \<Rightarrow> string list \<Rightarrow> 'w \<Rightarrow> string list" where
  "collect_files_for_patches P q patches w =
     fst (foldl append_unique_files ([], {}) (map (\<lambda>p. files_in_patch P q p w) patches))"

fun snapshot_args :: "'w platform \<Rightarrow> string list \<Rightarrow> bool \<Rightarrow> 'w qs \<Rightarrow> (bool, 'w qs) res" where
  "snapshot_args P [] rm s = Go rm s"
| "snapshot_args P (arg # args) rm s =
     (if arg = ''-d'' then snapshot_args P args True s else fail P ''Usage: quilt snapshot [-d]'' s)"

definition snapshot_file :: "'w platform \<Rightarrow> string \<Rightarrow> 'w qs \<Rightarrow> (unit, 'w qs) res" where
  "snapshot_file P file = (\<lambda>(q, w).
     let (ok, w) = backup_file P q snapshot_patch file w in
     if \<not> ok then fail P (''Failed to snapshot '' @ file) (q, w) else Go () (q, w))"

definition snapshot_clear :: "'w platform \<Rightarrow> string \<Rightarrow> 'w qs \<Rightarrow> (unit, 'w qs) res" where
  "snapshot_clear P snap_dir = (\<lambda>(q, w).
     if is_directory P snap_dir w then
       let (ok, w) = delete_dir_recursive P snap_dir w in
       if \<not> ok then fail P (''Failed to remove '' @ snap_dir) (q, w) else Go () (q, w)
     else Go () (q, w))"

definition snapshot_make :: "'w platform \<Rightarrow> string \<Rightarrow> 'w qs \<Rightarrow> (unit, 'w qs) res" where
  "snapshot_make P snap_dir = (\<lambda>(q, w).
     let (ok, w) = make_dirs P snap_dir w in
     if \<not> ok then fail P (''Failed to create '' @ snap_dir) (q, w) else Go () (q, w))"

definition cmd_snapshot :: "'w platform \<Rightarrow> string list \<Rightarrow> 'w qs \<Rightarrow> (int, 'w qs) res" where
  "cmd_snapshot P args s =
     bind_res (snapshot_args P args False s) (\<lambda>remove_snapshot s.
       let snap_dir = pc_patch_dir (fst s) snapshot_patch in
       bind_res (snapshot_clear P snap_dir s) (\<lambda>_ s.
       if remove_snapshot then Go 0 s
       else bind_res (pc_dir_ready P s) (\<lambda>_ s.
            bind_res (snapshot_make P snap_dir s) (\<lambda>_ (q, w).
            bind_res (each (snapshot_file P) (collect_files_for_patches P q (q_applied q) w) (q, w)) (\<lambda>_ s.
              Go 0 s)))))"

section \<open>revert\<close>

text \<open>The first of the files an applied patch has, as its files come up.\<close>

fun revert_conflict :: "'w platform \<Rightarrow> string list \<Rightarrow> string list \<Rightarrow> 'w qs \<Rightarrow> (unit, 'w qs) res" where
  "revert_conflict P files [] s = Go () s"
| "revert_conflict P files (ap # aps) s =
     (let later_files = files_in_patch P (fst s) ap (snd s) in
      case find (\<lambda>file. file \<in> set later_files) files of
        Some file \<Rightarrow> file_error P 1 file '' modified by patch '' ap s
      | None \<Rightarrow> revert_conflict P files aps s)"

text \<open>What the patch makes of the backup, in memory.\<close>

definition revert_options :: "quilt_state \<Rightarrow> string \<Rightarrow> patch_options" where
  "revert_options q patch = default_options\<lparr>o_strip_level := get_strip_level q patch, o_quiet := True\<rparr>"

definition clean_content :: "'w platform \<Rightarrow> quilt_state \<Rightarrow> string \<Rightarrow> string \<Rightarrow> string \<Rightarrow> string \<Rightarrow> 'w \<Rightarrow> (string \<times> 'w) option" where
  "clean_content P q patch patch_text file backup w =
     map_option (\<lambda>(r, st). (fs_read P file st, io_world st))
       (builtin_patch P patch_text (revert_options q patch) (mem_io [file \<mapsto> backup] w))"

definition reverted :: "'w platform \<Rightarrow> string \<Rightarrow> string \<Rightarrow> 'w qs \<Rightarrow> 'w qs" where
  "reverted P file patch = (\<lambda>(q, w).
     let w = out P '' in patch '' (out P file (out P ''Changes to '' w))
     in (q, out_line P '' reverted'' (out P (format_patch P q patch w) w)))"

definition revert_to :: "'w platform \<Rightarrow> string \<Rightarrow> string \<Rightarrow> string \<Rightarrow> 'w qs \<Rightarrow> (unit, 'w qs) res" where
  "revert_to P patch file clean = (\<lambda>(q, w).
     let target = path_join (q_work_dir q) file;
         current = (if file_exists P target w then read_file P target w else [])
     in if current = clean then Go () (q, out_line P '' is unchanged'' (out P file (out P ''File '' w)))
        else if clean = [] then Go () (reverted P file patch (q, snd (delete_file P target w)))
        else
          let w = (if \<not> is_directory P (dirname target) w then snd (make_dirs P (dirname target) w) else w);
              (ok, w) = write_file P target clean w
          in if \<not> ok then file_failed P ''Failed to restore '' file (q, w)
             else Go () (reverted P file patch (q, w)))"

definition revert_file :: "'w platform \<Rightarrow> string \<Rightarrow> string \<Rightarrow> string \<Rightarrow> 'w qs \<Rightarrow> (unit, 'w qs) res" where
  "revert_file P patch patch_text file = (\<lambda>(q, w).
     let backup_path = path_join (pc_patch_dir q patch) file in
     if \<not> file_exists P backup_path w then file_error P 1 file '' is not in patch '' patch (q, w)
     else case clean_content P q patch patch_text file (read_file P backup_path w) w of
            None \<Rightarrow> Abort
          | Some (clean, w) \<Rightarrow> revert_to P patch file clean (q, w))"

definition cmd_revert :: "'w platform \<Rightarrow> string list \<Rightarrow> 'w qs \<Rightarrow> (int, 'w qs) res" where
  "cmd_revert P args s =
     (if q_applied (fst s) = [] then fail P ''No patches applied'' s
      else file_command P ''Usage: quilt revert [-P patch] file ...'' (\<lambda>patch files s.
             bind_res (revert_conflict P files (applied_after patch (q_applied (fst s))) s) (\<lambda>_ (q, w).
             let patch_text = read_file P (patch_path q patch) w in
             bind_res (each (revert_file P patch patch_text) files (q, w)) (\<lambda>_ s. Go 0 s))) args s)"

section \<open>Laws: new\<close>

lemma pc_dir_ready_neutral [simp]: "fst s = q \<Longrightarrow> neutral q (pc_dir_ready P s)"
  by (cases s) (simp add: pc_dir_ready_def split: prod.splits)

text \<open>How new ends: with the patch directly above the topmost one, or with an error; the
  applied patches are the first ones of the series in each case.\<close>

definition new_on_top :: "quilt_state \<Rightarrow> quilt_state \<Rightarrow> bool" where
  "new_on_top q q' \<longleftrightarrow>
     (\<exists>name. name \<noteq> [] \<and> name \<notin> set (q_series q) \<and> q_applied q' = q_applied q @ [name] \<and>
        q_series q' = take (length (q_applied q)) (q_series q) @ name # drop (length (q_applied q)) (q_series q))"

definition new_ends :: "quilt_state \<Rightarrow> (int, 'w qs) res \<Rightarrow> bool" where
  "new_ends q r \<longleftrightarrow> (case r of
       Go n s \<Rightarrow> n = 0 \<and> new_on_top q (fst s) \<and> stack_ok (fst s)
     | Exit n s \<Rightarrow> n \<noteq> 0 \<and> stack_ok (fst s)
     | Abort \<Rightarrow> False)"

text \<open>A stage of new: the states it can leave and its errors, none an abort.\<close>

definition stage :: "(quilt_state \<Rightarrow> bool) \<Rightarrow> (unit, 'w qs) res \<Rightarrow> bool" where
  "stage Q r \<longleftrightarrow> (case r of
       Go _ s \<Rightarrow> Q (fst s) | Exit n s \<Rightarrow> n \<noteq> 0 \<and> stack_ok (fst s) | Abort \<Rightarrow> False)"

lemma new_ends_bind:
  "stage Q m \<Longrightarrow> (\<And>a s. m = Go a s \<Longrightarrow> Q (fst s) \<Longrightarrow> new_ends q (f a s)) \<Longrightarrow> new_ends q (bind_res m f)"
  by (cases m) (auto simp: stage_def new_ends_def)

lemma ensure_dir_stage: "stack_ok (fst s) \<Longrightarrow> stage (\<lambda>q. q = fst s) (ensure_dir P d s)"
  by (cases s) (auto simp: ensure_dir_def fail_def stage_def split: prod.splits)

lemma pc_dir_ready_stage: "stack_ok (fst s) \<Longrightarrow> stage (\<lambda>q. q = fst s) (pc_dir_ready P s)"
  by (cases s) (auto simp: pc_dir_ready_def stage_def split: prod.splits)

text \<open>The state with the patch in the series but not applied yet.\<close>

definition named :: "quilt_state \<Rightarrow> string \<Rightarrow> quilt_state \<Rightarrow> bool" where
  "named q name q' \<longleftrightarrow> q_applied q' = q_applied q \<and>
     q_series q' = take (length (q_applied q)) (q_series q) @ name # drop (length (q_applied q)) (q_series q)"

lemma named_stack:
  assumes "stack_ok q" "name \<notin> set (q_series q)" "named q name q'"
  shows "stack_ok q'" "q'' = q'\<lparr>q_applied := q_applied q' @ [name]\<rparr> \<Longrightarrow> stack_ok q''"
proof -
  let ?k = "length (q_applied q)"
  have a: "distinct (q_series q)" "q_applied q = take ?k (q_series q)" using assms(1) by (simp_all add: stack_ok_def)
  have k: "?k \<le> length (q_series q)" using a(2) by (metis length_take min.cobounded1)
  have "distinct (take ?k (q_series q) @ drop ?k (q_series q))" using a(1) by simp
  then have d: "distinct (take ?k (q_series q) @ name # drop ?k (q_series q))"
    using assms(2) set_take_disj_set_drop_if_distinct[OF a(1) order_refl, of ?k]
    by (auto dest: in_set_takeD in_set_dropD)
  show "stack_ok q'" using d a(2) k assms(3) by (simp add: stack_ok_def named_def)
  have t: "take (Suc ?k) (take ?k (q_series q) @ name # drop ?k (q_series q)) = q_applied q @ [name]"
    using k by (simp flip: a(2))
  show "stack_ok q''" if "q'' = q'\<lparr>q_applied := q_applied q' @ [name]\<rparr>"
  proof -
    have "q_applied q'' = q_applied q @ [name]" "q_series q'' = take ?k (q_series q) @ name # drop ?k (q_series q)"
      using that assms(3) by (simp_all add: named_def)
    moreover have "length (q_applied q @ [name]) = Suc ?k" by simp
    ultimately show ?thesis using d t unfolding stack_ok_def by metis
  qed
qed

lemma new_in_series_stage:
  assumes "stack_ok (fst s)" "name \<notin> set (q_series (fst s))"
  shows "stage (named (fst s) name) (new_in_series P name s)"
proof -
  let ?q = "fst s"
  have "(if top_index ?q < 0 then 0 else nat (top_index ?q) + 1) = length (q_applied ?q)"
    using top_index_stack[OF assms(1)] by (cases "q_applied ?q") auto
  moreover have "\<not> (q_applied ?q \<noteq> [] \<and> top_index ?q < 0)" using top_index_stack[OF assms(1)] by (cases "q_applied ?q") auto
  ultimately show ?thesis unfolding new_in_series_def Let_def by (auto simp: stage_def named_def)
qed

lemma new_level_stage:
  assumes "stack_ok q" "name \<notin> set (q_series q)" "named q name (fst s)"
  shows "stage (named q name) (new_level P p_value name s)"
proof -
  have z: "checked_int (parse_int ''0'') = Some 0" by code_simp
  show ?thesis
    using assms(3) named_stack(1)[OF assms]
    by (cases s) (auto simp: new_level_def stage_def fail_def z named_def)
qed

lemma new_write_stage:
  assumes "stack_ok q" "name \<notin> set (q_series q)" "named q name (fst s)" "name \<noteq> []"
  shows "stage (\<lambda>q'. new_on_top q q' \<and> stack_ok q') (new_write P name s)"
proof -
  obtain q1 w where s: "s = (q1, w)" by (cases s)
  let ?q2 = "q1\<lparr>q_applied := q_applied q1 @ [name]\<rparr>"
  have "stack_ok q1" "stack_ok ?q2" using named_stack[OF assms(1-3)] s by simp_all
  moreover have "new_on_top q ?q2" using assms s by (auto simp: new_on_top_def named_def)
  ultimately show ?thesis unfolding s
    by (simp add: new_write_def stage_def Let_def split: prod.splits)
qed

lemma new_args_result:
  "case new_args P args p s of Go u s' \<Rightarrow> s' = s | Exit n s' \<Rightarrow> n \<noteq> 0 \<and> fst s' = fst s | Abort \<Rightarrow> False"
  by (induction P args p s rule: new_args.induct)
    (auto simp: unrecognized_def split: list.split res.split)

lemma cmd_new_ends:
  assumes "stack_ok q"
  shows "new_ends q (cmd_new P args (q, w))"
proof -
  note args = new_args_result[where P = P and args = args and p = "[]" and s = "(q, w)"]
  show ?thesis
  proof (cases "new_args P args [] (q, w)")
    case (Go u s)
    obtain name pv where u: "u = (name, pv)" by (cases u)
    have s: "s = (q, w)" using args Go by simp
    show ?thesis
    proof (cases "name = [] \<or> find_in_series q name \<noteq> None")
      case True
      then show ?thesis using assms unfolding cmd_new_def Go u s
        by (auto simp: fail_def new_ends_def)
    next
      case False
      then have new: "name \<noteq> []" "name \<notin> set (q_series q)" by (simp_all add: find_in_series_None)
      have "new_ends q (bind_res (pc_dir_ready P (q, w)) (\<lambda>_ s.
         bind_res (ensure_dir P (path_join (q_work_dir q) (q_patches_dir q)) s) (\<lambda>_ s.
         bind_res (new_in_series P name s) (\<lambda>_ s.
         bind_res (new_level P pv name s) (\<lambda>_ s.
         bind_res (new_write P name s) (\<lambda>_ s.
         bind_res (ensure_dir P (pc_patch_dir q name) s) (\<lambda>_ (q, w).
           Go 0 (q, out_line P (''Patch '' @ format_patch P q name w @ '' is now on top'') w))))))))"
      proof (rule new_ends_bind[OF pc_dir_ready_stage], goal_cases)
        case (2 _ s1)
        then have s1: "fst s1 = q" by simp
        show ?case
        proof (rule new_ends_bind[OF ensure_dir_stage], goal_cases)
          case (2 _ s2)
          then have s2: "fst s2 = q" using s1 by simp
          show ?case
          proof (rule new_ends_bind[OF new_in_series_stage], goal_cases)
            case (3 _ s3)
            then have s3: "named q name (fst s3)" using s2 by simp
            show ?case
            proof (rule new_ends_bind[OF new_level_stage[OF assms new(2) s3]], goal_cases)
              case (1 _ s4)
              show ?case
              proof (rule new_ends_bind[OF new_write_stage[OF assms new(2) 1(2) new(1)]], goal_cases)
                case (1 _ s5)
                show ?case
                  by (rule new_ends_bind[OF ensure_dir_stage])
                    (use 1 in \<open>auto simp: new_ends_def split: prod.split\<close>)
              qed
            qed
          qed (use s2 assms new in simp_all)
        qed (use s1 assms in simp)
      qed (use assms in simp)
      then show ?thesis using False unfolding cmd_new_def Go u s by simp
    qed
  qed (use args assms in \<open>auto simp: cmd_new_def new_ends_def\<close>)
qed

end
