(* ===== verification/Quilt_Annotate.thy ===== *)
theory Quilt_Annotate
  imports Stack_Query
begin

text \<open>
  The command annotate (\<open>cmd_annotate.cpp\<close> part of \<open>src/src/quilt.cpp\<close>): the
  versions of a file before and after each patch, the table of longest common subsequences
  between two versions, the walk that carries the annotations along it, and the command.
  \<open>lcs\<close> is the recursion the table stores; \<open>reannotate_lcs\<close> shows that a line
  keeps its annotation exactly along a longest common subsequence of the two versions.
\<close>

section \<open>Versions of a file\<close>

definition path_has_content :: "'w platform \<Rightarrow> string \<Rightarrow> 'w \<Rightarrow> bool" where
  "path_has_content P path w \<longleftrightarrow> file_exists P path w \<and> read_file P path w \<noteq> []"

definition read_lines :: "'w platform \<Rightarrow> string \<Rightarrow> 'w \<Rightarrow> lines" where
  "read_lines P path w = (if \<not> path_has_content P path w then [] else split_lines (read_file P path w))"

text \<open>The loop over the applied patches: the first one behind \<open>patch\<close> that has the
  file.\<close>

fun next_patch_loop ::
  "'w platform \<Rightarrow> quilt_state \<Rightarrow> string \<Rightarrow> string \<Rightarrow> 'w \<Rightarrow> bool \<Rightarrow> string list \<Rightarrow> string" where
  "next_patch_loop P q patch file w after_target [] = []"
| "next_patch_loop P q patch file w after_target (applied # rest) =
     (if after_target \<and> file \<in> set (files_in_patch P q applied w) then applied
      else next_patch_loop P q patch file w (after_target \<or> applied = patch) rest)"

definition next_patch_for_file :: "'w platform \<Rightarrow> quilt_state \<Rightarrow> string \<Rightarrow> string \<Rightarrow> 'w \<Rightarrow> string" where
  "next_patch_for_file P q patch file w = next_patch_loop P q patch file w False (q_applied q)"

section \<open>Carrying the annotations\<close>

text \<open>The table \<open>dp\<close>: one row is filled from the right, over the row below it; the last
  row and the last column are zero. In the walk \<open>i\<close> never passes the end, where the
  program compares it with the length.\<close>

fun dp_row :: "string \<Rightarrow> lines \<Rightarrow> int list \<Rightarrow> int list" where
  "dp_row x [] below = [0]"
| "dp_row x (y # ys) below =
     (let row = dp_row x ys (tl below)
      in (if x = y then hd (tl below) + 1 else max (hd below) (hd row)) # row)"

fun dp_table :: "lines \<Rightarrow> lines \<Rightarrow> int list list" where
  "dp_table [] ys = [replicate (length ys + 1) 0]"
| "dp_table (x # xs) ys = (let rows = dp_table xs ys in dp_row x ys (hd rows) # rows)"

function reannotate_walk ::
  "lines \<Rightarrow> string list \<Rightarrow> lines \<Rightarrow> string \<Rightarrow> int list list \<Rightarrow> nat \<Rightarrow> nat \<Rightarrow> string list" where
  "reannotate_walk old old_annotations new annotation dp i j =
     (if i < length old \<or> j < length new then
        if i < length old \<and> j < length new \<and> old ! i = new ! j then
          (if i < length old_annotations then old_annotations ! i else []) #
            reannotate_walk old old_annotations new annotation dp (i + 1) (j + 1)
        else if j < length new \<and> (i \<ge> length old \<or> dp ! i ! (j + 1) \<ge> dp ! (i + 1) ! j) then
          annotation # reannotate_walk old old_annotations new annotation dp i (j + 1)
        else reannotate_walk old old_annotations new annotation dp (i + 1) j
      else [])"
  by pat_completeness auto
termination
  by (relation "measure (\<lambda>(old, oa, new, a, dp, i, j). (length old - i) + (length new - j))") auto

declare reannotate_walk.simps [simp del]

definition reannotate_lines :: "lines \<Rightarrow> string list \<Rightarrow> lines \<Rightarrow> string \<Rightarrow> string list" where
  "reannotate_lines old old_annotations new annotation =
     reannotate_walk old old_annotations new annotation (dp_table old new) 0 0"

section \<open>The command\<close>

record annotate_options =
  a_patch :: string
  a_file :: string

fun parse_annotate_options :: "quilt_state \<Rightarrow> string list \<Rightarrow> annotate_options \<Rightarrow> annotate_options option" where
  "parse_annotate_options q [] opts = (if a_file opts = [] then None else Some opts)"
| "parse_annotate_options q (arg # args) opts =
     (if arg = ''-P'' \<and> args \<noteq> [] then
        parse_annotate_options q (tl args) (opts\<lparr>a_patch := strip_patches_prefix q (hd args)\<rparr>)
      else if is_option arg then None
      else if a_file opts \<noteq> [] then None
      else parse_annotate_options q args (opts\<lparr>a_file := subdir_path q arg\<rparr>))"

definition no_applied_patches_error :: "'w platform \<Rightarrow> 'w qs \<Rightarrow> (int, 'w qs) res" where
  "no_applied_patches_error P = (\<lambda>(q, w).
     Exit 1 (q, err_line P (if \<not> q_series_file_exists q then ''No series file found''
       else if q_series q = [] then ''No patches in series'' else ''No patches applied'') w))"

text \<open>The loop over the versions: \<open>files\<close> has one more entry than there are patches.\<close>

fun annotate_versions :: "'w platform \<Rightarrow> 'w \<Rightarrow> string list \<Rightarrow> int \<Rightarrow> string list \<Rightarrow> string list" where
  "annotate_versions P w (f # g # fs) i annotations =
     annotate_versions P w (g # fs) (i + 1)
       (reannotate_lines (read_lines P f w) annotations (read_lines P g w) (int_str (i + 1)))"
| "annotate_versions P w fs i annotations = annotations"

text \<open>The patches up to \<open>stop_patch\<close> that back the file up, and its versions.\<close>

definition annotate_patches :: "'w platform \<Rightarrow> quilt_state \<Rightarrow> string \<Rightarrow> string \<Rightarrow> 'w \<Rightarrow> string list" where
  "annotate_patches P q stop_patch file w =
     filter (\<lambda>p. file_exists P (path_join (pc_patch_dir q p) file) w) (through stop_patch (q_applied q))"

definition annotate_files :: "'w platform \<Rightarrow> quilt_state \<Rightarrow> string \<Rightarrow> string \<Rightarrow> 'w \<Rightarrow> string list" where
  "annotate_files P q stop_patch file w =
     (let next_patch = (if stop_patch \<in> set (q_applied q)
                        then next_patch_for_file P q stop_patch file w else [])
      in map (\<lambda>p. path_join (pc_patch_dir q p) file) (annotate_patches P q stop_patch file w) @
         [if next_patch = [] then path_join (q_work_dir q) file
          else path_join (pc_patch_dir q next_patch) file])"

fun print_annotated :: "'w platform \<Rightarrow> string list \<Rightarrow> lines \<Rightarrow> 'w \<Rightarrow> 'w" where
  "print_annotated P [] ls w = w"
| "print_annotated P (a # as) ls w =
     print_annotated P as (tl ls) (out P (a @ [tab] @ (if ls = [] then [] else hd ls) @ [nl]) w)"

fun print_legend :: "'w platform \<Rightarrow> quilt_state \<Rightarrow> int \<Rightarrow> string list \<Rightarrow> 'w \<Rightarrow> 'w" where
  "print_legend P q i [] w = w"
| "print_legend P q i (p # ps) w =
     print_legend P q (i + 1) ps (out P (int_str (i + 1) @ [tab] @ format_patch P q p w @ [nl]) w)"

definition annotate_file :: "'w platform \<Rightarrow> string \<Rightarrow> string \<Rightarrow> 'w qs \<Rightarrow> (int, 'w qs) res" where
  "annotate_file P stop_patch file = (\<lambda>(q, w).
     let patches = annotate_patches P q stop_patch file w;
         files = annotate_files P q stop_patch file w
     in if patches = [] then
          (let target = last files in
           if \<not> file_exists P target w then Exit 1 (q, err_line P (''File '' @ file @ '' does not exist'') w)
           else Go 0 (q, fold (\<lambda>l. out P ([tab] @ l @ [nl])) (read_lines P target w) w))
        else
          let annotations = annotate_versions P w files 0 (replicate (length (read_lines P (hd files) w)) []);
              w' = print_annotated P annotations (read_lines P (last files) w) w
          in Go 0 (q, print_legend P q 0 patches (out P [nl] w')))"

definition cmd_annotate :: "'w platform \<Rightarrow> string list \<Rightarrow> 'w qs \<Rightarrow> (int, 'w qs) res" where
  "cmd_annotate P args = (\<lambda>(q, w).
     case parse_annotate_options q args \<lparr>a_patch = [], a_file = []\<rparr> of
       None \<Rightarrow> Exit 1 (q, err_line P ''Usage: quilt annotate [-P patch] file'' w)
     | Some opts \<Rightarrow>
         if q_applied q = [] then no_applied_patches_error P (q, w)
         else
           let stop_patch = (if a_patch opts = [] then last (q_applied q) else a_patch opts) in
           if find_in_series q stop_patch = None then
             Exit 1 (q, err_line P (''Patch '' @ stop_patch @ '' is not in series'') w)
           else if \<not> is_applied q stop_patch then
             Exit 1 (q, err_line P (''Patch '' @ stop_patch @ '' is not applied'') w)
           else annotate_file P stop_patch (a_file opts) (q, w))"

section \<open>Laws: the table\<close>

fun lcs :: "'a list \<Rightarrow> 'a list \<Rightarrow> nat" where
  "lcs [] ys = 0"
| "lcs (x # xs) [] = 0"
| "lcs (x # xs) (y # ys) = (if x = y then lcs xs ys + 1 else max (lcs xs (y # ys)) (lcs (x # xs) ys))"

lemma lcs_Nil [simp]: "lcs xs [] = 0"
  by (cases xs) auto

lemma lcs_bound: "subseq zs xs \<Longrightarrow> subseq zs ys \<Longrightarrow> length zs \<le> lcs xs ys"
proof (induction xs ys arbitrary: zs rule: lcs.induct)
  case (3 x xs y ys)
  show ?case
  proof (cases zs)
    case (Cons z zs')
    show ?thesis
    proof (cases "x = y")
      case True
      have "subseq zs' xs" "subseq zs' ys"
        using 3 Cons by (auto dest: subseq_Cons' split: if_splits)
      then show ?thesis using 3(1)[OF True] Cons True by simp
    next
      case False
      then have "subseq zs xs \<or> subseq zs ys"
        using 3 Cons by (auto split: if_splits)
      then show ?thesis
        using 3(2)[OF False, of zs] 3(3)[OF False, of zs] 3(4,5) False by fastforce
    qed
  qed simp
qed auto

lemma dp_row_spec:
  assumes "below = map (\<lambda>j. int (lcs xs (drop j ys))) [0..<length ys + 1]"
  shows "dp_row x ys below = map (\<lambda>j. int (lcs (x # xs) (drop j ys))) [0..<length ys + 1]"
  using assms
proof (induction ys arbitrary: below)
  case (Cons y ys)
  have u: "[0..<length (y # ys) + 1] = 0 # map Suc [0..<length ys + 1]"
    by (simp add: upt_conv_Cons map_Suc_upt del: upt_Suc)
  have b: "below = int (lcs xs (y # ys)) # map (\<lambda>j. int (lcs xs (drop j ys))) [0..<length ys + 1]"
    using Cons.prems unfolding u by simp
  have v: "[0..<length ys + 1] = 0 # [1..<length ys + 1]"
    by (simp add: upt_conv_Cons del: upt_Suc)
  note IH = Cons.IH[of "tl below"]
  have r: "dp_row x ys (tl below) = map (\<lambda>j. int (lcs (x # xs) (drop j ys))) [0..<length ys + 1]"
    by (rule IH) (simp add: b)
  have h: "hd (dp_row x ys (tl below)) = int (lcs (x # xs) ys)" unfolding r v by simp
  have h2: "hd (tl below) = int (lcs xs ys)" unfolding b list.sel v by simp
  have h3: "hd below = int (lcs xs (y # ys))" unfolding b by simp
  show ?case unfolding u dp_row.simps Let_def h h2 h3 unfolding r
    by (simp add: of_nat_max del: upt_Suc)
qed simp

lemma dp_table_spec:
  "i \<le> length xs \<Longrightarrow> dp_table xs ys ! i = map (\<lambda>j. int (lcs (drop i xs) (drop j ys))) [0..<length ys + 1]"
proof (induction xs arbitrary: i)
  case Nil
  then show ?case by (simp add: list_eq_iff_nth_eq del: replicate_Suc upt_Suc)
next
  case (Cons x xs)
  have "hd (dp_table xs ys) = dp_table xs ys ! 0" by (cases xs) (auto simp: Let_def)
  then have h: "hd (dp_table xs ys) = map (\<lambda>j. int (lcs xs (drop j ys))) [0..<length ys + 1]"
    using Cons.IH[of 0] by simp
  show ?case
    using Cons dp_row_spec[OF h] by (cases i) (simp_all add: Let_def del: upt_Suc)
qed

lemma dp_table_nth:
  "i \<le> length xs \<Longrightarrow> j \<le> length ys \<Longrightarrow> dp_table xs ys ! i ! j = int (lcs (drop i xs) (drop j ys))"
  by (simp add: dp_table_spec del: upt_Suc)

lemma lcs_step:
  "i < length xs \<Longrightarrow> j < length ys \<Longrightarrow>
   lcs (drop i xs) (drop j ys) =
     (if xs ! i = ys ! j then lcs (drop (Suc i) xs) (drop (Suc j) ys) + 1
      else max (lcs (drop (Suc i) xs) (drop j ys)) (lcs (drop i xs) (drop (Suc j) ys)))"
  by (simp add: Cons_nth_drop_Suc [symmetric])

section \<open>Laws: the walk\<close>

text \<open>Positions of two lists matched in order, and the annotation the lines of the second
  list get from them.\<close>

definition alignment :: "'a list \<Rightarrow> 'a list \<Rightarrow> (nat \<times> nat) list \<Rightarrow> bool" where
  "alignment xs ys ps \<longleftrightarrow>
     sorted_wrt (\<lambda>p p'. fst p < fst p' \<and> snd p < snd p') ps \<and>
     (\<forall>p \<in> set ps. fst p < length xs \<and> snd p < length ys \<and> xs ! fst p = ys ! snd p)"

definition annotation_at :: "(nat \<times> nat) list \<Rightarrow> string list \<Rightarrow> string \<Rightarrow> nat \<Rightarrow> string" where
  "annotation_at ps old_annotations annotation j =
     (case map_of (map prod.swap ps) j of
        Some i \<Rightarrow> if i < length old_annotations then old_annotations ! i else []
      | None \<Rightarrow> annotation)"

lemma annotation_at_none: "(\<And>p. p \<in> set ps \<Longrightarrow> snd p \<noteq> j) \<Longrightarrow> annotation_at ps oa a j = a"
proof -
  assume "\<And>p. p \<in> set ps \<Longrightarrow> snd p \<noteq> j"
  then have "map_of (map prod.swap ps) j = None" by (force simp: map_of_eq_None_iff)
  then show ?thesis by (simp add: annotation_at_def)
qed

lemma reannotate_walk_lcs:
  assumes "i \<le> length old" "j \<le> length new"
  shows "\<exists>ps. alignment old new ps \<and> (\<forall>p \<in> set ps. i \<le> fst p \<and> j \<le> snd p) \<and>
     length ps = lcs (drop i old) (drop j new) \<and>
     reannotate_walk old oa new a (dp_table old new) i j = map (annotation_at ps oa a) [j..<length new]"
  using assms
proof (induction "(length old - i) + (length new - j)" arbitrary: i j rule: less_induct)
  case less
  have IH: "\<exists>ps. alignment old new ps \<and> (\<forall>p \<in> set ps. i' \<le> fst p \<and> j' \<le> snd p) \<and>
      length ps = lcs (drop i' old) (drop j' new) \<and>
      reannotate_walk old oa new a (dp_table old new) i' j' = map (annotation_at ps oa a) [j'..<length new]"
    if "i' \<le> length old" "j' \<le> length new" "i \<le> i'" "j \<le> j'" "i < i' \<or> j < j'" for i' j'
    by (rule less.hyps[OF _ that(1,2)]) (use that in linarith)
  note step = reannotate_walk.simps[of old oa new a "dp_table old new" i j]
  consider (both) "i < length old" "j < length new" "old ! i = new ! j"
    | (ins) "j < length new" "\<not> (i < length old \<and> old ! i = new ! j)"
        "i = length old \<or> dp_table old new ! i ! (j + 1) \<ge> dp_table old new ! (i + 1) ! j"
    | (del) "i < length old" "\<not> (j < length new \<and> old ! i = new ! j)"
        "\<not> (j < length new \<and> dp_table old new ! i ! (j + 1) \<ge> dp_table old new ! (i + 1) ! j)"
    | (fin) "i = length old" "j = length new"
    using less.prems by fastforce
  then show ?case
  proof cases
    case both
    obtain ps where ps: "alignment old new ps" "\<forall>p \<in> set ps. i + 1 \<le> fst p \<and> j + 1 \<le> snd p"
      "length ps = lcs (drop (i + 1) old) (drop (j + 1) new)"
      "reannotate_walk old oa new a (dp_table old new) (i + 1) (j + 1) =
         map (annotation_at ps oa a) [j + 1..<length new]"
      using IH[of "i + 1" "j + 1"] both by auto
    have "alignment old new ((i, j) # ps)" using ps(1,2) both by (auto simp: alignment_def)
    moreover have "annotation_at ((i, j) # ps) oa a k = annotation_at ps oa a k" if "j < k" for k
      using that by (simp add: annotation_at_def)
    moreover have "annotation_at ((i, j) # ps) oa a j = (if i < length oa then oa ! i else [])"
      by (simp add: annotation_at_def)
    ultimately show ?thesis
      using ps both lcs_step[of i old j new]
      by (intro exI[of _ "(i, j) # ps"]) (auto simp: step upt_conv_Cons)
  next
    case ins
    obtain ps where ps: "alignment old new ps" "\<forall>p \<in> set ps. i \<le> fst p \<and> j + 1 \<le> snd p"
      "length ps = lcs (drop i old) (drop (j + 1) new)"
      "reannotate_walk old oa new a (dp_table old new) i (j + 1) =
         map (annotation_at ps oa a) [j + 1..<length new]"
      using IH[of i "j + 1"] ins less.prems by auto
    have "annotation_at ps oa a j = a" using ps(2) by (intro annotation_at_none) auto
    moreover have "lcs (drop i old) (drop j new) = lcs (drop i old) (drop (j + 1) new)"
      using ins less.prems lcs_step[of i old j new] by (cases "i < length old") (auto simp: dp_table_nth)
    ultimately show ?thesis
      using ps ins less.prems
      by (intro exI[of _ ps]) (auto simp: step upt_conv_Cons Suc_le_eq)
  next
    case del
    obtain ps where ps: "alignment old new ps" "\<forall>p \<in> set ps. i + 1 \<le> fst p \<and> j \<le> snd p"
      "length ps = lcs (drop (i + 1) old) (drop j new)"
      "reannotate_walk old oa new a (dp_table old new) (i + 1) j = map (annotation_at ps oa a) [j..<length new]"
      using IH[of "i + 1" j] del less.prems by auto
    have "lcs (drop i old) (drop j new) = lcs (drop (i + 1) old) (drop j new)"
      using del less.prems lcs_step[of i old j new] by (cases "j < length new") (auto simp: dp_table_nth)
    then show ?thesis
      using ps del less.prems by (intro exI[of _ ps]) (auto simp: step)
  next
    case fin
    then show ?thesis using step by (intro exI[of _ "[]"]) (auto simp: alignment_def)
  qed
qed

lemma reannotate_lines_lcs:
  "\<exists>ps. alignment old new ps \<and> length ps = lcs old new \<and>
     reannotate_lines old oa new a = map (annotation_at ps oa a) [0..<length new]"
  using reannotate_walk_lcs[of 0 old 0 new oa a] by (auto simp: reannotate_lines_def)

lemma subseq_picked:
  "sorted_wrt (<) is \<Longrightarrow> (\<And>i. i \<in> set is \<Longrightarrow> k \<le> i \<and> i < length xs) \<Longrightarrow> subseq (map ((!) xs) is) (drop k xs)"
proof (induction "is" arbitrary: k)
  case (Cons i js)
  have i: "k \<le> i" "i < length xs" using Cons.prems(2)[of i] by simp_all
  have "subseq (map ((!) xs) js) (drop (Suc i) xs)"
    by (rule Cons.IH) (use Cons.prems in \<open>auto simp: Suc_le_eq\<close>)
  then have "subseq (xs ! i # map ((!) xs) js) (drop i xs)"
    using i(2) by (simp add: Cons_nth_drop_Suc[symmetric])
  moreover have "subseq (drop i xs) (drop k xs)"
    using i(1) by (metis drop_drop le_add_diff_inverse2 suffix_drop suffix_imp_subseq)
  ultimately show ?case by (simp add: subseq_order.trans)
qed simp

lemma alignment_bound:
  assumes "alignment xs ys ps"
  shows "length ps \<le> lcs xs ys"
proof -
  have "sorted_wrt (<) (map fst ps)" "sorted_wrt (<) (map snd ps)"
    using assms unfolding alignment_def sorted_wrt_map by (auto elim: sorted_wrt_mono_rel[rotated])
  then have "subseq (map ((!) xs) (map fst ps)) (drop 0 xs)" "subseq (map ((!) ys) (map snd ps)) (drop 0 ys)"
    by (intro subseq_picked; use assms in \<open>auto simp: alignment_def\<close>)+
  moreover have eq: "map ((!) ys) (map snd ps) = map ((!) xs) (map fst ps)" using assms by (simp add: alignment_def)
  ultimately have "length (map ((!) xs) (map fst ps)) \<le> lcs xs ys"
    by (intro lcs_bound) (simp_all only: eq drop_0)
  then show ?thesis by simp
qed

lemma reannotate_lines_longest:
  "\<exists>ps. alignment old new ps \<and> (\<forall>ps'. alignment old new ps' \<longrightarrow> length ps' \<le> length ps) \<and>
     reannotate_lines old oa new a = map (annotation_at ps oa a) [0..<length new]"
  using reannotate_lines_lcs[of old new oa a] alignment_bound by metis

lemma length_reannotate_lines [simp]: "length (reannotate_lines old oa new a) = length new"
  using reannotate_lines_lcs[of old new oa a] by auto

text \<open>Every line of the last version has one annotation.\<close>

lemma length_annotate_versions:
  "length annotations = length (read_lines P (hd files) w) \<Longrightarrow> files \<noteq> [] \<Longrightarrow>
   length (annotate_versions P w files i annotations) = length (read_lines P (last files) w)"
  by (induction P w files i annotations rule: annotate_versions.induct) auto

end
