(* ===== verification/Header_Text.thy ===== *)
theory Header_Text
  imports Quilt_Strings
begin

text \<open>
  The text of a patch file (\<open>cmd_manage.cpp\<close> and \<open>cmd_mail.cpp\<close> parts of
  \<open>src/src/quilt.cpp\<close>): its header in front of the first diff line, replacing it, the
  diffs behind it, and the two strips of a header. The laws: replacing the header keeps the
  diffs, reading it back gives what was written, and writing back what was read changes nothing.
\<close>

section \<open>Model\<close>

definition starts_diff :: "string \<Rightarrow> bool" where
  "starts_diff line \<longleftrightarrow>
     starts_with line ''Index:'' \<or> starts_with line ''--- '' \<or> starts_with line ''diff '' \<or> starts_with line ''===''"

definition extract_header :: "string \<Rightarrow> string" where
  "extract_header content = unlines (takeWhile (\<lambda>l. \<not> starts_diff l) (split_lines content))"

definition extract_diff :: "string \<Rightarrow> string" where
  "extract_diff content = unlines (dropWhile (\<lambda>l. \<not> starts_diff l) (split_lines content))"

definition end_line :: "string \<Rightarrow> string" where
  "end_line s = (if s \<noteq> [] \<and> last s \<noteq> nl then s @ [nl] else s)"

definition replace_header :: "string \<Rightarrow> string \<Rightarrow> string" where
  "replace_header content new_header =
     end_line new_header @ unlines (dropWhile (\<lambda>l. \<not> starts_diff l) (split_lines content))"

text \<open>The search for the summary line of a diffstat: the lines behind it.\<close>

fun find_summary :: "lines \<Rightarrow> lines option" where
  "find_summary [] = None"
| "find_summary (l # ls) =
     (if str_find_sub l ''changed'' \<ge> 0 \<and> str_find_sub l ''file'' \<ge> 0 then Some ls
      else if l = [] \<or> (hd l \<noteq> spc \<and> str_find l (CHR ''|'') 0 < 0) then None
      else find_summary ls)"

lemma find_summary_shorter: "find_summary ls = Some rest \<Longrightarrow> length rest < length ls"
  by (induction ls) (auto split: if_splits)

definition diffstat_at :: "string \<Rightarrow> lines \<Rightarrow> lines option" where
  "diffstat_at line rest =
     (let ds = (if line = ''---'' \<and> rest \<noteq> [] then rest else line # rest); first = hd ds in
      if first \<noteq> [] \<and> hd first = spc \<and> str_find first (CHR ''|'') 0 \<ge> 0 then find_summary ds else None)"

lemma diffstat_at_shorter: "diffstat_at line rest = Some r \<Longrightarrow> length r < Suc (length rest)"
  unfolding diffstat_at_def Let_def by (auto split: if_splits dest!: find_summary_shorter)

function strip_diffstat_loop :: "lines \<Rightarrow> string" where
  "strip_diffstat_loop [] = []"
| "strip_diffstat_loop (line # rest) =
     (case diffstat_at line rest of
        Some r \<Rightarrow>
          (if line = ''---'' \<and> rest \<noteq> [] then line @ [nl] else []) @
          strip_diffstat_loop (if r \<noteq> [] \<and> hd r = [] then tl r else r)
      | None \<Rightarrow> line @ [nl] @ strip_diffstat_loop rest)"
  by pat_completeness auto
termination
  by (relation "measure length") (auto dest: diffstat_at_shorter)

definition strip_diffstat :: "string \<Rightarrow> string" where
  "strip_diffstat header = strip_diffstat_loop (split_lines header)"

definition strip_header_trailing_ws :: "string \<Rightarrow> string" where
  "strip_header_trailing_ws header =
     concat (map (\<lambda>l. rdrop_while is_blank (strip_cr l) @ [nl]) (split_lines header))"

section \<open>Laws\<close>

lemma split_lines_chars: "l \<in> set (split_lines s) \<Longrightarrow> set l \<subseteq> set s"
proof (induction s rule: split_lines.induct)
  case (1 s)
  show ?case
  proof (cases "nl \<in> set s")
    case True
    then obtain l' r where s: "s = l' @ nl # r" "nl \<notin> set l'" by (metis split_list_first)
    have "\<not> str_find s nl 0 < 0" "drop (nat (str_find s nl 0 + 1)) s = r"
      using s by (auto simp: str_find_hit nat_add_distrib)
    then show ?thesis using 1 s set_strip_cr[of l'] by (auto simp: split_lines_hit)
  next
    case False
    then show ?thesis using 1(2) set_strip_cr[of s] by (cases "s = []") (auto simp: split_lines_last)
  qed
qed

lemma strip_cr_absent: "cr \<notin> set l \<Longrightarrow> strip_cr l = l"
  by (metis last_in_set strip_cr_def)

lemma split_lines_no_cr: "cr \<notin> set s \<Longrightarrow> l \<in> set (split_lines s) \<Longrightarrow> nl \<notin> set l \<and> strip_cr l = l"
  using split_lines_no_nl[of l s] split_lines_chars[of l s] by (blast intro: strip_cr_absent)

lemma split_unlines_id:
  assumes "\<And>l. l \<in> set ls \<Longrightarrow> nl \<notin> set l \<and> strip_cr l = l"
  shows "split_lines (unlines ls) = ls"
proof -
  have "split_lines (unlines ls @ []) = map strip_cr ls @ split_lines []"
    by (rule split_lines_unlines) (use assms in blast)
  then show ?thesis using assms by (simp add: map_idI)
qed

lemma end_line_unlines [simp]: "end_line (unlines ls) = unlines ls"
  by (cases ls rule: rev_cases) (auto simp: end_line_def)

text \<open>Header lines: no line break inside, and none that starts a diff.\<close>

definition header_lines_ok :: "lines \<Rightarrow> bool" where
  "header_lines_ok hs \<longleftrightarrow> (\<forall>l \<in> set hs. nl \<notin> set l \<and> strip_cr l = l \<and> \<not> starts_diff l)"

lemma split_replaced:
  assumes "cr \<notin> set content" "header_lines_ok hs"
  shows "split_lines (replace_header content (unlines hs)) =
     hs @ dropWhile (\<lambda>l. \<not> starts_diff l) (split_lines content)"
proof -
  let ?ds = "dropWhile (\<lambda>l. \<not> starts_diff l) (split_lines content)"
  have "split_lines (unlines (hs @ ?ds)) = hs @ ?ds"
    by (rule split_unlines_id)
      (use assms split_lines_no_cr in \<open>auto simp: header_lines_ok_def dest!: set_dropWhileD\<close>)
  then show ?thesis by (simp add: replace_header_def)
qed

lemma replaced_header:
  assumes "cr \<notin> set content" "header_lines_ok hs"
  shows "extract_header (replace_header content (unlines hs)) = unlines hs"
    "extract_diff (replace_header content (unlines hs)) = extract_diff content"
proof -
  let ?ds = "dropWhile (\<lambda>l. \<not> starts_diff l) (split_lines content)"
  have h: "\<forall>l \<in> set hs. \<not> starts_diff l" using assms(2) by (simp add: header_lines_ok_def)
  have "takeWhile p (dropWhile p xs) = []" for p and xs :: lines by (induction xs) auto
  then have "takeWhile (\<lambda>l. \<not> starts_diff l) (hs @ ?ds) = hs"
    using h by (simp add: takeWhile_append)
  then show "extract_header (replace_header content (unlines hs)) = unlines hs"
    by (simp add: extract_header_def split_replaced[OF assms])
  have "dropWhile (\<lambda>l. \<not> starts_diff l) (hs @ ?ds) = ?ds" using h by (simp add: dropWhile_append)
  then show "extract_diff (replace_header content (unlines hs)) = extract_diff content"
    by (simp add: extract_diff_def split_replaced[OF assms])
qed

lemma unlines_split_lines:
  "cr \<notin> set s \<Longrightarrow> s = [] \<or> last s = nl \<Longrightarrow> unlines (split_lines s) = s"
proof (induction "length s" arbitrary: s rule: less_induct)
  case less
  show ?case
  proof (cases "nl \<in> set s")
    case True
    then obtain l r where s: "s = l @ nl # r" "nl \<notin> set l" by (metis split_list_first)
    have "strip_cr l = l" using less.prems(1) s by (intro strip_cr_absent) simp
    moreover have "unlines (split_lines r) = r"
      using less.hyps[of r] less.prems s by (cases "r = []") auto
    ultimately show ?thesis using s by (simp add: split_lines_hit)
  next
    case False
    then have "s = []" using less.prems(2) by (metis last_in_set)
    then show ?thesis by simp
  qed
qed

lemma header_and_diff: "cr \<notin> set s \<Longrightarrow> s = [] \<or> last s = nl \<Longrightarrow> extract_header s @ extract_diff s = s"
  unfolding extract_header_def extract_diff_def unlines_simps(3) [symmetric] takeWhile_dropWhile_id
  by (rule unlines_split_lines)

lemma replace_same_header:
  "cr \<notin> set s \<Longrightarrow> s = [] \<or> last s = nl \<Longrightarrow> replace_header s (extract_header s) = s"
  using header_and_diff[of s] by (simp add: replace_header_def extract_diff_def extract_header_def)

end
