(* ===== verification/Patch_Texts.thy ===== *)
theory Patch_Texts
  imports Patch_Files Quilt_Annotate Header_Text Builtin_Diff "HOL-Library.Signed_Division" "HOL-Library.Log_Nat"
begin

text \<open>
  The texts refresh and diff make (\<open>cmd_patch.cpp\<close> part of \<open>src/src/quilt.cpp\<close>):
  the header of a patch file, the conversion of unified to context output, the diff of two
  paths with its labels and time stamps, the sections of a patch file by their file, and the
  diffstat. Doubles are computed exactly: a value is a natural mantissa with a power of two,
  and an operation rounds its result to 53 bits, to the nearest and ties to even.
\<close>

section \<open>The header\<close>

definition starts_old_diff :: "string \<Rightarrow> bool" where
  "starts_old_diff line \<longleftrightarrow> starts_with line ''Index:'' \<or> starts_with line ''---'' \<or> starts_with line ''diff ''"

definition read_patch_header :: "'w platform \<Rightarrow> string \<Rightarrow> 'w \<Rightarrow> string" where
  "read_patch_header P path w =
     (let content = read_file P path w in
      if content = [] then []
      else unlines (takeWhile (\<lambda>l. \<not> starts_old_diff l) (split_lines content)))"

section \<open>From unified to context\<close>

text \<open>The four numbers of a hunk header. A negative length of a substring fails the
  assertion of the cast.\<close>

definition sub_int :: "string \<Rightarrow> int \<Rightarrow> int \<Rightarrow> int option" where
  "sub_int s pos len = (if len < 0 then None else checked_int (parse_int (substr s pos len)))"

definition hunk_new_part :: "string \<Rightarrow> int \<Rightarrow> (int \<times> int) option" where
  "hunk_new_part hdr p =
     (let c = str_find hdr (CHR '','') p; fin = str_find hdr spc p;
          fin = (if fin < 0 then int (length hdr) else fin)
      in if c \<ge> 0 \<and> c < fin then
           (case (sub_int hdr p (c - p), sub_int hdr (c + 1) (fin - c - 1)) of
              (Some ns, Some nc) \<Rightarrow> Some (ns, nc) | _ \<Rightarrow> None)
         else map_option (\<lambda>ns. (ns, 1)) (sub_int hdr p (fin - p)))"

definition hunk_old_part :: "string \<Rightarrow> int \<Rightarrow> int \<Rightarrow> (int \<times> int) option" where
  "hunk_old_part hdr p pp =
     (let c = str_find hdr (CHR '','') p in
      if c \<ge> 0 \<and> c < pp then
        (case (sub_int hdr p (c - p), sub_int hdr (c + 1) (pp - c - 2)) of
           (Some os, Some oc) \<Rightarrow> Some (os, oc) | _ \<Rightarrow> None)
      else map_option (\<lambda>os. (os, 1)) (sub_int hdr p (pp - p - 1)))"

definition hunk_numbers :: "string \<Rightarrow> ((int \<times> int) \<times> int \<times> int) option" where
  "hunk_numbers hdr =
     (let at1 = str_find hdr (CHR ''-'') 3; p = at1 + 1; pp = str_find hdr (CHR ''+'') p in
      if at1 < 0 \<or> pp < 0 then Some ((0, 1), 0, 1)
      else case (hunk_old_part hdr p pp, hunk_new_part hdr (pp + 1)) of
             (Some o', Some n') \<Rightarrow> Some (o', n') | _ \<Rightarrow> None)"

definition body_line :: "string \<Rightarrow> char \<times> string" where
  "body_line l = (if l = [] then (spc, []) else (hd l, tl l))"

text \<open>The two sides: a run of removed lines and the run of added lines behind it are a
  change when both are there.\<close>

function hunk_sides :: "(char \<times> string) list \<Rightarrow> (char \<times> string) list \<times> (char \<times> string) list" where
  "hunk_sides [] = ([], [])"
| "hunk_sides ((k, t) # body) =
     (if k = spc then (let (os, ns) = hunk_sides body in ((spc, t) # os, (spc, t) # ns))
      else if k = CHR ''-'' then
        (let dels = takeWhile (\<lambda>l. fst l = CHR ''-'') ((k, t) # body);
             rest = dropWhile (\<lambda>l. fst l = CHR ''-'') ((k, t) # body);
             adds = takeWhile (\<lambda>l. fst l = CHR ''+'') rest;
             change = (adds \<noteq> []);
             (os, ns) = hunk_sides (dropWhile (\<lambda>l. fst l = CHR ''+'') rest)
         in (map (\<lambda>l. (if change then CHR ''!'' else CHR ''-'', snd l)) dels @ os,
             map (\<lambda>l. (if change then CHR ''!'' else CHR ''+'', snd l)) adds @ ns))
      else if k = CHR ''+'' then (let (os, ns) = hunk_sides body in (os, (CHR ''+'', t) # ns))
      else hunk_sides body)"
  by pat_completeness auto
termination
  by (relation "measure length")
    (auto simp: less_Suc_eq_le intro: order_trans[OF length_dropWhile_le length_dropWhile_le])

definition context_side :: "(char \<times> string) list \<Rightarrow> string" where
  "context_side side =
     (if \<exists>l \<in> set side. fst l \<noteq> spc then concat (map (\<lambda>(p, t). [p] @ '' '' @ t @ [nl]) side) else [])"

definition context_range :: "string \<Rightarrow> int \<Rightarrow> int \<Rightarrow> string \<Rightarrow> string option" where
  "context_range opening start count closing =
     map_option (\<lambda>e. opening @ int_str start @ '','' @ int_str e @ closing @ [nl])
       (if count = 0 then Some start else
        case checked_int (start + count) of None \<Rightarrow> None | Some e \<Rightarrow> checked_int (e - 1))"

definition converted_hunk :: "string \<Rightarrow> lines \<Rightarrow> string option" where
  "converted_hunk hdr body =
     (case hunk_numbers hdr of
        None \<Rightarrow> None
      | Some ((os, oc), ns, nc) \<Rightarrow>
          let (old_side, new_side) = hunk_sides (map body_line body)
          in (case (context_range ''*** '' os oc '' ****'', context_range ''--- '' ns nc '' ----'') of
               (Some old_range, Some new_range) \<Rightarrow>
                 Some (''***************'' @ [nl] @ old_range @ context_side old_side @
                   new_range @ context_side new_side)
             | _ \<Rightarrow> None))"

function context_hunks :: "lines \<Rightarrow> string option" where
  "context_hunks [] = Some []"
| "context_hunks (l # ls) =
     (if \<not> starts_with l ''@@ '' then context_hunks ls
      else
        case converted_hunk l (takeWhile (\<lambda>l. \<not> starts_with l ''@@ '') ls) of
          None \<Rightarrow> None
        | Some t \<Rightarrow> map_option (\<lambda>rest. t @ rest) (context_hunks (dropWhile (\<lambda>l. \<not> starts_with l ''@@ '') ls)))"
  by pat_completeness auto
termination
  by (relation "measure length") (auto simp: less_Suc_eq_le length_dropWhile_le)

definition unified_to_context :: "string \<Rightarrow> string option" where
  "unified_to_context unified =
     (let ls = dropWhile (\<lambda>l. \<not> starts_with l ''--- '') (split_lines unified);
          old_line = (case ls of [] \<Rightarrow> [] | l # _ \<Rightarrow> ''*** '' @ drop 4 l @ [nl]);
          ls = tl ls;
          is_new = (ls \<noteq> [] \<and> starts_with (hd ls) ''+++ '');
          new_line = (if is_new then ''--- '' @ drop 4 (hd ls) @ [nl] else [])
      in map_option (\<lambda>t. old_line @ new_line @ t) (context_hunks (if is_new then tl ls else ls)))"

section \<open>The diff of a file\<close>

definition is_placeholder_copy :: "'w platform \<Rightarrow> string \<Rightarrow> 'w \<Rightarrow> bool" where
  "is_placeholder_copy P path w \<longleftrightarrow> file_exists P path w \<and> read_file P path w = []"

fun parse_diff_opts_context :: "string list \<Rightarrow> int option" where
  "parse_diff_opts_context [] = Some (- 1)"
| "parse_diff_opts_context (o' # opts) =
     (if starts_with o' ''-U'' \<and> length o' > 2 then checked_int (parse_int (drop 2 o'))
      else if o' = ''-U'' \<and> opts \<noteq> [] then checked_int (parse_int (hd opts))
      else parse_diff_opts_context opts)"

definition format_file_timestamp :: "'w platform \<Rightarrow> string \<Rightarrow> 'w \<Rightarrow> string" where
  "format_file_timestamp P path w =
     (let mt = file_mtime P path w in
      if mt \<le> 0 then []
      else
        let dt = local_time P mt w;
            off_h = dt_utc_offset dt sdiv 3600; off_m = (\<bar>dt_utc_offset dt\<bar> smod 3600) sdiv 60
        in [tab] @ pad_int 4 (dt_year dt) @ ''-'' @ pad_int 2 (dt_month dt) @ ''-'' @ pad_int 2 (dt_day dt) @ '' '' @
           pad_int 2 (dt_hour dt) @ '':'' @ pad_int 2 (dt_min dt) @ '':'' @ pad_int 2 (dt_sec dt) @
           ''.000000000 '' @ pad_signed 3 off_h @ pad_int 2 off_m)"

text \<open>How a diff is made: the arguments refresh and diff pass through.\<close>

record diff_how =
  h_p_format :: string
  h_reverse :: bool
  h_cmd :: "string list"
  h_context :: int
  h_format :: diff_format
  h_no_timestamps :: bool
  h_algorithm :: diff_algorithm

definition is_binary :: "'w platform \<Rightarrow> string \<Rightarrow> 'w \<Rightarrow> bool" where
  "is_binary P path w \<longleftrightarrow> CHR 0x00 \<in> set (take 8192 (read_file P path w))"

definition path_labels :: "quilt_state \<Rightarrow> string \<Rightarrow> string \<Rightarrow> string \<times> string" where
  "path_labels q file p_format =
     (if p_format = ''ab'' then (''a/'' @ file, ''b/'' @ file)
      else if p_format = ''0'' then (file @ ''.orig'', file)
      else (basename (q_work_dir q) @ ''.orig/'' @ file, basename (q_work_dir q) @ ''/'' @ file))"

text \<open>The options of \<open>QUILT_DIFF_OPTS\<close>.\<close>

definition extra_diff_opts :: "'w platform \<Rightarrow> 'w \<Rightarrow> string list" where
  "extra_diff_opts P w = shell_split (\<lambda>n. get_env P n w) (get_env P ''QUILT_DIFF_OPTS'' w)"

definition inner_diff ::
  "'w platform \<Rightarrow> diff_how \<Rightarrow> string \<Rightarrow> string \<Rightarrow> string \<Rightarrow> string \<Rightarrow> 'w \<Rightarrow> string option" where
  "inner_diff P h old_arg new_arg old_label new_label w =
     map_option (\<lambda>opts_ctx.
         snd (builtin_diff P old_arg new_arg (if opts_ctx \<ge> 0 then opts_ctx else h_context h)
                old_label new_label (h_format h) (h_algorithm h) \<lparr>io_fs = None, io_world = w\<rparr>))
       (parse_diff_opts_context (extra_diff_opts P w))"

definition outer_diff ::
  "'w platform \<Rightarrow> diff_how \<Rightarrow> string \<Rightarrow> string \<Rightarrow> string \<Rightarrow> string \<Rightarrow> 'w \<Rightarrow> process_result \<times> 'w" where
  "outer_diff P h old_arg new_arg old_label new_label w =
     run_cmd P (h_cmd h @ extra_diff_opts P w @ [''--label'', old_label, ''--label'', new_label, old_arg, new_arg]) w"

definition side_missing :: "'w platform \<Rightarrow> string \<Rightarrow> bool \<Rightarrow> 'w \<Rightarrow> bool" where
  "side_missing P path placeholder w \<longleftrightarrow>
     path = [] \<or> \<not> file_exists P path w \<or> (placeholder \<and> is_placeholder_copy P path w)"

definition generate_path_diff ::
  "'w platform \<Rightarrow> quilt_state \<Rightarrow> diff_how \<Rightarrow> string \<Rightarrow> string \<times> bool \<Rightarrow> string \<times> bool \<Rightarrow> 'w \<Rightarrow>
   (string \<times> 'w) option" where
  "generate_path_diff P q h file old new w =
     (let (old_path, old_placeholder) = old; (new_path, new_placeholder) = new;
          old_missing = side_missing P old_path old_placeholder w;
          new_missing = side_missing P new_path new_placeholder w
      in if (\<not> old_missing \<and> is_binary P old_path w) \<or> (\<not> new_missing \<and> is_binary P new_path w)
         then Some (''Binary files differ'' @ [nl], w)
         else
           let old_arg = (if old_missing then ''/dev/null'' else old_path);
               new_arg = (if new_missing then ''/dev/null'' else new_path);
               (old_label, new_label) = path_labels q file (h_p_format h);
               stamp = (\<lambda>missing path. if h_no_timestamps h \<or> missing then [] else format_file_timestamp P path w);
               old_label = (if old_missing then ''/dev/null'' else old_label) @ stamp old_missing old_path;
               new_label = (if new_missing then ''/dev/null'' else new_label) @ stamp new_missing new_path;
               (old_arg, new_arg) = (if h_reverse h then (new_arg, old_arg) else (old_arg, new_arg))
           in if h_cmd h = [] then map_option (\<lambda>t. (t, w)) (inner_diff P h old_arg new_arg old_label new_label w)
              else
                let (result, w) = outer_diff P h old_arg new_arg old_label new_label w
                in Some (if pr_exit_code result = 2 then [] else pr_out result, w))"

definition generate_file_diff ::
  "'w platform \<Rightarrow> quilt_state \<Rightarrow> diff_how \<Rightarrow> string \<Rightarrow> string \<Rightarrow> 'w \<Rightarrow> (string \<times> 'w) option" where
  "generate_file_diff P q h patch file w =
     generate_path_diff P q h file (path_join (pc_patch_dir q patch) file, True)
       (path_join (q_work_dir q) file, False) w"

section \<open>The parts of a patch file\<close>

text \<open>The name on a file line, without a side prefix, a time stamp and one more leading
  directory.\<close>

definition section_name :: "string \<Rightarrow> string \<Rightarrow> string" where
  "section_name side rest =
     (let rest = (if starts_with rest side then drop 2 rest else rest);
          tb = str_find rest tab 0; rest = (if tb \<ge> 0 then take (nat tb) rest else rest);
          sl = str_find rest slash 0
      in if sl \<ge> 0 then trim (drop (nat sl + 1) rest) else trim rest)"

type_synonym sections = "(string \<rightharpoonup> string) \<times> string \<times> string"

definition flush_section :: "sections \<Rightarrow> sections" where
  "flush_section = (\<lambda>(m, f, t). (if f \<noteq> [] \<and> t \<noteq> [] then m(f \<mapsto> t) else m, [], []))"

definition section_line :: "string \<Rightarrow> sections \<Rightarrow> sections" where
  "section_line line st =
     (let (m, f, t) = (if starts_with line ''Index:'' \<or> starts_with line ''diff '' then flush_section st else st);
          rest = drop 4 line;
          f = (if starts_with line ''Index:'' \<or> starts_with line ''diff '' then f
               else if starts_with line ''+++ '' then
                 (if starts_with rest ''/dev/null'' then f else section_name ''b/'' rest)
               else if starts_with line ''==='' then f
               else if starts_with line ''--- '' then
                 (if f = [] \<and> \<not> starts_with rest ''/dev/null'' then section_name ''a/'' rest else f)
               else f)
      in (m, f, t @ line @ [nl]))"

definition split_patch_by_file :: "string \<Rightarrow> (string \<rightharpoonup> string)" where
  "split_patch_by_file content =
     fst (flush_section (fold section_line (split_lines content) (Map.empty, [], [])))"

text \<open>The applied patches up to one, or that one alone when it is not applied.\<close>

definition patch_range_for_diff :: "quilt_state \<Rightarrow> string \<Rightarrow> string list" where
  "patch_range_for_diff q last_patch =
     (if last_patch = [] then q_applied q
      else if last_patch \<in> set (q_applied q) then takeWhile (\<lambda>p. p \<noteq> last_patch) (q_applied q) @ [last_patch]
      else [last_patch])"

definition first_patch_for_file :: "'w platform \<Rightarrow> quilt_state \<Rightarrow> string list \<Rightarrow> string \<Rightarrow> 'w \<Rightarrow> string" where
  "first_patch_for_file P q patches file w =
     (case find (\<lambda>p. file \<in> set (files_in_patch P q p w)) patches of Some p \<Rightarrow> p | None \<Rightarrow> [])"

definition apply_file_filter :: "string list \<Rightarrow> string list \<Rightarrow> string list" where
  "apply_file_filter tracked file_filter =
     (if file_filter = [] then tracked else filter (\<lambda>f. f \<in> set file_filter) tracked)"

section \<open>Doubles\<close>

text \<open>\<open>(m, e)\<close> stands for \<open>m * 2 ^ e\<close>; the quotient of two natural numbers is
  rounded to a mantissa of 53 bits. Only values far inside the range of the exponent occur.\<close>

type_synonym dbl = "nat \<times> int"

definition round_half_even :: "nat \<Rightarrow> nat \<Rightarrow> nat" where
  "round_half_even n d =
     (let k = n div d; r = n mod d in
      if 2 * r > d \<or> (2 * r = d \<and> odd k) then k + 1 else k)"

definition scaled_div :: "nat \<Rightarrow> nat \<Rightarrow> int \<Rightarrow> nat \<times> nat" where
  "scaled_div n d e = (if e \<ge> 0 then (n, d * 2 ^ nat e) else (n * 2 ^ nat (- e), d))"

definition dbl_quotient :: "nat \<Rightarrow> nat \<Rightarrow> dbl" where
  "dbl_quotient n d =
     (if n = 0 then (0, 0)
      else
        let e = bitlen (int n) - bitlen (int d) - 53;
            (a, b) = scaled_div n d e;
            e = (if a \<ge> b * 2 ^ 53 then e + 1 else e);
            (a, b) = scaled_div n d e
        in (round_half_even a b, e))"

definition dbl_of_nat :: "nat \<Rightarrow> dbl" where
  "dbl_of_nat n = dbl_quotient n 1"

definition dbl_frac :: "dbl \<Rightarrow> nat \<times> nat" where
  "dbl_frac x = (if snd x \<ge> 0 then (fst x * 2 ^ nat (snd x), 1) else (fst x, 2 ^ nat (- snd x)))"

definition dbl_div :: "dbl \<Rightarrow> dbl \<Rightarrow> dbl" where
  "dbl_div x y = (let (a, b) = dbl_frac x; (c, d) = dbl_frac y in dbl_quotient (a * d) (b * c))"

definition dbl_mul :: "dbl \<Rightarrow> dbl \<Rightarrow> dbl" where
  "dbl_mul x y = (let (a, b) = dbl_frac x; (c, d) = dbl_frac y in dbl_quotient (a * c) (b * d))"

definition dbl_add_half :: "dbl \<Rightarrow> dbl" where
  "dbl_add_half x = (let (a, b) = dbl_frac x in dbl_quotient (2 * a + b) (2 * b))"

definition dbl_floor :: "dbl \<Rightarrow> nat" where
  "dbl_floor x = (let (a, b) = dbl_frac x in a div b)"

section \<open>The diffstat\<close>

record file_stat =
  fs_name :: string
  fs_added :: nat
  fs_removed :: nat

definition short_name :: "string \<Rightarrow> string" where
  "short_name line =
     (let name = drop 4 line; tb = str_find name tab 0;
          name = (if tb \<ge> 0 then take (nat tb) name else name); sl = str_find name slash 0
      in if sl \<ge> 0 then drop (nat sl + 1) name else name)"

definition stat_name :: "string \<Rightarrow> string \<Rightarrow> string" where
  "stat_name minus_line plus_line =
     (let name = short_name plus_line in
      if name = ''dev/null'' \<or> starts_with (drop 4 plus_line) ''/dev/null'' then short_name minus_line else name)"

text \<open>A changed line of the last file.\<close>

definition count_line :: "string \<Rightarrow> file_stat list \<Rightarrow> file_stat list" where
  "count_line line stats =
     (if stats = [] then []
      else if starts_with line ''+'' \<and> \<not> starts_with line ''+++'' then
        butlast stats @ [(last stats)\<lparr>fs_added := fs_added (last stats) + 1\<rparr>]
      else if starts_with line ''-'' \<and> \<not> starts_with line ''---'' then
        butlast stats @ [(last stats)\<lparr>fs_removed := fs_removed (last stats) + 1\<rparr>]
      else stats)"

fun diff_stats :: "lines \<Rightarrow> file_stat list \<Rightarrow> file_stat list" where
  "diff_stats [] stats = stats"
| "diff_stats [l] stats = count_line l stats"
| "diff_stats (l # l' # ls) stats =
     (if starts_with l ''--- '' \<and> starts_with l' ''+++ '' then
        diff_stats ls (stats @ [\<lparr>fs_name = stat_name l l', fs_added = 0, fs_removed = 0\<rparr>])
      else diff_stats (l' # ls) (count_line l stats))"

definition stat_width :: "file_stat list \<Rightarrow> nat" where
  "stat_width stats = Max (insert 0 (set (map (\<lambda>s. length (fs_name s)) stats)))"

definition max_changes :: "file_stat list \<Rightarrow> nat" where
  "max_changes stats = Max (insert 0 (set (map (\<lambda>s. fs_added s + fs_removed s) stats)))"

definition stat_num_width :: "file_stat list \<Rightarrow> nat" where
  "stat_num_width stats = max (length (nat_str (max_changes stats))) 4"

definition bar_scale :: "file_stat list \<Rightarrow> dbl" where
  "bar_scale stats =
     (let used = 1 + int (stat_width stats) + 3 + int (stat_num_width stats) + 1;
          bar_width = nat (max 1 (72 - used))
      in if max_changes stats > bar_width
         then dbl_div (dbl_of_nat bar_width) (dbl_of_nat (max_changes stats)) else (1, 0))"

text \<open>The two bars of a file: the larger one is cut down to the scaled size.\<close>

definition scaled_bar :: "dbl \<Rightarrow> nat \<Rightarrow> nat" where
  "scaled_bar scale n = dbl_floor (dbl_add_half (dbl_mul (dbl_of_nat n) scale))"

definition stat_bars :: "dbl \<Rightarrow> file_stat \<Rightarrow> int \<times> int" where
  "stat_bars scale s =
     (let bar = (\<lambda>n. let b = int (scaled_bar scale n) in if n > 0 \<and> b = 0 then 1 else b);
          plus = bar (fs_added s); minus = bar (fs_removed s);
          changes = fs_added s + fs_removed s; lim = int (scaled_bar scale changes);
          lim = (if lim < 1 \<and> changes > 0 then 1 else lim)
      in if plus + minus > lim then
           (if plus > minus then (lim - minus, minus) else (plus, lim - plus))
         else (plus, minus))"

definition stat_line :: "file_stat list \<Rightarrow> file_stat \<Rightarrow> string" where
  "stat_line stats s =
     (let (plus, minus) = stat_bars (bar_scale stats) s; num = nat_str (fs_added s + fs_removed s)
      in '' '' @ fs_name s @ replicate (stat_width stats - length (fs_name s)) spc @ '' | '' @
         replicate (stat_num_width stats - length num) spc @ num @ '' '' @
         replicate (nat plus) (CHR ''+'') @ replicate (nat minus) (CHR ''-'') @ [nl])"

definition stat_count :: "nat \<Rightarrow> string \<Rightarrow> string \<Rightarrow> string" where
  "stat_count n one many = (if n > 0 then '', '' @ nat_str n @ (if n = 1 then one else many) else [])"

definition stat_summary :: "file_stat list \<Rightarrow> string" where
  "stat_summary stats =
     '' '' @ nat_str (length stats) @ (if length stats = 1 then '' file changed'' else '' files changed'') @
     stat_count (sum_list (map fs_added stats)) '' insertion(+)'' '' insertions(+)'' @
     stat_count (sum_list (map fs_removed stats)) '' deletion(-)'' '' deletions(-)'' @ [nl]"

definition generate_diffstat :: "string \<Rightarrow> string" where
  "generate_diffstat diff =
     (let stats = diff_stats (split_lines diff) [] in
      if stats = [] then []
      else ''---'' @ [nl] @ concat (map (stat_line stats) stats) @ stat_summary stats)"

text \<open>Taking a diffstat out of a header, its separator included.\<close>

function remove_diffstat_loop :: "lines \<Rightarrow> string" where
  "remove_diffstat_loop [] = []"
| "remove_diffstat_loop (line # rest) =
     (case diffstat_at line rest of
        Some r \<Rightarrow> remove_diffstat_loop (if r \<noteq> [] \<and> hd r = [] then tl r else r)
      | None \<Rightarrow> line @ [nl] @ remove_diffstat_loop rest)"
  by pat_completeness auto
termination
  by (relation "measure length") (auto dest: diffstat_at_shorter)

definition remove_diffstat_section :: "string \<Rightarrow> string" where
  "remove_diffstat_section header = remove_diffstat_loop (split_lines header)"

end
