(* ===== verification/Patch_Refresh.thy ===== *)
theory Patch_Refresh
  imports Patch_Texts "HOL-Library.List_Lexorder" "HOL-Library.Char_ord"
begin

text \<open>
  The command refresh (\<open>cmd_patch.cpp\<close> part of \<open>src/src/quilt.cpp\<close>): its
  options, the fork before the refresh, the files that patches above hide, the strip of
  trailing blanks from the changed lines, and the new text of the patch, header and diffs.
\<close>

section \<open>Options\<close>

record refresh_opts =
  rf_patch :: string
  rf_p_format :: "string option"
  rf_no_timestamps :: bool
  rf_no_index :: bool
  rf_force :: bool
  rf_diff_type :: string
  rf_context :: string
  rf_fork :: bool
  rf_fork_name :: string
  rf_diffstat :: bool
  rf_backup :: bool
  rf_strip :: bool
  rf_algorithm :: diff_algorithm

definition bad_algorithm :: "'w platform \<Rightarrow> string \<Rightarrow> 'w qs \<Rightarrow> ('a, 'w qs) res" where
  "bad_algorithm P name s = Exit 1 (world (\<lambda>w. err_line P name (err P ''Unknown diff algorithm: '' w)) s)"

definition env_algorithm :: "'w platform \<Rightarrow> 'w qs \<Rightarrow> (diff_algorithm, 'w qs) res" where
  "env_algorithm P s =
     (let env_algo = get_env P ''QUILT_DIFF_ALGORITHM'' (snd s) in
      if env_algo = [] then Go Myers s
      else case parse_diff_algorithm env_algo of
             None \<Rightarrow> bad_algorithm P env_algo s | Some a \<Rightarrow> Go a s)"

definition refresh_defaults :: "'w platform \<Rightarrow> 'w \<Rightarrow> diff_algorithm \<Rightarrow> refresh_opts" where
  "refresh_defaults P w a =
     \<lparr>rf_patch = [], rf_p_format = None, rf_no_timestamps = (get_env P ''QUILT_NO_DIFF_TIMESTAMPS'' w \<noteq> []),
      rf_no_index = (get_env P ''QUILT_NO_DIFF_INDEX'' w \<noteq> []), rf_force = False, rf_diff_type = [],
      rf_context = [], rf_fork = False, rf_fork_name = [], rf_diffstat = False, rf_backup = False,
      rf_strip = False, rf_algorithm = a\<rparr>"

text \<open>The options that take no second argument.\<close>

definition refresh_flag :: "'w platform \<Rightarrow> string \<Rightarrow> refresh_opts \<Rightarrow> 'w qs \<Rightarrow> (refresh_opts, 'w qs) res" where
  "refresh_flag P arg u s =
     (if starts_with arg ''-p'' \<and> length arg > 2 then Go (u\<lparr>rf_p_format := Some (drop 2 arg)\<rparr>) s
      else if arg = ''-f'' then Go (u\<lparr>rf_force := True\<rparr>) s
      else if arg = ''-u'' then Go (u\<lparr>rf_diff_type := ''u'', rf_context := []\<rparr>) s
      else if starts_with arg ''-U'' then Go (u\<lparr>rf_diff_type := ''U'', rf_context := drop 2 arg\<rparr>) s
      else if arg = ''-c'' then Go (u\<lparr>rf_diff_type := ''c'', rf_context := []\<rparr>) s
      else if starts_with arg ''-C'' then Go (u\<lparr>rf_diff_type := ''C'', rf_context := drop 2 arg\<rparr>) s
      else if starts_with arg ''-z'' then
        Go (if length arg > 2 then u\<lparr>rf_fork := True, rf_fork_name := strip_patches_prefix (fst s) (drop 2 arg)\<rparr>
            else u\<lparr>rf_fork := True\<rparr>) s
      else if arg = ''--no-timestamps'' \<or> arg = ''--no-timestamp'' then Go (u\<lparr>rf_no_timestamps := True\<rparr>) s
      else if arg = ''--no-index'' then Go (u\<lparr>rf_no_index := True\<rparr>) s
      else if arg = ''--sort'' then Go u s
      else if arg = ''--diffstat'' then Go (u\<lparr>rf_diffstat := True\<rparr>) s
      else if arg = ''--backup'' then Go (u\<lparr>rf_backup := True\<rparr>) s
      else if arg = ''--strip-trailing-whitespace'' then Go (u\<lparr>rf_strip := True\<rparr>) s
      else if starts_with arg ''--diff-algorithm='' then
        (case parse_diff_algorithm (drop 17 arg) of
           None \<Rightarrow> bad_algorithm P (drop 17 arg) s | Some a \<Rightarrow> Go (u\<lparr>rf_algorithm := a\<rparr>) s)
      else if is_option arg then unrecognized P arg s
      else Go (if rf_patch u = [] then u\<lparr>rf_patch := arg\<rparr> else u) s)"

text \<open>The options with their value in the next argument.\<close>

definition refresh_value ::
  "'w platform \<Rightarrow> string \<Rightarrow> string \<Rightarrow> refresh_opts \<Rightarrow> 'w qs \<Rightarrow> (refresh_opts, 'w qs) res option" where
  "refresh_value P arg v u s =
     (if arg = ''-p'' then Some (Go (u\<lparr>rf_p_format := Some v\<rparr>) s)
      else if arg = ''-U'' then Some (Go (u\<lparr>rf_diff_type := ''U'', rf_context := v\<rparr>) s)
      else if arg = ''-C'' then Some (Go (u\<lparr>rf_diff_type := ''C'', rf_context := v\<rparr>) s)
      else if arg = ''--diff-algorithm'' then
        Some (case parse_diff_algorithm v of
                None \<Rightarrow> bad_algorithm P v s | Some a \<Rightarrow> Go (u\<lparr>rf_algorithm := a\<rparr>) s)
      else None)"

function refresh_args :: "'w platform \<Rightarrow> string list \<Rightarrow> refresh_opts \<Rightarrow> 'w qs \<Rightarrow> (refresh_opts, 'w qs) res" where
  "refresh_args P [] u s = Go u s"
| "refresh_args P (arg # args) u s =
     (case (if args = [] then None else refresh_value P arg (hd args) u s) of
        Some r \<Rightarrow> bind_res r (\<lambda>u s. refresh_args P (tl args) u s)
      | None \<Rightarrow> bind_res (refresh_flag P arg u s) (\<lambda>u s. refresh_args P args u s))"
  by pat_completeness auto
termination
  by (relation "measure (\<lambda>(P, args, u, s). length args)") auto

text \<open>The format and the lines of context; a number out of range aborts.\<close>

definition diff_shape :: "string \<Rightarrow> string \<Rightarrow> (diff_format \<times> int) option" where
  "diff_shape diff_type context_num =
     (if diff_type = ''c'' then Some (Context, 3)
      else if diff_type = ''C'' then map_option (Pair Context) (checked_int (parse_int context_num))
      else if diff_type = ''U'' then map_option (Pair Unified) (checked_int (parse_int context_num))
      else Some (Unified, 3))"

section \<open>The fork before the refresh\<close>

definition refresh_fork_name :: "refresh_opts \<Rightarrow> string \<Rightarrow> string" where
  "refresh_fork_name u old_name =
     (if rf_fork_name u \<noteq> [] then rf_fork_name u
      else let dot = str_rfind old_name (CHR ''.'') in
        if dot > 0 then take (nat dot) old_name @ ''-2'' @ drop (nat dot) old_name else old_name @ ''-2'')"

text \<open>The files as the original patch leaves them, in memory; \<open>None\<close> for a file that is
  not there.\<close>

definition fork_memory :: "'w platform \<Rightarrow> quilt_state \<Rightarrow> string \<Rightarrow> string list \<Rightarrow> 'w \<Rightarrow> (string \<rightharpoonup> string)" where
  "fork_memory P q old_name orig_files w =
     fold (\<lambda>file m. let backup = path_join (pc_patch_dir q old_name) file in
             if file_exists P backup w \<and> \<not> is_placeholder_copy P backup w
             then m(file \<mapsto> read_file P backup w) else m)
       orig_files Map.empty"

definition fork_options :: "quilt_state \<Rightarrow> string \<Rightarrow> patch_options" where
  "fork_options q old_name =
     (let po = default_options\<lparr>o_strip_level := get_strip_level q old_name, o_quiet := True\<rparr>
      in if old_name \<in> q_reversed q then po\<lparr>o_reverse := True\<rparr> else po)"

definition fork_contents :: "'w platform \<Rightarrow> quilt_state \<Rightarrow> string \<Rightarrow> string list \<Rightarrow> 'w \<Rightarrow> ('w io) option" where
  "fork_contents P q old_name orig_files w =
     (let io = mem_io (fork_memory P q old_name orig_files w) w;
          text = read_file P (patch_path q old_name) w
      in if text = [] then Some io
         else map_option snd (builtin_patch P text (fork_options q old_name) io))"

definition write_fork_backup :: "'w platform \<Rightarrow> string \<Rightarrow> 'w io \<Rightarrow> string \<Rightarrow> 'w \<Rightarrow> 'w" where
  "write_fork_backup P new_pc io file w =
     (let backup = path_join new_pc file; dir = dirname backup;
          w = (if \<not> is_directory P dir w then snd (make_dirs P dir w) else w)
      in snd (write_file P backup (if fs_exists P file io then fs_read P file io else []) w))"

definition fork_settings :: "string \<Rightarrow> string \<Rightarrow> quilt_state \<Rightarrow> quilt_state" where
  "fork_settings old_name new_name q =
     q\<lparr>q_strip_level := (case q_strip_level q old_name of
          Some n \<Rightarrow> (q_strip_level q)(new_name \<mapsto> n) | None \<Rightarrow> q_strip_level q),
       q_reversed := (if old_name \<in> q_reversed q then insert new_name (q_reversed q) else q_reversed q)\<rparr>"

definition fork_backups :: "'w platform \<Rightarrow> string \<Rightarrow> string \<Rightarrow> 'w qs \<Rightarrow> (unit, 'w qs) res" where
  "fork_backups P old_name new_name = (\<lambda>(q, w).
     let new_pc = pc_patch_dir q new_name;
         w = snd (make_dirs P new_pc w);
         orig_files = files_in_patch P q old_name w
     in case fork_contents P q old_name orig_files w of
          None \<Rightarrow> Abort
        | Some io \<Rightarrow>
            let w = fold (write_fork_backup P new_pc io) orig_files w
            in Go () (q, snd (write_file P (path_join new_pc ''.timestamp'') [] w)))"

definition fork_stack :: "'w platform \<Rightarrow> string \<Rightarrow> string \<Rightarrow> int \<Rightarrow> 'w qs \<Rightarrow> (unit, 'w qs) res" where
  "fork_stack P old_name new_name idx = (\<lambda>(q, w).
     let k = nat idx + 1;
         q = (fork_settings old_name new_name q)\<lparr>q_series := take k (q_series q) @ new_name # drop k (q_series q)\<rparr>;
         (ok, w) = write_series_checked P q (q_series q) w
     in if \<not> ok then Exit 1 (q, w)
        else Go () (write_applied_patches P (q\<lparr>q_applied := q_applied q @ [new_name]\<rparr>, w)))"

text \<open>The patch that is refreshed, and whether it is a fork.\<close>

definition refresh_fork :: "'w platform \<Rightarrow> refresh_opts \<Rightarrow> string \<Rightarrow> 'w qs \<Rightarrow> (string \<times> bool, 'w qs) res" where
  "refresh_fork P u patch s =
     (let q = fst s; new_name = refresh_fork_name u patch in
      if \<not> rf_fork u then Go (patch, False) s
      else if patch \<noteq> last (q_applied q) then
        fail P ''Can only use -z with the topmost applied patch'' s
      else if find_in_series q new_name \<noteq> None then
        Exit 1 (world (\<lambda>w. err_line P '' already exists in series'' (err P new_name (err P ''Patch '' w))) s)
      else case find_in_series q patch of
             None \<Rightarrow> not_in_series P patch s
           | Some idx \<Rightarrow>
               bind_res (fork_backups P patch new_name s) (\<lambda>_ s.
               bind_res (fork_stack P patch new_name idx s) (\<lambda>_ (q, w).
                 Go (new_name, True) (q, out_line P (''Fork of patch '' @ format_patch P q patch w @
                   '' created as '' @ format_patch P q new_name w) w))))"

section \<open>Files hidden by patches above\<close>

text \<open>Each hidden file with the first patch above that has it.\<close>

fun add_shadows :: "string \<Rightarrow> string list \<Rightarrow> (string \<times> string) list \<Rightarrow> (string \<times> string) list" where
  "add_shadows a [] m = m"
| "add_shadows a (f # fs) m = add_shadows a fs (if map_of m f = None then m @ [(f, a)] else m)"

definition shadowed :: "'w platform \<Rightarrow> quilt_state \<Rightarrow> string \<Rightarrow> 'w \<Rightarrow> (string \<times> string) list" where
  "shadowed P q patch w =
     (if patch = last (q_applied q) then []
      else fold (\<lambda>a. add_shadows a (files_in_patch P q a w)) (applied_after patch (q_applied q)) [])"

section \<open>Trailing blanks\<close>

text \<open>The lines of the new file a diff without context adds.\<close>

definition plus_number :: "string \<Rightarrow> string" where
  "plus_number dl =
     (let plus = str_find dl (CHR ''+'') 0; rest = drop (nat plus) dl;
          comma = str_find rest (CHR '','') 0; sp = str_find rest spc 0
      in if plus < 0 then []
         else if comma \<ge> 0 then substr dl (plus + 1) (comma - 1)
         else if sp \<ge> 0 then substr dl (plus + 1) (sp - 1) else [])"

definition modified_step :: "string \<Rightarrow> int \<times> int set \<Rightarrow> int \<times> int set" where
  "modified_step dl = (\<lambda>(n, ms).
     if starts_with dl ''---'' \<or> starts_with dl ''+++'' then (n, ms)
     else if starts_with dl ''@@'' then
       (let num = plus_number dl in
        if num = [] then (n, ms)
        else (case from_chars (- INT_MAX - 1) INT_MAX num of Some (k, _) \<Rightarrow> k - 1 | None \<Rightarrow> - 1, ms))
     else if starts_with dl ''+'' then (n + 1, insert (n + 1) ms)
     else if \<not> starts_with dl ''-'' then (n + 1, ms)
     else (n, ms))"

definition modified_lines :: "string \<Rightarrow> int set" where
  "modified_lines diff_check = snd (fold modified_step (split_lines diff_check) (0, {}))"

fun strip_lines :: "'w platform \<Rightarrow> string \<Rightarrow> int set \<Rightarrow> int \<Rightarrow> lines \<Rightarrow> 'w \<Rightarrow> string \<times> 'w" where
  "strip_lines P file ms n [] w = ([], w)"
| "strip_lines P file ms n (l # ls) w =
     (let l' = (if n \<in> ms then rdrop_while is_blank l else l);
          w = (if l' \<noteq> l then out_line P (''Removing trailing whitespace from line '' @ int_str n @ '' of '' @ file) w
               else w);
          (rest, w) = strip_lines P file ms (n + 1) ls w
      in (l' @ nl # rest, w))"

definition strip_working :: "'w platform \<Rightarrow> quilt_state \<Rightarrow> diff_how \<Rightarrow> string \<Rightarrow> string \<Rightarrow> 'w \<Rightarrow> 'w option" where
  "strip_working P q h patch file w =
     (let working = path_join (q_work_dir q) file in
      if \<not> file_exists P working w then Some w
      else
        map_option (\<lambda>(diff_check, w).
            let content = read_file P working w;
                (stripped, w) = strip_lines P file (modified_lines diff_check) 1 (split_lines content) w
            in if stripped \<noteq> content then snd (write_file P working stripped w) else w)
          (generate_file_diff P q (h\<lparr>h_p_format := ''1'', h_context := 0, h_format := Unified,
             h_no_timestamps := True\<rparr>) patch file w))"

section \<open>The text of the patch\<close>

definition index_name :: "quilt_state \<Rightarrow> string \<Rightarrow> string \<Rightarrow> string" where
  "index_name q p_format file =
     (if p_format = ''0'' then file else if p_format = ''ab'' then ''b/'' @ file
      else basename (q_work_dir q) @ ''/'' @ file)"

definition index_lines :: "quilt_state \<Rightarrow> string \<Rightarrow> string \<Rightarrow> string" where
  "index_lines q p_format file =
     ''Index: '' @ index_name q p_format file @ [nl] @
     ''==================================================================='' @ [nl]"

definition append_diff :: "quilt_state \<Rightarrow> diff_how \<Rightarrow> bool \<Rightarrow> string \<Rightarrow> string \<Rightarrow> string \<Rightarrow> string" where
  "append_diff q h no_index file diff_out content =
     (if diff_out = [] then content
      else end_line (content @ (if no_index then [] else index_lines q (h_p_format h) file) @ diff_out))"

definition refresh_file ::
  "'w platform \<Rightarrow> refresh_opts \<Rightarrow> diff_how \<Rightarrow> string \<Rightarrow> (string \<times> string) list \<Rightarrow> string \<Rightarrow> string \<Rightarrow>
   'w qs \<Rightarrow> (string, 'w qs) res" where
  "refresh_file P u h patch shadows file content = (\<lambda>(q, w).
     case map_of shadows file of
       Some next_patch \<Rightarrow>
         (case generate_path_diff P q h file (path_join (pc_patch_dir q patch) file, True)
             (path_join (pc_patch_dir q next_patch) file, True) w of
            None \<Rightarrow> Abort
          | Some (diff_out, w) \<Rightarrow> Go (append_diff q h (rf_no_index u) file diff_out content) (q, w))
     | None \<Rightarrow>
         (case (if rf_strip u then strip_working P q h patch file w else Some w) of
            None \<Rightarrow> Abort
          | Some w \<Rightarrow>
              (case generate_file_diff P q h patch file w of
                 None \<Rightarrow> Abort
               | Some (diff_out, w) \<Rightarrow>
                   if starts_with diff_out ''Binary files '' then
                     Exit 1 (q, err_line P (squote # '', aborting'') (err P file (err P (''Diff failed on file '' @ [squote]) w)))
                   else Go (append_diff q h (rf_no_index u) file diff_out content) (q, w))))"

fun refresh_files ::
  "'w platform \<Rightarrow> refresh_opts \<Rightarrow> diff_how \<Rightarrow> string \<Rightarrow> (string \<times> string) list \<Rightarrow> string list \<Rightarrow> string \<Rightarrow>
   'w qs \<Rightarrow> (string, 'w qs) res" where
  "refresh_files P u h patch shadows [] content s = Go content s"
| "refresh_files P u h patch shadows (file # files) content s =
     bind_res (refresh_file P u h patch shadows file content s)
       (\<lambda>content s. refresh_files P u h patch shadows files content s)"

fun drop_blank_end :: "string \<Rightarrow> string" where
  "drop_blank_end (c # c' # s) = (if c = nl \<and> c' = nl then drop_blank_end (c' # s) else c # c' # s)"
| "drop_blank_end s = s"

definition add_diffstat :: "string \<Rightarrow> string \<Rightarrow> string" where
  "add_diffstat header content =
     (let diff_portion = drop (length header) content; ds_out = generate_diffstat diff_portion in
      if diff_portion = [] \<or> ds_out = [] then content
      else end_line (rev (drop_blank_end (rev (remove_diffstat_section header)))) @ end_line ds_out @ [nl] @ diff_portion)"

definition has_diff :: "string \<Rightarrow> bool" where
  "has_diff content \<longleftrightarrow> (\<exists>l \<in> set (split_lines content). starts_with l ''--- '' \<or> starts_with l ''diff '')"

section \<open>The command\<close>

definition refresh_report :: "'w platform \<Rightarrow> string \<Rightarrow> string \<Rightarrow> string \<Rightarrow> 'w qs \<Rightarrow> 'w qs" where
  "refresh_report P before patch after = (\<lambda>(q, w).
     let display = format_patch P q patch w; w = out P before w in
     (q, if after = [] then out_line P display w else out_line P after (out P display w)))"

definition refresh_write :: "'w platform \<Rightarrow> string \<Rightarrow> bool \<Rightarrow> string \<Rightarrow> 'w qs \<Rightarrow> (int, 'w qs) res" where
  "refresh_write P patch did_fork content = (\<lambda>(q, w).
     let patch_file = patch_path q patch; dir = dirname patch_file;
         w = (if \<not> is_directory P dir w then snd (make_dirs P dir w) else w);
         (ok, w) = write_file P patch_file content w
     in if \<not> ok then fail P (''Failed to write patch file '' @ patch_file) (q, w)
        else
          let w = snd (write_file P (path_join (pc_patch_dir q patch) ''.timestamp'') [] w);
              nr = needs_refresh_path q patch;
              w = (if file_exists P nr w then snd (delete_file P nr w) else w)
          in Go 0 (if did_fork then (q, w)
                   else if \<not> has_diff content then refresh_report P ''Nothing in patch '' patch [] (q, w)
                   else refresh_report P ''Refreshed patch '' patch [] (q, w)))"

definition refresh_how :: "refresh_opts \<Rightarrow> string \<Rightarrow> diff_format \<times> int \<Rightarrow> diff_how" where
  "refresh_how u p_format shape =
     \<lparr>h_p_format = p_format, h_reverse = False, h_cmd = [], h_context = snd shape, h_format = fst shape,
      h_no_timestamps = rf_no_timestamps u, h_algorithm = rf_algorithm u\<rparr>"

definition refresh_patch ::
  "'w platform \<Rightarrow> refresh_opts \<Rightarrow> diff_how \<Rightarrow> string \<Rightarrow> bool \<Rightarrow> 'w qs \<Rightarrow> (int, 'w qs) res" where
  "refresh_patch P u h patch did_fork = (\<lambda>(q, w).
     let shadows = shadowed P q patch w in
     if shadows \<noteq> [] \<and> \<not> rf_force u then
       Exit 1 (q, err_line P ''. Enforce refresh with -f.'' (err P (format_patch P q patch w)
         (err P ''More recent patches modify files in patch '' w)))
     else
       let tracked = sort (files_in_patch P q patch w); patch_file = patch_path q patch;
           exists_before = file_exists P patch_file w;
           old_content = (if exists_before then read_file P patch_file w else []);
           header = (if exists_before then read_patch_header P patch_file w else []);
           w = (if rf_backup u \<and> exists_before then snd (copy_file P patch_file (patch_file @ ''~'') w) else w)
       in bind_res (refresh_files P u h patch shadows tracked header (q, w)) (\<lambda>content (q, w).
          let content = (if rf_diffstat u then add_diffstat header content else content) in
          if content = old_content \<and> file_exists P patch_file w then
            Go 0 (if \<not> has_diff content then refresh_report P ''Nothing in patch '' patch [] (q, w)
                  else refresh_report P ''Patch '' patch '' is unchanged'' (q, w))
          else refresh_write P patch did_fork content (q, w)))"

definition cmd_refresh :: "'w platform \<Rightarrow> string list \<Rightarrow> 'w qs \<Rightarrow> (int, 'w qs) res" where
  "cmd_refresh P args s =
     (if q_applied (fst s) = [] then fail P ''No patches applied'' s
      else
        bind_res (env_algorithm P s) (\<lambda>a s.
        bind_res (refresh_args P args (refresh_defaults P (snd s) a) s) (\<lambda>u s.
        let patch = (if rf_patch u = [] then last (q_applied (fst s)) else rf_patch u);
            p_format = (case rf_p_format u of None \<Rightarrow> get_p_format (fst s) patch | Some f \<Rightarrow> f)
        in case diff_shape (rf_diff_type u) (rf_context u) of
             None \<Rightarrow> Abort
           | Some shape \<Rightarrow>
               bind_res (refresh_fork P u patch s) (\<lambda>(patch, did_fork) s.
                 refresh_patch P u (refresh_how u p_format shape) patch did_fork s))))"

end
