(* ===== verification/Byte_Output.thy ===== *)
theory Byte_Output
  imports Quilt_Prelude
begin

text \<open>
  The buffered output the C programs share (\<open>Output\<close>, \<open>print\<close> and \<open>flush\<close> of
  \<open>src/src/uuidgen.c\<close>), over a write function of the system. \<open>o_sent\<close> is a ghost:
  the bytes of the writes that succeeded. The locale \<open>writer\<close> is the contract a printer
  relies on, that text arrives in order and whole while no write fails; the buffer meets it.
\<close>

section \<open>Model\<close>

record outbuf =
  o_buf :: string
  o_fd :: int
  o_err :: bool
  o_sent :: string

type_synonym 'w write_fn = "int \<Rightarrow> string \<Rightarrow> 'w \<Rightarrow> bool \<times> 'w"
type_synonym 'w out_state = "outbuf \<times> 'w"

definition newoutput :: "int \<Rightarrow> outbuf" where
  "newoutput fd = \<lparr>o_buf = [], o_fd = fd, o_err = False, o_sent = []\<rparr>"

definition flush_out :: "'w write_fn \<Rightarrow> 'w out_state \<Rightarrow> 'w out_state" where
  "flush_out write = (\<lambda>(b, w).
     if \<not> o_err b \<and> o_buf b \<noteq> [] then
       let (ok, w) = write (o_fd b) (o_buf b) w in
       (b\<lparr>o_err := \<not> ok, o_buf := [], o_sent := o_sent b @ (if ok then o_buf b else [])\<rparr>, w)
     else (b, w))"

text \<open>The copy loop; the buffer is never full at its head (\<open>room\<close> below), so the third
  disjunct of the test is not taken.\<close>

function print_out :: "'w write_fn \<Rightarrow> nat \<Rightarrow> string \<Rightarrow> 'w out_state \<Rightarrow> 'w out_state" where
  "print_out write cap s (b, w) =
     (if o_err b \<or> s = [] \<or> cap \<le> length (o_buf b) then (b, w)
      else
        let avail = cap - length (o_buf b);
            count = (if avail < length s then avail else length s);
            b = b\<lparr>o_buf := o_buf b @ take count s\<rparr>
        in print_out write cap (drop count s)
             (if length (o_buf b) = cap then flush_out write (b, w) else (b, w)))"
  by pat_completeness auto
termination
  by (relation "measure (\<lambda>(write, cap, s, st). length s)") (auto simp: Let_def)

declare print_out.simps [simp del]

section \<open>The contract of a printer\<close>

locale writer =
  fixes put :: "string \<Rightarrow> 's \<Rightarrow> 's"
    and ok :: "'s \<Rightarrow> bool"
    and content :: "'s \<Rightarrow> string"
    and inv :: "'s \<Rightarrow> bool"
  assumes put_inv: "inv s \<Longrightarrow> inv (put t s)"
    and put_ok: "inv s \<Longrightarrow> ok (put t s) \<Longrightarrow> ok s"
    and put_content: "inv s \<Longrightarrow> ok (put t s) \<Longrightarrow> content (put t s) = content s @ t"
begin

lemma puts_inv: "inv s \<Longrightarrow> inv (fold put ts s)"
  by (induction ts arbitrary: s) (simp_all add: put_inv)

lemma puts_ok: "inv s \<Longrightarrow> ok (fold put ts s) \<Longrightarrow> ok s"
proof (induction ts arbitrary: s)
  case (Cons t ts)
  then have "ok (put t s)" using Cons.IH[of "put t s"] by (simp add: put_inv)
  then show ?case by (rule put_ok[OF Cons.prems(1)])
qed simp

text \<open>A sequence of pieces arrives as their concatenation.\<close>

lemma puts_content: "inv s \<Longrightarrow> ok (fold put ts s) \<Longrightarrow> content (fold put ts s) = content s @ concat ts"
proof (induction ts arbitrary: s)
  case (Cons t ts)
  have "ok (put t s)"
    using puts_ok[of "put t s" ts] Cons.prems by (simp add: put_inv)
  then show ?case
    using Cons.IH[of "put t s"] Cons.prems put_content[OF Cons.prems(1)] by (simp add: put_inv)
qed simp

end

section \<open>The buffer meets it\<close>

text \<open>What was accepted: the bytes written and the bytes waiting.\<close>

definition accepted :: "'w out_state \<Rightarrow> string" where
  "accepted st = o_sent (fst st) @ o_buf (fst st)"

definition room :: "nat \<Rightarrow> 'w out_state \<Rightarrow> bool" where
  "room cap st \<longleftrightarrow> length (o_buf (fst st)) < cap"

lemma flush_room: "0 < cap \<Longrightarrow> length (o_buf (fst st)) \<le> cap \<Longrightarrow> \<not> o_err (fst st) \<Longrightarrow> room cap (flush_out write st)"
  by (cases st) (auto simp: flush_out_def room_def split: prod.split)

lemma flush_accepted:
  "\<not> o_err (fst (flush_out write st)) \<Longrightarrow> \<not> o_err (fst st) \<and> accepted (flush_out write st) = accepted st"
  by (cases st) (auto simp: flush_out_def accepted_def split: prod.splits if_splits)

lemma flush_empties: "\<not> o_err (fst st) \<Longrightarrow> o_buf (fst (flush_out write st)) = []"
  by (cases st) (auto simp: flush_out_def split: prod.split)

lemma print_out_spec:
  "room cap st \<Longrightarrow> room cap (print_out write cap s st) \<and>
   (\<not> o_err (fst (print_out write cap s st)) \<longrightarrow>
      \<not> o_err (fst st) \<and> accepted (print_out write cap s st) = accepted st @ s)"
proof (induction "write" cap s st rule: print_out.induct)
  case (1 wr cap s b w)
  show ?case
  proof (cases "o_err b \<or> s = []")
    case True
    then show ?thesis using 1(2) by (subst (1 2 3) print_out.simps) (auto simp: accepted_def)
  next
    case False
    define count where "count = (if cap - length (o_buf b) < length s then cap - length (o_buf b) else length s)"
    define b1 where "b1 = b\<lparr>o_buf := o_buf b @ take count s\<rparr>"
    define st1 where "st1 = (if length (o_buf b1) = cap then flush_out wr (b1, w) else (b1, w))"
    have r: "length (o_buf b) < cap" using 1(2) by (simp add: room_def)
    have step: "print_out wr cap s (b, w) = print_out wr cap (drop count s) st1"
      using False r by (subst print_out.simps) (simp add: count_def b1_def st1_def Let_def)
    have len: "length (o_buf b1) \<le> cap" "\<not> o_err b1" using r False by (auto simp: b1_def count_def)
    then have r1: "room cap st1"
      using flush_room[of cap "(b1, w)" wr] r by (auto simp: st1_def room_def)
    have a1: "\<not> o_err (fst st1) \<Longrightarrow> accepted st1 = accepted (b, w) @ take count s"
      using flush_accepted[of wr "(b1, w)"] by (auto simp: st1_def accepted_def b1_def split: if_splits)
    have "room cap (print_out wr cap (drop count s) st1) \<and>
        (\<not> o_err (fst (print_out wr cap (drop count s) st1)) \<longrightarrow>
          \<not> o_err (fst st1) \<and> accepted (print_out wr cap (drop count s) st1) = accepted st1 @ drop count s)"
      using 1(1)[OF _ refl _ _] r r1 False unfolding count_def b1_def st1_def Let_def by auto
    then show ?thesis using a1 False unfolding step by auto
  qed
qed

interpretation outbuf: writer "print_out wr cap" "\<lambda>st. \<not> o_err (fst st)" accepted "room cap"
  for wr :: "'w write_fn" and cap
  
  by unfold_locales (auto simp: print_out_spec)

end
