(* ===== verification/Uuidgen.thy ===== *)
theory Uuidgen
  imports Byte_Output "HOL-Library.Word"
begin

text \<open>
  \<open>src/src/uuidgen.c\<close>: the Speck rounds that encrypt the counter, the version and variant
  bits, the printers, the count parser, and the program with its options. The operating
  system (\<open>plt_write\<close>, \<open>plt_printpath\<close>, \<open>plt_redirect\<close>) is the record \<open>uuid_plt\<close>, a
  parameter; the seed is an argument, as in the code. Arguments are C strings without
  their terminator, \<open>cstr_at\<close> reading the terminator as the code does.
\<close>

unbundle bit_operations_syntax

section \<open>The cipher\<close>

type_synonym u64 = "64 word"

record block =
  blk_x :: u64
  blk_y :: u64

record speck_context =
  ctx_k :: "u64 list"

definition ror8 :: "u64 \<Rightarrow> u64" where
  "ror8 x = drop_bit 8 x OR push_bit 56 x"

definition rol3 :: "u64 \<Rightarrow> u64" where
  "rol3 y = push_bit 3 y OR drop_bit 61 y"

text \<open>The body both loops share: the round with key word \<open>key\<close>.\<close>

definition speck_round :: "u64 \<Rightarrow> block \<Rightarrow> block" where
  "speck_round key b =
     (let b = b\<lparr>blk_x := ror8 (blk_x b)\<rparr>;
          b = b\<lparr>blk_x := blk_x b + blk_y b\<rparr>;
          b = b\<lparr>blk_x := blk_x b XOR key\<rparr>;
          b = b\<lparr>blk_y := rol3 (blk_y b)\<rparr>
      in b\<lparr>blk_y := blk_y b XOR blk_x b\<rparr>)"

fun speck_keys :: "nat list \<Rightarrow> block \<Rightarrow> speck_context \<Rightarrow> speck_context" where
  "speck_keys [] b ctx = ctx"
| "speck_keys (i # is) b ctx =
     (let b = speck_round (of_nat i) b in
      speck_keys is b (ctx\<lparr>ctx_k := (ctx_k ctx)[i + 1 := blk_y b]\<rparr>))"

definition speck_init :: "block \<Rightarrow> speck_context" where
  "speck_init b = speck_keys [0..<31] b \<lparr>ctx_k = replicate 32 0\<rparr>"

definition speck_encrypt :: "speck_context \<Rightarrow> block \<Rightarrow> block" where
  "speck_encrypt ctx b = fold (\<lambda>i. speck_round (ctx_k ctx ! i)) [0..<32] b"

definition generate :: "speck_context \<Rightarrow> int \<Rightarrow> block" where
  "generate ctx i =
     (let r = \<lparr>blk_x = word_of_int i, blk_y = 0\<rparr>;
          r = speck_encrypt ctx r;
          r = r\<lparr>blk_x := blk_x r AND NOT 0xb000\<rparr>;
          r = r\<lparr>blk_x := blk_x r OR 0x4000\<rparr>;
          r = r\<lparr>blk_y := blk_y r AND NOT 0x4000\<rparr>
      in r\<lparr>blk_y := blk_y r OR 0x8000\<rparr>)"

section \<open>Printing\<close>

record 'w uuid_plt =
  plt_write :: "'w write_fn"
  plt_printpath :: "string \<Rightarrow> 'w \<Rightarrow> 'w"
  plt_redirect :: "string \<Rightarrow> 'w \<Rightarrow> bool \<times> 'w"

definition uuid_cap :: nat where
  "uuid_cap = 2 ^ 14"

abbreviation uprint :: "'w uuid_plt \<Rightarrow> string \<Rightarrow> 'w out_state \<Rightarrow> 'w out_state" where
  "uprint plt \<equiv> print_out (plt_write plt) uuid_cap"

abbreviation uflush :: "'w uuid_plt \<Rightarrow> 'w out_state \<Rightarrow> 'w out_state" where
  "uflush plt \<equiv> flush_out (plt_write plt)"

definition crlf :: string where
  "crlf = [CHR 0x0D, CHR 0x0A]"

text \<open>The digits of \<open>printhex\<close>, written from the end of its buffer.\<close>

primrec hex_loop :: "string \<Rightarrow> nat \<Rightarrow> u64 \<Rightarrow> string \<Rightarrow> string" where
  "hex_loop hex 0 x beg = beg"
| "hex_loop hex (Suc w) x beg = hex_loop hex w (drop_bit 4 x) (hex ! unat (x AND 15) # beg)"

definition printhex :: "'w uuid_plt \<Rightarrow> string \<Rightarrow> nat \<Rightarrow> u64 \<Rightarrow> 'w out_state \<Rightarrow> 'w out_state" where
  "printhex plt hex w x = uprint plt (hex_loop hex w x [])"

definition printuuid :: "'w uuid_plt \<Rightarrow> string \<Rightarrow> block \<Rightarrow> 'w out_state \<Rightarrow> 'w out_state" where
  "printuuid plt hex uuid st =
     (let st = printhex plt hex 8 (drop_bit 32 (blk_x uuid)) st; st = uprint plt ''-'' st;
          st = printhex plt hex 4 (drop_bit 16 (blk_x uuid)) st; st = uprint plt ''-'' st;
          st = printhex plt hex 4 (drop_bit 0 (blk_x uuid)) st; st = uprint plt ''-'' st;
          st = printhex plt hex 4 (drop_bit 0 (blk_y uuid)) st; st = uprint plt ''-'' st
      in printhex plt hex 12 (drop_bit 16 (blk_y uuid)) st)"

definition printidl :: "'w uuid_plt \<Rightarrow> string \<Rightarrow> block \<Rightarrow> 'w out_state \<Rightarrow> 'w out_state" where
  "printidl plt hex uuid st =
     (let st = uprint plt (''['' @ crlf @ ''uuid('') st;
          st = printuuid plt hex uuid st
      in uprint plt (''),'' @ crlf @ ''version(1.0)'' @ crlf @ '']'' @ crlf @
           ''interface INTERFACENAME'' @ crlf @ ''{'' @ crlf @ '''' @ crlf @ ''}'' @ crlf) st)"

definition printstruct :: "'w uuid_plt \<Rightarrow> string \<Rightarrow> block \<Rightarrow> 'w out_state \<Rightarrow> 'w out_state" where
  "printstruct plt hex uuid st =
     (let st = uprint plt ''INTERFACENAME = { /* '' st;
          st = printuuid plt hex uuid st;
          st = uprint plt ('' */'' @ crlf @ ''    0x'') st;
          st = printhex plt hex 8 (drop_bit 32 (blk_x uuid)) st; st = uprint plt ('','' @ crlf @ ''    0x'') st;
          st = printhex plt hex 4 (drop_bit 16 (blk_x uuid)) st; st = uprint plt ('','' @ crlf @ ''    0x'') st;
          st = printhex plt hex 4 (drop_bit 0 (blk_x uuid)) st; st = uprint plt ('','' @ crlf @ ''    {0x'') st;
          st = printhex plt hex 2 (drop_bit 8 (blk_y uuid)) st; st = uprint plt '', 0x'' st;
          st = printhex plt hex 2 (drop_bit 0 (blk_y uuid)) st; st = uprint plt '', 0x'' st;
          st = printhex plt hex 2 (drop_bit 56 (blk_y uuid)) st; st = uprint plt '', 0x'' st;
          st = printhex plt hex 2 (drop_bit 48 (blk_y uuid)) st; st = uprint plt '', 0x'' st;
          st = printhex plt hex 2 (drop_bit 40 (blk_y uuid)) st; st = uprint plt '', 0x'' st;
          st = printhex plt hex 2 (drop_bit 32 (blk_y uuid)) st; st = uprint plt '', 0x'' st;
          st = printhex plt hex 2 (drop_bit 24 (blk_y uuid)) st; st = uprint plt '', 0x'' st;
          st = printhex plt hex 2 (drop_bit 16 (blk_y uuid)) st
      in uprint plt (''}'' @ crlf @ ''  };'' @ crlf) st)"

definition uuid_usage :: "'w uuid_plt \<Rightarrow> 'w out_state \<Rightarrow> 'w out_state" where
  "uuid_usage plt = uprint plt
     (''usage: uuidgen [-chinosvx?]'' @ crlf @
      ''    -c       upper case UUIDs'' @ crlf @
      ''    -h/-?    print this message'' @ crlf @
      ''    -i       IDL interface template'' @ crlf @
      ''    -n<num>  number of UUIDs to generate'' @ crlf @
      ''    -o<path> output to a file'' @ crlf @
      ''    -s       C struct template'' @ crlf @
      ''    -v       print version'' @ crlf @
      ''    -x       ignored for compatability'' @ crlf)"

definition uuid_version :: "'w uuid_plt \<Rightarrow> 'w out_state \<Rightarrow> 'w out_state" where
  "uuid_version plt = uprint plt
     (''w64devkit UUID Generator v1.01 public domain '' @
      ''[like Windows SDK uuidgen]'' @ crlf @ crlf)"

section \<open>The count\<close>

definition i64_max :: int where
  "i64_max = 2 ^ 63 - 1"

text \<open>The value, or the saturated value, and the digits read; \<open>r\<close> is never negative.\<close>

fun count_loop :: "string \<Rightarrow> int \<Rightarrow> nat \<Rightarrow> int" where
  "count_loop [] r len = (if len \<noteq> 0 then r else -1)"
| "count_loop (c # s) r len =
     (let digit = int (of_char c) - 48 in
      if digit < 0 \<or> digit > 9 then (if len \<noteq> 0 then r else -1)
      else if r > (i64_max - digit) div 10 then i64_max
      else count_loop s (r * 10 + digit) (len + 1))"

definition parse_count :: "string \<Rightarrow> int" where
  "parse_count s = count_loop (if s \<noteq> [] \<and> hd s = CHR ''+'' then tl s else s) 0 0"

section \<open>The program\<close>

datatype uuid_mode = MODE_PLAIN | MODE_IDL | MODE_C

record uuid_opts =
  u_mode :: uuid_mode
  u_hex :: string
  u_count :: int
  u_path :: "string option"

text \<open>The way the argument loop ends: the early returns are values, with the argument
  that caused them.\<close>

datatype uuid_exit = Exit_help | Exit_version | Exit_count | Exit_invalid string

definition cstr_at :: "string \<Rightarrow> nat \<Rightarrow> char" where
  "cstr_at s i = (if i < length s then s ! i else CHR 0x00)"

definition hex_lower :: string where
  "hex_lower = ''0123456789abcdef''"

definition hex_upper :: string where
  "hex_upper = ''0123456789ABCDEF''"

definition uuid_defaults :: uuid_opts where
  "uuid_defaults = \<lparr>u_mode = MODE_PLAIN, u_hex = hex_lower, u_count = 1, u_path = None\<rparr>"

fun uuid_args :: "string list \<Rightarrow> uuid_opts \<Rightarrow> uuid_exit + uuid_opts" where
  "uuid_args [] o' = Inr o'"
| "uuid_args (arg # args) o' =
     (let dash = cstr_at arg 0;
          opt = (if dash = CHR ''-'' \<or> dash = CHR ''/'' then cstr_at arg 1 else CHR 0x00)
      in if opt = CHR ''c'' then uuid_args args (o'\<lparr>u_hex := hex_upper\<rparr>)
         else if opt = CHR ''h'' \<or> opt = CHR ''?'' then Inl Exit_help
         else if opt = CHR ''i'' then uuid_args args (o'\<lparr>u_mode := MODE_IDL\<rparr>)
         else if opt = CHR ''n'' then
           (let count = parse_count (drop 2 arg) in
            if count < 0 then Inl Exit_count else uuid_args args (o'\<lparr>u_count := count\<rparr>))
         else if opt = CHR ''o'' then uuid_args args (o'\<lparr>u_path := Some (drop 2 arg)\<rparr>)
         else if opt = CHR ''s'' then uuid_args args (o'\<lparr>u_mode := MODE_C\<rparr>)
         else if opt = CHR ''v'' then Inl Exit_version
         else if opt = CHR ''x'' then uuid_args args o'
         else Inl (Exit_invalid arg))"

definition print_mode :: "'w uuid_plt \<Rightarrow> uuid_opts \<Rightarrow> block \<Rightarrow> 'w out_state \<Rightarrow> 'w out_state" where
  "print_mode plt o' uuid st = (case u_mode o' of
      MODE_PLAIN \<Rightarrow> let st = printuuid plt (u_hex o') uuid st in uprint plt crlf st
    | MODE_IDL \<Rightarrow> printidl plt (u_hex o') uuid st
    | MODE_C \<Rightarrow> printstruct plt (u_hex o') uuid st)"

function uuid_loop :: "'w uuid_plt \<Rightarrow> uuid_opts \<Rightarrow> speck_context \<Rightarrow> int \<Rightarrow> 'w out_state \<Rightarrow> 'w out_state" where
  "uuid_loop plt o' ctx i st =
     (if i < u_count o'
      then uuid_loop plt o' ctx (i + 1) (print_mode plt o' (generate ctx i) st)
      else st)"
  by pat_completeness auto
termination
  by (relation "measure (\<lambda>(plt, o', ctx, i, st). nat (u_count o' - i))") auto

declare uuid_loop.simps [simp del]

text \<open>The result: the exit code, the two buffers as they are left, and the world.\<close>

record 'w uuid_result =
  ur_code :: int
  ur_out :: outbuf
  ur_err :: outbuf
  ur_world :: 'w

definition out_code :: "outbuf \<Rightarrow> int" where
  "out_code b = (if o_err b then 1 else 0)"

text \<open>A message on the standard error, flushed, and exit code 1.\<close>

definition uuid_fail :: "'w uuid_plt \<Rightarrow> outbuf \<Rightarrow> 'w out_state \<Rightarrow> 'w uuid_result" where
  "uuid_fail plt outb st =
     (let (errb, w) = uflush plt st in \<lparr>ur_code = 1, ur_out = outb, ur_err = errb, ur_world = w\<rparr>)"

definition uuid_finish :: "'w uuid_plt \<Rightarrow> outbuf \<Rightarrow> 'w out_state \<Rightarrow> 'w uuid_result" where
  "uuid_finish plt errb st =
     (let (outb, w) = uflush plt st in
      \<lparr>ur_code = out_code outb, ur_out = outb, ur_err = errb, ur_world = w\<rparr>)"

definition uuid_redirect :: "'w uuid_plt \<Rightarrow> uuid_opts \<Rightarrow> 'w \<Rightarrow> bool \<times> 'w" where
  "uuid_redirect plt o' w = (case u_path o' of None \<Rightarrow> (True, w) | Some path \<Rightarrow> plt_redirect plt path w)"

definition uuidgen :: "string list \<Rightarrow> 'w uuid_plt \<Rightarrow> block \<Rightarrow> 'w \<Rightarrow> 'w uuid_result" where
  "uuidgen args plt seed w =
     (let outb = newoutput 1; errb = newoutput 2 in
      case uuid_args args uuid_defaults of
        Inl Exit_help \<Rightarrow>
          let st = uuid_version plt (outb, w); st = uuid_usage plt st in uuid_finish plt errb st
      | Inl Exit_version \<Rightarrow> uuid_finish plt errb (uuid_version plt (outb, w))
      | Inl Exit_count \<Rightarrow>
          let st = uprint plt (''Argument to uuidgen must be a non-negative integer.'' @ crlf @ crlf) (errb, w);
              st = uuid_version plt st; st = uuid_usage plt st
          in uuid_fail plt outb st
      | Inl (Exit_invalid arg) \<Rightarrow>
          let st = uprint plt ''Invalid Switch Usage: '' (errb, w); st = uprint plt arg st;
              st = uprint plt (crlf @ crlf) st; st = uuid_version plt st; st = uuid_usage plt st
          in uuid_fail plt outb st
      | Inr o' \<Rightarrow>
          let (ok, w) = uuid_redirect plt o' w in
          if \<not> ok then
            let st = uprint plt ''Cannot open output file: '' (errb, w);
                (errb, w) = uflush plt st;
                w = plt_printpath plt (the (u_path o')) w;
                st = uprint plt (crlf @ crlf) (errb, w)
            in uuid_fail plt outb st
          else
            let ctx = speck_init seed; st = uuid_loop plt o' ctx 0 (outb, w)
            in uuid_finish plt errb st)"

section \<open>Lemmas: the cipher is a permutation\<close>

lemmas speck_defs = ror8_def rol3_def speck_round_def

definition speck_unround :: "u64 \<Rightarrow> block \<Rightarrow> block" where
  "speck_unround key b =
     (let y = blk_y b XOR blk_x b;
          y = drop_bit 3 y OR push_bit 61 y;
          x = (blk_x b XOR key) - y
      in \<lparr>blk_x = push_bit 8 x OR drop_bit 56 x, blk_y = y\<rparr>)"

lemma ror8_inverse: "push_bit 8 (ror8 x) OR drop_bit 56 (ror8 x) = x"
  unfolding ror8_def
  by (rule bit_word_eqI) (auto simp: bit_simps)

lemma rol3_inverse: "drop_bit 3 (rol3 y) OR push_bit 61 (rol3 y) = y"
  unfolding rol3_def
  by (rule bit_word_eqI) (use le_add_diff_inverse[of 61] in \<open>fastforce simp: bit_simps not_less\<close>)

lemma speck_unround_round: "speck_unround key (speck_round key b) = b"
  by (cases b) (simp add: speck_round_def speck_unround_def Let_def ror8_inverse rol3_inverse xor.assoc)

lemma inj_speck_round: "inj (speck_round key)"
  by (rule inj_on_inverseI) (rule speck_unround_round)

lemma inj_fold: "(\<And>x. x \<in> set xs \<Longrightarrow> inj (f x)) \<Longrightarrow> inj (fold f xs)"
  by (induction xs) (auto intro: inj_compose simp: comp_def[symmetric])

section \<open>Lemmas: hexadecimal\<close>

lemma hex_loop_append: "hex_loop hex w x beg = hex_loop hex w x [] @ beg"
proof (induction w arbitrary: x beg)
  case (Suc w)
  show ?case
    using Suc.IH[of "drop_bit 4 x" "hex ! unat (x AND 15) # beg"]
      Suc.IH[of "drop_bit 4 x" "[hex ! unat (x AND 15)]"] by (simp add: hex_loop.simps)
qed simp

lemma hex_loop_Suc:
  "hex_loop hex (Suc w) x [] = hex_loop hex w (drop_bit 4 x) [] @ [hex ! unat (x AND 15)]"
  by (simp add: hex_loop.simps hex_loop_append[of hex w _ "[_]"])

declare hex_loop.simps(2) [simp del]

lemma length_hex_loop [simp]: "length (hex_loop hex w x beg) = w + length beg"
  by (induction w arbitrary: x beg) (auto simp: hex_loop.simps)

lemma nibble_less: "unat (x AND 15 :: u64) < 16"
proof -
  have "unat (x AND 15) \<le> unat (15 :: u64)"
    by (rule word_and_le1 [THEN word_le_nat_alt [THEN iffD1]])
  then show ?thesis by simp
qed

lemma and_15_take_bit: "(x :: u64) AND 15 = take_bit 4 x"
  by (simp add: take_bit_eq_mask mask_numeral)

lemma hex_digit_inj:
  "distinct hex \<Longrightarrow> length hex = 16 \<Longrightarrow>
   hex ! unat (take_bit 4 x :: u64) = hex ! unat (take_bit 4 y :: u64) \<longleftrightarrow> take_bit 4 x = take_bit 4 y"
  using nibble_less[of x] nibble_less[of y]
  by (simp add: nth_eq_iff_index_eq word_unat_eq_iff and_15_take_bit)

lemma hex_loop_inj:
  assumes "distinct hex" "length hex = 16"
  shows "hex_loop hex w x [] = hex_loop hex w y [] \<Longrightarrow> take_bit (4 * w) x = take_bit (4 * w) (y :: u64)"
proof (induction w arbitrary: x y)
  case (Suc w)
  have low: "take_bit 4 x = take_bit 4 y"
    using Suc.prems by (simp add: hex_loop_Suc hex_digit_inj[OF assms] and_15_take_bit)
  have high: "take_bit (4 * w) (drop_bit 4 x) = take_bit (4 * w) (drop_bit 4 y)"
    using Suc.IH[of "drop_bit 4 x" "drop_bit 4 y"] Suc.prems by (simp add: hex_loop_Suc)
  have "bit x n = bit y n" if "n < 4 * Suc w" for n
  proof (cases "n < 4")
    case True
    then show ?thesis using arg_cong[OF low, of "\<lambda>w. bit w n"] by (simp add: bit_simps)
  next
    case False
    then show ?thesis
      using that arg_cong[OF high, of "\<lambda>w. bit w (n - 4)"] by (simp add: bit_simps less_diff_conv2)
  qed
  then show ?case by (auto intro!: bit_word_eqI simp: bit_simps)
qed simp

lemma hex_alphabets: "hex \<in> {hex_lower, hex_upper} \<Longrightarrow> distinct hex \<and> length hex = 16"
  by (auto simp: hex_lower_def hex_upper_def)

section \<open>Lemmas: the printed text\<close>

definition uuid_pieces :: "string \<Rightarrow> block \<Rightarrow> string list" where
  "uuid_pieces hex b =
     [hex_loop hex 8 (drop_bit 32 (blk_x b)) [], ''-'', hex_loop hex 4 (drop_bit 16 (blk_x b)) [], ''-'',
      hex_loop hex 4 (blk_x b) [], ''-'', hex_loop hex 4 (blk_y b) [], ''-'',
      hex_loop hex 12 (drop_bit 16 (blk_y b)) []]"

definition uuid_text :: "string \<Rightarrow> block \<Rightarrow> string" where
  "uuid_text hex b = concat (uuid_pieces hex b)"

lemma printuuid_pieces: "printuuid plt hex b st = fold (uprint plt) (uuid_pieces hex b) st"
  by (simp add: printuuid_def printhex_def uuid_pieces_def Let_def)

lemma uuid_text_inj:
  assumes "hex \<in> {hex_lower, hex_upper}" "uuid_text hex a = uuid_text hex b"
  shows "a = b"
proof -
  note H = hex_loop_inj[OF conjunct1[OF hex_alphabets[OF assms(1)]] conjunct2[OF hex_alphabets[OF assms(1)]]]
  have "take_bit 32 (drop_bit 32 (blk_x a)) = take_bit 32 (drop_bit 32 (blk_x b))"
    "take_bit 16 (drop_bit 16 (blk_x a)) = take_bit 16 (drop_bit 16 (blk_x b))"
    "take_bit 16 (blk_x a) = take_bit 16 (blk_x b)" "take_bit 16 (blk_y a) = take_bit 16 (blk_y b)"
    "take_bit 48 (drop_bit 16 (blk_y a)) = take_bit 48 (drop_bit 16 (blk_y b))"
    using assms(2) H[of 8 "drop_bit 32 (blk_x a)" "drop_bit 32 (blk_x b)"]
      H[of 4 "drop_bit 16 (blk_x a)" "drop_bit 16 (blk_x b)"] H[of 4 "blk_x a" "blk_x b"]
      H[of 4 "blk_y a" "blk_y b"] H[of 12 "drop_bit 16 (blk_y a)" "drop_bit 16 (blk_y b)"]
    by (simp_all add: uuid_text_def uuid_pieces_def)
  note parts = this
  have "bit (blk_x a) n = bit (blk_x b) n" if "n < 64" for n
    using that arg_cong[OF parts(1), of "\<lambda>w. bit w (n - 32)"] arg_cong[OF parts(2), of "\<lambda>w. bit w (n - 16)"]
      arg_cong[OF parts(3), of "\<lambda>w. bit w n"]
    by (cases "n < 16"; cases "n < 32") (simp_all add: bit_simps less_diff_conv2)
  then have "blk_x a = blk_x b" by (auto intro: bit_word_eqI)
  moreover have "bit (blk_y a) n = bit (blk_y b) n" if "n < 64" for n
    using that arg_cong[OF parts(4), of "\<lambda>w. bit w n"] arg_cong[OF parts(5), of "\<lambda>w. bit w (n - 16)"]
    by (cases "n < 16") (simp_all add: bit_simps less_diff_conv2)
  then have "blk_y a = blk_y b" by (auto intro: bit_word_eqI)
  ultimately show ?thesis by simp
qed

text \<open>What one UUID puts on the output in each mode, as the pieces its printer passes on.\<close>

definition mode_pieces :: "uuid_opts \<Rightarrow> block \<Rightarrow> string list" where
  "mode_pieces o' b = (case u_mode o' of
      MODE_PLAIN \<Rightarrow> uuid_pieces (u_hex o') b @ [crlf]
    | MODE_IDL \<Rightarrow> [''['' @ crlf @ ''uuid(''] @ uuid_pieces (u_hex o') b @
        ['')'' @ '','' @ crlf @ ''version(1.0)'' @ crlf @ '']'' @ crlf @
         ''interface INTERFACENAME'' @ crlf @ ''{'' @ crlf @ crlf @ ''}'' @ crlf]
    | MODE_C \<Rightarrow> [''INTERFACENAME = { /* ''] @ uuid_pieces (u_hex o') b @
        ['' */'' @ crlf @ ''    0x'', hex_loop (u_hex o') 8 (drop_bit 32 (blk_x b)) [],
         '','' @ crlf @ ''    0x'', hex_loop (u_hex o') 4 (drop_bit 16 (blk_x b)) [],
         '','' @ crlf @ ''    0x'', hex_loop (u_hex o') 4 (blk_x b) [],
         '','' @ crlf @ ''    {0x''] @
        concat (map (\<lambda>k. [hex_loop (u_hex o') 2 (drop_bit k (blk_y b)) [], '', 0x''])
          [8, 0, 56, 48, 40, 32, 24]) @
        [hex_loop (u_hex o') 2 (drop_bit 16 (blk_y b)) [], ''}'' @ crlf @ ''  };'' @ crlf])"

lemma print_mode_pieces: "print_mode plt o' b st = fold (uprint plt) (mode_pieces o' b) st"
  by (cases "u_mode o'")
    (simp_all add: print_mode_def mode_pieces_def printidl_def printstruct_def printuuid_pieces
      printhex_def Let_def)

lemma uuid_loop_pieces:
  "uuid_loop plt o' ctx i st =
     fold (uprint plt) (concat (map (\<lambda>j. mode_pieces o' (generate ctx j)) [i..u_count o' - 1])) st"
proof (induction plt o' ctx i st rule: uuid_loop.induct)
  case (1 plt o' ctx i st)
  then show ?case
    by (subst uuid_loop.simps, subst upto.simps) (simp add: print_mode_pieces)
qed

definition mode_text :: "uuid_opts \<Rightarrow> block \<Rightarrow> string" where
  "mode_text o' b = concat (mode_pieces o' b)"

lemma room_new: "room uuid_cap (newoutput fd, w)"
  by (simp add: room_def newoutput_def uuid_cap_def)

lemma flush_sent:
  "\<not> o_err (fst (flush_out wr st)) \<Longrightarrow> o_sent (fst (flush_out wr st)) = accepted st"
  using flush_accepted[of wr st] flush_empties[of st wr] by (simp add: accepted_def)

text \<open>After printing pieces to a new output and flushing it, an output without an error has
  sent exactly the pieces.\<close>

lemma flush_pieces:
  assumes "\<not> o_err (fst (flush_out wr (fold (print_out wr uuid_cap) ps (newoutput fd, w))))"
  shows "o_sent (fst (flush_out wr (fold (print_out wr uuid_cap) ps (newoutput fd, w)))) = concat ps"
proof -
  have "\<not> o_err (fst (fold (print_out wr uuid_cap) ps (newoutput fd, w)))"
    using flush_accepted[OF assms] by simp
  then show ?thesis
    using flush_sent[OF assms] outbuf.puts_content[OF room_new, of wr ps]
    by (simp add: accepted_def newoutput_def)
qed

lemma uuid_finish_pieces:
  assumes "ur_code (uuid_finish plt errb (fold (uprint plt) ps (newoutput fd, w))) = 0"
  shows "o_sent (ur_out (uuid_finish plt errb (fold (uprint plt) ps (newoutput fd, w)))) = concat ps"
  using assms flush_pieces[of "plt_write plt" ps fd w]
  by (auto simp: uuid_finish_def out_code_def split: prod.splits if_splits)

section \<open>Lemmas: no write fails\<close>

definition never_fails :: "'w write_fn \<Rightarrow> bool" where
  "never_fails wr \<longleftrightarrow> (\<forall>fd s w. fst (wr fd s w))"

lemma never_fails_ok: "never_fails wr \<Longrightarrow> wr fd s w = (ok, w') \<Longrightarrow> ok"
  by (metis never_fails_def fst_conv)

lemma flush_no_err: "never_fails wr \<Longrightarrow> \<not> o_err (fst st) \<Longrightarrow> \<not> o_err (fst (flush_out wr st))"
  by (cases st) (auto simp: flush_out_def split: prod.split dest: never_fails_ok)

lemma print_no_err: "never_fails wr \<Longrightarrow> \<not> o_err (fst st) \<Longrightarrow> \<not> o_err (fst (print_out wr cap s st))"
proof (induction wr cap s st rule: print_out.induct)
  case (1 wr cap s b w)
  then show ?case
    by (subst print_out.simps) (auto simp: Let_def flush_no_err)
qed

lemma puts_no_err: "never_fails wr \<Longrightarrow> \<not> o_err (fst st) \<Longrightarrow> \<not> o_err (fst (fold (print_out wr cap) ps st))"
  by (induction ps arbitrary: st) (simp_all add: print_no_err)

section \<open>Lemmas: the count\<close>

definition is_dec :: "char \<Rightarrow> bool" where
  "is_dec c \<longleftrightarrow> 48 \<le> int (of_char c) \<and> int (of_char c) \<le> 57"

definition dec_value :: "string \<Rightarrow> int \<Rightarrow> int" where
  "dec_value ds r = foldl (\<lambda>r c. r * 10 + (int (of_char c) - 48)) r ds"

lemma dec_value_mono: "list_all is_dec ds \<Longrightarrow> 0 \<le> r \<Longrightarrow> r \<le> dec_value ds r"
proof (induction ds arbitrary: r)
  case (Cons d ds)
  then have "r * 10 + (int (of_char d) - 48) \<le> dec_value ds (r * 10 + (int (of_char d) - 48))"
    by (intro Cons.IH) (auto simp: is_dec_def)
  then show ?case using Cons.prems by (simp add: dec_value_def is_dec_def)
qed (simp add: dec_value_def)

lemma count_loop_digits:
  assumes "list_all is_dec ds" "rest = [] \<or> \<not> is_dec (hd rest)" "0 \<le> r" "r \<le> i64_max"
  shows "count_loop (ds @ rest) r len =
    (if len + length ds = 0 then -1 else min (dec_value ds r) i64_max)"
  using assms
proof (induction ds arbitrary: r len)
  case Nil
  then show ?case by (cases rest) (auto simp: dec_value_def is_dec_def Let_def)
next
  case (Cons d ds)
  define g where "g = int (of_char d) - 48"
  have g: "0 \<le> g" "g \<le> 9" using Cons.prems(1) by (auto simp: g_def is_dec_def)
  have v: "dec_value (d # ds) r = dec_value ds (r * 10 + g)" by (simp add: dec_value_def g_def)
  show ?case
  proof (cases "r > (i64_max - g) div 10")
    case True
    then have "i64_max < r * 10 + g" by (simp add: i64_max_def)
    then have "i64_max \<le> dec_value (d # ds) r"
      using dec_value_mono[of ds "r * 10 + g"] Cons.prems g v by auto
    then show ?thesis using True g by (simp add: Let_def g_def min_def)
  next
    case False
    then have "r * 10 + g \<le> i64_max" by (simp add: i64_max_def)
    then show ?thesis
      using Cons.IH[of "r * 10 + g" "len + 1"] Cons.prems g False v by (simp add: Let_def g_def)
  qed
qed

section \<open>Lemmas: the format\<close>

lemma print_out_fits:
  assumes "\<not> o_err b" "length (o_buf b) + length s < cap"
  shows "print_out wr cap s (b, w) = (b\<lparr>o_buf := o_buf b @ s\<rparr>, w)"
proof (cases "s = []")
  case True
  then show ?thesis by (subst print_out.simps) simp
next
  case False
  have "print_out wr cap [] st = st" for st :: "'a out_state"
    by (cases st) (simp add: print_out.simps)
  then show ?thesis using assms False by (subst print_out.simps) (auto simp: Let_def)
qed

lemma puts_fit:
  "\<not> o_err b \<Longrightarrow> length (o_buf b) + length (concat ps) < cap \<Longrightarrow>
   fold (print_out wr cap) ps (b, w) = (b\<lparr>o_buf := o_buf b @ concat ps\<rparr>, w)"
  by (induction ps arbitrary: b) (simp_all add: print_out_fits)

lemma length_uuid_text [simp]: "length (uuid_text hex b) = 36"
  by (simp add: uuid_text_def uuid_pieces_def)

lemma printuuid_new: "accepted (printuuid plt hex b (newoutput fd, w)) = uuid_text hex b"
proof -
  have "length (concat (uuid_pieces hex b)) = 36"
    using length_uuid_text[of hex b] by (simp add: uuid_text_def)
  then show ?thesis
    unfolding printuuid_pieces
    by (subst puts_fit) (auto simp: newoutput_def uuid_cap_def accepted_def uuid_text_def)
qed

lemma uuid_text_dashes:
  "uuid_text hex b ! 8 = CHR ''-''" "uuid_text hex b ! 13 = CHR ''-''"
  "uuid_text hex b ! 18 = CHR ''-''" "uuid_text hex b ! 23 = CHR ''-''"
  by (simp_all add: uuid_text_def uuid_pieces_def nth_append nth_Cons')

lemma hex_loop_hd: "hex_loop hex (Suc w) x beg ! 0 = hex ! unat (drop_bit (4 * w) x AND 15)"
proof (induction w arbitrary: x beg)
  case (Suc w)
  then show ?case by (subst hex_loop.simps) (simp add: add.commute)
qed (simp add: hex_loop.simps)

lemma uuid_text_version: "uuid_text hex b ! 14 = hex ! unat (drop_bit 12 (blk_x b) AND 15)"
  using hex_loop_hd[of hex 3 "blk_x b"] by (simp add: uuid_text_def uuid_pieces_def nth_append numeral_eq_Suc)

lemma uuid_text_variant: "uuid_text hex b ! 19 = hex ! unat (drop_bit 12 (blk_y b) AND 15)"
  using hex_loop_hd[of hex 3 "blk_y b"] by (simp add: uuid_text_def uuid_pieces_def nth_append numeral_eq_Suc)

lemma nibble_eqI:
  "(\<And>n. n \<in> {0, 1, 2, 3} \<Longrightarrow> bit (x :: u64) n = bit y n) \<Longrightarrow> take_bit 4 x = take_bit 4 y"
  by (rule bit_word_eqI) (auto simp: bit_simps numeral_eq_Suc less_Suc_eq)

lemma generate_version: "drop_bit 12 (blk_x (generate ctx i)) AND 15 = 4"
proof -
  have "take_bit 4 (drop_bit 12 (blk_x (generate ctx i))) = take_bit 4 4"
    by (rule nibble_eqI) (auto simp: generate_def Let_def bit_simps)
  then show ?thesis by (simp add: and_15_take_bit)
qed

lemma generate_variant: "unat (drop_bit 12 (blk_y (generate ctx i)) AND 15) \<in> {8..11}"
proof -
  define z where "z = drop_bit 12 (blk_y (generate ctx i))"
  have z: "bit z 3" "\<not> bit z 2" by (simp_all add: z_def generate_def Let_def bit_simps)
  have "take_bit 4 z = take_bit 4 (if bit z 0 then if bit z 1 then 11 else 9 else if bit z 1 then 10 else 8)"
    by (rule nibble_eqI) (use z in \<open>auto split: if_splits\<close>)
  then show ?thesis unfolding and_15_take_bit z_def[symmetric] by (auto split: if_splits)
qed

section \<open>Lemmas: the program\<close>

lemma concat_concat_map: "concat (concat (map f xs)) = concat (map (\<lambda>x. concat (f x)) xs)"
  by (induction xs) simp_all

lemma uuidgen_sent:
  assumes "uuid_args args uuid_defaults = Inr o'" "ur_code (uuidgen args plt seed w) = 0"
  shows "o_sent (ur_out (uuidgen args plt seed w)) =
    concat (map (\<lambda>i. mode_text o' (generate (speck_init seed) i)) [0..u_count o' - 1])"
proof -
  obtain ok w1 where red: "uuid_redirect plt o' w = (ok, w1)" by fastforce
  define ps where "ps = concat (map (\<lambda>j. mode_pieces o' (generate (speck_init seed) j)) [0..u_count o' - 1])"
  have ok: ok
    using assms red by (auto simp: uuidgen_def uuid_fail_def Let_def split: prod.splits if_splits)
  have run: "uuidgen args plt seed w = uuid_finish plt (newoutput 2) (fold (uprint plt) ps (newoutput 1, w1))"
    using assms(1) red ok by (simp add: uuidgen_def uuid_loop_pieces ps_def Let_def)
  have "concat ps = concat (map (\<lambda>i. mode_text o' (generate (speck_init seed) i)) [0..u_count o' - 1])"
    by (simp add: ps_def mode_text_def concat_concat_map)
  then show ?thesis
    using uuid_finish_pieces[of plt "newoutput 2" ps 1 w1] assms(2) by (simp add: run)
qed

lemma uuid_fail_code [simp]: "ur_code (uuid_fail plt outb st) = 1"
  by (simp add: uuid_fail_def split: prod.split)

lemma uuid_finish_code:
  "never_fails (plt_write plt) \<Longrightarrow> \<not> o_err (fst st) \<Longrightarrow> ur_code (uuid_finish plt errb st) = 0"
  using flush_no_err[of "plt_write plt" st]
  by (auto simp: uuid_finish_def out_code_def split: prod.splits)

lemma uuidgen_code:
  assumes "never_fails (plt_write plt)"
  shows "ur_code (uuidgen args plt seed w) = (case uuid_args args uuid_defaults of
      Inl e \<Rightarrow> if e \<in> {Exit_help, Exit_version} then 0 else 1
    | Inr o' \<Rightarrow> if fst (uuid_redirect plt o' w) then 0 else 1)"
proof -
  have new: "\<not> o_err (newoutput fd)" for fd by (simp add: newoutput_def)
  note code = uuid_finish_code[OF assms]
  note no_err = print_no_err[OF assms] puts_no_err[OF assms]
  show ?thesis
    by (auto simp: uuidgen_def uuid_loop_pieces uuid_version_def uuid_usage_def Let_def new
        intro!: code no_err split: sum.split uuid_exit.split prod.split)
qed

section \<open>A system for the witnesses\<close>

text \<open>Every write succeeds and is logged; every path can be opened.\<close>

definition log_plt :: "(int \<times> string) list uuid_plt" where
  "log_plt = \<lparr>plt_write = (\<lambda>fd s w. (True, w @ [(fd, s)])), plt_printpath = (\<lambda>s w. w @ [(2, s)]),
     plt_redirect = (\<lambda>path w. (True, []))\<rparr>"

lemma log_plt_writes: "never_fails (plt_write log_plt)"
  by (simp add: never_fails_def log_plt_def)

end
