(* ===== verification/Pkg_Strings.thy ===== *)
theory Pkg_Strings
  imports Quilt_Prelude
begin

text \<open>
  The string helpers of \<open>src/src/pkg-config.c\<close>: characters, tokens, cuts, the encoding of
  paths, path names, search paths and the option scanner. An \<open>s8\<close> is a \<^typ>\<open>string\<close>; where
  the code tests the pointer, a null string is \<^const>\<open>None\<close>. Memory is not modelled: the
  arena is taken to be large enough (the code stops with a message otherwise).
\<close>

section \<open>Characters\<close>

definition digit :: "char \<Rightarrow> bool" where
  "digit c \<longleftrightarrow> char_in (CHR ''0'') (CHR ''9'') c"

definition whitespace :: "char \<Rightarrow> bool" where
  "whitespace c \<longleftrightarrow> c = tab \<or> c = nl \<or> c = cr \<or> c = spc"

definition pathsep :: "char \<Rightarrow> bool" where
  "pathsep c \<longleftrightarrow> c = slash \<or> c = bslash"

definition tokenspace :: "char \<Rightarrow> bool" where
  "tokenspace c \<longleftrightarrow> whitespace c \<or> c = CHR '',''"

section \<open>Strings\<close>

definition startswith :: "string \<Rightarrow> string \<Rightarrow> bool" where
  "startswith s pre \<longleftrightarrow> length pre \<le> length s \<and> take (length pre) s = pre"

definition digits :: "string \<Rightarrow> string \<times> string" where
  "digits s = (takeWhile digit s, dropWhile digit s)"

fun skiptokenspace :: "string \<Rightarrow> string" where
  "skiptokenspace [] = []"
| "skiptokenspace (c # s) = (if tokenspace c then skiptokenspace s else c # s)"

definition nexttoken :: "string \<Rightarrow> string \<times> string" where
  "nexttoken s = (let s = skiptokenspace s in
     (takeWhile (\<lambda>c. \<not> tokenspace c) s, dropWhile (\<lambda>c. \<not> tokenspace c) s))"

text \<open>Head, tail, and whether the delimiter was there.\<close>

fun s8cut :: "string \<Rightarrow> char \<Rightarrow> string \<times> string \<times> bool" where
  "s8cut [] delim = ([], [], False)"
| "s8cut (c # s) delim =
     (if c = delim then ([], s, True)
      else let (head, tail, ok) = s8cut s delim in (c # head, tail, ok))"

section \<open>Encoded paths\<close>

definition pathencode :: "char \<Rightarrow> char" where
  "pathencode c =
     (if c = tab then CHR 0xF8 else if c = nl then CHR 0xF9 else if c = cr then CHR 0xFA
      else if c = spc then CHR 0xFB else if c = CHR ''$'' then CHR 0xFC
      else if c = CHR ''('' then CHR 0xFD else if c = CHR '')'' then CHR 0xFE else c)"

definition pathdecode :: "char \<Rightarrow> char" where
  "pathdecode c =
     (if c = CHR 0xF8 then tab else if c = CHR 0xF9 then nl else if c = CHR 0xFA then cr
      else if c = CHR 0xFB then spc else if c = CHR 0xFC then CHR ''$''
      else if c = CHR 0xFD then CHR ''('' else if c = CHR 0xFE then CHR '')'' else c)"

definition s8pathencode :: "string \<Rightarrow> string" where
  "s8pathencode s = (if list_all (\<lambda>c. pathencode c = c) s then s else map pathencode s)"

section \<open>Path names\<close>

fun dirname_len :: "string \<Rightarrow> nat \<Rightarrow> nat" where
  "dirname_len path 0 = 0"
| "dirname_len path (Suc len) = (if pathsep (path ! len) then len else dirname_len path len)"

definition pc_dirname :: "string \<Rightarrow> string" where
  "pc_dirname path = take (dirname_len path (length path)) path"

fun basename_len :: "string \<Rightarrow> nat \<Rightarrow> nat" where
  "basename_len path 0 = 0"
| "basename_len path (Suc len) = (if pathsep (path ! len) then Suc len else basename_len path len)"

definition pc_basename :: "string \<Rightarrow> string" where
  "pc_basename path = drop (basename_len path (length path)) path"

text \<open>The path without the terminator the code appends for the system.\<close>

definition buildpath :: "string \<Rightarrow> string \<Rightarrow> string" where
  "buildpath dir pc = dir @ ''/'' @ pc @ ''.pc''"

definition realnameispath :: "string \<Rightarrow> bool" where
  "realnameispath realname \<longleftrightarrow> 3 < length realname \<and> drop (length realname - 3) realname = ''.pc''"

fun last_sep :: "string \<Rightarrow> nat \<Rightarrow> nat \<Rightarrow> nat" where
  "last_sep [] i baselen = baselen"
| "last_sep (c # s) i baselen = last_sep s (i + 1) (if pathsep c then i + 1 else baselen)"

definition pathtorealname :: "string \<Rightarrow> string" where
  "pathtorealname path =
     (if \<not> realnameispath path then path
      else let name = drop (last_sep path 0 0) path in take (length name - 3) name)"

definition normalize :: "string \<Rightarrow> string" where
  "normalize path = map (\<lambda>c. if c = bslash then slash else c) path"

definition makepath :: "string \<Rightarrow> string \<Rightarrow> string \<Rightarrow> string" where
  "makepath base lib share = base @ lib @ '';'' @ base @ share"

section \<open>Search paths\<close>

lemma s8cut_tail_shorter [termination_simp]:
  "(head, tail, ok) = s8cut s d \<Longrightarrow> s \<noteq> [] \<Longrightarrow> length tail < length s"
  by (induction s arbitrary: head tail ok)
    (fastforce split: if_splits prod.splits simp: less_Suc_eq)+

text \<open>The directories appended to a search list.\<close>

function appendpath :: "string list \<Rightarrow> char \<Rightarrow> string \<Rightarrow> string list" where
  "appendpath dirs delim path =
     (if path = [] then dirs
      else let (dir, tail, ok) = s8cut path delim;
               dirs = (if dir \<noteq> [] then dirs @ [dir] else dirs)
           in appendpath dirs delim tail)"
  by pat_completeness auto
termination
  by (relation "measure (\<lambda>(dirs, delim, path). length path)") (auto simp: s8cut_tail_shorter)

declare appendpath.simps [simp del]

definition prependpath :: "string list \<Rightarrow> char \<Rightarrow> string \<Rightarrow> string list" where
  "prependpath dirs delim path =
     (if dirs = [] then appendpath dirs delim path else appendpath [] delim path @ dirs)"

section \<open>Options\<close>

record options =
  op_args :: "string list"
  op_index :: nat
  op_dashdash :: bool

definition newoptions :: "string list \<Rightarrow> options" where
  "newoptions args = \<lparr>op_args = args, op_index = 0, op_dashdash = False\<rparr>"

text \<open>\<open>ok = 0\<close> is the end of the arguments; the value of an option may be missing.\<close>

datatype optresult = End_args | Plain_arg string | Option_arg string "string option"

function nextoption :: "options \<Rightarrow> optresult \<times> options" where
  "nextoption p =
     (if length (op_args p) \<le> op_index p then (End_args, p)
      else
        let arg = op_args p ! op_index p; p = p\<lparr>op_index := op_index p + 1\<rparr> in
        if op_dashdash p \<or> length arg < 2 \<or> hd arg \<noteq> CHR ''-'' then (Plain_arg arg, p)
        else if arg = ''--'' then nextoption (p\<lparr>op_dashdash := True\<rparr>)
        else let arg = tl arg; (head, tail, ok) = s8cut arg (CHR ''='')
             in if ok then (Option_arg head (Some tail), p) else (Option_arg arg None, p))"
  by pat_completeness auto
termination
  by (relation "measure (\<lambda>p. length (op_args p) - op_index p)") auto

declare nextoption.simps [simp del]

fun parseuint_loop :: "string \<Rightarrow> int \<Rightarrow> int \<Rightarrow> int" where
  "parseuint_loop [] hi v = v"
| "parseuint_loop (c # s) hi v =
     (if digit c then
        let v = v * 10 + int (of_char c) - 48 in if hi \<le> v then hi else parseuint_loop s hi v
      else parseuint_loop s hi v)"

definition parseuint :: "string \<Rightarrow> int \<Rightarrow> int" where
  "parseuint s hi = parseuint_loop s hi 0"

section \<open>Lemmas\<close>

lemma digits_concat: "fst (digits s) @ snd (digits s) = s"
  by (simp add: digits_def)

lemma skiptokenspace_dropWhile: "skiptokenspace s = dropWhile tokenspace s"
  by (induction s) auto

text \<open>The tail of a token is shorter while there is a token.\<close>

lemma nexttoken_shorter [termination_simp]:
  "nexttoken s = (tok, tail) \<Longrightarrow> tok \<noteq> [] \<Longrightarrow> length tail < length s"
proof -
  assume a: "nexttoken s = (tok, tail)" "tok \<noteq> []"
  then have "length (dropWhile tokenspace s) = length tok + length tail"
    by (auto simp: nexttoken_def skiptokenspace_dropWhile Let_def simp flip: length_append)
  moreover have "length (dropWhile tokenspace s) \<le> length s" by (rule length_dropWhile_le)
  ultimately show ?thesis using a(2) by (cases tok) auto
qed

lemma s8cut_ok: "s8cut s d = (h, t, True) \<Longrightarrow> s = h @ d # t \<and> d \<notin> set h"
  by (induction s arbitrary: h t) (auto split: if_splits prod.splits)

lemma s8cut_not_ok: "s8cut s d = (h, t, False) \<Longrightarrow> h = s \<and> t = [] \<and> d \<notin> set s"
  by (induction s arbitrary: h t) (auto split: if_splits prod.splits)

lemma s8cut_append: "d \<notin> set h \<Longrightarrow> s8cut (h @ d # t) d = (h, t, True)"
  by (induction h) auto

lemma s8cut_none: "d \<notin> set s \<Longrightarrow> s8cut s d = (s, [], False)"
  by (induction s) auto

text \<open>Decoding undoes encoding on bytes outside the seven code bytes.\<close>

lemma pathdecode_pathencode: "pathdecode c = c \<Longrightarrow> pathdecode (pathencode c) = c"
  by (auto simp: pathdecode_def pathencode_def split: if_splits)

lemma s8pathencode_map: "s8pathencode s = map pathencode s"
  by (auto simp: s8pathencode_def list_all_iff map_idI)

lemma encoded_no_space: "\<not> whitespace (pathencode c)"
  by (auto simp: whitespace_def pathencode_def)

lemma dirname_len_less: "\<exists>i < n. pathsep (path ! i) \<Longrightarrow> dirname_len path n < n"
  by (induction n) (auto simp: less_Suc_eq)

text \<open>Directory and base name put the path together again.\<close>

lemma dirname_basename_len:
  "n \<le> length path \<Longrightarrow> (\<exists>i < n. pathsep (path ! i)) \<Longrightarrow>
   basename_len path n = Suc (dirname_len path n) \<and> pathsep (path ! dirname_len path n)"
proof (induction n)
  case (Suc n)
  then show ?case by (cases "pathsep (path ! n)") (auto simp: less_Suc_eq)
qed simp

lemma dirname_basename:
  assumes "\<exists>c \<in> set path. pathsep c"
  shows "\<exists>c. pathsep c \<and> path = pc_dirname path @ c # pc_basename path"
proof -
  from assms have ex: "\<exists>i < length path. pathsep (path ! i)" by (auto simp: in_set_conv_nth)
  note l = dirname_basename_len[OF le_refl ex]
  have "dirname_len path (length path) < length path"
    using ex by (rule dirname_len_less)
  then have "path = take (dirname_len path (length path)) path @
      path ! dirname_len path (length path) # drop (Suc (dirname_len path (length path))) path"
    by (rule id_take_nth_drop)
  then show ?thesis using l by (auto simp: pc_dirname_def pc_basename_def)
qed

lemma dirname_len_append:
  "\<forall>c \<in> set b. \<not> pathsep c \<Longrightarrow> pathsep s \<Longrightarrow> dirname_len (a @ s # b) (length a + 1 + n) = length a"
  if "n \<le> length b" for n
  using that
proof (induction n)
  case 0
  then show ?case by simp
next
  case (Suc n)
  then show ?case by (auto simp: nth_append)
qed

lemma dirname_append: "pathsep s \<Longrightarrow> \<forall>c \<in> set b. \<not> pathsep c \<Longrightarrow> pc_dirname (a @ s # b) = a"
  using dirname_len_append[of "length b" b s a] by (simp add: pc_dirname_def)

lemma dirname_build: "\<forall>c \<in> set pc. \<not> pathsep c \<Longrightarrow> pc_dirname (buildpath dir pc) = dir"
  using dirname_append[of slash "pc @ ''.pc''" dir] by (simp add: buildpath_def pathsep_def ball_Un)

lemma appendpath_dirs: "appendpath dirs d path = dirs @ appendpath [] d path"
proof (induction "length path" arbitrary: dirs path rule: less_induct)
  case less
  show ?case
  proof (cases "path = []")
    case True
    then show ?thesis by (simp add: appendpath.simps)
  next
    case False
    obtain dir tail ok where c: "s8cut path d = (dir, tail, ok)" using prod_cases3 by blast
    then have "length tail < length path" using False s8cut_tail_shorter[OF c[symmetric]] by simp
    note tail = less[OF this]
    show ?thesis using False c
      by (subst (1 2) appendpath.simps) (simp add: Let_def tail[of dirs] tail[of "dirs @ [dir]"] tail[of "[dir]"])
  qed
qed

end
