(* ===== verification/Pkg_Version.thy ===== *)
theory Pkg_Version
  imports Pkg_Strings "HOL-Library.List_Lexorder"
begin

text \<open>
  Version operators and comparison of \<open>src/src/pkg-config.c\<close>. The comparison is shown to be
  the lexicographic order of a key that replaces each number by its length and digits, so
  versions are linearly ordered; \<open>version\<close> is made an instance of the class.
\<close>

section \<open>Operators\<close>

datatype versop = Versop_ERR | Versop_LT | Versop_LTE | Versop_EQ | Versop_GTE | Versop_GT

definition parseop :: "string \<Rightarrow> versop" where
  "parseop s =
     (if s = ''<'' then Versop_LT else if s = ''<='' then Versop_LTE else if s = ''='' then Versop_EQ
      else if s = ''>='' then Versop_GTE else if s = ''>'' then Versop_GT else Versop_ERR)"

text \<open>\<open>None\<close> is the failed assertion.\<close>

fun opname :: "versop \<Rightarrow> string option" where
  "opname Versop_ERR = None"
| "opname Versop_LT = Some ''<''"
| "opname Versop_LTE = Some ''<=''"
| "opname Versop_EQ = Some ''=''"
| "opname Versop_GTE = Some ''>=''"
| "opname Versop_GT = Some ''>''"

fun validcompare :: "versop \<Rightarrow> int \<Rightarrow> bool option" where
  "validcompare Versop_ERR r = None"
| "validcompare Versop_LT r = Some (r < 0)"
| "validcompare Versop_LTE r = Some (r \<le> 0)"
| "validcompare Versop_EQ r = Some (r = 0)"
| "validcompare Versop_GTE r = Some (0 \<le> r)"
| "validcompare Versop_GT r = Some (0 < r)"

section \<open>Comparison\<close>

definition byte_less :: "char \<Rightarrow> char \<Rightarrow> bool" where
  "byte_less a b \<longleftrightarrow> (of_char a :: nat) < of_char b"

text \<open>The loop over two numbers of the same length; \<open>None\<close> when they are equal.\<close>

fun compare_digits :: "string \<Rightarrow> string \<Rightarrow> int option" where
  "compare_digits (a # as) (b # bs) =
     (if byte_less a b then Some (-1) else if byte_less b a then Some 1 else compare_digits as bs)"
| "compare_digits as bs = None"

lemma digits_tail_shorter:
  "i < length s \<Longrightarrow> digit (s ! i) \<Longrightarrow> length (snd (digits (drop i s))) < length s - i"
  by (subst Cons_nth_drop_Suc[symmetric], assumption)
    (auto simp: digits_def intro!: le_less_trans[OF length_dropWhile_le])

function compare_loop :: "string \<Rightarrow> string \<Rightarrow> nat \<Rightarrow> int" where
  "compare_loop va vb i =
     (if i < length va \<and> i < length vb then
        let a = va ! i; b = vb ! i in
        if \<not> digit a \<or> \<not> digit b then
          if byte_less a b then -1 else if byte_less b a then 1 else compare_loop va vb (i + 1)
        else
          let (ha, ta) = digits (drop i va); (hb, tb) = digits (drop i vb) in
          if length ha < length hb then -1 else if length hb < length ha then 1
          else case compare_digits ha hb of Some r \<Rightarrow> r | None \<Rightarrow> compare_loop ta tb 0
      else if length va < length vb then -1 else if length vb < length va then 1 else 0)"
  by pat_completeness auto

termination
proof (relation "measure (\<lambda>(va, vb, i). length va - i)", goal_cases)
  case (3 va vb i)
  then show ?case using digits_tail_shorter[of i va] by auto (metis snd_conv)
qed auto

declare compare_loop.simps [simp del]

definition compareversions :: "string \<Rightarrow> string \<Rightarrow> int" where
  "compareversions va vb = compare_loop va vb 0"

section \<open>The key of a version\<close>

function version_key :: "string \<Rightarrow> nat list" where
  "version_key s = (case s of [] \<Rightarrow> [] | c # s' \<Rightarrow>
     (if digit c then
        48 # length (takeWhile digit s) # map of_char (takeWhile digit s) @ version_key (dropWhile digit s)
      else of_char c # version_key s'))"
  by pat_completeness auto
termination
  by (relation "measure length") (auto simp: less_Suc_eq_le length_dropWhile_le)

declare version_key.simps [simp del]

lemma version_key_Nil [simp]: "version_key [] = []"
  by (simp add: version_key.simps)

lemma version_key_byte: "\<not> digit c \<Longrightarrow> version_key (c # s) = of_char c # version_key s"
  by (subst version_key.simps) simp

lemma version_key_digit:
  "digit c \<Longrightarrow> version_key (c # s) =
   48 # length (takeWhile digit (c # s)) # map of_char (takeWhile digit (c # s)) @ version_key (dropWhile digit (c # s))"
  by (subst version_key.simps) simp

lemma version_key_empty_iff [simp]: "version_key s = [] \<longleftrightarrow> s = []"
  by (cases s; cases "digit (hd s)") (simp_all add: version_key_byte version_key_digit)

definition key_compare :: "nat list \<Rightarrow> nat list \<Rightarrow> int" where
  "key_compare x y = (if x < y then -1 else if y < x then 1 else 0)"

lemma key_compare_simps [simp]:
  "key_compare x x = 0"
  "key_compare [] (b # y) = -1"
  "key_compare (a # x) [] = 1"
  "key_compare (a # x) (b # y) = (if a < b then -1 else if b < a then 1 else key_compare x y)"
  by (auto simp: key_compare_def)

lemma compare_digits_key:
  "length as = length bs \<Longrightarrow> key_compare (map of_char as @ x) (map of_char bs @ y) =
     (case compare_digits as bs of Some r \<Rightarrow> r | None \<Rightarrow> key_compare x y)"
  by (induction as bs rule: list_induct2) (auto simp: byte_less_def)

lemma digit_range: "digit c \<longleftrightarrow> 48 \<le> (of_char c :: nat) \<and> (of_char c :: nat) \<le> 57"
  by (simp add: digit_def char_in_def)

lemma of_char_eq_nat: "(of_char a :: nat) = of_char b \<longleftrightarrow> a = b"
  by simp

lemma compare_loop_key:
  "i \<le> length va \<Longrightarrow> i \<le> length vb \<Longrightarrow>
   compare_loop va vb i = key_compare (version_key (drop i va)) (version_key (drop i vb))"
proof (induction va vb i rule: compare_loop.induct)
  case (1 va vb i)
  show ?case
  proof (cases "i < length va \<and> i < length vb")
    case False
    then consider "drop i va = []" "drop i vb = []" | "drop i va = []" "drop i vb \<noteq> []" | "drop i va \<noteq> []" "drop i vb = []"
      by (metis drop_eq_Nil not_less)
    then show ?thesis
    proof cases
      case 1
      then show ?thesis using "1.prems" by (subst compare_loop.simps) simp
    next
      case 2
      then show ?thesis using 1(3,4) False
        by (subst compare_loop.simps) (cases "version_key (drop i vb)"; simp)
    next
      case 3
      then show ?thesis using 1(3,4) False
        by (subst compare_loop.simps) (cases "version_key (drop i va)"; simp)
    qed
  next
    case True
    define a where "a = va ! i"
    define b where "b = vb ! i"
    have d: "drop i va = a # drop (Suc i) va" "drop i vb = b # drop (Suc i) vb"
      using True by (simp_all add: a_def b_def Cons_nth_drop_Suc)
    show ?thesis
    proof (cases "digit a \<and> digit b")
      case False
      have IH: "\<not> byte_less a b \<Longrightarrow> \<not> byte_less b a \<Longrightarrow>
          compare_loop va vb (Suc i) = key_compare (version_key (drop (Suc i) va)) (version_key (drop (Suc i) vb))"
        using 1(1)[of a b] True False by (auto simp: a_def b_def)
      show ?thesis using True False IH unfolding d
        by (subst compare_loop.simps, cases "digit a"; cases "digit b")
          (auto simp: Let_def version_key_byte version_key_digit a_def[symmetric] b_def[symmetric]
            byte_less_def digit_range)
    next
      case dig: True
      obtain ha ta hb tb where h: "digits (drop i va) = (ha, ta)" "digits (drop i vb) = (hb, tb)"
        by fastforce
      have k: "version_key (drop i va) = 48 # length ha # map of_char ha @ version_key ta"
        "version_key (drop i vb) = 48 # length hb # map of_char hb @ version_key tb"
        using h dig unfolding d digits_def by (auto simp: version_key_digit)
      have IH: "length ha = length hb \<Longrightarrow> compare_digits ha hb = None \<Longrightarrow>
          compare_loop ta tb 0 = key_compare (version_key ta) (version_key tb)"
        using 1(2)[of a b] True dig h by (auto simp: a_def b_def)
      show ?thesis using True dig IH unfolding k
        by (subst compare_loop.simps)
          (auto simp: Let_def h a_def[symmetric] b_def[symmetric] compare_digits_key split: option.split)
    qed
  qed
qed

theorem compareversions_key: "compareversions va vb = key_compare (version_key va) (version_key vb)"
  by (simp add: compareversions_def compare_loop_key)

lemma map_of_char_eq: "map of_char xs = (map of_char ys :: nat list) \<longleftrightarrow> xs = ys"
  by (simp add: inj_map_eq_map inj_on_def)

lemma version_key_inj: "version_key a = version_key b \<Longrightarrow> a = b"
proof (induction "length a + length b" arbitrary: a b rule: less_induct)
  case less
  show ?case
  proof (cases a; cases b)
    fix x a' y b'
    assume ab: "a = x # a'" "b = y # b'"
    show ?thesis
    proof (cases "digit x \<and> digit y")
      case True
      then have eq: "takeWhile digit a = takeWhile digit b"
        "version_key (dropWhile digit a) = version_key (dropWhile digit b)"
        using less.prems by (auto simp: ab version_key_digit map_of_char_eq)
      have "length (dropWhile digit a) < length a"
        using True by (simp add: ab less_Suc_eq_le length_dropWhile_le)
      then have "dropWhile digit a = dropWhile digit b"
        using less.hyps[OF _ eq(2)] length_dropWhile_le[of digit b] by linarith
      then show ?thesis using eq(1) by (metis takeWhile_dropWhile_id)
    next
      case False
      then show ?thesis using less.prems less.hyps[of a' b']
        by (cases "digit x"; cases "digit y") (auto simp: ab version_key_byte version_key_digit digit_range)
    qed
  qed (use less.prems in \<open>auto dest: sym\<close>)
qed

section \<open>Versions are linearly ordered\<close>

datatype version = Version (version_string: string)

instantiation version :: linorder
begin

definition less_eq_version :: "version \<Rightarrow> version \<Rightarrow> bool" where
  "less_eq_version a b \<longleftrightarrow> compareversions (version_string a) (version_string b) \<le> 0"

definition less_version :: "version \<Rightarrow> version \<Rightarrow> bool" where
  "less_version a b \<longleftrightarrow> compareversions (version_string a) (version_string b) < 0"

instance
proof
  fix x y z :: version
  show "x < y \<longleftrightarrow> x \<le> y \<and> \<not> y \<le> x"
    by (auto simp: less_version_def less_eq_version_def compareversions_key key_compare_def)
  show "x \<le> x"
    by (simp add: less_eq_version_def compareversions_key)
  show "x \<le> z" if "x \<le> y" "y \<le> z"
    using that by (auto simp: less_eq_version_def compareversions_key key_compare_def split: if_splits)
  show "x = y" if "x \<le> y" "y \<le> x"
    using that version_key_inj[of "version_string x" "version_string y"]
    by (auto simp: less_eq_version_def compareversions_key key_compare_def version.expand split: if_splits)
  show "x \<le> y \<or> y \<le> x"
    by (auto simp: less_eq_version_def compareversions_key key_compare_def)
qed

end

end
