(* ===== verification/Hash_Trie.thy ===== *)
theory Hash_Trie
  imports Quilt_Prelude "HOL-Library.Word"
begin

text \<open>
  The hash tries of \<open>src/src/pkg-config.c\<close>: \<open>insert\<close> (variables), \<open>locate\<close>
  (packages) and \<open>findargpos\<close> (arguments) are the same walk over nodes with four children,
  two bits of the FNV hash per level. The locale \<open>name_map\<close> is what the code expects of
  them, the laws of a map; the trie has them for every hash function.
\<close>

unbundle bit_operations_syntax

section \<open>Model\<close>

type_synonym u32 = "32 word"

definition s8hash :: "string \<Rightarrow> u32" where
  "s8hash s = foldl (\<lambda>h c. (h XOR of_nat (of_char c)) * 0x01000193) 0x811c9dc5 s"

text \<open>A null pointer is the empty trie.\<close>

datatype 'v trie = Null | Node "'v trie" "'v trie" "'v trie" "'v trie" string 'v

text \<open>\<open>child[h>>30]\<close>.\<close>

definition child :: "u32 \<Rightarrow> 'a \<Rightarrow> 'a \<Rightarrow> 'a \<Rightarrow> 'a \<Rightarrow> 'a" where
  "child h c0 c1 c2 c3 =
     (let i = unat (drop_bit 30 h) in if i = 0 then c0 else if i = 1 then c1 else if i = 2 then c2 else c3)"

fun trie_find :: "u32 \<Rightarrow> string \<Rightarrow> 'v trie \<Rightarrow> 'v option" where
  "trie_find h name Null = None"
| "trie_find h name (Node c0 c1 c2 c3 n v) =
     (if n = name then Some v
      else child h (trie_find (push_bit 2 h) name c0) (trie_find (push_bit 2 h) name c1)
             (trie_find (push_bit 2 h) name c2) (trie_find (push_bit 2 h) name c3))"

text \<open>The insertion together with the assignment through the pointer it returns.\<close>

fun trie_bind :: "u32 \<Rightarrow> string \<Rightarrow> 'v \<Rightarrow> 'v trie \<Rightarrow> 'v trie" where
  "trie_bind h name x Null = Node Null Null Null Null name x"
| "trie_bind h name x (Node c0 c1 c2 c3 n v) =
     (if n = name then Node c0 c1 c2 c3 n x
      else child h (Node (trie_bind (push_bit 2 h) name x c0) c1 c2 c3 n v)
             (Node c0 (trie_bind (push_bit 2 h) name x c1) c2 c3 n v)
             (Node c0 c1 (trie_bind (push_bit 2 h) name x c2) c3 n v)
             (Node c0 c1 c2 (trie_bind (push_bit 2 h) name x c3) n v))"

definition trie_lookup :: "'v trie \<Rightarrow> string \<Rightarrow> 'v option" where
  "trie_lookup t name = trie_find (s8hash name) name t"

definition trie_insert :: "string \<Rightarrow> 'v \<Rightarrow> 'v trie \<Rightarrow> 'v trie" where
  "trie_insert name x t = trie_bind (s8hash name) name x t"

text \<open>The names bound in it.\<close>

fun trie_names :: "'v trie \<Rightarrow> string list" where
  "trie_names Null = []"
| "trie_names (Node c0 c1 c2 c3 n v) = n # trie_names c0 @ trie_names c1 @ trie_names c2 @ trie_names c3"

section \<open>The contract of a map from names\<close>

locale name_map =
  fixes get :: "'m \<Rightarrow> string \<Rightarrow> 'v option"
    and put :: "string \<Rightarrow> 'v \<Rightarrow> 'm \<Rightarrow> 'm"
    and empty :: 'm
  assumes get_empty: "get empty k = None"
    and get_put: "get (put k v m) j = (if j = k then Some v else get m j)"
begin

lemma get_puts:
  "get (fold (\<lambda>(k, v). put k v) kvs m) j = (case map_of (rev kvs) j of None \<Rightarrow> get m j | Some v \<Rightarrow> Some v)"
  by (induction kvs rule: rev_induct) (auto simp: get_put split: option.split)

lemma get_puts_empty: "get (fold (\<lambda>(k, v). put k v) kvs empty) j = map_of (rev kvs) j"
  by (simp add: get_puts get_empty split: option.split)

lemma put_twice: "get (put k v (put k u m)) = get (put k v m)"
  by (rule ext) (simp add: get_put)

lemma put_commute: "k \<noteq> j \<Longrightarrow> get (put k v (put j u m)) = get (put j u (put k v m))"
  by (rule ext) (simp add: get_put)

end

section \<open>The trie is one\<close>

lemma trie_find_bind_same: "trie_find h name (trie_bind h name x t) = Some x"
  by (induction h name x t rule: trie_bind.induct) (auto simp: child_def Let_def)

lemma trie_find_bind_other:
  "j \<noteq> name \<Longrightarrow> trie_find g j (trie_bind h name x t) = trie_find g j t"
proof (induction h name x t arbitrary: g rule: trie_bind.induct)
  case (1 h name x)
  then show ?case by (simp add: child_def Let_def)
next
  case (2 h name x c0 c1 c2 c3 n v)
  then show ?case by (auto simp: child_def Let_def)
qed

interpretation hash_trie: name_map trie_lookup trie_insert Null
  by unfold_locales (auto simp: trie_lookup_def trie_insert_def trie_find_bind_same trie_find_bind_other)

lemma trie_lookup_simps [simp]:
  "trie_lookup Null k = None"
  "trie_lookup (trie_insert k v t) j = (if j = k then Some v else trie_lookup t j)"
  by (rule hash_trie.get_empty) (rule hash_trie.get_put)

lemma trie_names_bind: "set (trie_names (trie_bind h k v t)) = insert k (set (trie_names t))"
  by (induction h k v t rule: trie_bind.induct) (auto simp: child_def Let_def)

end
