(* ===== verification/Pkg_Parse.thy ===== *)
theory Pkg_Parse
  imports Pkg_Version Hash_Trie
begin

text \<open>
  Reading a package file in \<open>src/src/pkg-config.c\<close>: \<open>parsepackage\<close> with its escapes,
  the package record and its fields, and the lists of package specifications
  (\<open>parsespecs\<close>). Pointers into the text are suffixes of it; the pairs \<open>beg\<close>, \<open>end\<close> of
  the code are a suffix and a length. Every fatal error of the program is a value of
  \<open>pkg_error\<close>, with the text the code prints.
\<close>

section \<open>Errors\<close>

datatype pkg_error =
    Unexpected_operator string "string option"
  | Expected_version versop "string option"
  | Missing_argument string
  | Unreadable_package string string
  | Recursion_in string
  | Undefined_variable string string
  | Package_not_found string
  | Duplicate_variable string string
  | Duplicate_field string string
  | Missing_field string string
  | Max_recursion string
  | Version_mismatch string versop string string
  | Value_missing string
  | Unimplemented string
  | Unknown_option string
  | Unmatched_quote string
  | No_packages

definition quoted :: "string \<Rightarrow> string" where
  "quoted s = CHR 0x27 # s @ [CHR 0x27]"

definition in_package :: "string option \<Rightarrow> string" where
  "in_package p = (case p of None \<Rightarrow> [] | Some n \<Rightarrow> '' in package '' @ quoted n)"

fun error_text :: "pkg_error \<Rightarrow> string" where
  "error_text (Unexpected_operator tok p) = ''unexpected operator '' @ quoted tok @ in_package p"
| "error_text (Expected_version op p) =
     ''expected version following operator '' @ (case opname op of Some s \<Rightarrow> s | None \<Rightarrow> []) @ in_package p"
| "error_text (Missing_argument opt) = ''argument missing for -'' @ opt"
| "error_text (Unreadable_package name path) = ''could not read package '' @ quoted name @ '' from '' @ quoted path"
| "error_text (Recursion_in path) = ''exceeded max recursion depth in '' @ quoted path"
| "error_text (Undefined_variable name path) = ''undefined variable '' @ quoted name @ '' in '' @ quoted path"
| "error_text (Package_not_found name) = ''could not find package '' @ quoted name"
| "error_text (Duplicate_variable name path) = ''duplicate variable '' @ quoted name @ '' in '' @ quoted path"
| "error_text (Duplicate_field name path) = ''duplicate field '' @ quoted name @ '' in '' @ quoted path"
| "error_text (Missing_field name path) = ''missing field '' @ quoted name @ '' in '' @ quoted path"
| "error_text (Max_recursion tok) = ''exceeded max recursion depth on '' @ quoted tok"
| "error_text (Version_mismatch name op want got) =
     ''requested '' @ quoted name @ '' '' @ (case opname op of Some s \<Rightarrow> s | None \<Rightarrow> []) @ '' '' @
     quoted want @ '' but got '' @ quoted got"
| "error_text (Value_missing v) = ''value missing in --define-variable for '' @ quoted v"
| "error_text (Unimplemented opt) = opt @ '' is unimplemented''"
| "error_text (Unknown_option opt) = ''unknown option -'' @ opt"
| "error_text (Unmatched_quote name) = ''unmatched quote in '' @ quoted name"
| "error_text No_packages = ''requires at least one package name''"

definition error_message :: "pkg_error \<Rightarrow> string" where
  "error_message e = ''pkg-config: '' @ error_text e @ [nl]"

section \<open>Packages\<close>

datatype pkg_field = Field_Name | Field_Description | Field_URL | Field_Version | Field_Requires
  | Field_Requires_private | Field_Conflicts | Field_Libs | Field_Libs_private | Field_Cflags
  | Field_Cflags_private

definition all_fields :: "pkg_field list" where
  "all_fields = [Field_Name, Field_Description, Field_URL, Field_Version, Field_Requires,
     Field_Requires_private, Field_Conflicts, Field_Libs, Field_Libs_private, Field_Cflags,
     Field_Cflags_private]"

fun field_name :: "pkg_field \<Rightarrow> string" where
  "field_name Field_Name = ''Name''"
| "field_name Field_Description = ''Description''"
| "field_name Field_URL = ''URL''"
| "field_name Field_Version = ''Version''"
| "field_name Field_Requires = ''Requires''"
| "field_name Field_Requires_private = ''Requires.private''"
| "field_name Field_Conflicts = ''Conflicts''"
| "field_name Field_Libs = ''Libs''"
| "field_name Field_Libs_private = ''Libs.private''"
| "field_name Field_Cflags = ''Cflags''"
| "field_name Field_Cflags_private = ''Cflags.private''"

definition fieldbyname :: "string \<Rightarrow> pkg_field option" where
  "fieldbyname name = find (\<lambda>f. field_name f = name) all_fields"

record pkgspec =
  sp_name :: string
  sp_op :: versop
  sp_version :: "string option"

text \<open>The bits of \<open>flags\<close> are two truth values; a null string is \<open>None\<close>; \<open>pk_field\<close> holds
  the eleven fields that \<open>fieldbyid\<close> indexes.\<close>

record pkg =
  pk_path :: string
  pk_realname :: string
  pk_contents :: "string option"
  pk_env :: "string trie"
  pk_requires :: "pkgspec list"
  pk_requiresprivate :: "pkgspec list"
  pk_direct :: bool
  pk_public :: bool
  pk_field :: "pkg_field \<Rightarrow> string option"

definition empty_pkg :: pkg where
  "empty_pkg = \<lparr>pk_path = [], pk_realname = [], pk_contents = None, pk_env = Null, pk_requires = [],
     pk_requiresprivate = [], pk_direct = False, pk_public = False, pk_field = (\<lambda>_. None)\<rparr>"

text \<open>A null string where the code prints or scans a field.\<close>

definition text_of :: "string option \<Rightarrow> string" where
  "text_of s = (case s of None \<Rightarrow> [] | Some t \<Rightarrow> t)"

section \<open>Escapes\<close>

definition escaped :: "string \<Rightarrow> nat" where
  "escaped s = (if startswith s [bslash, nl] then 2 else if startswith s [bslash, cr, nl] then 3 else 0)"

function stripescapes :: "string \<Rightarrow> string" where
  "stripescapes [] = []"
| "stripescapes (b # s) =
     (if b = bslash then
        let r = escaped (b # s) in
        if r \<noteq> 0 then stripescapes (drop r (b # s))
        else if s \<noteq> [] \<and> hd s = CHR ''#'' then stripescapes s
        else b # stripescapes s
      else b # stripescapes s)"
  by pat_completeness auto
termination
  by (relation "measure length") (auto simp: escaped_def)

section \<open>Scanning a file\<close>

fun skip_line :: "string \<Rightarrow> string" where
  "skip_line [] = []"
| "skip_line (c # s) = (if c = nl then s else skip_line s)"

text \<open>The name before a separator: the length without trailing space, the separator (or the
  last byte of the text), and what follows.\<close>

fun scan_name :: "string \<Rightarrow> nat \<Rightarrow> nat \<Rightarrow> char \<Rightarrow> nat \<times> char \<times> string" where
  "scan_name [] p stop c = (stop, c, [])"
| "scan_name (x # s) p stop c =
     (if x = nl \<or> x = CHR ''='' \<or> x = CHR '':'' then (stop, x, s)
      else scan_name s (p + 1) (if whitespace x then stop else p + 1) x)"

function skip_lead :: "string \<Rightarrow> string" where
  "skip_lead [] = []"
| "skip_lead (c # s) =
     (if c = bslash then
        let r = escaped (c # s) in if r \<noteq> 0 then skip_lead (drop r (c # s)) else c # s
      else if c = nl \<or> \<not> whitespace c then c # s
      else skip_lead s)"
  by pat_completeness auto
termination
  by (relation "measure length") (auto simp: escaped_def)

text \<open>The value up to the end of the line: its length, whether it holds escapes, and what
  follows.\<close>

function scan_value :: "string \<Rightarrow> nat \<Rightarrow> nat \<Rightarrow> bool \<Rightarrow> nat \<times> bool \<times> string" where
  "scan_value [] p stop cleanup = (stop, cleanup, [])"
| "scan_value (c # s) p stop cleanup =
     (if c = nl then (stop, cleanup, c # s)
      else if c = CHR ''#'' then (stop, cleanup, skip_line (c # s))
      else if c = bslash then
        (if s \<noteq> [] \<and> hd s = CHR ''#'' then scan_value (tl s) (p + 2) (p + 2) True
         else let r = escaped (c # s) in
           if r \<noteq> 0 then scan_value (drop r (c # s)) (p + r) stop True
           else scan_value s (p + 1) stop cleanup)
      else scan_value s (p + 1) (if whitespace c then stop else p + 1) cleanup)"
  by pat_completeness auto
termination
  by (relation "measure (\<lambda>(s, p, e, c). length s)") (auto simp: escaped_def)

datatype parseresult = Dup_variable string | Dup_field string | Parsed pkg

text \<open>The value of the entry whose text follows the separator, and the rest of the file.\<close>

definition entry_value :: "string \<Rightarrow> string \<times> string" where
  "entry_value s =
     (let beg = skip_lead s; (stop, cleanup, rest) = scan_value beg 0 0 False;
          v = take stop beg
      in (if cleanup then stripescapes v else v, rest))"

lemma skip_line_shorter: "length (skip_line s) \<le> length s"
  by (induction s) auto

lemma scan_name_shorter: "scan_name s p e c = (e', c', rest) \<Longrightarrow> length rest \<le> length s - 1"
  by (induction s p e c rule: scan_name.induct) (auto split: if_splits)

lemma skip_lead_shorter: "length (skip_lead s) \<le> length s"
  by (induction s rule: skip_lead.induct) (auto simp: Let_def)

lemma scan_value_shorter: "scan_value s p e cl = (e', cl', rest) \<Longrightarrow> length rest \<le> length s"
proof (induction s p e cl rule: scan_value.induct)
  case (2 c s p stop cleanup)
  show ?case
    using 2 skip_line_shorter[of "c # s"] by (fastforce simp: Let_def split: if_splits)
qed simp

lemma entry_value_shorter: "entry_value s = (v, rest) \<Longrightarrow> length rest \<le> length s"
  using skip_lead_shorter[of s]
  by (auto simp: entry_value_def Let_def split: prod.splits dest: scan_value_shorter)

lemma scan_rest_shorter:
  assumes "s \<noteq> []" "scan_name (dropWhile whitespace s) 0 0 (CHR 0x00) = (e, c, rest)"
  shows "length rest < length s"
  using assms scan_name_shorter[OF assms(2)] length_dropWhile_le[of whitespace s]
  by (cases s) (auto simp del: dropWhile.simps)

lemma skip_comment_shorter:
  assumes "dropWhile whitespace s \<noteq> []" "hd (dropWhile whitespace s) = CHR ''#''"
  shows "length (skip_line (dropWhile whitespace s)) < length s"
proof -
  obtain t where "dropWhile whitespace s = CHR ''#'' # t" using assms by (metis list.collapse)
  then show ?thesis
    using skip_line_shorter[of t] length_dropWhile_le[of whitespace s] by simp
qed

function parse_loop :: "string \<Rightarrow> pkg \<Rightarrow> parseresult" where
  "parse_loop s pkg =
     (if s = [] then Parsed pkg
      else
        let p = dropWhile whitespace s in
        if p \<noteq> [] \<and> hd p = CHR ''#'' then parse_loop (skip_line p) pkg
        else
          let (stop, c, rest) = scan_name p 0 0 (CHR 0x00); name = take stop p in
          if c = CHR ''='' then
            if trie_lookup (pk_env pkg) name \<noteq> None then Dup_variable name
            else let (v, rest) = entry_value rest in
              parse_loop rest (pkg\<lparr>pk_env := trie_insert name v (pk_env pkg)\<rparr>)
          else if c = CHR '':'' then
            (case fieldbyname name of
               None \<Rightarrow> let (v, rest) = entry_value rest in parse_loop rest pkg
             | Some f \<Rightarrow>
                 if pk_field pkg f \<noteq> None then Dup_field name
                 else let (v, rest) = entry_value rest in
                   parse_loop rest (pkg\<lparr>pk_field := (pk_field pkg)(f := Some v)\<rparr>))
          else parse_loop rest pkg)"
  by pat_completeness auto

termination
proof (relation "measure (\<lambda>(s, pkg). length s)", goal_cases)
  case 1 show ?case by simp
next
  case (2 s pkg) then show ?case by (simp add: skip_comment_shorter)
qed (auto dest!: sym[of _ "scan_name _ _ _ _"] sym[of _ "entry_value _"] scan_rest_shorter entry_value_shorter
      intro: le_less_trans)

declare parse_loop.simps [simp del]

definition parsepackage :: "string \<Rightarrow> parseresult" where
  "parsepackage src = parse_loop src (empty_pkg\<lparr>pk_contents := Some src\<rparr>)"

section \<open>Package specifications\<close>

definition newpkgspec :: "string \<Rightarrow> pkgspec" where
  "newpkgspec name = \<lparr>sp_name = name, sp_op = Versop_ERR, sp_version = None\<rparr>"

definition checknotop :: "string \<Rightarrow> string option \<Rightarrow> pkg_error option" where
  "checknotop tok p = (if parseop tok \<noteq> Versop_ERR then Some (Unexpected_operator tok p) else None)"

text \<open>One token. The flag says that the head of the list is still open (\<open>pkg\<close> is not null).\<close>

fun spec_token :: "string option \<Rightarrow> string \<Rightarrow> pkgspec list \<times> bool \<Rightarrow> pkg_error + pkgspec list \<times> bool" where
  "spec_token p tok (sp # specs, True) =
     (if sp_op sp = Versop_ERR then
        let op = parseop tok in
        if op = Versop_ERR then Inr (newpkgspec tok # sp # specs, True)
        else Inr (sp\<lparr>sp_op := op\<rparr> # specs, True)
      else Inr (sp\<lparr>sp_version := Some tok\<rparr> # specs, False))"
| "spec_token p tok (specs, cur) =
     (case checknotop tok p of Some e \<Rightarrow> Inl e | None \<Rightarrow> Inr (newpkgspec tok # specs, True))"

function spec_tokens :: "string option \<Rightarrow> string \<Rightarrow> pkgspec list \<times> bool \<Rightarrow> pkg_error + pkgspec list \<times> bool" where
  "spec_tokens p s st =
     (let (tok, tail) = nexttoken s in
      if tok = [] then Inr st
      else case spec_token p tok st of Inl e \<Rightarrow> Inl e | Inr st \<Rightarrow> spec_tokens p tail st)"
  by pat_completeness auto
termination
  by (relation "measure (\<lambda>(p, s, st). length s)") (auto dest: nexttoken_shorter[OF sym])

declare spec_tokens.simps [simp del]

fun spec_args :: "string option \<Rightarrow> string list \<Rightarrow> pkgspec list \<times> bool \<Rightarrow> pkg_error + pkgspec list \<times> bool" where
  "spec_args p [] st = Inr st"
| "spec_args p (a # args) st = (case spec_tokens p a st of Inl e \<Rightarrow> Inl e | Inr st \<Rightarrow> spec_args p args st)"

definition parsespecs :: "string list \<Rightarrow> string option \<Rightarrow> pkg_error + pkgspec list" where
  "parsespecs args p = (case spec_args p args ([], False) of
     Inl e \<Rightarrow> Inl e
   | Inr (specs, cur) \<Rightarrow>
       if cur \<and> specs \<noteq> [] \<and> sp_op (hd specs) \<noteq> Versop_ERR \<and> sp_version (hd specs) = None
       then Inl (Expected_version (sp_op (hd specs)) p) else Inr specs)"

section \<open>Printed files parse\<close>

text \<open>The entries of a file, as a list, and one way to write them down.\<close>

datatype pc_entry = Var_entry string string | Field_entry pkg_field string

definition escape_hash :: "string \<Rightarrow> string" where
  "escape_hash v = concat (map (\<lambda>c. if c = CHR ''#'' then [bslash, c] else [c]) v)"

fun render_entry :: "pc_entry \<Rightarrow> string" where
  "render_entry (Var_entry n v) = n @ ''='' @ escape_hash v @ [nl]"
| "render_entry (Field_entry f v) = field_name f @ '': '' @ escape_hash v @ [nl]"

definition plain_value :: "string \<Rightarrow> bool" where
  "plain_value v \<longleftrightarrow> nl \<notin> set v \<and> bslash \<notin> set v \<and>
     (v \<noteq> [] \<longrightarrow> \<not> whitespace (hd v) \<and> \<not> whitespace (last v))"

definition plain_name :: "string \<Rightarrow> bool" where
  "plain_name n \<longleftrightarrow> n \<noteq> [] \<and> set n \<inter> {nl, CHR ''='', CHR '':''} = {} \<and>
     \<not> whitespace (hd n) \<and> \<not> whitespace (last n) \<and> hd n \<noteq> CHR ''#''"

fun plain_entry :: "pc_entry \<Rightarrow> bool" where
  "plain_entry (Var_entry n v) \<longleftrightarrow> plain_name n \<and> plain_value v"
| "plain_entry (Field_entry f v) \<longleftrightarrow> plain_value v"

text \<open>What the entries mean: assignments in order, until one repeats.\<close>

fun load_entries :: "pc_entry list \<Rightarrow> pkg \<Rightarrow> parseresult" where
  "load_entries [] p = Parsed p"
| "load_entries (Var_entry n v # es) p =
     (if trie_lookup (pk_env p) n \<noteq> None then Dup_variable n
      else load_entries es (p\<lparr>pk_env := trie_insert n v (pk_env p)\<rparr>))"
| "load_entries (Field_entry f v # es) p =
     (if pk_field p f \<noteq> None then Dup_field (field_name f)
      else load_entries es (p\<lparr>pk_field := (pk_field p)(f := Some v)\<rparr>))"

lemma escape_hash_simps [simp]:
  "escape_hash [] = []"
  "escape_hash (c # v) = (if c = CHR ''#'' then [bslash, c] else [c]) @ escape_hash v"
  by (simp_all add: escape_hash_def)

lemma escaped_bslash: "escaped (bslash # c # s) = 0 \<or> c = nl \<or> c = cr"
  by (simp add: escaped_def startswith_def)

lemma stripescapes_escape_hash: "bslash \<notin> set v \<Longrightarrow> stripescapes (escape_hash v) = v"
  by (induction v) (auto simp: escaped_def startswith_def)

lemma escape_hash_id: "CHR ''#'' \<notin> set v \<Longrightarrow> escape_hash v = v"
  by (induction v) auto

lemma scan_value_escape_hash:
  assumes "nl \<notin> set v" "bslash \<notin> set v" "v \<noteq> [] \<Longrightarrow> \<not> whitespace (last v)"
  shows "scan_value (escape_hash v @ nl # rest) p e cl =
    (if v = [] then e else p + length (escape_hash v), cl \<or> CHR ''#'' \<in> set v, nl # rest)"
  using assms
proof (induction v arbitrary: p e cl)
  case (Cons c v)
  then have IH: "scan_value (escape_hash v @ nl # rest) p e cl =
    (if v = [] then e else p + length (escape_hash v), cl \<or> CHR ''#'' \<in> set v, nl # rest)" for p e cl
    by (auto split: if_splits)
  show ?case
    using Cons.prems by (cases "v = []") (auto simp: IH Let_def)
qed simp

lemma skip_lead_stays: "s = [] \<or> \<not> whitespace (hd s) \<or> hd s = nl \<Longrightarrow> escaped s = 0 \<Longrightarrow> skip_lead s = s"
  by (cases s) (auto simp: Let_def)

lemma entry_value_plain:
  assumes "plain_value v"
  shows "entry_value (escape_hash v @ nl # rest) = (v, nl # rest)"
    and "entry_value (spc # escape_hash v @ nl # rest) = (v, nl # rest)"
proof -
  have esc: "escaped (escape_hash v @ nl # rest) = 0"
    using assms by (cases v) (auto simp: escaped_def startswith_def plain_value_def)
  have lead: "skip_lead (escape_hash v @ nl # rest) = escape_hash v @ nl # rest"
    using assms esc by (intro skip_lead_stays) (cases v; auto simp: plain_value_def whitespace_def)+
  have val: "scan_value (escape_hash v @ nl # rest) 0 0 False =
      (length (escape_hash v), CHR ''#'' \<in> set v, nl # rest)"
    using assms scan_value_escape_hash[of v rest 0 0 False] by (cases v) (auto simp: plain_value_def)
  show "entry_value (escape_hash v @ nl # rest) = (v, nl # rest)"
    using assms stripescapes_escape_hash[of v] escape_hash_id[of v]
    by (auto simp: entry_value_def Let_def lead val plain_value_def)
  then show "entry_value (spc # escape_hash v @ nl # rest) = (v, nl # rest)"
    by (simp add: entry_value_def whitespace_def)
qed

lemma scan_name_plain:
  assumes "set n \<inter> {nl, CHR ''='', CHR '':''} = {}" "n \<noteq> [] \<Longrightarrow> \<not> whitespace (last n)"
    "sep \<in> {CHR ''='', CHR '':''}"
  shows "scan_name (n @ sep # rest) p e c = (if n = [] then e else p + length n, sep, rest)"
  using assms
proof (induction n arbitrary: p e c)
  case (Cons x n)
  then show ?case by (cases "n = []") auto
qed auto

lemma plain_field_name: "plain_name (field_name f)"
  by (cases f) (auto simp: plain_name_def whitespace_def)

lemma fieldbyname_name: "fieldbyname (field_name f) = Some f"
  by (cases f) (simp_all add: fieldbyname_def all_fields_def)

lemma parse_loop_newline: "parse_loop (nl # s) p = parse_loop s p"
proof (cases "s = []")
  case True
  then show ?thesis
    by (subst parse_loop.simps) (simp add: whitespace_def, simp add: parse_loop.simps)
next
  case False
  then show ?thesis
    by (subst (1 2) parse_loop.simps) (simp add: whitespace_def)
qed

lemma parse_loop_name:
  assumes "plain_name n" "sep \<in> {CHR ''='', CHR '':''}"
  shows "dropWhile whitespace (n @ sep # rest) = n @ sep # rest" "hd (n @ sep # rest) \<noteq> CHR ''#''"
    "scan_name (n @ sep # rest) 0 0 (CHR 0x00) = (length n, sep, rest)"
  using assms by (auto simp: plain_name_def scan_name_plain neq_Nil_conv)

lemma parse_loop_entry:
  assumes "plain_entry e"
  shows "parse_loop (render_entry e @ s) p =
    (case load_entries [e] p of Parsed p' \<Rightarrow> parse_loop s p' | r \<Rightarrow> r)"
proof (cases e)
  case (Var_entry n v)
  with assms have n: "plain_name n" "plain_value v" by auto
  show ?thesis
    using n(1) entry_value_plain(1)[OF n(2), of s]
    by (subst parse_loop.simps)
      (simp add: Var_entry parse_loop_name[OF n(1)] parse_loop_newline Let_def)
next
  case (Field_entry f v)
  with assms have n: "plain_value v" by auto
  show ?thesis
    using entry_value_plain(2)[OF n, of s]
    by (subst parse_loop.simps)
      (simp add: Field_entry parse_loop_name[OF plain_field_name] parse_loop_newline Let_def fieldbyname_name)
qed

theorem parse_rendered:
  "list_all plain_entry es \<Longrightarrow> parse_loop (concat (map render_entry es)) p = load_entries es p"
proof (induction es arbitrary: p)
  case Nil
  then show ?case by (simp add: parse_loop.simps)
next
  case (Cons e es)
  then show ?case
    using parse_loop_entry[of e "concat (map render_entry es)" p] by (cases e) auto
qed

definition entry_vars :: "pc_entry list \<Rightarrow> (string \<times> string) list" where
  "entry_vars es = concat (map (\<lambda>e. case e of Var_entry n v \<Rightarrow> [(n, v)] | _ \<Rightarrow> []) es)"

definition entry_fields :: "pc_entry list \<Rightarrow> (pkg_field \<times> string) list" where
  "entry_fields es = concat (map (\<lambda>e. case e of Field_entry f v \<Rightarrow> [(f, v)] | _ \<Rightarrow> []) es)"

lemma entry_lists_simps [simp]:
  "entry_vars [] = []" "entry_fields [] = []"
  "entry_vars (Var_entry n v # es) = (n, v) # entry_vars es"
  "entry_vars (Field_entry f v # es) = entry_vars es"
  "entry_fields (Var_entry n v # es) = entry_fields es"
  "entry_fields (Field_entry f v # es) = (f, v) # entry_fields es"
  by (simp_all add: entry_vars_def entry_fields_def)

definition loaded :: "pc_entry list \<Rightarrow> pkg \<Rightarrow> pkg \<Rightarrow> bool" where
  "loaded es p q \<longleftrightarrow> pk_contents q = pk_contents p \<and>
     trie_lookup (pk_env q) = trie_lookup (pk_env p) ++ map_of (entry_vars es) \<and>
     pk_field q = pk_field p ++ map_of (entry_fields es)"

lemma map_add_fresh: "k \<notin> dom m \<Longrightarrow> f(k \<mapsto> v) ++ m = (f ++ m)(k \<mapsto> v)"
  by (rule ext) (auto simp: map_add_def split: option.split)

lemma trie_lookup_upd: "trie_lookup (trie_insert n v t) = (trie_lookup t)(n \<mapsto> v)"
  by (rule ext) simp

text \<open>No name repeats, and none is bound already.\<close>

definition unbound :: "pc_entry list \<Rightarrow> pkg \<Rightarrow> bool" where
  "unbound es p \<longleftrightarrow> distinct (map fst (entry_vars es)) \<and> distinct (map fst (entry_fields es)) \<and>
     (\<forall>n \<in> fst ` set (entry_vars es). trie_lookup (pk_env p) n = None) \<and>
     (\<forall>f \<in> fst ` set (entry_fields es). pk_field p f = None)"

lemma unbound_var:
  "unbound (Var_entry n v # es) p \<longleftrightarrow>
   trie_lookup (pk_env p) n = None \<and> unbound es (p\<lparr>pk_env := trie_insert n v (pk_env p)\<rparr>)"
  by (auto simp: unbound_def)

lemma unbound_field:
  "unbound (Field_entry f v # es) p \<longleftrightarrow>
   pk_field p f = None \<and> unbound es (p\<lparr>pk_field := (pk_field p)(f \<mapsto> v)\<rparr>)"
  by (auto simp: unbound_def)

lemma map_of_notin: "k \<notin> fst ` set xs \<Longrightarrow> k \<notin> dom (map_of xs)"
  by (simp add: dom_map_of_conv_image_fst)

lemma load_entries_unbound:
  "unbound es p \<Longrightarrow> \<exists>q. load_entries es p = Parsed q \<and> loaded es p q"
proof (induction es p rule: load_entries.induct)
  case (1 p)
  then show ?case by (simp add: loaded_def)
next
  case (2 n v es p)
  then have n: "n \<notin> dom (map_of (entry_vars es))" by (intro map_of_notin) (simp add: unbound_def)
  from 2 obtain q where "load_entries es (p\<lparr>pk_env := trie_insert n v (pk_env p)\<rparr>) = Parsed q"
    "loaded es (p\<lparr>pk_env := trie_insert n v (pk_env p)\<rparr>) q"
    by (auto simp: unbound_var)
  then show ?case
    using 2(2) n by (auto simp: unbound_var loaded_def trie_lookup_upd map_add_fresh)
next
  case (3 f v es p)
  then have n: "f \<notin> dom (map_of (entry_fields es))" by (intro map_of_notin) (simp add: unbound_def)
  from 3 obtain q where "load_entries es (p\<lparr>pk_field := (pk_field p)(f \<mapsto> v)\<rparr>) = Parsed q"
    "loaded es (p\<lparr>pk_field := (pk_field p)(f \<mapsto> v)\<rparr>) q"
    by (auto simp: unbound_field)
  then show ?case
    using 3(2) n by (auto simp: unbound_field loaded_def map_add_fresh)
qed

lemma load_entries_repeats: "load_entries es p = Parsed q \<Longrightarrow> unbound es p"
proof (induction es p rule: load_entries.induct)
  case (1 p)
  then show ?case by (simp add: unbound_def)
qed (auto simp: unbound_var unbound_field split: if_splits)

end
