(* ===== verification/Level_Order.thy ===== *)
theory Level_Order
  imports Main "HOL-Library.Multiset"
begin

text \<open>
  A well-founded order for loops over an explicit stack of bounded height, as in
  \<open>src/src/pkg-config.c\<close> (\<open>expand\<close> and \<open>process\<close>): the top entry is replaced by a
  smaller one, on which further entries of any size may be pushed while there is room. The
  head of the list is the top of the stack; \<open>sz\<close> measures an entry and \<open>n\<close> is the height.
\<close>

fun level_mset :: "nat \<Rightarrow> ('a \<Rightarrow> nat) \<Rightarrow> 'a list \<Rightarrow> (nat \<times> nat) multiset" where
  "level_mset n sz [] = {#}"
| "level_mset n sz (s # st) = add_mset (n - length st, sz s) (level_mset n sz st)"

definition level_rel :: "nat \<Rightarrow> ('a \<Rightarrow> nat) \<Rightarrow> ('a list \<times> 'a list) set" where
  "level_rel n sz = inv_image (mult (less_than <*lex*> less_than)) (level_mset n sz)"

lemma wf_level_rel [simp, intro]: "wf (level_rel n sz)"
  by (auto simp: level_rel_def intro!: wf_inv_image wf_mult)

lemma level_replace:
  assumes "\<And>x. x \<in># K \<Longrightarrow> (x, (n - length st, sz s)) \<in> less_than <*lex*> less_than"
    "level_mset n sz st' = level_mset n sz st + K"
  shows "(st', s # st) \<in> level_rel n sz"
  using one_step_implies_mult[of "{#(n - length st, sz s)#}" K "less_than <*lex*> less_than" "level_mset n sz st"]
    assms by (auto simp: level_rel_def)

lemma level_pop: "(st, s # st) \<in> level_rel n sz"
  by (rule level_replace[of "{#}"]) auto

lemma level_shrink: "sz t < sz s \<Longrightarrow> (t # st, s # st) \<in> level_rel n sz"
  by (rule level_replace[of "{#(n - length st, sz t)#}"]) auto

lemma level_push: "sz t < sz s \<Longrightarrow> length st < n \<Longrightarrow> (u # t # st, s # st) \<in> level_rel n sz"
  by (rule level_replace[of "{#(n - length st, sz t), (n - Suc (length st), sz u)#}"]) auto

lemma level_push2:
  "sz t < sz s \<Longrightarrow> Suc (length st) < n \<Longrightarrow> (v # u # t # st, s # st) \<in> level_rel n sz"
  by (rule level_replace[of "{#(n - length st, sz t), (n - Suc (length st), sz u), (n - Suc (Suc (length st)), sz v)#}"])
    auto

end
