(* ===== verification/Pkg_Expand.thy ===== *)
theory Pkg_Expand
  imports Pkg_Parse Level_Order
begin

text \<open>
  Variable expansion of \<open>src/src/pkg-config.c\<close> (\<open>expand\<close>): the loop over an explicit stack
  of 128 strings. Its output is shown to be the one that the relation \<open>expands\<close>, the meaning
  of references and escaped dollars, gives to the text.
\<close>

section \<open>Model\<close>

text \<open>The scan for the first \<open>${\<close> or \<open>$$\<close>: what is before it, its second byte, and the rest.\<close>

fun scan_dollar :: "string \<Rightarrow> (string \<times> char \<times> string) option" where
  "scan_dollar (a # b # s) =
     (if a = CHR ''$'' \<and> (b = CHR ''{'' \<or> b = CHR ''$'') then Some ([], b, s)
      else case scan_dollar (b # s) of None \<Rightarrow> None | Some (h, c, r) \<Rightarrow> Some (a # h, c, r))"
| "scan_dollar s = None"

definition pc_lookup :: "string trie \<Rightarrow> string trie \<Rightarrow> string \<Rightarrow> string option" where
  "pc_lookup global env name =
     (case trie_lookup global name of Some v \<Rightarrow> Some v | None \<Rightarrow> trie_lookup env name)"

definition stack_cap :: nat where "stack_cap = 128"

definition not_brace :: "char \<Rightarrow> bool" where
  "not_brace c \<longleftrightarrow> c \<noteq> CHR ''}''"

lemma scan_dollar_shorter: "scan_dollar s = Some (h, c, r) \<Longrightarrow> length r < length s"
  by (induction s arbitrary: h rule: scan_dollar.induct) (auto split: if_splits option.splits prod.splits)

text \<open>The text printed, and the error that stopped it.\<close>

lemma tail_shorter: "length r < n \<Longrightarrow> length (dropWhile not_brace r) - Suc 0 < n"
  using length_dropWhile_le[of not_brace r] by simp

function expand_loop :: "(string \<Rightarrow> string option) \<Rightarrow> string \<Rightarrow> string list \<Rightarrow> string \<times> pkg_error option" where
  "expand_loop lk path [] = ([], None)"
| "expand_loop lk path (s # stack) =
     (case scan_dollar s of
        None \<Rightarrow> let (t, e) = expand_loop lk path stack in (s @ t, e)
      | Some (h, c, rest) \<Rightarrow>
          if c = CHR ''{'' then
            if stack_cap - 1 \<le> length stack then ([], Some (Recursion_in path))
            else
              let name = takeWhile not_brace rest; tail = drop 1 (dropWhile not_brace rest) in
              (case lk name of
                 None \<Rightarrow> (h, Some (Undefined_variable name path))
               | Some v \<Rightarrow> let (t, e) = expand_loop lk path (v # tail # stack) in (h @ t, e))
          else let (t, e) = expand_loop lk path (rest # stack) in (h @ ''$'' @ t, e))"
  by pat_completeness auto

termination
proof (relation "inv_image (level_rel stack_cap length) (\<lambda>(lk, path, st). st)", goal_cases)
  case (3 lk path s stack)
  then show ?case
    by (auto dest!: scan_dollar_shorter intro!: level_push tail_shorter)
qed (auto intro: level_pop level_shrink dest: scan_dollar_shorter)

definition expand :: "string trie \<Rightarrow> pkg \<Rightarrow> string \<Rightarrow> string \<times> pkg_error option" where
  "expand global p str = expand_loop (pc_lookup global (pk_env p)) (pk_path p) [str]"


section \<open>What expansion means\<close>

text \<open>No reference and no escaped dollar in it.\<close>

definition no_dollar :: "string \<Rightarrow> bool" where
  "no_dollar s \<longleftrightarrow> scan_dollar s = None"

inductive expands :: "(string \<Rightarrow> string option) \<Rightarrow> string \<Rightarrow> string \<Rightarrow> bool" for lk where
  plain: "no_dollar s \<Longrightarrow> expands lk s s"
| dollar: "no_dollar (h @ ''$'') \<Longrightarrow> expands lk rest t \<Longrightarrow> expands lk (h @ ''$$'' @ rest) (h @ ''$'' @ t)"
| ref: "no_dollar (h @ ''$'') \<Longrightarrow> CHR ''}'' \<notin> set name \<Longrightarrow> lk name = Some v \<Longrightarrow> expands lk v u \<Longrightarrow>
    expands lk rest t \<Longrightarrow> expands lk (h @ ''${'' @ name @ ''}'' @ rest) (h @ u @ t)"
| open_ref: "no_dollar (h @ ''$'') \<Longrightarrow> CHR ''}'' \<notin> set name \<Longrightarrow> lk name = Some v \<Longrightarrow> expands lk v u \<Longrightarrow>
    expands lk (h @ ''${'' @ name) (h @ u)"

lemma scan_dollar_Some:
  "scan_dollar s = Some (h, c, r) \<longleftrightarrow>
   s = h @ CHR ''$'' # c # r \<and> (c = CHR ''{'' \<or> c = CHR ''$'') \<and> no_dollar (h @ ''$'')"
proof (induction s arbitrary: h rule: scan_dollar.induct)
  case (1 a b s)
  show ?case
  proof (cases h)
    case Nil
    then show ?thesis by (auto simp: no_dollar_def split: option.split)
  next
    case (Cons x h')
    then show ?thesis
      using 1[of h'] by (cases h') (auto simp: no_dollar_def split: option.splits if_splits)
  qed
qed (auto simp: Cons_eq_append_conv)

lemma not_brace_split:
  "s = takeWhile not_brace s \<and> drop 1 (dropWhile not_brace s) = [] \<and> CHR ''}'' \<notin> set s \<or>
   s = takeWhile not_brace s @ ''}'' @ drop 1 (dropWhile not_brace s) \<and> CHR ''}'' \<notin> set (takeWhile not_brace s)"
proof (induction s)
  case (Cons c s)
  then show ?case by (cases "c = CHR ''}''") (auto simp: not_brace_def)
qed simp

lemma expands_ref:
  assumes "scan_dollar s = Some (h, CHR ''{'', rest)" "lk (takeWhile not_brace rest) = Some v"
    "expands lk v u" "expands lk (drop 1 (dropWhile not_brace rest)) t"
  shows "expands lk s (h @ u @ t)"
proof -
  have s: "s = h @ ''${'' @ rest" "no_dollar (h @ ''$'')"
    using assms(1) by (simp_all add: scan_dollar_Some)
  from not_brace_split[of rest] consider
      (closed) "rest = takeWhile not_brace rest @ ''}'' @ drop 1 (dropWhile not_brace rest)"
        "CHR ''}'' \<notin> set (takeWhile not_brace rest)"
    | (unclosed) "rest = takeWhile not_brace rest" "drop 1 (dropWhile not_brace rest) = []" "CHR ''}'' \<notin> set rest"
    by blast
  then show ?thesis
  proof cases
    case closed
    then show ?thesis
      using expands.ref[OF s(2) closed(2) assms(2,3,4)] s(1) by metis
  next
    case unclosed
    have "t = []" using assms(4) unclosed(2) by (auto elim: expands.cases)
    then show ?thesis
      using expands.open_ref[OF s(2) unclosed(3), of lk v u] assms(2,3) unclosed(1) s(1) by simp
  qed
qed

text \<open>The steps of the loop, one equation per case.\<close>

declare expand_loop.simps(2) [simp del]

lemma loop_plain: "scan_dollar s = None \<Longrightarrow> expand_loop lk path (s # st) = apfst ((@) s) (expand_loop lk path st)"
  by (simp add: expand_loop.simps(2) apfst_def map_prod_def split_beta)

lemma loop_dollar: "scan_dollar s = Some (h, CHR ''$'', rest) \<Longrightarrow>
   expand_loop lk path (s # st) = apfst ((@) (h @ ''$'')) (expand_loop lk path (rest # st))"
  by (simp add: expand_loop.simps(2) apfst_def map_prod_def split_beta)

lemma loop_deep: "scan_dollar s = Some (h, CHR ''{'', rest) \<Longrightarrow> stack_cap - 1 \<le> length st \<Longrightarrow>
   expand_loop lk path (s # st) = ([], Some (Recursion_in path))"
  by (simp add: expand_loop.simps(2))

lemma loop_unbound: "scan_dollar s = Some (h, CHR ''{'', rest) \<Longrightarrow> \<not> stack_cap - 1 \<le> length st \<Longrightarrow>
   lk (takeWhile not_brace rest) = None \<Longrightarrow>
   expand_loop lk path (s # st) = (h, Some (Undefined_variable (takeWhile not_brace rest) path))"
  by (simp add: expand_loop.simps(2))

lemma loop_ref: "scan_dollar s = Some (h, CHR ''{'', rest) \<Longrightarrow> \<not> stack_cap - 1 \<le> length st \<Longrightarrow>
   lk (takeWhile not_brace rest) = Some v \<Longrightarrow>
   expand_loop lk path (s # st) =
     apfst ((@) h) (expand_loop lk path (v # drop 1 (dropWhile not_brace rest) # st))"
  by (simp add: expand_loop.simps(2) apfst_def map_prod_def split_beta)

lemma loop_cases:
  obtains (plain) "scan_dollar s = None"
  | (dollar) h rest where "scan_dollar s = Some (h, CHR ''$'', rest)"
  | (deep) h rest where "scan_dollar s = Some (h, CHR ''{'', rest)" "stack_cap - 1 \<le> length st"
  | (unbound) h rest where "scan_dollar s = Some (h, CHR ''{'', rest)" "\<not> stack_cap - 1 \<le> length st"
      "lk (takeWhile not_brace rest) = None"
  | (ref) h rest v where "scan_dollar s = Some (h, CHR ''{'', rest)" "\<not> stack_cap - 1 \<le> length st"
      "lk (takeWhile not_brace rest) = Some v"
proof (cases "scan_dollar s")
  case (Some x)
  then obtain h c rest where x: "scan_dollar s = Some (h, c, rest)" by (cases x) auto
  then have "c = CHR ''{'' \<or> c = CHR ''$''" by (simp add: scan_dollar_Some)
  then show ?thesis
    using x that by (cases "lk (takeWhile not_brace rest)") blast+
qed (rule plain)

lemmas loop_steps = loop_plain loop_dollar loop_deep loop_unbound loop_ref

text \<open>Induction over a run, one case per step.\<close>

lemma loop_induct [case_names empty plain dollar deep unbound ref]:
  assumes "P []"
    and "\<And>s st. scan_dollar s = None \<Longrightarrow> P st \<Longrightarrow> P (s # st)"
    and "\<And>s st h rest. scan_dollar s = Some (h, CHR ''$'', rest) \<Longrightarrow> P (rest # st) \<Longrightarrow> P (s # st)"
    and "\<And>s st h rest. scan_dollar s = Some (h, CHR ''{'', rest) \<Longrightarrow> stack_cap - 1 \<le> length st \<Longrightarrow> P (s # st)"
    and "\<And>s st h rest. scan_dollar s = Some (h, CHR ''{'', rest) \<Longrightarrow> \<not> stack_cap - 1 \<le> length st \<Longrightarrow>
      lk (takeWhile not_brace rest) = None \<Longrightarrow> P (s # st)"
    and "\<And>s st h rest v. scan_dollar s = Some (h, CHR ''{'', rest) \<Longrightarrow> \<not> stack_cap - 1 \<le> length st \<Longrightarrow>
      lk (takeWhile not_brace rest) = Some v \<Longrightarrow> P (v # drop 1 (dropWhile not_brace rest) # st) \<Longrightarrow> P (s # st)"
  shows "P stack"
proof (induction stack rule: wf_induct_rule[OF wf_level_rel[of stack_cap length]])
  case (1 stack)
  show ?case
  proof (cases stack)
    case (Cons s st)
    have IH: "(st', s # st) \<in> level_rel stack_cap length \<Longrightarrow> P st'" for st'
      using 1 Cons by simp
    show ?thesis
      unfolding Cons
    proof (cases rule: loop_cases[where s = s and st = st and lk = lk])
      case plain
      then show "P (s # st)" by (rule assms(2)) (rule IH[OF level_pop])
    next
      case (dollar h rest)
      then show "P (s # st)"
        by (rule assms(3)) (rule IH[OF level_shrink[of length, OF scan_dollar_shorter[OF dollar]]])
    next
      case (deep h rest)
      then show "P (s # st)" by (rule assms(4))
    next
      case (unbound h rest)
      then show "P (s # st)" by (rule assms(5))
    next
      case (ref h rest v)
      have "(v # drop 1 (dropWhile not_brace rest) # st, s # st) \<in> level_rel stack_cap length"
        using ref(2) tail_shorter[OF scan_dollar_shorter[OF ref(1)]] by (intro level_push) auto
      then show "P (s # st)" using assms(6)[of s h rest st v] ref IH by blast
    qed
  qed (use assms(1) in simp)
qed

text \<open>When the loop prints a text without an error, it is the expansion of the strings on the
  stack, one after the other.\<close>

lemma expand_loop_sound:
  "expand_loop lk path stack = (t, None) \<Longrightarrow> \<exists>ts. list_all2 (expands lk) stack ts \<and> t = concat ts"
proof (induction stack arbitrary: t rule: loop_induct[where lk = lk])
  case (plain s st)
  obtain t' where t: "expand_loop lk path st = (t', None)" "t = s @ t'"
    using plain(3) unfolding loop_plain[OF plain(1)] by (cases "expand_loop lk path st") auto
  from plain(2)[OF t(1)] obtain ts where "list_all2 (expands lk) st ts" "t' = concat ts" by blast
  then show ?case
    using t plain(1) by (intro exI[of _ "s # ts"]) (auto simp: no_dollar_def intro: expands.plain)
next
  case (dollar s st h rest)
  obtain t' where t: "expand_loop lk path (rest # st) = (t', None)" "t = h @ ''$'' @ t'"
    using dollar(3) unfolding loop_dollar[OF dollar(1)] by (cases "expand_loop lk path (rest # st)") auto
  from dollar(2)[OF t(1)] obtain w ts where u: "t' = w @ concat ts" "expands lk rest w" "list_all2 (expands lk) st ts"
    by (auto simp: list_all2_Cons1)
  have "s = h @ ''$$'' @ rest" "no_dollar (h @ ''$'')" using dollar(1) by (simp_all add: scan_dollar_Some)
  then have "expands lk s (h @ ''$'' @ w)" using u(2) by (metis expands.dollar)
  then show ?case using u t(2) by (intro exI[of _ "(h @ ''$'' @ w) # ts"]) simp
next
  case (ref s st h rest v)
  let ?tail = "drop 1 (dropWhile not_brace rest)"
  obtain t' where t: "expand_loop lk path (v # ?tail # st) = (t', None)" "t = h @ t'"
    using ref(5) unfolding loop_ref[of s h rest st lk v, OF ref(1,2,3)] by (cases "expand_loop lk path (v # ?tail # st)") auto
  from ref(4)[OF t(1)] obtain u w ts where u: "t' = u @ w @ concat ts" "expands lk v u" "expands lk ?tail w"
    "list_all2 (expands lk) st ts"
    by (auto simp: list_all2_Cons1)
  then show ?case
    using expands_ref[of s h rest lk v u w, OF ref(1,3) u(2,3)] t(2) by (intro exI[of _ "(h @ u @ w) # ts"]) simp
qed (simp_all add: loop_deep loop_unbound)

theorem expand_sound: "expand g p s = (t, None) \<Longrightarrow> expands (pc_lookup g (pk_env p)) s t"
  using expand_loop_sound[of "pc_lookup g (pk_env p)" "pk_path p" "[s]" t]
  by (auto simp: expand_def list_all2_Cons1)

lemma expand_error:
  "expand_loop lk path stack = (t, Some e) \<Longrightarrow>
   e = Recursion_in path \<or> (\<exists>name. e = Undefined_variable name path \<and> lk name = None)"
proof (induction stack arbitrary: t rule: loop_induct[where lk = lk])
  case (plain s st)
  then show ?case by (cases "expand_loop lk path st") (auto simp: loop_plain)
next
  case (dollar s st h rest)
  then show ?case by (cases "expand_loop lk path (rest # st)") (auto simp: loop_dollar)
next
  case (ref s st h rest v)
  then show ?case
    by (cases "expand_loop lk path (v # drop 1 (dropWhile not_brace rest) # st)") (auto simp: loop_ref)
qed (auto simp: loop_deep loop_unbound)

text \<open>Text without references needs no variables; doubling its dollars protects it.\<close>

lemma expand_plain: "no_dollar s \<Longrightarrow> expand g p s = (s, None)"
  by (simp add: expand_def no_dollar_def loop_plain)

definition escape_dollars :: "string \<Rightarrow> string" where
  "escape_dollars s = concat (map (\<lambda>c. if c = CHR ''$'' then ''$$'' else [c]) s)"

lemma scan_dollar_append:
  assumes "CHR ''$'' \<notin> set h"
  shows "scan_dollar s = None \<Longrightarrow> scan_dollar (h @ s) = None"
    and "scan_dollar s = Some (g, c, r) \<Longrightarrow> scan_dollar (h @ s) = Some (h @ g, c, r)"
  using assms
proof (induction h)
  case (Cons x h)
  { case 1 then show ?case using Cons by (cases "h @ s") auto
  next
    case 2 then show ?case using Cons by (cases "h @ s") auto }
qed auto

lemma expand_loop_escaped:
  "expand_loop lk path (escape_dollars s # stack) = apfst ((@) s) (expand_loop lk path stack)"
proof (induction "length s" arbitrary: s rule: less_induct)
  case less
  define h where "h = takeWhile (\<lambda>c. c \<noteq> CHR ''$'') s"
  have h: "CHR ''$'' \<notin> set h" using set_takeWhileD by (fastforce simp: h_def)
  have eh: "escape_dollars (h @ r) = h @ escape_dollars r" for r
    using h by (induction h) (auto simp: escape_dollars_def)
  have nil: "escape_dollars [] = []" by (simp add: escape_dollars_def)
  show ?case
  proof (cases "dropWhile (\<lambda>c. c \<noteq> CHR ''$'') s")
    case Nil
    then have s: "s = h" unfolding h_def by (metis append_Nil2 takeWhile_dropWhile_id)
    have "scan_dollar (h @ []) = None" using scan_dollar_append(1)[OF h, of "[]"] by simp
    then show ?thesis using eh[of "[]"] nil by (simp add: s loop_plain)
  next
    case (Cons c r)
    then have "c = CHR ''$''" by (metis (mono_tags) hd_dropWhile list.distinct(1) list.sel(1))
    then have s: "s = h @ CHR ''$'' # r" unfolding h_def using Cons by (metis takeWhile_dropWhile_id)
    have "scan_dollar (escape_dollars s) = Some (h, CHR ''$'', escape_dollars r)"
      using scan_dollar_append(2)[OF h, of "''$$'' @ escape_dollars r"]
      by (simp add: s eh) (simp add: escape_dollars_def)
    then show ?thesis
      using less[of r] by (simp add: s loop_dollar prod.expand)
  qed
qed

theorem expand_escaped: "expand g p (escape_dollars s) = (s, None)"
  by (simp add: expand_def expand_loop_escaped)

end
