(* ===== verification/Pkg_Process.thy ===== *)
theory Pkg_Process
  imports Pkg_Expand
begin

text \<open>
  Finding and loading packages in \<open>src/src/pkg-config.c\<close>: \<open>readpackage\<close>,
  \<open>findpackage\<close>, \<open>setprefix\<close>, \<open>expandmerge\<close> and \<open>process\<close>, the traversal of
  the requirements with its stack of 256 entries. The system's \<open>os_mapfile\<close> is the argument
  \<open>pv_mapfile\<close>; files do not change during a run. A package is referred to by its name, which
  is its key in the table.
\<close>

section \<open>Finding a package\<close>

datatype filemap = Map_OK string | Map_NOTFOUND | Map_READERR

record processor =
  pv_mapfile :: "string \<Rightarrow> filemap"
  pv_search :: "string list"
  pv_global :: "string trie"
  pv_maxdepth :: int
  pv_define_prefix :: bool
  pv_recursive :: bool
  pv_ignore_versions :: bool

definition builtin_package :: string where
  "builtin_package = ''Name: u-config'' @ [nl] @ ''Version: 0.34.0'' @ [nl] @ ''Description:'' @ [nl]"

text \<open>The path of the message is printed with the terminator it has for the system.\<close>

definition readpackage :: "(string \<Rightarrow> filemap) \<Rightarrow> string \<Rightarrow> string \<Rightarrow> pkg_error + string option" where
  "readpackage mapfile path realname =
     (if realname = ''pkg-config'' then Inr (Some builtin_package)
      else case mapfile path of
          Map_NOTFOUND \<Rightarrow> Inr None
        | Map_READERR \<Rightarrow> Inl (Unreadable_package realname (path @ [CHR 0x00]))
        | Map_OK data \<Rightarrow> Inr (Some data))"

text \<open>The loop over the directories: the last path tried and the contents.\<close>

fun search_dirs :: "(string \<Rightarrow> filemap) \<Rightarrow> string list \<Rightarrow> string \<Rightarrow> string \<times> string option \<Rightarrow>
    pkg_error + string \<times> string option" where
  "search_dirs mapfile [] realname r = Inr r"
| "search_dirs mapfile (d # ds) realname (path, contents) =
     (if contents \<noteq> None then Inr (path, contents)
      else let path = buildpath d realname in
        case readpackage mapfile path realname of
          Inl e \<Rightarrow> Inl e
        | Inr contents \<Rightarrow> search_dirs mapfile ds realname (path, contents))"

definition missing_field :: "pkg \<Rightarrow> string option" where
  "missing_field p =
     (if pk_field p Field_Name = None then Some ''Name''
      else if pk_field p Field_Version = None then Some ''Version''
      else if pk_field p Field_Description = None then Some ''Description'' else None)"

text \<open>What \<open>findpackage\<close> does with the contents it has found.\<close>

definition accept_package :: "string \<Rightarrow> string \<Rightarrow> string \<Rightarrow> pkg_error + pkg" where
  "accept_package path realname contents =
     (case parsepackage contents of
        Dup_variable name \<Rightarrow> Inl (Duplicate_variable name path)
      | Dup_field name \<Rightarrow> Inl (Duplicate_field name path)
      | Parsed p \<Rightarrow>
          let p = p\<lparr>pk_path := path, pk_realname := realname\<rparr>;
              p = p\<lparr>pk_env := trie_insert ''pcfiledir'' (s8pathencode (pc_dirname path)) (pk_env p)\<rparr>
          in case missing_field p of Some f \<Rightarrow> Inl (Missing_field f path) | None \<Rightarrow> Inr p)"

definition findpackage :: "(string \<Rightarrow> filemap) \<Rightarrow> string list \<Rightarrow> string \<Rightarrow> pkg_error + pkg" where
  "findpackage mapfile dirs realname =
     (case (if realnameispath realname
            then case readpackage mapfile realname realname of
                Inl e \<Rightarrow> Inl e
              | Inr contents \<Rightarrow>
                  Inr (realname, contents, if contents \<noteq> None then pathtorealname realname else realname)
            else Inr ([], None, realname)) of
        Inl e \<Rightarrow> Inl e
      | Inr (path, contents, realname) \<Rightarrow>
          (case search_dirs mapfile dirs realname (path, contents) of
             Inl e \<Rightarrow> Inl e
           | Inr (path, None) \<Rightarrow> Inl (Package_not_found realname)
           | Inr (path, Some contents) \<Rightarrow> accept_package path realname contents))"

definition setprefix :: "pkg \<Rightarrow> pkg" where
  "setprefix p =
     (let parent = pc_dirname (pk_path p) in
      if pc_basename parent = ''pkgconfig'' then
        let pre = s8pathencode (pc_dirname (pc_dirname parent))
        in p\<lparr>pk_env := trie_insert ''prefix'' pre (pk_env p)\<rparr>
      else p)"

text \<open>The fields expanded one after the other.\<close>

fun expand_fields :: "string trie \<Rightarrow> pkg \<Rightarrow> pkg_field list \<Rightarrow> pkg \<Rightarrow> pkg_error + pkg" where
  "expand_fields g update [] base = Inr base"
| "expand_fields g update (f # fs) base =
     (case expand g update (text_of (pk_field update f)) of
        (t, Some e) \<Rightarrow> Inl e
      | (t, None) \<Rightarrow> expand_fields g update fs (base\<lparr>pk_field := (pk_field base)(f := Some t)\<rparr>))"

definition expandmerge :: "string trie \<Rightarrow> pkg \<Rightarrow> pkg \<Rightarrow> pkg_error + pkg" where
  "expandmerge g base update =
     (let base = base\<lparr>pk_path := pk_path update, pk_contents := pk_contents update, pk_env := pk_env update,
            pk_direct := pk_direct update, pk_public := pk_public update\<rparr> in
      case expand_fields g update all_fields base of
        Inl e \<Rightarrow> Inl e
      | Inr base \<Rightarrow>
          (case parsespecs [text_of (pk_field base Field_Requires)] (Some (pk_realname base)) of
             Inl e \<Rightarrow> Inl e
           | Inr specs \<Rightarrow>
               let base = base\<lparr>pk_requires := specs\<rparr> in
               (case parsespecs [text_of (pk_field base Field_Requires_private)] (Some (pk_realname base)) of
                  Inl e \<Rightarrow> Inl e
                | Inr specs \<Rightarrow> Inr (base\<lparr>pk_requiresprivate := specs\<rparr>))))"

section \<open>The package table\<close>

record pkgs =
  ps_pkgs :: "pkg trie"
  ps_list :: "string list"
  ps_count :: nat

definition no_pkgs :: pkgs where
  "no_pkgs = \<lparr>ps_pkgs = Null, ps_list = [], ps_count = 0\<rparr>"

text \<open>The package of that name, made when it is not there.\<close>

definition locate :: "pkgs \<Rightarrow> string \<Rightarrow> pkg \<times> pkgs" where
  "locate t realname =
     (case trie_lookup (ps_pkgs t) realname of
        Some p \<Rightarrow> (p, t)
      | None \<Rightarrow>
          let p = empty_pkg\<lparr>pk_realname := realname\<rparr>
          in (p, t\<lparr>ps_pkgs := trie_insert realname p (ps_pkgs t), ps_count := ps_count t + 1\<rparr>))"

text \<open>The assignments through the pointer that \<open>locate\<close> returned.\<close>

definition update_pkg :: "string \<Rightarrow> pkg \<Rightarrow> pkgs \<Rightarrow> pkgs" where
  "update_pkg realname p t = t\<lparr>ps_pkgs := trie_insert realname p (ps_pkgs t)\<rparr>"

definition prepend :: "string \<Rightarrow> pkgs \<Rightarrow> pkgs" where
  "prepend realname t = t\<lparr>ps_list := realname # ps_list t\<rparr>"

definition allpresent :: "pkgs \<Rightarrow> bool" where
  "allpresent t \<longleftrightarrow> length (ps_list t) = ps_count t"

section \<open>The traversal\<close>

record procstate =
  pr_specs :: "pkgspec list"
  pr_newpkg :: "string option"
  pr_depth :: int
  pr_direct :: bool
  pr_public :: bool

definition proc_cap :: nat where "proc_cap = 256"

text \<open>Loading the package of a specification into its place in the table.\<close>

definition load_package :: "processor \<Rightarrow> pkgspec \<Rightarrow> pkg \<Rightarrow> pkg_error + pkg" where
  "load_package pv spec p =
     (case findpackage (pv_mapfile pv) (pv_search pv) (sp_name spec) of
        Inl e \<Rightarrow> Inl e
      | Inr newpkg \<Rightarrow>
          let newpkg = (if pv_define_prefix pv then setprefix newpkg else newpkg) in
          (case expandmerge (pv_global pv) p newpkg of
             Inl e \<Rightarrow> Inl e
           | Inr p \<Rightarrow>
               if sp_op spec \<noteq> Versop_ERR \<and> \<not> pv_ignore_versions pv then
                 let cmp = compareversions (text_of (pk_field p Field_Version)) (text_of (sp_version spec)) in
                 if validcompare (sp_op spec) cmp \<noteq> Some True then
                   Inl (Version_mismatch (pk_realname p) (sp_op spec) (text_of (sp_version spec))
                         (text_of (pk_field p Field_Version)))
                 else Inr p
               else Inr p))"

definition push_requires :: "pkg \<Rightarrow> int \<Rightarrow> bool \<Rightarrow> procstate list \<Rightarrow> procstate list" where
  "push_requires p depth public st =
     \<lparr>pr_specs = pk_requires p, pr_newpkg = None, pr_depth = depth, pr_direct = False, pr_public = public\<rparr> # st"

definition push_private :: "pkg \<Rightarrow> int \<Rightarrow> procstate list \<Rightarrow> procstate list" where
  "push_private p depth st =
     \<lparr>pr_specs = pk_requiresprivate p, pr_newpkg = None, pr_depth = depth, pr_direct = False, pr_public = False\<rparr> # st"

text \<open>One specification of the top entry \<open>s\<close>, which is already advanced past it.\<close>

definition process_spec :: "processor \<Rightarrow> pkgspec \<Rightarrow> procstate \<Rightarrow> procstate list \<Rightarrow> pkgs \<Rightarrow>
    pkg_error + procstate list \<times> pkgs" where
  "process_spec pv spec s st t =
     (let realname = pathtorealname (sp_name spec); (p, t) = locate t realname; depth = pr_depth s + 1;
          descend = (pv_recursive pv \<and> depth < pv_maxdepth pv)
      in if pk_contents p \<noteq> None then
           if pr_public s \<and> \<not> pk_public p then
             if descend then
               if proc_cap - 1 \<le> length st then Inl (Max_recursion (text_of (pk_field p Field_Name)))
               else Inr (push_requires p depth (pr_public s) (s # st),
                      update_pkg realname (p\<lparr>pk_public := True, pk_direct := pk_direct p \<or> pr_direct s\<rparr>) t)
             else Inr (s # st, update_pkg realname (p\<lparr>pk_public := True, pk_direct := pk_direct p \<or> pr_direct s\<rparr>) t)
           else Inr (s # st, update_pkg realname
                  (p\<lparr>pk_public := pk_public p \<or> pr_public s, pk_direct := pk_direct p \<or> pr_direct s\<rparr>) t)
         else
           let s = s\<lparr>pr_newpkg := Some realname\<rparr> in
           case load_package pv spec p of
             Inl e \<Rightarrow> Inl e
           | Inr p \<Rightarrow>
               let t = update_pkg realname
                     (p\<lparr>pk_public := pk_public p \<or> pr_public s, pk_direct := pk_direct p \<or> pr_direct s\<rparr>) t in
               if descend then
                 if proc_cap - 2 \<le> length st then Inl (Max_recursion (text_of (pk_field p Field_Name)))
                 else Inr (push_private p depth (push_requires p depth (pr_public s) (s # st)), t)
               else Inr (s # st, t))"

definition finish_new :: "procstate \<Rightarrow> pkgs \<Rightarrow> procstate \<times> pkgs" where
  "finish_new s t = (case pr_newpkg s of
     None \<Rightarrow> (s, t) | Some n \<Rightarrow> (s\<lparr>pr_newpkg := None\<rparr>, prepend n t))"

lemma finish_new_specs [simp]: "finish_new s t = (s', t') \<Longrightarrow> pr_specs s' = pr_specs s"
  by (auto simp: finish_new_def split: option.splits)

abbreviation spec_count :: "procstate \<Rightarrow> nat" where
  "spec_count s \<equiv> length (pr_specs s)"

lemma process_spec_level:
  assumes "process_spec pv spec (s\<lparr>pr_specs := specs\<rparr>) st t = Inr (st', t')" "length specs < n" "spec_count s0 = n"
  shows "(st', s0 # st) \<in> level_rel proc_cap spec_count"
proof -
  let ?s = "s\<lparr>pr_specs := specs\<rparr>"
  from assms(1) consider
      "st' = ?s # st" | x where "st' = ?s\<lparr>pr_newpkg := x\<rparr> # st"
    | u where "st' = u # ?s # st" "length st < proc_cap"
    | u v x where "st' = v # u # ?s\<lparr>pr_newpkg := x\<rparr> # st" "Suc (length st) < proc_cap"
    by (auto simp: process_spec_def Let_def push_requires_def push_private_def proc_cap_def
        split: prod.splits if_splits sum.splits)
  then show ?thesis
  proof cases
    case 1
    then show ?thesis using assms by (auto intro: level_shrink)
  next
    case 2
    then show ?thesis using assms by (auto intro: level_shrink)
  next
    case (3 u)
    then show ?thesis using assms by (auto intro!: level_push)
  next
    case (4 u v x)
    then show ?thesis using assms by (auto intro!: level_push2)
  qed
qed

function process_loop :: "processor \<Rightarrow> procstate list \<Rightarrow> pkgs \<Rightarrow> pkg_error + pkgs" where
  "process_loop pv [] t = Inr t"
| "process_loop pv (s # st) t =
     (let (s', t') = finish_new s t in
      case pr_specs s' of
        [] \<Rightarrow> process_loop pv st t'
      | spec # specs \<Rightarrow>
          (case process_spec pv spec (s'\<lparr>pr_specs := specs\<rparr>) st t' of
             Inl e \<Rightarrow> Inl e
           | Inr (st', t'') \<Rightarrow> process_loop pv st' t''))"
  by pat_completeness auto
termination
proof (relation "inv_image (level_rel proc_cap spec_count) (\<lambda>(pv, st, t). st)", goal_cases)
  case (3 pv s st t x s' t' spec specs y st' t'')
  then show ?case
    using finish_new_specs[of s t s' t'] by (auto intro!: process_spec_level)
qed (auto intro: level_pop)

definition process :: "processor \<Rightarrow> pkgspec list \<Rightarrow> pkg_error + pkgs" where
  "process pv specs = process_loop pv
     [\<lparr>pr_specs = specs, pr_newpkg = None, pr_depth = 0, pr_direct = True, pr_public = True\<rparr>] no_pkgs"

section \<open>Every package once, and all that it requires\<close>

definition pending :: "procstate list \<Rightarrow> string list" where
  "pending st = concat (map (\<lambda>s. case pr_newpkg s of None \<Rightarrow> [] | Some n \<Rightarrow> [n]) st)"

definition spec_realname :: "pkgspec \<Rightarrow> string" where
  "spec_realname sp = pathtorealname (sp_name sp)"

text \<open>The table: its names are the listed and the pending ones, all loaded.\<close>

definition table_ok :: "procstate list \<Rightarrow> pkgs \<Rightarrow> bool" where
  "table_ok st t \<longleftrightarrow> distinct (pending st @ ps_list t) \<and> ps_count t = length (pending st @ ps_list t) \<and>
     set (pending st @ ps_list t) = dom (trie_lookup (ps_pkgs t)) \<and>
     (\<forall>p \<in> ran (trie_lookup (ps_pkgs t)). pk_contents p \<noteq> None)"

text \<open>A required package is in the table or still on the stack.\<close>

definition awaited :: "procstate list \<Rightarrow> pkgs \<Rightarrow> pkgspec \<Rightarrow> bool" where
  "awaited st t sp \<longleftrightarrow> spec_realname sp \<in> dom (trie_lookup (ps_pkgs t)) \<or> (\<exists>s \<in> set st. sp \<in> set (pr_specs s))"

definition all_requires :: "pkg \<Rightarrow> pkgspec set" where
  "all_requires p = set (pk_requires p) \<union> set (pk_requiresprivate p)"

definition closed_ok :: "procstate list \<Rightarrow> pkgs \<Rightarrow> bool" where
  "closed_ok st t \<longleftrightarrow> (\<forall>p \<in> ran (trie_lookup (ps_pkgs t)). \<forall>sp \<in> all_requires p. awaited st t sp)"

text \<open>The depth of an entry is at most its level, and the stack is not higher than its array.\<close>

fun levels_ok :: "procstate list \<Rightarrow> bool" where
  "levels_ok [] = True"
| "levels_ok (s # st) \<longleftrightarrow> pr_depth s \<le> int (length st) \<and> length st < proc_cap \<and> levels_ok st"

lemma pending_simps [simp]:
  "pending [] = []"
  "pending (s # st) = (case pr_newpkg s of None \<Rightarrow> [] | Some n \<Rightarrow> [n]) @ pending st"
  by (simp_all add: pending_def)

lemma pending_push [simp]:
  "pending (push_requires p d f st) = pending st" "pending (push_private p d st) = pending st"
  by (simp_all add: push_requires_def push_private_def)

text \<open>A step of the parser leaves less text and the same contents.\<close>

lemma parse_loop_step:
  assumes run: "parse_loop s p = Parsed q" and "s \<noteq> []"
  shows "\<exists>s' p'. parse_loop s' p' = Parsed q \<and> length s' < length s \<and> pk_contents p' = pk_contents p"
proof -
  define w where "w = dropWhile whitespace s"
  show ?thesis
  proof (cases "w \<noteq> [] \<and> hd w = CHR ''#''")
    case True
    then have "parse_loop (skip_line w) p = Parsed q"
      using run \<open>s \<noteq> []\<close> by (subst (asm) parse_loop.simps) (simp add: w_def)
    then show ?thesis using True skip_comment_shorter[of s] by (auto simp: w_def)
  next
    case False
    obtain stop c rest where sc: "scan_name w 0 0 (CHR 0x00) = (stop, c, rest)" by (cases "scan_name w 0 0 (CHR 0x00)")
    obtain v rest' where ev: "entry_value rest = (v, rest')" by fastforce
    have len: "length rest < length s" "length rest' < length s"
      using scan_rest_shorter[OF \<open>s \<noteq> []\<close> sc[unfolded w_def]] entry_value_shorter[OF ev] by auto
    have nc: "(w \<noteq> [] \<and> hd w = CHR ''#'') = False" using False by simp
    have "parse_loop s p =
      (if c = CHR ''='' then
         if trie_lookup (pk_env p) (take stop w) \<noteq> None then Dup_variable (take stop w)
         else parse_loop rest' (p\<lparr>pk_env := trie_insert (take stop w) v (pk_env p)\<rparr>)
       else if c = CHR '':'' then
         (case fieldbyname (take stop w) of
            None \<Rightarrow> parse_loop rest' p
          | Some f \<Rightarrow> if pk_field p f \<noteq> None then Dup_field (take stop w)
              else parse_loop rest' (p\<lparr>pk_field := (pk_field p)(f := Some v)\<rparr>))
       else parse_loop rest p)"
      using \<open>s \<noteq> []\<close>
      by (subst parse_loop.simps, simp only: w_def[symmetric] Let_def nc sc ev if_False split_conv)
    then consider p' where "parse_loop rest' p' = Parsed q" "pk_contents p' = pk_contents p"
      | "parse_loop rest p = Parsed q"
      using run by (auto split: if_splits option.splits)
    then show ?thesis using len by (cases) blast+
  qed
qed

lemma parse_loop_contents: "parse_loop s p = Parsed q \<Longrightarrow> pk_contents q = pk_contents p"
proof (induction "length s" arbitrary: s p rule: less_induct)
  case less
  show ?case
  proof (cases "s = []")
    case True
    then show ?thesis using less.prems by (simp add: parse_loop.simps)
  next
    case False
    from parse_loop_step[OF less.prems this] obtain s' p' where
      "parse_loop s' p' = Parsed q" "length s' < length s" "pk_contents p' = pk_contents p" by blast
    then show ?thesis using less.hyps[of s' p'] by simp
  qed
qed

lemma setprefix_contents: "pk_contents (setprefix p) = pk_contents p"
  by (simp add: setprefix_def Let_def)

lemma expand_fields_contents: "expand_fields g u fs b = Inr q \<Longrightarrow> pk_contents q = pk_contents b"
  by (induction g u fs b rule: expand_fields.induct) (auto split: prod.splits option.splits)

lemma findpackage_contents: "findpackage mf dirs n = Inr p \<Longrightarrow> pk_contents p \<noteq> None"
  by (auto simp: findpackage_def accept_package_def parsepackage_def Let_def
      split: sum.splits option.splits prod.splits parseresult.splits if_splits dest!: parse_loop_contents)

lemma expandmerge_contents: "expandmerge g b u = Inr p \<Longrightarrow> pk_contents p = pk_contents u"
  by (auto simp: expandmerge_def Let_def split: sum.splits dest!: expand_fields_contents)

lemma load_package_contents: "load_package pv sp b = Inr p \<Longrightarrow> pk_contents p \<noteq> None"
  by (auto simp: load_package_def Let_def setprefix_contents split: sum.splits if_splits
      dest!: findpackage_contents expandmerge_contents)

text \<open>The table after \<open>locate\<close> and the assignments.\<close>

lemma located:
  assumes "locate t n = (p, t')"
  shows "trie_lookup (ps_pkgs (update_pkg n q t')) = (trie_lookup (ps_pkgs t))(n \<mapsto> q)"
    and "ps_list (update_pkg n q t') = ps_list t"
    and "ps_count (update_pkg n q t') = ps_count t + (if n \<in> dom (trie_lookup (ps_pkgs t)) then 0 else 1)"
    and "trie_lookup (ps_pkgs t) n = Some p \<or> (trie_lookup (ps_pkgs t) n = None \<and> p = empty_pkg\<lparr>pk_realname := n\<rparr>)"
  using assms
  by (auto simp: locate_def update_pkg_def trie_lookup_upd Let_def fun_eq_iff split: option.splits)

text \<open>A successful step: the outcome, with the package that is in the table afterwards.\<close>

lemma process_spec_cases:
  assumes "process_spec pv sp s st t = Inr (st', t')" "pr_newpkg s = None" "table_ok (s # st) t"
  obtains (known) p q where "trie_lookup (ps_pkgs t) (spec_realname sp) = Some p"
      "trie_lookup (ps_pkgs t') = (trie_lookup (ps_pkgs t))(spec_realname sp \<mapsto> q)"
      "pk_contents q = pk_contents p" "all_requires q = all_requires p"
      "ps_list t' = ps_list t" "ps_count t' = ps_count t"
      "st' = s # st \<or> (\<exists>f. length st < proc_cap - 1 \<and> st' = push_requires p (pr_depth s + 1) f (s # st))"
  | (new) q s' where "trie_lookup (ps_pkgs t) (spec_realname sp) = None"
      "trie_lookup (ps_pkgs t') = (trie_lookup (ps_pkgs t))(spec_realname sp \<mapsto> q)"
      "pk_contents q \<noteq> None" "ps_list t' = ps_list t" "ps_count t' = ps_count t + 1"
      "s' = s\<lparr>pr_newpkg := Some (spec_realname sp)\<rparr>"
      "st' = s' # st \<and> \<not> (pv_recursive pv \<and> pr_depth s + 1 < pv_maxdepth pv) \<or>
       (\<exists>f. length st < proc_cap - 2 \<and>
        st' = push_private q (pr_depth s + 1) (push_requires q (pr_depth s + 1) f (s' # st)))"
proof -
  obtain p u where l: "locate t (spec_realname sp) = (p, u)" by fastforce
  note L = located[OF l]
  from L(4) show ?thesis
  proof
    assume p: "trie_lookup (ps_pkgs t) (spec_realname sp) = Some p"
    then have c: "pk_contents p \<noteq> None" using assms(3) by (auto simp: table_ok_def ran_def)
    obtain pub dir where t': "t' = update_pkg (spec_realname sp) (p\<lparr>pk_public := pub, pk_direct := dir\<rparr>) u"
      and st': "st' = s # st \<or> (\<exists>f. length st < proc_cap - 1 \<and> st' = push_requires p (pr_depth s + 1) f (s # st))"
      using assms(1) c l
      by (fastforce simp: process_spec_def Let_def spec_realname_def[symmetric] split: if_splits)
    show ?thesis
      by (rule known[OF p _ _ _ _ _ st', of "p\<lparr>pk_public := pub, pk_direct := dir\<rparr>"])
        (use p in \<open>auto simp: t' L all_requires_def\<close>)
  next
    assume n: "trie_lookup (ps_pkgs t) (spec_realname sp) = None \<and> p = empty_pkg\<lparr>pk_realname := spec_realname sp\<rparr>"
    then have c: "pk_contents p = None" by (simp add: empty_pkg_def)
    obtain q0 where q0: "load_package pv sp p = Inr q0"
      using assms(1) c l by (auto simp: process_spec_def Let_def spec_realname_def[symmetric] split: sum.splits)
    define q where "q = q0\<lparr>pk_public := pk_public q0 \<or> pr_public s, pk_direct := pk_direct q0 \<or> pr_direct s\<rparr>"
    define s' where "s' = s\<lparr>pr_newpkg := Some (spec_realname sp)\<rparr>"
    have push: "push_requires q = push_requires q0" "push_private q = push_private q0"
      by (auto simp: fun_eq_iff push_requires_def push_private_def q_def)
    have t': "t' = update_pkg (spec_realname sp) q u"
      and st': "st' = s' # st \<and> \<not> (pv_recursive pv \<and> pr_depth s + 1 < pv_maxdepth pv) \<or>
       (\<exists>f. length st < proc_cap - 2 \<and>
        st' = push_private q (pr_depth s + 1) (push_requires q (pr_depth s + 1) f (s' # st)))"
      using assms(1) c l q0 unfolding push
      by (auto simp: process_spec_def Let_def spec_realname_def[symmetric] q_def s'_def split: if_splits)
    show ?thesis
      by (rule new[OF _ _ _ _ _ s'_def st'])
        (use n load_package_contents[OF q0] in \<open>auto simp: t' L q_def\<close>)
  qed
qed

lemma finish_new_table:
  assumes "finish_new s t = (s', t')" "table_ok (s # st) t"
  shows "table_ok (s' # st) t'" "pr_newpkg s' = None" "ps_pkgs t' = ps_pkgs t" "pr_depth s' = pr_depth s"
proof -
  have fs: "s' = fst (finish_new s t)" "t' = snd (finish_new s t)" using assms(1) by simp_all
  show "pr_newpkg s' = None" "ps_pkgs t' = ps_pkgs t" "pr_depth s' = pr_depth s"
    unfolding fs by (simp_all add: finish_new_def prepend_def split: option.split)
  show "table_ok (s' # st) t'"
  proof (cases "pr_newpkg s")
    case None
    then show ?thesis using assms(2) by (simp add: fs finish_new_def)
  next
    case (Some n)
    then have "s' = s\<lparr>pr_newpkg := None\<rparr>" "t' = prepend n t"
      by (simp_all add: fs finish_new_def)
    then show ?thesis
      using assms(2) Some unfolding table_ok_def prepend_def by simp
  qed
qed

text \<open>The invariants over a successful step.\<close>

lemma process_spec_inv:
  assumes step: "process_spec pv sp (s\<lparr>pr_specs := specs\<rparr>) st t = Inr (st', t')"
    and specs: "pr_specs s = sp # specs" and new: "pr_newpkg s = None" and tab: "table_ok (s # st) t"
  shows "table_ok st' t'"
    and "awaited (s # st) t x \<Longrightarrow> awaited st' t' x"
    and "levels_ok (s # st) \<Longrightarrow> levels_ok st'"
    and "levels_ok (s # st) \<Longrightarrow> closed_ok (s # st) t \<Longrightarrow> pv_recursive pv \<Longrightarrow> 256 < pv_maxdepth pv \<Longrightarrow> closed_ok st' t'"
proof -
  let ?s = "s\<lparr>pr_specs := specs\<rparr>"
  have tab': "table_ok (?s # st) t" using tab by (simp add: table_ok_def)
  have new': "pr_newpkg ?s = None" using new by simp
  note cases = process_spec_cases[OF step new' tab']
  have push: "set (push_requires p d f r) = insert \<lparr>pr_specs = pk_requires p, pr_newpkg = None, pr_depth = d,
       pr_direct = False, pr_public = f\<rparr> (set r)"
    "set (push_private p d r) = insert \<lparr>pr_specs = pk_requiresprivate p, pr_newpkg = None, pr_depth = d,
       pr_direct = False, pr_public = False\<rparr> (set r)" for p d f r
    by (simp_all add: push_requires_def push_private_def)
  have frames: "\<exists>b. set st \<subseteq> set st' \<and> ?s\<lparr>pr_newpkg := b\<rparr> \<in> set st'"
  proof (cases rule: cases)
    case (1 p q)
    then show ?thesis using new by (intro exI[of _ None]) (auto simp: push)
  next
    case (2 q s')
    then show ?thesis by (intro exI[of _ "Some (spec_realname sp)"]) (auto simp: push)
  qed
  then obtain b where frames: "set st \<subseteq> set st'" "?s\<lparr>pr_newpkg := b\<rparr> \<in> set st'" by blast
  have dom: "dom (trie_lookup (ps_pkgs t')) = insert (spec_realname sp) (dom (trie_lookup (ps_pkgs t)))"
    by (rule cases) auto
  have await: "awaited st' t' x" if "awaited (s # st) t x" for x
  proof -
    from that consider "spec_realname x \<in> dom (trie_lookup (ps_pkgs t))" | "x = sp" | "x \<in> set specs"
      | u where "u \<in> set st" "x \<in> set (pr_specs u)"
      by (auto simp: awaited_def specs)
    then show ?thesis
    proof cases
      case 3
      then show ?thesis using frames(2) by (auto simp: awaited_def intro!: bexI[OF _ frames(2)])
    next
      case 4
      then show ?thesis using frames(1) by (auto simp: awaited_def)
    qed (use dom in \<open>auto simp: awaited_def\<close>)
  qed
  then show "awaited (s # st) t x \<Longrightarrow> awaited st' t' x" .
  show "table_ok st' t'"
  proof (rule cases, goal_cases)
    case (1 p q)
    then have "pending st' = pending st" using new by auto
    moreover have "dom (trie_lookup (ps_pkgs t')) = dom (trie_lookup (ps_pkgs t))" using 1 dom by auto
    moreover have "\<forall>p \<in> ran (trie_lookup (ps_pkgs t')). pk_contents p \<noteq> None"
      using 1 tab by (auto simp: table_ok_def ran_def split: if_splits)
    ultimately show ?thesis using 1 tab new by (simp add: table_ok_def)
  next
    case (2 q s')
    then have "pending st' = spec_realname sp # pending st" by auto
    moreover have "\<forall>p \<in> ran (trie_lookup (ps_pkgs t')). pk_contents p \<noteq> None"
      using 2 tab by (auto simp: table_ok_def ran_def split: if_splits)
    ultimately show ?thesis using 2 tab new dom by (auto simp: table_ok_def)
  qed
  show "levels_ok st'" if "levels_ok (s # st)"
    using that by (rule_tac cases) (auto simp: push_requires_def push_private_def proc_cap_def)
  show "closed_ok st' t'" if "levels_ok (s # st)" "closed_ok (s # st) t" "pv_recursive pv" "256 < pv_maxdepth pv"
  proof (rule cases, goal_cases)
    case (1 p q)
    then show ?thesis
      using that(2) await by (fastforce simp: closed_ok_def ran_def split: if_splits)
  next
    case (2 q s')
    have "pv_recursive pv \<and> pr_depth s + 1 < pv_maxdepth pv"
      using that by (auto simp: proc_cap_def)
    then obtain f where st': "st' = push_private q (pr_depth s + 1) (push_requires q (pr_depth s + 1) f (s' # st))"
      using 2(7) by auto
    have "awaited st' t' x" if "x \<in> all_requires q" for x
      using that unfolding awaited_def st' push by (auto simp: all_requires_def)
    then show ?thesis
      using that(2) await 2(2) by (fastforce simp: closed_ok_def ran_def split: if_splits)
  qed
qed

lemma process_loop_inv:
  "process_loop pv st t = Inr t' \<Longrightarrow> table_ok st t \<Longrightarrow>
   table_ok [] t' \<and> (\<forall>x. awaited st t x \<longrightarrow> awaited [] t' x) \<and>
   (levels_ok st \<longrightarrow> closed_ok st t \<longrightarrow> pv_recursive pv \<longrightarrow> 256 < pv_maxdepth pv \<longrightarrow> closed_ok [] t')"
proof (induction pv st t rule: process_loop.induct)
  case (2 pv s st t)
  obtain s' u where f: "finish_new s t = (s', u)" by fastforce
  note F = finish_new_table[OF f "2.prems"(2)]
  have sp: "pr_specs s' = pr_specs s" using f by simp
  have aw: "awaited (s # st) t x \<Longrightarrow> awaited (s' # st) u x" for x by (simp add: awaited_def F(3) sp)
  have lv: "levels_ok (s # st) \<Longrightarrow> levels_ok (s' # st)" by (simp add: F(4))
  have cl: "closed_ok (s # st) t \<Longrightarrow> closed_ok (s' # st) u" using aw by (simp add: closed_ok_def F(3))
  show ?case
  proof (cases "pr_specs s'")
    case Nil
    have "process_loop pv st u = Inr t'" using "2.prems"(1) f Nil by simp
    moreover have "table_ok st u" using F(1,2) by (simp add: table_ok_def)
    ultimately have IH: "table_ok [] t' \<and> (\<forall>x. awaited st u x \<longrightarrow> awaited [] t' x) \<and>
        (levels_ok st \<longrightarrow> closed_ok st u \<longrightarrow> pv_recursive pv \<longrightarrow> 256 < pv_maxdepth pv \<longrightarrow> closed_ok [] t')"
      using "2.IH"(1)[OF f[symmetric] refl Nil] by blast
    have drop: "awaited (s' # st) u x \<Longrightarrow> awaited st u x" for x using Nil by (simp add: awaited_def)
    have "closed_ok (s' # st) u \<Longrightarrow> closed_ok st u" using drop by (simp add: closed_ok_def)
    then show ?thesis using IH aw drop cl by auto
  next
    case (Cons spec specs)
    obtain st' t'' where step: "process_spec pv spec (s'\<lparr>pr_specs := specs\<rparr>) st u = Inr (st', t'')"
        "process_loop pv st' t'' = Inr t'"
      using "2.prems"(1) f Cons by (auto split: sum.splits prod.splits)
    note I = process_spec_inv[OF step(1) Cons F(2) F(1)]
    have "table_ok [] t' \<and> (\<forall>x. awaited st' t'' x \<longrightarrow> awaited [] t' x) \<and>
        (levels_ok st' \<longrightarrow> closed_ok st' t'' \<longrightarrow> pv_recursive pv \<longrightarrow> 256 < pv_maxdepth pv \<longrightarrow> closed_ok [] t')"
      using "2.IH"(2)[OF f[symmetric] refl Cons step(1) refl step(2) I(1)] .
    then show ?thesis using I(2,3,4) aw lv cl by blast
  qed
qed (simp add: table_ok_def)

lemma package_process_result:
  assumes "process pv specs = Inr t"
  shows "allpresent t" "distinct (ps_list t)" "set (ps_list t) = dom (trie_lookup (ps_pkgs t))"
    and "sp \<in> set specs \<Longrightarrow> spec_realname sp \<in> set (ps_list t)"
    and "pv_recursive pv \<Longrightarrow> 256 < pv_maxdepth pv \<Longrightarrow> trie_lookup (ps_pkgs t) n = Some p \<Longrightarrow>
      sp \<in> all_requires p \<Longrightarrow> spec_realname sp \<in> set (ps_list t)"
proof -
  let ?st = "[\<lparr>pr_specs = specs, pr_newpkg = None, pr_depth = 0, pr_direct = True, pr_public = True\<rparr>]"
  have init: "table_ok ?st no_pkgs" "levels_ok ?st" "closed_ok ?st no_pkgs"
    by (auto simp: table_ok_def no_pkgs_def closed_ok_def proc_cap_def ran_def dom_def)
  note P = process_loop_inv[OF assms[unfolded process_def] init(1)]
  show "allpresent t" "distinct (ps_list t)" and list: "set (ps_list t) = dom (trie_lookup (ps_pkgs t))"
    using P by (auto simp: table_ok_def allpresent_def)
  show "spec_realname sp \<in> set (ps_list t)" if "sp \<in> set specs"
    using P that by (auto simp: awaited_def list)
  show "spec_realname sp \<in> set (ps_list t)"
    if "pv_recursive pv" "256 < pv_maxdepth pv" "trie_lookup (ps_pkgs t) n = Some p" "sp \<in> all_requires p"
    using P init that by (fastforce simp: closed_ok_def awaited_def list ran_def)
qed

section \<open>A sample for concrete runs\<close>

definition sample_processor :: processor where
  "sample_processor =
     \<lparr>pv_mapfile = (\<lambda>path. if path = ''d/a.pc''
        then Map_OK (''Name: a'' @ [nl] @ ''Version: 1'' @ [nl] @ ''Description: x'' @ [nl] @
               ''Requires: pkg-config >= 0.2'' @ [nl])
        else Map_NOTFOUND),
      pv_search = [''d''], pv_global = Null, pv_maxdepth = 1000, pv_define_prefix = False,
      pv_recursive = True, pv_ignore_versions = False\<rparr>"

end
