(* ===== verification/Pkg_Args.thy ===== *)
theory Pkg_Args
  imports Pkg_Parse
begin

text \<open>
  The compiler and linker arguments of \<open>src/src/pkg-config.c\<close>: \<open>dequote\<close> splits a
  field into words for a shell, \<open>filterok\<close> and \<open>msvcize\<close> select and translate them,
  and \<open>appendarg\<close>, \<open>excludearg\<close>, \<open>inposition\<close> and \<open>writeargs\<close> print each of them
  once. The words are shown to be safe for a shell, and the positions to be the first
  occurrences, or the last ones of libraries.
\<close>

section \<open>Words\<close>

abbreviation apos :: char where "apos \<equiv> CHR 0x27"
abbreviation dquot :: char where "dquot \<equiv> CHR 0x22"
abbreviation no_char :: char where "no_char \<equiv> CHR 0x00"

definition shell_metas :: string where
  "shell_metas = [dquot, CHR ''!'', CHR ''#'', CHR ''%'', CHR ''&'', apos, CHR ''*'', CHR ''<'', CHR ''>'',
     CHR ''?'', CHR ''['', bslash, CHR '']'', CHR 0x60, CHR ''{'', CHR ''|'', CHR ''}'']"

definition shellmeta :: "char \<Rightarrow> bool" where
  "shellmeta c \<longleftrightarrow> list_ex (\<lambda>m. m = c \<or> pathdecode c \<noteq> c) shell_metas"

text \<open>One byte inside or outside quotes: the output, the open quote and the escape flag.\<close>

definition dequote_step :: "char \<Rightarrow> string \<times> char \<times> bool \<Rightarrow> string \<times> char \<times> bool" where
  "dequote_step c st = (case st of (mem, quote, esc) \<Rightarrow>
     let decoded = pathdecode c in
     if quote = apos then
       if c = apos then (mem, no_char, esc)
       else if c = spc \<or> shellmeta c then (mem @ [bslash, decoded], quote, esc)
       else (mem @ [decoded], quote, esc)
     else if quote = dquot then
       if esc then
         (mem @ (if c \<noteq> bslash \<and> c \<noteq> dquot then bslash # (if c = spc \<or> shellmeta c then [bslash] else []) else [])
            @ [decoded], quote, False)
       else if c = dquot then (mem, no_char, esc)
       else if c = spc \<or> shellmeta c then (mem @ [bslash, decoded], quote, esc)
       else (mem @ [decoded], quote, c = bslash)
     else if c = apos \<or> c = dquot then (mem, c, esc)
     else if shellmeta c then (mem @ [bslash, decoded], quote, esc)
     else (mem @ [c], quote, esc))"

text \<open>The loop; outside quotes a space ends the word.\<close>

fun dequote_loop :: "string \<Rightarrow> string \<times> char \<times> bool \<Rightarrow> string \<times> char \<times> string" where
  "dequote_loop [] (mem, quote, esc) = (mem, quote, [])"
| "dequote_loop (b # s) (mem, quote, esc) =
     (let c = (if whitespace b then spc else b) in
      if quote \<noteq> apos \<and> quote \<noteq> dquot \<and> c = spc then (mem, quote, b # s)
      else dequote_loop s (dequote_step c (mem, quote, esc)))"

text \<open>The word and the rest of the field; \<open>None\<close> for an open quote.\<close>

definition dequote :: "string \<Rightarrow> (string \<times> string) option" where
  "dequote s =
     (let (arg, quote, tail) = dequote_loop (dropWhile whitespace s) ([], no_char, False) in
      if quote \<noteq> no_char then None else Some (arg, tail))"

section \<open>Filters\<close>

datatype arg_filter = Filter_ANY | Filter_I | Filter_L | Filter_l | Filter_OTHERC | Filter_OTHERL

fun filterok :: "arg_filter \<Rightarrow> string \<Rightarrow> bool" where
  "filterok Filter_ANY arg = True"
| "filterok Filter_I arg = startswith arg ''-I''"
| "filterok Filter_L arg = startswith arg ''-L''"
| "filterok Filter_l arg = startswith arg ''-l''"
| "filterok Filter_OTHERC arg = (\<not> startswith arg ''-I'')"
| "filterok Filter_OTHERL arg = (\<not> startswith arg ''-L'' \<and> \<not> startswith arg ''-l'')"

definition msvcize :: "string \<Rightarrow> string" where
  "msvcize arg =
     (if startswith arg ''-L'' then ''/libpath:'' @ drop 2 arg
      else if startswith arg ''-I'' then ''/I'' @ drop 2 arg
      else if startswith arg ''-l'' then drop 2 arg @ ''.lib''
      else if startswith arg ''-D'' then ''/D'' @ drop 2 arg
      else if arg = ''-mwindows'' then ''/subsystem:windows''
      else if arg = ''-mconsole'' then ''/subsystem:console''
      else arg)"

section \<open>Argument lists\<close>

record arg_list =
  al_list :: "string list"
  al_positions :: "int trie"
  al_count :: int

definition no_args :: arg_list where
  "no_args = \<lparr>al_list = [], al_positions = Null, al_count = 0\<rparr>"

definition dedupable :: "string \<Rightarrow> bool" where
  "dedupable arg =
     (if length arg < 3 \<or> hd arg \<noteq> CHR ''-'' then False
      else if arg = ''-pthread'' then True
      else arg ! 1 \<in> set ''DILflm'')"

text \<open>The position of a node that \<open>findargpos\<close> has just made is zero.\<close>

definition argpos :: "arg_list \<Rightarrow> string \<Rightarrow> int" where
  "argpos a arg = (case trie_lookup (al_positions a) arg of None \<Rightarrow> 0 | Some p \<Rightarrow> p)"

definition appendarg :: "string \<Rightarrow> arg_list \<Rightarrow> arg_list" where
  "appendarg arg a =
     (let position = al_count a;
          b = a\<lparr>al_list := al_list a @ [arg], al_count := al_count a + 1\<rparr>
      in if dedupable arg \<and> (argpos a arg = 0 \<or> startswith arg ''-l'')
         then b\<lparr>al_positions := trie_insert arg (1 + position) (al_positions b)\<rparr> else b)"

definition excludearg :: "string \<Rightarrow> arg_list \<Rightarrow> arg_list" where
  "excludearg arg a = a\<lparr>al_positions := trie_insert arg (-1) (al_positions a)\<rparr>"

definition inposition :: "arg_list \<Rightarrow> string \<Rightarrow> int \<Rightarrow> bool" where
  "inposition a arg position =
     (case trie_lookup (al_positions a) arg of None \<Rightarrow> True | Some p \<Rightarrow> p = position + 1)"

text \<open>The directories of a search path that are not to be printed with the given flag.\<close>

function insertsyspath :: "string \<Rightarrow> char \<Rightarrow> char \<Rightarrow> arg_list \<Rightarrow> arg_list" where
  "insertsyspath path delim flag a =
     (if path = [] then a
      else let (dir, tail, ok) = s8cut path delim in
        if dir = [] then insertsyspath tail delim flag a
        else insertsyspath tail delim flag
          (case dequote (CHR ''-'' # flag # s8pathencode dir) of
             Some (syspath, []) \<Rightarrow> excludearg syspath a
           | _ \<Rightarrow> a))"
  by pat_completeness auto
termination
  by (relation "measure (\<lambda>(path, d, f, a). length path)") (auto simp: s8cut_tail_shorter)

declare insertsyspath.simps [simp del]

lemma dequote_loop_shorter: "dequote_loop s st = (arg, q, tail) \<Longrightarrow> length tail \<le> length s"
  by (induction s st arbitrary: arg q tail rule: dequote_loop.induct)
    (auto simp: Let_def split: if_splits prod.splits intro: le_SucI)

lemma dequote_shorter: "dequote s = Some (arg, tail) \<Longrightarrow> s \<noteq> [] \<Longrightarrow> length tail < length s"
proof -
  assume a: "dequote s = Some (arg, tail)" "s \<noteq> []"
  then obtain q where r: "dequote_loop (dropWhile whitespace s) ([], no_char, False) = (arg, q, tail)"
    by (auto simp: dequote_def Let_def split: prod.splits if_splits)
  show ?thesis
  proof (cases "dropWhile whitespace s")
    case Nil
    then show ?thesis using r a by (simp del: dropWhile_eq_Nil_conv)
  next
    case (Cons b t)
    then have "\<not> whitespace b" by (metis hd_dropWhile list.distinct(1) list.sel(1))
    then have "b \<noteq> spc" by (auto simp: whitespace_def)
    with r Cons \<open>\<not> whitespace b\<close> have "length tail \<le> length t"
      by (auto simp: Let_def dest: dequote_loop_shorter)
    also have "length t < length s" using length_dropWhile_le[of whitespace s] Cons by simp
    finally show ?thesis .
  qed
qed

function appendfield :: "string \<Rightarrow> arg_filter \<Rightarrow> string \<Rightarrow> arg_list \<Rightarrow> pkg_error + arg_list" where
  "appendfield realname f field a =
     (if field = [] then Inr a
      else case dequote field of
          None \<Rightarrow> Inl (Unmatched_quote realname)
        | Some (arg, tail) \<Rightarrow> appendfield realname f tail (if filterok f arg then appendarg arg a else a))"
  by pat_completeness auto
termination
  by (relation "measure (\<lambda>(n, f, field, a). length field)") (auto simp: dequote_shorter)

declare appendfield.simps [simp del]

text \<open>The text printed and the number of arguments printed so far.\<close>

fun writeargs_loop :: "char \<Rightarrow> bool \<Rightarrow> arg_list \<Rightarrow> string list \<Rightarrow> int \<Rightarrow> nat \<Rightarrow> string \<times> nat" where
  "writeargs_loop delim msvc a [] position argcount = ([], argcount)"
| "writeargs_loop delim msvc a (arg # rest) position argcount =
     (if inposition a arg position then
        let (t, n) = writeargs_loop delim msvc a rest (position + 1) (argcount + 1)
        in ((if argcount \<noteq> 0 then [delim] else []) @ (if msvc then msvcize arg else arg) @ t, n)
      else writeargs_loop delim msvc a rest (position + 1) argcount)"

definition writeargs :: "char \<Rightarrow> bool \<Rightarrow> nat \<Rightarrow> arg_list \<Rightarrow> string \<times> nat" where
  "writeargs delim msvc argcount a =
     writeargs_loop (if delim \<noteq> no_char then delim else spc) msvc a (al_list a) 0 argcount"

section \<open>The words are safe for a shell\<close>

text \<open>Every space and meta character is escaped.\<close>

definition shell_active :: "char \<Rightarrow> bool" where
  "shell_active c \<longleftrightarrow> whitespace c \<or> c \<in> set shell_metas"

fun shell_safe :: "string \<Rightarrow> bool" where
  "shell_safe [] = True"
| "shell_safe [c] = (\<not> shell_active c)"
| "shell_safe (a # b # s) = (if a = bslash then shell_safe s else \<not> shell_active a \<and> shell_safe (b # s))"

text \<open>The text a shell reads from it.\<close>

fun shell_unescape :: "string \<Rightarrow> string" where
  "shell_unescape [] = []"
| "shell_unescape [c] = [c]"
| "shell_unescape (a # b # s) = (if a = bslash then b # shell_unescape s else a # shell_unescape (b # s))"

lemma shell_active_bslash: "shell_active bslash"
  by (simp add: shell_active_def shell_metas_def)

lemma shell_safe_append: "shell_safe xs \<Longrightarrow> shell_safe ys \<Longrightarrow> shell_safe (xs @ ys)"
proof (induction xs rule: shell_safe.induct)
  case (2 c)
  then show ?case using shell_active_bslash by (cases ys) auto
qed (auto split: if_splits)

lemma shell_unescape_append:
  "shell_safe xs \<Longrightarrow> shell_unescape (xs @ ys) = shell_unescape xs @ shell_unescape ys"
proof (induction xs rule: shell_safe.induct)
  case (2 c)
  then show ?case using shell_active_bslash by (cases ys) auto
qed (auto split: if_splits)

lemma shellmeta_iff: "shellmeta c \<longleftrightarrow> c \<in> set shell_metas \<or> pathdecode c \<noteq> c"
  by (auto simp: shellmeta_def shell_metas_def)

lemma not_meta_inactive: "\<not> shellmeta c \<Longrightarrow> c \<noteq> spc \<Longrightarrow> \<not> whitespace c \<Longrightarrow> \<not> shell_active c \<and> pathdecode c = c"
  by (auto simp: shellmeta_iff shell_active_def)

text \<open>One step adds an escaped byte or an inactive one. The escape flag stays off: a backslash
  is itself a meta character.\<close>

lemma dequote_step_cases:
  assumes "dequote_step c (mem, q, False) = (mem', q', esc')" "\<not> whitespace c \<or> c = spc"
    "q = apos \<or> q = dquot \<or> c \<noteq> spc" "q \<in> {no_char, apos, dquot}"
  shows "\<not> esc' \<and> q' \<in> {no_char, apos, dquot} \<and> (\<exists>t. mem' = mem @ t \<and> shell_safe t \<and>
    shell_unescape t = (if q' = q then [pathdecode c] else []))"
proof -
  have m: "shellmeta bslash" by (simp add: shellmeta_iff shell_metas_def)
  have ws: "c = spc \<or> \<not> whitespace c" using assms(2) by blast
  show ?thesis
    using assms m not_meta_inactive[of c]
    by (auto simp: dequote_step_def Let_def whitespace_def split: if_splits intro: exI[of _ "[]"])
qed

lemma dequote_loop_safe:
  "dequote_loop s (mem, q, False) = (arg, q', tail) \<Longrightarrow> q \<in> {no_char, apos, dquot} \<Longrightarrow> shell_safe mem \<Longrightarrow>
   shell_safe arg \<and> (tail = [] \<or> whitespace (hd tail))"
proof (induction s arbitrary: mem q)
  case (Cons b s)
  define c where "c = (if whitespace b then spc else b)"
  show ?case
  proof (cases "q \<noteq> apos \<and> q \<noteq> dquot \<and> c = spc")
    case True
    then show ?thesis using Cons.prems by (auto simp: c_def whitespace_def split: if_splits)
  next
    case False
    obtain mem' q2 esc where st: "dequote_step c (mem, q, False) = (mem', q2, esc)" by (cases "dequote_step c (mem, q, False)")
    have "\<not> whitespace c \<or> c = spc" by (simp add: c_def)
    from dequote_step_cases[OF st this] False Cons.prems(2) obtain t
      where t: "\<not> esc" "q2 \<in> {no_char, apos, dquot}" "mem' = mem @ t" "shell_safe t" by auto
    have "dequote_loop s (mem', q2, False) = (arg, q', tail)"
      using Cons.prems(1) False st t(1) by (auto simp: c_def Let_def)
    then show ?thesis
      using Cons.IH[OF _ t(2)] t(3,4) Cons.prems(3) by (simp add: shell_safe_append)
  qed
qed simp

theorem dequote_safe:
  "dequote s = Some (arg, tail) \<Longrightarrow> shell_safe arg \<and> (tail = [] \<or> whitespace (hd tail))"
  using dequote_loop_safe[of "dropWhile whitespace s" "[]" no_char]
  by (auto simp: dequote_def Let_def split: prod.splits if_splits)

text \<open>Outside quotes, bytes that are neither quotes nor spaces come out one by one.\<close>

lemma dequote_loop_plain:
  "set s \<inter> {apos, dquot} = {} \<Longrightarrow> \<forall>c \<in> set s. \<not> whitespace c \<Longrightarrow> shell_safe mem \<Longrightarrow>
   \<exists>arg. dequote_loop s (mem, no_char, False) = (arg, no_char, []) \<and>
     shell_unescape arg = shell_unescape mem @ map pathdecode s"
proof (induction s arbitrary: mem)
  case (Cons c s)
  obtain mem' q2 esc where st: "dequote_step c (mem, no_char, False) = (mem', q2, esc)"
    by (cases "dequote_step c (mem, no_char, False)")
  have q2: "q2 = no_char" using st Cons.prems(1) by (auto simp: dequote_step_def Let_def split: if_splits)
  have nw: "\<not> whitespace c" "c \<noteq> spc" using Cons.prems(2) by (auto simp: whitespace_def)
  from dequote_step_cases[OF st] nw q2 obtain t
    where t: "\<not> esc" "mem' = mem @ t" "shell_safe t" "shell_unescape t = [pathdecode c]" by auto
  obtain arg where "dequote_loop s (mem', no_char, False) = (arg, no_char, [])"
    "shell_unescape arg = shell_unescape mem' @ map pathdecode s"
    using Cons.IH[of mem'] Cons.prems t by (auto simp: shell_safe_append)
  then show ?case
    using nw st q2 t Cons.prems(3) by (auto simp: Let_def shell_unescape_append)
qed simp

text \<open>An encoded path is one word, and the shell reads the path from it.\<close>

theorem encoded_path_word:
  assumes "p \<noteq> []" "set p \<inter> {apos, dquot} = {}" "\<forall>c \<in> set p. pathdecode c = c"
  shows "\<exists>arg. dequote (s8pathencode p) = Some (arg, []) \<and> shell_safe arg \<and> shell_unescape arg = p"
proof -
  have ws: "\<forall>c \<in> set (map pathencode p). \<not> whitespace c" by (auto simp: encoded_no_space)
  have "set (map pathencode p) \<inter> {apos, dquot} = {}"
    using assms(2) by (auto simp: pathencode_def split: if_splits)
  from dequote_loop_plain[OF this ws, of "[]"] obtain arg
    where r: "dequote_loop (map pathencode p) ([], no_char, False) = (arg, no_char, [])"
      "shell_unescape arg = map pathdecode (map pathencode p)" by auto
  have "map pathdecode (map pathencode p) = p"
    using assms(3) by (simp add: map_idI pathdecode_pathencode)
  moreover have "dropWhile whitespace (map pathencode p) = map pathencode p"
    using ws by (cases p) auto
  ultimately have "dequote (s8pathencode p) = Some (arg, [])" "shell_unescape arg = p"
    using r by (simp_all add: dequote_def s8pathencode_map)
  then show ?thesis using dequote_safe by blast
qed

section \<open>Each argument once\<close>

text \<open>The position the code keeps for an argument after appending \<open>xs\<close>, with the arguments
  of \<open>excl\<close> excluded before: its first occurrence, the last one for a library.\<close>

definition first_index :: "string \<Rightarrow> string list \<Rightarrow> nat" where
  "first_index x xs = length (takeWhile (\<lambda>y. y \<noteq> x) xs)"

definition last_index :: "string \<Rightarrow> string list \<Rightarrow> nat" where
  "last_index x xs = length xs - 1 - length (takeWhile (\<lambda>y. y \<noteq> x) (rev xs))"

definition is_lib :: "string \<Rightarrow> bool" where
  "is_lib arg \<longleftrightarrow> startswith arg ''-l''"

definition kept_position :: "string set \<Rightarrow> string list \<Rightarrow> string \<Rightarrow> int option" where
  "kept_position excl xs arg =
     (if dedupable arg \<and> arg \<in> set xs \<and> (is_lib arg \<or> arg \<notin> excl)
      then Some (1 + int (if is_lib arg then last_index arg xs else first_index arg xs))
      else if arg \<in> excl then Some (-1) else None)"

definition positions_inv :: "string set \<Rightarrow> string list \<Rightarrow> arg_list \<Rightarrow> bool" where
  "positions_inv excl xs a \<longleftrightarrow> al_list a = xs \<and> al_count a = int (length xs) \<and>
     trie_lookup (al_positions a) = kept_position excl xs"

lemma index_append:
  "first_index x (xs @ [y]) = (if x \<in> set xs then first_index x xs else length xs + (if x = y then 0 else 1))"
  "last_index x (xs @ [y]) = (if x = y then length xs else if x \<in> set xs then last_index x xs else 0)"
proof -
  have tw: "x \<notin> set xs \<Longrightarrow> takeWhile (\<lambda>y. y \<noteq> x) (rev xs) = rev xs"
    by (subst takeWhile_eq_all_conv) auto
  show "first_index x (xs @ [y]) = (if x \<in> set xs then first_index x xs else length xs + (if x = y then 0 else 1))"
    "last_index x (xs @ [y]) = (if x = y then length xs else if x \<in> set xs then last_index x xs else 0)"
    unfolding first_index_def last_index_def by (auto simp: takeWhile_append tw)
qed

lemma positions_inv_exclude:
  "positions_inv excl [] a \<Longrightarrow> positions_inv (insert x excl) [] (excludearg x a)"
  by (auto simp: positions_inv_def excludearg_def trie_lookup_upd kept_position_def fun_eq_iff)

lemma positions_inv_append:
  assumes "positions_inv excl xs a"
  shows "positions_inv excl (xs @ [arg]) (appendarg arg a)"
proof -
  have pos: "trie_lookup (al_positions a) = kept_position excl xs" "al_count a = int (length xs)" "al_list a = xs"
    using assms by (simp_all add: positions_inv_def)
  have upd: "dedupable arg \<and> (argpos a arg = 0 \<or> startswith arg ''-l'') \<longleftrightarrow>
      dedupable arg \<and> (is_lib arg \<or> (arg \<notin> set xs \<and> arg \<notin> excl))"
    by (auto simp: argpos_def pos kept_position_def is_lib_def split: option.split)
  have kept: "kept_position excl (xs @ [arg]) = (if dedupable arg \<and> (is_lib arg \<or> (arg \<notin> set xs \<and> arg \<notin> excl))
      then (kept_position excl xs)(arg \<mapsto> 1 + int (length xs)) else kept_position excl xs)"
    by (rule ext) (auto simp: kept_position_def index_append)
  show ?thesis
  proof (cases "dedupable arg \<and> (is_lib arg \<or> (arg \<notin> set xs \<and> arg \<notin> excl))")
    case True
    then show ?thesis
      unfolding positions_inv_def appendarg_def Let_def upd kept by (simp only: if_True) (simp add: pos trie_lookup_upd)
  next
    case False
    then show ?thesis
      unfolding positions_inv_def appendarg_def Let_def upd kept by (simp only: if_False) (simp add: pos)
  qed
qed

lemma positions_inv_new: "positions_inv {} [] no_args"
  by (auto simp: positions_inv_def no_args_def kept_position_def fun_eq_iff)

lemma positions_inv_excludes:
  "positions_inv s [] b \<Longrightarrow> positions_inv (set excl \<union> s) [] (fold excludearg excl b)"
proof (induction excl arbitrary: b s)
  case (Cons x excl)
  from Cons.IH[OF positions_inv_exclude[OF Cons.prems, of x]] show ?case by simp
qed simp

lemma positions_inv_appends: "positions_inv s ys b \<Longrightarrow> positions_inv s (ys @ xs) (fold appendarg xs b)"
proof (induction xs arbitrary: b ys)
  case (Cons x xs)
  from Cons.IH[OF positions_inv_append[OF Cons.prems, of x]] show ?case by simp
qed simp

text \<open>The arguments printed, as a list.\<close>

fun written :: "arg_list \<Rightarrow> string list \<Rightarrow> int \<Rightarrow> string list" where
  "written a [] position = []"
| "written a (arg # rest) position =
     (if inposition a arg position then arg # written a rest (position + 1) else written a rest (position + 1))"

definition join_args :: "char \<Rightarrow> bool \<Rightarrow> bool \<Rightarrow> string list \<Rightarrow> string" where
  "join_args delim msvc sep args =
     (let ts = map (\<lambda>a. if msvc then msvcize a else a) args in
      case ts of [] \<Rightarrow> [] | t # ts \<Rightarrow> (if sep then [delim] else []) @ t @ concat (map (\<lambda>t. delim # t) ts))"

lemma writeargs_loop_written:
  "writeargs_loop delim msvc a args position n =
     (join_args delim msvc (n \<noteq> 0) (written a args position), n + length (written a args position))"
proof (induction args arbitrary: position n)
  case (Cons arg args)
  have j: "join_args delim msvc True ts = concat (map (\<lambda>t. delim # (if msvc then msvcize t else t)) ts)" for ts
    by (cases ts) (simp_all add: join_args_def Let_def comp_def)
  show ?case
    by (auto simp: Cons j) (auto simp: join_args_def Let_def comp_def)
qed (simp add: join_args_def)

lemma written_filter:
  "written a args position =
   map snd (filter (\<lambda>(i, x). inposition a x (position + int i)) (zip [0..<length args] args))"
proof (induction args arbitrary: position)
  case (Cons x args)
  have "zip [0..<length (x # args)] (x # args) = (0, x) # map (\<lambda>(i, y). (Suc i, y)) (zip [0..<length args] args)"
    by (simp del: upt_Suc add: upt_conv_Cons map_Suc_upt[symmetric] zip_map1)
  then show ?case
    by (auto simp: Cons filter_map comp_def split_beta add.assoc add.commute[of 1])
qed simp

lemma index_nth:
  assumes "x \<in> set xs"
  shows "first_index x xs < length xs \<and> xs ! first_index x xs = x"
    and "last_index x xs < length xs \<and> xs ! last_index x xs = x"
  using assms
proof (induction xs rule: rev_induct)
  case (snoc y xs)
  { case 1 then show ?case using snoc by (auto simp: index_append nth_append)
  next
    case 2 then show ?case using snoc by (auto simp: index_append nth_append) }
qed simp_all

lemma count_written:
  "count_list (written a args 0) x = card {i. i < length args \<and> args ! i = x \<and> inposition a x (int i)}"
proof -
  have "count_list (written a args 0) x =
      length (filter (\<lambda>(i, y). inposition a y (int i) \<and> y = x) (zip [0..<length args] args))"
    by (simp add: written_filter count_list_eq_length_filter filter_map comp_def case_prod_unfold conj_commute
        eq_commute[of x])
  also have "\<dots> = card {i. i < length args \<and> args ! i = x \<and> inposition a x (int i)}"
    by (subst length_filter_conv_card) (auto intro!: arg_cong[of _ _ card] simp: split_beta)
  finally show ?thesis .
qed

theorem written_once:
  assumes "positions_inv excl xs a"
  shows "dedupable x \<Longrightarrow> x \<in> set xs \<Longrightarrow> x \<notin> excl \<Longrightarrow> count_list (written a xs 0) x = 1"
    and "\<not> dedupable x \<Longrightarrow> x \<notin> excl \<Longrightarrow> count_list (written a xs 0) x = count_list xs x"
    and "x \<in> excl \<Longrightarrow> \<not> is_lib x \<Longrightarrow> x \<notin> set (written a xs 0)"
proof -
  have inp: "inposition a x p = (case kept_position excl xs x of None \<Rightarrow> True | Some q \<Rightarrow> q = p + 1)" for p
    using assms by (simp add: inposition_def positions_inv_def)
  show "count_list (written a xs 0) x = 1" if "dedupable x" "x \<in> set xs" "x \<notin> excl"
  proof -
    define k where "k = (if is_lib x then last_index x xs else first_index x xs)"
    have k: "k < length xs" "xs ! k = x" using index_nth[OF that(2)] by (auto simp: k_def)
    have "{i. i < length xs \<and> xs ! i = x \<and> inposition a x (int i)} = {k}"
      using k that by (auto simp: inp kept_position_def k_def[symmetric])
    then show ?thesis by (simp add: count_written)
  qed
  show "count_list (written a xs 0) x = count_list xs x" if "\<not> dedupable x" "x \<notin> excl"
    using that unfolding count_written
    by (simp add: inp kept_position_def count_list_eq_length_filter length_filter_conv_card eq_commute[of x])
  show "x \<notin> set (written a xs 0)" if "x \<in> excl" "\<not> is_lib x"
    using that count_list_0_iff[of "written a xs 0" x]
    by (simp add: count_written inp kept_position_def)
qed

end
