(* ===== verification/Bit_Arith.thy ===== *)
theory Bit_Arith
  imports Quilt_Prelude "HOL-Library.Word"
begin

text \<open>
  Bit operations on integers as arithmetic, shared by the text codings and the number parsers
  of the C programs.
\<close>

unbundle bit_operations_syntax

lemma or_shift: "0 \<le> (b :: int) \<Longrightarrow> b < 2 ^ n \<Longrightarrow> push_bit n a OR b = a * 2 ^ n + b"
proof -
  assume "0 \<le> b" "b < 2 ^ n"
  then have "take_bit n b = b" by (simp add: take_bit_int_eq_self)
  then have "\<not> bit (push_bit n a) k \<or> \<not> bit b k" for k
    by (metis bit_push_bit_iff bit_take_bit_iff not_le)
  then have "push_bit n a + b = push_bit n a OR b" by (rule disjunctive_add)
  then show ?thesis by (simp add: push_bit_eq_mult)
qed

end
