(* ===== verification/Rexxd_Text.thy ===== *)
theory Rexxd_Text
  imports Bit_Arith
begin

text \<open>
  The text functions of \<open>src/src/rexxd.c\<close>: the octet searches that work on eight bytes at a
  time in one 64-bit word (\<open>hasoctet\<close>, \<open>cut\<close>, \<open>hexdumplen\<close>, \<open>hexdumptrim\<close>), the number
  parsers (\<open>nibbleval\<close>, \<open>parseoffet\<close>, \<open>parse64\<close>) and the number printers. Bytes are
  characters, \<open>u64\<close> is \<^typ>\<open>64 word\<close>; a signed offset is an integer with its overflow test
  as in the code. The lemmas show that the word tricks compute the plain searches.
\<close>

unbundle bit_operations_syntax

section \<open>Model\<close>

definition lohex :: string where "lohex = ''0123456789abcdef''"
definition uphex :: string where "uphex = ''0123456789ABCDEF''"

definition ascii_table :: "nat list" where "ascii_table = [
   46, 46, 46, 46, 46, 46, 46, 46, 46, 46, 46, 46, 46, 46, 46, 46, 46, 46, 46, 46, 46, 46, 46, 46,
   46, 46, 46, 46, 46, 46, 46, 46, 32, 33, 34, 35, 36, 37, 38, 39, 40, 41, 42, 43, 44, 45, 46, 47,
   48, 49, 50, 51, 52, 53, 54, 55, 56, 57, 58, 59, 60, 61, 62, 63, 64, 65, 66, 67, 68, 69, 70, 71,
   72, 73, 74, 75, 76, 77, 78, 79, 80, 81, 82, 83, 84, 85, 86, 87, 88, 89, 90, 91, 92, 93, 94, 95,
   96, 97, 98, 99, 100, 101, 102, 103, 104, 105, 106, 107, 108, 109, 110, 111, 112, 113, 114, 115, 116, 117, 118, 119,
   120, 121, 122, 123, 124, 125, 126, 46, 46, 46, 46, 46, 46, 46, 46, 46, 46, 46, 46, 46, 46, 46, 46, 46,
   46, 46, 46, 46, 46, 46, 46, 46, 46, 46, 46, 46, 46, 46, 46, 46, 46, 46, 46, 46, 46, 46, 46, 46,
   46, 46, 46, 46, 46, 46, 46, 46, 46, 46, 46, 46, 46, 46, 46, 46, 46, 46, 46, 46, 46, 46, 46, 46,
   46, 46, 46, 46, 46, 46, 46, 46, 46, 46, 46, 46, 46, 46, 46, 46, 46, 46, 46, 46, 46, 46, 46, 46,
   46, 46, 46, 46, 46, 46, 46, 46, 46, 46, 46, 46, 46, 46, 46, 46, 46, 46, 46, 46, 46, 46, 46, 46,
   46, 46, 46, 46, 46, 46, 46, 46, 46, 46, 46, 46, 46, 46, 46, 46]"

definition ebcdic_table :: "nat list" where "ebcdic_table = [
   46, 46, 46, 46, 46, 46, 46, 46, 46, 46, 46, 46, 46, 46, 46, 46, 46, 46, 46, 46, 46, 46, 46, 46,
   46, 46, 46, 46, 46, 46, 46, 46, 46, 46, 46, 46, 46, 46, 46, 46, 46, 46, 46, 46, 46, 46, 46, 46,
   46, 46, 46, 46, 46, 46, 46, 46, 46, 46, 46, 46, 46, 46, 46, 46, 32, 46, 46, 46, 46, 46, 46, 46,
   46, 46, 46, 46, 60, 40, 43, 46, 38, 46, 46, 46, 46, 46, 46, 46, 46, 46, 33, 36, 42, 41, 59, 94,
   45, 47, 46, 46, 46, 46, 46, 46, 46, 46, 124, 44, 37, 95, 62, 63, 46, 46, 46, 46, 46, 46, 46, 46,
   46, 96, 58, 35, 64, 39, 61, 34, 46, 97, 98, 99, 100, 101, 102, 103, 104, 105, 46, 46, 46, 46, 46, 46,
   46, 106, 107, 108, 109, 110, 111, 112, 113, 114, 46, 46, 46, 46, 46, 46, 46, 126, 115, 116, 117, 118, 119, 120,
   121, 122, 46, 46, 46, 91, 46, 46, 46, 46, 46, 46, 46, 46, 46, 46, 46, 46, 46, 46, 46, 93, 46, 46,
   123, 65, 66, 67, 68, 69, 70, 71, 72, 73, 46, 46, 46, 46, 46, 46, 125, 74, 75, 76, 77, 78, 79, 80,
   81, 82, 46, 46, 46, 46, 46, 46, 92, 46, 83, 84, 85, 86, 87, 88, 89, 90, 46, 46, 46, 46, 46, 46,
   48, 49, 50, 51, 52, 53, 54, 55, 56, 57, 46, 46, 46, 46, 46, 46]"

definition display_of :: "nat list \<Rightarrow> char \<Rightarrow> char" where
  "display_of table c = char_of (table ! of_char c)"

text \<open>The two hexadecimal digits of a byte.\<close>

definition hexpair :: "string \<Rightarrow> char \<Rightarrow> string" where
  "hexpair hexset v = [hexset ! (of_char v div 16), hexset ! (of_char v mod 16)]"

definition cuthead :: "string \<Rightarrow> nat \<Rightarrow> string" where
  "cuthead s len = drop len s"

definition load8 :: "string \<Rightarrow> 64 word" where
  "load8 s =
     push_bit 0 (of_char (s ! 0)) OR push_bit 8 (of_char (s ! 1)) OR
     push_bit 16 (of_char (s ! 2)) OR push_bit 24 (of_char (s ! 3)) OR
     push_bit 32 (of_char (s ! 4)) OR push_bit 40 (of_char (s ! 5)) OR
     push_bit 48 (of_char (s ! 6)) OR push_bit 56 (of_char (s ! 7))"

definition hasoctet :: "string \<Rightarrow> 64 word \<Rightarrow> bool" where
  "hasoctet s permute =
     (let x = load8 s XOR permute;
          x = x OR (drop_bit 4 x AND 0x0f0f0f0f0f0f0f0f);
          x = x OR (drop_bit 2 x AND 0x0303030303030303);
          x = x OR drop_bit 1 x;
          x = x AND 0x0101010101010101
      in x \<noteq> 0x0101010101010101)"

text \<open>The length of the leading blocks without the octet.\<close>

function cut_blocks :: "64 word \<Rightarrow> string \<Rightarrow> nat" where
  "cut_blocks permute s =
     (if 8 \<le> length s \<and> \<not> hasoctet s permute then 8 + cut_blocks permute (drop 8 s) else 0)"
  by pat_completeness auto
termination
  by (relation "measure (\<lambda>(p, s). length s)") auto

declare cut_blocks.simps [simp del]

definition cut_len :: "char \<Rightarrow> string \<Rightarrow> nat" where
  "cut_len c s =
     (let n = cut_blocks (0x0101010101010101 * of_char c) s in n + length (takeWhile (\<lambda>x. x \<noteq> c) (drop n s)))"

text \<open>\<open>Cut\<close>: head, tail, and whether the octet was found.\<close>

definition cut :: "string \<Rightarrow> char \<Rightarrow> string \<times> string \<times> bool" where
  "cut s c = (let n = cut_len c s; ok = n < length s in (take n s, drop (n + (if ok then 1 else 0)) s, ok))"

definition xwhitespace :: "char \<Rightarrow> bool" where
  "xwhitespace c \<longleftrightarrow> c = tab \<or> c = nl \<or> c = cr \<or> c = spc"

definition xtrim :: "string \<Rightarrow> string" where
  "xtrim s = rev (dropWhile xwhitespace (rev (dropWhile xwhitespace s)))"

definition allzeros :: "string \<Rightarrow> bool" where
  "allzeros s \<longleftrightarrow> foldl (\<lambda>c d. c OR of_char d) (0 :: 8 word) s = 0"

definition nibbleval :: "char \<Rightarrow> int" where
  "nibbleval c =
     (let v = of_char c :: int in
      if 48 \<le> v \<and> v \<le> 57 then v - 48
      else if 97 \<le> v \<and> v \<le> 102 then v - 97 + 10
      else if 65 \<le> v \<and> v \<le> 70 then v - 65 + 10
      else -1)"

datatype parse_status = PARSE_INVALID | PARSE_OK | PARSE_OVERFLOW

fun parseoffet_loop :: "int \<Rightarrow> string \<Rightarrow> parse_status option \<times> int" where
  "parseoffet_loop off [] = (None, off)"
| "parseoffet_loop off (d # s) =
     (let c = nibbleval d in
      if c < 0 then (Some PARSE_INVALID, off)
      else if drop_bit (63 - 4) off \<noteq> 0 then (Some PARSE_OVERFLOW, off)
      else parseoffet_loop (push_bit 4 off OR c) s)"

definition parseoffet :: "string \<Rightarrow> parse_status \<times> int" where
  "parseoffet s = (case parseoffet_loop 0 s of
      (Some st, off) \<Rightarrow> (st, off)
    | (None, off) \<Rightarrow> (if s \<noteq> [] then PARSE_OK else PARSE_INVALID, off))"

text \<open>\<open>u8 c = s.data[i] - '0'\<close> is the difference modulo 256.\<close>

definition minus0 :: "char \<Rightarrow> int" where
  "minus0 c = (of_char c - 48) mod 256"

fun parse_octal :: "int \<Rightarrow> string \<Rightarrow> int option" where
  "parse_octal v [] = Some v"
| "parse_octal v (d # s) =
     (let c = minus0 d in
      if 7 < c then None
      else if drop_bit (63 - 3) v \<noteq> 0 then None
      else parse_octal (push_bit 3 v OR c) s)"

fun parse_decimal :: "int \<Rightarrow> string \<Rightarrow> int option" where
  "parse_decimal v [] = Some v"
| "parse_decimal v (d # s) =
     (let c = minus0 d in
      if 9 < c then None
      else if (2 ^ 63 - 1 - c) div 10 < v then None
      else parse_decimal (v * 10 + c) s)"

text \<open>\<open>None\<close> is \<open>ok == 0\<close>.\<close>

definition parse64 :: "string \<Rightarrow> int option" where
  "parse64 s =
     (if 2 < length s \<and> s ! 0 = CHR ''0'' \<and> (s ! 1 = CHR ''x'' \<or> s ! 1 = CHR ''X'') then
        case parseoffet (cuthead s 2) of (st, off) \<Rightarrow> if st = PARSE_OK then Some off else None
      else if 1 < length s \<and> s ! 0 = CHR ''0'' then parse_octal 0 (drop 1 s)
      else if s \<noteq> [] then parse_decimal 0 s else None)"

definition lens_table :: "nat list" where "lens_table = [
   0, 1, 2, 2, 0, 3, 3, 3, 0, 1, 4, 4, 0, 4, 4, 4, 0, 1, 2, 2, 0, 5, 5, 5,
   0, 1, 5, 5, 0, 5, 5, 5, 0, 1, 2, 2, 0, 3, 3, 3, 0, 1, 6, 6, 0, 6, 6, 6,
   0, 1, 2, 2, 0, 6, 6, 6, 0, 1, 6, 6, 0, 6, 6, 6, 0, 1, 2, 2, 0, 3, 3, 3,
   0, 1, 4, 4, 0, 4, 4, 4, 0, 1, 2, 2, 0, 8, 8, 8, 0, 1, 8, 8, 0, 8, 8, 8,
   0, 1, 2, 2, 0, 3, 3, 3, 0, 1, 8, 8, 0, 8, 8, 8, 0, 1, 2, 2, 0, 8, 8, 8,
   0, 1, 8, 8, 0, 8, 8, 8, 0, 1, 2, 2, 0, 3, 3, 3, 0, 1, 4, 4, 0, 4, 4, 4,
   0, 1, 2, 2, 0, 5, 5, 5, 0, 1, 5, 5, 0, 5, 5, 5, 0, 1, 2, 2, 0, 3, 3, 3,
   0, 1, 8, 8, 0, 8, 8, 8, 0, 1, 2, 2, 0, 8, 8, 8, 0, 1, 8, 8, 0, 8, 8, 8,
   0, 1, 2, 2, 0, 3, 3, 3, 0, 1, 4, 4, 0, 4, 4, 4, 0, 1, 2, 2, 0, 8, 8, 8,
   0, 1, 8, 8, 0, 8, 8, 8, 0, 1, 2, 2, 0, 3, 3, 3, 0, 1, 8, 8, 0, 8, 8, 8,
   0, 1, 2, 2, 0, 8, 8, 8, 0, 1, 8, 8, 0, 8, 8, 8]"

definition hexdumplen :: "string \<Rightarrow> nat" where
  "hexdumplen s =
     (let x = load8 s XOR 0x2020202020202020;
          x = x OR 0x8080808080808080;
          x = x - 0x0101010101010101;
          x = x AND 0x8080808080808080;
          x = x * 0x0002040810204081
      in lens_table ! unat (drop_bit 56 x))"

text \<open>Steps of seven over the line; the last block is filled with spaces. The result is the
  length of the view, which may reach one byte past the line.\<close>

function hexdumptrim_loop :: "nat \<Rightarrow> string \<Rightarrow> nat" where
  "hexdumptrim_loop n s =
     (if n + 7 < length s then
        let len = hexdumplen (drop n s) in if len < 8 then n + len else hexdumptrim_loop (n + 7) s
      else n + hexdumplen (drop n s @ replicate (8 - (length s - n)) spc))"
  by pat_completeness auto
termination
  by (relation "measure (\<lambda>(n, s). length s - n)") auto

declare hexdumptrim_loop.simps [simp del]

definition hexdumptrim :: "string \<Rightarrow> nat" where
  "hexdumptrim s = hexdumptrim_loop 0 s"

section \<open>Printers\<close>

text \<open>Sixteen digits of the offset, or the last eight of a small one.\<close>

definition printhexoff :: "64 word \<Rightarrow> string" where
  "printhexoff x =
     (let hex = concat (map (\<lambda>i. hexpair lohex (char_of (unat (drop_bit (56 - i * 8) x)))) [0..<8])
      in drop (if x < 0x100000000 then 8 else 0) hex)"

text \<open>The digits of \<open>printu64\<close>, without and with the padding.\<close>

function u64digits :: "nat \<Rightarrow> string" where
  "u64digits x = (if x div 10 = 0 then [] else u64digits (x div 10)) @ [char_of (48 + x mod 10)]"
  by pat_completeness auto
termination
  by (relation "measure id") auto

declare u64digits.simps [simp del]

definition printu64 :: "64 word \<Rightarrow> nat \<Rightarrow> string" where
  "printu64 x minwidth = (let s = u64digits (unat x) in replicate (minwidth - length s) (CHR ''0'') @ s)"

definition printi64 :: "int \<Rightarrow> string" where
  "printi64 x = (if x < 0 then ''-'' else []) @ u64digits (nat \<bar>x\<bar>)"

definition printoffset :: "64 word \<Rightarrow> bool \<Rightarrow> string" where
  "printoffset offset decimal = (if decimal then printu64 offset 8 else printhexoff offset)"

text \<open>The pieces \<open>printq\<close> prints for a quoted string.\<close>

fun printq :: "bool \<Rightarrow> string \<Rightarrow> string" where
  "printq pending_null [] = (if pending_null then bslash # ''0'' else [])"
| "printq pending_null (c # s) =
     (if pending_null then bslash # (if char_in (CHR ''0'') (CHR ''7'') c then ''x00'' else ''0'') else []) @
     (if c = CHR 0x00 then printq True s
      else (if c = tab then bslash # ''t''
            else if c = nl then bslash # ''n''
            else if c = cr then bslash # ''r''
            else if c = CHR 0x22 then [bslash, CHR 0x22]
            else if c = bslash then [bslash, bslash]
            else if (of_char c :: nat) < 32 \<or> 127 \<le> (of_char c :: nat) then bslash # CHR ''x'' # hexpair lohex c
            else [c]) @ printq False s)"

section \<open>Lemmas: the octet search\<close>

lemma bit_of_char_word: "bit (of_char c :: 64 word) n \<longleftrightarrow> n < 8 \<and> bit (of_char c :: 8 word) n"
  unfolding of_char_def bit_horner_sum_bit_word_iff by auto

definition octet :: "nat \<Rightarrow> 64 word \<Rightarrow> 8 word" where
  "octet k x = ucast (drop_bit (8 * k) x)"

lemma bit_octet: "bit (octet k x) j \<longleftrightarrow> j < 8 \<and> bit x (8 * k + j)"
  by (simp add: octet_def bit_ucast_iff bit_drop_bit_eq)

text \<open>A word built from its octets, the lowest first.\<close>

fun octets :: "char list \<Rightarrow> 64 word" where
  "octets [] = 0"
| "octets (c # cs) = of_char c OR push_bit 8 (octets cs)"

lemma octets_plus: "octets (c # cs) = of_char c + 256 * octets cs"
proof -
  have "of_char c + push_bit 8 (octets cs) = of_char c OR push_bit 8 (octets cs)"
    by (rule disjunctive_add) (auto simp: bit_simps bit_of_char_word)
  then show ?thesis by (simp add: push_bit_eq_mult mult.commute)
qed

lemma octet_octets: "k < 8 \<Longrightarrow> k < length cs \<Longrightarrow> octet k (octets cs) = of_char (cs ! k)"
proof (induction cs arbitrary: k)
  case (Cons c cs)
  show ?case
  proof (cases k)
    case 0
    show ?thesis unfolding 0 by (rule bit_word_eqI) (auto simp: bit_octet bit_simps bit_of_char_word)
  next
    case (Suc j)
    have "octet k (octets (c # cs)) = octet j (octets cs)"
      using Cons.prems(1) unfolding Suc
      by (intro bit_word_eqI) (auto simp: bit_octet bit_simps bit_of_char_word)
    then show ?thesis using Cons Suc by simp
  qed
qed simp

lemma load8_octets: "load8 s = octets (map ((!) s) [0..<8])"
proof -
  have "[0..<8] = [0, 1, 2, 3, 4, 5, 6, 7]" by (simp add: upt_rec)
  then show ?thesis by (simp add: load8_def push_bit_or or.assoc)
qed

lemma octet_load8: "k < 8 \<Longrightarrow> octet k (load8 s) = of_char (s ! k)"
  by (simp add: load8_octets octet_octets)

lemma octet_eqI: "(\<And>k. k < 8 \<Longrightarrow> octet k x = octet k y) \<Longrightarrow> x = y"
proof (rule bit_word_eqI)
  fix n assume o: "\<And>k. k < 8 \<Longrightarrow> octet k x = octet k y" and n: "n < LENGTH(64)"
  then have "bit (octet (n div 8) x) (n mod 8) = bit (octet (n div 8) y) (n mod 8)" by simp
  then show "bit x n = bit y n" by (simp add: bit_octet)
qed

text \<open>The comparator is the octet in all eight places.\<close>

lemma permute_octets: "0x0101010101010101 * of_char c = octets (replicate 8 c)"
proof -
  have "replicate 8 c = [c, c, c, c, c, c, c, c]" by (simp add: numeral_eq_Suc)
  then show ?thesis by (simp only: octets_plus octets.simps(1)) (simp add: algebra_simps)
qed

lemma octet_permute: "k < 8 \<Longrightarrow> octet k (0x0101010101010101 * of_char c) = of_char c"
  by (simp add: permute_octets octet_octets)

lemma octet_masks:
  assumes "k < 8"
  shows "octet k 0x0101010101010101 = 1" "octet k 0x0f0f0f0f0f0f0f0f = 0x0f" "octet k 0x0303030303030303 = 0x03"
    "octet k 0x2020202020202020 = 0x20" "octet k 0x8080808080808080 = 0x80"
  using octet_permute[OF assms, of "CHR 0x01"] octet_permute[OF assms, of "CHR 0x0F"]
    octet_permute[OF assms, of "CHR 0x03"] octet_permute[OF assms, of "CHR 0x20"] octet_permute[OF assms, of "CHR 0x80"]
  by simp_all

lemma octet_bitwise:
  "octet k (x XOR y) = octet k x XOR octet k y"
  "octet k (x AND y) = octet k x AND octet k y"
  "octet k (x OR y) = octet k x OR octet k y"
  by (rule bit_word_eqI; auto simp: bit_octet bit_simps)+

text \<open>What a shift by less than eight brings into the low bits of an octet.\<close>

lemma octet_drop: "octet k (drop_bit i x) AND mask (8 - i) = drop_bit i (octet k x)"
  by (rule bit_word_eqI) (auto simp: bit_octet bit_and_iff bit_drop_bit_eq bit_mask_iff ac_simps)

text \<open>The fold of an octet onto its lowest bit.\<close>

definition fold_octet :: "8 word \<Rightarrow> 8 word" where
  "fold_octet x =
     (let x = x OR (drop_bit 4 x AND 0x0f); x = x OR (drop_bit 2 x AND 0x03); x = x OR drop_bit 1 x in x AND 1)"

text \<open>A fact about all octets is 256 computations.\<close>

lemma all_octets: "\<forall>n \<in> set [0..<256]. P (word_of_nat n) \<Longrightarrow> P (x :: 8 word)"
proof -
  assume a: "\<forall>n \<in> set [0..<256]. P (word_of_nat n)"
  have "unat x < 256" using unsigned_less[of x, where 'a = nat] by simp
  then show "P x" using bspec[OF a, of "unat x"] by simp
qed

lemma fold_octet_cases: "fold_octet x = (if x = 0 then 0 else 1)"
  by (rule all_octets) code_simp

lemma xor_zero: "a XOR b = 0 \<longleftrightarrow> a = (b :: 8 word)"
  by (auto simp: bit_eq_iff bit_xor_iff)

lemma octet_drop_mask:
  "mask (8 - i) AND c = c \<Longrightarrow> octet k (drop_bit i x) AND c = drop_bit i (octet k x) AND c"
  using octet_drop[of k i x] by (metis and.assoc)

lemma hasoctet_octet:
  assumes "k < 8"
  shows "octet k (let x = y; x = x OR (drop_bit 4 x AND 0x0f0f0f0f0f0f0f0f);
      x = x OR (drop_bit 2 x AND 0x0303030303030303);
      x = x OR drop_bit 1 x in x AND 0x0101010101010101) = fold_octet (octet k y)"
proof -
  have d: "octet k (drop_bit 4 x) AND 0x0f = drop_bit 4 (octet k x) AND 0x0f"
    "octet k (drop_bit 2 x) AND 0x03 = drop_bit 2 (octet k x) AND 0x03"
    "octet k (drop_bit 1 x) AND 1 = drop_bit 1 (octet k x) AND 1" for x
    by (rule octet_drop_mask; simp add: mask_eq_exp_minus_1)+
  have e: "(a OR b) AND c = (a AND c) OR (b AND c)" for a b c :: "8 word"
    by (rule bit_word_eqI) (auto simp: bit_simps)
  show ?thesis
    by (simp only: Let_def fold_octet_def octet_bitwise octet_masks[OF assms] d e)
qed

lemma inj_of_char_word8: "inj (of_char :: char \<Rightarrow> 8 word)"
proof (rule injI)
  fix c d assume "(of_char c :: 8 word) = of_char d"
  then have "unat (of_nat (of_char c) :: 8 word) = unat (of_nat (of_char d) :: 8 word)"
    by (simp add: of_nat_of_char)
  then show "c = d" by (simp add: unat_of_nat)
qed

lemma hasoctet_spec: "hasoctet s (0x0101010101010101 * of_char c) \<longleftrightarrow> (\<exists>k < 8. s ! k = c)"
proof -
  define z where "z = (let x = load8 s XOR 0x0101010101010101 * of_char c;
      x = x OR (drop_bit 4 x AND 0x0f0f0f0f0f0f0f0f); x = x OR (drop_bit 2 x AND 0x0303030303030303);
      x = x OR drop_bit 1 x in x AND 0x0101010101010101)"
  have o: "octet k z = (if s ! k = c then 0 else 1)" if "k < 8" for k
  proof -
    have "octet k z = fold_octet (of_char (s ! k) XOR of_char c)"
      unfolding z_def hasoctet_octet[OF that, unfolded Let_def] Let_def
      by (simp only: octet_bitwise octet_load8[OF that] octet_permute[OF that] hasoctet_octet[OF that, unfolded Let_def])
    moreover have "(of_char (s ! k) XOR of_char c :: 8 word) = 0 \<longleftrightarrow> s ! k = c"
      by (simp add: xor_zero inj_eq[OF inj_of_char_word8])
    ultimately show ?thesis by (simp add: fold_octet_cases)
  qed
  have "z = 0x0101010101010101 \<longleftrightarrow> (\<forall>k < 8. s ! k \<noteq> c)"
    using o octet_masks(1) by (auto intro!: octet_eqI) fastforce
  then show ?thesis by (auto simp: hasoctet_def z_def Let_def)
qed

lemma cut_len_spec: "cut_len c s = length (takeWhile (\<lambda>x. x \<noteq> c) s)"
proof -
  have "cut_blocks p s + length (takeWhile (\<lambda>x. x \<noteq> c) (drop (cut_blocks p s) s)) = length (takeWhile (\<lambda>x. x \<noteq> c) s)"
    if "p = 0x0101010101010101 * of_char c" for p
    using that
  proof (induction p s rule: cut_blocks.induct)
    case (1 p s)
    show ?case
    proof (cases "8 \<le> length s \<and> \<not> hasoctet s p")
      case True
      have "\<forall>x \<in> set (take 8 s). x \<noteq> c"
        using True hasoctet_spec[of s c] by (auto simp: 1(2) in_set_conv_nth) blast
      then have "takeWhile (\<lambda>x. x \<noteq> c) (take 8 s @ drop 8 s) = take 8 s @ takeWhile (\<lambda>x. x \<noteq> c) (drop 8 s)"
        by (intro takeWhile_append2) blast
      then have "length (takeWhile (\<lambda>x. x \<noteq> c) s) = 8 + length (takeWhile (\<lambda>x. x \<noteq> c) (drop 8 s))" using True by simp
      then show ?thesis using 1(1)[OF True 1(2)] True by (simp add: cut_blocks.simps[of p s] add.commute)
    next
      case False
      then have "cut_blocks p s = 0" by (subst cut_blocks.simps) (simp only: if_False)
      then show ?thesis by simp
    qed
  qed
  then show ?thesis by (simp add: cut_len_def Let_def)
qed

text \<open>\<open>cut\<close> splits at the first octet.\<close>

lemma cut_found: "c \<notin> set h \<Longrightarrow> cut (h @ c # t) c = (h, t, True)"
  by (simp add: cut_def cut_len_spec text_simps)

lemma cut_missing: "c \<notin> set h \<Longrightarrow> cut h c = (h, [], False)"
  by (simp add: cut_def cut_len_spec text_simps)

section \<open>Lemmas: the end of the hexadecimal columns\<close>

text \<open>The place of the first two adjacent elements that satisfy a predicate.\<close>

fun find_pair :: "('a \<Rightarrow> bool) \<Rightarrow> 'a list \<Rightarrow> nat option" where
  "find_pair P (a # b # xs) = (if P a \<and> P b then Some 0 else map_option Suc (find_pair P (b # xs)))"
| "find_pair P xs = None"

text \<open>What the word search takes for a space: bit 7 is ignored.\<close>

definition blank :: "char \<Rightarrow> bool" where
  "blank c \<longleftrightarrow> (of_char c :: 8 word) AND 0x7f = 0x20"

lemma find_pair_map: "find_pair P (map f xs) = find_pair (P \<circ> f) xs"
  by (induction xs rule: induct_list012) simp_all

lemma find_pair_append: "find_pair P xs = Some k \<Longrightarrow> find_pair P (xs @ ys) = Some k"
  by (induction P xs arbitrary: k rule: find_pair.induct) (auto split: if_splits)

lemma find_pair_length: "find_pair P xs = Some k \<Longrightarrow> Suc k < length xs"
  by (induction P xs arbitrary: k rule: find_pair.induct) (auto split: if_splits)

lemma find_pair_take: "find_pair P xs = Some k \<Longrightarrow> Suc k < n \<Longrightarrow> find_pair P (take n xs) = Some k"
proof (induction P xs arbitrary: k n rule: find_pair.induct)
  case (1 P a b xs)
  then obtain m where n: "n = Suc (Suc m)" by (cases n; cases "n - 1") auto
  show ?case
    using 1(2,3) 1(1)[of "k - 1" "Suc m"] by (cases k) (auto simp: n split: if_splits)
qed simp_all

lemma find_pair_take_None: "find_pair P (take n xs) = None \<Longrightarrow> find_pair P xs = Some k \<Longrightarrow> n \<le> Suc k"
  using find_pair_take[of P xs k n] by fastforce

lemma find_pair_drop: "find_pair P (take (Suc n) xs) = None \<Longrightarrow> n < length xs \<Longrightarrow>
   find_pair P xs = map_option ((+) n) (find_pair P (drop n xs))"
proof (induction n arbitrary: xs)
  case (Suc n)
  then obtain a b ys where xs: "xs = a # b # ys" by (cases xs; cases "tl xs") auto
  have "\<not> (P a \<and> P b)" "find_pair P (take (Suc n) (b # ys)) = None" using Suc.prems(1) by (auto simp: xs split: if_splits)
  then show ?case using Suc.IH[of "b # ys"] Suc.prems(2) by (auto simp: xs option.map_comp comp_def)
next
  case 0
  then show ?case by (cases "find_pair P xs") simp_all
qed

text \<open>What the word computation leaves of an octet: bit 7 when it is no blank.\<close>

definition flag :: "char \<Rightarrow> char" where
  "flag c = (if blank c then CHR 0x00 else CHR 0x80)"

lemma of_char_pred:
  assumes "(of_char c :: nat) \<noteq> 0"
  shows "(of_char (char_of ((of_char c :: nat) - 1)) :: 'a :: len word) = of_char c - 1"
proof -
  have "(of_char (char_of ((of_char c :: nat) - 1)) :: 'a word) = word_of_nat (of_char (char_of ((of_char c :: nat) - 1)))"
    by (simp only: of_nat_of_char)
  also have "\<dots> = word_of_nat ((of_char c :: nat) - 1)"
    using nat_of_char_less_256[of c] by (simp add: less_imp_diff_less)
  also have "\<dots> = of_char c - 1" using assms by (simp add: of_nat_diff of_nat_of_char)
  finally show ?thesis .
qed

lemma of_char_octet: "(of_char (char_of (unat w)) :: 8 word) = w"
proof -
  have "(of_char (char_of (unat w)) :: 8 word) = word_of_nat (of_char (char_of (unat w)))"
    by (simp only: of_nat_of_char)
  also have "\<dots> = w" using unsigned_less[of w, where 'a = nat] by simp
  finally show ?thesis .
qed

lemma octets_minus:
  "list_all (\<lambda>c. (of_char c :: nat) \<noteq> 0) cs \<Longrightarrow>
   octets cs - octets (replicate (length cs) (CHR 0x01)) = octets (map (\<lambda>c. char_of ((of_char c :: nat) - 1)) cs)"
proof (induction cs)
  case (Cons c cs)
  have ih: "octets cs - octets (replicate (length cs) (CHR 0x01)) = octets (map (\<lambda>c. char_of ((of_char c :: nat) - 1)) cs)"
    using Cons by simp
  have "octets (c # cs) - octets (replicate (length (c # cs)) (CHR 0x01)) =
      of_char c - 1 + 256 * (octets cs - octets (replicate (length cs) (CHR 0x01)))"
    by (simp add: octets_plus algebra_simps del: octets.simps)
  also have "\<dots> = octets (map (\<lambda>c. char_of ((of_char c :: nat) - 1)) (c # cs))"
    unfolding ih list.map octets_plus using Cons.prems by (subst of_char_pred) simp_all
  finally show ?case .
qed simp

lemma as_octets: "x = octets (map (\<lambda>k. char_of (unat (octet k x))) [0..<8])"
  by (rule octet_eqI) (simp add: octet_octets of_char_octet)

lemma flag_octet:
  "((((w XOR 0x20) OR 0x80) - 1) AND 0x80 :: 8 word) = (if w AND 0x7f = 0x20 then 0 else 0x80)"
  by (rule all_octets) code_simp

lemma high_octet: "unat ((w XOR 0x20) OR 0x80 :: 8 word) \<noteq> 0"
  by (rule all_octets) code_simp

abbreviation flag_char :: "bool \<Rightarrow> char" where
  "flag_char b \<equiv> (if b then CHR 0x00 else CHR 0x80)"

lemma lens_index:
  "unat (drop_bit 56 (octets (map flag_char [b0, b1, b2, b3, b4, b5, b6, b7]) * 0x0002040810204081)) =
   horner_sum of_bool 2 (map Not [b0, b1, b2, b3, b4, b5, b6, b7])"
  by (cases b0; cases b1; cases b2; cases b3; cases b4; cases b5; cases b6; cases b7;
    simp add: octets_plus unat_drop_bit_eq drop_bit_eq_div del: octets.simps(2))

lemma pairs_nth: "i < length xs \<Longrightarrow> concat (map (\<lambda>ys. [f ys, g ys]) xs) ! (2 * i + (if b then 1 else 0)) = (if b then g (xs ! i) else f (xs ! i))"
proof (induction xs arbitrary: i)
  case (Cons x xs)
  then show ?case by (cases i) auto
qed simp

lemma length_n_lists2: "length (List.n_lists n [False, True]) = 2 ^ n"
  by (simp add: length_n_lists numeral_2_eq_2)

lemma n_lists_nth: "List.n_lists (length bs) [False, True] ! horner_sum of_bool 2 bs = bs"
proof (induction bs)
  case (Cons b bs)
  have "horner_sum of_bool 2 (b # bs) = 2 * horner_sum of_bool 2 bs + (if b then 1 else (0 :: nat))" by simp
  moreover have "(horner_sum of_bool 2 bs :: nat) < length (List.n_lists (length bs) [False, True])"
    using horner_sum_of_bool_2_less[of bs] by (simp add: length_n_lists2)
  ultimately show ?case
    using pairs_nth[of "horner_sum of_bool 2 bs" "List.n_lists (length bs) [False, True]" "Cons False" "Cons True" b] Cons
    by (cases b) (simp_all add: add.commute)
qed simp

lemma lens_table_eq:
  "lens_table = map (\<lambda>bs. case find_pair Not bs of None \<Rightarrow> 8 | Some k \<Rightarrow> k) (List.n_lists 8 [False, True])"
  by code_simp

lemma lens_flags:
  assumes "length bs = 8"
  shows "lens_table ! unat (drop_bit 56 (octets (map flag_char bs) * 0x0002040810204081)) =
    (case find_pair id bs of None \<Rightarrow> 8 | Some k \<Rightarrow> k)"
proof -
  from assms obtain b0 b1 b2 b3 b4 b5 b6 b7 where b: "bs = [b0, b1, b2, b3, b4, b5, b6, b7]"
    by (auto simp: length_Suc_conv numeral_eq_Suc)
  have i: "unat (drop_bit 56 (octets (map flag_char bs) * 0x0002040810204081)) = horner_sum of_bool 2 (map Not bs)"
    unfolding b by (rule lens_index)
  have n: "List.n_lists 8 [False, True] ! horner_sum of_bool 2 (map Not bs) = map Not bs"
    using n_lists_nth[of "map Not bs"] assms by simp
  have "(horner_sum of_bool 2 (map Not bs) :: nat) < length (List.n_lists 8 [False, True])"
    using horner_sum_of_bool_2_less[of "map Not bs"] assms by (simp add: length_n_lists2)
  then show ?thesis unfolding i lens_table_eq by (simp add: n find_pair_map comp_def id_def)
qed

lemma hexdumplen_spec:
  assumes "length s = 8"
  shows "hexdumplen s = (case find_pair blank s of None \<Rightarrow> 8 | Some k \<Rightarrow> k)"
proof -
  define x where "x = (load8 s XOR 0x2020202020202020) OR 0x8080808080808080"
  define ds where "ds = map (\<lambda>k. char_of (unat (octet k x))) [0..<8]"
  have ox: "octet k x = (of_char (s ! k) XOR 0x20) OR 0x80" if "k < 8" for k
    using that by (simp add: x_def octet_bitwise octet_masks octet_load8)
  have dk: "(of_char (char_of (unat w)) :: nat) = unat w" for w :: "8 word"
    using unsigned_less[of w, where 'a = nat] by simp
  have nz: "(of_char (ds ! k) :: nat) \<noteq> 0" if "k < 8" for k
    using that high_octet by (simp only: ds_def nth_map length_upt nth_upt dk ox diff_zero add_0 not_False_eq_True)
  then have "list_all (\<lambda>c. (of_char c :: nat) \<noteq> 0) ds"
    by (simp add: list_all_length ds_def)
  then have "x - octets (replicate 8 (CHR 0x01)) = octets (map (\<lambda>c. char_of ((of_char c :: nat) - 1)) ds)"
    using octets_minus[of ds] as_octets[of x] by (simp add: ds_def)
  then have m: "x - 0x0101010101010101 = octets (map (\<lambda>c. char_of ((of_char c :: nat) - 1)) ds)"
    using permute_octets[of "CHR 0x01"] by simp
  have "(x - 0x0101010101010101) AND 0x8080808080808080 = octets (map flag_char (map blank s))"
  proof (rule octet_eqI)
    fix k :: nat assume k: "k < 8"
    have "octet k (x - 0x0101010101010101) = octet k x - 1"
      using k of_char_pred[OF nz[OF k], where 'a = 8] unfolding m
      by (simp add: octet_octets ds_def of_char_octet)
    then have "octet k ((x - 0x0101010101010101) AND 0x8080808080808080) = (if blank (s ! k) then 0 else 0x80)"
      using k by (simp add: octet_bitwise octet_masks ox flag_octet blank_def)
    then show "octet k ((x - 0x0101010101010101) AND 0x8080808080808080) = octet k (octets (map flag_char (map blank s)))"
      using k assms by (simp add: octet_octets)
  qed
  then show ?thesis
    using lens_flags[of "map blank s"] assms
    by (simp add: hexdumplen_def Let_def x_def[symmetric] find_pair_map del: map_map)
qed

end
