(* ===== verification/Rexxd_Numbers.thy ===== *)
theory Rexxd_Numbers
  imports Rexxd_Text
begin

text \<open>
  What the parsers and printers of \<open>Rexxd_Text\<close> compute: the place where \<open>hexdumptrim\<close> ends a
  line, the values \<open>parseoffet\<close> and \<open>parse64\<close> give with their exact overflow limit, and that
  a printed offset is read back.
\<close>

unbundle bit_operations_syntax

section \<open>The end of the hexadecimal columns\<close>

definition trim_end :: "string \<Rightarrow> nat" where
  "trim_end s = (case find_pair blank s of
      Some k \<Rightarrow> k
    | None \<Rightarrow>
        if s = [] then 0
        else if blank (last s) then length s - 1
        else if 7 dvd length s then length s + 1
        else length s)"

lemma blank_space [simp]: "blank spc"
  by (simp add: blank_def)

lemma find_pair_spaces: "find_pair blank (replicate m spc) = (if 2 \<le> m then Some 0 else None)"
  by (cases m; cases "m - 1") auto

lemma find_pair_pad:
  "0 < m \<Longrightarrow> find_pair blank (t @ replicate m spc) = (case find_pair blank t of
      Some k \<Rightarrow> Some k
    | None \<Rightarrow> if t \<noteq> [] \<and> blank (last t) then Some (length t - 1) else if 2 \<le> m then Some (length t) else None)"
proof (induction t rule: induct_list012)
  case (2 a)
  then obtain j where "m = Suc j" by (cases m) auto
  then show ?case using find_pair_spaces[of m] by (auto split: if_splits)
next
  case (3 a b t)
  then show ?case by (auto split: option.splits)
qed (simp add: find_pair_spaces)

lemma hexdumplen_take: "8 \<le> length t \<Longrightarrow> hexdumplen t = hexdumplen (take 8 t)"
  by (simp add: hexdumplen_def load8_def)

lemma trim_end_skip:
  "8 \<le> length t \<Longrightarrow> find_pair blank (take 8 t) = None \<Longrightarrow> trim_end t = 7 + trim_end (drop 7 t)"
  using find_pair_drop[of blank 7 t] by (auto simp: trim_end_def last_drop dvd_minus_self split: option.splits)

lemma trim_end_short:
  assumes "length t \<le> 7"
  shows "hexdumplen (t @ replicate (8 - length t) spc) = trim_end t"
proof -
  have "7 dvd length t \<longleftrightarrow> length t = 7" if "t \<noteq> []" using that assms
  proof -
    have "0 < length t" using that by simp
    then show ?thesis using assms by presburger
  qed
  then show ?thesis
    using assms by (cases "t = []") (auto simp: hexdumplen_spec find_pair_pad trim_end_def find_pair_spaces split: option.splits)
qed

lemma hexdumptrim_loop_spec: "n < length s \<or> s = [] \<and> n = 0 \<Longrightarrow> hexdumptrim_loop n s = n + trim_end (drop n s)"
proof (induction n s rule: hexdumptrim_loop.induct)
  case (1 n s)
  define t where "t = drop n s"
  show ?case
  proof (cases "n + 7 < length s")
    case True
    then have t: "8 \<le> length t" by (simp add: t_def)
    have h: "hexdumplen t = (case find_pair blank (take 8 t) of None \<Rightarrow> 8 | Some k \<Rightarrow> k)"
      using t by (simp add: hexdumplen_take[OF t] hexdumplen_spec)
    show ?thesis
    proof (cases "find_pair blank (take 8 t)")
      case None
      then have "hexdumptrim_loop n s = hexdumptrim_loop (n + 7) s"
        using True h by (subst hexdumptrim_loop.simps) (simp add: t_def)
      also have "\<dots> = n + 7 + trim_end (drop 7 t)"
        using 1(1)[OF True refl] True h None by (simp add: t_def add.commute)
      finally show ?thesis using trim_end_skip[OF t None] by (simp add: t_def)
    next
      case (Some k)
      then have "k < 8" "find_pair blank t = Some k"
        using find_pair_length[OF Some] find_pair_append[OF Some, of "drop 8 t"] t by simp_all
      then show ?thesis using True h Some by (subst hexdumptrim_loop.simps) (simp add: t_def trim_end_def)
    qed
  next
    case False
    then show ?thesis
      using trim_end_short[of t] by (subst hexdumptrim_loop.simps) (simp add: t_def)
  qed
qed

lemma hexdumptrim_spec: "hexdumptrim s = trim_end s"
  using hexdumptrim_loop_spec[of 0 s] by (cases s) (simp_all add: hexdumptrim_def)

section \<open>Values of digits\<close>

definition value_of :: "int \<Rightarrow> (char \<Rightarrow> int) \<Rightarrow> int \<Rightarrow> string \<Rightarrow> int" where
  "value_of b d = foldl (\<lambda>v c. v * b + d c)"

lemma value_of_simps [simp]: "value_of b d v [] = v" "value_of b d v (c # s) = value_of b d (v * b + d c) s"
  "value_of b d v (s @ t) = value_of b d (value_of b d v s) t"
  by (simp_all add: value_of_def)

lemma value_of_mono: "1 \<le> b \<Longrightarrow> 0 \<le> v \<Longrightarrow> list_all (\<lambda>c. 0 \<le> d c) s \<Longrightarrow> v \<le> value_of b d v s"
proof (induction s arbitrary: v)
  case (Cons c s)
  have "v * 1 \<le> v * b" using Cons.prems by (intro mult_left_mono) auto
  moreover have "v * b + d c \<le> value_of b d (v * b + d c) s" using Cons by simp
  ultimately show ?case using Cons.prems by simp
qed simp

lemma value_of_big:
  "1 \<le> b \<Longrightarrow> 0 \<le> v \<Longrightarrow> list_all (\<lambda>c. 0 \<le> d c) s \<Longrightarrow> value_of b d v s < m \<Longrightarrow> v < (m :: int)"
  using value_of_mono[of b v d s] by simp

lemma high_bits: "0 \<le> (v :: int) \<Longrightarrow> drop_bit n v \<noteq> 0 \<longleftrightarrow> 2 ^ n \<le> v"
  using pos_imp_zdiv_pos_iff[of "2 ^ n" v] pos_imp_zdiv_nonneg_iff[of "2 ^ n" v] by (auto simp: drop_bit_eq_div)

lemma nibble_range: "nibbleval c < 16" "-1 \<le> nibbleval c"
  by (simp_all add: nibbleval_def Let_def)

lemma parseoffet_loop_value:
  "0 \<le> off \<Longrightarrow> off < 2 ^ 63 \<Longrightarrow> list_all (\<lambda>c. 0 \<le> nibbleval c) s \<Longrightarrow>
   (if value_of 16 nibbleval off s < 2 ^ 63 then parseoffet_loop off s = (None, value_of 16 nibbleval off s)
    else fst (parseoffet_loop off s) = Some PARSE_OVERFLOW)"
proof (induction s arbitrary: off)
  case (Cons d s)
  have or: "push_bit 4 off OR nibbleval d = off * 16 + nibbleval d"
    using or_shift[of "nibbleval d" 4 off] Cons.prems(3) nibble_range(1)[of d] by simp
  have over: "drop_bit (63 - 4) off \<noteq> 0 \<longleftrightarrow> 2 ^ 59 \<le> off"
    using Cons.prems(1) high_bits[of off 59] by simp
  show ?case
  proof (cases "2 ^ 59 \<le> off")
    case True
    have "\<not> value_of 16 nibbleval (off * 16 + nibbleval d) s < 2 ^ 63"
      using value_of_big[of 16 "off * 16 + nibbleval d" nibbleval s "2 ^ 63"] Cons.prems True by auto
    then show ?thesis using Cons.prems over True by simp
  next
    case False
    then have "off * 16 + nibbleval d < 2 ^ 63" using nibble_range(1)[of d] by simp
    then show ?thesis using Cons.IH[of "off * 16 + nibbleval d"] Cons.prems over or False by simp
  qed
qed simp

lemma parseoffet_value:
  "s \<noteq> [] \<Longrightarrow> list_all (\<lambda>c. 0 \<le> nibbleval c) s \<Longrightarrow>
   (if value_of 16 nibbleval 0 s < 2 ^ 63 then parseoffet s = (PARSE_OK, value_of 16 nibbleval 0 s)
    else fst (parseoffet s) = PARSE_OVERFLOW)"
  using parseoffet_loop_value[of 0 s] by (cases "parseoffet_loop 0 s") (auto simp: parseoffet_def split: if_splits option.splits)

text \<open>\<open>parse64\<close> accepts exactly the numerals whose value is below \<open>2^63\<close>.\<close>

definition digits_below :: "int \<Rightarrow> string \<Rightarrow> bool" where
  "digits_below b s \<longleftrightarrow> list_all (\<lambda>c. minus0 c < b) s"

lemma minus0_nonneg [simp]: "0 \<le> minus0 c"
  by (simp add: minus0_def)

lemma minus0_all: "list_all (\<lambda>c. 0 \<le> minus0 c) s"
  by (simp add: list_all_iff)

lemma parse_octal_value:
  "0 \<le> v \<Longrightarrow> v < 2 ^ 63 \<Longrightarrow> parse_octal v s =
    (if digits_below 8 s \<and> value_of 8 minus0 v s < 2 ^ 63 then Some (value_of 8 minus0 v s) else None)"
proof (induction s arbitrary: v)
  case (Cons d s)
  show ?case
  proof (cases "minus0 d < 8")
    case True
    have or: "push_bit 3 v OR minus0 d = v * 8 + minus0 d" using or_shift[of "minus0 d" 3 v] True by simp
    have over: "drop_bit (63 - 3) v \<noteq> 0 \<longleftrightarrow> 2 ^ 60 \<le> v"
      using Cons.prems(1) high_bits[of v 60] by simp
    show ?thesis
    proof (cases "2 ^ 60 \<le> v")
      case True
      then have "\<not> value_of 8 minus0 (v * 8 + minus0 d) s < 2 ^ 63"
        using value_of_big[of 8 "v * 8 + minus0 d" minus0 s "2 ^ 63"] minus0_all[of s] minus0_nonneg[of d] by auto
      then show ?thesis using over True by (simp add: Let_def)
    next
      case False
      then show ?thesis
        using Cons.IH[of "v * 8 + minus0 d"] Cons.prems over or True minus0_nonneg[of d]
        by (auto simp: Let_def digits_below_def)
    qed
  qed (simp add: digits_below_def Let_def)
qed (simp add: digits_below_def)

lemma parse_decimal_value:
  "0 \<le> v \<Longrightarrow> v < 2 ^ 63 \<Longrightarrow> parse_decimal v s =
    (if digits_below 10 s \<and> value_of 10 minus0 v s < 2 ^ 63 then Some (value_of 10 minus0 v s) else None)"
proof (induction s arbitrary: v)
  case (Cons d s)
  show ?case
  proof (cases "minus0 d < 10")
    case True
    have over: "(2 ^ 63 - 1 - minus0 d) div 10 < v \<longleftrightarrow> 2 ^ 63 \<le> v * 10 + minus0 d"
      by (simp add: div_less_iff_less_mult) linarith
    show ?thesis
    proof (cases "2 ^ 63 \<le> v * 10 + minus0 d")
      case True
      then have "\<not> value_of 10 minus0 (v * 10 + minus0 d) s < 2 ^ 63"
        using value_of_big[of 10 "v * 10 + minus0 d" minus0 s "2 ^ 63"] minus0_all[of s] minus0_nonneg[of d] Cons.prems(1)
        by (auto simp del: minus0_nonneg)
      then show ?thesis using over True by (simp add: Let_def)
    next
      case False
      then show ?thesis
        using Cons.IH[of "v * 10 + minus0 d"] Cons.prems over True minus0_nonneg[of d]
        by (auto simp: Let_def digits_below_def)
    qed
  qed (simp add: digits_below_def Let_def)
qed (simp add: digits_below_def)

text \<open>The base and the digits of a numeral.\<close>

definition numeral_value :: "string \<Rightarrow> int option" where
  "numeral_value s =
     (if 2 < length s \<and> take 2 s \<in> {''0x'', ''0X''}
      then if list_all (\<lambda>c. 0 \<le> nibbleval c) (drop 2 s) then Some (value_of 16 nibbleval 0 (drop 2 s)) else None
      else if 1 < length s \<and> hd s = CHR ''0''
      then if digits_below 8 (tl s) then Some (value_of 8 minus0 0 (tl s)) else None
      else if s \<noteq> [] \<and> digits_below 10 s then Some (value_of 10 minus0 0 s) else None)"

lemma parseoffet_invalid: "\<not> list_all (\<lambda>c. 0 \<le> nibbleval c) s \<Longrightarrow> fst (parseoffet s) \<noteq> PARSE_OK"
proof -
  have "\<not> list_all (\<lambda>c. 0 \<le> nibbleval c) s \<Longrightarrow> \<exists>st. st \<noteq> PARSE_OK \<and> fst (parseoffet_loop off s) = Some st" for off
    by (induction s arbitrary: off) (auto simp: Let_def)
  from this[of 0] show "\<not> list_all (\<lambda>c. 0 \<le> nibbleval c) s \<Longrightarrow> ?thesis"
    by (cases "parseoffet_loop 0 s") (auto simp: parseoffet_def)
qed

lemma parse64_exact:
  "parse64 s = (case numeral_value s of Some v \<Rightarrow> if v < 2 ^ 63 then Some v else None | None \<Rightarrow> None)"
proof -
  have two: "2 < length s \<and> s ! 0 = CHR ''0'' \<and> (s ! 1 = CHR ''x'' \<or> s ! 1 = CHR ''X'') \<longleftrightarrow>
      2 < length s \<and> take 2 s \<in> {''0x'', ''0X''}"
    by (cases s; cases "tl s") auto
  show ?thesis
  proof (cases "2 < length s \<and> take 2 s \<in> {''0x'', ''0X''}")
    case True
    then have n: "drop 2 s \<noteq> []" by simp
    show ?thesis
      using True parseoffet_value[OF n] parseoffet_invalid[of "drop 2 s"]
      unfolding parse64_def two numeral_value_def cuthead_def
      by (cases "parseoffet (drop 2 s)") (auto split: if_splits)
  next
    case False
    then show ?thesis
      using parse_octal_value[of 0 "tl s"] parse_decimal_value[of 0 s]
      unfolding parse64_def two numeral_value_def
      by (cases s) (auto simp: nth_Cons' split: if_splits)
  qed
qed

section \<open>A printed offset is read back\<close>

lemma lohex_nibble: "n < 16 \<Longrightarrow> nibbleval (lohex ! n) = int n" "n < 16 \<Longrightarrow> nibbleval (uphex ! n) = int n"
proof -
  have "\<forall>n \<in> set [0..<16]. nibbleval (lohex ! n) = int n \<and> nibbleval (uphex ! n) = int n" by code_simp
  then show "n < 16 \<Longrightarrow> nibbleval (lohex ! n) = int n" "n < 16 \<Longrightarrow> nibbleval (uphex ! n) = int n" by simp_all
qed

definition hexset :: "bool \<Rightarrow> string" where
  "hexset upper = (if upper then uphex else lohex)"

lemma hexset_nibble: "n < 16 \<Longrightarrow> nibbleval (hexset u ! n) = int n"
  by (simp add: hexset_def lohex_nibble)

lemma nibbles_of: "(of_char v :: nat) div 16 < 16" "(of_char v :: nat) mod 16 < 16"
proof -
  show "(of_char v :: nat) div 16 < 16" by (rule less_mult_imp_div_less) simp
qed simp

lemma hexpair_nibbles:
  "map nibbleval (hexpair (hexset u) v) = [of_char v div 16, of_char v mod 16]"
proof -
  have "(of_char v :: int) = int (of_char v)" by (simp only: of_nat_of_char)
  then show ?thesis by (simp only: hexpair_def list.map hexset_nibble nibbles_of zdiv_int zmod_int of_nat_numeral)
qed

lemma hexpair_digits: "list_all (\<lambda>c. 0 \<le> nibbleval c) (hexpair (hexset u) v)"
  by (simp only: hexpair_def list.pred_inject hexset_nibble nibbles_of of_nat_0_le_iff simp_thms)

lemma hexpair_value: "value_of 16 nibbleval v (hexpair (hexset u) c) = v * 256 + of_char c"
proof -
  have "nibbleval (hexpair (hexset u) c ! 0) = of_char c div 16" "nibbleval (hexpair (hexset u) c ! 1) = of_char c mod 16"
    using hexpair_nibbles[of u c] by (simp_all add: hexpair_def)
  then show ?thesis using div_mult_mod_eq[of "of_char c :: int" 16] by (simp add: hexpair_def)
qed

text \<open>The bytes of a number, the highest first, carry its value.\<close>

lemma bytes_value:
  "n \<le> 8 \<Longrightarrow> value_of 16 nibbleval 0
     (concat (map (\<lambda>i. hexpair lohex (char_of (unat (drop_bit (56 - i * 8) (x :: 64 word))))) [0..<n])) =
   uint x div 2 ^ (64 - 8 * n)"
proof (induction n)
  case 0
  show ?case using uint_bounded[of x] by simp
next
  case (Suc n)
  define k where "k = 56 - n * 8"
  have k: "64 - 8 * n = k + 8" "64 - 8 * Suc n = k" "56 - 8 * n = k" using Suc.prems by (auto simp: k_def)
  have c: "(of_char (char_of (unat (drop_bit k x))) :: int) = uint x div 2 ^ k mod 256"
  proof -
    have "(of_char (char_of (unat (drop_bit k x))) :: int) = int (of_char (char_of (unat (drop_bit k x))))"
      by (simp only: of_nat_of_char)
    also have "\<dots> = int (unat (drop_bit k x)) mod 256" by (simp add: zmod_int)
    also have "int (unat (drop_bit k x)) = drop_bit k (uint x)" by (simp only: unat_drop_bit_eq of_nat_drop_bit uint_nat)
    finally show ?thesis by (simp only: drop_bit_eq_div)
  qed
  have "hexset False = lohex" by (simp add: hexset_def)
  note v = hexpair_value[where u = False, unfolded this]
  have "uint x div 2 ^ (k + 8) * 256 + uint x div 2 ^ k mod 256 = uint x div 2 ^ k"
    by (simp add: power_add zdiv_zmult2_eq)
  then show ?case using Suc by (simp add: v k c k_def[symmetric] del: of_char_of)
qed

lemma bytes_digits:
  "list_all (\<lambda>c. 0 \<le> nibbleval c) (concat (map (\<lambda>i. hexpair lohex (f i)) is))"
  using hexpair_digits[of False] by (induction "is") (simp_all add: hexset_def)

lemma value_of_zeros:
  "list_all (\<lambda>c. 0 \<le> d c) s \<Longrightarrow> 1 \<le> b \<Longrightarrow> value_of b d 0 s = 0 \<Longrightarrow> value_of b d 0 (s @ t) = value_of b d 0 t"
  by simp

lemma printhexoff_value:
  "value_of 16 nibbleval 0 (printhexoff x) = uint x" "list_all (\<lambda>c. 0 \<le> nibbleval c) (printhexoff x)"
  "printhexoff x \<noteq> []"
proof -
  define f where "f = (\<lambda>i. hexpair lohex (char_of (unat (drop_bit (56 - i * 8) x))))"
  define h l where "h = concat (map f [0..<4])" and "l = concat (map f [4..<8])"
  have s: "concat (map f [0..<8]) = h @ l" using upt_add_eq_append[of 0 4 4] by (simp add: h_def l_def)
  have len: "length h = 8" "length l = 8"
    by (simp_all add: h_def l_def f_def hexpair_def length_concat comp_def sum_list_triv)
  have v: "value_of 16 nibbleval 0 (h @ l) = uint x" "value_of 16 nibbleval 0 h = uint x div 2 ^ 32"
    using bytes_value[of 8 x] bytes_value[of 4 x] unfolding f_def[symmetric] s h_def[symmetric] by simp_all
  have p: "printhexoff x = (if x < 0x100000000 then l else h @ l)"
    using len unfolding printhexoff_def f_def[symmetric] s by (simp add: Let_def)
  have "uint x div 2 ^ 32 = 0" if "x < 0x100000000"
    using that by (simp add: word_less_def)
  then have "value_of 16 nibbleval 0 h = 0" if "x < 0x100000000" using that v(2) by simp
  then show "value_of 16 nibbleval 0 (printhexoff x) = uint x"
    using v(1) unfolding p by (cases "x < 0x100000000") simp_all
  have "list_all (\<lambda>c. 0 \<le> nibbleval c) h" "list_all (\<lambda>c. 0 \<le> nibbleval c) l"
    unfolding h_def l_def f_def by (rule bytes_digits)+
  then show "list_all (\<lambda>c. 0 \<le> nibbleval c) (printhexoff x)" unfolding p by simp
  show "printhexoff x \<noteq> []" using len unfolding p by auto
qed

lemma offset_read_back: "uint x < 2 ^ 63 \<Longrightarrow> parseoffet (printhexoff x) = (PARSE_OK, uint x)"
  using parseoffet_value[OF printhexoff_value(3,2)[of x]] printhexoff_value(1)[of x] by simp

lemma blank_code: "blank c \<longleftrightarrow> (of_char c :: nat) mod 128 = 32"
proof -
  have m: "(0x7f :: 8 word) = mask 7" by (simp add: mask_eq_exp_minus_1)
  have "unat ((of_char c :: 8 word) AND 0x7f) = unat (of_char c :: 8 word) mod 128"
    unfolding m take_bit_eq_mask[symmetric] unsigned_take_bit_eq by (simp add: take_bit_eq_mod)
  moreover have "unat (0x20 :: 8 word) = 32" by simp
  moreover have "unat (of_char c :: 8 word) = of_char c"
    using unat_of_nat[of "of_char c", where 'a = 8] by (simp add: of_nat_of_char)
  ultimately show ?thesis
    unfolding blank_def by (metis word_unat_eq_iff)
qed

lemma nibble_range_code:
  "0 \<le> nibbleval c \<Longrightarrow>
   (of_char c :: nat) \<in> {48..57} \<or> (of_char c :: nat) \<in> {65..70} \<or> (of_char c :: nat) \<in> {97..102}"
proof -
  have "(of_char c :: int) = int (of_char c)" by (simp only: of_nat_of_char)
  then show "0 \<le> nibbleval c \<Longrightarrow> ?thesis" by (auto simp: nibbleval_def Let_def split: if_splits)
qed

lemma nibble_plain: "0 \<le> nibbleval c \<Longrightarrow> c \<noteq> CHR '':'' \<and> \<not> xwhitespace c \<and> c \<noteq> nl \<and> \<not> blank c"
proof -
  assume "0 \<le> nibbleval c"
  note r = nibble_range_code[OF this]
  then have "\<not> blank c" unfolding blank_code by auto
  moreover have "c \<noteq> CHR '':''" "c \<noteq> nl" "\<not> xwhitespace c" using r by (auto simp: xwhitespace_def)
  ultimately show ?thesis by simp
qed

end
