(* ===== verification/Rexxd_Io.thy ===== *)
theory Rexxd_Io
  imports Rexxd_Numbers
begin

text \<open>
  Input and output of \<open>src/src/rexxd.c\<close>. The platform is the record \<open>xplt\<close> of its four
  calls over a world \<open>'w\<close>; a read returns at most the bytes asked for, or \<open>None\<close> for a
  negative result. \<open>xctx\<close> is the struct \<open>Xxd\<close> with the platform state and the buffer of
  standard error, where every call is logged when tracing (\<open>xxd_open\<close>, \<open>xxd_seek\<close>,
  \<open>xxd_read\<close>, \<open>xxd_write\<close>, \<open>xxd_exit\<close>). \<open>Input\<close> is the unread part of its buffer;
  \<open>Output\<close> has the file position it stands for. Allocations from the arena are taken to
  succeed. The loop of \<open>seekout\<close> that writes zeros need not end, hence an option.
\<close>

section \<open>Model: buffers and the platform\<close>

record 'w xplt =
  p_open :: "int \<Rightarrow> string \<Rightarrow> bool \<Rightarrow> 'w \<Rightarrow> bool \<times> 'w"
  p_seek :: "int \<Rightarrow> int \<Rightarrow> int \<Rightarrow> 'w \<Rightarrow> int \<times> 'w"
  p_read :: "int \<Rightarrow> 'w \<Rightarrow> string option \<times> 'w"
  p_write :: "int \<Rightarrow> string \<Rightarrow> 'w \<Rightarrow> bool \<times> 'w"

definition PLT_SEEK_SET :: int where "PLT_SEEK_SET = 0"
definition PLT_SEEK_CUR :: int where "PLT_SEEK_CUR = 1"
definition PLT_SEEK_END :: int where "PLT_SEEK_END = 2"

record xout =
  x_fpos :: int
  x_buf :: string
  x_fd :: int
  x_err :: bool
  x_noseek :: bool

definition new_xout :: "int \<Rightarrow> xout" where
  "new_xout fd = \<lparr>x_fpos = 0, x_buf = [], x_fd = fd, x_err = False, x_noseek = False\<rparr>"

definition xflush :: "(int \<Rightarrow> string \<Rightarrow> 'a \<Rightarrow> bool \<times> 'a) \<Rightarrow> xout \<times> 'a \<Rightarrow> xout \<times> 'a" where
  "xflush wr = (\<lambda>(b, a).
     if \<not> x_err b \<and> x_buf b \<noteq> [] then
       let (ok, a) = wr (x_fd b) (x_buf b) a in (b\<lparr>x_err := \<not> ok, x_buf := []\<rparr>, a)
     else (b, a))"

text \<open>The copy loop; the buffer is never full at its head, so the third disjunct is not taken.\<close>

function xoutput_loop :: "(int \<Rightarrow> string \<Rightarrow> 'a \<Rightarrow> bool \<times> 'a) \<Rightarrow> string \<Rightarrow> xout \<times> 'a \<Rightarrow> xout \<times> 'a" where
  "xoutput_loop wr s (b, a) =
     (if x_err b \<or> s = [] \<or> 2 ^ 12 \<le> length (x_buf b) then (b, a)
      else
        let avail = 2 ^ 12 - length (x_buf b);
            count = (if length s < avail then length s else avail);
            b = b\<lparr>x_buf := x_buf b @ take count s, x_fpos := x_fpos b + int count\<rparr>
        in xoutput_loop wr (drop count s) (if length (x_buf b) = 2 ^ 12 then xflush wr (b, a) else (b, a)))"
  by pat_completeness auto
termination
  by (relation "measure (\<lambda>(wr, s, st). length s)") (auto simp: Let_def)

declare xoutput_loop.simps [simp del]

definition fill_buf :: "string \<Rightarrow> xout \<Rightarrow> nat \<times> xout" where
  "fill_buf s b =
     (let count = (if length s < 2 ^ 12 - length (x_buf b) then length s else 2 ^ 12 - length (x_buf b))
      in (count, b\<lparr>x_buf := x_buf b @ take count s, x_fpos := x_fpos b + int count\<rparr>))"

lemma xoutput_loop_step:
  "\<not> (x_err b \<or> s = [] \<or> 2 ^ 12 \<le> length (x_buf b)) \<Longrightarrow> fill_buf s b = (count, b1) \<Longrightarrow>
   xoutput_loop wr s (b, a) =
     xoutput_loop wr (drop count s) (if length (x_buf b1) = 2 ^ 12 then xflush wr (b1, a) else (b1, a))"
  by (subst xoutput_loop.simps) (auto simp: fill_buf_def Let_def)

lemma xoutput_loop_stop: "x_err b \<or> s = [] \<or> 2 ^ 12 \<le> length (x_buf b) \<Longrightarrow> xoutput_loop wr s st = st" if "fst st = b"
  using that by (cases st) (auto simp: xoutput_loop.simps)

text \<open>One induction for the properties of the loop.\<close>

lemma xoutput_induct [case_names stop step]:
  assumes "\<And>s st. x_err (fst st) \<or> s = [] \<or> 2 ^ 12 \<le> length (x_buf (fst st)) \<Longrightarrow> Q s st"
    "\<And>s b a count b1. \<not> (x_err b \<or> s = [] \<or> 2 ^ 12 \<le> length (x_buf b)) \<Longrightarrow> fill_buf s b = (count, b1) \<Longrightarrow>
       Q (drop count s) (if length (x_buf b1) = 2 ^ 12 then xflush wr (b1, a) else (b1, a)) \<Longrightarrow> Q s (b, a)"
  shows "Q s st"
proof (induction "length s" arbitrary: s st rule: less_induct)
  case (less s st)
  show ?case
  proof (cases "x_err (fst st) \<or> s = [] \<or> 2 ^ 12 \<le> length (x_buf (fst st))")
    case True
    then show ?thesis by (rule assms(1))
  next
    case False
    obtain b a where st: "st = (b, a)" by fastforce
    obtain count b1 where f: "fill_buf s b = (count, b1)" by fastforce
    then have "length (drop count s) < length s" using False by (auto simp: st fill_buf_def Let_def split: if_splits)
    then show ?thesis using assms(2)[OF _ f] less False by (simp add: st)
  qed
qed

definition xoutput :: "(int \<Rightarrow> string \<Rightarrow> 'a \<Rightarrow> bool \<times> 'a) \<Rightarrow> string \<Rightarrow> xout \<times> 'a \<Rightarrow> xout \<times> 'a" where
  "xoutput wr s = (\<lambda>(b, a).
     xoutput_loop wr s (b\<lparr>x_err := x_err b \<or> 2 ^ 63 - 1 - int (length s) < x_fpos b\<rparr>, a))"

section \<open>Model: the traced calls\<close>

record 'w xctx =
  c_plt :: 'w
  c_be :: xout
  c_trace :: bool

definition with_be :: "(xout \<times> 'w \<Rightarrow> xout \<times> 'w) \<Rightarrow> 'w xctx \<Rightarrow> 'w xctx" where
  "with_be f c = (let (b, w) = f (c_be c, c_plt c) in c\<lparr>c_be := b, c_plt := w\<rparr>)"

definition eprint :: "'w xplt \<Rightarrow> string \<Rightarrow> 'w xctx \<Rightarrow> 'w xctx" where
  "eprint P s = with_be (xoutput (p_write P) s)"

definition eflush :: "'w xplt \<Rightarrow> 'w xctx \<Rightarrow> 'w xctx" where
  "eflush P = with_be (xflush (p_write P))"

definition xlog :: "'w xplt \<Rightarrow> string list \<Rightarrow> 'w xctx \<Rightarrow> 'w xctx" where
  "xlog P pieces c = eflush P (fold (eprint P) pieces c)"

abbreviation quot :: string where "quot \<equiv> [CHR 0x22]"

definition xxd_open :: "'w xplt \<Rightarrow> int \<Rightarrow> string \<Rightarrow> bool \<Rightarrow> 'w xctx \<Rightarrow> bool \<times> 'w xctx" where
  "xxd_open P fd path trunc c =
     (let (r, w) = p_open P fd path trunc (c_plt c); c = c\<lparr>c_plt := w\<rparr> in
      if \<not> c_trace c then (r, c)
      else (r, xlog P
        [''open('' @ quot, printq False path, quot @ '', '', if fd = 0 then ''O_RDONLY'' else ''O_CREAT|O_WRONLY'',
         if trunc then ''|O_TRUNC'' else [], if fd \<noteq> 0 then '', 0666'' else [], '') = '',
         printi64 (if r then fd else -1), [nl]] c))"

definition seek_name :: "int \<Rightarrow> string" where
  "seek_name whence =
     (if whence = PLT_SEEK_SET then ''SEEK_SET'' else if whence = PLT_SEEK_CUR then ''SEEK_CUR'' else ''SEEK_END'')"

definition xxd_seek :: "'w xplt \<Rightarrow> int \<Rightarrow> int \<Rightarrow> int \<Rightarrow> 'w xctx \<Rightarrow> int \<times> 'w xctx" where
  "xxd_seek P fd off whence c =
     (let (r, w) = p_seek P fd off whence (c_plt c); c = c\<lparr>c_plt := w\<rparr> in
      if \<not> c_trace c then (r, c)
      else (r, xlog P
        [''lseek('', printi64 fd, '', '', printi64 off, '', '', seek_name whence, '') = '', printi64 r, [nl]] c))"

definition xxd_read :: "'w xplt \<Rightarrow> int \<Rightarrow> 'w xctx \<Rightarrow> string option \<times> 'w xctx" where
  "xxd_read P len c =
     (let (r, w) = p_read P len (c_plt c); r = map_option (take (nat len)) r; c = c\<lparr>c_plt := w\<rparr> in
      if \<not> c_trace c then (r, c)
      else (r, xlog P
        [''read(0, ..., '', printi64 len, '') = '', printi64 (case r of None \<Rightarrow> -1 | Some d \<Rightarrow> int (length d)), [nl]] c))"

definition write_excerpt :: "string \<Rightarrow> string list" where
  "write_excerpt buf =
     (if 12 < length buf
      then [printq False (take 6 buf), ''...'', printq False (drop (length buf - 6) buf)]
      else [printq False buf])"

definition xxd_write :: "'w xplt \<Rightarrow> int \<Rightarrow> string \<Rightarrow> 'w xctx \<Rightarrow> bool \<times> 'w xctx" where
  "xxd_write P fd buf c =
     (let (r, w) = p_write P fd buf (c_plt c); c = c\<lparr>c_plt := w\<rparr> in
      if \<not> c_trace c \<or> fd = 2 then (r, c)
      else (r, xlog P
        ([''write('', printi64 fd, '', '' @ quot] @ write_excerpt buf @
         [quot @ '', '', printi64 (int (length buf)), '') = '', printi64 (if r then int (length buf) else -1), [nl]]) c))"

text \<open>The last line of the log before \<open>plt_exit\<close>, and before returning from \<open>xxd\<close>.\<close>

definition log_exit :: "'w xplt \<Rightarrow> int \<Rightarrow> 'w xctx \<Rightarrow> 'w xctx" where
  "log_exit P r c = (if c_trace c then xlog P [''exit('', printi64 r, '') = ?'' @ [nl]] c else c)"

section \<open>Model: input\<close>

record xin =
  i_limit :: int
  i_buf :: string
  i_eof :: bool
  i_err :: bool

definition new_xin :: xin where
  "new_xin = \<lparr>i_limit = 2 ^ 63 - 1, i_buf = [], i_eof = False, i_err = False\<rparr>"

type_synonym 'w in_state = "xin \<times> 'w xctx"

definition refill :: "'w xplt \<Rightarrow> 'w in_state \<Rightarrow> 'w in_state" where
  "refill P = (\<lambda>(i, c).
     if \<not> i_eof i then
       let want = (if i_limit i < 2 ^ 12 then i_limit i else 2 ^ 12);
           (data, err, c) = (if want \<noteq> 0
             then (case xxd_read P want c of (None, c) \<Rightarrow> ([], True, c) | (Some d, c) \<Rightarrow> (d, i_err i, c))
             else ([], i_err i, c))
       in (i\<lparr>i_buf := data, i_err := err, i_limit := i_limit i - int (length data), i_eof := (data = [])\<rparr>, c)
     else (i, c))"

function readseek :: "'w xplt \<Rightarrow> int \<Rightarrow> 'w in_state \<Rightarrow> bool \<times> 'w in_state" where
  "readseek P len (i, c) =
     (if len \<le> 0 then (True, (i, c))
      else
        case xxd_read P (if len < 2 ^ 12 then len else 2 ^ 12) c of
          (None, c) \<Rightarrow> (False, (i\<lparr>i_eof := True, i_err := True\<rparr>, c))
        | (Some d, c) \<Rightarrow>
            if d = [] then (False, (i\<lparr>i_eof := True, i_err := True\<rparr>, c))
            else readseek P (len - int (length d)) (i, c))"
  by pat_completeness auto
termination
  by (relation "measure (\<lambda>(P, len, st). nat len)") auto

text \<open>The buffer at the head of a reading loop: refilled when it is empty.\<close>

definition ready :: "'w xplt \<Rightarrow> 'w in_state \<Rightarrow> 'w in_state" where
  "ready P st = (if i_buf (fst st) = [] then refill P st else st)"

text \<open>What the input can still give, and its order of the reading loops.\<close>

definition in_pending :: "xin \<Rightarrow> nat" where
  "in_pending i = nat (i_limit i) + length (i_buf i)"

definition fuel_left :: "xin \<Rightarrow> nat" where
  "fuel_left i = 2 * nat (i_limit i) + (if i_buf i = [] then 0 else 1)"

lemma xxd_read_short: "xxd_read P n c = (Some d, c') \<Longrightarrow> length d \<le> nat n"
  by (auto simp: xxd_read_def Let_def split: prod.splits if_splits)

lemma refill_spec:
  assumes "i_buf i = []"
  shows "in_pending (fst (refill P (i, c))) = in_pending i"
    "\<not> i_eof (fst (refill P (i, c))) \<Longrightarrow> i_buf (fst (refill P (i, c))) \<noteq> []"
    "i_eof (fst (refill P (i, c))) \<Longrightarrow> i_buf (fst (refill P (i, c))) = []"
  using assms
  by (auto simp: refill_def in_pending_def Let_def split: prod.splits option.splits if_splits dest!: xxd_read_short)

lemma ready_spec:
  shows "in_pending (fst (ready P st)) = in_pending (fst st)"
    "i_eof (fst (ready P st)) \<Longrightarrow> i_buf (fst st) = [] \<Longrightarrow> i_buf (fst (ready P st)) = []"
    "i_buf (fst (ready P st)) = [] \<Longrightarrow> i_eof (fst (ready P st))"
  using refill_spec[of "fst st" P "snd st"] by (fastforce simp: ready_def split: if_splits)+

lemma ready_consume:
  assumes "ready P st = (i', c')" "\<not> i_eof i'"
  shows "fuel_left (i'\<lparr>i_buf := []\<rparr>) < fuel_left (fst st)"
proof (cases "i_buf (fst st) = []")
  case True
  then have "(i', c') = refill P st" using assms(1) by (simp add: ready_def)
  then have "i_buf i' \<noteq> []" "in_pending i' = in_pending (fst st)"
    using refill_spec[OF True, of P "snd st"] assms(2) by (simp_all add: prod_eq_iff)
  moreover from this(1) have "0 < length (i_buf i')" by simp
  ultimately have "nat (i_limit i') < nat (i_limit (fst st))"
    unfolding in_pending_def using True by (simp only: list.size add_0_right)
  then show ?thesis using True by (simp add: fuel_left_def)
next
  case False
  then show ?thesis using assms(1) by (auto simp: ready_def fuel_left_def)
qed

text \<open>The next line with its newline; an empty one is the end of the input.\<close>

function nextline :: "'w xplt \<Rightarrow> string \<Rightarrow> 'w in_state \<Rightarrow> string \<times> 'w in_state" where
  "nextline P line st =
     (let (i, c) = ready P st;
          cut = length (takeWhile (\<lambda>x. x \<noteq> nl) (i_buf i));
          found = cut < length (i_buf i);
          n = cut + (if found then 1 else 0);
          line = line @ take n (i_buf i);
          i' = i\<lparr>i_buf := drop n (i_buf i)\<rparr>
      in if found \<or> i_eof i then (line, (i', c)) else nextline P line (i', c))"
  by pat_completeness auto
termination
proof (relation "measure (\<lambda>(P, line, st). fuel_left (fst st))", goal_cases)
  case (2 P line st x i c cut found n line' i')
  then have "drop n (i_buf i) = []" by (auto split: if_splits)
  then show ?case using ready_consume[of P st i c] 2 by simp
qed simp

declare nextline.simps [simp del]

function nextbytes :: "'w xplt \<Rightarrow> nat \<Rightarrow> string \<Rightarrow> 'w in_state \<Rightarrow> string \<times> 'w in_state" where
  "nextbytes P len r st =
     (if len \<le> length r then (r, st)
      else
        let (i, c) = ready P st; avail = i_buf i in
        if len - length r \<le> length avail
        then (r @ take (len - length r) avail, (i\<lparr>i_buf := drop (len - length r) avail\<rparr>, c))
        else if i_eof i then (r @ avail, (i\<lparr>i_buf := []\<rparr>, c))
        else nextbytes P len (r @ avail) (i\<lparr>i_buf := []\<rparr>, c))"
  by pat_completeness auto
termination
proof (relation "measure (\<lambda>(P, len, r, st). fuel_left (fst st))", goal_cases)
  case (2 P len r st x i c avail)
  then show ?case using ready_consume[of P st i c] by simp
qed simp

declare nextbytes.simps [simp del]

definition next_byte :: "'w xplt \<Rightarrow> 'w in_state \<Rightarrow> char option \<times> 'w in_state" where
  "next_byte P st =
     (let (i, c) = (if i_buf (fst st) = [] \<and> \<not> i_eof (fst st) then refill P st else st) in
      if i_eof i then (None, (i, c)) else (Some (hd (i_buf i)), (i\<lparr>i_buf := tl (i_buf i)\<rparr>, c)))"

section \<open>Model: output\<close>

type_synonym 'w xo_state = "xout \<times> 'w xctx"

definition bout :: "'w xplt \<Rightarrow> string \<Rightarrow> 'w xo_state \<Rightarrow> 'w xo_state" where
  "bout P = xoutput (xxd_write P)"

definition bflush :: "'w xplt \<Rightarrow> 'w xo_state \<Rightarrow> 'w xo_state" where
  "bflush P = xflush (xxd_write P)"

definition zero_fill :: "'w xplt \<Rightarrow> int \<Rightarrow> 'w xo_state \<Rightarrow> 'w xo_state option" where
  "zero_fill P pos = while_option (\<lambda>(b, c). x_fpos b < pos) (bout P [CHR 0x00])"

definition seekout :: "'w xplt \<Rightarrow> int \<Rightarrow> 'w xo_state \<Rightarrow> 'w xo_state option" where
  "seekout P pos = (\<lambda>(b, c).
     if \<not> x_err b \<and> pos \<noteq> x_fpos b then
       let ((b, c), r) =
         (if \<not> x_noseek b then
            let (b, c) = bflush P (b, c) in
            if x_err b then ((b, c), None)
            else let (r, c) = xxd_seek P 1 pos PLT_SEEK_SET c in ((b\<lparr>x_noseek := r < 0\<rparr>, c), Some r)
          else ((b, c), Some (-1)))
       in case r of
            None \<Rightarrow> Some (b, c)
          | Some r \<Rightarrow>
              if 0 \<le> r then Some (b\<lparr>x_fpos := r\<rparr>, c)
              else if x_fpos b < pos then zero_fill P pos (b, c)
              else Some (b\<lparr>x_err := True\<rparr>, c)
     else Some (b, c))"

section \<open>Lemmas: reading\<close>

lemma nextbytes_pending:
  "fst (nextbytes P len r st) = r' \<Longrightarrow> in_pending (fst (snd (nextbytes P len r st))) + length r' = in_pending (fst st) + length r"
proof (induction P len r st arbitrary: r' rule: nextbytes.induct)
  case (1 P len r st)
  obtain i c where ic: "ready P st = (i, c)" by fastforce
  have p: "in_pending i = in_pending (fst st)" using ready_spec(1)[of P st] by (simp add: ic)
  show ?case
  proof (cases "len \<le> length r \<or> len - length r \<le> length (i_buf i) \<or> i_eof i")
    case True
    then show ?thesis using 1(2) p by (subst (asm) nextbytes.simps, subst nextbytes.simps) (auto simp: ic in_pending_def Let_def)
  next
    case False
    then have "nextbytes P len r st = nextbytes P len (r @ i_buf i) (i\<lparr>i_buf := []\<rparr>, c)"
      by (subst nextbytes.simps) (simp add: ic Let_def)
    then show ?thesis using 1(1)[OF _ ic[symmetric] refl refl _ _ refl] False p 1(2) by (simp add: in_pending_def)
  qed
qed

end
