(* ===== verification/Rexxd_Platform.thy ===== *)
theory Rexxd_Platform
  imports Rexxd_Io
begin

text \<open>
  The contract rexxd's loops need of a platform, as the locale \<open>xplatform\<close>: reads deliver a
  fixed text in pieces, writes to standard output append while there is room, and writing to
  standard error disturbs neither. Under it the readers give the lines and blocks of the
  text whatever the pieces are, and the output arrives in order. The in-memory platform of
  the DLL build of \<open>src/src/rexxd.c\<close> meets it.
\<close>

section \<open>The contract\<close>

text \<open>The bytes the input still gives.\<close>

definition stream :: "('w \<Rightarrow> string) \<Rightarrow> 'w in_state \<Rightarrow> string" where
  "stream rest st = i_buf (fst st) @
     (if i_eof (fst st) then [] else take (nat (i_limit (fst st))) (rest (c_plt (snd st))))"

locale xplatform =
  fixes P :: "'w xplt"
    and rest :: "'w \<Rightarrow> string"
    and content :: "'w \<Rightarrow> string"
    and space :: "'w \<Rightarrow> nat"
    and appending :: "'w \<Rightarrow> bool"
  assumes read_pieces: "0 < n \<Longrightarrow> p_read P n w = (r, w') \<Longrightarrow>
      \<exists>d. r = Some d \<and> length d \<le> nat n \<and> rest w = d @ rest w' \<and> (d = [] \<longrightarrow> rest w = [])"
    and read_keeps: "p_read P n w = (r, w') \<Longrightarrow> content w' = content w \<and> space w' = space w \<and> appending w' = appending w"
    and log_keeps: "p_write P 2 s w = (ok, w') \<Longrightarrow>
      rest w' = rest w \<and> content w' = content w \<and> space w' = space w \<and> appending w' = appending w"
    and write_keeps: "p_write P 1 s w = (ok, w') \<Longrightarrow> rest w' = rest w"
    and write_appends: "appending w \<Longrightarrow> s \<noteq> [] \<Longrightarrow> length s \<le> space w \<Longrightarrow> p_write P 1 s w = (ok, w') \<Longrightarrow>
      ok \<and> content w' = content w @ s \<and> space w' = space w - length s \<and> appending w'"

section \<open>What the buffers leave alone\<close>

lemma xflush_keeps: "(\<And>s a. f (snd (wr (x_fd b) s a)) = f a) \<Longrightarrow> f (snd (xflush wr (b, a))) = f a \<and> x_fd (fst (xflush wr (b, a))) = x_fd b"
  by (auto simp: xflush_def split: prod.splits) (metis snd_conv)

lemma xoutput_loop_keeps:
  "(\<And>s a. f (snd (wr (x_fd (fst st)) s a)) = f a) \<Longrightarrow>
   f (snd (xoutput_loop wr s st)) = f (snd st) \<and> x_fd (fst (xoutput_loop wr s st)) = x_fd (fst st)"
proof (induction s st rule: xoutput_induct[where wr = wr])
  case (step s b a count b1)
  have fd: "x_fd b1 = x_fd b" using step(2) by (auto simp: fill_buf_def Let_def)
  then show ?case
    using step(3,4) xflush_keeps[of f wr b1 a]
    unfolding xoutput_loop_step[OF step(1,2)] by (auto split: if_splits)
qed (simp add: xoutput_loop_stop)

lemma with_be_keeps:
  assumes "\<And>s w. f (snd (p_write P 2 s w)) = f w" "x_fd (c_be c) = 2"
  shows "f (c_plt (eprint P s c)) = f (c_plt c) \<and> x_fd (c_be (eprint P s c)) = 2 \<and> c_trace (eprint P s c) = c_trace c"
    "f (c_plt (eflush P c)) = f (c_plt c) \<and> x_fd (c_be (eflush P c)) = 2 \<and> c_trace (eflush P c) = c_trace c"
  using xoutput_loop_keeps[of f "p_write P" "(c_be c\<lparr>x_err := e\<rparr>, c_plt c)" s for e]
    xflush_keeps[of f "p_write P" "c_be c" "c_plt c"] assms
  by (simp_all add: eprint_def eflush_def with_be_def xoutput_def case_prod_beta)

lemma xlog_keeps:
  assumes "\<And>s w. f (snd (p_write P 2 s w)) = f w" "x_fd (c_be c) = 2"
  shows "f (c_plt (xlog P ss c)) = f (c_plt c) \<and> x_fd (c_be (xlog P ss c)) = 2 \<and> c_trace (xlog P ss c) = c_trace c"
proof -
  have "x_fd (c_be c) = 2 \<Longrightarrow> f (c_plt (fold (eprint P) ss c)) = f (c_plt c) \<and> x_fd (c_be (fold (eprint P) ss c)) = 2 \<and>
      c_trace (fold (eprint P) ss c) = c_trace c"
    by (induction ss arbitrary: c) (simp_all add: with_be_keeps(1)[where f = f, OF assms(1)])
  then show ?thesis using with_be_keeps(2)[where f = f, OF assms(1)] assms(2) by (simp add: xlog_def)
qed

section \<open>What the loops see under the contract\<close>

definition in_ok :: "'w in_state \<Rightarrow> bool" where
  "in_ok st \<longleftrightarrow> 0 \<le> i_limit (fst st) \<and> \<not> i_err (fst st) \<and> (i_eof (fst st) \<longrightarrow> i_buf (fst st) = []) \<and>
    x_fd (c_be (snd st)) = 2"

definition first_line :: "string \<Rightarrow> string" where
  "first_line s = takeWhile (\<lambda>x. x \<noteq> nl) s @ (if nl \<in> set s then [nl] else [])"

text \<open>A good output: nothing failed, the buffer not full, writes append.\<close>

definition out_ok :: "('w \<Rightarrow> nat) \<Rightarrow> ('w \<Rightarrow> bool) \<Rightarrow> 'w xo_state \<Rightarrow> bool" where
  "out_ok space appending st \<longleftrightarrow> x_fd (fst st) = 1 \<and> \<not> x_err (fst st) \<and> length (x_buf (fst st)) < 2 ^ 12 \<and>
    appending (c_plt (snd st)) \<and> x_fd (c_be (snd st)) = 2 \<and> length (x_buf (fst st)) \<le> space (c_plt (snd st))"

text \<open>The text of an output, written or waiting, and the room it leaves.\<close>

definition out_text :: "('w \<Rightarrow> string) \<Rightarrow> 'w xo_state \<Rightarrow> string" where
  "out_text content st = content (c_plt (snd st)) @ x_buf (fst st)"

definition out_room :: "('w \<Rightarrow> nat) \<Rightarrow> 'w xo_state \<Rightarrow> nat" where
  "out_room space st = space (c_plt (snd st)) - length (x_buf (fst st))"

context xplatform
begin

definition outs :: "'w \<Rightarrow> string \<times> nat \<times> bool" where
  "outs w = (content w, space w, appending w)"

lemma log_outs: "outs (snd (p_write P 2 s w)) = outs w" "rest (snd (p_write P 2 s w)) = rest w"
  using log_keeps[of s w] by (auto simp: outs_def split: prod.splits) (metis prod.collapse)+

lemma xxd_read_spec:
  assumes "0 < n" "x_fd (c_be c) = 2" "xxd_read P n c = (r, c')"
  shows "\<exists>d. r = Some d \<and> length d \<le> nat n \<and> rest (c_plt c) = d @ rest (c_plt c') \<and> (d = [] \<longrightarrow> rest (c_plt c) = []) \<and>
    outs (c_plt c') = outs (c_plt c) \<and> x_fd (c_be c') = 2"
proof -
  obtain r0 w where p: "p_read P n (c_plt c) = (r0, w)" by fastforce
  from read_pieces[OF assms(1) p] obtain d where
    d: "r0 = Some d" "length d \<le> nat n" "rest (c_plt c) = d @ rest w" "d = [] \<longrightarrow> rest (c_plt c) = []" by blast
  have o: "outs w = outs (c_plt c)" using read_keeps[OF p] by (simp add: outs_def)
  let ?c = "c\<lparr>c_plt := w\<rparr>"
  have l: "rest (c_plt (xlog P ss ?c)) = rest w" "outs (c_plt (xlog P ss ?c)) = outs w" "x_fd (c_be (xlog P ss ?c)) = 2" for ss
    using xlog_keeps[of rest P ?c ss] xlog_keeps[of outs P ?c ss] log_outs assms(2) by simp_all
  have "r = Some d \<and> (c' = ?c \<or> (\<exists>ss. c' = xlog P ss ?c))"
    using assms(3) d(1,2) by (auto simp: xxd_read_def p Let_def split: if_splits)
  then show ?thesis using d l o assms(2) by auto
qed

lemma refill_stream:
  assumes "in_ok st" "i_buf (fst st) = []"
  shows "stream rest (refill P st) = stream rest st" "in_ok (refill P st)"
    "outs (c_plt (snd (refill P st))) = outs (c_plt (snd st))"
proof -
  obtain i c where st: "st = (i, c)" by fastforce
  define want where "want = (if i_limit i < 2 ^ 12 then i_limit i else 2 ^ 12)"
  have "stream rest (refill P st) = stream rest st \<and> in_ok (refill P st) \<and>
      outs (c_plt (snd (refill P st))) = outs (c_plt (snd st))"
  proof (cases "i_eof i \<or> want = 0")
    case True
    then show ?thesis
      using assms by (auto simp: st refill_def stream_def in_ok_def want_def Let_def split: if_splits)
  next
    case False
    then have w: "0 < want" "want \<le> i_limit i" using assms(1) by (auto simp: want_def in_ok_def st)
    obtain r c' where rd: "xxd_read P want c = (r, c')" by fastforce
    have fd: "x_fd (c_be c) = 2" using assms(1) by (simp add: in_ok_def st)
    from xxd_read_spec[OF w(1) fd rd] obtain d where
      d: "r = Some d" "length d \<le> nat want" "rest (c_plt c) = d @ rest (c_plt c')" "d = [] \<longrightarrow> rest (c_plt c) = []"
        "outs (c_plt c') = outs (c_plt c)" "x_fd (c_be c') = 2" by blast
    have re: "refill P st = (i\<lparr>i_buf := d, i_err := i_err i, i_limit := i_limit i - int (length d), i_eof := (d = [])\<rparr>, c')"
      using False rd d(1) unfolding st refill_def prod.case Let_def want_def[symmetric] by simp
    have "take (nat (i_limit i)) (d @ rest (c_plt c')) = d @ take (nat (i_limit i - int (length d))) (rest (c_plt c'))"
      using d(2) w by (simp add: nat_diff_distrib)
    then show ?thesis
      using d w False assms unfolding re by (auto simp: st stream_def in_ok_def)
  qed
  then show "stream rest (refill P st) = stream rest st" "in_ok (refill P st)"
    "outs (c_plt (snd (refill P st))) = outs (c_plt (snd st))" by blast+
qed

lemma ready_stream:
  assumes "in_ok st"
  shows "stream rest (ready P st) = stream rest st" "in_ok (ready P st)"
    "outs (c_plt (snd (ready P st))) = outs (c_plt (snd st))"
    "i_buf (fst (ready P st)) = [] \<Longrightarrow> stream rest st = []"
  using refill_stream[OF assms] assms ready_spec(3)[of P st]
  by (auto simp: ready_def stream_def split: if_splits)

text \<open>A block of the input.\<close>

lemma nextbytes_spec:
  "in_ok st \<Longrightarrow> fst (nextbytes P n r st) = r @ take (n - length r) (stream rest st) \<and>
   stream rest (snd (nextbytes P n r st)) = drop (n - length r) (stream rest st) \<and>
   in_ok (snd (nextbytes P n r st)) \<and> outs (c_plt (snd (snd (nextbytes P n r st)))) = outs (c_plt (snd st))"
proof (induction P\<equiv>P n r st rule: nextbytes.induct)
  case (1 n r st)
  obtain i c where ic: "ready P st = (i, c)" by fastforce
  note rs = ready_stream[OF 1(2), unfolded ic fst_conv snd_conv]
  have s: "stream rest st = i_buf i @ (if i_eof i then [] else take (nat (i_limit i)) (rest (c_plt c)))"
    unfolding rs(1)[symmetric] by (simp add: stream_def)
  consider "n \<le> length r" | "\<not> n \<le> length r" "n - length r \<le> length (i_buf i)"
    | "\<not> n \<le> length r" "\<not> n - length r \<le> length (i_buf i)" "i_eof i"
    | "\<not> n \<le> length r" "\<not> n - length r \<le> length (i_buf i)" "\<not> i_eof i" by blast
  then show ?case
  proof cases
    case 1
    then show ?thesis using \<open>in_ok st\<close> by (simp add: nextbytes.simps)
  next
    case 2
    then have "nextbytes P n r st = (r @ take (n - length r) (i_buf i), (i\<lparr>i_buf := drop (n - length r) (i_buf i)\<rparr>, c))"
      by (subst nextbytes.simps) (simp add: ic Let_def)
    then show ?thesis using 2 rs(2,3) s by (auto simp: stream_def in_ok_def)
  next
    case 3
    then have "nextbytes P n r st = (r @ i_buf i, (i\<lparr>i_buf := []\<rparr>, c))"
      by (subst nextbytes.simps) (simp add: ic Let_def)
    then show ?thesis using 3 rs(2,3) s by (auto simp: stream_def in_ok_def)
  next
    case 4
    then have e: "nextbytes P n r st = nextbytes P n (r @ i_buf i) (i\<lparr>i_buf := []\<rparr>, c)"
      by (subst nextbytes.simps) (simp add: ic Let_def)
    have k: "in_ok (i\<lparr>i_buf := []\<rparr>, c)" using rs(2) by (simp add: in_ok_def)
    have "stream rest st = i_buf i @ stream rest (i\<lparr>i_buf := []\<rparr>, c)" using s 4 by (simp add: stream_def)
    then show ?thesis
      using 1(1)[OF 4(1) ic[symmetric] refl refl 4(2,3) k] rs(3) 4 unfolding e by simp
  qed
qed

text \<open>A line of the input.\<close>

lemma nextline_spec:
  "in_ok st \<Longrightarrow> fst (nextline P l st) = l @ first_line (stream rest st) \<and>
   stream rest (snd (nextline P l st)) = drop (length (first_line (stream rest st))) (stream rest st) \<and>
   in_ok (snd (nextline P l st)) \<and> outs (c_plt (snd (snd (nextline P l st)))) = outs (c_plt (snd st))"
proof (induction P\<equiv>P l st rule: nextline.induct)
  case (1 l st)
  obtain i c where ic: "ready P st = (i, c)" by fastforce
  note rs = ready_stream[OF 1(2), unfolded ic fst_conv snd_conv]
  have s: "stream rest st = i_buf i @ (if i_eof i then [] else take (nat (i_limit i)) (rest (c_plt c)))"
    unfolding rs(1)[symmetric] by (simp add: stream_def)
  define t where "t = takeWhile (\<lambda>x. x \<noteq> nl) (i_buf i)"
  show ?case
  proof (cases "nl \<in> set (i_buf i)")
    case True
    then obtain u where u: "i_buf i = t @ nl # u" "nl \<notin> set t"
      unfolding t_def by (metis split_list_first takeWhile_neq_append)
    have e: "nextline P l st = (l @ t @ [nl], (i\<lparr>i_buf := u\<rparr>, c))"
      using u by (subst nextline.simps) (simp add: ic Let_def text_simps)
    have "first_line (stream rest st) = t @ [nl]" using u s by (simp add: first_line_def text_simps)
    then show ?thesis using u rs(2,3) s unfolding e by (auto simp: stream_def in_ok_def)
  next
    case False
    then have t: "t = i_buf i" by (simp add: t_def text_simps)
    then have nf: "takeWhile (\<lambda>x. x \<noteq> nl) (i_buf i) = i_buf i" by (simp add: t_def)
    then have len: "length (takeWhile (\<lambda>x. x \<noteq> nl) (i_buf i)) = length (i_buf i)" by (rule arg_cong)
    show ?thesis
    proof (cases "i_eof i")
      case True
      then have "nextline P l st = (l @ i_buf i, (i\<lparr>i_buf := []\<rparr>, c))"
        by (subst nextline.simps) (simp add: ic Let_def len)
      then show ?thesis using True False rs(2,3) s nf by (auto simp: stream_def in_ok_def first_line_def)
    next
      case go: False
      have e: "nextline P l st = nextline P (l @ i_buf i) (i\<lparr>i_buf := []\<rparr>, c)"
        using go by (subst nextline.simps) (simp add: ic Let_def len)
      have k: "in_ok (i\<lparr>i_buf := []\<rparr>, c)" using rs(2) by (simp add: in_ok_def)
      have st: "stream rest st = i_buf i @ stream rest (i\<lparr>i_buf := []\<rparr>, c)" using s go by (simp add: stream_def)
      have f: "first_line (i_buf i @ w) = i_buf i @ first_line w" for w
        unfolding first_line_def by (subst takeWhile_append2) (use False in auto)
      have "fst (nextline P (l @ i_buf i) (i\<lparr>i_buf := []\<rparr>, c)) = (l @ i_buf i) @ first_line (stream rest (i\<lparr>i_buf := []\<rparr>, c)) \<and>
          stream rest (snd (nextline P (l @ i_buf i) (i\<lparr>i_buf := []\<rparr>, c))) =
            drop (length (first_line (stream rest (i\<lparr>i_buf := []\<rparr>, c)))) (stream rest (i\<lparr>i_buf := []\<rparr>, c)) \<and>
          in_ok (snd (nextline P (l @ i_buf i) (i\<lparr>i_buf := []\<rparr>, c))) \<and>
          outs (c_plt (snd (snd (nextline P (l @ i_buf i) (i\<lparr>i_buf := []\<rparr>, c))))) = outs (c_plt c)"
        using 1(1)[OF ic[symmetric] refl refl refl refl refl] len go k by simp
      then show ?thesis using rs(3) unfolding e st f by simp
    qed
  qed
qed

lemma next_byte_spec:
  assumes "in_ok st"
  shows "stream rest st = [] \<Longrightarrow> fst (next_byte P st) = None \<and> stream rest (snd (next_byte P st)) = []"
    "stream rest st = x # xs \<Longrightarrow> fst (next_byte P st) = Some x \<and> stream rest (snd (next_byte P st)) = xs"
    "in_ok (snd (next_byte P st))" "outs (c_plt (snd (snd (next_byte P st)))) = outs (c_plt (snd st))"
proof -
  define st1 where "st1 = (if i_buf (fst st) = [] \<and> \<not> i_eof (fst st) then refill P st else st)"
  have r: "stream rest st1 = stream rest st" "in_ok st1" "outs (c_plt (snd st1)) = outs (c_plt (snd st))"
    "\<not> i_eof (fst st1) \<Longrightarrow> i_buf (fst st1) \<noteq> []"
    using refill_stream[OF assms] assms refill_spec(2)[of "fst st" P "snd st"] by (auto simp: st1_def)
  have e: "next_byte P st = (if i_eof (fst st1) then (None, st1)
      else (Some (hd (i_buf (fst st1))), ((fst st1)\<lparr>i_buf := tl (i_buf (fst st1))\<rparr>, snd st1)))"
    by (simp only: next_byte_def st1_def Let_def case_prod_beta) simp
  show "stream rest st = [] \<Longrightarrow> fst (next_byte P st) = None \<and> stream rest (snd (next_byte P st)) = []"
    "stream rest st = x # xs \<Longrightarrow> fst (next_byte P st) = Some x \<and> stream rest (snd (next_byte P st)) = xs"
    "in_ok (snd (next_byte P st))" "outs (c_plt (snd (snd (next_byte P st)))) = outs (c_plt (snd st))"
    using r unfolding e r(1)[symmetric] by (auto simp: stream_def in_ok_def neq_Nil_conv)
qed

text \<open>Writing.\<close>

lemma xxd_write_spec:
  assumes "appending (c_plt c)" "x_fd (c_be c) = 2" "s \<noteq> []" "length s \<le> space (c_plt c)"
    "xxd_write P 1 s c = (ok, c')"
  shows "ok \<and> content (c_plt c') = content (c_plt c) @ s \<and> space (c_plt c') = space (c_plt c) - length s \<and>
    appending (c_plt c') \<and> x_fd (c_be c') = 2 \<and> rest (c_plt c') = rest (c_plt c)"
proof -
  obtain r w where p: "p_write P 1 s (c_plt c) = (r, w)" by fastforce
  note a = write_appends[OF assms(1,3,4) p] write_keeps[OF p]
  let ?c = "c\<lparr>c_plt := w\<rparr>"
  have l: "rest (c_plt (xlog P ss ?c)) = rest w" "outs (c_plt (xlog P ss ?c)) = outs w" "x_fd (c_be (xlog P ss ?c)) = 2" for ss
    using xlog_keeps[of rest P ?c ss] xlog_keeps[of outs P ?c ss] log_outs assms(2) by simp_all
  have "ok = r \<and> (c' = ?c \<or> (\<exists>ss. c' = xlog P ss ?c))"
    using assms(5) by (auto simp: xxd_write_def p Let_def split: if_splits)
  then show ?thesis using a l assms(2) by (auto simp: outs_def)
qed

lemma bflush_spec:
  assumes "x_fd (fst st) = 1" "\<not> x_err (fst st)" "appending (c_plt (snd st))" "x_fd (c_be (snd st)) = 2"
    "length (x_buf (fst st)) \<le> space (c_plt (snd st))"
  shows "out_ok space appending (bflush P st) \<and> out_text content (bflush P st) = out_text content st \<and>
    out_room space (bflush P st) = out_room space st \<and> rest (c_plt (snd (bflush P st))) = rest (c_plt (snd st)) \<and>
    x_buf (fst (bflush P st)) = [] \<and> x_fpos (fst (bflush P st)) = x_fpos (fst st) \<and>
    x_noseek (fst (bflush P st)) = x_noseek (fst st)"
proof (cases "x_buf (fst st) = []")
  case True
  then have "bflush P st = st" by (cases st) (simp add: bflush_def xflush_def)
  then show ?thesis using True assms by (simp add: out_ok_def)
next
  case False
  obtain ok c' where w: "xxd_write P 1 (x_buf (fst st)) (snd st) = (ok, c')" by fastforce
  note a = xxd_write_spec[OF assms(3,4) False assms(5) w]
  have "bflush P st = ((fst st)\<lparr>x_err := False, x_buf := []\<rparr>, c')"
    using a w False assms by (cases st) (simp add: bflush_def xflush_def)
  then show ?thesis using a assms by (simp add: out_ok_def out_text_def out_room_def)
qed

lemma xoutput_loop_spec:
  "out_ok space appending st \<Longrightarrow> length s \<le> out_room space st \<Longrightarrow>
   (let st' = xoutput_loop (xxd_write P) s st in
    out_ok space appending st' \<and> out_text content st' = out_text content st @ s \<and>
    out_room space st' = out_room space st - length s \<and> rest (c_plt (snd st')) = rest (c_plt (snd st)) \<and>
    x_fpos (fst st') = x_fpos (fst st) + int (length s) \<and> x_noseek (fst st') = x_noseek (fst st))"
proof (induction s st rule: xoutput_induct[where wr = "xxd_write P"])
  case (stop s st)
  then have "s = []" by (auto simp: out_ok_def)
  then show ?case using stop by (simp add: xoutput_loop_stop)
next
  case (step s b c count b1)
  define st1 where "st1 = (if length (x_buf b1) = 2 ^ 12 then xflush (xxd_write P) (b1, c) else (b1, c))"
  have b1: "b1 = b\<lparr>x_buf := x_buf b @ take count s, x_fpos := x_fpos b + int count\<rparr>" "count \<le> length s"
    "length (x_buf b1) \<le> 2 ^ 12" "0 < count"
    using step(1,2) by (auto simp: fill_buf_def Let_def split: if_splits)
  have ok: "x_fd b = 1" "\<not> x_err b" "length (x_buf b) < 2 ^ 12" "appending (c_plt c)" "x_fd (c_be c) = 2"
    "length (x_buf b) \<le> space (c_plt c)" using step(4) by (simp_all add: out_ok_def)
  have sp: "length (x_buf b1) \<le> space (c_plt c)"
    using step(5) ok(6) b1(1,2) by (simp add: out_room_def)
  have t1: "out_text content (b1, c) = out_text content (b, c) @ take count s" "out_room space (b1, c) = out_room space (b, c) - count"
    "x_fpos b1 = x_fpos b + int count" "x_noseek b1 = x_noseek b"
    using b1(1,2) by (simp_all add: out_text_def out_room_def)
  have "out_ok space appending st1 \<and> out_text content st1 = out_text content (b, c) @ take count s \<and>
      out_room space st1 = out_room space (b, c) - count \<and> rest (c_plt (snd st1)) = rest (c_plt c) \<and>
      x_fpos (fst st1) = x_fpos b + int count \<and> x_noseek (fst st1) = x_noseek b"
  proof (cases "length (x_buf b1) = 2 ^ 12")
    case True
    then show ?thesis
      using bflush_spec[of "(b1, c)"] ok sp b1(1) t1 by (simp add: st1_def bflush_def)
  next
    case False
    then show ?thesis using ok sp b1 t1 by (simp add: st1_def out_ok_def)
  qed
  note st1 = this
  have "length (drop count s) \<le> out_room space st1" using st1 step(5) by simp
  from step(3)[folded st1_def, OF _ this] st1 show ?case
    unfolding xoutput_loop_step[OF step(1,2)] st1_def[symmetric] using b1(2) by (simp add: Let_def)
qed

text \<open>A state of the output after more text.\<close>

definition appends :: "'w xo_state \<Rightarrow> string \<Rightarrow> 'w xo_state \<Rightarrow> bool" where
  "appends st s st' \<longleftrightarrow> out_ok space appending st' \<and> out_text content st' = out_text content st @ s \<and>
    out_room space st' = out_room space st - length s \<and> rest (c_plt (snd st')) = rest (c_plt (snd st)) \<and>
    x_fpos (fst st') = x_fpos (fst st) + int (length s) \<and> x_noseek (fst st') = x_noseek (fst st)"

definition fits :: "'w xo_state \<Rightarrow> nat \<Rightarrow> bool" where
  "fits st n \<longleftrightarrow> out_ok space appending st \<and> n \<le> out_room space st \<and> x_fpos (fst st) + int n < 2 ^ 63"

lemma appends_trans: "appends st s st' \<Longrightarrow> appends st' t st'' \<Longrightarrow> appends st (s @ t) st''"
  by (auto simp: appends_def)

lemma appends_refl: "out_ok space appending st \<Longrightarrow> appends st [] st"
  by (simp add: appends_def)

lemma appends_fits: "appends st s st' \<Longrightarrow> fits st (length s + n) \<Longrightarrow> fits st' n"
  by (auto simp: appends_def fits_def)

lemma fits_less: "fits st n \<Longrightarrow> m \<le> n \<Longrightarrow> fits st m"
  by (auto simp: fits_def)

lemma bout_spec:
  assumes "fits st (length s)"
  shows "appends st s (bout P s st)"
proof -
  note assms = assms[unfolded fits_def]
  have e: "(fst st)\<lparr>x_err := False\<rparr> = fst st" using assms by (intro xout.equality) (simp_all add: out_ok_def)
  have "bout P s st = xoutput_loop (xxd_write P) s ((fst st)\<lparr>x_err := False\<rparr>, snd st)"
    using assms by (simp add: bout_def xoutput_def out_ok_def case_prod_beta)
  then have "bout P s st = xoutput_loop (xxd_write P) s st" unfolding e by simp
  then show ?thesis using xoutput_loop_spec[of st s] assms by (simp add: Let_def appends_def)
qed

end

section \<open>The in-memory platform\<close>

text \<open>The platform of the DLL build: reads from one string, writes into another of a fixed
  capacity, which a seek can only move back in.\<close>

record dll_plt =
  d_input :: string
  d_inpos :: nat
  d_output :: string
  d_outpos :: int
  d_outcap :: int

definition dll_seek :: "int \<Rightarrow> int \<Rightarrow> int \<Rightarrow> dll_plt \<Rightarrow> int \<times> dll_plt" where
  "dll_seek fd off whence plt = (if d_outpos plt < off then (-1, plt) else (off, plt\<lparr>d_outpos := off\<rparr>))"

definition dll_read :: "int \<Rightarrow> dll_plt \<Rightarrow> string option \<times> dll_plt" where
  "dll_read len plt =
     (let avail = length (d_input plt) - d_inpos plt; len = (if nat len < avail then nat len else avail)
      in (Some (take len (drop (d_inpos plt) (d_input plt))), plt\<lparr>d_inpos := d_inpos plt + len\<rparr>))"

definition dll_write :: "int \<Rightarrow> string \<Rightarrow> dll_plt \<Rightarrow> bool \<times> dll_plt" where
  "dll_write fd buf plt =
     (if fd = 2 then (True, plt)
      else if d_outcap plt - d_outpos plt < int (length buf) then (False, plt)
      else
        let out = d_output plt @ replicate (nat (d_outpos plt) - length (d_output plt)) (CHR 0x00);
            n = nat (d_outpos plt)
        in (True, plt\<lparr>d_output := take n out @ buf @ drop (n + length buf) out,
             d_outpos := d_outpos plt + int (length buf)\<rparr>))"

definition dll_platform :: "dll_plt xplt" where
  "dll_platform = \<lparr>p_open = \<lambda>fd path trunc plt. (False, plt), p_seek = dll_seek, p_read = dll_read, p_write = dll_write\<rparr>"

definition dll_rest :: "dll_plt \<Rightarrow> string" where
  "dll_rest plt = drop (d_inpos plt) (d_input plt)"

definition dll_space :: "dll_plt \<Rightarrow> nat" where
  "dll_space plt = nat (d_outcap plt - int (length (d_output plt)))"

definition dll_appending :: "dll_plt \<Rightarrow> bool" where
  "dll_appending plt \<longleftrightarrow> d_outpos plt = int (length (d_output plt))"

interpretation dll: xplatform dll_platform dll_rest d_output dll_space dll_appending
proof
  show "\<exists>d. r = Some d \<and> length d \<le> nat n \<and> dll_rest w = d @ dll_rest w' \<and> (d = [] \<longrightarrow> dll_rest w = [])"
    if "0 < n" "p_read dll_platform n w = (r, w')" for n w r w'
    using that by (auto simp: dll_platform_def dll_read_def dll_rest_def Let_def min_def drop_drop add.commute
        simp flip: drop_drop split: if_splits)
  show "ok \<and> d_output w' = d_output w @ s \<and> dll_space w' = dll_space w - length s \<and> dll_appending w'"
    if "dll_appending w" "s \<noteq> []" "length s \<le> dll_space w" "p_write dll_platform 1 s w = (ok, w')" for w s ok w'
  proof -
    have "0 < length s" using that(2) by simp
    then have "int (length s) \<le> d_outcap w - int (length (d_output w))" using that(3) unfolding dll_space_def by linarith
    then show ?thesis
      using that by (auto simp: dll_platform_def dll_write_def dll_space_def dll_appending_def Let_def nat_diff_distrib split: if_splits)
  qed
qed (auto simp: dll_platform_def dll_read_def dll_write_def dll_rest_def dll_space_def dll_appending_def Let_def
    split: if_splits)

end
