(* ===== verification/Rexxd_Dump.thy ===== *)
theory Rexxd_Dump
  imports Rexxd_Platform
begin

text \<open>
  The four dumps of \<open>src/src/rexxd.c\<close>: \<open>run_hexdump\<close>, \<open>run_bindump\<close>, \<open>run_include\<close> and
  \<open>run_postscript\<close>. A dump fills a template of one line at precomputed columns; the template
  is a list, kept from line to line as in the code. \<open>run_hexdump\<close> and \<open>run_bindump\<close> share
  their loop, which takes what differs as \<open>dumpfmt\<close>. The state of a loop is the input, the
  output and the context (\<open>xstate\<close>).
\<close>

section \<open>Model\<close>

record xconf =
  xc_dispoff :: "64 word"
  xc_rseek :: int
  xc_ncols :: int
  xc_grouplen :: int
  xc_inpath :: "string option"
  xc_outpath :: "string option"
  xc_name :: "string option"
  xc_autoskip :: bool
  xc_capitalize :: bool
  xc_decimal :: bool
  xc_ebcdic :: bool
  xc_lendian :: bool
  xc_reverse :: bool
  xc_upper :: bool

abbreviation ncols :: "xconf \<Rightarrow> nat" where "ncols c \<equiv> nat (xc_ncols c)"
abbreviation grouplen :: "xconf \<Rightarrow> nat" where "grouplen c \<equiv> nat (xc_grouplen c)"

definition display :: "xconf \<Rightarrow> char \<Rightarrow> char" where
  "display c = display_of (if xc_ebcdic c then ebcdic_table else ascii_table)"

definition ngroups :: "xconf \<Rightarrow> nat" where
  "ngroups c = (ncols c - 1 + grouplen c) div grouplen c"

text \<open>The base of the text column when a byte takes \<open>w\<close> characters.\<close>

definition txtbase :: "nat \<Rightarrow> xconf \<Rightarrow> nat" where
  "txtbase w c = 3 + w * ncols c + ngroups c + (if ncols c mod ngroups c \<noteq> 0 then 1 else 0)"

definition templlen :: "nat \<Rightarrow> xconf \<Rightarrow> nat" where
  "templlen w c = txtbase w c + ncols c + 1"

definition new_template :: "nat \<Rightarrow> string" where
  "new_template len = CHR '':'' # replicate (len - 1) spc"

definition hexoff :: "xconf \<Rightarrow> nat \<Rightarrow> nat" where
  "hexoff c i =
     (let hi = 2 + i div grouplen c in
      if xc_lendian c
      then hi + i div grouplen c * grouplen c * 2 + (grouplen c - 1 - i mod grouplen c) * 2
      else hi + 2 * i)"

definition binoff :: "xconf \<Rightarrow> nat \<Rightarrow> nat" where
  "binoff c i = 8 * i + 2 + i div grouplen c"

text \<open>A cell at an offset: the bytes of \<open>s\<close> one after the other.\<close>

fun put_at :: "nat \<Rightarrow> string \<Rightarrow> string \<Rightarrow> string" where
  "put_at p [] t = t"
| "put_at p (x # xs) t = put_at (Suc p) xs (t[p := x])"

definition bits_of :: "char \<Rightarrow> string" where
  "bits_of v = map (\<lambda>k. char_of (48 + (of_char v div 2 ^ k mod 2 :: nat))) [7, 6, 5, 4, 3, 2, 1, 0]"

text \<open>The bytes of a line go into their cells and the text column, then the cells of a short
  line are cleared and the newline set.\<close>

fun fill_cells :: "(nat \<Rightarrow> nat) \<Rightarrow> (char \<Rightarrow> string) \<Rightarrow> (char \<Rightarrow> char) \<Rightarrow> nat \<Rightarrow> nat \<Rightarrow> string \<Rightarrow> string \<Rightarrow> string" where
  "fill_cells off cell disp txt i [] t = t"
| "fill_cells off cell disp txt i (v # vs) t =
     fill_cells off cell disp txt (Suc i) vs ((put_at (off i) (cell v) t)[txt + i := disp v])"

definition clear_cells :: "(nat \<Rightarrow> nat) \<Rightarrow> nat \<Rightarrow> nat \<Rightarrow> nat \<Rightarrow> string \<Rightarrow> string" where
  "clear_cells off w from to t = fold (\<lambda>i. put_at (off i) (replicate w spc)) [from..<to] t"

definition render :: "(nat \<Rightarrow> nat) \<Rightarrow> nat \<Rightarrow> (char \<Rightarrow> string) \<Rightarrow> xconf \<Rightarrow> string \<Rightarrow> string \<Rightarrow> string" where
  "render off w cell c line t =
     (let t = fill_cells off cell (display c) (txtbase w c) 0 line t;
          t = clear_cells off w (length line) (ncols c) t
      in t[txtbase w c + length line := nl])"

definition xhexset :: "xconf \<Rightarrow> string" where
  "xhexset c = hexset (xc_upper c)"

record dumpfmt =
  df_render :: "string \<Rightarrow> string \<Rightarrow> string"
  df_step :: "string \<Rightarrow> nat"
  df_txtbase :: nat
  df_templlen :: nat

type_synonym 'w xstate = "xin \<times> xout \<times> 'w xctx"

text \<open>The end of a run of zero lines.\<close>

definition end_skip :: "'w xplt \<Rightarrow> xconf \<Rightarrow> dumpfmt \<Rightarrow> nat \<Rightarrow> 64 word \<Rightarrow> string \<Rightarrow> string \<Rightarrow> 'w xo_state \<Rightarrow> 'w xo_state" where
  "end_skip P c df skipping offset line t st =
     (if line = [] then
        let st = (if skipping = 2 then bout P (''*'' @ [nl]) st else st);
            st = bout P (printoffset (offset - of_nat (ncols c)) (xc_decimal c)) st
        in bout P (take (df_templlen df) t) st
      else bout P (''*'' @ [nl]) st)"

lemma nextbytes_consumes:
  assumes "(line, (i', x')) = nextbytes P n [] (i, x)" "line \<noteq> []"
  shows "in_pending i' < in_pending i"
proof -
  have "in_pending i' + length line = in_pending i"
    using nextbytes_pending[of P n "[]" "(i, x)" line] assms(1)[symmetric] by simp
  then show ?thesis using assms(2) by (cases line) auto
qed

function dump_loop :: "'w xplt \<Rightarrow> xconf \<Rightarrow> dumpfmt \<Rightarrow> nat \<Rightarrow> bool \<Rightarrow> 64 word \<Rightarrow> string \<Rightarrow> 'w xstate \<Rightarrow> 'w xstate" where
  "dump_loop P c df skipping prevzero offset t (i, b, x) =
     (let (line, (i, x)) = nextbytes P (ncols c) [] (i, x);
          over = (skipping \<noteq> 0 \<and> (\<not> allzeros line \<or> length line \<noteq> ncols c));
          (b, x) = (if over then end_skip P c df skipping offset line t (b, x) else (b, x));
          skipping = (if over then 0 else skipping)
      in if line = [] then (i, b, x)
         else
           let t = df_render df line t;
               lineoff = offset;
               offset = offset + of_nat (df_step df line);
               zero = (allzeros line \<and> length line = ncols c)
           in if xc_autoskip c \<and> zero \<and> prevzero
              then dump_loop P c df (if skipping < 1 then 1 else 2) prevzero offset t (i, b, x)
              else
                let skipping = (if xc_autoskip c \<and> \<not> zero then 0 else skipping);
                    prevzero = (if xc_autoskip c then zero else prevzero);
                    (b, x) = bout P (printoffset lineoff (xc_decimal c)) (b, x);
                    (b, x) = bout P (take (df_txtbase df + length line + 1) t) (b, x)
                in dump_loop P c df skipping prevzero offset t (i, b, x))"
  by pat_completeness auto
termination
proof (relation "measure (\<lambda>(P, c, df, sk, pz, off, t, (i, b, x)). in_pending i)", goal_cases)
  case 1
  show ?case by simp
next
  case (2 P c df skipping prevzero offset t i b x xa line y i' x')
  then show ?case using nextbytes_consumes[of line i' x' P "ncols c" i x] by auto
next
  case (3 P c df skipping prevzero offset t i b x xa line y i' x')
  then show ?case using nextbytes_consumes[of line i' x' P "ncols c" i x] by auto
qed

declare dump_loop.simps [simp del]

definition hexfmt :: "xconf \<Rightarrow> dumpfmt" where
  "hexfmt c = \<lparr>df_render = render (hexoff c) 2 (hexpair (xhexset c)) c, df_step = length,
    df_txtbase = txtbase 2 c, df_templlen = templlen 2 c\<rparr>"

definition binfmt :: "xconf \<Rightarrow> dumpfmt" where
  "binfmt c = \<lparr>df_render = render (binoff c) 8 bits_of c, df_step = (\<lambda>_. ncols c),
    df_txtbase = txtbase 8 c, df_templlen = templlen 8 c\<rparr>"

definition run_hexdump :: "'w xplt \<Rightarrow> xconf \<Rightarrow> 'w xstate \<Rightarrow> 'w xstate" where
  "run_hexdump P c st = dump_loop P c (hexfmt c) 0 False (xc_dispoff c) (new_template (templlen 2 c)) st"

definition run_bindump :: "'w xplt \<Rightarrow> xconf \<Rightarrow> 'w xstate \<Rightarrow> 'w xstate" where
  "run_bindump P c st = dump_loop P c (binfmt c) 0 False (xc_dispoff c) (new_template (templlen 8 c)) st"

subsection \<open>C source\<close>

definition varstart :: "char \<Rightarrow> bool" where
  "varstart c \<longleftrightarrow> char_in (CHR ''A'') (CHR ''Z'') c \<or> char_in (CHR ''a'') (CHR ''z'') c \<or>
    c = CHR ''$'' \<or> 0x7f < (of_char c :: nat) \<or> c = CHR ''_''"

definition varchar :: "char \<Rightarrow> bool" where
  "varchar c \<longleftrightarrow> varstart c \<or> char_in (CHR ''0'') (CHR ''9'') c"

definition filtername :: "string \<Rightarrow> bool \<Rightarrow> string" where
  "filtername s capitalize =
     (if s = [] \<or> varchar (hd s) \<and> \<not> varstart (hd s) then ''__'' else []) @
     map (\<lambda>c. let c = (if varchar c then c else CHR ''_'') in
       if capitalize \<and> char_in (CHR ''a'') (CHR ''z'') c then char_of (of_char c - 32 :: nat) else c) s"

definition var_name :: "xconf \<Rightarrow> string" where
  "var_name c = (case xc_name c of Some n \<Rightarrow> n
    | None \<Rightarrow> (case xc_inpath c of Some p \<Rightarrow> filtername p (xc_capitalize c) | None \<Rightarrow> []))"

definition include_template :: "xconf \<Rightarrow> string" where
  "include_template c =
     ([CHR '','', nl] @ concat (replicate (ncols c) ('', 0x'' @ [CHR 0x00, CHR 0x00])))[2 := spc]"

definition fill_include :: "xconf \<Rightarrow> string \<Rightarrow> string \<Rightarrow> string" where
  "fill_include c line t = fold (\<lambda>(i, v). put_at (2 + i * 6 + 4) (hexpair (xhexset c) v)) (enumerate 0 line) t"

function include_loop :: "'w xplt \<Rightarrow> xconf \<Rightarrow> int \<Rightarrow> string \<Rightarrow> 'w xstate \<Rightarrow> int \<times> 'w xstate" where
  "include_loop P c len t (i, b, x) =
     (let (line, (i, x)) = nextbytes P (ncols c) [] (i, x) in
      if line = [] then (len, i, b, x)
      else
        let t = fill_include c line t;
            s = take (2 + 6 * length line) t;
            s = (if len = 0 then cuthead s 2 else s);
            (b, x) = bout P s (b, x)
        in include_loop P c (len + int (length line)) t (i, b, x))"
  by pat_completeness auto
termination
proof (relation "measure (\<lambda>(P, c, len, t, (i, b, x)). in_pending i)", goal_cases)
  case (2 P c len t i b x xa line y i' x')
  then show ?case using nextbytes_consumes[of line i' x' P "ncols c" i x] by auto
qed simp

declare include_loop.simps [simp del]

definition run_include :: "'w xplt \<Rightarrow> xconf \<Rightarrow> 'w xstate \<Rightarrow> 'w xstate" where
  "run_include P c = (\<lambda>(i, b, x).
     let named = (xc_name c \<noteq> None \<or> xc_inpath c \<noteq> None);
         st = (if named then fold (bout P) [''unsigned char '', var_name c, ''[] = {'' @ [nl]] (b, x) else (b, x));
         (len, i, st) = include_loop P c 0 (include_template c) (i, st);
         st = (if len \<noteq> 0 then bout P [nl] st else st);
         st = (if named
           then fold (bout P) [''};'' @ [nl] @ ''unsigned int '', var_name c,
             if xc_capitalize c then ''_LEN = '' else ''_len = '', printi64 len, '';'' @ [nl]] st
           else st)
     in (i, st))"

subsection \<open>PostScript style\<close>

definition fill_postscript :: "xconf \<Rightarrow> string \<Rightarrow> string \<Rightarrow> string" where
  "fill_postscript c line t =
     (fold (\<lambda>(i, v). put_at (2 * i) (hexpair (xhexset c) v)) (enumerate 0 line) t)[2 * length line := nl]"

function postscript_loop :: "'w xplt \<Rightarrow> xconf \<Rightarrow> string \<Rightarrow> 'w xstate \<Rightarrow> 'w xstate" where
  "postscript_loop P c t (i, b, x) =
     (let (line, (i, x)) = nextbytes P (ncols c) [] (i, x) in
      if line = [] then (i, b, x)
      else
        let t = fill_postscript c line t;
            (b, x) = bout P (take (1 + 2 * length line) t) (b, x)
        in postscript_loop P c t (i, b, x))"
  by pat_completeness auto
termination
proof (relation "measure (\<lambda>(P, c, t, (i, b, x)). in_pending i)", goal_cases)
  case (2 P c t i b x xa line y i' x')
  then show ?case using nextbytes_consumes[of line i' x' P "ncols c" i x] by auto
qed simp

declare postscript_loop.simps [simp del]

definition run_postscript :: "'w xplt \<Rightarrow> xconf \<Rightarrow> 'w xstate \<Rightarrow> 'w xstate" where
  "run_postscript P c st = postscript_loop P c (replicate (2 * ncols c + 1) (CHR 0x00)) st"

end
