(* ===== verification/Rexxd_Reverse.thy ===== *)
theory Rexxd_Reverse
  imports Rexxd_Dump
begin

text \<open>
  Reversing a dump in \<open>src/src/rexxd.c\<close>: \<open>accumulate\<close> and \<open>finish\<close>, which collect hexadecimal
  digits eight bytes at a time, \<open>run_rhexdump\<close> and \<open>run_rpostscript\<close>. The view
  \<open>hexdumptrim\<close> gives may reach one byte past the line; \<open>beyond\<close> is what stands there in
  memory (the next unread byte of the buffer, when there is one). \<open>run_rhexdump\<close> is an option
  because \<open>seekout\<close> need not return.
\<close>

section \<open>Model\<close>

unbundle bit_operations_syntax

record accum =
  ac_accum :: "64 word"
  ac_len :: nat

definition new_accum :: accum where
  "new_accum = \<lparr>ac_accum = 0, ac_len = 0\<rparr>"

definition accum_bytes :: "64 word \<Rightarrow> string" where
  "accum_bytes x = map (\<lambda>k. char_of (unat (drop_bit k x))) [56, 48, 40, 32, 24, 16, 8, 0]"

text \<open>The length is a \<open>u32\<close>.\<close>

definition accumulate :: "'w xplt \<Rightarrow> char \<Rightarrow> accum \<times> 'w xo_state \<Rightarrow> accum \<times> 'w xo_state" where
  "accumulate P c = (\<lambda>(a, st).
     let v = nibbleval c in
     if 0 \<le> v then
       let a = a\<lparr>ac_accum := push_bit 4 (ac_accum a) OR word_of_int v, ac_len := (ac_len a + 1) mod 2 ^ 32\<rparr> in
       (a, if ac_len a mod 16 = 0 then bout P (accum_bytes (ac_accum a)) st else st)
     else (a, st))"

definition finish_accum :: "'w xplt \<Rightarrow> accum \<Rightarrow> 'w xo_state \<Rightarrow> 'w xo_state" where
  "finish_accum P a st =
     (let blen = ac_len a div 2 mod 8 in
      if blen \<noteq> 0 then bout P (take blen (accum_bytes (push_bit ((8 - blen) * 8) (ac_accum a)))) st else st)"

text \<open>What a line does to the output: the address, then the data.\<close>

definition line_data :: "(string \<Rightarrow> xin \<Rightarrow> char) \<Rightarrow> string \<Rightarrow> xin \<Rightarrow> string" where
  "line_data beyond tail i = take (hexdumptrim tail) (tail @ [beyond tail i])"

definition put_data :: "'w xplt \<Rightarrow> string \<Rightarrow> 'w xo_state \<Rightarrow> 'w xo_state" where
  "put_data P data st = (let (a, st) = fold (accumulate P) data (new_accum, st) in finish_accum P a st)"

definition set_err :: "'w xo_state \<Rightarrow> 'w xo_state" where
  "set_err st = ((fst st)\<lparr>x_err := True\<rparr>, snd st)"

definition reverse_line :: "'w xplt \<Rightarrow> (string \<Rightarrow> xin \<Rightarrow> char) \<Rightarrow> int \<Rightarrow> string \<Rightarrow> xin \<Rightarrow> 'w xo_state \<Rightarrow> 'w xo_state option" where
  "reverse_line P beyond rseek line i st =
     (let (head, tail, ok) = cut line (CHR '':'') in
      if \<not> ok then Some st
      else case parseoffet (xtrim head) of
          (PARSE_INVALID, _) \<Rightarrow> Some st
        | (PARSE_OVERFLOW, _) \<Rightarrow> Some (set_err st)
        | (PARSE_OK, offset) \<Rightarrow>
            if 2 ^ 63 - 1 - offset < rseek then Some (set_err st)
            else map_option (put_data P (line_data beyond tail i)) (seekout P (offset + rseek) st))"

lemma nextline_consumes:
  assumes "(line, (i', x')) = nextline P [] (i, x)" "line \<noteq> []"
  shows "in_pending i' < in_pending i"
proof -
  have p: "in_pending (fst (snd (nextline P l st))) + length (fst (nextline P l st)) = in_pending (fst st) + length l" for l st
  proof (induction P l st rule: nextline.induct)
    case (1 P l st)
    obtain i c where ic: "ready P st = (i, c)" by fastforce
    have r: "in_pending i = in_pending (fst st)" using ready_spec(1)[of P st] by (simp add: ic)
    define n where "n = length (takeWhile (\<lambda>x. x \<noteq> nl) (i_buf i)) +
      (if length (takeWhile (\<lambda>x. x \<noteq> nl) (i_buf i)) < length (i_buf i) then 1 else 0)"
    have n: "n \<le> length (i_buf i)" using length_takeWhile_le[of "\<lambda>x. x \<noteq> nl" "i_buf i"] by (auto simp: n_def)
    have e: "nextline P l st = (if length (takeWhile (\<lambda>x. x \<noteq> nl) (i_buf i)) < length (i_buf i) \<or> i_eof i
        then (l @ take n (i_buf i), (i\<lparr>i_buf := drop n (i_buf i)\<rparr>, c))
        else nextline P (l @ take n (i_buf i)) (i\<lparr>i_buf := drop n (i_buf i)\<rparr>, c))"
      unfolding n_def by (subst nextline.simps) (simp only: ic Let_def prod.case)
    show ?case
    proof (cases "length (takeWhile (\<lambda>x. x \<noteq> nl) (i_buf i)) < length (i_buf i) \<or> i_eof i")
      case True
      then show ?thesis unfolding e using n r by (simp add: in_pending_def)
    next
      case False
      show ?thesis
        using 1[OF refl ic[symmetric] refl refl refl refl refl False, folded n_def] n r
        unfolding e if_not_P[OF False] by (simp add: in_pending_def)
    qed
  qed
  have "in_pending i' + length line = in_pending i" using p[of "[]" "(i, x)"] assms(1)[symmetric] by simp
  then show ?thesis using assms(2) by (cases line) auto
qed

function run_rhexdump :: "'w xplt \<Rightarrow> (string \<Rightarrow> xin \<Rightarrow> char) \<Rightarrow> xconf \<Rightarrow> 'w xstate \<Rightarrow> 'w xstate option" where
  "run_rhexdump P beyond c (i, b, x) =
     (if x_err b \<or> i_err i then Some (i, b, x)
      else
        let (line, (i, x)) = nextline P [] (i, x) in
        if line = [] then Some (i, b, x)
        else case reverse_line P beyond (xc_rseek c) line i (b, x) of
            None \<Rightarrow> None
          | Some (b, x) \<Rightarrow> run_rhexdump P beyond c (i, b, x))"
  by pat_completeness auto
termination
proof (relation "measure (\<lambda>(P, beyond, c, (i, b, x)). in_pending i)", goal_cases)
  case (2 P beyond c i b x xa line y i' x')
  then show ?case using nextline_consumes[of line i' x' P i x] by auto
qed simp

declare run_rhexdump.simps [simp del]

lemma next_byte_consumes:
  assumes "(Some v, (i', x')) = next_byte P (i, x)"
  shows "in_pending i' < in_pending i"
proof -
  define st1 where "st1 = (if i_buf i = [] \<and> \<not> i_eof i then refill P (i, x) else (i, x))"
  have e: "next_byte P (i, x) = (if i_eof (fst st1) then (None, st1)
      else (Some (hd (i_buf (fst st1))), ((fst st1)\<lparr>i_buf := tl (i_buf (fst st1))\<rparr>, snd st1)))"
    by (simp only: next_byte_def st1_def Let_def case_prod_beta fst_conv) simp
  have s: "in_pending (fst st1) = in_pending i" "\<not> i_eof (fst st1) \<Longrightarrow> i_buf (fst st1) \<noteq> []"
    using refill_spec[of i P x] by (auto simp: st1_def)
  have "\<not> i_eof (fst st1)" "i' = (fst st1)\<lparr>i_buf := tl (i_buf (fst st1))\<rparr>" using assms by (auto simp: e split: if_splits)
  then show ?thesis using s by (cases "i_buf (fst st1)") (auto simp: in_pending_def)
qed

function rpostscript_loop :: "'w xplt \<Rightarrow> accum \<Rightarrow> 'w xstate \<Rightarrow> 'w xstate" where
  "rpostscript_loop P a (i, b, x) =
     (case next_byte P (i, x) of
        (None, (i, x)) \<Rightarrow> let (b, x) = finish_accum P a (b, x) in (i, b, x)
      | (Some v, (i, x)) \<Rightarrow> let (a, (b, x)) = accumulate P v (a, (b, x)) in rpostscript_loop P a (i, b, x))"
  by pat_completeness auto
termination
  by (relation "measure (\<lambda>(P, a, (i, b, x)). in_pending i)") (auto dest: next_byte_consumes)

declare rpostscript_loop.simps [simp del]

definition run_rpostscript :: "'w xplt \<Rightarrow> 'w xstate \<Rightarrow> 'w xstate" where
  "run_rpostscript P = rpostscript_loop P new_accum"

section \<open>Lemmas: collecting digits\<close>

text \<open>The digits of a text, and bytes by pairs of digits.\<close>

definition digits_of :: "string \<Rightarrow> string" where
  "digits_of s = filter (\<lambda>c. 0 \<le> nibbleval c) s"

definition hex_of :: "string \<Rightarrow> string \<Rightarrow> string" where
  "hex_of hs bs = concat (map (hexpair hs) bs)"

lemma digits_hexpair [simp]: "digits_of (hexpair (hexset u) v) = hexpair (hexset u) v"
  using hexpair_digits[of u v] by (simp add: digits_of_def hexpair_def)

lemma digits_append [simp]: "digits_of (s @ t) = digits_of s @ digits_of t" "digits_of [] = []"
  by (simp_all add: digits_of_def)

lemma digits_hex: "digits_of (hex_of (hexset u) bs) = hex_of (hexset u) bs"
  by (induction bs) (simp_all add: hex_of_def)

text \<open>What a text does to an accumulator, and the bytes it sends to the output on the way.\<close>

definition acc_next :: "char \<Rightarrow> accum \<Rightarrow> accum \<times> string" where
  "acc_next c a =
     (if 0 \<le> nibbleval c then
        let a = a\<lparr>ac_accum := push_bit 4 (ac_accum a) OR word_of_int (nibbleval c), ac_len := (ac_len a + 1) mod 2 ^ 32\<rparr>
        in (a, if ac_len a mod 16 = 0 then accum_bytes (ac_accum a) else [])
      else (a, []))"

fun acc_run :: "string \<Rightarrow> accum \<Rightarrow> accum \<times> string" where
  "acc_run [] a = (a, [])"
| "acc_run (c # s) a = (let (a, p) = acc_next c a; (a, q) = acc_run s a in (a, p @ q))"

lemma acc_run_append: "acc_run (s @ t) a = (let (a, p) = acc_run s a; (a, q) = acc_run t a in (a, p @ q))"
  by (induction s arbitrary: a) (simp_all add: case_prod_beta)

lemma acc_run_digits: "acc_run s a = acc_run (digits_of s) a"
  by (induction s arbitrary: a) (simp_all add: digits_of_def acc_next_def)

lemma accumulate_next:
  "accumulate P c (a, st) = (fst (acc_next c a), if snd (acc_next c a) = [] then st else bout P (snd (acc_next c a)) st)"
  by (simp add: accumulate_def acc_next_def Let_def accum_bytes_def)

lemma push_nibbles:
  "push_bit 4 (push_bit 4 x OR word_of_int (of_char v div 16)) OR word_of_int (of_char v mod 16) =
   push_bit 8 x OR (of_char v :: 64 word)"
proof -
  have r: "0 \<le> (of_char v mod 16 :: int)" "(of_char v mod 16 :: int) < 2 ^ 4" by simp_all
  have "push_bit 4 (word_of_int (of_char v div 16)) OR word_of_int (of_char v mod 16) =
      (word_of_int (push_bit 4 (of_char v div 16) OR (of_char v mod 16)) :: 64 word)"
    by (simp add: push_bit_eq_mult of_int_or_eq)
  also have "\<dots> = word_of_int (of_char v)"
    using or_shift[OF r, of "of_char v div 16"] div_mult_mod_eq[of "of_char v :: int" 16] by simp
  also have "\<dots> = of_char v" by (simp only: of_int_of_char)
  finally show ?thesis by (simp add: push_bit_or or.assoc)
qed

definition acc_ok :: "accum \<Rightarrow> string \<Rightarrow> bool" where
  "acc_ok a pend \<longleftrightarrow> length pend < 8 \<and> ac_len a mod 16 = 2 * length pend \<and>
    (\<forall>k < length pend. octet k (ac_accum a) = of_char (rev pend ! k))"

lemma octet_push8:
  "octet 0 (push_bit 8 x OR of_char v) = of_char v"
  "k < 7 \<Longrightarrow> octet (Suc k) (push_bit 8 x OR of_char v) = octet k x"
  by (rule bit_word_eqI; auto simp: bit_octet bit_or_iff bit_push_bit_iff bit_of_char_word)+

lemma unat_of_char8: "unat (of_char c :: 8 word) = of_char c"
  using unat_of_nat[of "of_char c", where 'a = 8] by (simp add: of_nat_of_char)

lemma char_octet: "char_of (unat (drop_bit (8 * j) x)) = (char_of (unat (octet j x)) :: char)"
proof -
  have "unat (octet j x) = take_bit 8 (unat (drop_bit (8 * j) x))" by (simp add: octet_def unsigned_ucast_eq)
  then show ?thesis by (simp add: char_of_take_bit_eq)
qed

lemma accum_bytes_rev: "accum_bytes x = rev (map (\<lambda>j. char_of (unat (octet j x))) [0..<8])"
proof -
  have "[0..<8] = [0, 1, 2, 3, 4, 5, 6, 7]" by (simp add: upt_rec)
  then show ?thesis
    using char_octet[of 7 x] char_octet[of 6 x] char_octet[of 5 x] char_octet[of 4 x] char_octet[of 3 x]
      char_octet[of 2 x] char_octet[of 1 x] char_octet[of 0 x]
    by (simp add: accum_bytes_def)
qed

text \<open>Octets that are the bytes of \<open>p\<close>, the last one lowest.\<close>

lemma octets_back:
  assumes "\<And>k. k < length p \<Longrightarrow> octet (m + k) x = of_char (rev p ! k)"
  shows "rev (map (\<lambda>j. char_of (unat (octet j x))) [m..<m + length p]) = p"
proof -
  have "map (\<lambda>j. char_of (unat (octet j x))) [m..<m + length p] = rev p"
  proof (rule nth_equalityI)
    fix k assume "k < length (map (\<lambda>j. char_of (unat (octet j x)) :: char) [m..<m + length p])"
    then have k: "k < length p" by simp
    have "char_of (unat (octet (m + k) x)) = char_of (unat (of_char (rev p ! k) :: 8 word))" using assms[OF k] by simp
    also have "\<dots> = rev p ! k" unfolding unat_of_char8 by (rule char_of_char)
    finally show "map (\<lambda>j. char_of (unat (octet j x))) [m..<m + length p] ! k = rev p ! k" using k by simp
  qed simp
  then show ?thesis by simp
qed

lemma accum_bytes_full:
  assumes "\<And>k. k < 8 \<Longrightarrow> octet k x = of_char (rev p ! k)" "length p = 8"
  shows "accum_bytes x = p"
  using octets_back[of p 0 x] assms by (simp add: accum_bytes_rev)

lemma octet_shift: "m + k < 8 \<Longrightarrow> octet (m + k) (push_bit (m * 8) x) = octet k x"
  by (rule bit_word_eqI) (auto simp: bit_octet bit_push_bit_iff algebra_simps)

lemma accum_bytes_shifted:
  assumes "\<And>k. k < length p \<Longrightarrow> octet k x = of_char (rev p ! k)" "length p \<le> 8"
  shows "take (length p) (accum_bytes (push_bit ((8 - length p) * 8) x)) = p"
proof -
  let ?y = "push_bit ((8 - length p) * 8) x"
  have "take (length p) (accum_bytes ?y) = rev (map (\<lambda>j. char_of (unat (octet j ?y))) [8 - length p..<8 - length p + length p])"
    using assms(2) by (simp add: accum_bytes_rev take_rev drop_map)
  also have "\<dots> = p"
    using assms octet_shift[of "8 - length p"] by (intro octets_back) simp
  finally show ?thesis .
qed

lemma acc_byte:
  assumes "even (ac_len a)"
  shows "acc_run (hexpair (hexset u) v) a =
    (let a' = \<lparr>ac_accum = push_bit 8 (ac_accum a) OR of_char v, ac_len = (ac_len a + 2) mod 2 ^ 32\<rparr> in
     (a', if (ac_len a + 2) mod 16 = 0 then accum_bytes (ac_accum a') else []))"
proof -
  define h l where "h = hexset u ! (of_char v div 16)" and "l = hexset u ! (of_char v mod 16)"
  have hp: "hexpair (hexset u) v = [h, l]" by (simp add: hexpair_def h_def l_def)
  have n: "nibbleval h = of_char v div 16" "nibbleval l = of_char v mod 16"
    using hexpair_nibbles[of u v] by (simp_all add: hp)
  have r: "0 \<le> nibbleval h" "0 \<le> nibbleval l" using hexpair_digits[of u v] by (simp_all add: hp)
  have d: "x mod 2 ^ 32 mod 16 = x mod 16" for x :: nat by (simp add: mod_mod_cancel)
  define a1 where "a1 = \<lparr>ac_accum = push_bit 4 (ac_accum a) OR word_of_int (nibbleval h), ac_len = (ac_len a + 1) mod 2 ^ 32\<rparr>"
  have odd: "(ac_len a + 1) mod 16 \<noteq> 0" using assms by presburger
  have "acc_next h a = (a1, [])"
    using odd r(1) by (cases a) (simp add: acc_next_def a1_def Let_def d[simplified])
  moreover have "acc_next l a1 =
    (let a' = \<lparr>ac_accum = push_bit 8 (ac_accum a) OR of_char v, ac_len = (ac_len a + 2) mod 2 ^ 32\<rparr> in
     (a', if (ac_len a + 2) mod 16 = 0 then accum_bytes (ac_accum a') else []))"
  proof -
    have "(ac_len a1 + 1) mod 2 ^ 32 = (ac_len a + 2) mod 2 ^ 32" by (simp add: a1_def mod_Suc_eq)
    moreover have "push_bit 4 (ac_accum a1) OR word_of_int (nibbleval l) = push_bit 8 (ac_accum a) OR of_char v"
      unfolding a1_def accum.simps n by (rule push_nibbles)
    ultimately show ?thesis
      using r(2) d[of "ac_len a + 2"] by (simp only: acc_next_def Let_def) (cases a1; simp)
  qed
  ultimately show ?thesis by (simp add: hp Let_def)
qed

lemma mod16:
  fixes n p :: nat
  assumes "n mod 16 = 2 * p" "p < 8"
  shows "even n" "n div 2 mod 8 = p" "(n + 2) mod 16 = (2 * p + 2) mod 16"
proof -
  define q where "q = n div 16"
  have n: "n = 2 * (8 * q + p)" using div_mult_mod_eq[of n 16] assms(1) by (simp add: q_def)
  show "even n" "n div 2 mod 8 = p" using assms(2) by (simp_all add: n)
  show "(n + 2) mod 16 = (2 * p + 2) mod 16" using mod_add_left_eq[of n 16 2] assms(1) by simp
qed

text \<open>Bytes in progress: those of the last, unfinished group of eight are in the accumulator.\<close>

lemma acc_bytes:
  "acc_ok a pend \<Longrightarrow> \<exists>out pend' a'. acc_run (hex_of (hexset u) bs) a = (a', out) \<and> acc_ok a' pend' \<and> pend @ bs = out @ pend'"
proof (induction bs arbitrary: a pend)
  case Nil
  then show ?case by (simp add: hex_of_def)
next
  case (Cons v bs)
  define x where "x = push_bit 8 (ac_accum a) OR of_char v"
  define a' where "a' = \<lparr>ac_accum = x, ac_len = (ac_len a + 2) mod 2 ^ 32\<rparr>"
  have len: "ac_len a mod 16 = 2 * length pend" "length pend < 8" using Cons.prems(1) by (simp_all add: acc_ok_def)
  note even = mod16(1)[OF len] and next2 = mod16(3)[OF len]
  have m: "ac_len a' mod 16 = (ac_len a + 2) mod 16" by (simp add: a'_def mod_mod_cancel)
  have oct: "octet k x = of_char (rev (pend @ [v]) ! k)" if "k < length (pend @ [v])" for k
    using that Cons.prems(1) len(2) by (cases k) (auto simp: x_def octet_push8 acc_ok_def)
  have f: "acc_run (hex_of (hexset u) (v # bs)) a =
      (let (a2, q) = acc_run (hex_of (hexset u) bs) a' in (a2, (if (ac_len a + 2) mod 16 = 0 then accum_bytes x else []) @ q))"
    using acc_byte[OF even, of u v] by (simp add: hex_of_def acc_run_append a'_def x_def Let_def)
  show ?case
  proof (cases "length pend = 7")
    case True
    have full: "accum_bytes x = pend @ [v]" using accum_bytes_full[of x "pend @ [v]"] oct True by simp
    have z: "(ac_len a + 2) mod 16 = 0" using next2 True by simp
    have "acc_ok a' []" using m z by (simp add: acc_ok_def)
    from Cons.IH[OF this] show ?thesis using z unfolding f full by auto
  next
    case False
    have z: "(ac_len a + 2) mod 16 = 2 * length (pend @ [v])" using next2 False len(2) by simp
    then have nz: "(ac_len a + 2) mod 16 \<noteq> 0" by simp
    have "acc_ok a' (pend @ [v])" using m z False len(2) oct by (simp add: acc_ok_def a'_def del: rev_append)
    from Cons.IH[OF this] show ?thesis using nz unfolding f by auto
  qed
qed

text \<open>The bytes \<open>finish\<close> writes.\<close>

definition acc_rest :: "accum \<Rightarrow> string" where
  "acc_rest a = (let blen = ac_len a div 2 mod 8 in take blen (accum_bytes (push_bit ((8 - blen) * 8) (ac_accum a))))"

lemma acc_rest_ok:
  assumes "acc_ok a pend"
  shows "acc_rest a = pend"
proof -
  have len: "length pend < 8" "ac_len a mod 16 = 2 * length pend" using assms(1) by (simp_all add: acc_ok_def)
  have "take (length pend) (accum_bytes (push_bit ((8 - length pend) * 8) (ac_accum a))) = pend"
    using assms(1) len(1) by (intro accum_bytes_shifted) (auto simp: acc_ok_def)
  then show ?thesis using mod16(2)[OF len(2,1)] by (simp add: acc_rest_def)
qed

text \<open>The digits of \<open>bs\<close> give \<open>bs\<close>.\<close>

definition acc_text :: "string \<Rightarrow> string" where
  "acc_text s = (let (a, out) = acc_run s new_accum in out @ acc_rest a)"

lemma acc_text_hex:
  assumes "digits_of s = hex_of (hexset u) bs"
  shows "acc_text s = bs"
proof -
  have "acc_ok new_accum []" by (simp add: acc_ok_def new_accum_def)
  from acc_bytes[OF this, of u bs] show ?thesis
    using acc_run_digits[of s] assms by (auto simp: acc_text_def acc_rest_ok)
qed

context xplatform
begin

lemma accumulate_run:
  "fits st (length (snd (acc_run s a))) \<Longrightarrow>
   \<exists>st'. fold (accumulate P) s (a, st) = (fst (acc_run s a), st') \<and> appends st (snd (acc_run s a)) st'"
proof (induction s arbitrary: a st)
  case Nil
  then show ?case by (simp add: appends_refl fits_def)
next
  case (Cons c s)
  obtain a1 p where n: "acc_next c a = (a1, p)" by fastforce
  obtain a2 q where r: "acc_run s a1 = (a2, q)" by fastforce
  define st1 where "st1 = (if p = [] then st else bout P p st)"
  have f: "fits st (length p + length q)" using Cons.prems by (simp add: n r)
  then have "fits st (length p)" by (rule fits_less) simp
  then have ap: "appends st p st1" using bout_spec[of st p] by (auto simp: st1_def appends_refl fits_def)
  show ?case
    using Cons.IH[of st1 a1] appends_fits[OF ap f] appends_trans[OF ap] r n
    by (auto simp: accumulate_next st1_def)
qed

lemma finish_spec:
  assumes "fits st (length (acc_rest a))"
  shows "appends st (acc_rest a) (finish_accum P a st)"
  using bout_spec[OF assms] assms
  by (auto simp: finish_accum_def acc_rest_def Let_def appends_refl fits_def)

lemma put_data_spec:
  assumes "digits_of data = hex_of (hexset u) bs" "fits st (length bs)"
  shows "appends st bs (put_data P data st)"
proof -
  define a p where "a = fst (acc_run data new_accum)" and "p = snd (acc_run data new_accum)"
  have bs: "bs = p @ acc_rest a" using acc_text_hex[OF assms(1)] by (simp add: acc_text_def a_def p_def case_prod_beta)
  then have f: "fits st (length p + length (acc_rest a))" using assms(2) by simp
  obtain st1 where *: "fold (accumulate P) data (new_accum, st) = (a, st1)" "appends st p st1"
    using accumulate_run[of st data new_accum] fits_less[OF f le_add1] by (auto simp: a_def p_def)
  show ?thesis
    using appends_trans[OF *(2) finish_spec[OF appends_fits[OF *(2) f]]] *(1) by (simp add: put_data_def bs)
qed

end

end
