(* ===== verification/Rexxd_Row.thy ===== *)
theory Rexxd_Row
  imports Rexxd_Reverse
begin

text \<open>
  The line \<open>run_hexdump\<close> of \<open>src/src/rexxd.c\<close> makes of a block of bytes: which character stands
  in which column, that it does not depend on what the template held before, and where
  \<open>hexdumptrim\<close> ends it. The byte order of \<open>-e\<close> is left out (\<open>plain_conf\<close>).
\<close>

definition plain_conf :: "xconf \<Rightarrow> bool" where
  "plain_conf c \<longleftrightarrow> 0 < xc_ncols c \<and> 0 < xc_grouplen c \<and> \<not> xc_lendian c"

lemma plain_pos: "plain_conf c \<Longrightarrow> 0 < ncols c \<and> 0 < grouplen c"
  by (simp add: plain_conf_def)

section \<open>Columns\<close>

lemma hexoff_plain: "plain_conf c \<Longrightarrow> hexoff c i = 2 + i div grouplen c + 2 * i"
  by (simp add: hexoff_def plain_conf_def)

lemma hexoff_Suc:
  "plain_conf c \<Longrightarrow> hexoff c (Suc i) = hexoff c i + 2 + (if Suc i mod grouplen c = 0 then 1 else 0)"
  using plain_pos[of c] by (simp add: hexoff_plain div_Suc)

lemma hexoff_mono: "plain_conf c \<Longrightarrow> i < j \<Longrightarrow> hexoff c i + 2 \<le> hexoff c j"
proof (induction j)
  case (Suc j)
  then show ?case using hexoff_Suc[of c j] by (cases "i = j") auto
qed simp

lemma hexoff_txtbase: "plain_conf c \<Longrightarrow> i < ncols c \<Longrightarrow> hexoff c i + 4 \<le> txtbase 2 c"
proof -
  assume p: "plain_conf c" and i: "i < ncols c"
  have "i div grouplen c \<le> (ncols c - 1) div grouplen c" using i by (intro div_le_mono) simp
  moreover have "ngroups c = (ncols c - 1) div grouplen c + 1" using plain_pos[OF p] div_add_self2[of "grouplen c" "ncols c - 1"] by (simp add: ngroups_def)
  ultimately show ?thesis using i by (simp add: hexoff_plain[OF p] txtbase_def)
qed

lemma hexoff_end: "plain_conf c \<Longrightarrow> n \<le> ncols c \<Longrightarrow> hexoff c n + (if n mod grouplen c = 0 then 0 else 1) < txtbase 2 c"
proof (cases n)
  case 0
  assume "plain_conf c"
  then show ?thesis using hexoff_txtbase[of c 0] plain_pos[of c] 0 by simp
next
  case (Suc k)
  assume "plain_conf c" "n \<le> ncols c"
  then show ?thesis using hexoff_txtbase[of c k] hexoff_Suc[of c k] Suc by auto
qed

definition cell_col :: "xconf \<Rightarrow> nat \<Rightarrow> nat \<Rightarrow> bool" where
  "cell_col c n p \<longleftrightarrow> (\<exists>i < n. p = hexoff c i \<or> p = Suc (hexoff c i))"

lemma cell_col_less: "plain_conf c \<Longrightarrow> cell_col c n p \<Longrightarrow> p < hexoff c n \<and> 2 \<le> p"
  using hexoff_mono[of c _ n] by (fastforce simp: cell_col_def hexoff_plain)

text \<open>The gap after a group is no column of a cell.\<close>

lemma gap_col: "plain_conf c \<Longrightarrow> Suc k mod grouplen c = 0 \<Longrightarrow> \<not> cell_col c n (hexoff c k + 2)"
proof
  assume p: "plain_conf c" and g: "Suc k mod grouplen c = 0" and "cell_col c n (hexoff c k + 2)"
  then obtain i where i: "hexoff c k + 2 = hexoff c i \<or> hexoff c k + 2 = Suc (hexoff c i)" by (auto simp: cell_col_def)
  have s: "hexoff c (Suc k) = hexoff c k + 3" using hexoff_Suc[OF p, of k] g by simp
  consider "i < k" | "i = k" | "i = Suc k" | "Suc k < i" by linarith
  then show False using i s hexoff_mono[OF p, of i k] hexoff_mono[OF p, of "Suc k" i] by cases auto
qed

section \<open>The template\<close>

definition template_ok :: "xconf \<Rightarrow> string \<Rightarrow> bool" where
  "template_ok c t \<longleftrightarrow> length t = templlen 2 c \<and> t ! 0 = CHR '':'' \<and>
    (\<forall>p. 0 < p \<and> p < txtbase 2 c \<and> \<not> cell_col c (ncols c) p \<longrightarrow> t ! p = spc)"

lemma new_template_ok: "template_ok c (new_template (templlen 2 c))"
  by (auto simp: template_ok_def new_template_def templlen_def txtbase_def nth_Cons')

lemma put_cell: "put_at p (hexpair hs v) t = t[p := hexpair hs v ! 0, Suc p := hexpair hs v ! 1]"
  by (simp add: hexpair_def)

lemma length_put_at [simp]: "length (put_at p s t) = length t"
  by (induction p s t rule: put_at.induct) simp_all

lemma length_fill_cells [simp]: "length (fill_cells off cell disp txt i vs t) = length t"
  by (induction vs arbitrary: i t) simp_all

abbreviation hex_fill :: "xconf \<Rightarrow> nat \<Rightarrow> string \<Rightarrow> string \<Rightarrow> string" where
  "hex_fill c i vs t \<equiv> fill_cells (hexoff c) (hexpair (xhexset c)) (display c) (txtbase 2 c) i vs t"

text \<open>Every character of the line after filling.\<close>

lemma hex_fill_other:
  assumes "plain_conf c"
  shows "i + length vs \<le> ncols c \<Longrightarrow> p < txtbase 2 c + i \<Longrightarrow>
    (\<And>j. j < length vs \<Longrightarrow> p \<noteq> hexoff c (i + j) \<and> p \<noteq> Suc (hexoff c (i + j))) \<Longrightarrow> hex_fill c i vs t ! p = t ! p"
proof (induction vs arbitrary: i t)
  case (Cons v vs)
  have "p \<noteq> hexoff c i" "p \<noteq> Suc (hexoff c i)" using Cons.prems(3)[of 0] by simp_all
  moreover have "hex_fill c (Suc i) vs u ! p = u ! p" for u
    using Cons.prems(1,2) Cons.prems(3)[of "Suc _"] by (intro Cons.IH) auto
  ultimately show ?case using Cons.prems(2) by (simp add: put_cell)
qed simp

lemma hex_fill_cell:
  assumes "plain_conf c"
  shows "length t = templlen 2 c \<Longrightarrow> i + length vs \<le> ncols c \<Longrightarrow> j < length vs \<Longrightarrow>
    hex_fill c i vs t ! hexoff c (i + j) = hexpair (xhexset c) (vs ! j) ! 0 \<and>
    hex_fill c i vs t ! Suc (hexoff c (i + j)) = hexpair (xhexset c) (vs ! j) ! 1 \<and>
    hex_fill c i vs t ! (txtbase 2 c + (i + j)) = display c (vs ! j)"
proof (induction vs arbitrary: i j t)
  case (Cons v vs)
  define u where "u = (put_at (hexoff c i) (hexpair (xhexset c) v) t)[txtbase 2 c + i := display c v]"
  have u: "length u = templlen 2 c" "hex_fill c i (v # vs) t = hex_fill c (Suc i) vs u"
    using Cons.prems(1) by (simp_all add: u_def)
  show ?case
  proof (cases j)
    case 0
    have i: "i < ncols c" using Cons.prems by simp
    have b: "hexoff c i + 4 \<le> txtbase 2 c" by (rule hexoff_txtbase[OF assms i])
    have later: "hexoff c i + 2 \<le> hexoff c (Suc i + k)" for k by (rule hexoff_mono[OF assms]) simp
    have keep: "hex_fill c (Suc i) vs u ! p = u ! p" if "p < txtbase 2 c + Suc i" "p < hexoff c i + 2 \<or> txtbase 2 c \<le> p" for p
    proof (rule hex_fill_other[OF assms])
      show "Suc i + length vs \<le> ncols c" using Cons.prems by simp
      show "p < txtbase 2 c + Suc i" by (rule that)
      fix k assume "k < length vs"
      then have "Suc (hexoff c (Suc i + k)) < txtbase 2 c"
        using hexoff_txtbase[OF assms, of "Suc i + k"] Cons.prems(2) by simp
      then show "p \<noteq> hexoff c (Suc i + k) \<and> p \<noteq> Suc (hexoff c (Suc i + k))" using that(2) later[of k] by auto
    qed
    have "u ! hexoff c i = hexpair (xhexset c) v ! 0" "u ! Suc (hexoff c i) = hexpair (xhexset c) v ! 1"
      "u ! (txtbase 2 c + i) = display c v"
      using Cons.prems(1) b i by (simp_all add: u_def put_cell templlen_def)
    then show ?thesis using keep[of "hexoff c i"] keep[of "Suc (hexoff c i)"] keep[of "txtbase 2 c + i"] b 0 u(2) by simp
  next
    case (Suc k)
    then show ?thesis using Cons.IH[of u "Suc i" k] Cons.prems u by simp
  qed
qed simp

text \<open>Clearing the cells of a short line.\<close>

lemma length_clear [simp]: "length (clear_cells off w from to t) = length t"
proof -
  have "length (fold (\<lambda>i. put_at (off i) s) is t) = length t" for s "is" by (induction "is" arbitrary: t) simp_all
  then show ?thesis by (simp add: clear_cells_def)
qed

lemma clear_nth:
  assumes "plain_conf c" "to \<le> ncols c" "length t = templlen 2 c"
  shows "from \<le> to \<Longrightarrow> clear_cells (hexoff c) 2 from to t ! p =
    (if \<exists>i \<in> {from..<to}. p = hexoff c i \<or> p = Suc (hexoff c i) then spc else t ! p)"
  using assms(2)
proof (induction to)
  case (Suc to)
  show ?case
  proof (cases "from \<le> to")
    case True
    let ?u = "clear_cells (hexoff c) 2 from to t"
    have e: "clear_cells (hexoff c) 2 from (Suc to) t = ?u[hexoff c to := spc, Suc (hexoff c to) := spc]"
      using True by (simp add: clear_cells_def numeral_2_eq_2)
    have "Suc (hexoff c to) < length ?u"
      using hexoff_txtbase[OF assms(1), of to] Suc.prems assms(3) by (simp add: templlen_def)
    moreover have "?u ! p = (if \<exists>i \<in> {from..<to}. p = hexoff c i \<or> p = Suc (hexoff c i) then spc else t ! p)"
      using Suc True by simp
    ultimately show ?thesis using True unfolding e by (auto simp: nth_list_update less_Suc_eq)
  next
    case False
    then have "from = Suc to" using Suc.prems by simp
    then show ?thesis by (simp add: clear_cells_def)
  qed
qed (simp add: clear_cells_def)

section \<open>A rendered line\<close>

definition hex_render :: "xconf \<Rightarrow> string \<Rightarrow> string \<Rightarrow> string" where
  "hex_render c = df_render (hexfmt c)"

lemma hex_render_nth:
  assumes "plain_conf c" "template_ok c t" "length line \<le> ncols c"
  shows "length (hex_render c line t) = templlen 2 c"
    "i < length line \<Longrightarrow> hex_render c line t ! hexoff c i = hexpair (xhexset c) (line ! i) ! 0"
    "i < length line \<Longrightarrow> hex_render c line t ! Suc (hexoff c i) = hexpair (xhexset c) (line ! i) ! 1"
    "i < length line \<Longrightarrow> hex_render c line t ! (txtbase 2 c + i) = display c (line ! i)"
    "hex_render c line t ! (txtbase 2 c + length line) = nl"
    "p < txtbase 2 c \<Longrightarrow> \<not> cell_col c (length line) p \<Longrightarrow> hex_render c line t ! p = (if p = 0 then CHR '':'' else spc)"
proof -
  define u where "u = hex_fill c 0 line t"
  define v where "v = clear_cells (hexoff c) 2 (length line) (ncols c) u"
  have r: "hex_render c line t = v[txtbase 2 c + length line := nl]"
    by (simp add: hex_render_def hexfmt_def render_def u_def v_def Let_def)
  have len: "length t = templlen 2 c" "length u = templlen 2 c" "length v = templlen 2 c"
    using assms(2) by (simp_all add: template_ok_def u_def v_def)
  have n: "length line \<le> ncols c" by (rule assms(3))
  have col: "Suc (hexoff c i) < txtbase 2 c" if "i < ncols c" for i using hexoff_txtbase[OF assms(1) that] by simp
  have v: "v ! q = (if \<exists>i \<in> {length line..<ncols c}. q = hexoff c i \<or> q = Suc (hexoff c i) then spc else u ! q)" for q
    unfolding v_def using clear_nth[OF assms(1) order_refl len(2) n] .
  have rq: "hex_render c line t ! q = v ! q" if "q \<noteq> txtbase 2 c + length line" for q
    using that by (simp add: r)
  have u: "u ! hexoff c i = hexpair (xhexset c) (line ! i) ! 0 \<and> u ! Suc (hexoff c i) = hexpair (xhexset c) (line ! i) ! 1 \<and>
      u ! (txtbase 2 c + i) = display c (line ! i)" if "i < length line" for i
    using hex_fill_cell[OF assms(1) len(1), of 0 line i] n that by (simp add: u_def)
  have kept: "v ! hexoff c i = u ! hexoff c i \<and> v ! Suc (hexoff c i) = u ! Suc (hexoff c i)" if "i < length line" for i
  proof -
    have "hexoff c i + 2 \<le> hexoff c k" if "k \<in> {length line..<ncols c}" for k
      using hexoff_mono[OF assms(1), of i k] \<open>i < length line\<close> that by simp
    then show ?thesis by (fastforce simp: v)
  qed
  show "length (hex_render c line t) = templlen 2 c" using len by (simp add: r)
  show "hex_render c line t ! (txtbase 2 c + length line) = nl" using len n by (simp add: r templlen_def)
  show "hex_render c line t ! hexoff c i = hexpair (xhexset c) (line ! i) ! 0"
    "hex_render c line t ! Suc (hexoff c i) = hexpair (xhexset c) (line ! i) ! 1" if "i < length line"
    using rq[of "hexoff c i"] rq[of "Suc (hexoff c i)"] u[OF that] kept[OF that] col[of i] that n by simp_all
  show "hex_render c line t ! (txtbase 2 c + i) = display c (line ! i)" if "i < length line"
  proof -
    have "v ! (txtbase 2 c + i) = u ! (txtbase 2 c + i)" using col by (fastforce simp: v)
    then show ?thesis using rq[of "txtbase 2 c + i"] u[OF that] that by simp
  qed
  show "hex_render c line t ! p = (if p = 0 then CHR '':'' else spc)" if p: "p < txtbase 2 c" "\<not> cell_col c (length line) p"
  proof (cases "\<exists>i \<in> {length line..<ncols c}. p = hexoff c i \<or> p = Suc (hexoff c i)")
    case True
    then have "v ! p = spc" "p \<noteq> 0" by (auto simp: v hexoff_plain[OF assms(1)])
    then show ?thesis using rq[of p] p(1) by simp
  next
    case False
    have "\<not> cell_col c (ncols c) p"
    proof
      assume "cell_col c (ncols c) p"
      then obtain k where "k < ncols c" "p = hexoff c k \<or> p = Suc (hexoff c k)" by (auto simp: cell_col_def)
      then show False using False p(2) by (cases "k < length line") (auto simp: cell_col_def)
    qed
    then have "t ! p = (if p = 0 then CHR '':'' else spc)" using assms(2) p(1) by (simp add: template_ok_def)
    moreover have "u ! p = t ! p"
      unfolding u_def using n p by (intro hex_fill_other[OF assms(1)]) (auto simp: cell_col_def)
    ultimately show ?thesis using rq[of p] p(1) False by (simp add: v)
  qed
qed

text \<open>The next line finds the template in order, and gives the same text from any of them.\<close>

lemma hex_render_ok:
  assumes "plain_conf c" "template_ok c t" "length line \<le> ncols c"
  shows "template_ok c (hex_render c line t)"
proof -
  note r = hex_render_nth[OF assms]
  have z: "\<not> cell_col c (length line) 0" "0 < txtbase 2 c"
    using cell_col_less[OF assms(1)] by (force simp: txtbase_def)+
  have sub: "cell_col c (length line) p \<Longrightarrow> cell_col c (ncols c) p" for p using assms(3) by (force simp: cell_col_def)
  have "hex_render c line t ! p = spc" if "0 < p" "p < txtbase 2 c" "\<not> cell_col c (ncols c) p" for p
    using r(6)[of p] sub[of p] that by auto
  then show ?thesis using r(1) r(6)[OF z(2,1)] by (simp add: template_ok_def)
qed

lemma hex_render_same:
  assumes "plain_conf c" "template_ok c t" "template_ok c t'" "length line \<le> ncols c"
  shows "take (txtbase 2 c + length line + 1) (hex_render c line t) = take (txtbase 2 c + length line + 1) (hex_render c line t')"
proof (rule nth_equalityI)
  note a = hex_render_nth[OF assms(1,2,4)] and b = hex_render_nth[OF assms(1,3,4)]
  show "length (take (txtbase 2 c + length line + 1) (hex_render c line t)) =
      length (take (txtbase 2 c + length line + 1) (hex_render c line t'))" by (simp add: a(1) b(1))
  fix p assume "p < length (take (txtbase 2 c + length line + 1) (hex_render c line t))"
  then have p: "p < txtbase 2 c + length line + 1" by simp
  have "hex_render c line t ! p = hex_render c line t' ! p"
  proof (cases "p < txtbase 2 c")
    case True
    then show ?thesis using a(2,3,6) b(2,3,6) by (cases "cell_col c (length line) p") (auto simp: cell_col_def)
  next
    case False
    then obtain i where i: "p = txtbase 2 c + i" using le_Suc_ex[of "txtbase 2 c" p] by auto
    then have "i < length line \<or> i = length line" using p by auto
    then show ?thesis using a(4,5) b(4,5) i by auto
  qed
  then show "take (txtbase 2 c + length line + 1) (hex_render c line t) ! p =
      take (txtbase 2 c + length line + 1) (hex_render c line t') ! p" using p by simp
qed

definition hex_row :: "xconf \<Rightarrow> string \<Rightarrow> string" where
  "hex_row c line = take (txtbase 2 c + length line + 1) (hex_render c line (new_template (templlen 2 c)))"

lemma hex_row_eq:
  "plain_conf c \<Longrightarrow> template_ok c t \<Longrightarrow> length line \<le> ncols c \<Longrightarrow>
   take (txtbase 2 c + length line + 1) (hex_render c line t) = hex_row c line"
  unfolding hex_row_def by (rule hex_render_same) (simp_all add: new_template_ok)

section \<open>The cells of a line\<close>

definition hex_cells :: "xconf \<Rightarrow> string \<Rightarrow> nat \<Rightarrow> string" where
  "hex_cells c line k = concat (map (\<lambda>i. hexpair (xhexset c) (line ! i) @ (if Suc i mod grouplen c = 0 then [spc] else [])) [0..<k])"

lemma hex_row_cells:
  assumes "plain_conf c" "length line \<le> ncols c"
  shows "k \<le> length line \<Longrightarrow> take (hexoff c k) (hex_row c line) = [CHR '':'', spc] @ hex_cells c line k"
proof (induction k)
  case 0
  note r = hex_render_nth[OF assms(1) new_template_ok assms(2)]
  have c: "\<not> cell_col c (length line) 0" "\<not> cell_col c (length line) 1"
    using cell_col_less[OF assms(1)] by force+
  have t: "1 < txtbase 2 c" by (simp add: txtbase_def)
  have "hex_row c line ! 0 = CHR '':''" "hex_row c line ! 1 = spc" "2 \<le> length (hex_row c line)"
    using r(1) r(6)[of 0] r(6)[of 1] c t by (simp_all add: hex_row_def templlen_def)
  then show ?case
    by (cases "hex_row c line"; cases "tl (hex_row c line)")
      (auto simp: hexoff_plain[OF assms(1)] hex_cells_def numeral_2_eq_2)
next
  case (Suc k)
  note r = hex_render_nth[OF assms(1) new_template_ok assms(2)]
  let ?h = "hexpair (xhexset c) (line ! k)"
  have k: "k < length line" "k < ncols c" using Suc.prems assms(2) by simp_all
  have b: "hexoff c k + 4 \<le> txtbase 2 c" by (rule hexoff_txtbase[OF assms(1) k(2)])
  have len: "length (hex_row c line) = txtbase 2 c + length line + 1"
    using r(1) assms(2) by (simp add: hex_row_def templlen_def)
  have two: "take (hexoff c k + 2) (hex_row c line) = take (hexoff c k) (hex_row c line) @ ?h"
    using r(2,3)[OF k(1)] b len by (simp add: take_Suc_conv_app_nth hex_row_def hexpair_def)
  show ?case
  proof (cases "Suc k mod grouplen c = 0")
    case True
    have "hex_row c line ! (hexoff c k + 2) = spc"
      using r(6)[of "hexoff c k + 2"] gap_col[OF assms(1) True] b by (simp add: hex_row_def)
    then have "take (hexoff c k + 3) (hex_row c line) = take (hexoff c k + 2) (hex_row c line) @ [spc]"
      using b len take_Suc_conv_app_nth[of "hexoff c k + 2" "hex_row c line"] by (simp add: numeral_3_eq_3)
    then show ?thesis using Suc two True by (simp add: hexoff_Suc[OF assms(1)] hex_cells_def numeral_3_eq_3)
  next
    case False
    then show ?thesis using Suc two by (simp add: hexoff_Suc[OF assms(1)] hex_cells_def)
  qed
qed

text \<open>Up to the end of the cells: with the one space that follows them in any case.\<close>

definition hexcols :: "xconf \<Rightarrow> string \<Rightarrow> string" where
  "hexcols c line = concat (map (\<lambda>i. hexpair (xhexset c) (line ! i) @
     (if Suc i mod grouplen c = 0 \<or> Suc i = length line then [spc] else [])) [0..<length line])"

lemma hexcols_cells:
  assumes "line \<noteq> []"
  shows "hexcols c line = hex_cells c line (length line) @ (if length line mod grouplen c = 0 then [] else [spc])"
proof -
  obtain n where n: "length line = Suc n" using assms by (cases line) auto
  have "concat (map (\<lambda>i. hexpair (xhexset c) (line ! i) @ (if Suc i mod grouplen c = 0 \<or> i = n then [spc] else [])) [0..<n]) =
      concat (map (\<lambda>i. hexpair (xhexset c) (line ! i) @ (if Suc i mod grouplen c = 0 then [spc] else [])) [0..<n])"
    by (rule arg_cong[where f = concat], rule map_cong) auto
  then show ?thesis by (simp add: hexcols_def hex_cells_def n)
qed

lemma hex_row_split:
  assumes "plain_conf c" "line \<noteq> []" "length line \<le> ncols c"
  shows "\<exists>z. hex_row c line = CHR '':'' # spc # hexcols c line @ spc # z"
proof -
  note r = hex_render_nth[OF assms(1) new_template_ok assms(3)]
  define e where "e = hexoff c (length line)"
  define g where "g = (if length line mod grouplen c = 0 then 0 else 1 :: nat)"
  have b: "e + g < txtbase 2 c" using hexoff_end[OF assms(1,3)] by (simp add: e_def g_def)
  have nc: "\<not> cell_col c (length line) p" if "e \<le> p" for p using cell_col_less[OF assms(1), of "length line" p] that by (auto simp: e_def)
  have e2: "2 \<le> e" by (simp add: e_def hexoff_plain[OF assms(1)])
  have sp: "hex_row c line ! e = spc" "g = 1 \<longrightarrow> hex_row c line ! Suc e = spc"
    using r(6)[of e] r(6)[of "Suc e"] nc[of e] nc[of "Suc e"] b e2 by (auto simp: hex_row_def)
  have len: "e + g < length (hex_row c line)" using r(1) b assms(3) by (simp add: hex_row_def templlen_def)
  have t: "take e (hex_row c line) = CHR '':'' # spc # hex_cells c line (length line)"
    using hex_row_cells[OF assms(1,3) order_refl] by (simp add: e_def)
  have "take (e + g) (hex_row c line) = CHR '':'' # spc # hexcols c line"
    using sp(1) len t take_Suc_conv_app_nth[of e "hex_row c line"] by (auto simp: hexcols_cells[OF assms(2)] g_def)
  moreover have "drop (e + g) (hex_row c line) = spc # drop (Suc (e + g)) (hex_row c line)"
    using sp len Cons_nth_drop_Suc[OF len] by (auto simp: g_def split: if_splits)
  ultimately have "hex_row c line = (CHR '':'' # spc # hexcols c line) @ spc # drop (Suc (e + g)) (hex_row c line)"
    by (metis append_take_drop_id)
  then show ?thesis by auto
qed

section \<open>Where the cells end\<close>

lemma hexpair_plain: "\<exists>h l. hexpair (hexset u) v = [h, l] \<and> \<not> blank h \<and> \<not> blank l"
  using hexpair_digits[of u v] nibble_plain by (auto simp: hexpair_def)

text \<open>Cells with at most one space between them have no two adjacent spaces.\<close>

lemma find_pair_cells:
  "(\<And>i. sep i = [] \<or> sep i = [spc]) \<Longrightarrow>
   find_pair blank (x # concat (map (\<lambda>i. hexpair (hexset u) (f i) @ sep i) is)) = None"
proof (induction "is" arbitrary: x)
  case (Cons i "is")
  obtain h l where h: "hexpair (hexset u) (f i) = [h, l]" "\<not> blank h" "\<not> blank l" using hexpair_plain by blast
  have "find_pair blank (y # concat (map (\<lambda>i. hexpair (hexset u) (f i) @ sep i) is)) = None" for y
    by (rule Cons.IH[OF Cons.prems])
  then show ?case using h Cons.prems[of i] by auto
qed simp

lemma find_pair_at:
  "find_pair P (w @ [a]) = None \<Longrightarrow> P a \<Longrightarrow> P b \<Longrightarrow> find_pair P (w @ a # b # z) = Some (length w)"
proof (induction w rule: induct_list012)
  case (3 x y w)
  then show ?case by (auto split: if_splits)
qed auto

lemma hexcols_last: "line \<noteq> [] \<Longrightarrow> \<exists>w. hexcols c line = w @ [spc]"
  by (cases line rule: rev_cases) (auto simp: hexcols_def)

lemma hexcols_digits: "digits_of (hexcols c line) = hex_of (xhexset c) line"
proof -
  have d: "digits_of [spc] = []" by (simp add: digits_of_def nibbleval_def)
  have "digits_of (concat (map (\<lambda>i. hexpair (xhexset c) (f i) @ sep i) is)) = concat (map (\<lambda>i. hexpair (xhexset c) (f i)) is)"
    if "\<And>i. sep i = [] \<or> sep i = [spc]" for f sep and "is" :: "nat list"
  proof (induction "is")
    case (Cons i "is")
    then show ?case using that[of i] d by (auto simp: xhexset_def)
  qed simp
  from this[of "\<lambda>i. if Suc i mod grouplen c = 0 \<or> Suc i = length line then [spc] else []" "(!) line" "[0..<length line]"]
  have "digits_of (hexcols c line) = concat (map (\<lambda>i. hexpair (xhexset c) (line ! i)) [0..<length line])"
    by (simp add: hexcols_def)
  also have "map (\<lambda>i. hexpair (xhexset c) (line ! i)) [0..<length line] = map (hexpair (xhexset c)) line"
    by (rule nth_equalityI) simp_all
  finally show ?thesis by (simp add: hex_of_def)
qed

text \<open>What the reverse takes from a row: its bytes, and nothing of the text column.\<close>

lemma hex_row_data:
  assumes "plain_conf c" "line \<noteq> []" "length line \<le> ncols c"
  shows "digits_of (line_data beyond (tl (hex_row c line)) i) = hex_of (xhexset c) line"
proof -
  from hex_row_split[OF assms] obtain z where z: "hex_row c line = CHR '':'' # spc # hexcols c line @ spc # z" by blast
  from hexcols_last[OF assms(2)] obtain w where w: "hexcols c line = w @ [spc]" by blast
  have "find_pair blank (spc # hexcols c line) = None"
    unfolding hexcols_def xhexset_def by (rule find_pair_cells) simp
  then have "find_pair blank ((spc # w) @ spc # spc # z) = Some (length (spc # w))"
    by (intro find_pair_at) (simp_all add: w)
  then have "hexdumptrim (tl (hex_row c line)) = Suc (length w)"
    by (simp add: hexdumptrim_spec trim_end_def z w)
  then have "line_data beyond (tl (hex_row c line)) i = spc # w"
    by (simp add: line_data_def z w)
  moreover have "digits_of (spc # w) = digits_of (hexcols c line)"
    by (simp add: digits_of_def w nibbleval_def)
  ultimately show ?thesis by (simp add: hexcols_digits)
qed

end
