(* ===== verification/Rexxd_Roundtrip.thy ===== *)
theory Rexxd_Roundtrip
  imports Rexxd_Row
begin

text \<open>
  What the loops of \<open>src/src/rexxd.c\<close> do to whole inputs on a platform that meets
  \<open>xplatform\<close>: \<open>run_hexdump\<close> prints the rows of the input (\<open>hexdump_text\<close>), \<open>run_rhexdump\<close>
  writes back the bytes of such a text, and \<open>run_rpostscript\<close> those of \<open>run_postscript\<close>.
\<close>

section \<open>The text of a dump\<close>

definition row_text :: "xconf \<Rightarrow> 64 word \<Rightarrow> string \<Rightarrow> string" where
  "row_text c off line = printoffset off (xc_decimal c) @ hex_row c line"

function hexdump_text :: "xconf \<Rightarrow> 64 word \<Rightarrow> string \<Rightarrow> string" where
  "hexdump_text c off s =
     (if s = [] \<or> ncols c = 0 then []
      else row_text c off (take (ncols c) s) @
        hexdump_text c (off + of_nat (length (take (ncols c) s))) (drop (ncols c) s))"
  by pat_completeness auto
termination
  by (relation "measure (\<lambda>(c, off, s). length s)") auto

declare hexdump_text.simps [simp del]

lemma hexdump_text_nil [simp]: "hexdump_text c off [] = []"
  by (simp add: hexdump_text.simps)

text \<open>A row is one line.\<close>

lemma display_tables: "list_all (\<lambda>n. 32 \<le> n \<and> n < 127) ascii_table" "list_all (\<lambda>n. 32 \<le> n \<and> n < 127) ebcdic_table"
    "length ascii_table = 256" "length ebcdic_table = 256"
  by code_simp+

lemma display_plain: "display c v \<noteq> nl"
proof -
  define tb where "tb = (if xc_ebcdic c then ebcdic_table else ascii_table)"
  have "32 \<le> tb ! of_char v \<and> tb ! of_char v < 127"
    using display_tables by (simp add: tb_def list_all_length)
  then have "(of_char (display c v) :: nat) = tb ! of_char v"
    by (simp add: display_def display_of_def tb_def[symmetric])
  then show ?thesis using \<open>32 \<le> tb ! of_char v \<and> _\<close> by auto
qed

lemma hexset_plain: "hexset u ! n \<noteq> nl" if "n < 16"
proof -
  have "0 \<le> nibbleval (hexset u ! n)" using that by (simp add: hexset_nibble)
  then show ?thesis using nibble_plain by blast
qed

lemma hex_row_line:
  assumes "plain_conf c" "length line \<le> ncols c"
  shows "\<exists>w. hex_row c line = CHR '':'' # w @ [nl] \<and> nl \<notin> set w"
proof -
  note r = hex_render_nth[OF assms(1) new_template_ok assms(2)]
  define row where "row = hex_row c line"
  have len: "length row = txtbase 2 c + length line + 1" using r(1) assms(2) by (simp add: row_def hex_row_def templlen_def)
  have z: "\<not> cell_col c (length line) 0" "0 < txtbase 2 c" using cell_col_less[OF assms(1)] by (force simp: txtbase_def)+
  have first: "row ! 0 = CHR '':''" using r(6)[OF z(2,1)] by (simp add: row_def hex_row_def)
  have last: "row ! (txtbase 2 c + length line) = nl" using r(5) by (simp add: row_def hex_row_def)
  have mid: "row ! p \<noteq> nl" if "p < txtbase 2 c + length line" for p
  proof (cases "p < txtbase 2 c")
    case True
    show ?thesis
    proof (cases "cell_col c (length line) p")
      case True
      then obtain i where i: "i < length line" "p = hexoff c i \<or> p = Suc (hexoff c i)" by (auto simp: cell_col_def)
      have q: "hexpair (xhexset c) v ! 0 \<noteq> nl \<and> hexpair (xhexset c) v ! 1 \<noteq> nl" for v
        using nibbles_of[of v] by (simp add: hexpair_def xhexset_def hexset_plain)
      have "hex_row c line ! p = hex_render c line (new_template (templlen 2 c)) ! p" using that by (simp add: hex_row_def)
      then show ?thesis using r(2,3)[OF i(1)] i(2) q[of "line ! i"] by (auto simp: row_def)
    next
      case False
      then show ?thesis using r(6)[OF True False] that by (simp add: row_def hex_row_def)
    qed
  next
    case False
    then obtain i where i: "p = txtbase 2 c + i" using le_Suc_ex[of "txtbase 2 c" p] by auto
    then show ?thesis using r(4)[of i] that display_plain by (simp add: row_def hex_row_def)
  qed
  obtain w where w: "row = CHR '':'' # w @ [nl]"
  proof -
    have "row \<noteq> []" "row ! (length row - 1) = nl" using len last by auto
    then have "row = butlast row @ [nl]" by (metis append_butlast_last_id last_conv_nth)
    moreover have "length (butlast row) = txtbase 2 c + length line" using len by simp
    then obtain y ys where "butlast row = y # ys" using z(2) by (cases "butlast row") auto
    ultimately show ?thesis using that first by (metis append_Cons nth_Cons_0)
  qed
  have "nl \<notin> set w"
  proof
    assume "nl \<in> set w"
    then obtain k where k: "k < length w" "w ! k = nl" by (auto simp: in_set_conv_nth)
    have "row ! Suc k = nl" using k w by (simp add: nth_append)
    moreover have "Suc k < txtbase 2 c + length line" using k(1) w len by simp
    ultimately show False using mid by blast
  qed
  then show ?thesis using w by (auto simp: row_def)
qed

lemma row_text_line:
  assumes "plain_conf c" "length line \<le> ncols c" "\<not> xc_decimal c"
  shows "\<exists>w. hex_row c line = CHR '':'' # w \<and> row_text c off line = printhexoff off @ CHR '':'' # w \<and>
    first_line (row_text c off line @ s) = row_text c off line"
proof -
  obtain w where w: "hex_row c line = CHR '':'' # w @ [nl]" "nl \<notin> set w" using hex_row_line[OF assms(1,2)] by blast
  have "nl \<notin> set (printhexoff off)"
    using printhexoff_value(2)[of off] nibble_plain by (auto simp: list_all_iff)
  then have "first_line ((printhexoff off @ CHR '':'' # w) @ nl # s) = (printhexoff off @ CHR '':'' # w) @ [nl]"
    unfolding first_line_def using w(2) by (subst takeWhile_neq_append) auto
  then show ?thesis by (simp add: row_text_def w(1) printoffset_def assms(3))
qed

section \<open>The dump\<close>

context xplatform
begin

lemma read_keeps_fits:
  assumes "outs (c_plt x') = outs (c_plt x)" "x_fd (c_be x') = 2"
  shows "fits (b, x) n \<Longrightarrow> fits (b, x') n" "out_text content (b, x') = out_text content (b, x)"
    "out_room space (b, x') = out_room space (b, x)"
  using assms by (auto simp: fits_def out_ok_def out_text_def out_room_def outs_def)

lemma write_keeps_in:
  assumes "in_ok (i, x)" "appends (b, x) s (b', x')"
  shows "in_ok (i, x')" "stream rest (i, x') = stream rest (i, x)"
  using assms by (auto simp: in_ok_def appends_def out_ok_def stream_def)

text \<open>A finished loop: the input is used up, the output has the text.\<close>

definition finished :: "xin \<times> xout \<times> 'w xctx \<Rightarrow> string \<Rightarrow> xin \<times> xout \<times> 'w xctx \<Rightarrow> bool" where
  "finished st s st' = (case (st, st') of ((i, b, x), (i', b', x')) \<Rightarrow>
     in_ok (i', x') \<and> stream rest (i', x') = [] \<and> out_ok space appending (b', x') \<and>
     out_text content (b', x') = out_text content (b, x) @ s \<and>
     out_room space (b', x') = out_room space (b, x) - length s)"

lemma finished_step:
  assumes "appends (b, x1) s (b1, x2)" "outs (c_plt x1) = outs (c_plt x)" "x_fd (c_be x1) = 2"
    "finished (i1, b1, x2) t st'"
  shows "finished (i, b, x) (s @ t) st'"
  using assms read_keeps_fits(2,3)[OF assms(2,3), of b]
  by (cases st') (auto simp: finished_def appends_def)

lemma dump_loop_text:
  assumes "plain_conf c" "\<not> xc_autoskip c"
  shows "in_ok (i, x) \<Longrightarrow> template_ok c t \<Longrightarrow> fits (b, x) (length (hexdump_text c off (stream rest (i, x)))) \<Longrightarrow>
    finished (i, b, x) (hexdump_text c off (stream rest (i, x))) (dump_loop P c (hexfmt c) 0 False off t (i, b, x))"
proof (induction "length (stream rest (i, x))" arbitrary: i b x off t rule: less_induct)
  case (less i x b off t)
  define S where "S = stream rest (i, x)"
  define line where "line = take (ncols c) S"
  obtain i1 x1 where nb: "nextbytes P (ncols c) [] (i, x) = (line, (i1, x1))"
    and s1: "stream rest (i1, x1) = drop (ncols c) S" "in_ok (i1, x1)" "outs (c_plt x1) = outs (c_plt x)"
    using nextbytes_spec[OF less(2), of "ncols c" "[]"]
    by (cases "nextbytes P (ncols c) [] (i, x)") (auto simp: line_def S_def)
  have be: "x_fd (c_be x1) = 2" using s1(2) by (simp add: in_ok_def)
  show ?case
  proof (cases "S = []")
    case True
    then have "dump_loop P c (hexfmt c) 0 False off t (i, b, x) = (i1, b, x1)"
      using nb by (subst dump_loop.simps) (simp add: line_def Let_def)
    moreover have "out_ok space appending (b, x1)"
      using read_keeps_fits(1)[OF s1(3) be less(4)] by (simp add: fits_def)
    ultimately show ?thesis
      using True s1 read_keeps_fits(2,3)[OF s1(3) be] by (simp add: finished_def S_def)
  next
    case False
    have nc: "0 < ncols c" using assms(1) by (simp add: plain_conf_def)
    then have ne: "line \<noteq> []" using False by (simp add: line_def)
    have le: "length line \<le> ncols c" by (simp add: line_def)
    define t1 where "t1 = hex_render c line t"
    define rest_text where "rest_text = hexdump_text c (off + of_nat (length line)) (drop (ncols c) S)"
    have rows: "hexdump_text c off S = printoffset off (xc_decimal c) @ hex_row c line @ rest_text"
      using False nc by (subst hexdump_text.simps) (simp add: row_text_def line_def rest_text_def)
    have f0: "fits (b, x1) (length (printoffset off (xc_decimal c)) + (length (hex_row c line) + length rest_text))"
      using read_keeps_fits(1)[OF s1(3) be less(4)] by (simp add: S_def[symmetric] rows)
    obtain b1 x2 where o1: "bout P (printoffset off (xc_decimal c)) (b, x1) = (b1, x2)" by fastforce
    have a1: "appends (b, x1) (printoffset off (xc_decimal c)) (b1, x2)"
      using bout_spec[OF fits_less[OF f0 le_add1]] o1 by simp
    note f1 = appends_fits[OF a1 f0]
    obtain b2 x3 where o2: "bout P (hex_row c line) (b1, x2) = (b2, x3)" by fastforce
    have a2: "appends (b1, x2) (hex_row c line) (b2, x3)"
      using bout_spec[OF fits_less[OF f1 le_add1]] o2 by simp
    note f2 = appends_fits[OF a2 f1]
    have a: "appends (b, x1) (printoffset off (xc_decimal c) @ hex_row c line) (b2, x3)" by (rule appends_trans[OF a1 a2])
    note k = write_keeps_in[OF s1(2) a]
    have row: "take (df_txtbase (hexfmt c) + length line + 1) t1 = hex_row c line"
      using hex_row_eq[OF assms(1) less(3) le] by (simp add: hexfmt_def t1_def)
    have loop: "dump_loop P c (hexfmt c) 0 False off t (i, b, x) =
        dump_loop P c (hexfmt c) 0 False (off + of_nat (length line)) t1 (i1, b2, x3)"
    proof -
      have "df_render (hexfmt c) line t = t1" "df_step (hexfmt c) line = length line"
        by (simp_all add: t1_def hex_render_def) (simp add: hexfmt_def)
      then show ?thesis
        using nb ne o1 o2 row assms(2) by (subst dump_loop.simps) (simp add: Let_def)
    qed
    have "length (stream rest (i1, x3)) < length (stream rest (i, x))"
      using k(2) s1(1) False nc by (simp add: S_def[symmetric])
    moreover have "template_ok c t1" unfolding t1_def by (rule hex_render_ok[OF assms(1) less(3) le])
    moreover have "fits (b2, x3) (length (hexdump_text c (off + of_nat (length line)) (stream rest (i1, x3))))"
      using f2 k(2) s1(1) by (simp add: rest_text_def)
    ultimately have "finished (i1, b2, x3) rest_text
        (dump_loop P c (hexfmt c) 0 False (off + of_nat (length line)) t1 (i1, b2, x3))"
      using less(1)[of i1 x3 t1 b2 "off + of_nat (length line)"] k s1(1) by (simp add: rest_text_def)
    from finished_step[OF a s1(3) be this] show ?thesis
      unfolding loop S_def[symmetric] rows by simp
  qed
qed

section \<open>The reverse\<close>

lemma xtrim_digits: "list_all (\<lambda>c. 0 \<le> nibbleval c) s \<Longrightarrow> xtrim s = s"
proof -
  assume "list_all (\<lambda>c. 0 \<le> nibbleval c) s"
  then have d: "\<forall>x \<in> set s. \<not> xwhitespace x" using nibble_plain by (auto simp: list_all_iff)
  have "dropWhile xwhitespace u = u" if "\<forall>x \<in> set u. \<not> xwhitespace x" for u using that by (cases u) auto
  from this[of s] this[of "rev s"] show "xtrim s = s" using d by (simp add: xtrim_def)
qed

text \<open>The address of a line.\<close>

lemma row_address:
  assumes "uint off < 2 ^ 63"
  shows "cut (printhexoff off @ CHR '':'' # w) (CHR '':'') = (printhexoff off, w, True)"
    "parseoffet (xtrim (printhexoff off)) = (PARSE_OK, uint off)"
proof -
  have d: "list_all (\<lambda>c. 0 \<le> nibbleval c) (printhexoff off)" by (rule printhexoff_value(2))
  then have "CHR '':'' \<notin> set (printhexoff off)" using nibble_plain by (auto simp: list_all_iff)
  then show "cut (printhexoff off @ CHR '':'' # w) (CHR '':'') = (printhexoff off, w, True)" by (simp add: cut_found)
  show "parseoffet (xtrim (printhexoff off)) = (PARSE_OK, uint off)"
    using offset_read_back[OF assms] by (simp add: xtrim_digits[OF d])
qed

text \<open>A row read back at its own place.\<close>

lemma reverse_row:
  assumes "plain_conf c" "\<not> xc_decimal c" "line \<noteq> []" "length line \<le> ncols c" "uint off < 2 ^ 63"
    "x_fpos b = uint off" "fits (b, x) (length line)"
  shows "\<exists>st'. reverse_line P beyond 0 (row_text c off line) i (b, x) = Some st' \<and> appends (b, x) line st'"
proof -
  obtain w where w: "hex_row c line = CHR '':'' # w" "row_text c off line = printhexoff off @ CHR '':'' # w"
    using row_text_line[OF assms(1,4,2), of off] by blast
  have cut: "cut (row_text c off line) (CHR '':'') = (printhexoff off, w, True)" by (simp add: w(2) row_address(1)[OF assms(5)])
  note ad = row_address(2)[OF assms(5)]
  have "\<not> x_err b" using assms(7) by (simp add: fits_def out_ok_def)
  then have seek: "seekout P (uint off) (b, x) = Some (b, x)" using assms(6) by (simp add: seekout_def)
  have data: "digits_of (line_data beyond w i) = hex_of (hexset (xc_upper c)) line"
    using hex_row_data[OF assms(1,3,4), of beyond i] by (simp add: w(1) xhexset_def)
  have "reverse_line P beyond 0 (row_text c off line) i (b, x) = Some (put_data P (line_data beyond w i) (b, x))"
    using assms(5) by (simp add: reverse_line_def cut ad seek)
  then show ?thesis using put_data_spec[OF data assms(7)] by simp
qed

lemma run_rhexdump_text:
  assumes "plain_conf c" "\<not> xc_decimal c" "xc_rseek c' = 0"
  shows "stream rest (i, x) = hexdump_text c (of_nat k) s \<Longrightarrow> k + length s < 2 ^ 63 \<Longrightarrow> in_ok (i, x) \<Longrightarrow>
    x_fpos b = int k \<Longrightarrow> fits (b, x) (length s) \<Longrightarrow>
    \<exists>st'. run_rhexdump P beyond c' (i, b, x) = Some st' \<and> finished (i, b, x) s st'"
proof (induction "length s" arbitrary: s i b x k rule: less_induct)
  case less
  have err: "\<not> (x_err b \<or> i_err i)" using less(4,6) by (simp add: fits_def out_ok_def in_ok_def)
  have nc: "0 < ncols c" using assms(1) by (simp add: plain_conf_def)
  obtain line i1 x1 where nl: "nextline P [] (i, x) = (line, (i1, x1))" by (cases "nextline P [] (i, x)") auto
  note sp = nextline_spec[OF less(4), of "[]", unfolded nl fst_conv snd_conv append_Nil]
  have be: "x_fd (c_be x1) = 2" using sp by (simp add: in_ok_def)
  have os: "outs (c_plt x1) = outs (c_plt x)" using sp by simp
  show ?case
  proof (cases "s = []")
    case True
    then have "line = []" "stream rest (i1, x1) = []" using sp less(2) by (simp_all add: first_line_def)
    moreover have "out_ok space appending (b, x1)" using read_keeps_fits(1)[OF os be less(6)] by (simp add: fits_def)
    ultimately show ?thesis
      using True sp err nl read_keeps_fits(2,3)[OF os be] by (subst run_rhexdump.simps) (simp add: finished_def)
  next
    case False
    define row where "row = take (ncols c) s"
    define off where "off = (of_nat k :: 64 word)"
    have row: "row \<noteq> []" "length row \<le> ncols c" "length row \<le> length s" using False nc by (simp_all add: row_def)
    have off: "uint off = int k" using less(3) by (simp add: off_def uint_nat unat_of_nat)
    have hd: "hexdump_text c off s = row_text c off row @ hexdump_text c (of_nat (k + length row)) (drop (ncols c) s)"
      using False nc by (subst hexdump_text.simps) (simp add: row_def off_def)
    obtain w where fl: "first_line (row_text c off row @ u) = row_text c off row" "row_text c off row \<noteq> []" for u
      using row_text_line[OF assms(1) row(2) assms(2), of off] by fastforce
    have ln: "line = row_text c off row" "stream rest (i1, x1) = hexdump_text c (of_nat (k + length row)) (drop (ncols c) s)"
      using sp less(2) hd fl by (simp_all add: off_def[symmetric])
    have f1: "fits (b, x1) (length row)" "fits (b, x1) (length row + length (drop (ncols c) s))"
    proof -
      have "length row + length (drop (ncols c) s) = length s" by (simp add: row_def)
      then show "fits (b, x1) (length row + length (drop (ncols c) s))" using read_keeps_fits(1)[OF os be less(6)] by simp
      then show "fits (b, x1) (length row)" by (rule fits_less) simp
    qed
    from reverse_row[OF assms(1,2) row(1,2) _ _ f1(1), of off beyond i1] off less(3,5)
    obtain b2 x2 where rv: "reverse_line P beyond 0 line i1 (b, x1) = Some (b2, x2)" "appends (b, x1) row (b2, x2)"
      by (auto simp: ln(1))
    have run: "run_rhexdump P beyond c' (i, b, x) = run_rhexdump P beyond c' (i1, b2, x2)"
      using err nl rv(1) ln(1) fl(2) assms(3) by (subst run_rhexdump.simps) simp
    have "in_ok (i1, x1)" using sp by simp
    note k2 = write_keeps_in[OF this rv(2)]
    have "length (drop (ncols c) s) < length s" using False nc by simp
    moreover have "stream rest (i1, x2) = hexdump_text c (of_nat (k + length row)) (drop (ncols c) s)" using k2 ln by simp
    moreover have "k + length row + length (drop (ncols c) s) < 2 ^ 63" using less(3) by (simp add: row_def)
    moreover have "x_fpos b2 = int (k + length row)" using rv(2) less(5) by (simp add: appends_def)
    moreover have "fits (b2, x2) (length (drop (ncols c) s))" by (rule appends_fits[OF rv(2) f1(2)])
    ultimately obtain st' where st': "run_rhexdump P beyond c' (i1, b2, x2) = Some st'" "finished (i1, b2, x2) (drop (ncols c) s) st'"
      using less(1)[of "drop (ncols c) s" i1 x2 "k + length row" b2] k2(1) by blast
    have "finished (i, b, x) (row @ drop (ncols c) s) st'" by (rule finished_step[OF rv(2) os be st'(2)])
    then show ?thesis using st'(1) by (simp add: run row_def)
  qed
qed

end

end
