(* ===== verification/Rexxd_Postscript.thy ===== *)
theory Rexxd_Postscript
  imports Rexxd_Roundtrip
begin

text \<open>
  The PostScript style of \<open>src/src/rexxd.c\<close>: \<open>run_postscript\<close> prints lines of plain
  hexadecimal digits (\<open>postscript_text\<close>), and \<open>run_rpostscript\<close> writes back the bytes of the
  digits of any text.
\<close>

section \<open>The lines\<close>

function postscript_text :: "xconf \<Rightarrow> string \<Rightarrow> string" where
  "postscript_text c s =
     (if s = [] \<or> ncols c = 0 then []
      else hex_of (xhexset c) (take (ncols c) s) @ nl # postscript_text c (drop (ncols c) s))"
  by pat_completeness auto
termination
  by (relation "measure (\<lambda>(c, s). length s)") auto

declare postscript_text.simps [simp del]

lemma postscript_text_nil [simp]: "postscript_text c [] = []"
  by (simp add: postscript_text.simps)

lemma length_hex_of [simp]: "length (hex_of hs bs) = 2 * length bs"
  by (induction bs) (simp_all add: hex_of_def hexpair_def)

text \<open>The digits of the text are those of the bytes.\<close>

lemma postscript_text_digits: "0 < ncols c \<Longrightarrow> digits_of (postscript_text c s) = hex_of (xhexset c) s"
proof (induction "length s" arbitrary: s rule: less_induct)
  case less
  show ?case
  proof (cases "s = []")
    case True
    then show ?thesis by (simp add: hex_of_def)
  next
    case False
    have nld: "\<not> 0 \<le> nibbleval nl" using nibble_plain[of nl] by auto
    have "digits_of (postscript_text c (drop (ncols c) s)) = hex_of (xhexset c) (drop (ncols c) s)"
      using less(1)[of "drop (ncols c) s"] less(2) False by simp
    moreover have "hex_of hs (take n s) @ hex_of hs (drop n s) = hex_of hs s" for hs n
      unfolding hex_of_def map_append[symmetric] concat_append[symmetric] append_take_drop_id ..
    ultimately show ?thesis
      using False less(2) nld digits_hex[of "xc_upper c"]
      by (subst postscript_text.simps) (simp add: xhexset_def digits_of_def)
  qed
qed

lemma put_digits:
  "2 * k + 2 * length line \<le> length t \<Longrightarrow>
   fold (\<lambda>(i, v). put_at (2 * i) (hexpair hs v)) (enumerate k line) t =
     take (2 * k) t @ hex_of hs line @ drop (2 * k + 2 * length line) t"
proof (induction line arbitrary: k t)
  case Nil
  then show ?case by (simp add: hex_of_def)
next
  case (Cons v line)
  define u where "u = t[2 * k := hexpair hs v ! 0, Suc (2 * k) := hexpair hs v ! 1]"
  have "take (2 * Suc k) u = take (2 * k) t @ hexpair hs v"
    using Cons.prems by (intro nth_equalityI) (auto simp: u_def hexpair_def nth_append nth_list_update less_Suc_eq nth_Cons')
  moreover have "drop (2 * Suc k + 2 * length line) u = drop (2 * k + 2 * length (v # line)) t"
    by (simp add: u_def)
  moreover have "2 * Suc k + 2 * length line \<le> length u" using Cons.prems by (simp add: u_def)
  ultimately show ?case using Cons.IH[of "Suc k" u] by (simp add: put_cell u_def hex_of_def)
qed

lemma fill_postscript_line:
  assumes "length t = 2 * ncols c + 1" "length line \<le> ncols c"
  shows "take (1 + 2 * length line) (fill_postscript c line t) = hex_of (xhexset c) line @ [nl]"
    "length (fill_postscript c line t) = 2 * ncols c + 1"
proof -
  have "fill_postscript c line t = (hex_of (xhexset c) line @ drop (2 * length line) t)[2 * length line := nl]"
    using put_digits[of 0 line t "xhexset c"] assms by (simp add: fill_postscript_def)
  then have e: "fill_postscript c line t = hex_of (xhexset c) line @ (drop (2 * length line) t)[0 := nl]"
    by (simp add: list_update_append)
  obtain y ys where "drop (2 * length line) t = y # ys" using assms by (cases "drop (2 * length line) t") auto
  then show "take (1 + 2 * length line) (fill_postscript c line t) = hex_of (xhexset c) line @ [nl]"
    by (simp add: e)
  show "length (fill_postscript c line t) = 2 * ncols c + 1" using assms by (simp add: e)
qed

section \<open>The dump and its reverse\<close>

context xplatform
begin

lemma postscript_loop_text:
  assumes "0 < ncols c"
  shows "in_ok (i, x) \<Longrightarrow> length t = 2 * ncols c + 1 \<Longrightarrow> fits (b, x) (length (postscript_text c (stream rest (i, x)))) \<Longrightarrow>
    finished (i, b, x) (postscript_text c (stream rest (i, x))) (postscript_loop P c t (i, b, x))"
proof (induction "length (stream rest (i, x))" arbitrary: i b x t rule: less_induct)
  case (less i x b t)
  define S where "S = stream rest (i, x)"
  define line where "line = take (ncols c) S"
  obtain i1 x1 where nb: "nextbytes P (ncols c) [] (i, x) = (line, (i1, x1))"
    and s1: "stream rest (i1, x1) = drop (ncols c) S" "in_ok (i1, x1)" "outs (c_plt x1) = outs (c_plt x)"
    using nextbytes_spec[OF less(2), of "ncols c" "[]"]
    by (cases "nextbytes P (ncols c) [] (i, x)") (auto simp: line_def S_def)
  have be: "x_fd (c_be x1) = 2" using s1(2) by (simp add: in_ok_def)
  show ?case
  proof (cases "S = []")
    case True
    then have "postscript_loop P c t (i, b, x) = (i1, b, x1)"
      using nb by (subst postscript_loop.simps) (simp add: line_def)
    moreover have "out_ok space appending (b, x1)"
      using read_keeps_fits(1)[OF s1(3) be less(4)] by (simp add: fits_def)
    ultimately show ?thesis
      using True s1 read_keeps_fits(2,3)[OF s1(3) be] by (simp add: finished_def S_def)
  next
    case False
    have ne: "line \<noteq> []" "length line \<le> ncols c" using False assms by (simp_all add: line_def)
    define t1 where "t1 = fill_postscript c line t"
    note row = fill_postscript_line[OF less(3) ne(2)]
    define row_s where "row_s = hex_of (xhexset c) line @ [nl]"
    have rows: "postscript_text c S = row_s @ postscript_text c (drop (ncols c) S)"
      using False assms by (subst postscript_text.simps) (simp add: row_s_def line_def)
    have f0: "fits (b, x1) (length row_s + length (postscript_text c (drop (ncols c) S)))"
      using read_keeps_fits(1)[OF s1(3) be less(4)] by (simp add: S_def[symmetric] rows)
    obtain b2 x2 where o2: "bout P row_s (b, x1) = (b2, x2)" by fastforce
    have a: "appends (b, x1) row_s (b2, x2)" using bout_spec[OF fits_less[OF f0 le_add1]] o2 by simp
    note k = write_keeps_in[OF s1(2) a]
    have loop: "postscript_loop P c t (i, b, x) = postscript_loop P c t1 (i1, b2, x2)"
      using nb ne(1) o2 row(1) by (subst postscript_loop.simps) (simp add: Let_def t1_def row_s_def)
    have "length (stream rest (i1, x2)) < length (stream rest (i, x))"
      using k(2) s1(1) False assms by (simp add: S_def[symmetric])
    moreover have "fits (b2, x2) (length (postscript_text c (stream rest (i1, x2))))"
      using appends_fits[OF a f0] k(2) s1(1) by simp
    ultimately have "finished (i1, b2, x2) (postscript_text c (drop (ncols c) S)) (postscript_loop P c t1 (i1, b2, x2))"
      using less(1)[of i1 x2 t1 b2] k s1(1) row(2) by (simp add: t1_def)
    from finished_step[OF a s1(3) be this] show ?thesis unfolding loop S_def[symmetric] rows by simp
  qed
qed

lemma rpostscript_loop_text:
  "in_ok (i, x) \<Longrightarrow> stream rest (i, x) = s \<Longrightarrow>
   fits (b, x) (length (snd (acc_run s a)) + length (acc_rest (fst (acc_run s a)))) \<Longrightarrow>
   finished (i, b, x) (snd (acc_run s a) @ acc_rest (fst (acc_run s a))) (rpostscript_loop P a (i, b, x))"
proof (induction s arbitrary: i b x a)
  case Nil
  obtain i1 x1 where nb: "next_byte P (i, x) = (None, (i1, x1))"
    using next_byte_spec(1)[OF Nil(1,2)] by (cases "next_byte P (i, x)") auto
  note sp = next_byte_spec(1)[OF Nil(1,2), unfolded nb fst_conv snd_conv] next_byte_spec(3,4)[OF Nil(1), unfolded nb snd_conv]
  have be: "x_fd (c_be x1) = 2" using sp by (simp add: in_ok_def)
  have "fits (b, x1) (length (acc_rest a))" using read_keeps_fits(1)[OF sp(3) be Nil(3)] by simp
  note ap = finish_spec[OF this]
  obtain b2 x2 where o2: "finish_accum P a (b, x1) = (b2, x2)" by fastforce
  note k = write_keeps_in[OF sp(2) ap[unfolded o2]]
  have "finished (i1, b2, x2) [] (i1, b2, x2)" using ap k sp(1) by (simp add: finished_def appends_def o2)
  from finished_step[OF ap[unfolded o2] sp(3) be this] show ?case
    using nb o2 by (subst rpostscript_loop.simps) simp
next
  case (Cons v s)
  obtain i1 x1 where nb: "next_byte P (i, x) = (Some v, (i1, x1))"
    using next_byte_spec(2)[OF Cons.prems(1,2)] by (cases "next_byte P (i, x)") auto
  note sp = next_byte_spec(2)[OF Cons.prems(1,2), unfolded nb fst_conv snd_conv]
    next_byte_spec(3,4)[OF Cons.prems(1), unfolded nb snd_conv]
  have be: "x_fd (c_be x1) = 2" using sp by (simp add: in_ok_def)
  obtain a1 p where n: "acc_next v a = (a1, p)" by fastforce
  obtain a2 q where r: "acc_run s a1 = (a2, q)" by fastforce
  have f: "fits (b, x1) (length p + (length q + length (acc_rest a2)))"
    using read_keeps_fits(1)[OF sp(3) be Cons.prems(3)] by (simp add: n r add.assoc)
  obtain b2 x2 where o2: "(if p = [] then (b, x1) else bout P p (b, x1)) = (b2, x2)" by fastforce
  have ap: "appends (b, x1) p (b2, x2)"
    using bout_spec[OF fits_less[OF f le_add1]] f o2 by (auto simp: appends_refl fits_def split: if_splits)
  note k = write_keeps_in[OF sp(2) ap]
  have "finished (i1, b2, x2) (q @ acc_rest a2) (rpostscript_loop P a1 (i1, b2, x2))"
    using Cons.IH[of i1 x2 b2 a1] k sp(1) appends_fits[OF ap f] by (simp add: r)
  from finished_step[OF ap sp(3) be this] show ?case
    using nb o2 by (subst rpostscript_loop.simps) (cases "p = []"; simp add: accumulate_next n r)
qed

text \<open>Whatever text has the digits of \<open>bs\<close> is reversed to \<open>bs\<close>.\<close>

lemma run_rpostscript_text:
  assumes "in_ok (i, x)" "digits_of (stream rest (i, x)) = hex_of (hexset u) bs" "fits (b, x) (length bs)"
  shows "finished (i, b, x) bs (run_rpostscript P (i, b, x))"
  using rpostscript_loop_text[OF assms(1) refl, of b new_accum] acc_text_hex[OF assms(2)] assms(3)
  by (simp add: run_rpostscript_def acc_text_def case_prod_beta flip: length_append)

end

end
