(* ===== verification/Rexxd_Main.thy ===== *)
theory Rexxd_Main
  imports Rexxd_Postscript
begin

text \<open>
  The program \<open>xxd\<close> of \<open>src/src/rexxd.c\<close>: the option loop, the defaults and checks, the
  initial seek, the five runs and the exit status, over a platform \<open>xplt\<close>; and the two
  entry points of the DLL build, \<open>xxd_hexdump\<close> and \<open>xxd_reverse\<close>. \<open>argv\<close> is the argument
  vector of C strings, \<open>avail\<close> the bytes left in the arena, which bound \<open>-c\<close> and \<open>-g\<close>.
  The exit through \<open>xxd_exit\<close> and the return from \<open>xxd_\<close> log the same line, so both are a
  status here.
\<close>

section \<open>Options\<close>

definition STATUS_OK :: int where "STATUS_OK = 0"
definition STATUS_CMD :: int where "STATUS_CMD = 1"
definition STATUS_INPUT :: int where "STATUS_INPUT = 2"
definition STATUS_OUTPUT :: int where "STATUS_OUTPUT = 3"
definition STATUS_OOM :: int where "STATUS_OOM = 6"

datatype xmode = MODE_HEXDUMP | MODE_BINDUMP | MODE_INCLUDE | MODE_POSTSCRIPT

record xopts =
  xo_mode :: xmode
  xo_conf :: xconf
  xo_splus :: bool
  xo_sminus :: bool
  xo_initseek :: int
  xo_limit :: int
  xo_trace :: bool

definition zero_conf :: xconf where
  "zero_conf =
     \<lparr>xc_dispoff = 0, xc_rseek = 0, xc_ncols = 0, xc_grouplen = 0, xc_inpath = None, xc_outpath = None,
      xc_name = None, xc_autoskip = False, xc_capitalize = False, xc_decimal = False, xc_ebcdic = False,
      xc_lendian = False, xc_reverse = False, xc_upper = False\<rparr>"

definition new_xopts :: xopts where
  "new_xopts =
     \<lparr>xo_mode = MODE_HEXDUMP, xo_conf = zero_conf, xo_splus = False, xo_sminus = False, xo_initseek = 0,
      xo_limit = 2 ^ 63 - 1, xo_trace = False\<rparr>"

text \<open>The pieces of the usage text; a \<open>u8\<close> of a C string, zero at its end.\<close>

definition xxd_usage :: string where
  "xxd_usage =
     ''usage: xxd [options] [INPATH [OUTPATH]]'' @ [nl] @
     ''  -a            toggle '' @ quot @ ''autoskip'' @ quot @ '': print * for repeated null lines'' @ [nl] @
     ''  -b            dump in binary format (incompatible with -r)'' @ [nl] @
     ''  -C            capitalize variable names in -i'' @ [nl] @
     ''  -c INT        number of octets per line'' @ [nl] @
     ''  -d            display offsets in decimal (incompatible with -r)'' @ [nl] @
     ''  -E            display text data in EBCDIC'' @ [nl] @
     ''  -e            reverse byte order within groups (incompatible with -r)'' @ [nl] @
     ''  -g INT        number of octets per group'' @ [nl] @
     ''  -h            print this message'' @ [nl] @
     ''  -i            dump as a C program'' @ [nl] @
     ''  -l INT        number of octets to read'' @ [nl] @
     ''  -n NAME       variable name for -i'' @ [nl] @
     ''  -o INT        offset to add to printed file positions'' @ [nl] @
     ''  -ps           output in postscript format'' @ [nl] @
     ''  -r            reverse hexdump to patch a binary'' @ [nl] @
     ''  -s [+][-]INT  initial absolute seek (or + for rel) on input'' @ [nl] @
     ''  -u            use uppercase hexadecimal for octets'' @ [nl] @
     ''  -v            display version information'' @ [nl] @
     ''  -x            strace-like log on standard error [rexxd only]'' @ [nl]"

definition xxd_version :: string where
  "xxd_version = ''xxd 2025-07-17 (rexxd for w64devkit)'' @ [nl]"

definition cbyte :: "string \<Rightarrow> nat \<Rightarrow> char" where
  "cbyte s k = (if k < length s then s ! k else CHR 0x00)"

text \<open>What an option does: the loop goes on after argument \<open>i\<close>, or stops there; or the program
  fails with a message, or prints a text.\<close>

datatype xstop = Stop_fail int "string list" | Stop_print "string list"
datatype xmove = Xo_next nat xopts | Xo_done nat xopts | Xo_stop xstop

definition getarg :: "string list \<Rightarrow> nat \<Rightarrow> (string \<times> nat) option" where
  "getarg argv i =
     (let arg = argv ! i in
      if cbyte arg 2 \<noteq> CHR 0x00 then Some (drop 2 arg, i)
      else if i + 1 = length argv then None
      else Some (argv ! (i + 1), i + 1))"

definition with_optarg :: "string list \<Rightarrow> nat \<Rightarrow> (string \<Rightarrow> nat \<Rightarrow> xmove) \<Rightarrow> xmove" where
  "with_optarg argv i k = (case getarg argv i of
      None \<Rightarrow> Xo_stop (Stop_fail STATUS_CMD [''xxd: missing argument: -'', [cbyte (argv ! i) 1], [nl]])
    | Some (optarg, i) \<Rightarrow> k optarg i)"

definition bad_optarg :: "char \<Rightarrow> string \<Rightarrow> xmove" where
  "bad_optarg c a = Xo_stop (Stop_fail STATUS_CMD [''xxd: invalid argument: -'' @ [c] @ '': '', a, [nl]])"

definition oom_stop :: xmove where
  "oom_stop = Xo_stop (Stop_fail STATUS_OOM [''xxd: out of memory'' @ [nl]])"

definition set_conf :: "(xconf \<Rightarrow> xconf) \<Rightarrow> xopts \<Rightarrow> xopts" where
  "set_conf f o' = o'\<lparr>xo_conf := f (xo_conf o')\<rparr>"

definition dflt :: "int \<Rightarrow> int \<Rightarrow> int" where
  "dflt v d = (if v \<noteq> 0 then v else d)"

text \<open>A leading sign that is taken off: the rest and whether it was there.\<close>

definition cut_sign :: "char \<Rightarrow> string \<Rightarrow> string \<times> bool" where
  "cut_sign c s = (if s \<noteq> [] \<and> hd s = c then (cuthead s 1, True) else (s, False))"

definition seek_option :: "string \<Rightarrow> nat \<Rightarrow> xopts \<Rightarrow> xmove" where
  "seek_option optarg i o' =
     (if xc_reverse (xo_conf o') then
        let (s, minus) = cut_sign (CHR ''-'') optarg in
        (case parse64 s of
           None \<Rightarrow> bad_optarg (CHR ''s'') s
         | Some v \<Rightarrow> Xo_next i (set_conf (\<lambda>c. c\<lparr>xc_rseek := (if minus then - v else v)\<rparr>) o'))
      else
        let (s, plus) = cut_sign (CHR ''+'') optarg;
            (s, minus) = cut_sign (CHR ''-'') s in
        (case parse64 s of
           None \<Rightarrow> bad_optarg (CHR ''s'') optarg
         | Some v \<Rightarrow> Xo_next i (o'\<lparr>xo_splus := xo_splus o' \<or> plus, xo_sminus := xo_sminus o' \<or> minus,
             xo_initseek := (if minus then - v else v)\<rparr>)))"

text \<open>One option, the byte \<open>arg[1]\<close> of the argument \<open>i\<close>.\<close>

definition xopt_step :: "int \<Rightarrow> string list \<Rightarrow> nat \<Rightarrow> xopts \<Rightarrow> xmove" where
  "xopt_step avail argv i o' =
     (let arg = argv ! i; c = cbyte arg 1; i32 = (\<lambda>v. v < 2 ^ 31) in
      if c = CHR ''-'' \<and> cbyte arg 2 = CHR 0x00 then Xo_done (i + 1) o'
      else if c = CHR 0x00 then Xo_done i o'
      else if c = CHR ''a'' then Xo_next i (set_conf (\<lambda>c. c\<lparr>xc_autoskip := \<not> xc_autoskip c\<rparr>) o')
      else if c = CHR ''b'' then
        Xo_next i (set_conf (\<lambda>c. c\<lparr>xc_grouplen := dflt (xc_grouplen c) 1, xc_ncols := dflt (xc_ncols c) 6\<rparr>)
          (o'\<lparr>xo_mode := MODE_BINDUMP\<rparr>))
      else if c = CHR ''C'' then Xo_next i (set_conf (\<lambda>c. c\<lparr>xc_capitalize := True\<rparr>) o')
      else if c = CHR ''c'' then
        with_optarg argv i (\<lambda>a i. case parse64 a of
            None \<Rightarrow> bad_optarg c a
          | Some v \<Rightarrow> if v < 1 \<or> \<not> i32 v then bad_optarg c a
              else if avail < v then oom_stop
              else Xo_next i (set_conf (\<lambda>c. c\<lparr>xc_ncols := v\<rparr>) o'))
      else if c = CHR ''d'' then Xo_next i (set_conf (\<lambda>c. c\<lparr>xc_decimal := True\<rparr>) o')
      else if c = CHR ''E'' then Xo_next i (set_conf (\<lambda>c. c\<lparr>xc_ebcdic := True\<rparr>) o')
      else if c = CHR ''e'' then
        Xo_next i (set_conf (\<lambda>c. c\<lparr>xc_grouplen := dflt (xc_grouplen c) 4, xc_lendian := True\<rparr>)
          (o'\<lparr>xo_mode := MODE_HEXDUMP\<rparr>))
      else if c = CHR ''g'' then
        with_optarg argv i (\<lambda>a i. case parse64 a of
            None \<Rightarrow> bad_optarg c a
          | Some v \<Rightarrow> if \<not> i32 v then bad_optarg c a
              else if avail < v then oom_stop
              else Xo_next i (set_conf (\<lambda>c. c\<lparr>xc_grouplen := (if v = 0 then -1 else v)\<rparr>) o'))
      else if c = CHR ''h'' then Xo_stop (Stop_print [xxd_usage])
      else if c = CHR ''i'' then
        Xo_next i (set_conf (\<lambda>c. c\<lparr>xc_ncols := dflt (xc_ncols c) 12\<rparr>) (o'\<lparr>xo_mode := MODE_INCLUDE\<rparr>))
      else if c = CHR ''l'' then
        with_optarg argv i (\<lambda>a i. case parse64 a of
            None \<Rightarrow> bad_optarg c a | Some v \<Rightarrow> Xo_next i (o'\<lparr>xo_limit := v\<rparr>))
      else if c = CHR ''n'' then
        with_optarg argv i (\<lambda>a i. Xo_next i (set_conf (\<lambda>c. c\<lparr>xc_name := Some a\<rparr>) o'))
      else if c = CHR ''o'' then
        with_optarg argv i (\<lambda>a i. case parse64 a of
            None \<Rightarrow> bad_optarg c arg
          | Some v \<Rightarrow> Xo_next i (set_conf (\<lambda>c. c\<lparr>xc_dispoff := word_of_int v\<rparr>) o'))
      else if c = CHR ''p'' then
        Xo_next i (set_conf (\<lambda>c. c\<lparr>xc_ncols := dflt (xc_ncols c) 30\<rparr>) (o'\<lparr>xo_mode := MODE_POSTSCRIPT\<rparr>))
      else if c = CHR ''R'' then with_optarg argv i (\<lambda>a i. Xo_next i o')
      else if c = CHR ''r'' then Xo_next i (set_conf (\<lambda>c. c\<lparr>xc_reverse := True\<rparr>) o')
      else if c = CHR ''s'' then with_optarg argv i (\<lambda>a i. seek_option a i o')
      else if c = CHR ''u'' then Xo_next i (set_conf (\<lambda>c. c\<lparr>xc_upper := True\<rparr>) o')
      else if c = CHR ''v'' then Xo_stop (Stop_print [xxd_version])
      else if c = CHR ''x'' then Xo_next i (o'\<lparr>xo_trace := True\<rparr>)
      else Xo_stop (Stop_fail STATUS_CMD [''xxd: unknown option '', arg, [nl], xxd_usage]))"

lemma with_optarg_forward:
  "with_optarg argv i k = Xo_next j o'' \<Longrightarrow> \<exists>a i'. i \<le> i' \<and> k a i' = Xo_next j o''"
  by (auto simp: with_optarg_def getarg_def Let_def split: option.splits if_splits intro: le_SucI)

lemma xopt_step_forward: "xopt_step avail argv i o' = Xo_next j o'' \<Longrightarrow> i \<le> j"
  unfolding xopt_step_def Let_def
  by (simp split: if_split_asm)
    (auto simp: bad_optarg_def oom_stop_def seek_option_def case_prod_beta Let_def
      split: option.splits if_splits dest!: with_optarg_forward)

text \<open>The loop gives the index of the first argument that is not an option, with the options.\<close>

function xopt_loop :: "int \<Rightarrow> string list \<Rightarrow> nat \<Rightarrow> xopts \<Rightarrow> (xstop + nat) \<times> xopts" where
  "xopt_loop avail argv i o' =
     (if i < length argv \<and> cbyte (argv ! i) 0 = CHR ''-'' then
        case xopt_step avail argv i o' of
          Xo_next i o' \<Rightarrow> xopt_loop avail argv (i + 1) o'
        | Xo_done i o' \<Rightarrow> (Inr i, o')
        | Xo_stop s \<Rightarrow> (Inl s, o')
      else (Inr i, o'))"
  by pat_completeness auto
termination
  by (relation "measure (\<lambda>(avail, argv, i, o'). length argv - i)") (auto dest: xopt_step_forward)

declare xopt_loop.simps [simp del]

section \<open>Defaults and checks\<close>

definition conf_defaults :: "xconf \<Rightarrow> xconf" where
  "conf_defaults c =
     (let c = c\<lparr>xc_ncols := dflt (xc_ncols c) 16\<rparr> in
      if xc_grouplen c = 0 then c\<lparr>xc_grouplen := 2\<rparr>
      else if xc_grouplen c = -1 then c\<lparr>xc_grouplen := xc_ncols c\<rparr>
      else c)"

definition conf_check :: "xmode \<Rightarrow> xconf \<Rightarrow> string option" where
  "conf_check mode c =
     (if xc_lendian c \<and> xc_ncols c mod xc_grouplen c \<noteq> 0
      then Some (''xxd: for -e, -c must be a multiple of -g'' @ [nl])
      else if xc_reverse c \<and>
        \<not> (\<not> xc_lendian c \<and> \<not> xc_decimal c \<and> (mode = MODE_HEXDUMP \<or> mode = MODE_POSTSCRIPT))
      then Some (''xxd: -r incompatible with format'' @ [nl])
      else None)"

definition path_arg :: "string \<Rightarrow> string option" where
  "path_arg p = (if p = ''-'' then None else Some p)"

text \<open>The positional arguments; \<open>None\<close> for too many. Without any \<open>argv\<close> their number is \<open>-1\<close>.\<close>

definition positional :: "string list \<Rightarrow> nat \<Rightarrow> xconf \<Rightarrow> xconf option" where
  "positional argv i c =
     (let n = int (length argv) - int i in
      if n = 2 then Some (c\<lparr>xc_outpath := path_arg (argv ! (i + 1)), xc_inpath := path_arg (argv ! i)\<rparr>)
      else if n = 1 then Some (c\<lparr>xc_inpath := path_arg (argv ! i)\<rparr>)
      else if n = 0 \<or> n = -1 then Some c
      else None)"

section \<open>Opening and seeking\<close>

text \<open>A seek on the input, simulated by reading when the platform cannot.\<close>

definition forward_seek :: "'w xplt \<Rightarrow> int \<Rightarrow> int \<Rightarrow> 'w in_state \<Rightarrow> int \<times> 'w in_state" where
  "forward_seek P off whence = (\<lambda>(i, x).
     let (r, x) = xxd_seek P 0 off whence x in
     if r < 0 \<and> 0 < off then
       let (ok, st) = readseek P off (i, x) in (if ok then off else r, st)
     else (r, (i, x)))"

text \<open>The position sought, \<open>None\<close> where nothing is done.\<close>

definition seek_input :: "'w xplt \<Rightarrow> xopts \<Rightarrow> xconf \<Rightarrow> 'w in_state \<Rightarrow> int option \<times> 'w in_state" where
  "seek_input P o' c st =
     (let off = xo_initseek o';
          at_end = (\<lambda>(i, x). let (r, x) = xxd_seek P 0 off PLT_SEEK_END x in (Some r, (i, x)))
      in if xc_inpath c \<noteq> None then
           if xo_sminus o' then at_end st
           else if off \<noteq> 0 then apfst Some (forward_seek P off PLT_SEEK_SET st)
           else (None, st)
         else if \<not> xo_splus o' \<and> xo_sminus o' then at_end st
         else if \<not> xo_splus o' \<and> off \<noteq> 0 then apfst Some (forward_seek P off PLT_SEEK_SET st)
         else if xo_splus o' \<and> off \<noteq> 0 then apfst Some (forward_seek P off PLT_SEEK_CUR st)
         else (None, st))"

text \<open>A message on standard error and the status.\<close>

definition xfail :: "'w xplt \<Rightarrow> int \<Rightarrow> string list \<Rightarrow> 'w xctx \<Rightarrow> int \<times> 'w xctx" where
  "xfail P status pieces x = (status, xlog P pieces x)"

definition open_path :: "'w xplt \<Rightarrow> int \<Rightarrow> string option \<Rightarrow> bool \<Rightarrow> 'w xctx \<Rightarrow> bool \<times> 'w xctx" where
  "open_path P fd path trunc x = (case path of None \<Rightarrow> (True, x) | Some p \<Rightarrow> xxd_open P fd p trunc x)"

section \<open>The runs\<close>

definition run_mode :: "'w xplt \<Rightarrow> (string \<Rightarrow> xin \<Rightarrow> char) \<Rightarrow> xmode \<Rightarrow> xconf \<Rightarrow> 'w xstate \<Rightarrow> 'w xstate option" where
  "run_mode P beyond mode c st = (case mode of
      MODE_HEXDUMP \<Rightarrow> if xc_reverse c then run_rhexdump P beyond c st else Some (run_hexdump P c st)
    | MODE_BINDUMP \<Rightarrow> Some (run_bindump P c st)
    | MODE_INCLUDE \<Rightarrow> Some (run_include P c st)
    | MODE_POSTSCRIPT \<Rightarrow> Some (if xc_reverse c then run_rpostscript P st else run_postscript P c st))"

definition xxd_end :: "'w xplt \<Rightarrow> 'w xstate \<Rightarrow> int \<times> 'w xctx" where
  "xxd_end P = (\<lambda>(i, b, x).
     let (b, x) = bflush P (b, x) in
     if x_err b then xfail P STATUS_OUTPUT [''xxd: error writing output'' @ [nl]] x
     else if i_err i then xfail P STATUS_INPUT [''xxd: error reading input'' @ [nl]] x
     else xfail P STATUS_OK [] x)"

text \<open>After the options: open, seek, run.\<close>

definition xxd_files :: "'w xplt \<Rightarrow> (string \<Rightarrow> xin \<Rightarrow> char) \<Rightarrow> xopts \<Rightarrow> xconf \<Rightarrow> 'w xctx \<Rightarrow> (int \<times> 'w xctx) option" where
  "xxd_files P beyond o' c x =
     (let (ok, x) = open_path P 0 (xc_inpath c) False x in
      if \<not> ok then
        Some (xfail P STATUS_INPUT [''xxd: error opening input file: '', the (xc_inpath c), [nl]] x)
      else
        let (pos, (i, x)) = seek_input P o' c (new_xin\<lparr>i_limit := xo_limit o'\<rparr>, x) in
        if (case pos of None \<Rightarrow> False | Some r \<Rightarrow> r < 0) then
          Some (xfail P STATUS_INPUT [''xxd: failed -s seek on input'' @ [nl]] x)
        else
          let c = (case pos of None \<Rightarrow> c | Some r \<Rightarrow> c\<lparr>xc_dispoff := xc_dispoff c + word_of_int r\<rparr>);
              (ok, x) = open_path P 1 (xc_outpath c) (\<not> xc_reverse c) x
          in if \<not> ok then
               Some (xfail P STATUS_OUTPUT [''xxd: error opening output file: '', the (xc_outpath c), [nl]] x)
             else map_option (xxd_end P) (run_mode P beyond (xo_mode o') c (i, new_xout 1, x)))"

definition xxd_stop :: "'w xplt \<Rightarrow> xstop \<Rightarrow> 'w xctx \<Rightarrow> int \<times> 'w xctx" where
  "xxd_stop P s x = (case s of
      Stop_fail status pieces \<Rightarrow> xfail P status pieces x
    | Stop_print pieces \<Rightarrow>
        let (b, x) = bflush P (fold (bout P) pieces (new_xout 1, x)) in
        (if x_err b then STATUS_OUTPUT else STATUS_OK, x))"

text \<open>\<open>xxd_\<close> on a fresh context.\<close>

definition xxd_main :: "'w xplt \<Rightarrow> (string \<Rightarrow> xin \<Rightarrow> char) \<Rightarrow> int \<Rightarrow> string list \<Rightarrow> 'w \<Rightarrow> (int \<times> 'w xctx) option" where
  "xxd_main P beyond avail argv w =
     (let (r, o') = xopt_loop avail argv 1 new_xopts;
          x = \<lparr>c_plt = w, c_be = new_xout 2, c_trace = xo_trace o'\<rparr>;
          c = conf_defaults (xo_conf o')
      in case r of
           Inl s \<Rightarrow> Some (xxd_stop P s x)
         | Inr i \<Rightarrow>
             (case conf_check (xo_mode o') c of
                Some message \<Rightarrow> Some (xfail P STATUS_CMD [message] x)
              | None \<Rightarrow>
                  (case positional argv i c of
                     None \<Rightarrow> Some (xfail P STATUS_CMD [''xxd: too many arguments'' @ [nl], xxd_usage] x)
                   | Some c \<Rightarrow> xxd_files P beyond o' c x)))"

definition xxd :: "'w xplt \<Rightarrow> (string \<Rightarrow> xin \<Rightarrow> char) \<Rightarrow> int \<Rightarrow> string list \<Rightarrow> 'w \<Rightarrow> (int \<times> 'w) option" where
  "xxd P beyond avail argv w =
     map_option (\<lambda>(r, x). (r, c_plt (log_exit P r x))) (xxd_main P beyond avail argv w)"

section \<open>The DLL\<close>

text \<open>The bytes of the stack the DLL gives to the arena (it passes no \<open>-c\<close> or \<open>-g\<close>, which it would
  bound); the result is the size of the output, or \<open>-1\<close>, with the output itself.\<close>

definition PLT_ALLOCA :: int where "PLT_ALLOCA = 2 ^ 18"

definition dll_start :: "int \<Rightarrow> string \<Rightarrow> dll_plt" where
  "dll_start dlen src = \<lparr>d_input = src, d_inpos = 0, d_output = [], d_outpos = 0, d_outcap = dlen\<rparr>"

definition dll_result :: "int \<times> dll_plt \<Rightarrow> int \<times> string" where
  "dll_result = (\<lambda>(ret, plt). (if ret = STATUS_OK then d_outpos plt else -1, d_output plt))"

definition xxd_hexdump :: "(string \<Rightarrow> xin \<Rightarrow> char) \<Rightarrow> int \<Rightarrow> string \<Rightarrow> (int \<times> string) option" where
  "xxd_hexdump beyond dlen src = map_option dll_result (xxd dll_platform beyond PLT_ALLOCA [] (dll_start dlen src))"

definition xxd_reverse :: "(string \<Rightarrow> xin \<Rightarrow> char) \<Rightarrow> int \<Rightarrow> string \<Rightarrow> (int \<times> string) option" where
  "xxd_reverse beyond dlen src =
     map_option dll_result (xxd dll_platform beyond PLT_ALLOCA [[], ''-r''] (dll_start dlen src))"

end
