(* ===== verification/Rexxd_Whole.thy ===== *)
theory Rexxd_Whole
  imports Rexxd_Main
begin

text \<open>
  The whole program of \<open>src/src/rexxd.c\<close> from standard input to standard output, on any
  platform that meets \<open>xplatform\<close>: a run that finishes its text ends with status 0 and has
  written it. For the DLL build: \<open>xxd_hexdump\<close> writes \<open>hexdump_text\<close>, \<open>xxd_reverse\<close> gives the
  bytes back, and so do the two PostScript runs; and the zeros of \<open>seekout\<close> are written for
  ever once the output has failed.
\<close>

section \<open>From standard input to standard output\<close>

definition std_opts :: "xopts \<Rightarrow> bool" where
  "std_opts o' \<longleftrightarrow> \<not> xo_splus o' \<and> \<not> xo_sminus o' \<and> xo_initseek o' = 0 \<and> 0 \<le> xo_limit o'"

definition fresh_ctx :: "'w \<Rightarrow> bool \<Rightarrow> 'w xctx" where
  "fresh_ctx w trace = \<lparr>c_plt = w, c_be = new_xout 2, c_trace = trace\<rparr>"

definition fresh_state :: "xopts \<Rightarrow> 'w \<Rightarrow> 'w xstate" where
  "fresh_state o' w = (new_xin\<lparr>i_limit := xo_limit o'\<rparr>, new_xout 1, fresh_ctx w (xo_trace o'))"

context xplatform
begin

lemma fresh_ok:
  assumes "std_opts o'"
  shows "in_ok (new_xin\<lparr>i_limit := xo_limit o'\<rparr>, fresh_ctx w t)"
    "stream rest (new_xin\<lparr>i_limit := xo_limit o'\<rparr>, fresh_ctx w t) = take (nat (xo_limit o')) (rest w)"
    "appending w \<Longrightarrow> n \<le> space w \<Longrightarrow> n < 2 ^ 63 \<Longrightarrow> fits (new_xout 1, fresh_ctx w t) n"
    "out_text content (new_xout 1, fresh_ctx w t) = content w"
  using assms
  by (simp_all add: std_opts_def in_ok_def stream_def new_xin_def fresh_ctx_def new_xout_def fits_def out_ok_def
      out_room_def out_text_def)

lemma xlog_outs: "x_fd (c_be x) = 2 \<Longrightarrow> outs (c_plt (xlog P ps x)) = outs (c_plt x)"
  using xlog_keeps[of outs P x ps] log_outs by simp

lemma xxd_end_ok:
  assumes "finished st0 s (i, b, x)"
  shows "\<exists>x'. xxd_end P (i, b, x) = (STATUS_OK, x') \<and> content (c_plt x') = out_text content (b, x) \<and>
    appending (c_plt x') \<and> x_fd (c_be x') = 2"
proof -
  have ok: "in_ok (i, x)" "out_ok space appending (b, x)" using assms by (auto simp: finished_def)
  obtain b1 x1 where f: "bflush P (b, x) = (b1, x1)" by fastforce
  have sp: "out_ok space appending (b1, x1)" "out_text content (b1, x1) = out_text content (b, x)" "x_buf b1 = []"
    using bflush_spec[of "(b, x)"] ok f by (simp_all add: out_ok_def)
  have fd: "x_fd (c_be x1) = 2" using sp(1) by (simp add: out_ok_def)
  have "xxd_end P (i, b, x) = (STATUS_OK, xlog P [] x1)"
    using f sp(1) ok(1) by (simp add: xxd_end_def xfail_def out_ok_def in_ok_def)
  moreover have "x_fd (c_be (xlog P [] x1)) = 2" using xlog_keeps[of outs P x1 "[]"] log_outs fd by simp
  moreover have "content (c_plt (xlog P [] x1)) = out_text content (b, x)" "appending (c_plt (xlog P [] x1))"
    using xlog_outs[OF fd, of "[]"] sp by (simp_all add: outs_def out_text_def out_ok_def)
  ultimately show ?thesis by blast
qed

lemma xxd_files_std:
  assumes "std_opts o'" "xc_inpath c = None" "xc_outpath c = None"
  shows "xxd_files P beyond o' c (fresh_ctx w (xo_trace o')) =
    map_option (xxd_end P) (run_mode P beyond (xo_mode o') c (fresh_state o' w))"
  using assms by (simp add: xxd_files_def open_path_def seek_input_def std_opts_def fresh_state_def Let_def)

text \<open>The program ends with status 0 and its output has the text of the run.\<close>

lemma xxd_std:
  assumes "xopt_loop avail argv 1 new_xopts = (Inr n, o')" "conf_check (xo_mode o') (conf_defaults (xo_conf o')) = None"
    "positional argv n (conf_defaults (xo_conf o')) = Some c" "xc_inpath c = None" "xc_outpath c = None" "std_opts o'"
    "run_mode P beyond (xo_mode o') c (fresh_state o' w) = Some st" "finished (fresh_state o' w) s st"
  shows "\<exists>w'. xxd P beyond avail argv w = Some (STATUS_OK, w') \<and> content w' = content w @ s \<and> appending w'"
proof -
  obtain i b x where st: "st = (i, b, x)" by (cases st)
  obtain x' where e: "xxd_end P st = (STATUS_OK, x')" "content (c_plt x') = out_text content (b, x)" "x_fd (c_be x') = 2"
    "appending (c_plt x')"
    using xxd_end_ok assms(8) unfolding st by blast
  have "xxd_main P beyond avail argv w = Some (STATUS_OK, x')"
    using assms(1-3) xxd_files_std[OF assms(6,4,5), of beyond w] assms(7) e(1)
    by (simp add: xxd_main_def fresh_ctx_def Let_def)
  moreover have "content (c_plt x') = content w @ s"
    using e(2) assms(8) fresh_ok(4)[OF assms(6)] by (simp add: st finished_def fresh_state_def)
  moreover have "content (c_plt (log_exit P STATUS_OK x')) = content (c_plt x')" "appending (c_plt (log_exit P STATUS_OK x'))"
    using xlog_outs[OF e(3)] e(4) by (simp_all add: log_exit_def outs_def)
  ultimately show ?thesis by (simp add: xxd_def)
qed

end

section \<open>The default dump\<close>

definition plain_dump :: xconf where
  "plain_dump = conf_defaults zero_conf"

lemma plain_dump_simps: "plain_conf plain_dump" "\<not> xc_autoskip plain_dump" "\<not> xc_decimal plain_dump" "xc_dispoff plain_dump = 0"
    "xc_rseek plain_dump = 0" "ncols plain_dump = 16"
  by (simp_all add: plain_dump_def conf_defaults_def zero_conf_def dflt_def plain_conf_def)

lemma opts_none: "xopt_loop avail [] 1 new_xopts = (Inr 1, new_xopts)"
  by (simp add: xopt_loop.simps)

lemma arg_r: "xopt_loop avail [[], ''-r''] 1 new_xopts = (Inr 2, set_conf (\<lambda>c. c\<lparr>xc_reverse := True\<rparr>) new_xopts)"
  by (simp add: xopt_loop.simps cbyte_def xopt_step_def Let_def)

context xplatform
begin

lemma xxd_hexdump_text:
  assumes "appending w" "length (hexdump_text plain_dump 0 (rest w)) \<le> space w"
    "length (hexdump_text plain_dump 0 (rest w)) < 2 ^ 63" "length (rest w) < 2 ^ 63"
  shows "\<exists>w'. xxd P beyond avail [] w = Some (STATUS_OK, w') \<and> content w' = content w @ hexdump_text plain_dump 0 (rest w) \<and>
    appending w'"
proof (rule xxd_std[OF opts_none])
  show std: "std_opts new_xopts" by (simp add: std_opts_def new_xopts_def)
  have r: "take (nat (xo_limit new_xopts)) (rest w) = rest w" using assms(4) by (simp add: new_xopts_def)
  note f = fresh_ok[OF std, where w = w and t = "xo_trace new_xopts"]
  show "run_mode P beyond (xo_mode new_xopts) plain_dump (fresh_state new_xopts w) =
      Some (run_hexdump P plain_dump (fresh_state new_xopts w))"
    by (simp add: run_mode_def new_xopts_def plain_dump_def conf_defaults_def zero_conf_def)
  show "finished (fresh_state new_xopts w) (hexdump_text plain_dump 0 (rest w)) (run_hexdump P plain_dump (fresh_state new_xopts w))"
    using dump_loop_text[OF plain_dump_simps(1,2) f(1) new_template_ok f(3)[OF assms(1)], of 0] assms(2,3) f(2) r
    by (simp add: run_hexdump_def fresh_state_def plain_dump_simps(4))
qed (simp_all add: new_xopts_def conf_check_def positional_def plain_dump_def conf_defaults_def zero_conf_def)

lemma xxd_reverse_text:
  assumes "rest w = hexdump_text plain_dump 0 s" "appending w" "length s \<le> space w" "length s < 2 ^ 63"
    "length (rest w) < 2 ^ 63"
  shows "\<exists>w'. xxd P beyond avail [[], ''-r''] w = Some (STATUS_OK, w') \<and> content w' = content w @ s \<and> appending w'"
proof -
  define o' where "o' = set_conf (\<lambda>c. c\<lparr>xc_reverse := True\<rparr>) new_xopts"
  define c where "c = conf_defaults (xo_conf o')"
  have std: "std_opts o'" by (simp add: std_opts_def new_xopts_def o'_def set_conf_def)
  have lim: "xo_limit o' = 2 ^ 63 - 1" by (simp add: o'_def set_conf_def new_xopts_def)
  have c: "xc_rseek c = 0" "xc_inpath c = None" "xc_outpath c = None" "xc_reverse c" "conf_check (xo_mode o') c = None"
    "xo_mode o' = MODE_HEXDUMP"
    by (simp_all add: c_def o'_def set_conf_def new_xopts_def conf_defaults_def zero_conf_def conf_check_def)
  note f = fresh_ok[OF std, where w = w and t = "xo_trace o'"]
  have "stream rest (new_xin\<lparr>i_limit := xo_limit o'\<rparr>, fresh_ctx w (xo_trace o')) = hexdump_text plain_dump (of_nat 0) s"
    using f(2) lim assms(1,5) by simp
  from run_rhexdump_text[OF plain_dump_simps(1,3) c(1) this, of "new_xout 1" beyond] f(1) f(3)[OF assms(2,3,4)] assms(4)
  obtain st where "run_rhexdump P beyond c (fresh_state o' w) = Some st" "finished (fresh_state o' w) s st"
    by (auto simp: new_xout_def fresh_state_def)
  then show ?thesis
    using xxd_std[OF arg_r[folded o'_def], of c beyond w st s] c std
    by (simp add: positional_def c_def run_mode_def)
qed

end

section \<open>The DLL\<close>

lemma dll_start_simps: "dll_rest (dll_start n s) = s" "d_output (dll_start n s) = []" "dll_space (dll_start n s) = nat n"
    "dll_appending (dll_start n s)"
  by (simp_all add: dll_start_def dll_rest_def dll_space_def dll_appending_def)

text \<open>A run of the DLL that has written \<open>s\<close> returns its length.\<close>

lemma dll_result_eq:
  "d_output w' = s \<Longrightarrow> dll_appending w' \<Longrightarrow> dll_result (STATUS_OK, w') = (int (length s), s)"
  by (simp add: dll_result_def dll_appending_def)

lemma dll_hexdump:
  assumes "int (length (hexdump_text plain_dump 0 src)) \<le> dlen" "dlen < 2 ^ 63" "length src < 2 ^ 63"
  shows "xxd_hexdump beyond dlen src =
    Some (int (length (hexdump_text plain_dump 0 src)), hexdump_text plain_dump 0 src)"
proof -
  let ?t = "hexdump_text plain_dump 0 src"
  have "int (length ?t) < int (2 ^ 63)" using assms(1,2) by simp
  then have "length ?t \<le> nat dlen" "length ?t < 2 ^ 63" using assms(1) by (linarith, simp only: of_nat_less_iff)
  then obtain w' where "xxd dll_platform beyond PLT_ALLOCA [] (dll_start dlen src) = Some (STATUS_OK, w')"
      "d_output w' = ?t" "dll_appending w'"
    using dll.xxd_hexdump_text[of "dll_start dlen src" beyond PLT_ALLOCA] assms(3) by (auto simp: dll_start_simps)
  then show ?thesis by (simp add: xxd_hexdump_def dll_result_eq)
qed

lemma dll_reverse:
  assumes "int (length src) \<le> dlen" "length src < 2 ^ 63" "length (hexdump_text plain_dump 0 src) < 2 ^ 63"
  shows "xxd_reverse beyond dlen (hexdump_text plain_dump 0 src) = Some (int (length src), src)"
proof -
  have "length src \<le> nat dlen" using assms(1) by linarith
  then obtain w' where "xxd dll_platform beyond PLT_ALLOCA [[], ''-r''] (dll_start dlen (hexdump_text plain_dump 0 src)) =
      Some (STATUS_OK, w')" "d_output w' = src" "dll_appending w'"
    using dll.xxd_reverse_text[of "dll_start dlen (hexdump_text plain_dump 0 src)" src beyond PLT_ALLOCA] assms(2,3)
    by (auto simp: dll_start_simps)
  then show ?thesis by (simp add: xxd_reverse_def dll_result_eq)
qed

text \<open>A row of the dump has at most 76 characters.\<close>

lemma length_row_text:
  assumes "plain_conf c" "length line \<le> ncols c" "\<not> xc_decimal c"
  shows "length (row_text c off line) \<le> 16 + templlen 2 c"
proof -
  have "length (hex_row c line) \<le> templlen 2 c"
    using hex_render_nth(1)[OF assms(1) new_template_ok assms(2)] by (simp add: hex_row_def)
  moreover have "length (printhexoff off) \<le> 16"
    by (simp add: printhexoff_def length_concat hexpair_def comp_def sum_list_triv)
  ultimately show ?thesis using assms(3) by (simp add: row_text_def printoffset_def)
qed

lemma length_hexdump_text: "length (hexdump_text plain_dump off s) \<le> 76 * ((length s + 15) div 16)"
proof (induction "length s" arbitrary: s off rule: less_induct)
  case less
  show ?case
  proof (cases "s = []")
    case False
    have "templlen 2 plain_dump = 60"
      by (simp add: templlen_def txtbase_def ngroups_def plain_dump_def conf_defaults_def zero_conf_def dflt_def)
    then have r: "length (row_text plain_dump off (take 16 s)) \<le> 76"
      using length_row_text[OF plain_dump_simps(1) _ plain_dump_simps(3), of "take 16 s" off] plain_dump_simps(6) by simp
    have "1 + (length s - 16 + 15) div 16 \<le> (length s + 15) div 16"
    proof (cases "length s \<le> 16")
      case True
      have "16 \<le> length s + 15" using False by (cases s) auto
      then have "16 div 16 \<le> (length s + 15) div 16" by (rule div_le_mono)
      then show ?thesis using True by simp
    next
      case False
      then have "length s + 15 = length s - 16 + 15 + 16" by simp
      then show ?thesis by (metis div_add_self2 add.commute order_refl zero_neq_numeral)
    qed
    then have n: "76 + 76 * ((length s - 16 + 15) div 16) \<le> 76 * ((length s + 15) div 16)" by simp
    have "length (hexdump_text plain_dump off' (drop 16 s)) \<le> 76 * ((length s - 16 + 15) div 16)" for off'
      using less[of "drop 16 s"] False by simp
    from add_mono[OF r this] show ?thesis
      using n False plain_dump_simps(6) by (subst hexdump_text.simps) (auto intro: order_trans)
  qed simp
qed

section \<open>PostScript runs\<close>

lemma arg_p: "xopt_loop avail [[], ''-p''] 1 new_xopts =
    (Inr 2, set_conf (\<lambda>c. c\<lparr>xc_ncols := 30\<rparr>) (new_xopts\<lparr>xo_mode := MODE_POSTSCRIPT\<rparr>))"
  by (simp add: xopt_loop.simps cbyte_def xopt_step_def Let_def dflt_def set_conf_def new_xopts_def zero_conf_def)

lemma arg_rp: "xopt_loop avail [[], ''-r'', ''-p''] 1 new_xopts =
    (Inr 3, set_conf (\<lambda>c. c\<lparr>xc_reverse := True, xc_ncols := 30\<rparr>) (new_xopts\<lparr>xo_mode := MODE_POSTSCRIPT\<rparr>))"
  by (simp add: xopt_loop.simps cbyte_def xopt_step_def Let_def dflt_def set_conf_def new_xopts_def zero_conf_def)

definition postscript_conf :: xconf where
  "postscript_conf = conf_defaults (zero_conf\<lparr>xc_ncols := 30\<rparr>)"

context xplatform
begin

lemma xxd_postscript_text:
  assumes "appending w" "length (postscript_text postscript_conf (rest w)) \<le> space w"
    "length (postscript_text postscript_conf (rest w)) < 2 ^ 63" "length (rest w) < 2 ^ 63"
  shows "\<exists>w'. xxd P beyond avail [[], ''-p''] w = Some (STATUS_OK, w') \<and>
    content w' = content w @ postscript_text postscript_conf (rest w) \<and> appending w'"
proof -
  define o' where "o' = set_conf (\<lambda>c. c\<lparr>xc_ncols := 30\<rparr>) (new_xopts\<lparr>xo_mode := MODE_POSTSCRIPT\<rparr>)"
  have std: "std_opts o'" by (simp add: std_opts_def new_xopts_def o'_def set_conf_def)
  have r: "take (nat (xo_limit o')) (rest w) = rest w" using assms(4) by (simp add: new_xopts_def o'_def set_conf_def)
  have c: "conf_defaults (xo_conf o') = postscript_conf" "xc_inpath postscript_conf = None" "xc_outpath postscript_conf = None"
    "conf_check (xo_mode o') postscript_conf = None" "xo_mode o' = MODE_POSTSCRIPT" "\<not> xc_reverse postscript_conf"
    "0 < ncols postscript_conf"
    by (simp_all add: o'_def set_conf_def new_xopts_def postscript_conf_def conf_defaults_def zero_conf_def conf_check_def dflt_def)
  note f = fresh_ok[OF std, where w = w and t = "xo_trace o'"]
  have "finished (fresh_state o' w) (postscript_text postscript_conf (rest w)) (run_postscript P postscript_conf (fresh_state o' w))"
    using postscript_loop_text[OF c(7) f(1) _ f(3)[OF assms(1)]] assms(2,3) f(2) r
    by (simp add: run_postscript_def fresh_state_def)
  then show ?thesis
    using xxd_std[OF arg_p[folded o'_def], of postscript_conf beyond w] c std by (simp add: positional_def run_mode_def)
qed

text \<open>Any text with the digits of \<open>bs\<close>.\<close>

lemma xxd_rpostscript_text:
  assumes "digits_of (rest w) = hex_of (hexset u) bs" "appending w" "length bs \<le> space w" "length bs < 2 ^ 63"
    "length (rest w) < 2 ^ 63"
  shows "\<exists>w'. xxd P beyond avail [[], ''-r'', ''-p''] w = Some (STATUS_OK, w') \<and> content w' = content w @ bs \<and> appending w'"
proof -
  define o' where "o' = set_conf (\<lambda>c. c\<lparr>xc_reverse := True, xc_ncols := 30\<rparr>) (new_xopts\<lparr>xo_mode := MODE_POSTSCRIPT\<rparr>)"
  define c where "c = conf_defaults (xo_conf o')"
  have std: "std_opts o'" by (simp add: std_opts_def new_xopts_def o'_def set_conf_def)
  have r: "take (nat (xo_limit o')) (rest w) = rest w" using assms(5) by (simp add: new_xopts_def o'_def set_conf_def)
  have c: "xc_inpath c = None" "xc_outpath c = None" "conf_check (xo_mode o') c = None" "xo_mode o' = MODE_POSTSCRIPT" "xc_reverse c"
    by (simp_all add: c_def o'_def set_conf_def new_xopts_def conf_defaults_def zero_conf_def conf_check_def dflt_def)
  note f = fresh_ok[OF std, where w = w and t = "xo_trace o'"]
  have "finished (fresh_state o' w) bs (run_rpostscript P (fresh_state o' w))"
    using run_rpostscript_text[OF f(1) _ f(3)[OF assms(2,3,4)], of u] f(2) r assms(1) by (simp add: fresh_state_def)
  then show ?thesis
    using xxd_std[OF arg_rp[folded o'_def], of c beyond w] c std by (simp add: positional_def run_mode_def c_def)
qed

end

lemma length_postscript_text: "length (postscript_text c s) \<le> 3 * length s"
proof (induction "length s" arbitrary: s rule: less_induct)
  case less
  show ?case
  proof (cases "s = [] \<or> ncols c = 0")
    case False
    then have "0 < length (take (ncols c) s)" by simp
    moreover have "length (postscript_text c (drop (ncols c) s)) \<le> 3 * (length s - ncols c)"
      using less[of "drop (ncols c) s"] False by simp
    ultimately show ?thesis using False by (subst postscript_text.simps) (auto simp: min_def Suc_le_eq)
  qed (simp add: postscript_text.simps)
qed

section \<open>A write that fails while zeros are written\<close>

lemma zero_fill_stuck:
  fixes P :: "'w xplt"
  assumes "\<And>x s. ok x \<Longrightarrow> length s = 2 ^ 12 \<Longrightarrow> \<not> fst (xxd_write P 1 s x)"
    "ok x" "x_fd b = 1" "length (x_buf b) < 2 ^ 12" "x_fpos b + (2 ^ 12 - int (length (x_buf b))) < pos"
  shows "zero_fill P pos (b, x) = None"
proof -
  define K where "K = x_fpos b + (2 ^ 12 - int (length (x_buf b)))"
  define I :: "'w xo_state \<Rightarrow> bool" where "I = (\<lambda>(b, x). x_fpos b \<le> K \<and> (x_err b \<or> ok x \<and> x_fd b = 1 \<and> length (x_buf b) < 2 ^ 12 \<and>
    x_fpos b + (2 ^ 12 - int (length (x_buf b))) \<le> K))"
  have step: "I (bout P [CHR 0x00] st)" if "I st" for st
  proof -
    obtain b x where st: "st = (b, x)" by fastforce
    define b0 where "b0 = b\<lparr>x_err := x_err b \<or> 2 ^ 63 - 1 - int (length [CHR 0x00]) < x_fpos b\<rparr>"
    have o1: "bout P [CHR 0x00] st = xoutput_loop (xxd_write P) [CHR 0x00] (b0, x)"
      by (simp add: bout_def xoutput_def st b0_def)
    show ?thesis
    proof (cases "x_err b0")
      case True
      then have "bout P [CHR 0x00] st = (b0, x)" unfolding o1 by (simp add: xoutput_loop.simps)
      then show ?thesis using that True by (simp add: I_def st b0_def)
    next
      case False
      then have i: "ok x" "x_fd b = 1" "length (x_buf b) < 2 ^ 12" "x_fpos b + (2 ^ 12 - int (length (x_buf b))) \<le> K"
        using that by (auto simp: I_def st b0_def)
      define b1 where "b1 = b0\<lparr>x_buf := x_buf b @ [CHR 0x00], x_fpos := x_fpos b + 1\<rparr>"
      have nil: "xoutput_loop (xxd_write P) [] u = u" for u by (cases u) (simp add: xoutput_loop.simps)
      have "bout P [CHR 0x00] st =
          (if length (x_buf b1) = 2 ^ 12 then xflush (xxd_write P) (b1, x) else (b1, x))"
        unfolding o1 using False i(3)
        by (subst xoutput_loop.simps) (auto simp: b1_def b0_def Let_def nil)
      then show ?thesis
        using i False assms(1)[OF i(1), of "x_buf b1"]
        by (auto simp: I_def b1_def b0_def xflush_def case_prod_beta)
    qed
  qed
  show ?thesis
  proof (rule ccontr)
    assume "zero_fill P pos (b, x) \<noteq> None"
    then obtain st where w: "while_option (\<lambda>(b, c). x_fpos b < pos) (bout P [CHR 0x00]) (b, x) = Some st"
      by (auto simp: zero_fill_def)
    have "I (b, x)" using assms(2-4) by (simp add: I_def K_def)
    then have "I st" using while_option_rule[where P = I, OF _ w] step by blast
    then show False using while_option_stop[OF w] assms(5) by (auto simp: I_def K_def)
  qed
qed

text \<open>The DLL: nothing can be written in a block of 4096 bytes when the capacity is smaller.\<close>

definition dll_tight :: "dll_plt xctx \<Rightarrow> bool" where
  "dll_tight x \<longleftrightarrow> dll_appending (c_plt x) \<and> d_output (c_plt x) = [] \<and> dll_space (c_plt x) < 2 ^ 12"

lemma dll_tight_write: "dll_tight x \<Longrightarrow> length s = 2 ^ 12 \<Longrightarrow> \<not> fst (xxd_write dll_platform 1 s x)"
  by (auto simp: dll_tight_def xxd_write_def dll_platform_def dll_write_def dll_appending_def dll_space_def Let_def)

lemma dll_tight_seek:
  assumes "dll_tight x" "0 < off" "x_fd (c_be x) = 2"
  shows "\<exists>x'. xxd_seek dll_platform 1 off PLT_SEEK_SET x = (-1, x') \<and> dll_tight x'"
proof -
  have s: "dll_seek 1 off PLT_SEEK_SET (c_plt x) = (-1, c_plt x)"
    using assms(1,2) by (simp add: dll_seek_def dll_tight_def dll_appending_def)
  define x' where "x' = snd (xxd_seek dll_platform 1 off PLT_SEEK_SET x)"
  have e: "xxd_seek dll_platform 1 off PLT_SEEK_SET x = (-1, x')"
    using s by (simp add: x'_def xxd_seek_def dll_platform_def)
  have "x' = x \<or> (\<exists>ps. x' = xlog dll_platform ps x)"
    using s by (auto simp: x'_def xxd_seek_def dll_platform_def)
  then have "dll.outs (c_plt x') = dll.outs (c_plt x)" using dll.xlog_outs[OF assms(3)] by auto
  then show ?thesis using e assms(1) by (simp add: dll_tight_def dll.outs_def)
qed

lemma first_line_append: "nl \<notin> set s \<Longrightarrow> first_line (s @ t) = s @ first_line t"
  unfolding first_line_def by (subst takeWhile_append2) auto

lemma dll_rhexdump_stuck:
  assumes "stream dll_rest (i, x) = printhexoff off @ CHR '':'' # w" "in_ok (i, x)" "dll_tight x" "2 ^ 12 < uint off"
    "uint off < 2 ^ 63" "xc_rseek c = 0"
  shows "run_rhexdump dll_platform beyond c (i, new_xout 1, x) = None"
proof -
  obtain line i1 x1 where nl: "nextline dll_platform [] (i, x) = (line, (i1, x1))" by (cases "nextline dll_platform [] (i, x)") auto
  note sp = dll.nextline_spec[OF assms(2), of "[]", unfolded nl fst_conv snd_conv append_Nil]
  have "nl \<notin> set (printhexoff off @ [CHR '':''])" using printhexoff_value(2)[of off] nibble_plain by (auto simp: list_all_iff)
  then have line: "line = printhexoff off @ CHR '':'' # first_line w"
    using sp first_line_append[of "printhexoff off @ [CHR '':'']" w] by (simp add: assms(1))
  have t: "dll_tight x1" "x_fd (c_be x1) = 2" using sp assms(3) by (simp_all add: dll_tight_def dll.outs_def in_ok_def)
  have off: "0 < uint off" by (rule order_less_trans[OF _ assms(4)]) simp
  obtain x2 where s: "xxd_seek dll_platform 1 (uint off) PLT_SEEK_SET x1 = (-1, x2)" "dll_tight x2"
    using dll_tight_seek[OF t(1) off t(2)] by blast
  have "zero_fill dll_platform (uint off) ((new_xout 1)\<lparr>x_noseek := True\<rparr>, x2) = None"
    using zero_fill_stuck[of dll_tight dll_platform, OF dll_tight_write s(2)] assms(4) by (simp add: new_xout_def)
  then have "seekout dll_platform (uint off) (new_xout 1, x1) = None"
    using off s(1) by (simp add: seekout_def bflush_def xflush_def new_xout_def)
  then have "reverse_line dll_platform beyond 0 line i1 (new_xout 1, x1) = None"
    using assms(5) by (simp add: reverse_line_def line dll.row_address)
  then show ?thesis
    using nl assms(2,6) by (subst run_rhexdump.simps) (auto simp: line in_ok_def new_xout_def)
qed

lemma dll_reverse_stuck:
  assumes "dlen < 2 ^ 12" "2 ^ 12 < uint off" "uint off < 2 ^ 63" "length w < 2 ^ 62"
  shows "xxd_reverse beyond dlen (printhexoff off @ CHR '':'' # w) = None"
proof -
  define o' where "o' = set_conf (\<lambda>c. c\<lparr>xc_reverse := True\<rparr>) new_xopts"
  define c where "c = conf_defaults (xo_conf o')"
  have std: "std_opts o'" by (simp add: std_opts_def new_xopts_def o'_def set_conf_def)
  have lim: "xo_limit o' = 2 ^ 63 - 1" by (simp add: o'_def set_conf_def new_xopts_def)
  have c: "xc_rseek c = 0" "xc_inpath c = None" "xc_outpath c = None" "xc_reverse c" "conf_check (xo_mode o') c = None"
    "xo_mode o' = MODE_HEXDUMP"
    by (simp_all add: c_def o'_def set_conf_def new_xopts_def conf_defaults_def zero_conf_def conf_check_def)
  let ?src = "printhexoff off @ CHR '':'' # w"
  let ?w = "dll_start dlen ?src"
  have "length (printhexoff off) \<le> 16"
    by (simp add: printhexoff_def length_concat hexpair_def comp_def sum_list_triv)
  then have src: "take (nat (xo_limit o')) ?src = ?src" using assms(4) by (simp add: lim)
  note f = dll.fresh_ok[OF std, where w = ?w and t = "xo_trace o'"]
  have "run_mode dll_platform beyond (xo_mode o') c (fresh_state o' ?w) = None"
    using dll_rhexdump_stuck[OF _ f(1) _ assms(2,3) c(1), of w beyond] f(2) src assms(1) c(4,6)
    by (simp add: run_mode_def fresh_state_def dll_start_simps dll_tight_def fresh_ctx_def)
  then have "xxd_main dll_platform beyond PLT_ALLOCA [[], ''-r''] ?w = None"
    using dll.xxd_files_std[OF std c(2,3), of beyond ?w] c arg_r[folded o'_def]
    by (simp add: xxd_main_def fresh_ctx_def Let_def positional_def c_def)
  then show ?thesis by (simp add: xxd_reverse_def xxd_def)
qed

end
