(* ===== verification/Known_Divergences.thy ===== *)
theory Known_Divergences
  imports Diff_Roundtrip Stack_Move Patch_Refresh Uuidgen Pkg_Process Pkg_Args Rexxd_Whole
begin

text \<open>
  Places where \<open>src/src/quilt.cpp\<close> does not do what it means to do, each as a lemma on
  the model that shows the behaviour: a stray marker of \<open>format_unified\<close>, insertions
  without context, what push and pop forget, the refresh of a patch that is not applied; the key schedule of \<open>src/src/uuidgen.c\<close>; and
  versions, quotes and backslashes in \<open>src/src/pkg-config.c\<close>; and the ends of lines and a
  message in \<open>src/src/rexxd.c\<close>.
\<close>

section \<open>A marker inside a file\<close>

text \<open>A kept last line of an old file without final newline, when the new file goes on: the
  marker is printed below the inserted copy too, although that line is not the last one. GNU
  patch then joins it with the next line.\<close>

lemma stray_marker:
  "unified_op [''x''] [''x'', ''y''] False False (eq_op 0 0) =
     ''-x'' @ [nl] @ no_newline_mark @ ''+x'' @ [nl] @ no_newline_mark"
  by (simp add: unified_op_def)

text \<open>In general: whenever only the old file ends with this line.\<close>

lemma stray_marker_plus:
  assumes "ty p = OpE" "old_idx p = int (length a) - 1" "new_idx p < int (length b) - 1"
  shows "plus_mark a b False False p"
  using assms by (simp add: plus_mark_def differing_end_def)

section \<open>Insertion without context\<close>

text \<open>The hunk \<open>-1,0 +2\<close> inserts behind line 1; it is put before it.\<close>

lemma insertion_before:
  fixes h defines "h \<equiv> \<lparr>p_old_start = 1, p_old_count = 0, p_new_start = 2, p_new_count = 1,
    p_lines = [''+x''], p_old_no_newline = False, p_new_no_newline = False\<rparr>"
  shows "locate_hunk [''1'', ''2''] h (get_old_pattern (p_lines h)) 0 0 2 = 0"
    "build_output [''1'', ''2''] True [h] [0] [no_fuzz] = unlines [''x'', ''1'', ''2'']"
  by (simp_all add: h_def locate_hunk_def fuzz_loop.simps[of _ _ 0] search_at_fuzz_def pos_ok_def
      max_search_of_def try_match_def build_output_def apply_hunk_def copy_rest_def Patch_Apply.slice_def
      write_lines_def join_lines_def)

section \<open>What push backs up\<close>

text \<open>A deletion names no file to back up, so pop cannot bring the file back.\<close>

lemma deletion_not_backed_up:
  "parse_patch_files (unlines [''--- a/f'', ''+++ /dev/null'', ''@@ -1 +0,0 @@'', ''-x'']) 1 = []"
proof -
  have "split_lines (unlines [''--- a/f'', ''+++ /dev/null'', ''@@ -1 +0,0 @@'', ''-x'']) =
      [''--- a/f'', ''+++ /dev/null'', ''@@ -1 +0,0 @@'', ''-x'']"
    by (rule split_printed) (simp add: no_cr_end_def)
  then show ?thesis by (simp add: parse_patch_files_def patch_file_of_line_def starts_with_def)
qed

text \<open>An inserted line that starts with two plus signs and a space reads as a file header.\<close>

lemma inserted_line_read_as_header:
  "patch_file_of_line 0 ''+++ x'' = [''x'']" "op_lines [] [''++ x''] True True (ins_op 0) = [''+++ x'']"
  by (simp_all add: patch_file_of_line_def starts_with_def str_find_def find_from_def trim_def is_space_def
      rdrop_while_def op_lines_def mark_lines_def plus_mark_def Let_def)

section \<open>What pop restores\<close>

text \<open>Files whose name starts with a dot are backed up by push and skipped by pop.\<close>

lemma dot_file_skipped: "is_metadata ''.gitignore''" "is_metadata ''sub/.config''"
  by (simp_all add: is_metadata_def str_rfind_def)

lemma dot_file_not_restored:
  "find_files_recursive P (pc_patch_dir q patch) w = [''.gitignore''] \<Longrightarrow> files_in_patch P q patch w = []"
  by (simp add: files_in_patch_def is_metadata_def str_rfind_def Let_def)

text \<open>The removal check reverses the patch also when the patch was applied reversed.\<close>

lemma removal_check_ignores_reversal:
  "p \<in> q_reversed q \<Longrightarrow> o_reverse (verify_options q p)"
  by (simp add: verify_options_def)

section \<open>The key schedule of uuidgen\<close>

text \<open>In Speck128/128 the first round key is the low key word. \<open>speck_init\<close> fills the
  entries from 1 on and leaves the first one zero, so the first round is not keyed.\<close>

lemma speck_keys_first: "ctx_k (speck_keys is b ctx) ! 0 = ctx_k ctx ! 0"
  by (induction "is" arbitrary: b ctx) (simp_all add: Let_def)

lemma first_round_unkeyed: "ctx_k (speck_init seed) ! 0 = 0"
  by (simp add: speck_init_def speck_keys_first)

section \<open>Version constraints of pkg-config\<close>

text \<open>Once a package is in the table its specification is not checked again: a later
  \<open>c >= 99\<close> passes for any version of \<open>c\<close>.\<close>

lemma later_constraint_unchecked:
  assumes "trie_lookup (ps_pkgs t) (pathtorealname (sp_name spec)) = Some p" "pk_contents p \<noteq> None"
  shows "process_spec pv (spec\<lparr>sp_op := op, sp_version := v\<rparr>) s st t = process_spec pv spec s st t"
  using assms by (simp add: process_spec_def locate_def Let_def)

text \<open>RPM compares the values of numbers; here a longer number is greater, so leading zeros
  count.\<close>

lemma leading_zero_counts: "compareversions ''1.01'' ''1.1'' = 1" "compareversions ''1.01'' ''1.2'' = 1"
  by (simp_all add: compareversions_key version_key_byte version_key_digit digit_def char_in_def)

section \<open>Backslashes in fields of pkg-config\<close>

text \<open>A backslash is a meta character, so the escape state of a double-quoted string is never
  entered, and an escaped quote ends the string.\<close>

lemma escaped_quote_ends_string:
  "dequote [dquot, CHR ''a'', bslash, dquot, CHR ''b'', dquot] = None"
  by (simp add: dequote_def dequote_step_def shellmeta_iff shell_metas_def pathdecode_def whitespace_def Let_def)

text \<open>The message about an unreadable package holds the terminator of the path.\<close>

lemma message_holds_terminator:
  "mapfile path = Map_READERR \<Longrightarrow> name \<noteq> ''pkg-config'' \<Longrightarrow>
   \<exists>e. readpackage mapfile path name = Inl e \<and> CHR 0x00 \<in> set (error_message e)"
  by (simp add: readpackage_def error_message_def quoted_def)

section \<open>Lines of a reversed dump\<close>

text \<open>A line without a text column may be read one byte beyond its end: the data of
  \<open>41 42\<close> and a newline take the next byte of the buffer with them. When this is a digit, an
  odd number of digits is collected and the first one is lost.\<close>

lemma byte_beyond_line: "line_data (\<lambda>_ _. c) ('' 41 42'' @ [nl]) i = '' 41 42'' @ [nl, c]"
proof -
  have "hexdumptrim ('' 41 42'' @ [nl]) = 8" by code_simp
  then show ?thesis unfolding line_data_def by simp
qed

lemma digit_beyond_line: "acc_text ('' 41 42'' @ [nl]) = ''AB''" "acc_text ('' 41 42'' @ [nl, CHR ''2'']) = [CHR 0x14, CHR 0x22]"
  by (simp_all add: acc_text_def acc_next_def acc_rest_def new_accum_def accum_bytes_def nibbleval_def Let_def char_of_def
      bit_0)

text \<open>The message about the argument of \<open>-o\<close> shows the option instead.\<close>

lemma offset_message_shows_option:
  "xopt_step avail [[], ''-o'', ''zz''] 1 new_xopts = bad_optarg (CHR ''o'') ''-o''"
  by (simp add: xopt_step_def Let_def cbyte_def with_optarg_def getarg_def parse64_exact numeral_value_def
      digits_below_def minus0_def)

section \<open>Refreshing a patch that is not applied\<close>

text \<open>\<open>refresh\<close> does not ask whether the named patch is applied: it has no backups, so no
  file is tracked, and the patch file is overwritten by its own header. The diffs are lost.\<close>

lemma applied_after_none: "p \<notin> set aps \<Longrightarrow> applied_after p aps = []"
  by (induction aps) auto

lemma unapplied_refreshed:
  assumes "patch \<notin> set (q_applied q)" "files_in_patch P q patch w = []" "\<not> rf_backup u" "\<not> rf_diffstat u"
    "file_exists P (patch_path q patch) w" "read_patch_header P (patch_path q patch) w \<noteq> read_file P (patch_path q patch) w"
  shows "refresh_patch P u h patch did_fork (q, w) =
    refresh_write P patch did_fork (read_patch_header P (patch_path q patch) w) (q, w)"
  using assms applied_after_none[OF assms(1)] by (simp add: refresh_patch_def shadowed_def Let_def)

end
