(* ===== verification/Patch_Effects.thy ===== *)
theory Patch_Effects
  imports Builtin_Patch
begin

text \<open>
  What a patch can touch: a dry run touches nothing, any run at most the targets named by the
  patch text and their reject files, and a run that exits with 0 the targets only.
\<close>

lemma patch_body_dry:
  "o_dry_run opts \<Longrightarrow> patch_body P opts pf ex fc (res, hr, s) = Some (res', hr', s') \<Longrightarrow> s' = s"
  by (auto simp: patch_body_def Let_def)

lemma patch_one_dry:
  "o_dry_run opts \<Longrightarrow> patch_one_file P opts pf (res, hr, s) = Some (res', hr', s') \<Longrightarrow> s' = s"
  by (auto simp: patch_one_file_def missing_file_def Let_def dest: patch_body_dry split: if_splits)

lemma patch_files_dry:
  "o_dry_run opts \<Longrightarrow> patch_files P opts pfs (res, hr, s) = Some (res', hr', s') \<Longrightarrow> s' = s"
proof (induction pfs arbitrary: res hr s)
  case (Cons pf pfs)
  then obtain res1 hr1 s1 where st: "patch_one_file P opts pf (res, hr, s) = Some (res1, hr1, s1)"
    "patch_files P opts pfs (res1, hr1, s1) = Some (res', hr', s')"
    by (auto split: option.splits)
  show ?case using Cons.IH[OF Cons.prems(1) st(2)] patch_one_dry[OF Cons.prems(1) st(1)] by simp
qed simp

lemma builtin_patch_dry:
  assumes "o_dry_run opts" "builtin_patch P text opts s = Some (r, s')"
  shows "s' = s"
proof (cases "parse_patch text (o_strip_level opts) (o_reverse opts) = []")
  case True
  with assms(2) show ?thesis by (simp add: builtin_patch_def)
next
  case False
  with assms(2) obtain res hr where
    "patch_files P opts (parse_patch text (o_strip_level opts) (o_reverse opts))
       (\<lparr>r_exit_code = 0, r_out = [], r_err = []\<rparr>, False, s) = Some (res, hr, s')"
    by (auto simp: builtin_patch_def Let_def)
  from patch_files_dry[OF assms(1) this] show ?thesis .
qed

section \<open>The files a run may change\<close>

definition only_changes :: "string set \<Rightarrow> (string \<rightharpoonup> string) \<Rightarrow> 'w \<Rightarrow> 'w io \<Rightarrow> bool" where
  "only_changes A m w s \<longleftrightarrow> (\<exists>m'. s = mem_io m' w \<and> (\<forall>p. p \<notin> A \<longrightarrow> m' p = m p))"

definition targets :: "patch_file list \<Rightarrow> string set" where
  "targets pfs = pf_target_path ` set pfs"

definition reject_paths :: "patch_file list \<Rightarrow> string set" where
  "reject_paths pfs = (\<lambda>pf. pf_target_path pf @ ''.rej'') ` set pfs"

text \<open>What a run over some files may change, given whether it rejected anything.\<close>

definition may_change :: "patch_file list \<Rightarrow> bool \<Rightarrow> string set" where
  "may_change pfs rejects = targets pfs \<union> (if rejects then reject_paths pfs else {})"

lemma only_changes_refl [simp]: "only_changes A m w (mem_io m w)"
  by (auto simp: only_changes_def)

lemma only_changes_mono: "only_changes A m w s \<Longrightarrow> A \<subseteq> B \<Longrightarrow> only_changes B m w s"
  by (auto simp: only_changes_def)

lemma only_changes_trans:
  "only_changes A m w (mem_io m' w) \<Longrightarrow> only_changes A m' w s \<Longrightarrow> only_changes A m w s"
proof -
  assume a: "only_changes A m w (mem_io m' w)" "only_changes A m' w s"
  from a(1) have "\<forall>p. p \<notin> A \<longrightarrow> m' p = m p" by (auto simp: only_changes_def mem_io_def)
  with a(2) show ?thesis by (auto simp: only_changes_def)
qed

lemma write_rejects_changes: "only_changes (may_change [pf] True) m w (write_rejects P pf rs (mem_io m w))"
  by (auto simp: write_rejects_def Let_def only_changes_def may_change_def reject_paths_def)

lemma write_patched_changes:
  "write_patched P opts pf ex fc st (mem_io m w) = Some s \<Longrightarrow> only_changes {pf_target_path pf} m w s"
  by (auto simp: write_patched_def make_parent_dirs_def Let_def only_changes_def split: if_splits option.splits)

lemma patch_body_changes:
  assumes "patch_body P opts pf ex fc (res, hr, mem_io m w) = Some (res', hr', s')"
  shows "only_changes (may_change [pf] hr') m w s' \<and> (hr \<longrightarrow> hr')"
proof -
  let ?st = "match_hunks opts (fc_lines fc) 0 (pf_hunks pf) start_match"
  have hr: "hr' \<longleftrightarrow> hr \<or> m_has_rejects ?st"
    using assms by (auto simp: patch_body_def Let_def split: if_splits option.splits)
  show ?thesis
  proof (cases "o_dry_run opts")
    case True
    with assms hr show ?thesis by (auto simp: patch_body_def Let_def)
  next
    case False
    with assms obtain s1 where s1: "write_patched P opts pf ex fc ?st (mem_io m w) = Some s1"
      by (auto simp: patch_body_def Let_def split: option.splits)
    from write_patched_changes[OF s1] obtain m1 where m1: "s1 = mem_io m1 w" "\<forall>p. p \<noteq> pf_target_path pf \<longrightarrow> m1 p = m p"
      by (auto simp: only_changes_def)
    then have a: "only_changes (may_change [pf] hr') m w (mem_io m1 w)"
      by (auto simp: only_changes_def may_change_def targets_def)
    have "s' = s1 \<or> m_has_rejects ?st \<and> s' = write_rejects P pf (m_rejected ?st) s1"
      using assms False s1 by (auto simp: patch_body_def Let_def split: if_splits)
    then show ?thesis
    proof
      assume "s' = s1"
      then show ?thesis using a m1(1) hr by simp
    next
      assume r: "m_has_rejects ?st \<and> s' = write_rejects P pf (m_rejected ?st) s1"
      then have "only_changes (may_change [pf] hr') m1 w s'"
        using write_rejects_changes[of pf m1 w P] m1(1) hr by simp
      from only_changes_trans[OF a this] show ?thesis using hr by simp
    qed
  qed
qed

lemma patch_one_changes:
  assumes "patch_one_file P opts pf (res, hr, mem_io m w) = Some (res', hr', s')"
  shows "only_changes (may_change [pf] hr') m w s' \<and> (hr \<longrightarrow> hr')"
proof -
  consider "s' = mem_io m w" "hr' = hr \<or> o_dry_run opts \<and> hr' = hr"
    | res1 where "patch_body P opts pf (fs_exists P (pf_target_path pf) (mem_io m w))
        (load_file_lines (if fs_exists P (pf_target_path pf) (mem_io m w)
           then fs_read P (pf_target_path pf) (mem_io m w) else [])) (res1, hr, mem_io m w) = Some (res', hr', s')"
    | rs where "hr'" "s' = write_rejects P pf rs (mem_io m w)"
    using assms by (auto simp: patch_one_file_def missing_file_def Let_def split: if_splits)
  then show ?thesis
  proof cases
    case 2
    then show ?thesis by (rule patch_body_changes)
  next
    case 3
    then show ?thesis using write_rejects_changes[of pf m w P] by simp
  qed auto
qed

lemma patch_files_changes:
  "patch_files P opts pfs (res, hr, mem_io m w) = Some (res', hr', s') \<Longrightarrow>
   only_changes (may_change pfs hr') m w s' \<and> (hr \<longrightarrow> hr')"
proof (induction pfs arbitrary: res hr m)
  case (Cons pf pfs)
  then obtain res1 hr1 s1 where st: "patch_one_file P opts pf (res, hr, mem_io m w) = Some (res1, hr1, s1)"
    "patch_files P opts pfs (res1, hr1, s1) = Some (res', hr', s')"
    by (auto split: option.splits)
  from patch_one_changes[OF st(1)] obtain m1 where m1: "s1 = mem_io m1 w"
    "only_changes (may_change [pf] hr1) m w (mem_io m1 w)" "hr \<longrightarrow> hr1"
    by (auto simp: only_changes_def)
  from Cons.IH[OF st(2)[unfolded m1(1)]] have IH: "only_changes (may_change pfs hr') m1 w s'" "hr1 \<longrightarrow> hr'" by auto
  have "may_change [pf] hr1 \<subseteq> may_change (pf # pfs) hr'" "may_change pfs hr' \<subseteq> may_change (pf # pfs) hr'"
    using IH(2) by (auto simp: may_change_def targets_def reject_paths_def)
  then show ?case
    using only_changes_trans[OF only_changes_mono[OF m1(2)] only_changes_mono[OF IH(1)]] IH(2) m1(3) by blast
qed (auto simp: only_changes_def)

lemma builtin_patch_changes:
  assumes "builtin_patch P text opts (mem_io m w) = Some (r, s')"
  shows "only_changes (may_change (parse_patch text (o_strip_level opts) (o_reverse opts)) (r_exit_code r \<noteq> 0)) m w s'"
proof (cases "parse_patch text (o_strip_level opts) (o_reverse opts) = []")
  case True
  with assms show ?thesis by (auto simp: builtin_patch_def Let_def)
next
  case False
  with assms obtain res hr where
    p: "patch_files P opts (parse_patch text (o_strip_level opts) (o_reverse opts))
       (\<lparr>r_exit_code = 0, r_out = [], r_err = []\<rparr>, False, mem_io m w) = Some (res, hr, s')"
    and r: "r = (if hr then res\<lparr>r_exit_code := 1\<rparr> else res)"
    by (auto simp: builtin_patch_def Let_def)
  from patch_files_changes[OF p] have "only_changes (may_change (parse_patch text (o_strip_level opts) (o_reverse opts)) hr) m w s'"
    by simp
  then show ?thesis
    by (rule only_changes_mono) (use r in \<open>auto simp: may_change_def\<close>)
qed

end
