(* ===== verification/Pkg_Output.thy ===== *)
theory Pkg_Output
  imports Pkg_Parse Byte_Output
begin

text \<open>
  The output buffers of \<open>src/src/pkg-config.c\<close> (\<open>u8buf\<close>, \<open>prints8\<close>, \<open>flush\<close>)
  over a file descriptor, as a state; \<open>b_sent\<close> is what \<open>os_write\<close> was given so far. A null
  output drops everything. The buffer is an instance of the contract \<open>writer\<close> of
  \<open>Byte_Output\<close>; write errors are the platform's matter here.
\<close>

section \<open>Model\<close>

record u8buf =
  b_buf :: string
  b_cap :: nat
  b_fd :: int
  b_sent :: string

definition newfdbuf :: "int \<Rightarrow> nat \<Rightarrow> u8buf" where
  "newfdbuf fd cap = \<lparr>b_buf = [], b_cap = cap, b_fd = fd, b_sent = []\<rparr>"

definition newnullout :: u8buf where
  "newnullout = \<lparr>b_buf = [], b_cap = 0, b_fd = -1, b_sent = []\<rparr>"

definition flush_u8 :: "u8buf \<Rightarrow> u8buf" where
  "flush_u8 b = (if b_fd b = -1 then b\<lparr>b_buf := []\<rparr>
     else b\<lparr>b_sent := b_sent b @ b_buf b, b_buf := []\<rparr>)"

text \<open>The copy loop; the buffer is never full at its head, so the last disjunct of the test is
  not taken (\<open>u8_room\<close>).\<close>

function prints8 :: "string \<Rightarrow> u8buf \<Rightarrow> u8buf" where
  "prints8 s b =
     (if b_fd b = -1 \<or> s = [] \<or> b_cap b \<le> length (b_buf b) then b
      else
        let avail = b_cap b - length (b_buf b);
            count = (if avail < length s then avail else length s);
            b = b\<lparr>b_buf := b_buf b @ take count s\<rparr>
        in prints8 (drop count s) (if length (b_buf b) = b_cap b then flush_u8 b else b))"
  by pat_completeness auto
termination
  by (relation "measure (\<lambda>(s, b). length s)") (auto simp: Let_def)

declare prints8.simps [simp del]

section \<open>Lemmas\<close>

definition u8_room :: "u8buf \<Rightarrow> bool" where
  "u8_room b \<longleftrightarrow> b_fd b \<noteq> -1 \<longrightarrow> length (b_buf b) < b_cap b"

definition u8_text :: "u8buf \<Rightarrow> string" where
  "u8_text b = b_sent b @ b_buf b"

lemma prints8_spec:
  "u8_room b \<Longrightarrow> b_fd b \<noteq> -1 \<Longrightarrow>
   u8_room (prints8 s b) \<and> u8_text (prints8 s b) = u8_text b @ s \<and>
   b_fd (prints8 s b) = b_fd b \<and> b_cap (prints8 s b) = b_cap b"
proof (induction s b rule: prints8.induct)
  case (1 s b)
  show ?case
  proof (cases "s = []")
    case True
    then show ?thesis using 1(2) by (subst (1 2 3 4) prints8.simps) simp
  next
    case False
    define count where "count = (if b_cap b - length (b_buf b) < length s then b_cap b - length (b_buf b) else length s)"
    define b1 where "b1 = b\<lparr>b_buf := b_buf b @ take count s\<rparr>"
    define b2 where "b2 = (if length (b_buf b1) = b_cap b1 then flush_u8 b1 else b1)"
    have r: "length (b_buf b) < b_cap b" using 1(2,3) by (simp add: u8_room_def)
    have nc: "\<not> (b_fd b = -1 \<or> s = [] \<or> b_cap b \<le> length (b_buf b))" using False r 1(3) by simp
    have step: "prints8 s b = prints8 (drop count s) b2"
      using False r 1(3) by (subst prints8.simps) (simp add: count_def b1_def b2_def Let_def)
    have b2: "u8_room b2" "b_fd b2 = b_fd b" "b_cap b2 = b_cap b" "u8_text b2 = u8_text b @ take count s"
      using r 1(3) False by (auto simp: b2_def b1_def u8_room_def u8_text_def flush_u8_def count_def)
    have "u8_room (prints8 (drop count s) b2) \<and>
        u8_text (prints8 (drop count s) b2) = u8_text b2 @ drop count s \<and>
        b_fd (prints8 (drop count s) b2) = b_fd b2 \<and> b_cap (prints8 (drop count s) b2) = b_cap b2"
      using 1(1)[OF nc refl refl refl, folded count_def, folded b1_def, folded b2_def] 1(3) b2 by simp
    then show ?thesis using b2 unfolding step by simp
  qed
qed

lemma prints8_null: "b_fd b = -1 \<Longrightarrow> prints8 s b = b"
  by (subst prints8.simps) simp

text \<open>The buffer over a descriptor is a writer that never fails.\<close>

interpretation u8: writer prints8 "\<lambda>b. True" u8_text "\<lambda>b. u8_room b \<and> b_fd b \<noteq> -1"
  by unfold_locales (auto simp: prints8_spec)

lemma flush_u8_sent: "b_fd b \<noteq> -1 \<Longrightarrow> b_sent (flush_u8 b) = u8_text b"
  by (simp add: flush_u8_def u8_text_def)

lemma print_new_flush:
  "fd \<noteq> -1 \<Longrightarrow> 0 < cap \<Longrightarrow> b_sent (flush_u8 (prints8 s (newfdbuf fd cap))) = s"
  using prints8_spec[of "newfdbuf fd cap" s]
  by (simp add: flush_u8_sent u8_room_def newfdbuf_def u8_text_def)

text \<open>Without a flush only full buffers have been written.\<close>

lemma prints8_prefix:
  "u8_room b \<Longrightarrow> b_fd b \<noteq> -1 \<Longrightarrow> b_cap b dvd length (b_sent b) \<Longrightarrow> b_cap b dvd length (b_sent (prints8 s b))"
proof (induction s b rule: prints8.induct)
  case (1 s b)
  show ?case
  proof (cases "s = []")
    case True
    then show ?thesis using 1(4) by (subst prints8.simps) simp
  next
    case False
    define count where "count = (if b_cap b - length (b_buf b) < length s then b_cap b - length (b_buf b) else length s)"
    define b1 where "b1 = b\<lparr>b_buf := b_buf b @ take count s\<rparr>"
    define b2 where "b2 = (if length (b_buf b1) = b_cap b1 then flush_u8 b1 else b1)"
    have r: "length (b_buf b) < b_cap b" using 1(2,3) by (simp add: u8_room_def)
    have nc: "\<not> (b_fd b = -1 \<or> s = [] \<or> b_cap b \<le> length (b_buf b))" using False r 1(3) by simp
    have step: "prints8 s b = prints8 (drop count s) b2"
      using False r 1(3) by (subst prints8.simps) (simp add: count_def b1_def b2_def Let_def)
    have b2: "u8_room b2" "b_fd b2 = b_fd b" "b_cap b2 = b_cap b" "b_cap b dvd length (b_sent b2)"
      using r 1(3,4) False by (auto simp: b2_def b1_def u8_room_def flush_u8_def count_def)
    have "b_cap b2 dvd length (b_sent (prints8 (drop count s) b2))"
      using 1(1)[OF nc refl refl refl, folded count_def, folded b1_def, folded b2_def] 1(3) b2 by simp
    then show ?thesis using b2 unfolding step by simp
  qed
qed

end
