(* ===== verification/Pkg_Config.thy ===== *)
theory Pkg_Config
  imports Pkg_Process Pkg_Args Pkg_Output
begin

text \<open>
  The program \<open>uconfig\<close> of \<open>src/src/pkg-config.c\<close>: its option loop, the listing, and what
  it prints for the packages of the command line. The code prints to \<open>out\<close> until it fails
  or ends, and to \<open>err\<close> only the message of the failure; \<open>uconfig\<close> is therefore the text,
  the error and the place of the message, and \<open>pc_run\<close> puts them through the buffers.
  The system is the record \<open>pc_os\<close>.
\<close>

section \<open>Configuration and options\<close>

record pc_os =
  os_mapfile :: "string \<Rightarrow> filemap"
  os_listing :: "string \<Rightarrow> string list"

record pc_conf =
  cf_args :: "string list"
  cf_pc_path :: string
  cf_pc_sysincpath :: string
  cf_pc_syslibpath :: string
  cf_envpath :: string
  cf_fixedpath :: string
  cf_top_builddir :: "string option"
  cf_sys_incpath :: string
  cf_sys_libpath :: string
  cf_print_sysinc :: "string option"
  cf_print_syslib :: "string option"
  cf_define_prefix :: bool
  cf_haslisting :: bool
  cf_delim :: char

datatype listing = List_NONE | List_ALL | List_NAMES

record pc_state =
  uc_opts :: options
  uc_args :: "string list"
  uc_proc :: processor
  uc_filterc :: arg_filter
  uc_filterl :: arg_filter
  uc_msvc :: bool
  uc_libs :: bool
  uc_cflags :: bool
  uc_err_to_stdout :: bool
  uc_silent :: bool
  uc_static :: bool
  uc_argdelim :: char
  uc_modversion :: bool
  uc_override :: "versop \<times> string"
  uc_sysinc :: bool
  uc_syslib :: bool
  uc_variable :: "string option"
  uc_listing :: listing

definition newprocessor :: "pc_os \<Rightarrow> pc_conf \<Rightarrow> processor" where
  "newprocessor os c =
     \<lparr>pv_mapfile = os_mapfile os,
      pv_search = appendpath (appendpath [] (cf_delim c) (cf_envpath c)) (cf_delim c) (cf_fixedpath c),
      pv_global = Null, pv_maxdepth = 2 ^ 31 - 1, pv_define_prefix = True, pv_recursive = True,
      pv_ignore_versions = False\<rparr>"

definition init_global :: "pc_conf \<Rightarrow> string trie" where
  "init_global c =
     (let top_builddir = (case cf_top_builddir c of Some d \<Rightarrow> s8pathencode d | None \<Rightarrow> ''$(top_builddir)'');
          g = trie_insert ''pc_path'' (cf_pc_path c) Null;
          g = trie_insert ''pc_system_includedirs'' (cf_pc_sysincpath c) g;
          g = trie_insert ''pc_system_libdirs'' (cf_pc_syslibpath c) g;
          g = trie_insert ''pc_sysrootdir'' ''/'' g
      in trie_insert ''pc_top_builddir'' top_builddir g)"

definition init_state :: "pc_os \<Rightarrow> pc_conf \<Rightarrow> pc_state" where
  "init_state os c =
     \<lparr>uc_opts = newoptions (cf_args c), uc_args = [],
      uc_proc = (newprocessor os c)\<lparr>pv_define_prefix := cf_define_prefix c, pv_global := init_global c\<rparr>,
      uc_filterc = Filter_ANY, uc_filterl = Filter_ANY, uc_msvc = False, uc_libs = False, uc_cflags = False,
      uc_err_to_stdout = False, uc_silent = False, uc_static = False, uc_argdelim = spc,
      uc_modversion = False, uc_override = (Versop_ERR, []), uc_sysinc = (cf_print_sysinc c \<noteq> None),
      uc_syslib = (cf_print_syslib c \<noteq> None), uc_variable = None, uc_listing = List_NONE\<rparr>"

definition pc_usage :: string where
  "pc_usage =
     ''u-config 0.34.0 https://github.com/skeeto/u-config'' @ [nl] @
     ''free and unencumbered software released into the public domain'' @ [nl] @
     ''usage: pkg-config [OPTIONS...] [PACKAGES...]'' @ [nl] @
     ''  --cflags, --cflags-only-I, --cflags-only-other'' @ [nl] @
     ''  --define-prefix, --dont-define-prefix'' @ [nl] @
     ''  --define-variable=NAME=VALUE, --variable=NAME'' @ [nl] @
     ''  --exists, --validate, --{atleast,exact,max}-version=VERSION'' @ [nl] @
     ''  --errors-to-stdout'' @ [nl] @
     ''  --keep-system-cflags, --keep-system-libs'' @ [nl] @
     ''  --libs, --libs-only-L, --libs-only-l, --libs-only-other'' @ [nl] @
     ''  --list-all'' @ [nl] @
     ''  --list-package-names'' @ [nl] @
     ''  --maximum-traverse-depth=N'' @ [nl] @
     ''  --modversion'' @ [nl] @
     ''  --msvc-syntax'' @ [nl] @
     ''  --newlines'' @ [nl] @
     ''  --silence-errors'' @ [nl] @
     ''  --static'' @ [nl] @
     ''  --with-path=PATH'' @ [nl] @
     ''  -h, --help, --version'' @ [nl] @
     ''environment:'' @ [nl] @
     ''  PKG_CONFIG_PATH'' @ [nl] @
     ''  PKG_CONFIG_LIBDIR'' @ [nl] @
     ''  PKG_CONFIG_TOP_BUILD_DIR'' @ [nl] @
     ''  PKG_CONFIG_SYSTEM_INCLUDE_PATH'' @ [nl] @
     ''  PKG_CONFIG_SYSTEM_LIBRARY_PATH'' @ [nl] @
     ''  PKG_CONFIG_ALLOW_SYSTEM_CFLAGS'' @ [nl] @
     ''  PKG_CONFIG_ALLOW_SYSTEM_LIBS'' @ [nl]"

text \<open>\<open>getargopt\<close> when the option has no value of its own.\<close>

definition opt_value :: "string \<Rightarrow> string option \<Rightarrow> pc_state \<Rightarrow> pkg_error + string \<times> pc_state" where
  "opt_value opt value st = (case value of
      Some v \<Rightarrow> Inr (v, st)
    | None \<Rightarrow>
        let p = uc_opts st in
        if length (op_args p) \<le> op_index p then Inl (Missing_argument opt)
        else Inr (op_args p ! op_index p, st\<lparr>uc_opts := p\<lparr>op_index := op_index p + 1\<rparr>\<rparr>))"

text \<open>An option continues the loop, prints a text and ends the program, or fails.\<close>

datatype opt_step = Opt_next pc_state | Opt_text string | Opt_fail pkg_error

definition with_value :: "string \<Rightarrow> string option \<Rightarrow> pc_state \<Rightarrow> (string \<Rightarrow> pc_state \<Rightarrow> opt_step) \<Rightarrow> opt_step" where
  "with_value opt value st k = (case opt_value opt value st of Inl e \<Rightarrow> Opt_fail e | Inr (v, st) \<Rightarrow> k v st)"

definition set_proc :: "(processor \<Rightarrow> processor) \<Rightarrow> pc_state \<Rightarrow> pc_state" where
  "set_proc f st = st\<lparr>uc_proc := f (uc_proc st)\<rparr>"

definition check_version :: "versop \<Rightarrow> string \<Rightarrow> pc_state \<Rightarrow> pc_state" where
  "check_version op v st =
     set_proc (\<lambda>p. p\<lparr>pv_recursive := False, pv_ignore_versions := True\<rparr>)
       (st\<lparr>uc_override := (op, v), uc_silent := True\<rparr>)"

definition option_step :: "pc_conf \<Rightarrow> string \<Rightarrow> string option \<Rightarrow> pc_state \<Rightarrow> opt_step" where
  "option_step c opt value st =
     (if opt = ''h'' \<or> opt = ''-help'' then Opt_text pc_usage
      else if opt = ''-version'' then Opt_text (''0.34.0'' @ [nl])
      else if opt = ''-modversion'' then
        Opt_next (set_proc (\<lambda>p. p\<lparr>pv_recursive := False\<rparr>) (st\<lparr>uc_modversion := True\<rparr>))
      else if opt = ''-define-prefix'' then Opt_next (set_proc (\<lambda>p. p\<lparr>pv_define_prefix := True\<rparr>) st)
      else if opt = ''-dont-define-prefix'' then Opt_next (set_proc (\<lambda>p. p\<lparr>pv_define_prefix := False\<rparr>) st)
      else if opt = ''-cflags'' then Opt_next (st\<lparr>uc_cflags := True, uc_filterc := Filter_ANY\<rparr>)
      else if opt = ''-libs'' then Opt_next (st\<lparr>uc_libs := True, uc_filterl := Filter_ANY\<rparr>)
      else if opt = ''-variable'' then
        with_value opt value st (\<lambda>v st. Opt_next (st\<lparr>uc_variable := Some v\<rparr>))
      else if opt = ''-static'' then Opt_next (st\<lparr>uc_static := True\<rparr>)
      else if opt = ''-libs-only-L'' then Opt_next (st\<lparr>uc_libs := True, uc_filterl := Filter_L\<rparr>)
      else if opt = ''-libs-only-l'' then Opt_next (st\<lparr>uc_libs := True, uc_filterl := Filter_l\<rparr>)
      else if opt = ''-libs-only-other'' then Opt_next (st\<lparr>uc_libs := True, uc_filterl := Filter_OTHERL\<rparr>)
      else if opt = ''-cflags-only-I'' then Opt_next (st\<lparr>uc_cflags := True, uc_filterc := Filter_I\<rparr>)
      else if opt = ''-cflags-only-other'' then Opt_next (st\<lparr>uc_cflags := True, uc_filterc := Filter_OTHERC\<rparr>)
      else if opt = ''-with-path'' then
        with_value opt value st (\<lambda>v st.
          Opt_next (set_proc (\<lambda>p. p\<lparr>pv_search := prependpath (pv_search p) (cf_delim c) v\<rparr>) st))
      else if opt = ''-maximum-traverse-depth'' then
        with_value opt value st (\<lambda>v st. Opt_next (set_proc (\<lambda>p. p\<lparr>pv_maxdepth := parseuint v 1000\<rparr>) st))
      else if opt = ''-msvc-syntax'' then Opt_next (st\<lparr>uc_msvc := True\<rparr>)
      else if opt = ''-define-variable'' then
        with_value opt value st (\<lambda>v st.
          let (head, tail, ok) = s8cut v (CHR ''='') in
          if \<not> ok then Opt_fail (Value_missing v)
          else Opt_next (set_proc (\<lambda>p. p\<lparr>pv_global := trie_insert head tail (pv_global p)\<rparr>) st))
      else if opt = ''-newlines'' then Opt_next (st\<lparr>uc_argdelim := nl\<rparr>)
      else if opt = ''-exists'' then Opt_next (st\<lparr>uc_silent := True\<rparr>)
      else if opt = ''-atleast-pkgconfig-version'' then with_value opt value st (\<lambda>v st. Opt_text [])
      else if opt = ''-atleast-version'' then
        with_value opt value st (\<lambda>v st. Opt_next (check_version Versop_GTE v st))
      else if opt = ''-exact-version'' then
        with_value opt value st (\<lambda>v st. Opt_next (check_version Versop_EQ v st))
      else if opt = ''-max-version'' then
        with_value opt value st (\<lambda>v st. Opt_next (check_version Versop_LTE v st))
      else if opt = ''-silence-errors'' then Opt_next (st\<lparr>uc_silent := True\<rparr>)
      else if opt = ''-errors-to-stdout'' then Opt_next (st\<lparr>uc_err_to_stdout := True\<rparr>)
      else if opt = ''-print-errors'' then Opt_next st
      else if opt = ''-short-errors'' then Opt_next st
      else if opt = ''-uninstalled'' then Opt_next st
      else if opt = ''-keep-system-cflags'' then Opt_next (st\<lparr>uc_sysinc := True\<rparr>)
      else if opt = ''-keep-system-libs'' then Opt_next (st\<lparr>uc_syslib := True\<rparr>)
      else if opt = ''-validate'' then
        Opt_next (set_proc (\<lambda>p. p\<lparr>pv_recursive := False\<rparr>) (st\<lparr>uc_silent := True\<rparr>))
      else if opt = ''-list-all'' then
        if cf_haslisting c then Opt_next (st\<lparr>uc_listing := List_ALL\<rparr>) else Opt_fail (Unimplemented ''--list-all'')
      else if opt = ''-list-package-names'' then
        if cf_haslisting c then Opt_next (st\<lparr>uc_listing := List_NAMES\<rparr>)
        else Opt_fail (Unimplemented ''--list-package-names'')
      else Opt_fail (Unknown_option opt))"

text \<open>Each option moves the scanner forward.\<close>

lemma nextoption_forward:
  "nextoption p = (r, p') \<Longrightarrow> op_args p' = op_args p \<and>
   (r = End_args \<or> op_index p < op_index p' \<and> op_index p' \<le> length (op_args p))"
proof (induction p arbitrary: r p' rule: nextoption.induct)
  case (1 p)
  show ?case
  proof (cases "length (op_args p) \<le> op_index p")
    case True
    then show ?thesis using 1(2) by (subst (asm) nextoption.simps) simp
  next
    case False
    define arg where "arg = op_args p ! op_index p"
    define q where "q = p\<lparr>op_index := op_index p + 1\<rparr>"
    show ?thesis
    proof (cases "\<not> (op_dashdash q \<or> length arg < 2 \<or> hd arg \<noteq> CHR ''-'') \<and> arg = ''--''")
      case True
      have "nextoption (q\<lparr>op_dashdash := True\<rparr>) = (r, p')"
        using 1(2) False True by (subst (asm) nextoption.simps) (simp add: arg_def q_def)
      moreover have "nextoption (q\<lparr>op_dashdash := True\<rparr>) = (r, p') \<Longrightarrow> op_args p' = op_args q \<and>
          (r = End_args \<or> op_index q < op_index p' \<and> op_index p' \<le> length (op_args q))"
        using 1(1)[of arg q r p'] False True by (simp add: arg_def q_def)
      ultimately show ?thesis by (auto simp: q_def)
    next
      case dd: False
      then show ?thesis
        using 1(2) False
        by (subst (asm) nextoption.simps)
          (auto simp: Let_def arg_def q_def split: if_splits prod.splits)
    qed
  qed
qed

lemma with_value_forward:
  assumes "with_value opt value st k = Opt_next st'"
    "\<And>v u. k v u = Opt_next st' \<Longrightarrow> uc_opts st' = uc_opts u"
  shows "op_args (uc_opts st') = op_args (uc_opts st) \<and> op_index (uc_opts st) \<le> op_index (uc_opts st')"
  using assms by (auto simp: with_value_def opt_value_def Let_def split: sum.splits option.splits if_splits)

lemma option_step_forward:
  assumes "option_step c opt value st = Opt_next st'"
  shows "op_args (uc_opts st') = op_args (uc_opts st) \<and> op_index (uc_opts st) \<le> op_index (uc_opts st')"
  using assms unfolding option_step_def
  by (simp split: if_split_asm)
    (auto simp: set_proc_def check_version_def Let_def split: if_splits prod.splits dest!: with_value_forward)

function options_loop :: "pc_conf \<Rightarrow> pc_state \<Rightarrow> opt_step" where
  "options_loop c st =
     (case nextoption (uc_opts st) of
        (End_args, p) \<Rightarrow> Opt_next (st\<lparr>uc_opts := p\<rparr>)
      | (Plain_arg a, p) \<Rightarrow> options_loop c (st\<lparr>uc_opts := p, uc_args := uc_args st @ [a]\<rparr>)
      | (Option_arg opt value, p) \<Rightarrow>
          (case option_step c opt value (st\<lparr>uc_opts := p\<rparr>) of
             Opt_next st \<Rightarrow> options_loop c st
           | r \<Rightarrow> r))"
  by pat_completeness auto
termination
  by (relation "measure (\<lambda>(c, st). length (op_args (uc_opts st)) - op_index (uc_opts st))")
    (auto dest!: nextoption_forward[OF sym] option_step_forward)

declare options_loop.simps [simp del]

section \<open>What is printed\<close>

text \<open>A text and the error that ended it; nothing follows an error.\<close>

type_synonym printed = "string \<times> pkg_error option"

definition and_then :: "printed \<Rightarrow> printed \<Rightarrow> printed" where
  "and_then a b = (case a of (t, None) \<Rightarrow> apfst ((@) t) b | (t, Some e) \<Rightarrow> (t, Some e))"

definition pad_name :: "string \<Rightarrow> string" where
  "pad_name name = name @ replicate (30 - length name) spc @ [spc]"

text \<open>One file of \<open>list\<close>; files that cannot be read or parsed are passed over.\<close>

definition list_file :: "pc_os \<Rightarrow> string trie \<Rightarrow> bool \<Rightarrow> string \<Rightarrow> string \<Rightarrow> printed" where
  "list_file os g all dir file =
     (let name = (if 3 < length file then take (length file - 3) file else file) in
      case os_mapfile os (buildpath dir name) of
        Map_OK data \<Rightarrow>
          (case parsepackage data of
             Parsed p \<Rightarrow>
               if all then
                 and_then (and_then (pad_name name, None) (expand g p (text_of (pk_field p Field_Name))))
                   (and_then ('' - '', None)
                     (and_then (expand g p (text_of (pk_field p Field_Description))) ([nl], None)))
               else (name @ [nl], None)
           | _ \<Rightarrow> ([], None))
      | _ \<Rightarrow> ([], None))"

definition list_packages :: "pc_os \<Rightarrow> string trie \<Rightarrow> bool \<Rightarrow> string list \<Rightarrow> printed" where
  "list_packages os g all dirs =
     foldr (\<lambda>dir r. foldr (\<lambda>file. and_then (list_file os g all dir file)) (os_listing os dir) r) dirs ([], None)"

text \<open>The packages in load order.\<close>

definition load_order :: "pkgs \<Rightarrow> pkg list" where
  "load_order t = List.map_filter (trie_lookup (ps_pkgs t)) (ps_list t)"

definition pkg_version :: "pkg \<Rightarrow> string" where
  "pkg_version p = text_of (pk_field p Field_Version)"

definition check_override :: "versop \<times> string \<Rightarrow> pkg list \<Rightarrow> pkg_error option" where
  "check_override ov ps =
     (if fst ov = Versop_ERR then None
      else case find (\<lambda>p. validcompare (fst ov) (compareversions (pkg_version p) (snd ov)) \<noteq> Some True) ps of
          None \<Rightarrow> None
        | Some p \<Rightarrow> Some (Version_mismatch (pk_realname p) (fst ov) (snd ov) (pkg_version p)))"

definition print_versions :: "pkg list \<Rightarrow> string" where
  "print_versions ps = concat (map (\<lambda>p. if pk_direct p then pkg_version p @ [nl] else []) ps)"

fun print_variable :: "string trie \<Rightarrow> string \<Rightarrow> pkg list \<Rightarrow> printed" where
  "print_variable g var [] = ([], None)"
| "print_variable g var (p # ps) =
     (case (if pk_direct p then pc_lookup g (pk_env p) var else None) of
        None \<Rightarrow> print_variable g var ps
      | Some v \<Rightarrow> and_then (expand g p v) (and_then ([nl], None) (print_variable g var ps)))"

fun append_texts :: "pkg \<Rightarrow> arg_filter \<Rightarrow> string list \<Rightarrow> arg_list \<Rightarrow> pkg_error + arg_list" where
  "append_texts p f [] a = Inr a"
| "append_texts p f (t # ts) a =
     (case appendfield (pk_realname p) f t a of Inl e \<Rightarrow> Inl e | Inr a \<Rightarrow> append_texts p f ts a)"

fun append_pkgs :: "(pkg \<Rightarrow> pkg_field list) \<Rightarrow> arg_filter \<Rightarrow> pkg list \<Rightarrow> arg_list \<Rightarrow> pkg_error + arg_list" where
  "append_pkgs fs f [] a = Inr a"
| "append_pkgs fs f (p # ps) a =
     (case append_texts p f (map (\<lambda>x. text_of (pk_field p x)) (fs p)) a of
        Inl e \<Rightarrow> Inl e | Inr a \<Rightarrow> append_pkgs fs f ps a)"

definition cflags_fields :: "bool \<Rightarrow> pkg \<Rightarrow> pkg_field list" where
  "cflags_fields stat p = Field_Cflags # (if stat then [Field_Cflags_private] else [])"

definition libs_fields :: "bool \<Rightarrow> pkg \<Rightarrow> pkg_field list" where
  "libs_fields stat p =
     (if stat then [Field_Libs, Field_Libs_private] else if pk_public p then [Field_Libs] else [])"

text \<open>The arguments of one kind, after \<open>n\<close> others: the text and the new count.\<close>

definition print_flags :: "pc_state \<Rightarrow> (pkg \<Rightarrow> pkg_field list) \<Rightarrow> arg_filter \<Rightarrow> arg_list \<Rightarrow> pkg list \<Rightarrow> nat \<Rightarrow>
    printed \<times> nat" where
  "print_flags st fs f excl ps n = (case append_pkgs fs f ps excl of
      Inl e \<Rightarrow> (([], Some e), n)
    | Inr a \<Rightarrow> let (t, n) = writeargs (uc_argdelim st) (uc_msvc st) n a in ((t, None), n))"

definition print_packages :: "pc_conf \<Rightarrow> pc_state \<Rightarrow> pkg list \<Rightarrow> printed" where
  "print_packages c st ps =
     (let g = pv_global (uc_proc st);
          versions = ((if uc_modversion st then print_versions ps else []), None);
          variables = (case uc_variable st of None \<Rightarrow> ([], None) | Some v \<Rightarrow> print_variable g v ps);
          inc = (if uc_sysinc st then no_args else insertsyspath (cf_sys_incpath c) (cf_delim c) (CHR ''I'') no_args);
          lib = (if uc_syslib st then no_args else insertsyspath (cf_sys_libpath c) (cf_delim c) (CHR ''L'') no_args);
          (cflags, n) = (if uc_cflags st
            then print_flags st (cflags_fields (uc_static st)) (uc_filterc st) inc ps 0 else (([], None), 0));
          (libs, n) = (if uc_libs st
            then print_flags st (libs_fields (uc_static st)) (uc_filterl st) lib ps n else (([], None), n));
          fin = (if uc_cflags st \<or> uc_libs st then [nl] else [])
      in case check_override (uc_override st) ps of
           Some e \<Rightarrow> ([], Some e)
         | None \<Rightarrow> and_then versions (and_then variables (and_then cflags (and_then libs (fin, None)))))"

definition run_packages :: "pc_conf \<Rightarrow> pc_state \<Rightarrow> printed" where
  "run_packages c st = (case parsespecs (uc_args st) None of
      Inl e \<Rightarrow> ([], Some e)
    | Inr specs \<Rightarrow>
        (case process (uc_proc st) specs of
           Inl e \<Rightarrow> ([], Some e)
         | Inr t \<Rightarrow> if ps_count t = 0 then ([], Some No_packages) else print_packages c st (load_order t)))"

datatype err_place = Err_stderr | Err_stdout | Err_null

definition message_place :: "pc_state \<Rightarrow> err_place" where
  "message_place st = (if uc_silent st then Err_null else if uc_err_to_stdout st then Err_stdout else Err_stderr)"

definition uconfig :: "pc_os \<Rightarrow> pc_conf \<Rightarrow> printed \<times> err_place" where
  "uconfig os c = (case options_loop c (init_state os c) of
      Opt_text t \<Rightarrow> ((t, None), Err_stderr)
    | Opt_fail e \<Rightarrow> (([], Some e), Err_stderr)
    | Opt_next st \<Rightarrow>
        if uc_listing st \<noteq> List_NONE
        then (list_packages os (pv_global (uc_proc st)) (uc_listing st = List_ALL) (pv_search (uc_proc st)), message_place st)
        else (run_packages c st, message_place st))"

text \<open>Through the buffers: what is written to the standard output and error, and the exit code.\<close>

definition pc_run :: "pc_os \<Rightarrow> pc_conf \<Rightarrow> string \<times> string \<times> int" where
  "pc_run os c = (case uconfig os c of ((t, e), pl) \<Rightarrow>
     let out = prints8 t (newfdbuf 1 (2 ^ 12)); err = newfdbuf 2 (2 ^ 7) in
     case e of
       None \<Rightarrow> (b_sent (flush_u8 out), b_sent err, 0)
     | Some e \<Rightarrow>
         (case pl of
            Err_stderr \<Rightarrow> (b_sent out, b_sent (flush_u8 (prints8 (error_message e) err)), 1)
          | Err_stdout \<Rightarrow> (b_sent (flush_u8 (prints8 (error_message e) out)), b_sent err, 1)
          | Err_null \<Rightarrow> (b_sent out, b_sent (flush_u8 (prints8 (error_message e) newnullout)), 1)))"

section \<open>Lemmas: the output\<close>

lemma b_sent_new [simp]: "b_sent (newfdbuf fd cap) = []"
  by (simp add: newfdbuf_def)

lemma u8_new: "u8_room (newfdbuf 1 (2 ^ 12))" "b_fd (newfdbuf 1 (2 ^ 12)) \<noteq> -1" "b_cap (newfdbuf 1 (2 ^ 12)) = 2 ^ 12"
  "u8_text (newfdbuf 1 (2 ^ 12)) = []"
  by (simp_all add: u8_room_def newfdbuf_def u8_text_def)

text \<open>What has been written without a flush: full buffers only.\<close>

lemma unflushed:
  "\<exists>k. b_sent (prints8 t (newfdbuf 1 (2 ^ 12))) = take (2 ^ 12 * k) t \<and> length t < 2 ^ 12 * (k + 1)"
proof -
  let ?b = "prints8 t (newfdbuf 1 (2 ^ 12))"
  have p: "u8_text ?b = t" "u8_room ?b" "b_fd ?b \<noteq> -1" "b_cap ?b = 2 ^ 12"
    using prints8_spec[OF u8_new(1,2), of t] u8_new by simp_all
  have "2 ^ 12 dvd length (b_sent ?b)"
    using prints8_prefix[OF u8_new(1,2), of t] u8_new(3) by simp
  then obtain k where k: "length (b_sent ?b) = 2 ^ 12 * k" by (auto simp: dvd_def)
  have t: "t = b_sent ?b @ b_buf ?b" using p(1) by (simp add: u8_text_def)
  then have "b_sent ?b = take (2 ^ 12 * k) t" using k by (metis append_eq_conv_conj)
  moreover have "length t < 2 ^ 12 * (k + 1)"
    using arg_cong[OF t, of length] k p(2,3,4) by (simp add: u8_room_def)
  ultimately show ?thesis by blast
qed

lemma pc_run_cases:
  "uconfig os c = ((t, None), pl) \<Longrightarrow> pc_run os c = (t, [], 0)"
  "uconfig os c = ((t, Some e), Err_stdout) \<Longrightarrow> pc_run os c = (t @ error_message e, [], 1)"
  "uconfig os c = ((t, Some e), Err_stderr) \<Longrightarrow>
     pc_run os c = (b_sent (prints8 t (newfdbuf 1 (2 ^ 12))), error_message e, 1)"
  "uconfig os c = ((t, Some e), Err_null) \<Longrightarrow>
     pc_run os c = (b_sent (prints8 t (newfdbuf 1 (2 ^ 12))), [], 1)"
proof -
  have app: "b_sent (flush_u8 (prints8 m (prints8 t (newfdbuf 1 (2 ^ 12))))) = t @ m" for m
    using prints8_spec[OF u8_new(1,2), of t] prints8_spec[of "prints8 t (newfdbuf 1 (2 ^ 12))" m] u8_new
    by (simp add: flush_u8_sent)
  have null: "b_sent (flush_u8 (prints8 m newnullout)) = []" for m
    by (simp add: newnullout_def flush_u8_def prints8_null)
  show "uconfig os c = ((t, None), pl) \<Longrightarrow> pc_run os c = (t, [], 0)"
    "uconfig os c = ((t, Some e), Err_stdout) \<Longrightarrow> pc_run os c = (t @ error_message e, [], 1)"
    "uconfig os c = ((t, Some e), Err_stderr) \<Longrightarrow>
     pc_run os c = (b_sent (prints8 t (newfdbuf 1 (2 ^ 12))), error_message e, 1)"
    "uconfig os c = ((t, Some e), Err_null) \<Longrightarrow>
     pc_run os c = (b_sent (prints8 t (newfdbuf 1 (2 ^ 12))), [], 1)"
    using app print_new_flush[of 1 "2 ^ 12" t] print_new_flush[of 2 "2 ^ 7" "error_message e"]
    by (simp_all add: pc_run_def Let_def null)
qed

section \<open>Lemmas: asking for a package\<close>

definition plain_arg :: "string \<Rightarrow> bool" where
  "plain_arg a \<longleftrightarrow> length a < 2 \<or> hd a \<noteq> CHR ''-''"

lemma options_exists:
  assumes "plain_arg n" "cf_args c = [''--exists'', n]"
  shows "\<exists>o'. options_loop c (init_state os c) =
    Opt_next ((init_state os c)\<lparr>uc_silent := True, uc_opts := o', uc_args := [n]\<rparr>)"
proof -
  define st0 where "st0 = init_state os c"
  have st0: "uc_opts st0 = \<lparr>op_args = [''--exists'', n], op_index = 0, op_dashdash = False\<rparr>" "uc_args st0 = []"
    using assms(2) by (simp_all add: st0_def init_state_def newoptions_def)
  let ?o = "\<lambda>i. \<lparr>op_args = [''--exists'', n], op_index = i, op_dashdash = False\<rparr>"
  have "nextoption (?o 0) = (Option_arg ''-exists'' None, ?o 1)"
    "nextoption (?o 1) = (Plain_arg n, ?o 2)" "nextoption (?o 2) = (End_args, ?o 2)"
    using assms(1) by (subst nextoption.simps; simp add: plain_arg_def Let_def)+
  note n = this
  have "options_loop c st0 = options_loop c (st0\<lparr>uc_opts := ?o 1, uc_silent := True\<rparr>)"
    using n(1) by (subst options_loop.simps) (simp add: st0 option_step_def)
  also have "\<dots> = options_loop c (st0\<lparr>uc_silent := True, uc_opts := ?o 2, uc_args := [n]\<rparr>)"
    using n(2) by (subst options_loop.simps) (simp add: st0)
  also have "\<dots> = Opt_next (st0\<lparr>uc_silent := True, uc_opts := ?o 2, uc_args := [n]\<rparr>)"
    using n(3) by (subst options_loop.simps) simp
  finally show ?thesis unfolding st0_def by blast
qed

definition query_processor :: "pc_os \<Rightarrow> pc_conf \<Rightarrow> processor" where
  "query_processor os c = (newprocessor os c)\<lparr>pv_define_prefix := cf_define_prefix c, pv_global := init_global c\<rparr>"

text \<open>The packages of the query are loaded, and there is one.\<close>

definition can_load :: "processor \<Rightarrow> string \<Rightarrow> bool" where
  "can_load pv n = (case parsespecs [n] None of Inl e \<Rightarrow> False
    | Inr specs \<Rightarrow> (case process pv specs of Inl e \<Rightarrow> False | Inr t \<Rightarrow> ps_count t \<noteq> 0))"

lemma exists_answer:
  assumes "plain_arg n" "cf_args c = [''--exists'', n]"
  shows "pc_run os c = ([], [], if can_load (query_processor os c) n then 0 else 1)"
proof -
  from options_exists[OF assms] obtain o' where
    o': "options_loop c (init_state os c) =
      Opt_next ((init_state os c)\<lparr>uc_silent := True, uc_opts := o', uc_args := [n]\<rparr>)" ..
  let ?r = "run_packages c ((init_state os c)\<lparr>uc_silent := True, uc_opts := o', uc_args := [n]\<rparr>)"
  have u: "uconfig os c = (?r, Err_null)"
    by (simp add: uconfig_def o') (simp add: init_state_def message_place_def)
  have print: "print_packages c ((init_state os c)\<lparr>uc_silent := True, uc_opts := o', uc_args := [n]\<rparr>) ps = ([], None)" for ps
    by (simp add: print_packages_def init_state_def check_override_def and_then_def Let_def)
  have r: "fst ?r = [] \<and> (snd ?r = None \<longleftrightarrow> can_load (query_processor os c) n)"
    using print
    by (auto simp: run_packages_def can_load_def query_processor_def init_state_def split: sum.splits)
  have "prints8 [] (newfdbuf 1 (2 ^ 12)) = newfdbuf 1 (2 ^ 12)" by (subst prints8.simps) simp
  then show ?thesis
    using r pc_run_cases(1)[of os c "[]" Err_null] pc_run_cases(4)[of os c "[]" _] u
    by (cases ?r; cases "snd ?r") auto
qed

end
