(* ===== verification/Utf_Coding.thy ===== *)
theory Utf_Coding
  imports Bit_Arith
begin

text \<open>
  UTF-8 and UTF-16 in the Windows layer of \<open>src/src/pkg-config.c\<close>: \<open>utf8decode_\<close>,
  \<open>utf8encode_\<close>, \<open>utf16decode_\<close>, \<open>utf16encode_\<close>, \<open>towide_\<close> and \<open>fromwide_\<close>.
  Code points are integers (\<open>c32\<close> is signed), UTF-16 units are integers below \<open>2^16\<close>, bytes
  are characters. The locale \<open>code_points\<close> is the contract of a coding, met by both.
\<close>

unbundle bit_operations_syntax

section \<open>Model\<close>

definition REPLACEMENT_CHARACTER :: int where "REPLACEMENT_CHARACTER = 0xfffd"

abbreviation byte_at :: "string \<Rightarrow> nat \<Rightarrow> int" where
  "byte_at s i \<equiv> of_char (s ! i)"

definition utf8_reject :: "string \<Rightarrow> int \<times> string" where
  "utf8_reject s = (REPLACEMENT_CHARACTER, drop 1 s)"

definition utf8decode :: "string \<Rightarrow> int \<times> string" where
  "utf8decode s =
     (let k = byte_at s 0 AND 0xf0 in
      if k = 0xc0 \<or> k = 0xd0 then
        if length s < 2 \<or> byte_at s 1 AND 0xc0 \<noteq> 0x80 then utf8_reject s
        else
          let rune = push_bit 6 (byte_at s 0 AND 0x1f) OR (byte_at s 1 AND 0x3f) in
          if rune < 0x80 then utf8_reject s else (rune, drop 2 s)
      else if k = 0xe0 then
        if length s < 3 \<or> byte_at s 1 AND 0xc0 \<noteq> 0x80 \<or> byte_at s 2 AND 0xc0 \<noteq> 0x80 then utf8_reject s
        else
          let rune = push_bit 12 (byte_at s 0 AND 0x0f) OR (push_bit 6 (byte_at s 1 AND 0x3f) OR (byte_at s 2 AND 0x3f)) in
          if rune < 0x800 \<or> 0xd800 \<le> rune \<and> rune \<le> 0xdfff then utf8_reject s else (rune, drop 3 s)
      else if k = 0xf0 then
        if length s < 4 \<or> byte_at s 1 AND 0xc0 \<noteq> 0x80 \<or> byte_at s 2 AND 0xc0 \<noteq> 0x80 \<or> byte_at s 3 AND 0xc0 \<noteq> 0x80
        then utf8_reject s
        else
          let rune = push_bit 18 (byte_at s 0 AND 0x0f) OR (push_bit 12 (byte_at s 1 AND 0x3f) OR
                (push_bit 6 (byte_at s 2 AND 0x3f) OR (byte_at s 3 AND 0x3f))) in
          if rune < 0x10000 \<or> 0x10ffff < rune then utf8_reject s else (rune, drop 4 s)
      else
        let rune = byte_at s 0 in if 0x7f < rune then utf8_reject s else (rune, drop 1 s))"

definition valid_rune :: "int \<Rightarrow> bool" where
  "valid_rune r \<longleftrightarrow> \<not> (r < 0 \<or> 0xd800 \<le> r \<and> r \<le> 0xdfff \<or> 0x10ffff < r)"

text \<open>The bytes of a code point; the cast to \<open>u8\<close> keeps the low eight bits, as \<open>char_of\<close>
  does.\<close>

definition utf8_bytes :: "int \<Rightarrow> string" where
  "utf8_bytes r =
     (if r < 0x80 then [char_of r]
      else if r < 0x800 then [char_of (0xc0 OR drop_bit 6 r), char_of (0x80 OR (r AND 63))]
      else if r < 0x10000 then
        [char_of (0xe0 OR drop_bit 12 r), char_of (0x80 OR (drop_bit 6 r AND 63)), char_of (0x80 OR (r AND 63))]
      else
        [char_of (0xf0 OR drop_bit 18 r), char_of (0x80 OR (drop_bit 12 r AND 63)),
         char_of (0x80 OR (drop_bit 6 r AND 63)), char_of (0x80 OR (r AND 63))])"

definition utf8encode :: "int \<Rightarrow> string" where
  "utf8encode r = utf8_bytes (if valid_rune r then r else REPLACEMENT_CHARACTER)"

definition utf16_reject :: "int list \<Rightarrow> int \<times> int list" where
  "utf16_reject s = (REPLACEMENT_CHARACTER, drop 1 s)"

definition utf16decode :: "int list \<Rightarrow> int \<times> int list" where
  "utf16decode s =
     (let hi = s ! 0 in
      if 0xdc00 \<le> hi \<and> hi \<le> 0xdfff then utf16_reject s
      else if 0xd800 \<le> hi \<and> hi \<le> 0xdbff then
        if length s < 2 then utf16_reject s
        else let lo = s ! 1 in
          if lo < 0xdc00 \<or> 0xdfff < lo then utf16_reject s
          else (0x10000 + push_bit 10 (hi - 0xd800) + (lo - 0xdc00), drop 2 s)
      else (hi, drop 1 s))"

definition utf16encode :: "int \<Rightarrow> int list" where
  "utf16encode rune =
     (let rune = (if valid_rune rune then rune else REPLACEMENT_CHARACTER) in
      if 0x10000 \<le> rune then
        let rune = rune - 0x10000 in [drop_bit 10 rune + 0xd800, (rune AND 0x3ff) + 0xdc00]
      else [rune])"

text \<open>The second pass of \<open>towide_\<close> and \<open>fromwide_\<close>; the first one only counts.\<close>

lemma utf8decode_shorter [termination_simp]: "s \<noteq> [] \<Longrightarrow> utf8decode s = (r, t) \<Longrightarrow> length t < length s"
  by (auto simp: utf8decode_def utf8_reject_def Let_def split: if_splits)

lemma utf16decode_shorter [termination_simp]: "s \<noteq> [] \<Longrightarrow> utf16decode s = (r, t) \<Longrightarrow> length t < length s"
  by (auto simp: utf16decode_def utf16_reject_def Let_def split: if_splits)

function towide :: "string \<Rightarrow> int list" where
  "towide s = (if s = [] then [] else let (rune, tail) = utf8decode s in utf16encode rune @ towide tail)"
  by pat_completeness auto
termination
  by (relation "measure length") (auto dest: utf8decode_shorter[OF _ sym])

function fromwide :: "int list \<Rightarrow> string" where
  "fromwide w = (if w = [] then [] else let (rune, tail) = utf16decode w in utf8encode rune @ fromwide tail)"
  by pat_completeness auto
termination
  by (relation "measure length") (auto dest: utf16decode_shorter[OF _ sym])

declare towide.simps [simp del] fromwide.simps [simp del]

section \<open>The contract of a coding\<close>

locale code_points =
  fixes enc :: "int \<Rightarrow> 'u list"
    and dec :: "'u list \<Rightarrow> int \<times> 'u list"
    and in_range :: "'u \<Rightarrow> bool"
  assumes enc_nonempty: "valid_rune r \<Longrightarrow> enc r \<noteq> []"
    and dec_enc: "valid_rune r \<Longrightarrow> dec (enc r @ s) = (r, s)"
    and dec_valid: "s \<noteq> [] \<Longrightarrow> list_all in_range s \<Longrightarrow> valid_rune (fst (dec s))"
begin

text \<open>Encoded texts are equal only when their code points are.\<close>

lemma enc_inj:
  "list_all valid_rune rs \<Longrightarrow> list_all valid_rune qs \<Longrightarrow> concat (map enc rs) = concat (map enc qs) \<Longrightarrow> rs = qs"
proof (induction rs arbitrary: qs)
  case Nil
  then show ?case by (cases qs) (auto simp: enc_nonempty)
next
  case (Cons r rs)
  then obtain q qs' where qs: "qs = q # qs'" by (cases qs) (auto simp: enc_nonempty)
  have "dec (enc r @ concat (map enc rs)) = dec (enc q @ concat (map enc qs'))"
    using Cons.prems(3) by (simp add: qs)
  then have "r = q" "concat (map enc rs) = concat (map enc qs')"
    using Cons.prems(1,2) by (simp_all add: dec_enc qs)
  then show ?case using Cons by (simp add: qs)
qed

end

text \<open>A loop that decodes with one coding and encodes with another.\<close>

locale transcoder = code_points enc1 dec1 in_range1
  for enc1 :: "int \<Rightarrow> 'a list" and dec1 :: "'a list \<Rightarrow> int \<times> 'a list" and in_range1 :: "'a \<Rightarrow> bool" +
  fixes enc2 :: "int \<Rightarrow> 'b list" and code :: "'a list \<Rightarrow> 'b list"
  assumes code_nil: "code [] = []"
    and code_step: "s \<noteq> [] \<Longrightarrow> code s = enc2 (fst (dec1 s)) @ code (snd (dec1 s))"
begin

lemma code_encoded: "list_all valid_rune rs \<Longrightarrow> code (concat (map enc1 rs)) = concat (map enc2 rs)"
proof (induction rs)
  case (Cons r rs)
  then have "enc1 r @ concat (map enc1 rs) \<noteq> []" by (simp add: enc_nonempty)
  from code_step[OF this] show ?case using Cons by (simp add: dec_enc)
qed (simp add: code_nil)

end

section \<open>Bits as arithmetic\<close>

lemma and_mask_int: "(x :: int) AND 63 = x mod 64" "x AND 0x1f = x mod 32" "x AND 0x0f = x mod 16" "x AND 0x3ff = x mod 1024"
proof -
  have m: "(63 :: int) = mask 6" "(0x1f :: int) = mask 5" "(0x0f :: int) = mask 4" "(0x3ff :: int) = mask 10"
    by (simp_all add: mask_eq_exp_minus_1)
  show "x AND 63 = x mod 64" "x AND 0x1f = x mod 32" "x AND 0x0f = x mod 16" "x AND 0x3ff = x mod 1024"
    unfolding m take_bit_eq_mask[symmetric] by (simp_all add: take_bit_eq_mod)
qed

text \<open>The upper bits of a byte.\<close>

lemma and_high_mask: "(x :: int) AND push_bit n (mask k) = push_bit n (take_bit k (drop_bit n x))"
proof (rule bit_eqI)
  fix i
  show "bit (x AND push_bit n (mask k)) i = bit (push_bit n (take_bit k (drop_bit n x))) i"
    by (cases "n \<le> i") (auto simp: bit_simps)
qed

lemma and_high_int:
  assumes "0 \<le> (x :: int)" "x < 256"
  shows "x AND 0xf0 = 16 * (x div 16)" "x AND 0xc0 = 64 * (x div 64)"
proof -
  have c: "(0xf0 :: int) = push_bit 4 (mask 4)" "(0xc0 :: int) = push_bit 6 (mask 2)"
    by (simp_all add: mask_eq_exp_minus_1 push_bit_eq_mult)
  have a: "x AND 0xf0 = push_bit 4 (take_bit 4 (drop_bit 4 x))" "x AND 0xc0 = push_bit 6 (take_bit 2 (drop_bit 6 x))"
    unfolding c and_high_mask by (rule refl)+
  show "x AND 0xf0 = 16 * (x div 16)" "x AND 0xc0 = 64 * (x div 64)"
    unfolding a using assms by (simp_all add: push_bit_eq_mult take_bit_eq_mod drop_bit_eq_div)
qed

lemma or_tag:
  "0 \<le> (b :: int) \<Longrightarrow> b < 64 \<Longrightarrow> 0x80 OR b = 0x80 + b" "0 \<le> b \<Longrightarrow> b < 32 \<Longrightarrow> 0xc0 OR b = 0xc0 + b"
  "0 \<le> b \<Longrightarrow> b < 16 \<Longrightarrow> 0xe0 OR b = 0xe0 + b" "0 \<le> b \<Longrightarrow> b < 8 \<Longrightarrow> 0xf0 OR b = 0xf0 + b"
  using or_shift[of b 6 2] or_shift[of b 5 6] or_shift[of b 4 14] or_shift[of b 3 30]
  by (simp_all add: push_bit_eq_mult)

lemmas bit_arith = and_mask_int and_high_int or_tag or_shift drop_bit_eq_div

lemma byte_of: "(of_char (char_of (x :: int)) :: int) = x mod 256"
  by (simp add: take_bit_eq_mod)

section \<open>The codings meet it\<close>

lemma small_byte: "0 \<le> (x :: int) \<Longrightarrow> x < 256 \<Longrightarrow> (of_char (char_of x) :: int) = x"
  by (simp add: byte_of)

lemma cont_byte: "0 \<le> (b :: int) \<Longrightarrow> b < 64 \<Longrightarrow> (0x80 + b) AND 0xc0 = 0x80 \<and> (0x80 + b) AND 0x3f = b"
  using and_high_int[of "0x80 + b"] by (simp add: and_mask_int) presburger

lemma cont_char:
  "0 \<le> (b :: int) \<Longrightarrow> b < 64 \<Longrightarrow> (0x80 + b) AND 0xc0 = 0x80"
  "0 \<le> (b :: int) \<Longrightarrow> b < 64 \<Longrightarrow> (0x80 + b) AND 0x3f = b"
  "0 \<le> (b :: int) \<Longrightarrow> b < 64 \<Longrightarrow> of_char (char_of (0x80 + b)) = 0x80 + b"
  using cont_byte[of b] by (simp_all add: small_byte)

lemma lead_ascii:
  assumes "0 \<le> (b :: int)" "b < 128"
  shows "b AND 0xf0 \<noteq> 0xc0" "b AND 0xf0 \<noteq> 0xd0" "b AND 0xf0 \<noteq> 0xe0" "b AND 0xf0 \<noteq> 0xf0"
  using and_high_int(1)[of b] assms by simp_all

lemma lead_two:
  assumes "0 \<le> (h :: int)" "h < 32"
  shows "(0xc0 + h) AND 0xf0 = 0xc0 \<or> (0xc0 + h) AND 0xf0 = 0xd0" "(0xc0 + h) AND 0x1f = h"
proof -
  have "h div 16 = 0 \<or> h div 16 = 1" using assms by presburger
  moreover have "(0xc0 + h) div 16 = 12 + h div 16" using div_mult_self2[of 16 h 12] by (simp add: add.commute)
  ultimately show "(0xc0 + h) AND 0xf0 = 0xc0 \<or> (0xc0 + h) AND 0xf0 = 0xd0"
    using and_high_int(1)[of "0xc0 + h"] assms by auto
  have "(0xc0 + h) mod 32 = h" using assms by presburger
  then show "(0xc0 + h) AND 0x1f = h" by (simp only: and_mask_int)
qed

lemma lead_three:
  assumes "0 \<le> (h :: int)" "h < 16"
  shows "(0xe0 + h) AND 0xf0 = 0xe0" "(0xe0 + h) AND 0x0f = h"
proof -
  have "(0xe0 + h) div 16 = 14" "(0xe0 + h) mod 16 = h" using assms by presburger+
  then show "(0xe0 + h) AND 0xf0 = 0xe0" "(0xe0 + h) AND 0x0f = h"
    using and_high_int(1)[of "0xe0 + h"] assms by (simp_all only: and_mask_int)
qed

lemma lead_four:
  assumes "0 \<le> (h :: int)" "h < 8"
  shows "(0xf0 + h) AND 0xf0 = 0xf0" "(0xf0 + h) AND 0x0f = h"
proof -
  have "(0xf0 + h) div 16 = 15" "(0xf0 + h) mod 16 = h" using assms by presburger+
  then show "(0xf0 + h) AND 0xf0 = 0xf0" "(0xf0 + h) AND 0x0f = h"
    using and_high_int(1)[of "0xf0 + h"] assms by (simp_all only: and_mask_int)
qed

lemma join_bits:
  "0 \<le> (c :: int) \<Longrightarrow> c < 64 \<Longrightarrow> push_bit 6 b OR c = b * 64 + c"
  "0 \<le> c \<Longrightarrow> c < 4096 \<Longrightarrow> push_bit 12 b OR c = b * 4096 + c"
  "0 \<le> c \<Longrightarrow> c < 262144 \<Longrightarrow> push_bit 18 b OR c = b * 262144 + c"
  using or_shift[of c 6 b] or_shift[of c 12 b] or_shift[of c 18 b] by simp_all

text \<open>A number by its digits in base 64.\<close>

lemma digits64:
  "(r :: int) = r div 4096 * 4096 + (r div 64 mod 64 * 64 + r mod 64)"
  "r = r div 262144 * 262144 + (r div 4096 mod 64 * 4096 + (r div 64 mod 64 * 64 + r mod 64))"
proof -
  have d: "r div 4096 = r div 64 div 64" "r div 262144 = r div 4096 div 64"
    using zdiv_zmult2_eq[of 64 r 64] zdiv_zmult2_eq[of 64 r 4096] by simp_all
  show "r = r div 4096 * 4096 + (r div 64 mod 64 * 64 + r mod 64)"
    using div_mult_mod_eq[of r 64] div_mult_mod_eq[of "r div 64" 64] unfolding d by linarith
  then show "r = r div 262144 * 262144 + (r div 4096 mod 64 * 4096 + (r div 64 mod 64 * 64 + r mod 64))"
    using div_mult_mod_eq[of "r div 4096" 64] unfolding d(2) by linarith
qed

lemma utf8_decode_encode: "valid_rune r \<Longrightarrow> utf8decode (utf8encode r @ s) = (r, s)"
proof -
  assume v: "valid_rune r"
  then have r: "0 \<le> r" "r \<le> 0x10ffff" "r < 0xd800 \<or> 0xdfff < r" by (auto simp: valid_rune_def)
  have enc: "utf8encode r = utf8_bytes r" using v by (simp add: utf8encode_def)
  consider "r < 0x80" | "0x80 \<le> r" "r < 0x800" | "0x800 \<le> r" "r < 0x10000" | "0x10000 \<le> r" by linarith
  from this show ?thesis
  proof cases
    case 1
    then show ?thesis using lead_ascii[of r] r by (simp add: utf8decode_def enc utf8_bytes_def small_byte Let_def)
  next
    case 2
    define a where "a = r div 64"
    define b where "b = r mod 64"
    have ab: "r = a * 64 + b" "0 \<le> b" "b < 64" "2 \<le> a" "a < 32" using 2 by (auto simp: a_def b_def)
    have e: "utf8_bytes r = [char_of (0xc0 + a), char_of (0x80 + b)]"
      using 2 ab by (simp add: utf8_bytes_def bit_arith a_def[symmetric] b_def[symmetric])
    define x y where "x = 0xc0 + a" and "y = 0x80 + b"
    have x: "x AND 0xf0 = 0xc0 \<or> x AND 0xf0 = 0xd0" "x AND 0x1f = a" "of_char (char_of x) = x"
      using lead_two[of a] ab by (simp_all only: x_def) (simp_all add: small_byte)
    note y = cont_char[OF ab(2,3), folded y_def]
    have j: "push_bit 6 a OR b = r" using join_bits(1)[of b a] ab by simp
    have b: "byte_at (char_of x # char_of y # s) 0 = x" "byte_at (char_of x # char_of y # s) 1 = y"
      by (simp_all only: One_nat_def nth_Cons_0 nth_Cons_Suc x(3) y(3))
    have l: "length (char_of x # char_of y # s) < 2 \<longleftrightarrow> False" "drop 2 (char_of x # char_of y # s) = s"
      by (simp_all add: numeral_2_eq_2)
    have "utf8decode (char_of x # char_of y # s) = (r, s)"
      unfolding utf8decode_def Let_def b x(2) y j l using x(1) 2(1) by (auto simp del: char_of_def)
    then show ?thesis by (simp only: enc e x_def y_def append_Cons append_Nil)
  next
    case 3
    define a b c where "a = r div 4096" and "b = r div 64 mod 64" and "c = r mod 64"
    note def = a_def b_def c_def
    have r': "r = a * 4096 + (b * 64 + c)" using digits64(1)[of r] by (simp only: def)
    have abc: "0 \<le> b" "b < 64" "0 \<le> c" "c < 64" "0 \<le> a" "a < 16" using 3 r by (auto simp: def)
    have e: "utf8_bytes r = [char_of (0xe0 + a), char_of (0x80 + b), char_of (0x80 + c)]"
      using 3 abc by (simp add: utf8_bytes_def bit_arith def[symmetric])
    have j: "push_bit 12 a OR (push_bit 6 b OR c) = r"
      using join_bits(1)[of c b] join_bits(2)[of "b * 64 + c" a] abc r' by simp
    define x y z where "x = 0xe0 + a" and "y = 0x80 + b" and "z = 0x80 + c"
    have x: "x AND 0xf0 = 0xe0" "x AND 0x0f = a" "of_char (char_of x) = x"
      using lead_three[of a] abc by (simp_all only: x_def) (simp_all add: small_byte)
    note y = cont_char[OF abc(1,2), folded y_def] and z = cont_char[OF abc(3,4), folded z_def]
    let ?t = "char_of x # char_of y # char_of z # s"
    have n: "?t ! 0 = char_of x" "?t ! 1 = char_of y" "?t ! 2 = char_of z" by simp_all
    have b: "byte_at ?t 0 = x" "byte_at ?t 1 = y" "byte_at ?t 2 = z" by (simp_all only: n x(3) y(3) z(3))
    have l: "length ?t < 3 \<longleftrightarrow> False" "drop 3 ?t = s" by (simp_all add: numeral_3_eq_3)
    have "utf8decode ?t = (r, s)"
      unfolding utf8decode_def Let_def b x(1,2) y(1,2) z(1,2) j l using 3 r by auto
    then show ?thesis by (simp only: enc e x_def y_def z_def append_Cons append_Nil)
  next
    case 4
    define a b c d where "a = r div 262144" and "b = r div 4096 mod 64" and "c = r div 64 mod 64" and "d = r mod 64"
    note def = a_def b_def c_def d_def
    have r': "r = a * 262144 + (b * 4096 + (c * 64 + d))" using digits64(2)[of r] by (simp only: def)
    have abc: "0 \<le> b" "b < 64" "0 \<le> c" "c < 64" "0 \<le> d" "d < 64" "0 \<le> a" "a < 8"
      using 4 r by (auto simp: def)
    have e: "utf8_bytes r = [char_of (0xf0 + a), char_of (0x80 + b), char_of (0x80 + c), char_of (0x80 + d)]"
      using 4 abc by (simp add: utf8_bytes_def bit_arith def[symmetric])
    have j: "push_bit 18 a OR (push_bit 12 b OR (push_bit 6 c OR d)) = r"
      using join_bits(1)[of d c] join_bits(2)[of "c * 64 + d" b] join_bits(3)[of "b * 4096 + (c * 64 + d)" a] abc r'
      by simp
    define x y z w where "x = 0xf0 + a" and "y = 0x80 + b" and "z = 0x80 + c" and "w = 0x80 + d"
    have x: "x AND 0xf0 = 0xf0" "x AND 0x0f = a" "of_char (char_of x) = x"
      using lead_four[of a] abc by (simp_all only: x_def) (simp_all add: small_byte)
    note y = cont_char[OF abc(1,2), folded y_def] and z = cont_char[OF abc(3,4), folded z_def]
      and w = cont_char[OF abc(5,6), folded w_def]
    let ?t = "char_of x # char_of y # char_of z # char_of w # s"
    have n: "?t ! 0 = char_of x" "?t ! 1 = char_of y" "?t ! 2 = char_of z" "?t ! 3 = char_of w" by simp_all
    have b: "byte_at ?t 0 = x" "byte_at ?t 1 = y" "byte_at ?t 2 = z" "byte_at ?t 3 = w"
      by (simp_all only: n x(3) y(3) z(3) w(3))
    have l: "length ?t < 4 \<longleftrightarrow> False" "drop 4 ?t = s" by (simp_all add: numeral_eq_Suc)
    have "utf8decode ?t = (r, s)"
      unfolding utf8decode_def Let_def b x(1,2) y(1,2) z(1,2) w(1,2) j l using 4 r by auto
    then show ?thesis by (simp only: enc e x_def y_def z_def w_def append_Cons append_Nil)
  qed
qed

lemma byte_range: "0 \<le> (of_char c :: int)"
  using pos_mod_sign[of 256 "of_char c :: int"] by simp

lemma utf8_reject_valid: "valid_rune (fst (utf8_reject s))"
  by (simp add: utf8_reject_def valid_rune_def REPLACEMENT_CHARACTER_def)

lemma valid_if:
  "(c \<Longrightarrow> valid_rune (fst x)) \<Longrightarrow> (\<not> c \<Longrightarrow> valid_rune (fst y)) \<Longrightarrow> valid_rune (fst (if c then x else y))"
  by simp

lemma rune_bounds:
  "0 \<le> push_bit 6 ((x :: int) mod 32) OR (y mod 64) \<and> push_bit 6 (x mod 32) OR (y mod 64) < 0x800"
  "0 \<le> push_bit 12 (x mod 16) OR (push_bit 6 (y mod 64) OR (z mod 64)) \<and>
   push_bit 12 (x mod 16) OR (push_bit 6 (y mod 64) OR (z mod 64)) < 0x10000"
  "0 \<le> push_bit 18 (x mod 16) OR (push_bit 12 (y mod 64) OR (push_bit 6 (z mod 64) OR (w mod 64)))"
proof -
  have m: "0 \<le> x mod n \<and> x mod n < n" if "0 < n" for x n :: int using that by simp
  show "0 \<le> push_bit 6 (x mod 32) OR (y mod 64) \<and> push_bit 6 (x mod 32) OR (y mod 64) < 0x800"
    using join_bits(1)[of "y mod 64" "x mod 32"] m[of 32 x] m[of 64 y] by linarith
  show "0 \<le> push_bit 12 (x mod 16) OR (push_bit 6 (y mod 64) OR (z mod 64)) \<and>
      push_bit 12 (x mod 16) OR (push_bit 6 (y mod 64) OR (z mod 64)) < 0x10000"
    using join_bits(1)[of "z mod 64" "y mod 64"] join_bits(2)[of "push_bit 6 (y mod 64) OR (z mod 64)" "x mod 16"]
      m[of 16 x] m[of 64 y] m[of 64 z] by linarith
  show "0 \<le> push_bit 18 (x mod 16) OR (push_bit 12 (y mod 64) OR (push_bit 6 (z mod 64) OR (w mod 64)))"
    by (simp add: or_nonnegative_int_iff)
qed

lemma utf8_decode_valid: "valid_rune (fst (utf8decode s))"
  unfolding utf8decode_def Let_def and_mask_int
proof (intro valid_if utf8_reject_valid, goal_cases)
  case 1 then show ?case
    using rune_bounds(1)[of "byte_at s 0" "byte_at s 1"] by (simp only: valid_rune_def fst_conv) linarith
next
  case 2 then show ?case
    using rune_bounds(2)[of "byte_at s 0" "byte_at s 1" "byte_at s 2"] by (simp only: valid_rune_def fst_conv) linarith
next
  case 3 then show ?case
    using rune_bounds(3)[of "byte_at s 0" "byte_at s 1" "byte_at s 2" "byte_at s 3"]
    by (simp only: valid_rune_def fst_conv) linarith
next
  case 4 then show ?case using byte_range[of "s ! 0"] by (simp only: valid_rune_def fst_conv) linarith
qed

lemma utf16_decode_encode: "valid_rune r \<Longrightarrow> utf16decode (utf16encode r @ s) = (r, s)"
proof -
  assume v: "valid_rune r"
  then have r: "0 \<le> r" "r \<le> 0x10ffff" "r < 0xd800 \<or> 0xdfff < r" by (auto simp: valid_rune_def)
  show ?thesis
  proof (cases "0x10000 \<le> r")
    case False
    then have "utf16encode r = [r]" using v by (simp add: utf16encode_def)
    then show ?thesis using r(3) by (auto simp: utf16decode_def Let_def)
  next
    case True
    define h where "h = (r - 0x10000) div 1024"
    define l where "l = (r - 0x10000) mod 1024"
    have hl: "r - 0x10000 = h * 1024 + l" "0 \<le> h" "h < 1024" "0 \<le> l" "l < 1024"
      using True r by (auto simp: h_def l_def)
    have e: "utf16encode r = [h + 0xd800, l + 0xdc00]"
      using True v by (simp add: utf16encode_def bit_arith Let_def h_def l_def)
    show ?thesis using hl by (simp add: utf16decode_def e Let_def push_bit_eq_mult)
  qed
qed

definition u16_unit :: "int \<Rightarrow> bool" where
  "u16_unit u \<longleftrightarrow> 0 \<le> u \<and> u < 0x10000"

lemma utf16_decode_valid:
  "s \<noteq> [] \<Longrightarrow> list_all u16_unit s \<Longrightarrow> valid_rune (fst (utf16decode s))"
  by (cases s; cases "tl s")
    (auto simp: utf16decode_def utf16_reject_def valid_rune_def REPLACEMENT_CHARACTER_def u16_unit_def
      push_bit_eq_mult Let_def)

section \<open>The interface on the two codings\<close>

interpretation utf8: code_points utf8encode utf8decode "\<lambda>_. True"
proof
  show "utf8encode r \<noteq> []" for r by (simp add: utf8encode_def utf8_bytes_def)
qed (simp_all add: utf8_decode_encode utf8_decode_valid)

interpretation utf16: code_points utf16encode utf16decode u16_unit
proof
  show "utf16encode r \<noteq> []" for r by (simp add: utf16encode_def Let_def)
qed (simp_all add: utf16_decode_encode utf16_decode_valid)

interpretation widen: transcoder utf8encode utf8decode "\<lambda>_. True" utf16encode towide
proof
  show "towide [] = []" by (simp add: towide.simps)
  show "towide s = utf16encode (fst (utf8decode s)) @ towide (snd (utf8decode s))" if "s \<noteq> []" for s
    using that by (simp add: towide.simps[of s] case_prod_beta)
qed

interpretation narrow: transcoder utf16encode utf16decode u16_unit utf8encode fromwide
proof
  show "fromwide [] = []" by (simp add: fromwide.simps)
  show "fromwide s = utf8encode (fst (utf16decode s)) @ fromwide (snd (utf16decode s))" if "s \<noteq> []" for s
    using that by (simp add: fromwide.simps[of s] case_prod_beta)
qed

text \<open>A text of encoded code points survives the way to the Windows calls and back.\<close>

lemma wide_and_back:
  "list_all valid_rune rs \<Longrightarrow> fromwide (towide (concat (map utf8encode rs))) = concat (map utf8encode rs)"
  by (simp add: widen.code_encoded narrow.code_encoded)

text \<open>Any text, even one that is not UTF-8, becomes the UTF-16 of code points.\<close>

lemma towide_runes: "\<exists>rs. list_all valid_rune rs \<and> towide s = concat (map utf16encode rs)"
proof (induction s rule: towide.induct)
  case (1 s)
  show ?case
  proof (cases "s = []")
    case True
    then show ?thesis by (intro exI[of _ "[]"]) (simp add: towide.simps)
  next
    case False
    obtain r t where rt: "utf8decode s = (r, t)" by fastforce
    from 1[OF False rt[symmetric] refl] obtain rs where
      "list_all valid_rune rs" "towide t = concat (map utf16encode rs)" by blast
    moreover have "valid_rune r" using utf8_decode_valid[of s] by (simp add: rt)
    ultimately show ?thesis using False
      by (intro exI[of _ "r # rs"]) (simp add: towide.simps[of s] rt)
  qed
qed

lemma ascii_wide: "list_all (\<lambda>c. (of_char c :: int) < 0x80) s \<Longrightarrow> s = concat (map utf8encode (map of_char s))"
  using byte_range by (induction s) (auto simp: utf8encode_def utf8_bytes_def valid_rune_def not_less[symmetric])

end
