(* ===== verification/Cmdline_Argv.thy ===== *)
theory Cmdline_Argv
  imports Utf_Coding
begin

text \<open>
  \<open>cmdline_to_argv8\<close> of \<open>src/src/pkg-config.c\<close>: the Windows command line, a list of UTF-16
  units without the terminator, split into arguments of WTF-8 bytes. \<open>av_args\<close> are the
  strings \<open>argv\<close> points to, the last one being written; \<open>av_state\<close> and \<open>av_slash\<close> are the
  locals \<open>state\<close> and \<open>slash\<close>. The lemmas show that arguments quoted by the documented rule
  arrive unchanged.
\<close>

section \<open>Model\<close>

record argv_st =
  av_args :: "string list"
  av_state :: nat
  av_slash :: nat

definition argv_init :: argv_st where
  "argv_init = \<lparr>av_args = [[]], av_state = 6, av_slash = 0\<rparr>"

text \<open>The next character and the rest; a lone surrogate stands for itself.\<close>

definition next_unit :: "int list \<Rightarrow> int \<times> int list" where
  "next_unit cmd =
     (let c = hd cmd; rest = tl cmd in
      if drop_bit 10 c = 0x36 \<and> (rest \<noteq> [] \<and> drop_bit 10 (hd rest) = 0x37)
      then (0x10000 + push_bit 10 (c - 0xd800) + (hd rest - 0xdc00), tl rest)
      else (c, rest))"

datatype argv_move = Av_skip | Av_put | Av_back

definition open_arg :: "argv_st \<Rightarrow> argv_st" where
  "open_arg s = s\<lparr>av_args := av_args s @ [[]]\<rparr>"

definition upd_last :: "(string \<Rightarrow> string) \<Rightarrow> argv_st \<Rightarrow> argv_st" where
  "upd_last f s = s\<lparr>av_args := butlast (av_args s) @ [f (last (av_args s))]\<rparr>"

definition argv_step :: "int \<Rightarrow> argv_st \<Rightarrow> argv_move \<times> argv_st" where
  "argv_step c s =
     (if av_state s = 0 then
        if c = 0x09 \<or> c = 0x20 then (Av_skip, s)
        else if c = 0x22 then (Av_skip, (open_arg s)\<lparr>av_state := 2\<rparr>)
        else if c = 0x5c then (Av_put, (open_arg s)\<lparr>av_slash := 1, av_state := 3\<rparr>)
        else (Av_put, (open_arg s)\<lparr>av_state := 1\<rparr>)
      else if av_state s = 1 then
        if c = 0x09 \<or> c = 0x20 then (Av_skip, s\<lparr>av_state := 0\<rparr>)
        else if c = 0x22 then (Av_skip, s\<lparr>av_state := 2\<rparr>)
        else if c = 0x5c then (Av_put, s\<lparr>av_slash := 1, av_state := 3\<rparr>)
        else (Av_put, s)
      else if av_state s = 2 then
        if c = 0x22 then (Av_skip, s\<lparr>av_state := 5\<rparr>)
        else if c = 0x5c then (Av_put, s\<lparr>av_slash := 1, av_state := 4\<rparr>)
        else (Av_put, s)
      else if av_state s = 3 \<or> av_state s = 4 then
        if c = 0x22 then
          let s' = (upd_last (\<lambda>a. take (length a - (1 + av_slash s) div 2) a) s)\<lparr>av_state := av_state s - 2\<rparr> in
          if odd (av_slash s) then (Av_put, s') else (Av_back, s')
        else if c = 0x5c then (Av_put, s\<lparr>av_slash := av_slash s + 1\<rparr>)
        else (Av_back, s\<lparr>av_state := av_state s - 2\<rparr>)
      else if av_state s = 5 then
        if c = 0x22 then (Av_put, s\<lparr>av_state := 1\<rparr>) else (Av_back, s\<lparr>av_state := 1\<rparr>)
      else if av_state s = 6 then
        if c = 0x09 \<or> c = 0x20 then (Av_skip, s\<lparr>av_state := 0\<rparr>)
        else if c = 0x22 then (Av_skip, s\<lparr>av_state := 8\<rparr>)
        else (Av_put, s\<lparr>av_state := 7\<rparr>)
      else if av_state s = 7 then
        if c = 0x09 \<or> c = 0x20 then (Av_skip, s\<lparr>av_state := 0\<rparr>) else (Av_put, s)
      else if av_state s = 8 then
        if c = 0x22 then (Av_skip, s\<lparr>av_state := 0\<rparr>) else (Av_put, s)
      else (Av_put, s))"

definition put_char :: "int \<Rightarrow> argv_st \<Rightarrow> argv_st" where
  "put_char c = upd_last (\<lambda>a. a @ utf8_bytes c)"

text \<open>A character is pushed back only where the state leaves 3, 4 or 5 for 1 or 2.\<close>

lemma argv_step_back:
  "argv_step c s = (Av_back, s') \<Longrightarrow> av_state s \<in> {3, 4, 5} \<and> av_state s' \<in> {1, 2}"
  by (auto simp: argv_step_def Let_def split: if_splits)

lemma next_unit_shorter: "cmd \<noteq> [] \<Longrightarrow> length (snd (next_unit cmd)) < length cmd"
  by (cases cmd; cases "tl cmd") (auto simp: next_unit_def Let_def)

function argv_loop :: "int list \<Rightarrow> argv_st \<Rightarrow> argv_st" where
  "argv_loop cmd s =
     (if cmd = [] then s
      else let (c, rest) = next_unit cmd in
        case argv_step c s of
          (Av_skip, s) \<Rightarrow> argv_loop rest s
        | (Av_put, s) \<Rightarrow> argv_loop rest (put_char c s)
        | (Av_back, s) \<Rightarrow> argv_loop cmd s)"
  by pat_completeness auto
termination
  by (relation "measures [\<lambda>(cmd, s). length cmd, \<lambda>(cmd, s). if av_state s \<in> {3, 4, 5} then 1 else 0]")
    (auto dest!: argv_step_back[OF sym] simp: next_unit_shorter
      dest: arg_cong[where f = "\<lambda>p. length (snd p)"])

declare argv_loop.simps [simp del]

definition cmdline_to_argv8 :: "int list \<Rightarrow> string list" where
  "cmdline_to_argv8 cmd = av_args (argv_loop cmd argv_init)"

section \<open>The state\<close>

definition st_of :: "string list \<Rightarrow> string \<Rightarrow> nat \<Rightarrow> nat \<Rightarrow> argv_st" where
  "st_of as a q n = \<lparr>av_args = as @ [a], av_state = q, av_slash = n\<rparr>"

lemma st_of_simps [simp]:
  "av_state (st_of as a q n) = q" "av_slash (st_of as a q n) = n" "av_args (st_of as a q n) = as @ [a]"
  "(st_of as a q n)\<lparr>av_state := q'\<rparr> = st_of as a q' n" "(st_of as a q n)\<lparr>av_slash := n'\<rparr> = st_of as a q n'"
  "open_arg (st_of as a q n) = st_of (as @ [a]) [] q n" "upd_last f (st_of as a q n) = st_of as (f a) q n"
  "put_char c (st_of as a q n) = st_of as (a @ utf8_bytes c) q n"
  by (simp_all add: st_of_def open_arg_def upd_last_def put_char_def)

lemma next_unit_encoded:
  assumes "valid_rune r"
  shows "next_unit (utf16encode r @ s) = (r, s)"
proof (cases "0x10000 \<le> r")
  case False
  then have "utf16encode r = [r]" "drop_bit 10 r \<noteq> 0x36"
    using assms by (auto simp: utf16encode_def valid_rune_def drop_bit_eq_div)
  then show ?thesis by (simp add: next_unit_def)
next
  case True
  define h where "h = (r - 0x10000) div 1024"
  define l where "l = (r - 0x10000) mod 1024"
  have hl: "r - 0x10000 = h * 1024 + l" "0 \<le> h" "h < 1024" "0 \<le> l" "l < 1024"
    using True assms by (auto simp: h_def l_def valid_rune_def)
  have e: "utf16encode r = [h + 0xd800, l + 0xdc00]"
    using True assms by (simp add: utf16encode_def bit_arith Let_def h_def l_def)
  have "(h + 0xd800) div 1024 = 0x36" "(l + 0xdc00) div 1024 = 0x37"
    using hl int_div_pos_eq[of "h + 0xd800" 1024 54 h] int_div_pos_eq[of "l + 0xdc00" 1024 55 l] by simp_all
  then have d: "drop_bit 10 (h + 0xd800) = 0x36" "drop_bit 10 (l + 0xdc00) = 0x37" by (simp_all add: drop_bit_eq_div)
  have "0x10000 + push_bit 10 (h + 0xd800 - 0xd800) + (l + 0xdc00 - 0xdc00) = r"
    using hl(1) by (simp add: push_bit_eq_mult)
  then show ?thesis by (simp only: e next_unit_def Let_def d append_Cons append_Nil list.sel list.distinct) simp
qed

definition wide :: "int list \<Rightarrow> int list" where
  "wide rs = concat (map utf16encode rs)"

lemma wide_simps [simp]: "wide [] = []" "wide (r # rs) = utf16encode r @ wide rs" "wide (rs @ qs) = wide rs @ wide qs"
  by (simp_all add: wide_def)

definition narrow8 :: "int list \<Rightarrow> string" where
  "narrow8 rs = concat (map utf8encode rs)"

lemma narrow8_simps [simp]: "narrow8 [] = []" "narrow8 (r # rs) = utf8encode r @ narrow8 rs"
  by (simp_all add: narrow8_def)

lemma argv_loop_nil [simp]: "argv_loop [] s = s"
  by (simp add: argv_loop.simps)

lemma argv_loop_rune:
  assumes "valid_rune r"
  shows "argv_loop (utf16encode r @ u) s =
     (case argv_step r s of
        (Av_skip, s) \<Rightarrow> argv_loop u s
      | (Av_put, s) \<Rightarrow> argv_loop u (put_char r s)
      | (Av_back, s) \<Rightarrow> argv_loop (utf16encode r @ u) s)"
  using assms by (subst argv_loop.simps) (simp add: utf16.enc_nonempty next_unit_encoded)

lemma valid_encode: "valid_rune r \<Longrightarrow> utf8_bytes r = utf8encode r"
  by (simp add: utf8encode_def)

lemma special_valid [simp]: "valid_rune 0x22" "valid_rune 0x5c" "valid_rune 0x20"
  by (simp_all add: valid_rune_def)

section \<open>Quoting\<close>

text \<open>The documented rule for writing an argument: it is wrapped in quotes, backslashes before a
  quote are doubled and the quote escaped, and trailing backslashes are doubled. \<open>n\<close> is the
  number of backslashes read so far.\<close>

fun quote_body :: "nat \<Rightarrow> int list \<Rightarrow> int list" where
  "quote_body n [] = replicate (2 * n) 0x5c"
| "quote_body n (c # cs) =
     (if c = 0x5c then quote_body (n + 1) cs
      else if c = 0x22 then replicate (2 * n + 1) 0x5c @ 0x22 # quote_body 0 cs
      else replicate n 0x5c @ c # quote_body 0 cs)"

definition quote_arg :: "int list \<Rightarrow> int list" where
  "quote_arg cs = 0x22 # quote_body 0 cs @ [0x22]"

definition quote_line :: "int list \<Rightarrow> int list list \<Rightarrow> int list" where
  "quote_line prog args = 0x22 # prog @ 0x22 # concat (map (\<lambda>a. 0x20 # quote_arg a) args)"

abbreviation bs :: "nat \<Rightarrow> string" where
  "bs n \<equiv> replicate n bslash"

lemma bs_bytes [simp]: "utf8_bytes 0x5c = [bslash]" "utf8encode 0x5c = [bslash]" "utf8_bytes 0x22 = [CHR 0x22]"
    "utf8encode 0x22 = [CHR 0x22]"
  by (simp_all add: utf8_bytes_def utf8encode_def valid_rune_def char_of_def)

lemma take_bs [simp]: "k \<le> n \<Longrightarrow> take k (bs n) = bs k" "k \<le> n + 1 \<Longrightarrow> take k (bslash # bs n) = bs k"
  using take_replicate[of k "n + 1" bslash] by (simp_all add: take_replicate min_def)

lemma slashes_in_4:
  "argv_loop (wide (replicate k 0x5c) @ u) (st_of as a 4 n) = argv_loop u (st_of as (a @ bs k) 4 (n + k))"
proof (induction k arbitrary: a n)
  case (Suc k)
  show ?case
    using Suc[of "a @ [bslash]" "n + 1"] by (simp add: argv_loop_rune argv_step_def replicate_app_Cons_same)
qed simp

text \<open>Reading backslashes inside quotes ends in state 4, with all of them written.\<close>

lemma slashes_in_2:
  "0 < k \<Longrightarrow> argv_loop (wide (replicate k 0x5c) @ u) (st_of as a 2 n) = argv_loop u (st_of as (a @ bs k) 4 k)"
proof (cases k)
  case (Suc j)
  show ?thesis
    using slashes_in_4[of j u as "a @ [bslash]" 1] by (simp add: Suc argv_loop_rune argv_step_def)
qed simp

lemma plain_in_2:
  assumes "valid_rune c" "c \<noteq> 0x5c" "c \<noteq> 0x22"
  shows "argv_loop (wide (replicate k 0x5c @ [c]) @ u) (st_of as a 2 n) =
    argv_loop u (st_of as (a @ bs k @ utf8encode c) 2 (if k = 0 then n else k))"
proof (cases k)
  case 0
  then show ?thesis using assms by (simp add: argv_loop_rune argv_step_def valid_encode)
next
  case (Suc j)
  have "argv_loop (utf16encode c @ u) (st_of as (a @ bs k) 4 k) = argv_loop (utf16encode c @ u) (st_of as (a @ bs k) 2 k)"
    using assms by (simp add: argv_loop_rune[OF assms(1), of u "st_of as (a @ bs k) 4 k"] argv_step_def)
  also have "\<dots> = argv_loop u (st_of as (a @ bs k @ utf8encode c) 2 k)"
    using assms by (simp add: argv_loop_rune argv_step_def valid_encode)
  finally show ?thesis using slashes_in_2[of k "utf16encode c @ u" as a n] Suc by simp
qed

lemma escaped_quote_in_2:
  "argv_loop (wide (replicate (2 * k + 1) 0x5c @ [0x22]) @ u) (st_of as a 2 n) =
   argv_loop u (st_of as (a @ bs k @ [CHR 0x22]) 2 (2 * k + 1))"
proof -
  define m where "m = 2 * k + 1"
  have m: "odd m" "Suc m div 2 = k + 1" "k \<le> m" "m - Suc k = k" "0 < m" by (simp_all add: m_def)
  have "argv_loop (utf16encode 0x22 @ u) (st_of as (a @ bs m) 4 m) = argv_loop u (st_of as (a @ bs k @ [CHR 0x22]) 2 m)"
    using m by (simp add: argv_loop_rune[OF special_valid(1), of u "st_of as (a @ bs m) 4 m"] argv_step_def)
  then show ?thesis
    using slashes_in_2[OF m(5), of "utf16encode 0x22 @ u" as a n] unfolding m_def[symmetric] by simp
qed

lemma closing_quote_in_2:
  "argv_loop (wide (replicate (2 * k) 0x5c @ [0x22]) @ u) (st_of as a 2 n) =
   argv_loop u (st_of as (a @ bs k) 5 (if k = 0 then n else 2 * k))"
proof (cases "k = 0")
  case True
  then show ?thesis by (simp add: argv_loop_rune argv_step_def)
next
  case False
  have "take (length (a @ bs (2 * k)) - (1 + 2 * k) div 2) (a @ bs (2 * k)) = a @ bs k"
    by (simp add: take_replicate)
  then have "argv_loop (utf16encode 0x22 @ u) (st_of as (a @ bs (2 * k)) 4 (2 * k)) =
      argv_loop (utf16encode 0x22 @ u) (st_of as (a @ bs k) 2 (2 * k))"
    by (simp add: argv_loop_rune[OF special_valid(1), of u "st_of as (a @ bs (2 * k)) 4 (2 * k)"] argv_step_def)
  also have "\<dots> = argv_loop u (st_of as (a @ bs k) 5 (2 * k))"
    by (simp add: argv_loop_rune argv_step_def)
  finally show ?thesis
    using slashes_in_2[of "2 * k" "utf16encode 0x22 @ u" as a n] False by simp
qed

lemma quoted_body:
  "list_all valid_rune cs \<Longrightarrow>
   \<exists>m. argv_loop (wide (quote_body k cs @ [0x22]) @ u) (st_of as a 2 n) =
     argv_loop u (st_of as (a @ bs k @ narrow8 cs) 5 m)"
proof (induction cs arbitrary: k a n)
  case Nil
  show ?case using closing_quote_in_2[of k u as a n] by auto
next
  case (Cons c cs)
  let ?rest = "\<lambda>k. wide (quote_body k cs @ [0x22]) @ u"
  consider "c = 0x5c" | "c = 0x22" | "c \<noteq> 0x5c" "c \<noteq> 0x22" by blast
  then show ?case
  proof cases
    case 1
    then show ?thesis
      using Cons.IH[of "k + 1" a n] Cons.prems by (simp add: replicate_app_Cons_same)
  next
    case 2
    then show ?thesis
      using Cons.IH[of 0 "a @ bs k @ [CHR 0x22]" "2 * k + 1"] Cons.prems escaped_quote_in_2[of k "?rest 0" as a n]
      by simp
  next
    case 3
    then show ?thesis
      using Cons.IH[of 0 "a @ bs k @ utf8encode c" "if k = 0 then n else k"] Cons.prems
        plain_in_2[of c k "?rest 0" as a n] by simp
  qed
qed

text \<open>After the closing quote of an argument comes the end or a space.\<close>

lemma quoted_args:
  "list_all (list_all valid_rune) args \<Longrightarrow> q = 0 \<or> q = 5 \<Longrightarrow>
   av_args (argv_loop (wide (concat (map (\<lambda>a. 0x20 # quote_arg a) args))) (st_of as a q n)) =
   as @ a # map narrow8 args"
proof (induction args arbitrary: as a q n)
  case (Cons x xs)
  let ?more = "wide (concat (map (\<lambda>a. 0x20 # quote_arg a) xs))"
  let ?u = "wide (quote_body 0 x @ [0x22]) @ ?more"
  have space: "argv_loop (utf16encode 0x20 @ v) (st_of as a q n) = argv_loop v (st_of as a 0 n)" for v
  proof -
    have "argv_loop (utf16encode 0x20 @ v) (st_of as a 1 n) = argv_loop v (st_of as a 0 n)"
      "argv_loop (utf16encode 0x20 @ v) (st_of as a 0 n) = argv_loop v (st_of as a 0 n)"
      by (simp_all add: argv_loop_rune argv_step_def)
    then show ?thesis
      using Cons.prems(2) argv_loop_rune[of 32 v "st_of as a 5 n"] by (auto simp: argv_step_def)
  qed
  have "argv_loop (wide (concat (map (\<lambda>a. 0x20 # quote_arg a) (x # xs)))) (st_of as a q n) =
      argv_loop (utf16encode 0x22 @ ?u) (st_of as a 0 n)"
    using space[of "utf16encode 0x22 @ ?u"] by (simp add: quote_arg_def)
  also have "\<dots> = argv_loop ?u (st_of (as @ [a]) [] 2 n)"
    by (simp add: argv_loop_rune[OF special_valid(1), of ?u "st_of as a 0 n"] argv_step_def del: wide_simps)
  finally obtain m where
    "argv_loop (wide (concat (map (\<lambda>a. 0x20 # quote_arg a) (x # xs)))) (st_of as a q n) =
      argv_loop ?more (st_of (as @ [a]) (narrow8 x) 5 m)"
    using quoted_body[of x 0 ?more "as @ [a]" "[]" n] Cons.prems(1) by auto
  then show ?case using Cons.IH[of 5 "as @ [a]" "narrow8 x" m] Cons.prems(1) by simp
qed simp

lemma program_name:
  "list_all valid_rune p \<Longrightarrow> 0x22 \<notin> set p \<Longrightarrow>
   argv_loop (wide (p @ [0x22]) @ u) (st_of as a 8 n) = argv_loop u (st_of as (a @ narrow8 p) 0 n)"
  by (induction p arbitrary: a) (simp_all add: argv_loop_rune argv_step_def valid_encode)

lemma argv_of_quote_line:
  assumes "list_all valid_rune prog" "0x22 \<notin> set prog" "list_all (list_all valid_rune) args"
  shows "cmdline_to_argv8 (wide (quote_line prog args)) = narrow8 prog # map narrow8 args"
proof -
  let ?more = "wide (concat (map (\<lambda>a. 0x20 # quote_arg a) args))"
  have i: "argv_init = st_of [] [] 6 0" by (simp add: argv_init_def st_of_def)
  have "argv_loop (wide (quote_line prog args)) argv_init = argv_loop (wide (prog @ [0x22]) @ ?more) (st_of [] [] 8 0)"
    by (simp add: quote_line_def i argv_loop_rune[OF special_valid(1)] argv_step_def)
  then show ?thesis
    using program_name[OF assms(1,2), of ?more "[]" "[]" 0] quoted_args[OF assms(3), of 0 "[]" "narrow8 prog" 0]
    by (simp add: cmdline_to_argv8_def)
qed

text \<open>\<open>argc\<close> is always positive.\<close>

lemma argv_step_args: "av_args s \<noteq> [] \<Longrightarrow> av_args (snd (argv_step c s)) \<noteq> []"
  by (simp add: argv_step_def open_arg_def upd_last_def Let_def)

lemma argv_nonempty: "av_args s \<noteq> [] \<Longrightarrow> av_args (argv_loop cmd s) \<noteq> []"
proof (induction cmd s rule: argv_loop.induct)
  case (1 cmd s)
  show ?case
  proof (cases "cmd = []")
    case False
    obtain c rest where n: "next_unit cmd = (c, rest)" by fastforce
    obtain m s' where st: "argv_step c s = (m, s')" by fastforce
    have a: "av_args s' \<noteq> []" "av_args (put_char c s') \<noteq> []"
      using argv_step_args[OF 1(4), of c] by (auto simp: st put_char_def upd_last_def)
    show ?thesis
      using 1(1)[OF False n[symmetric] refl st[symmetric]] 1(2)[OF False n[symmetric] refl st[symmetric]]
        1(3)[OF False n[symmetric] refl st[symmetric]] a False
      by (cases m) (simp_all add: argv_loop.simps[of cmd s] n st)
  qed (simp add: 1(4))
qed

end
