(* ===== verification/Pkg_Win32.thy ===== *)
theory Pkg_Win32
  imports Pkg_Config Cmdline_Argv
begin

text \<open>
  The Windows layer of \<open>src/src/pkg-config.c\<close> around \<open>uconfig\<close>: the configuration that
  \<open>mainCRTStartup\<close> makes from the environment, the module's path and the command line, the
  files it maps, and \<open>os_write\<close>, which translates what goes to a console. Windows itself is
  the record \<open>win_sys\<close>; a write returns whether it succeeded and a new world.
\<close>

section \<open>Model\<close>

record win_sys =
  w_environ :: "string \<Rightarrow> int list option"
  w_exe :: "int list"
  w_cmdline :: "int list"
  w_read :: "int list \<Rightarrow> string option"
  w_find :: "int list \<Rightarrow> int list list"
  w_space :: nat

abbreviation wide_cstr :: "string \<Rightarrow> int list" where
  "wide_cstr s \<equiv> takeWhile (\<lambda>u. u \<noteq> 0) (towide s)"

definition fromenv :: "win_sys \<Rightarrow> string \<Rightarrow> string option" where
  "fromenv w name = map_option fromwide (w_environ w name)"

definition normalize_path :: "string \<Rightarrow> string" where
  "normalize_path path = map (\<lambda>c. if c = bslash then slash else c) path"

definition installdir :: "win_sys \<Rightarrow> string" where
  "installdir w = pc_dirname (pc_dirname (normalize_path (fromwide (w_exe w))))"

definition append2 :: "string \<Rightarrow> string \<Rightarrow> string" where
  "append2 pre suf = pre @ suf"

text \<open>\<open>fixedpath\<close> shares the bytes of \<open>pc_path\<close> when the variable is not set, so normalising it
  normalises both.\<close>

definition win_config :: "win_sys \<Rightarrow> pc_conf" where
  "win_config w =
     (let base = installdir w;
          pc_path = makepath base ''/lib/pkgconfig'' ''/share/pkgconfig'';
          inc = append2 base ''/include'';
          lib = append2 base ''/lib'';
          fixed = fromenv w ''PKG_CONFIG_LIBDIR''
      in \<lparr>cf_args = tl (cmdline_to_argv8 (w_cmdline w)),
          cf_pc_path = (if fixed = None then normalize_path pc_path else pc_path),
          cf_pc_sysincpath = inc,
          cf_pc_syslibpath = lib,
          cf_envpath = normalize_path (case fromenv w ''PKG_CONFIG_PATH'' of None \<Rightarrow> [] | Some p \<Rightarrow> p),
          cf_fixedpath = normalize_path (case fixed of None \<Rightarrow> pc_path | Some p \<Rightarrow> p),
          cf_top_builddir = map_option normalize_path (fromenv w ''PKG_CONFIG_TOP_BUILD_DIR''),
          cf_sys_incpath = inc,
          cf_sys_libpath = lib,
          cf_print_sysinc = fromenv w ''PKG_CONFIG_ALLOW_SYSTEM_CFLAGS'',
          cf_print_syslib = fromenv w ''PKG_CONFIG_ALLOW_SYSTEM_LIBS'',
          cf_define_prefix = True,
          cf_haslisting = True,
          cf_delim = CHR '';''\<rparr>)"

text \<open>A file that fills the arena (\<open>w_space\<close>) is taken as too large.\<close>

definition win_mapfile :: "win_sys \<Rightarrow> string \<Rightarrow> filemap" where
  "win_mapfile w path = (case w_read w (wide_cstr path) of
      None \<Rightarrow> Map_NOTFOUND
    | Some data \<Rightarrow> if w_space w \<le> length data then Map_READERR else Map_OK data)"

definition win_listing :: "win_sys \<Rightarrow> string \<Rightarrow> string list" where
  "win_listing w path = map fromwide (w_find w (wide_cstr (path @ [bslash] @ ''*.pc'')))"

definition win_os :: "win_sys \<Rightarrow> pc_os" where
  "win_os w = \<lparr>os_mapfile = win_mapfile w, os_listing = win_listing w\<rparr>"

text \<open>What the program writes to its two handles and its exit code while every write succeeds:
  \<open>os_fail\<close> exits with 1, otherwise the code reports write errors.\<close>

definition win_main :: "win_sys \<Rightarrow> string \<times> string \<times> int" where
  "win_main w = pc_run (win_os w) (win_config w)"

subsection \<open>Writing to a console\<close>

record u16buf =
  ub_buf :: "int list"
  ub_err :: bool
  ub_sent :: "int list list"

type_synonym 'w console = "u16buf \<times> 'w"

definition flushconsole :: "(int list \<Rightarrow> 'w \<Rightarrow> bool \<times> 'w) \<Rightarrow> 'w console \<Rightarrow> 'w console" where
  "flushconsole wc = (\<lambda>(b, w).
     if \<not> ub_err b \<and> ub_buf b \<noteq> [] then
       let (ok, w) = wc (ub_buf b) w in
       (b\<lparr>ub_err := \<not> ok, ub_buf := [], ub_sent := ub_sent b @ (if ok then [ub_buf b] else [])\<rparr>, w)
     else (b\<lparr>ub_buf := []\<rparr>, w))"

definition printc32 :: "(int list \<Rightarrow> 'w \<Rightarrow> bool \<times> 'w) \<Rightarrow> int \<Rightarrow> 'w console \<Rightarrow> 'w console" where
  "printc32 wc rune st =
     (let (b, w) = (if 2 ^ 8 - 2 < length (ub_buf (fst st)) then flushconsole wc st else st)
      in (b\<lparr>ub_buf := ub_buf b @ utf16encode rune\<rparr>, w))"

function print_runes :: "(int list \<Rightarrow> 'w \<Rightarrow> bool \<times> 'w) \<Rightarrow> string \<Rightarrow> 'w console \<Rightarrow> 'w console" where
  "print_runes wc tail st =
     (if tail = [] then st
      else let (rune, tail) = utf8decode tail in print_runes wc tail (printc32 wc rune st))"
  by pat_completeness auto
termination
  by (relation "measure (\<lambda>(wc, tail, st). length tail)") (auto dest: utf8decode_shorter[OF _ sym])

declare print_runes.simps [simp del]

definition new_u16buf :: u16buf where
  "new_u16buf = \<lparr>ub_buf = [], ub_err = False, ub_sent = []\<rparr>"

text \<open>\<open>os_write\<close>: nothing after an error of the handle; otherwise the translated chunks of a
  console, or one write of the bytes.\<close>

definition os_write_console :: "(int list \<Rightarrow> 'w \<Rightarrow> bool \<times> 'w) \<Rightarrow> bool \<Rightarrow> string \<Rightarrow> 'w \<Rightarrow> u16buf \<times> 'w" where
  "os_write_console wc err s w =
     (if err then (new_u16buf\<lparr>ub_err := True\<rparr>, w)
      else flushconsole wc (print_runes wc s (new_u16buf, w)))"

definition os_write_file :: "(string \<Rightarrow> 'w \<Rightarrow> bool \<times> 'w) \<Rightarrow> bool \<Rightarrow> string \<Rightarrow> 'w \<Rightarrow> bool \<times> 'w" where
  "os_write_file wr err s w = (if err then (True, w) else apfst Not (wr s w))"

section \<open>Lemmas: the console\<close>

text \<open>Whole characters, in chunks of at most 256 units.\<close>

definition whole :: "int list \<Rightarrow> bool" where
  "whole us \<longleftrightarrow> length us \<le> 2 ^ 8 \<and> (\<exists>rs. list_all valid_rune rs \<and> us = concat (map utf16encode rs))"

definition console_ok :: "u16buf \<Rightarrow> bool" where
  "console_ok b \<longleftrightarrow> whole (ub_buf b) \<and> list_all whole (ub_sent b)"

definition console_text :: "u16buf \<Rightarrow> int list" where
  "console_text b = concat (ub_sent b) @ ub_buf b"

lemma whole_nil: "whole []"
  by (auto simp: whole_def intro: exI[of _ "[]"])

lemma flushconsole_spec:
  assumes "console_ok (fst st)"
  shows "console_ok (fst (flushconsole wc st))" "ub_buf (fst (flushconsole wc st)) = []"
    "\<not> ub_err (fst (flushconsole wc st)) \<Longrightarrow>
       \<not> ub_err (fst st) \<and> console_text (fst (flushconsole wc st)) = console_text (fst st)"
  using assms by (cases st; auto simp: flushconsole_def console_ok_def console_text_def whole_nil split: prod.splits)+

lemma encode_short: "length (utf16encode r) \<le> 2"
  by (simp add: utf16encode_def Let_def)

lemma whole_snoc:
  assumes "whole us" "length us \<le> 2 ^ 8 - 2" "valid_rune r"
  shows "whole (us @ utf16encode r)"
proof -
  from assms(1) obtain rs where "list_all valid_rune rs" "us = concat (map utf16encode rs)"
    by (auto simp: whole_def)
  then have "list_all valid_rune (rs @ [r])" "us @ utf16encode r = concat (map utf16encode (rs @ [r]))"
    using assms(3) by simp_all
  moreover have "length (us @ utf16encode r) \<le> 2 ^ 8" using assms(2) encode_short[of r] by simp
  ultimately show ?thesis unfolding whole_def by blast
qed

lemma printc32_spec:
  assumes "console_ok (fst st)" "valid_rune r"
  shows "console_ok (fst (printc32 wc r st)) \<and> (\<not> ub_err (fst (printc32 wc r st)) \<longrightarrow>
    \<not> ub_err (fst st) \<and> console_text (fst (printc32 wc r st)) = console_text (fst st) @ utf16encode r)"
proof -
  define st1 where "st1 = (if 2 ^ 8 - 2 < length (ub_buf (fst st)) then flushconsole wc st else st)"
  have s1: "console_ok (fst st1)" "length (ub_buf (fst st1)) \<le> 2 ^ 8 - 2"
    "\<not> ub_err (fst st1) \<Longrightarrow> \<not> ub_err (fst st) \<and> console_text (fst st1) = console_text (fst st)"
    using flushconsole_spec[OF assms(1), of wc] assms(1) by (auto simp: st1_def)
  have p: "printc32 wc r st = ((fst st1)\<lparr>ub_buf := ub_buf (fst st1) @ utf16encode r\<rparr>, snd st1)"
    by (simp only: printc32_def st1_def Let_def case_prod_beta)
  show ?thesis
    using s1 whole_snoc[OF _ s1(2) assms(2)] unfolding p by (simp add: console_ok_def console_text_def)
qed

lemma print_runes_spec:
  "console_ok (fst st) \<Longrightarrow> console_ok (fst (print_runes wc s st)) \<and> (\<not> ub_err (fst (print_runes wc s st)) \<longrightarrow>
    \<not> ub_err (fst st) \<and> console_text (fst (print_runes wc s st)) = console_text (fst st) @ towide s)"
proof (induction wc s st rule: print_runes.induct)
  case (1 wc s st)
  show ?case
  proof (cases "s = []")
    case True
    then show ?thesis using 1(2) by (simp add: print_runes.simps towide.simps)
  next
    case False
    obtain r t where rt: "utf8decode s = (r, t)" by fastforce
    have v: "valid_rune r" using utf8_decode_valid[of s] by (simp add: rt)
    note p = printc32_spec[OF 1(2) v, of wc]
    have "print_runes wc s st = print_runes wc t (printc32 wc r st)" "towide s = utf16encode r @ towide t"
      using False by (simp_all add: print_runes.simps[of wc s] towide.simps[of s] rt)
    then show ?thesis using 1(1)[OF False rt[symmetric] refl] p by auto
  qed
qed

lemma console_chunks:
  assumes "os_write_console wc err s w = (b, w')" "\<not> ub_err b"
  shows "\<not> err \<and> concat (ub_sent b) = towide s \<and> list_all whole (ub_sent b)"
proof -
  have n: "console_ok new_u16buf" "console_text new_u16buf = []"
    by (simp_all add: console_ok_def console_text_def new_u16buf_def whole_nil)
  have e: "\<not> err" using assms by (auto simp: os_write_console_def new_u16buf_def)
  then have b: "flushconsole wc (print_runes wc s (new_u16buf, w)) = (b, w')"
    using assms(1) by (simp add: os_write_console_def)
  define st where "st = print_runes wc s (new_u16buf, w)"
  have st: "console_ok (fst st)" "\<not> ub_err (fst st) \<Longrightarrow> console_text (fst st) = towide s"
    using print_runes_spec[of "(new_u16buf, w)" wc s] n by (simp_all add: st_def)
  have "console_ok b" "ub_buf b = []" "console_text b = console_text (fst st)" "\<not> ub_err (fst st)"
    using flushconsole_spec[OF st(1), of wc] b assms(2) by (simp_all add: st_def)
  then show ?thesis using e st(2) by (simp add: console_text_def console_ok_def)
qed

section \<open>Lemmas: the program\<close>

lemma normalize_path_idem [simp]: "normalize_path (normalize_path p) = normalize_path p"
  by (simp add: normalize_path_def)

lemma no_backslash: "bslash \<notin> set (normalize_path p)"
  by (auto simp: normalize_path_def)

text \<open>The answer of \<open>pkg-config --exists\<close>, from the command line to the exit code.\<close>

lemma exists_from_cmdline:
  assumes "w_cmdline w = wide (quote_line prog [map of_char ''--exists'', name])"
    "list_all valid_rune prog" "0x22 \<notin> set prog" "list_all valid_rune name" "plain_arg (narrow8 name)"
  shows "win_main w =
    ([], [], if can_load (query_processor (win_os w) (win_config w)) (narrow8 name) then 0 else 1)"
proof -
  have a: "narrow8 (map of_char ''--exists'') = ''--exists''"
    unfolding narrow8_def by (rule ascii_wide[symmetric]) simp
  have v: "list_all valid_rune (map of_char ''--exists'')" by (simp add: valid_rune_def)
  have "cmdline_to_argv8 (w_cmdline w) = [narrow8 prog, ''--exists'', narrow8 name]"
    unfolding assms(1) using argv_of_quote_line[OF assms(2,3), of "[map of_char ''--exists'', name]"] v assms(4) a
    by simp
  then have "cf_args (win_config w) = [''--exists'', narrow8 name]"
    by (simp add: win_config_def Let_def)
  from exists_answer[OF assms(5) this] show ?thesis by (simp add: win_main_def)
qed

end
