(* ===== verification/Patch_Diff.thy ===== *)
theory Patch_Diff
  imports Patch_Refresh
begin

text \<open>
  The command diff (\<open>cmd_patch.cpp\<close> part of \<open>src/src/quilt.cpp\<close>): its options,
  and its four forms: the changes of a patch, of a range of patches, since the snapshot, and
  since the last refresh, where the stored patch is applied to the backups in a temporary
  directory.
\<close>

section \<open>Options\<close>

record diff_opts =
  df_patch :: string
  df_p_format :: "string option"
  df_files :: "string list"
  df_no_timestamps :: bool
  df_no_index :: bool
  df_since :: bool
  df_snapshot :: bool
  df_reverse :: bool
  df_utility :: string
  df_combine :: string
  df_type :: string
  df_context :: string
  df_algorithm :: diff_algorithm

definition diff_defaults :: "'w platform \<Rightarrow> 'w \<Rightarrow> diff_algorithm \<Rightarrow> diff_opts" where
  "diff_defaults P w a =
     \<lparr>df_patch = [], df_p_format = None, df_files = [],
      df_no_timestamps = (get_env P ''QUILT_NO_DIFF_TIMESTAMPS'' w \<noteq> []),
      df_no_index = (get_env P ''QUILT_NO_DIFF_INDEX'' w \<noteq> []), df_since = False, df_snapshot = False,
      df_reverse = False, df_utility = [], df_combine = [], df_type = ''u'', df_context = [], df_algorithm = a\<rparr>"

definition diff_color :: "'w platform \<Rightarrow> string \<Rightarrow> diff_opts \<Rightarrow> 'w qs \<Rightarrow> (diff_opts, 'w qs) res" where
  "diff_color P arg u s =
     (if starts_with arg ''--color='' \<and> drop 8 arg \<notin> {''always'', ''auto'', ''never''} then bad_color P (drop 8 arg) s
      else Go u s)"

definition diff_flag :: "'w platform \<Rightarrow> string \<Rightarrow> diff_opts \<Rightarrow> 'w qs \<Rightarrow> (diff_opts, 'w qs) res" where
  "diff_flag P arg u s =
     (if starts_with arg ''-p'' \<and> length arg > 2 then Go (u\<lparr>df_p_format := Some (drop 2 arg)\<rparr>) s
      else if arg = ''-u'' then Go (u\<lparr>df_type := ''u'', df_context := []\<rparr>) s
      else if arg = ''-c'' then Go (u\<lparr>df_type := ''c'', df_context := []\<rparr>) s
      else if starts_with arg ''-C'' then Go (u\<lparr>df_type := ''C'', df_context := drop 2 arg\<rparr>) s
      else if starts_with arg ''-U'' then Go (u\<lparr>df_type := ''U'', df_context := drop 2 arg\<rparr>) s
      else if arg = ''-z'' then Go (u\<lparr>df_since := True\<rparr>) s
      else if arg = ''--snapshot'' then Go (u\<lparr>df_snapshot := True\<rparr>) s
      else if arg = ''-R'' then Go (u\<lparr>df_reverse := True\<rparr>) s
      else if arg = ''--no-timestamps'' \<or> arg = ''--no-timestamp'' then Go (u\<lparr>df_no_timestamps := True\<rparr>) s
      else if arg = ''--no-index'' then Go (u\<lparr>df_no_index := True\<rparr>) s
      else if arg = ''--sort'' then Go u s
      else if starts_with arg ''--combine='' then Go (u\<lparr>df_combine := drop 10 arg\<rparr>) s
      else if starts_with arg ''--diff='' then Go (u\<lparr>df_utility := drop 7 arg\<rparr>) s
      else if starts_with arg ''--diff-algorithm='' then
        (case parse_diff_algorithm (drop 17 arg) of
           None \<Rightarrow> bad_algorithm P (drop 17 arg) s | Some a \<Rightarrow> Go (u\<lparr>df_algorithm := a\<rparr>) s)
      else if arg = ''--color'' \<or> starts_with arg ''--color='' then diff_color P arg u s
      else if is_option arg then unrecognized P arg s
      else Go (u\<lparr>df_files := df_files u @ [subdir_path (fst s) arg]\<rparr>) s)"

definition diff_value ::
  "'w platform \<Rightarrow> string \<Rightarrow> string \<Rightarrow> diff_opts \<Rightarrow> 'w qs \<Rightarrow> (diff_opts, 'w qs) res option" where
  "diff_value P arg v u s =
     (if arg = ''-P'' then Some (Go (u\<lparr>df_patch := strip_patches_prefix (fst s) v\<rparr>) s)
      else if arg = ''-p'' then Some (Go (u\<lparr>df_p_format := Some v\<rparr>) s)
      else if arg = ''-C'' then Some (Go (u\<lparr>df_type := ''C'', df_context := v\<rparr>) s)
      else if arg = ''-U'' then Some (Go (u\<lparr>df_type := ''U'', df_context := v\<rparr>) s)
      else if arg = ''--combine'' then Some (Go (u\<lparr>df_combine := v\<rparr>) s)
      else if arg = ''--diff-algorithm'' then
        Some (case parse_diff_algorithm v of
                None \<Rightarrow> bad_algorithm P v s | Some a \<Rightarrow> Go (u\<lparr>df_algorithm := a\<rparr>) s)
      else None)"

function diff_args :: "'w platform \<Rightarrow> string list \<Rightarrow> diff_opts \<Rightarrow> 'w qs \<Rightarrow> (diff_opts, 'w qs) res" where
  "diff_args P [] u s = Go u s"
| "diff_args P (arg # args) u s =
     (case (if args = [] then None else diff_value P arg (hd args) u s) of
        Some r \<Rightarrow> bind_res r (\<lambda>u s. diff_args P (tl args) u s)
      | None \<Rightarrow> bind_res (diff_flag P arg u s) (\<lambda>u s. diff_args P args u s))"
  by pat_completeness auto
termination
  by (relation "measure (\<lambda>(P, args, u, s). length args)") auto

definition diff_conflicts :: "'w platform \<Rightarrow> diff_opts \<Rightarrow> 'w qs \<Rightarrow> (unit, 'w qs) res" where
  "diff_conflicts P u s =
     (if df_since u \<and> df_snapshot u then fail P ''Options `--snapshot' and `-z' cannot be combined.'' s
      else if df_combine u \<noteq> [] \<and> df_since u then fail P ''Options `--combine' and `-z' cannot be combined.'' s
      else if df_combine u \<noteq> [] \<and> df_snapshot u then fail P ''Options `--combine' and `--snapshot' cannot be combined.'' s
      else Go () s)"

text \<open>The command line of an external diff, which always prints the unified format.\<close>

definition diff_command :: "diff_opts \<Rightarrow> string list" where
  "diff_command u =
     (if df_utility u = [] then []
      else split_on_whitespace (df_utility u) @
        (if df_type u = ''U'' \<or> df_type u = ''C'' then [''-U'', df_context u] else [''-u'']))"

definition converts :: "diff_opts \<Rightarrow> bool" where
  "converts u \<longleftrightarrow> df_utility u \<noteq> [] \<and> (df_type u = ''c'' \<or> df_type u = ''C'')"

definition diff_how_of :: "diff_opts \<Rightarrow> string \<Rightarrow> diff_format \<times> int \<Rightarrow> diff_how" where
  "diff_how_of u p_format shape =
     \<lparr>h_p_format = p_format, h_reverse = df_reverse u, h_cmd = diff_command u, h_context = snd shape,
      h_format = fst shape, h_no_timestamps = df_no_timestamps u, h_algorithm = df_algorithm u\<rparr>"

section \<open>Output\<close>

definition emit_diff :: "'w platform \<Rightarrow> bool \<Rightarrow> string \<Rightarrow> 'w \<Rightarrow> 'w option" where
  "emit_diff P convert d w =
     (if convert then map_option (\<lambda>t. out P t w) (unified_to_context d) else Some (out P d w))"

definition print_diff :: "'w platform \<Rightarrow> diff_opts \<Rightarrow> quilt_state \<Rightarrow> string \<Rightarrow> string \<Rightarrow> string \<Rightarrow> 'w \<Rightarrow> 'w option" where
  "print_diff P u q p_format file diff_out w =
     (if diff_out = [] then Some w
      else
        let w = (if df_no_index u then w
                 else out P (''==================================================================='' @ [nl])
                   (out P (''Index: '' @ index_name q p_format file @ [nl]) w))
        in emit_diff P (converts u) diff_out w)"

text \<open>The diff of two paths, printed.\<close>

definition show_diff ::
  "'w platform \<Rightarrow> diff_opts \<Rightarrow> diff_how \<Rightarrow> string \<Rightarrow> string \<times> bool \<Rightarrow> string \<times> bool \<Rightarrow> 'w qs \<Rightarrow> (unit, 'w qs) res" where
  "show_diff P u h file old new = (\<lambda>(q, w).
     case generate_path_diff P q h file old new w of
       None \<Rightarrow> Abort
     | Some (diff_out, w) \<Rightarrow>
         (case print_diff P u q (h_p_format h) file diff_out w of None \<Rightarrow> Abort | Some w \<Rightarrow> Go () (q, w)))"

text \<open>The new side of a file: the backup of the next patch above that has it, or the work
  file.\<close>

definition new_side_path :: "'w platform \<Rightarrow> quilt_state \<Rightarrow> string \<Rightarrow> string \<Rightarrow> 'w \<Rightarrow> string \<times> bool" where
  "new_side_path P q patch file w =
     (let shadowing = next_patch_for_file P q patch file w in
      if shadowing \<noteq> [] then (path_join (pc_patch_dir q shadowing) file, True)
      else (path_join (q_work_dir q) file, False))"

section \<open>The changes of a patch\<close>

fun diff_plain ::
  "'w platform \<Rightarrow> diff_opts \<Rightarrow> diff_how \<Rightarrow> string \<Rightarrow> bool \<Rightarrow> string list \<Rightarrow> 'w qs \<Rightarrow> (unit, 'w qs) res" where
  "diff_plain P u h patch warned [] s = Go () s"
| "diff_plain P u h patch warned (file # files) s =
     (let (q, w) = s;
          hidden = (next_patch_for_file P q patch file w \<noteq> []);
          new = new_side_path P q patch file w;
          w = (if hidden \<and> \<not> warned
               then err_line P (format_patch P q patch w) (err P ''Warning: more recent patches modify files in patch '' w)
               else w)
      in bind_res (show_diff P u h file (path_join (pc_patch_dir q patch) file, True) new (q, w))
           (\<lambda>_ s. diff_plain P u h patch (warned \<or> hidden) files s))"

section \<open>A range of patches\<close>

definition combine_start :: "diff_opts \<Rightarrow> quilt_state \<Rightarrow> string" where
  "combine_start u q =
     (if df_combine u = [] then [] else if df_combine u = ''-'' then hd (q_applied q)
      else strip_patches_prefix q (df_combine u))"

text \<open>The patches from the first of the range, none above the last one.\<close>

fun combine_range :: "string \<Rightarrow> string \<Rightarrow> bool \<Rightarrow> string list \<Rightarrow> string list" where
  "combine_range start patch in_range [] = []"
| "combine_range start patch in_range (a # as) =
     (let in_range = (in_range \<or> a = start)
      in (if in_range then [a] else []) @ (if a = patch then [] else combine_range start patch in_range as))"

definition diff_combine_file ::
  "'w platform \<Rightarrow> diff_opts \<Rightarrow> diff_how \<Rightarrow> string \<Rightarrow> string \<Rightarrow> 'w qs \<Rightarrow> (unit, 'w qs) res" where
  "diff_combine_file P u h patch file s =
     (let (q, w) = s;
          earliest = first_patch_for_file P q (combine_range (combine_start u q) patch False (q_applied q)) file w
      in if earliest = [] then Go () s
         else show_diff P u h file (path_join (pc_patch_dir q earliest) file, True) (new_side_path P q patch file w) s)"

section \<open>Since the snapshot\<close>

definition diff_snapshot_file ::
  "'w platform \<Rightarrow> diff_opts \<Rightarrow> diff_how \<Rightarrow> string \<Rightarrow> string \<Rightarrow> 'w qs \<Rightarrow> (unit, 'w qs) res" where
  "diff_snapshot_file P u h patch file s =
     (let (q, w) = s; snap = path_join (pc_patch_dir q snapshot_patch) file;
          first_patch = first_patch_for_file P q (patch_range_for_diff q patch) file w
      in if file_exists P snap w then show_diff P u h file (snap, True) (new_side_path P q patch file w) s
         else if first_patch = [] then Go () s
         else show_diff P u h file (path_join (pc_patch_dir q first_patch) file, True)
                (new_side_path P q patch file w) s)"

section \<open>Since the last refresh\<close>

text \<open>The hunks of a section under a plain header; nothing when it has none.\<close>

definition mini_patch :: "string \<Rightarrow> string \<Rightarrow> string option" where
  "mini_patch file section_text =
     (let hunks = dropWhile (\<lambda>l. \<not> starts_with l ''@@'') (split_lines section_text) in
      if hunks = [] then None
      else Some (''--- '' @ file @ [nl] @ ''+++ '' @ file @ [nl] @ unlines hunks))"

definition since_options :: patch_options where
  "since_options = default_options\<lparr>o_strip_level := 0, o_remove_empty := True, o_quiet := True\<rparr>"

text \<open>Applying the stored hunks in the temporary directory.\<close>

definition apply_stored :: "'w platform \<Rightarrow> string \<Rightarrow> string \<Rightarrow> 'w \<Rightarrow> 'w option" where
  "apply_stored P tmp_dir text w =
     (let saved_cwd = get_cwd P w; (ok, w) = set_cwd P tmp_dir w in
      if \<not> ok then Some w
      else map_option (\<lambda>(r, w). snd (set_cwd P saved_cwd w)) (run_patch P text since_options w))"

definition restore_refreshed ::
  "'w platform \<Rightarrow> quilt_state \<Rightarrow> (string \<rightharpoonup> string) \<Rightarrow> string \<Rightarrow> string \<Rightarrow> string \<Rightarrow> 'w \<Rightarrow> 'w option" where
  "restore_refreshed P q stored patch tmp_dir file w =
     (let backup = path_join (pc_patch_dir q patch) file; tmp_file = path_join tmp_dir file;
          dir = dirname tmp_file;
          w = (if \<not> is_directory P dir w then snd (make_dirs P dir w) else w);
          w = snd (write_file P tmp_file (if file_exists P backup w then read_file P backup w else []) w)
      in case stored file of
           None \<Rightarrow> Some w
         | Some section_text \<Rightarrow>
             if section_text = [] then Some w
             else (case mini_patch file section_text of
                     None \<Rightarrow> Some w | Some text \<Rightarrow> apply_stored P tmp_dir text w))"

definition since_labels :: "quilt_state \<Rightarrow> string \<Rightarrow> string \<Rightarrow> string \<times> string" where
  "since_labels q p_format file =
     (if p_format = ''ab'' then (''a/'' @ file, ''b/'' @ file)
      else if p_format = ''0'' then (file, file)
      else (basename (q_work_dir q) @ ''.orig/'' @ file, basename (q_work_dir q) @ ''/'' @ file))"

definition since_diff :: "'w platform \<Rightarrow> quilt_state \<Rightarrow> diff_how \<Rightarrow> string \<Rightarrow> string \<Rightarrow> 'w \<Rightarrow> (string \<times> 'w) option" where
  "since_diff P q h file tmp_file w =
     (let working = path_join (q_work_dir q) file; (old_label, new_label) = since_labels q (h_p_format h) file;
          new_f = (if \<not> file_exists P working w then ''/dev/null'' else working);
          (old_f, new_f) = (if h_reverse h then (new_f, tmp_file) else (tmp_file, new_f))
      in if h_cmd h = [] then map_option (\<lambda>t. (t, w)) (inner_diff P h old_f new_f old_label new_label w)
         else
           let (result, w) = outer_diff P h old_f new_f old_label new_label w
           in Some (if pr_exit_code result = 1 then pr_out result else [], w))"

definition diff_since_file ::
  "'w platform \<Rightarrow> diff_opts \<Rightarrow> diff_how \<Rightarrow> (string \<rightharpoonup> string) \<Rightarrow> string \<Rightarrow> string \<Rightarrow> string \<Rightarrow>
   'w qs \<Rightarrow> (unit, 'w qs) res" where
  "diff_since_file P u h stored patch tmp_dir file = (\<lambda>(q, w).
     let tmp_file = path_join tmp_dir file in
     case restore_refreshed P q stored patch tmp_dir file w of
       None \<Rightarrow> Abort
     | Some w \<Rightarrow>
         if \<not> file_exists P (path_join (q_work_dir q) file) w \<and> \<not> file_exists P tmp_file w then Go () (q, w)
         else (case since_diff P q h file tmp_file w of
                 None \<Rightarrow> Abort
               | Some (diff_out, w) \<Rightarrow>
                   (case print_diff P u q (h_p_format h) file diff_out w of None \<Rightarrow> Abort | Some w \<Rightarrow> Go () (q, w))))"

definition stored_sections :: "'w platform \<Rightarrow> quilt_state \<Rightarrow> string \<Rightarrow> 'w \<Rightarrow> (string \<rightharpoonup> string)" where
  "stored_sections P q patch w =
     (if file_exists P (patch_path q patch) w then split_patch_by_file (read_file P (patch_path q patch) w)
      else Map.empty)"

definition diff_since ::
  "'w platform \<Rightarrow> diff_opts \<Rightarrow> diff_how \<Rightarrow> string \<Rightarrow> string list \<Rightarrow> 'w qs \<Rightarrow> (unit, 'w qs) res" where
  "diff_since P u h patch tracked = (\<lambda>(q, w).
     let stored = stored_sections P q patch w; (tmp_dir, w) = make_temp_dir P w in
     if tmp_dir = [] then fail P ''Failed to create temp directory'' (q, w)
     else bind_res (each (diff_since_file P u h stored patch tmp_dir) tracked (q, w))
            (\<lambda>_ s. Go () (world (\<lambda>w. snd (delete_dir_recursive P tmp_dir w)) s)))"

section \<open>The command\<close>

definition diff_tracked :: "'w platform \<Rightarrow> diff_opts \<Rightarrow> string \<Rightarrow> 'w qs \<Rightarrow> (string list, 'w qs) res" where
  "diff_tracked P u patch = (\<lambda>(q, w).
     if df_snapshot u then
       if \<not> is_directory P (pc_patch_dir q snapshot_patch) w then fail P ''No snapshot to diff against'' (q, w)
       else Go (fst (append_unique_files (append_unique_files ([], {}) (files_in_patch P q snapshot_patch w))
              (collect_files_for_patches P q (patch_range_for_diff q patch) w))) (q, w)
     else if combine_start u q \<noteq> [] then
       Go (collect_files_for_patches P q (combine_range (combine_start u q) patch False (q_applied q)) w) (q, w)
     else Go (files_in_patch P q patch w) (q, w))"

definition diff_files ::
  "'w platform \<Rightarrow> diff_opts \<Rightarrow> diff_how \<Rightarrow> string \<Rightarrow> string list \<Rightarrow> 'w qs \<Rightarrow> (unit, 'w qs) res" where
  "diff_files P u h patch tracked s =
     (if df_since u then diff_since P u h patch tracked s
      else if df_snapshot u then each (diff_snapshot_file P u h patch) tracked s
      else if combine_start u (fst s) \<noteq> [] then each (diff_combine_file P u h patch) tracked s
      else diff_plain P u h patch False tracked s)"

definition cmd_diff :: "'w platform \<Rightarrow> string list \<Rightarrow> 'w qs \<Rightarrow> (int, 'w qs) res" where
  "cmd_diff P args s =
     (if q_applied (fst s) = [] then fail P ''No patches applied'' s
      else
        bind_res (env_algorithm P s) (\<lambda>a s.
        bind_res (diff_args P args (diff_defaults P (snd s) a) s) (\<lambda>u s.
        let patch = (if df_patch u = [] then last (q_applied (fst s)) else df_patch u);
            p_format = (case df_p_format u of None \<Rightarrow> get_p_format (fst s) patch | Some f \<Rightarrow> f)
        in bind_res (diff_conflicts P u s) (\<lambda>_ s.
           case diff_shape (df_type u) (df_context u) of
             None \<Rightarrow> Abort
           | Some shape \<Rightarrow>
               bind_res (diff_tracked P u patch s) (\<lambda>tracked s.
               bind_res (diff_files P u (diff_how_of u p_format shape) patch
                   (sort (apply_file_filter tracked (df_files u))) s) (\<lambda>_ s. Go 0 s))))))"

end
