(* ===== verification/Quilt_Import.thy ===== *)
theory Quilt_Import
  imports Quilt_Manage Header_Text "HOL-Library.List_Lexorder" "HOL-Library.Char_ord"
begin

text \<open>
  The commands that bring patches and headers in and list files (\<open>cmd_manage.cpp\<close> part
  of \<open>src/src/quilt.cpp\<close>): import, header, files, patches, fold and upgrade. The
  laws: an import puts a new patch behind the topmost one and keeps the applied patches in
  front, and header, files, patches and fold leave the \<open>QuiltState\<close> alone.
\<close>

section \<open>import\<close>

record import_opts =
  im_strip :: int
  im_name :: string
  im_force :: bool
  im_dup :: char
  im_reversed :: bool
  im_files :: "string list"

abbreviation nul :: char where "nul \<equiv> CHR 0x00"

definition import_defaults :: import_opts where
  "import_defaults = \<lparr>im_strip = - 1, im_name = [], im_force = False, im_dup = nul,
     im_reversed = False, im_files = []\<rparr>"

function import_args :: "'w platform \<Rightarrow> string list \<Rightarrow> import_opts \<Rightarrow> 'w qs \<Rightarrow> (import_opts, 'w qs) res" where
  "import_args P [] u s = Go u s"
| "import_args P (arg # args) u s =
     (if arg = ''-p'' \<and> args \<noteq> [] then
        (case checked_int (parse_int (hd args)) of
           None \<Rightarrow> Abort | Some n \<Rightarrow> import_args P (tl args) (u\<lparr>im_strip := n\<rparr>) s)
      else if arg = ''-R'' then import_args P args (u\<lparr>im_reversed := True\<rparr>) s
      else if arg = ''-P'' \<and> args \<noteq> [] then
        import_args P (tl args) (u\<lparr>im_name := strip_patches_prefix (fst s) (hd args)\<rparr>) s
      else if arg = ''-f'' then import_args P args (u\<lparr>im_force := True\<rparr>) s
      else if arg = ''-d'' \<and> args \<noteq> [] then
        import_args P (tl args) (u\<lparr>im_dup := (if hd args = [] then nul else hd (hd args))\<rparr>) s
      else if is_option arg then unrecognized P arg s
      else import_args P args (u\<lparr>im_files := im_files u @ [arg]\<rparr>) s)"
  by pat_completeness auto
termination
  by (relation "measure (\<lambda>(P, args, u, s). length args)") auto

definition import_usage :: string where
  "import_usage = ''Usage: quilt import [-p num] [-R] [-P patch] [-f] [-d {o|a|n}] patchfile ...''"

text \<open>The header of the result, for the modes of \<open>-d\<close> other than \<open>n\<close>.\<close>

definition merged_header :: "char \<Rightarrow> string \<Rightarrow> string \<Rightarrow> string" where
  "merged_header dup_mode old_hdr new_hdr =
     (if dup_mode = CHR ''o'' then old_hdr
      else if dup_mode = CHR ''a'' then end_line old_hdr @ ''---'' @ [nl] @ new_hdr
      else [])"

definition headers_differ :: "'w platform \<Rightarrow> string \<Rightarrow> string \<Rightarrow> 'w \<Rightarrow> 'w" where
  "headers_differ P old_hdr new_hdr w =
     err_line P ''Please use -d {o|a|n} to specify which patch header(s) to keep.''
       (err_line P (''+'' @ new_hdr) (err_line P (''-'' @ old_hdr)
         (err_line P ''@@ -1 +1 @@'' (err_line P ''Patch headers differ:'' w))))"

definition import_copy :: "'w platform \<Rightarrow> string \<Rightarrow> string \<Rightarrow> 'w qs \<Rightarrow> (unit, 'w qs) res" where
  "import_copy P patchfile dest = (\<lambda>(q, w).
     let (ok, w) = copy_file P patchfile dest w in
     if \<not> ok then fail P (''Failed to copy '' @ patchfile @ '' to '' @ dest) (q, w) else Go () (q, w))"

definition import_content ::
  "'w platform \<Rightarrow> import_opts \<Rightarrow> bool \<Rightarrow> string \<Rightarrow> string \<Rightarrow> 'w qs \<Rightarrow> (unit, 'w qs) res" where
  "import_content P u existing patchfile dest = (\<lambda>(q, w).
     let old_hdr = extract_header (read_file P dest w);
         new_content = read_file P patchfile w;
         new_hdr = extract_header new_content
     in if existing \<and> im_force u \<and> im_dup u \<noteq> nul \<and> im_dup u \<noteq> CHR ''n'' then
          (let (ok, w) = write_file P dest (replace_header new_content (merged_header (im_dup u) old_hdr new_hdr)) w
           in if \<not> ok then fail P (''Failed to write '' @ dest) (q, w) else Go () (q, w))
        else if existing \<and> im_force u \<and> im_dup u = nul \<and> old_hdr \<noteq> [] \<and> new_hdr \<noteq> [] \<and> old_hdr \<noteq> new_hdr then
          Exit 1 (q, headers_differ P old_hdr new_hdr w)
        else import_copy P patchfile dest (q, w))"

definition import_settings :: "import_opts \<Rightarrow> string \<Rightarrow> quilt_state \<Rightarrow> quilt_state" where
  "import_settings u name q =
     q\<lparr>q_strip_level := (if im_strip u \<ge> 0 \<and> im_strip u \<noteq> 1 then (q_strip_level q)(name \<mapsto> im_strip u)
          else if im_strip u < 0 then (q_strip_level q)(name := None) else q_strip_level q),
       q_reversed := (if im_reversed u then insert name (q_reversed q) else q_reversed q - {name})\<rparr>"

text \<open>The series with the name behind the topmost patch, at the end when there is none.\<close>

definition insert_in_series :: "string \<Rightarrow> quilt_state \<Rightarrow> string list" where
  "insert_in_series name q =
     (let top_idx = top_index q; series = q_series q in
      if top_idx \<ge> 0 \<and> top_idx + 1 < int (length series)
      then take (nat (top_idx + 1)) series @ [name] @ drop (nat (top_idx + 1)) series
      else series @ [name])"

definition import_series :: "'w platform \<Rightarrow> bool \<Rightarrow> string \<Rightarrow> string \<Rightarrow> 'w qs \<Rightarrow> (unit, 'w qs) res" where
  "import_series P existing name dest = (\<lambda>(q, w).
     let new_series = (if existing then q_series q else insert_in_series name q);
         (ok, w) = write_series_checked P q new_series w
     in if \<not> ok then Exit 1 (q, if existing then w else snd (delete_file P dest w))
        else Go () (q\<lparr>q_series := new_series\<rparr>, w))"

definition import_one :: "'w platform \<Rightarrow> import_opts \<Rightarrow> string \<Rightarrow> 'w qs \<Rightarrow> (unit, 'w qs) res" where
  "import_one P u patchfile s =
     (let q = fst s; w = snd s;
          name = (if im_name u \<noteq> [] then im_name u else basename patchfile);
          dest = patch_path q name;
          existing = (find_in_series q name \<noteq> None)
      in if existing \<and> is_applied q name then fail P (''Patch '' @ format_patch P q name w @ '' is applied'') s
         else if existing \<and> \<not> im_force u then
           fail P (''Patch '' @ format_patch P q name w @ '' exists. Replace with -f.'') s
         else
           bind_res (ensure_dir P (dirname dest) s) (\<lambda>_ s.
           bind_res (import_content P u existing patchfile dest s) (\<lambda>_ (q, w).
           bind_res (import_series P existing name dest (import_settings u name q, w)) (\<lambda>_ (q, w).
             Go () (q, out_line P (if existing \<and> im_force u
               then ''Replacing patch '' @ format_patch P q name w @ '' with new version''
               else ''Importing patch '' @ patchfile @ '' (stored as '' @ format_patch P q name w @ '')'') w)))))"

fun import_loop :: "'w platform \<Rightarrow> import_opts \<Rightarrow> string list \<Rightarrow> 'w qs \<Rightarrow> (int, 'w qs) res" where
  "import_loop P u [] s = Go 0 s"
| "import_loop P u (f # fs) s = bind_res (import_one P u f s) (\<lambda>_ s. import_loop P u fs s)"

definition cmd_import :: "'w platform \<Rightarrow> string list \<Rightarrow> 'w qs \<Rightarrow> (int, 'w qs) res" where
  "cmd_import P args s =
     bind_res (import_args P args import_defaults s) (\<lambda>u s.
       if im_files u = [] then fail P import_usage s
       else if im_name u \<noteq> [] \<and> length (im_files u) > 1 then
         fail P ''Option `-P' can only be used when importing a single patch'' s
       else
         let (ok, w) = ensure_pc_dir P (fst s) (snd s) in
         if \<not> ok then Exit 1 (fst s, w)
         else
           bind_res (ensure_dir P (path_join (q_work_dir (fst s)) (q_patches_dir (fst s))) (fst s, w)) (\<lambda>_ s.
             import_loop P u (im_files u) s))"

section \<open>header\<close>

datatype header_mode = Print | Append | Replace | Edit

record header_opts =
  hd_mode :: header_mode
  hd_backup :: bool
  hd_dep3 :: bool
  hd_strip_ds :: bool
  hd_strip_ws :: bool
  hd_patch :: string

definition header_defaults :: header_opts where
  "header_defaults = \<lparr>hd_mode = Print, hd_backup = False, hd_dep3 = False, hd_strip_ds = False,
     hd_strip_ws = False, hd_patch = []\<rparr>"

fun header_args :: "'w platform \<Rightarrow> string list \<Rightarrow> header_opts \<Rightarrow> 'w qs \<Rightarrow> (header_opts, 'w qs) res" where
  "header_args P [] u s = Go u s"
| "header_args P (arg # args) u s =
     (if arg = ''-a'' then header_args P args (u\<lparr>hd_mode := Append\<rparr>) s
      else if arg = ''-r'' then header_args P args (u\<lparr>hd_mode := Replace\<rparr>) s
      else if arg = ''-e'' then header_args P args (u\<lparr>hd_mode := Edit\<rparr>) s
      else if arg = ''--backup'' then header_args P args (u\<lparr>hd_backup := True\<rparr>) s
      else if arg = ''--dep3'' then header_args P args (u\<lparr>hd_dep3 := True\<rparr>) s
      else if arg = ''--strip-diffstat'' then header_args P args (u\<lparr>hd_strip_ds := True\<rparr>) s
      else if arg = ''--strip-trailing-whitespace'' then header_args P args (u\<lparr>hd_strip_ws := True\<rparr>) s
      else if is_option arg then unrecognized P arg s
      else header_args P args (u\<lparr>hd_patch := strip_patches_prefix (fst s) arg\<rparr>) s)"

definition header_target :: "'w platform \<Rightarrow> header_opts \<Rightarrow> 'w qs \<Rightarrow> (string, 'w qs) res" where
  "header_target P u s =
     (if hd_patch u \<noteq> [] then
        (if find_in_series (fst s) (hd_patch u) = None then not_in_series P (hd_patch u) s else Go (hd_patch u) s)
      else if q_applied (fst s) \<noteq> [] then Go (last (q_applied (fst s))) s
      else fail P ''No patches applied'' s)"

definition apply_strip :: "header_opts \<Rightarrow> string \<Rightarrow> string" where
  "apply_strip u h =
     (let h = (if hd_strip_ds u then strip_diffstat h else h)
      in if hd_strip_ws u then strip_header_trailing_ws h else h)"

definition dep3_template :: string where
  "dep3_template = unlines
     [''Description: <short summary>'', '' <long description that can span multiple lines>'', ''Author: '',
      ''Origin: <upstream|backport|vendor|other>, <URL>'', ''Bug: <URL to upstream bug report>'',
      ''Bug-Debian: https://bugs.debian.org/<bugnumber>'', ''Forwarded: <URL|no|not-needed>'',
      ''Applied-Upstream: <version|URL|commit>'', ''Last-Update: <YYYY-MM-DD>'']"

text \<open>The last steps of the modes that write: a copy of the old file, the file, a message.\<close>

definition store_header ::
  "'w platform \<Rightarrow> header_opts \<Rightarrow> string \<Rightarrow> string \<Rightarrow> string \<Rightarrow> string \<Rightarrow> 'w qs \<Rightarrow> (int, 'w qs) res" where
  "store_header P u patch content new_header what = (\<lambda>(q, w).
     let patch_file = patch_path q patch;
         w = (if hd_backup u then snd (copy_file P patch_file (patch_file @ ''~'') w) else w);
         w = snd (write_file P patch_file (replace_header content new_header) w)
     in Go 0 (q, out_line P (what @ format_patch P q patch w) w))"

definition edit_header :: "'w platform \<Rightarrow> header_opts \<Rightarrow> string \<Rightarrow> string \<Rightarrow> 'w qs \<Rightarrow> (int, 'w qs) res" where
  "edit_header P u patch content = (\<lambda>(q, w).
     let editor = get_env P ''EDITOR'' w;
         editor = (if editor = [] then ''vi'' else editor);
         header = extract_header content;
         header = (if hd_dep3 u \<and> trim header = [] then dep3_template else header);
         tmp_file = path_join (q_work_dir q) ''.pc/.quilt_header_tmp'';
         w = snd (write_file P tmp_file header w);
         (rc, w) = run_cmd_tty P [editor, tmp_file] w
     in if rc \<noteq> 0 then fail P ''Editor exited with error'' (q, snd (delete_file P tmp_file w))
        else
          let new_header = apply_strip u (read_file P tmp_file w);
              w = snd (delete_file P tmp_file w)
          in store_header P u patch content new_header ''Replaced header of patch '' (q, w))"

definition header_action :: "'w platform \<Rightarrow> header_opts \<Rightarrow> string \<Rightarrow> 'w qs \<Rightarrow> (int, 'w qs) res" where
  "header_action P u patch = (\<lambda>(q, w).
     let content = read_file P (patch_path q patch) w in
     case hd_mode u of
       Print \<Rightarrow> Go 0 (q, out P (apply_strip u (extract_header content)) w)
     | Append \<Rightarrow>
         let (stdin_data, w) = read_stdin P w in
         store_header P u patch content (apply_strip u (extract_header content @ stdin_data))
           ''Appended text to header of patch '' (q, w)
     | Replace \<Rightarrow>
         let (stdin_data, w) = read_stdin P w in
         store_header P u patch content (apply_strip u stdin_data) ''Replaced header of patch '' (q, w)
     | Edit \<Rightarrow> edit_header P u patch content (q, w))"

definition cmd_header :: "'w platform \<Rightarrow> string list \<Rightarrow> 'w qs \<Rightarrow> (int, 'w qs) res" where
  "cmd_header P args s =
     bind_res (header_args P args header_defaults s) (\<lambda>u s.
     bind_res (header_target P u s) (\<lambda>patch s. header_action P u patch s))"

section \<open>files and patches\<close>

record files_opts =
  fo_verbose :: bool
  fo_all :: bool
  fo_labels :: bool
  fo_combine :: string
  fo_patch :: string

definition files_defaults :: files_opts where
  "files_defaults = \<lparr>fo_verbose = False, fo_all = False, fo_labels = False, fo_combine = [], fo_patch = []\<rparr>"

function files_args :: "'w platform \<Rightarrow> string list \<Rightarrow> files_opts \<Rightarrow> 'w qs \<Rightarrow> (files_opts, 'w qs) res" where
  "files_args P [] u s = Go u s"
| "files_args P (arg # args) u s =
     (if arg = ''-v'' then files_args P args (u\<lparr>fo_verbose := True\<rparr>) s
      else if arg = ''-a'' then files_args P args (u\<lparr>fo_all := True\<rparr>) s
      else if arg = ''-l'' then files_args P args (u\<lparr>fo_labels := True\<rparr>) s
      else if arg = ''--combine'' \<and> args \<noteq> [] then files_args P (tl args) (u\<lparr>fo_combine := hd args\<rparr>) s
      else if is_option arg then unrecognized P arg s
      else files_args P args (u\<lparr>fo_patch := strip_patches_prefix (fst s) arg\<rparr>) s)"
  by pat_completeness auto
termination
  by (relation "measure (\<lambda>(P, args, u, s). length args)") auto

text \<open>The applied patches from \<open>start\<close> through \<open>target\<close>.\<close>

definition applied_range :: "string \<Rightarrow> string \<Rightarrow> string list \<Rightarrow> string list" where
  "applied_range start target applied = dropWhile (\<lambda>a. a \<noteq> start) (through target applied)"

definition files_range :: "'w platform \<Rightarrow> files_opts \<Rightarrow> string \<Rightarrow> 'w qs \<Rightarrow> (string list, 'w qs) res" where
  "files_range P u target s =
     (let q = fst s in
      if fo_all u then Go (q_applied q) s
      else if fo_combine u \<noteq> [] then
        (if fo_combine u = ''-'' \<and> q_applied q = [] then fail P ''No patches applied'' s
         else
           let start = (if fo_combine u = ''-'' then hd (q_applied q) else strip_patches_prefix q (fo_combine u));
               range = applied_range start target (q_applied q)
           in if range = [] then
                Exit 1 (world (\<lambda>w. err_line P '' not applied'' (err P start (err P ''Patch '' w))) s)
              else Go range s)
      else Go [target] s)"

definition files_of :: "'w platform \<Rightarrow> quilt_state \<Rightarrow> 'w \<Rightarrow> string \<Rightarrow> string list" where
  "files_of P q w patch =
     (if is_applied q patch then files_in_patch P q patch w
      else parse_patch_files (read_file P (patch_path q patch) w) 1)"

definition print_files :: "'w platform \<Rightarrow> files_opts \<Rightarrow> string list \<Rightarrow> 'w qs \<Rightarrow> (int, 'w qs) res" where
  "print_files P u patches = (\<lambda>(q, w).
     let shown = (if fo_labels u
           then concat (map (\<lambda>p. map (\<lambda>f. p @ '' '' @ f) (sort (files_of P q w p))) patches)
           else map (\<lambda>f. (if fo_verbose u then ''  '' else []) @ f) (sort (concat (map (files_of P q w) patches))))
     in Go 0 (q, fold (out_line P) shown w))"

definition cmd_files :: "'w platform \<Rightarrow> string list \<Rightarrow> 'w qs \<Rightarrow> (int, 'w qs) res" where
  "cmd_files P args s =
     bind_res (files_args P args files_defaults s) (\<lambda>u s.
       if fo_patch u = [] \<and> q_applied (fst s) = [] \<and> \<not> fo_all u then fail P ''No patches applied'' s
       else
         let target = (if fo_patch u \<noteq> [] then fo_patch u
               else if q_applied (fst s) \<noteq> [] then last (q_applied (fst s)) else [])
         in bind_res (files_range P u target s) (\<lambda>patches s. print_files P u patches s))"

fun patches_args :: "'w platform \<Rightarrow> string list \<Rightarrow> bool \<times> string list \<Rightarrow> 'w qs \<Rightarrow> (bool \<times> string list, 'w qs) res" where
  "patches_args P [] u s = Go u s"
| "patches_args P (arg # args) u s =
     (if arg = ''-v'' then patches_args P args (True, snd u) s
      else if arg = ''--color'' then patches_args P args u s
      else if starts_with arg ''--color='' then
        let val = drop 8 arg in
        if val \<noteq> ''always'' \<and> val \<noteq> ''auto'' \<and> val \<noteq> ''never'' then bad_color P val s
        else patches_args P args u s
      else if is_option arg then unrecognized P arg s
      else patches_args P args (fst u, snd u @ [subdir_path (fst s) arg]) s)"

definition patch_touches :: "'w platform \<Rightarrow> quilt_state \<Rightarrow> 'w \<Rightarrow> string list \<Rightarrow> string \<Rightarrow> bool" where
  "patch_touches P q w target_files patch \<longleftrightarrow>
     (if is_applied q patch then \<exists>tf \<in> set target_files. file_exists P (path_join (pc_patch_dir q patch) tf) w
      else \<exists>tf \<in> set target_files. tf \<in> set (parse_patch_files (read_file P (patch_path q patch) w) 1))"

definition cmd_patches :: "'w platform \<Rightarrow> string list \<Rightarrow> 'w qs \<Rightarrow> (int, 'w qs) res" where
  "cmd_patches P args s =
     bind_res (patches_args P args (False, []) s) (\<lambda>(verbose, target_files) (q, w).
       if target_files = [] then fail P ''Usage: quilt patches [-v] [--color] file [files...]'' (q, w)
       else Go 0 (q, fold (\<lambda>patch w. if patch_touches P q w target_files patch
              then out_line P ((if verbose then series_mark q patch else []) @ patch) w else w) (q_series q) w))"

section \<open>fold and upgrade\<close>

record fold_opts =
  fd_reverse :: bool
  fd_quiet :: bool
  fd_force :: bool
  fd_strip :: int

definition fold_defaults :: fold_opts where
  "fold_defaults = \<lparr>fd_reverse = False, fd_quiet = False, fd_force = False, fd_strip = 1\<rparr>"

function fold_args :: "'w platform \<Rightarrow> string list \<Rightarrow> fold_opts \<Rightarrow> 'w qs \<Rightarrow> (fold_opts, 'w qs) res" where
  "fold_args P [] u s = Go u s"
| "fold_args P (arg # args) u s =
     (if arg = ''-R'' then fold_args P args (u\<lparr>fd_reverse := True\<rparr>) s
      else if arg = ''-q'' then fold_args P args (u\<lparr>fd_quiet := True\<rparr>) s
      else if arg = ''-f'' then fold_args P args (u\<lparr>fd_force := True\<rparr>) s
      else if arg = ''-p'' \<and> args \<noteq> [] then
        (case checked_int (parse_int (hd args)) of
           None \<Rightarrow> Abort | Some n \<Rightarrow> fold_args P (tl args) (u\<lparr>fd_strip := n\<rparr>) s)
      else if starts_with arg ''-p'' \<and> length arg > 2 \<and> is_digit (arg ! 2) then
        (case checked_int (parse_int (drop 2 arg)) of
           None \<Rightarrow> Abort | Some n \<Rightarrow> fold_args P args (u\<lparr>fd_strip := n\<rparr>) s)
      else if is_option arg then unrecognized P arg s
      else fold_args P args u s)"
  by pat_completeness auto
termination
  by (relation "measure (\<lambda>(P, args, u, s). length args)") auto

definition fold_patch :: "'w platform \<Rightarrow> fold_opts \<Rightarrow> string \<Rightarrow> string \<Rightarrow> 'w qs \<Rightarrow> (int, 'w qs) res" where
  "fold_patch P u topmost stdin_data = (\<lambda>(q, w).
     let tracked = files_in_patch P q topmost w;
         w = fold (\<lambda>f w. if f \<in> set tracked then w else snd (backup_file P q topmost f w))
               (parse_patch_files stdin_data (fd_strip u)) w;
         po = default_options\<lparr>o_strip_level := fd_strip u, o_reverse := fd_reverse u,
                o_force := fd_force u, o_quiet := fd_quiet u\<rparr>
     in case extra_patch_opts (shell_split (\<lambda>n. get_env P n w) (get_env P ''QUILT_PATCH_OPTS'' w)) po of
          None \<Rightarrow> Abort
        | Some po \<Rightarrow>
            case run_patch P stdin_data po w of
              None \<Rightarrow> Abort
            | Some (r, w) \<Rightarrow>
                let w = (if \<not> fd_quiet u \<and> r_out r \<noteq> [] then out P (r_out r) w else w);
                    w = (if r_err r \<noteq> [] then err P (r_err r) w else w)
                in if r_exit_code r \<noteq> 0 \<and> \<not> fd_force u then Exit 1 (q, w) else Go 0 (q, w))"

definition cmd_fold :: "'w platform \<Rightarrow> string list \<Rightarrow> 'w qs \<Rightarrow> (int, 'w qs) res" where
  "cmd_fold P args s =
     bind_res (fold_args P args fold_defaults s) (\<lambda>u (q, w).
       if q_applied q = [] then fail P ''No patches applied'' (q, w)
       else
         let (stdin_data, w) = read_stdin P w in
         if stdin_data = [] then Go 0 (q, w) else fold_patch P u (last (q_applied q)) stdin_data (q, w))"

definition upgrade_help :: "string list" where
  "upgrade_help = [''Usage: quilt upgrade'', [],
     ''Upgrade the metadata in the .pc/ directory from version 1 to'',
     ''version 2. This command does nothing because quilt.cpp only'', ''supports the version 2 format.'']"

fun cmd_upgrade :: "'w platform \<Rightarrow> string list \<Rightarrow> 'w qs \<Rightarrow> (int, 'w qs) res" where
  "cmd_upgrade P [] s = Go 0 s"
| "cmd_upgrade P (arg # args) s =
     (if arg = ''-h'' \<or> arg = ''--help'' then Exit 0 (world (fold (out_line P) upgrade_help) s)
      else if is_option arg then unrecognized P arg s
      else cmd_upgrade P args s)"

section \<open>Laws: import\<close>

abbreviation stack_kept :: "quilt_state \<Rightarrow> 'w qs \<Rightarrow> bool" where
  "stack_kept q s \<equiv> stack_ok (fst s) \<and> q_applied (fst s) = q_applied q"

lemma stack_ok_insert:
  assumes "stack_ok q" "name \<notin> set (q_series q)" "q_applied q' = q_applied q" "q_series q' = insert_in_series name q"
  shows "stack_ok q'"
proof -
  let ?k = "length (q_applied q)"
  have d: "distinct (q_series q)" "q_applied q = take ?k (q_series q)" using assms(1) by (simp_all add: stack_ok_def)
  have k: "?k \<le> length (q_series q)" using d(2) by (metis length_take min.cobounded1)
  have t: "top_index q = int ?k - 1" by (rule top_index_stack[OF assms(1)])
  have ins: "insert_in_series name q =
      (if 0 < ?k \<and> ?k < length (q_series q) then take ?k (q_series q) @ [name] @ drop ?k (q_series q)
       else q_series q @ [name])"
    by (auto simp: insert_in_series_def Let_def t)
  have "set (take ?k (q_series q)) \<inter> set (drop ?k (q_series q)) = {}"
    using d(1) by (simp add: set_take_disj_set_drop_if_distinct)
  then have "distinct (insert_in_series name q)"
    using d(1) assms(2) unfolding ins by (auto dest: in_set_takeD in_set_dropD)
  moreover have "take ?k (insert_in_series name q) = take ?k (q_series q)"
    using k unfolding ins by simp
  ultimately show ?thesis using assms(3,4) d(2) by (simp add: stack_ok_def)
qed

lemma neutral_bind_kept:
  "stack_ok q \<Longrightarrow> neutral q m \<Longrightarrow> (\<And>a s. m = Go a s \<Longrightarrow> fst s = q \<Longrightarrow> holds (stack_kept q) (f a s)) \<Longrightarrow>
   holds (stack_kept q) (bind_res m f)"
  by (cases m) auto

lemma import_content_neutral: "neutral (fst s) (import_content P u existing patchfile dest s)"
  by (cases s) (simp add: import_content_def import_copy_def Let_def split: prod.splits)

lemma import_settings_lists [simp]:
  "q_series (import_settings u name q) = q_series q" "q_applied (import_settings u name q) = q_applied q"
  by (simp_all add: import_settings_def)

lemma top_index_settings [simp]: "insert_in_series name (import_settings u name q) = insert_in_series name q"
proof -
  have "top_index (import_settings u name q) = top_index q" by (simp add: top_index_def)
  then show ?thesis by (simp add: insert_in_series_def)
qed

lemma import_series_kept:
  assumes "stack_ok q" "\<not> existing \<Longrightarrow> name \<notin> set (q_series q)"
  shows "holds (stack_kept q) (import_series P existing name dest (import_settings u name q, w))"
proof -
  have 1: "stack_ok (import_settings u name q)"
    using assms(1) stack_ok_cong[of "import_settings u name q" q] by simp
  moreover have "stack_ok ((import_settings u name q)\<lparr>q_series := if existing then q_series q else insert_in_series name q\<rparr>)"
  proof (cases existing)
    case True
    then show ?thesis
      using assms(1) stack_ok_cong[of "(import_settings u name q)\<lparr>q_series := q_series q\<rparr>" q] by simp
  next
    case False
    then show ?thesis by (intro stack_ok_insert[OF assms(1)]) (simp_all add: assms(2))
  qed
  ultimately show ?thesis
    by (cases existing) (auto simp: import_series_def Let_def split: prod.split)
qed

lemma import_one_kept:
  assumes "stack_ok (fst s)"
  shows "holds (stack_kept (fst s)) (import_one P u patchfile s)"
proof -
  let ?q = "fst s"
  define name where "name = (if im_name u \<noteq> [] then im_name u else basename patchfile)"
  define existing where "existing \<longleftrightarrow> find_in_series ?q name \<noteq> None"
  have new: "\<not> existing \<Longrightarrow> name \<notin> set (q_series ?q)" by (simp add: existing_def find_in_series_None)
  have "holds (stack_kept ?q)
      (bind_res (ensure_dir P (dirname (patch_path ?q name)) s) (\<lambda>_ s.
         bind_res (import_content P u existing patchfile (patch_path ?q name) s) (\<lambda>_ (q, w).
         bind_res (import_series P existing name (patch_path ?q name) (import_settings u name q, w)) (\<lambda>_ (q, w).
           Go () (q, out_line P (if existing \<and> im_force u
             then ''Replacing patch '' @ format_patch P q name w @ '' with new version''
             else ''Importing patch '' @ patchfile @ '' (stored as '' @ format_patch P q name w @ '')'') w)))))"
  proof (rule neutral_bind_kept[OF assms ensure_dir_neutral], rule neutral_bind_kept[OF assms], goal_cases)
    case (1 a s1)
    then show ?case using import_content_neutral[of s1] by simp
  next
    case (2 a s1 b s2)
    have "holds (stack_kept ?q) (import_series P existing name (patch_path ?q name) (import_settings u name ?q, snd s2))"
      by (rule import_series_kept[OF assms new])
    then show ?case using 2(4)
      by (cases s2) (auto intro!: holds_bindI split: prod.split)
  qed
  then show ?thesis
    using assms unfolding import_one_def Let_def name_def[symmetric] existing_def[symmetric]
    by (simp add: fail_def)
qed

lemma import_loop_kept: "stack_ok (fst s) \<Longrightarrow> holds (stack_kept (fst s)) (import_loop P u fs s)"
proof (induction fs arbitrary: s)
  case (Cons f fs)
  show ?case
    unfolding import_loop.simps
  proof (rule holds_bindI[OF import_one_kept[OF Cons.prems]], goal_cases)
    case (1 a s1)
    then show ?case using Cons.IH[of s1] by (auto elim: holds_mono)
  qed
qed simp

lemma import_args_neutral: "neutral (fst s) (import_args P args u s)"
  by (induction P args u s rule: import_args.induct) (auto split: option.split)

lemma cmd_import_kept:
  assumes "stack_ok q"
  shows "holds (stack_kept q) (cmd_import P args (q, w))"
  unfolding cmd_import_def
proof (rule neutral_bind_kept[OF assms], goal_cases)
  case 1
  show ?case using import_args_neutral[of "(q, w)"] by simp
next
  case (2 u s)
  have "holds (stack_kept q) (bind_res (ensure_dir P (path_join (q_work_dir q) (q_patches_dir q)) (q, w'))
      (\<lambda>_ s. import_loop P u (im_files u) s))" for w'
    by (rule neutral_bind_kept[OF assms]) (use ensure_dir_neutral[of "(q, w')"] import_loop_kept assms in auto)
  then show ?case using 2 assms by (auto simp: fail_def Let_def split: prod.split)
qed

section \<open>Laws: the other commands\<close>

definition keeps :: "quilt_state \<Rightarrow> ('a, 'w qs) res \<Rightarrow> bool" where
  "keeps q m = holds (\<lambda>s. fst s = q) m"

lemma keeps_simps [simp]:
  "keeps q (Go a s) \<longleftrightarrow> fst s = q" "keeps q (Exit n s) \<longleftrightarrow> fst s = q" "keeps q Abort"
  by (simp_all add: keeps_def)

lemma neutral_keeps: "neutral q m \<Longrightarrow> keeps q m"
  by (cases m) auto

lemma keeps_bind:
  "keeps q m \<Longrightarrow> (\<And>a s. m = Go a s \<Longrightarrow> fst s = q \<Longrightarrow> keeps q (f a s)) \<Longrightarrow> keeps q (bind_res m f)"
  by (cases m) auto

lemma header_args_neutral: "neutral (fst s) (header_args P args u s)"
  by (induction P args u s rule: header_args.induct) auto

lemma header_action_keeps: "keeps (fst s) (header_action P u patch s)"
  by (cases s) (simp add: header_action_def store_header_def edit_header_def fail_def Let_def
      split: header_mode.split prod.split)

lemma cmd_header_keeps: "keeps (fst s) (cmd_header P args s)"
  unfolding cmd_header_def
proof (rule keeps_bind[OF neutral_keeps[OF header_args_neutral]], rule keeps_bind, goal_cases)
  case (1 u s1)
  then show ?case by (auto simp: header_target_def fail_def not_in_series_def split: prod.split)
next
  case (2 u s1 patch s2)
  then show ?case using header_action_keeps[of s2] by simp
qed

lemma files_args_neutral: "neutral (fst s) (files_args P args u s)"
  by (induction P args u s rule: files_args.induct) auto

lemma cmd_files_keeps: "keeps (fst s) (cmd_files P args s)"
  unfolding cmd_files_def
proof (rule keeps_bind[OF neutral_keeps[OF files_args_neutral]], goal_cases)
  case (1 u s1)
  have "keeps (fst s1) (files_range P u target s1)" for target
    by (auto simp: files_range_def fail_def Let_def)
  then have "keeps (fst s1) (bind_res (files_range P u target s1) (\<lambda>patches s. print_files P u patches s))" for target
    by (rule keeps_bind) (auto simp: print_files_def Let_def split: prod.split)
  then show ?case using 1 by (auto simp: fail_def Let_def)
qed

lemma patches_args_neutral: "neutral (fst s) (patches_args P args u s)"
  by (induction P args u s rule: patches_args.induct) (auto simp: Let_def)

lemma cmd_patches_keeps: "keeps (fst s) (cmd_patches P args s)"
  unfolding cmd_patches_def
  by (rule keeps_bind[OF neutral_keeps[OF patches_args_neutral]]) (auto simp: fail_def split: prod.split)

lemma fold_args_neutral: "neutral (fst s) (fold_args P args u s)"
  by (induction P args u s rule: fold_args.induct) (auto split: option.split)

lemma fold_patch_keeps: "keeps (fst s) (fold_patch P u topmost text s)"
  by (cases s) (simp add: fold_patch_def Let_def split: option.split prod.split)

lemma cmd_fold_keeps: "keeps (fst s) (cmd_fold P args s)"
  unfolding cmd_fold_def
proof (rule keeps_bind[OF neutral_keeps[OF fold_args_neutral]], goal_cases)
  case (1 u s1)
  then show ?case
    using fold_patch_keeps[of "(fst s, w)" for w] by (auto simp: fail_def split: prod.split)
qed

end
