(* ===== verification/Graph_Reach.thy ===== *)
theory Graph_Reach
  imports Quilt_Prelude
begin

text \<open>
  The edge map of the dependency graph and its algorithms (\<open>cmd_graph.cpp\<close> part of
  \<open>src/src/quilt.cpp\<close>): \<open>add_edge\<close>, \<open>collect_reachable\<close>,
  \<open>has_alternate_path\<close> and \<open>reduce_edges\<close>. The ordered map is the list of its
  entries in key order, nodes are positions in the stack, a stack is a list with its top first.
  The searches are shown to compute reachability, and the reduction to be the transitive
  reduction of a graph whose edges go upwards.
\<close>

section \<open>Edges\<close>

type_synonym edge_key = "nat \<times> nat"
type_synonym edge_map = "(edge_key \<times> string list) list"

definition key_less :: "edge_key \<Rightarrow> edge_key \<Rightarrow> bool" where
  "key_less k k' \<longleftrightarrow> fst k < fst k' \<or> (fst k = fst k' \<and> snd k < snd k')"

fun add_name :: "edge_key \<Rightarrow> string \<Rightarrow> edge_map \<Rightarrow> edge_map" where
  "add_name key file [] = [(key, [file])]"
| "add_name key file ((k, names) # es) =
     (if k = key then (k, names @ [file]) # es
      else if key_less key k then (key, [file]) # (k, names) # es
      else (k, names) # add_name key file es)"

definition add_edge :: "edge_map \<Rightarrow> nat \<Rightarrow> nat \<Rightarrow> string \<Rightarrow> edge_map" where
  "add_edge edges earlier later file = add_name (earlier, later) file edges"

text \<open>The vector of a node in the adjacency map, along or against the edges.\<close>

definition adjacency :: "edge_map \<Rightarrow> bool \<Rightarrow> nat \<Rightarrow> nat list" where
  "adjacency edges forward node =
     (if forward then map (\<lambda>(k, v). snd k) (filter (\<lambda>(k, v). fst k = node) edges)
      else map (\<lambda>(k, v). fst k) (filter (\<lambda>(k, v). snd k = node) edges))"

definition edge_rel :: "edge_map \<Rightarrow> edge_key set" where
  "edge_rel edges = fst ` set edges"

definition edge_nodes :: "edge_map \<Rightarrow> nat set" where
  "edge_nodes edges = fst ` edge_rel edges \<union> snd ` edge_rel edges"

lemma finite_edge_nodes [simp]: "finite (edge_nodes edges - seen)"
  by (simp add: edge_nodes_def edge_rel_def)

lemma set_adjacency:
  "set (adjacency edges True n) = {x. (n, x) \<in> edge_rel edges}"
  "set (adjacency edges False n) = {x. (x, n) \<in> edge_rel edges}"
  by (force simp: adjacency_def edge_rel_def)+

lemma adjacency_none: "n \<notin> edge_nodes edges \<Longrightarrow> adjacency edges forward n = []"
  unfolding adjacency_def edge_nodes_def edge_rel_def by (cases forward) (force simp: filter_empty_conv)+

section \<open>Searches\<close>

lemma search_decreases:
  "n \<notin> seen \<Longrightarrow>
   (((card (edge_nodes edges - insert n seen), length (rev (adjacency edges forward n) @ st)),
     (card (edge_nodes edges - seen), length (n # st))) \<in> less_than <*lex*> less_than)"
proof (cases "n \<in> edge_nodes edges")
  case True
  assume "n \<notin> seen"
  then have "edge_nodes edges - insert n seen \<subset> edge_nodes edges - seen" using True by blast
  then show ?thesis by (simp add: psubset_card_mono)
qed (simp add: adjacency_none)

function reach_loop :: "edge_map \<Rightarrow> bool \<Rightarrow> nat list \<Rightarrow> nat set \<Rightarrow> nat set" where
  "reach_loop edges forward [] seen = seen"
| "reach_loop edges forward (node # st) seen =
     (if node \<in> seen then reach_loop edges forward st seen
      else reach_loop edges forward (rev (adjacency edges forward node) @ st) (insert node seen))"
  by pat_completeness auto
termination
  by (relation "inv_image (less_than <*lex*> less_than)
       (\<lambda>(edges, forward, st, seen). (card (edge_nodes edges - seen), length st))")
    (use search_decreases in auto)

definition collect_reachable :: "edge_map \<Rightarrow> nat \<Rightarrow> bool \<Rightarrow> nat set" where
  "collect_reachable edges start forward = reach_loop edges forward [start] {}"

text \<open>The search skips the one edge wherever it meets it.\<close>

function alternate_loop :: "nat \<Rightarrow> edge_map \<Rightarrow> edge_key \<Rightarrow> nat list \<Rightarrow> nat set \<Rightarrow> bool" where
  "alternate_loop to edges skip_edge [] seen = False"
| "alternate_loop to edges skip_edge (node # st) seen =
     (if node \<in> seen then alternate_loop to edges skip_edge st seen
      else
        let nexts = filter (\<lambda>x. (node, x) \<noteq> skip_edge) (adjacency edges True node) in
        if to \<in> set nexts then True
        else alternate_loop to edges skip_edge (rev nexts @ st) (insert node seen))"
  by pat_completeness auto
termination
proof (relation "inv_image (less_than <*lex*> less_than)
    (\<lambda>(to, edges, skip_edge, st, seen). (card (edge_nodes edges - seen), length st))", goal_cases)
  case (3 to edges skip_edge node st seen nexts)
  then have "length nexts \<le> length (adjacency edges True node)" by simp
  with search_decreases[of node seen edges True st] 3(1) show ?case by auto
qed auto

definition has_alternate_path :: "nat \<Rightarrow> nat \<Rightarrow> edge_map \<Rightarrow> edge_key \<Rightarrow> bool" where
  "has_alternate_path from to edges skip_edge = alternate_loop to edges skip_edge [from] {}"

definition reduce_edges :: "edge_map \<Rightarrow> edge_map" where
  "reduce_edges edges = filter (\<lambda>(k, v). \<not> has_alternate_path (fst k) (snd k) edges k) edges"

declare reach_loop.simps(2) [simp del] alternate_loop.simps(2) [simp del]

section \<open>Laws: the searches\<close>

lemma closed_star:
  assumes "(x, y) \<in> E\<^sup>*" "x \<in> S" "\<And>a b. a \<in> S \<Longrightarrow> (a, b) \<in> E \<Longrightarrow> b \<in> S \<union> T"
  shows "y \<in> S \<union> E\<^sup>* `` T"
  using assms by (induction rule: rtrancl_induct) (blast intro: rtrancl_into_rtrancl)+

definition search_rel :: "edge_map \<Rightarrow> bool \<Rightarrow> edge_key set" where
  "search_rel edges forward = (if forward then edge_rel edges else (edge_rel edges)\<inverse>)"

lemma set_adjacency_search: "set (adjacency edges forward n) = search_rel edges forward `` {n}"
  by (cases forward) (auto simp: search_rel_def set_adjacency)

lemma reach_loop_closure:
  assumes "\<And>a b. a \<in> seen \<Longrightarrow> (a, b) \<in> search_rel edges forward \<Longrightarrow> b \<in> seen \<union> set st"
  shows "reach_loop edges forward st seen = seen \<union> (search_rel edges forward)\<^sup>* `` set st"
  using assms
proof (induction edges forward st seen rule: reach_loop.induct)
  case (2 edges forward n st seen)
  let ?E = "search_rel edges forward"
  show ?case
  proof (cases "n \<in> seen")
    case True
    have "y \<in> seen \<union> ?E\<^sup>* `` set st" if "(n, y) \<in> ?E\<^sup>*" for y
      by (rule closed_star[OF that True]) (use 2(3) True in fastforce)
    moreover have "reach_loop edges forward st seen = seen \<union> ?E\<^sup>* `` set st"
      by (rule 2(1)[OF True]) (use 2(3) True in fastforce)
    ultimately show ?thesis using True by (auto simp: reach_loop.simps(2))
  next
    case False
    have "reach_loop edges forward (rev (adjacency edges forward n) @ st) (insert n seen) =
        insert n seen \<union> ?E\<^sup>* `` set (rev (adjacency edges forward n) @ st)"
      by (rule 2(2)[OF False]) (use 2(3) in \<open>auto simp: set_adjacency_search\<close>)
    moreover have "insert n (?E\<^sup>* `` (?E `` {n})) = ?E\<^sup>* `` {n}"
      by (auto intro: converse_rtrancl_into_rtrancl elim: converse_rtranclE)
    ultimately show ?thesis using False
      by (auto simp: reach_loop.simps(2) set_adjacency_search Image_Un)
  qed
qed simp

lemma collect_reachable_star:
  "collect_reachable edges start forward = (search_rel edges forward)\<^sup>* `` {start}"
  using reach_loop_closure[of "{}" edges forward "[start]"] by (simp add: collect_reachable_def)

lemma nexts_skip: "set (filter (\<lambda>x. (n, x) \<noteq> k) (adjacency edges True n)) = (edge_rel edges - {k}) `` {n}"
  by (auto simp: set_adjacency)

lemma alternate_loop_trancl:
  assumes "\<And>a b. a \<in> seen \<Longrightarrow> (a, b) \<in> edge_rel edges - {k} \<Longrightarrow> b \<noteq> to \<and> b \<in> seen \<union> set st"
  shows "alternate_loop to edges k st seen \<longleftrightarrow> (\<exists>n \<in> set st. (n, to) \<in> (edge_rel edges - {k})\<^sup>+)"
  using assms
proof (induction to edges k st seen rule: alternate_loop.induct)
  case (2 to edges k n st seen)
  let ?E = "edge_rel edges - {k}"
  let ?nexts = "filter (\<lambda>x. (n, x) \<noteq> k) (adjacency edges True n)"
  show ?case
  proof (cases "n \<in> seen")
    case True
    have IH: "alternate_loop to edges k st seen \<longleftrightarrow> (\<exists>n \<in> set st. (n, to) \<in> ?E\<^sup>+)"
      by (rule 2(1)[OF True]) (use 2(3) True in fastforce)
    have "\<exists>m \<in> set st. (m, to) \<in> ?E\<^sup>+" if nt: "(n, to) \<in> ?E\<^sup>+"
    proof -
      from nt obtain y where y: "(n, y) \<in> ?E\<^sup>*" "(y, to) \<in> ?E" by (auto dest: tranclD2)
      have "y \<in> seen \<union> ?E\<^sup>* `` set st"
        by (rule closed_star[OF y(1) True]) (use 2(3) True in fastforce)
      then show ?thesis using y(2) 2(3) by (auto intro: rtrancl_into_trancl1)
    qed
    then show ?thesis using IH True by (auto simp: alternate_loop.simps(2))
  next
    case False
    have split: "(n, to) \<in> ?E\<^sup>+ \<longleftrightarrow> (n, to) \<in> ?E \<or> (\<exists>m. (n, m) \<in> ?E \<and> (m, to) \<in> ?E\<^sup>+)"
      by (auto intro: trancl_into_trancl2 elim: converse_tranclE)
    show ?thesis
    proof (cases "to \<in> set ?nexts")
      case True
      moreover have "(n, to) \<in> ?E" using True unfolding nexts_skip by blast
      ultimately show ?thesis using False split unfolding alternate_loop.simps Let_def by auto
    next
      case to: False
      have "alternate_loop to edges k (rev ?nexts @ st) (insert n seen) \<longleftrightarrow>
          (\<exists>m \<in> set (rev ?nexts @ st). (m, to) \<in> ?E\<^sup>+)"
        by (rule 2(2)[OF False refl to]) (use 2(3) to in \<open>auto simp: set_adjacency\<close>)
      moreover have "(n, to) \<notin> ?E" using to unfolding nexts_skip by blast
      ultimately show ?thesis
        using False to split unfolding alternate_loop.simps Let_def set_append set_rev nexts_skip by auto
    qed
  qed
qed simp

lemma has_alternate_path_iff:
  "has_alternate_path a b edges (a, b) \<longleftrightarrow> (a, b) \<in> (edge_rel edges - {(a, b)})\<^sup>+"
  using alternate_loop_trancl[of "{}" edges "(a, b)" b "[a]"] by (simp add: has_alternate_path_def)

section \<open>Laws: the reduction\<close>

definition upward :: "edge_map \<Rightarrow> bool" where
  "upward edges \<longleftrightarrow> (\<forall>(a, b) \<in> edge_rel edges. a < b)"

lemma reduced_rel:
  "edge_rel (reduce_edges edges) = {e \<in> edge_rel edges. e \<notin> (edge_rel edges - {e})\<^sup>+}"
  by (auto simp: reduce_edges_def edge_rel_def has_alternate_path_iff[unfolded edge_rel_def])

lemma trancl_upward: "(x, y) \<in> E\<^sup>+ \<Longrightarrow> (\<And>c d. (c, d) \<in> E \<Longrightarrow> c < (d :: nat)) \<Longrightarrow> x < y"
  by (induction rule: trancl_induct) (auto intro: less_trans)

text \<open>Every edge of a path between two nodes lies between them.\<close>

lemma trancl_between:
  assumes "(x, y) \<in> E\<^sup>+" "\<And>c d. (c, d) \<in> E \<Longrightarrow> c < (d :: nat)"
  shows "(x, y) \<in> {(c, d) \<in> E. x \<le> c \<and> d \<le> y}\<^sup>+"
  using assms(1)
proof (induction rule: trancl_induct)
  case (base z)
  then show ?case by auto
next
  case (step z u)
  have zu: "z < u" using step assms(2) by blast
  have "x < z" by (rule trancl_upward[OF step.hyps(1) assms(2)])
  then have "(z, u) \<in> {(c, d) \<in> E. x \<le> c \<and> d \<le> u}" using step(2) by simp
  moreover have "{(c, d) \<in> E. x \<le> c \<and> d \<le> z} \<subseteq> {(c, d) \<in> E. x \<le> c \<and> d \<le> u}" using zu by auto
  then have "(x, z) \<in> {(c, d) \<in> E. x \<le> c \<and> d \<le> u}\<^sup>+" using step.IH by (rule trancl_mono[rotated])
  ultimately show ?case by (rule trancl_into_trancl[rotated])
qed

lemma reduced_covers:
  assumes "upward edges" "(a, b) \<in> edge_rel edges"
  shows "(a, b) \<in> (edge_rel (reduce_edges edges))\<^sup>+"
  using assms(2)
proof (induction "b - a" arbitrary: a b rule: less_induct)
  case less
  let ?E = "edge_rel edges - {(a, b)}"
  have up: "c < d" if "(c, d) \<in> ?E" for c d using assms(1) that by (auto simp: upward_def)
  show ?case
  proof (cases "(a, b) \<in> ?E\<^sup>+")
    case False
    then have "(a, b) \<in> edge_rel (reduce_edges edges)" using less.prems unfolding reduced_rel by simp
    then show ?thesis by auto
  next
    case True
    have "{(c, d) \<in> ?E. a \<le> c \<and> d \<le> b} \<subseteq> (edge_rel (reduce_edges edges))\<^sup>+"
    proof
      fix e assume "e \<in> {(c, d) \<in> ?E. a \<le> c \<and> d \<le> b}"
      then obtain c d where e: "e = (c, d)" "(c, d) \<in> ?E" "a \<le> c" "d \<le> b" by blast
      then have "d - c < b - a" using up[of c d] by auto
      then have "(c, d) \<in> (edge_rel (reduce_edges edges))\<^sup>+" by (rule less.hyps) (use e(2) in simp)
      then show "e \<in> (edge_rel (reduce_edges edges))\<^sup>+" by (simp only: e(1))
    qed
    then have "{(c, d) \<in> ?E. a \<le> c \<and> d \<le> b}\<^sup>+ \<subseteq> ((edge_rel (reduce_edges edges))\<^sup>+)\<^sup>+"
      by (meson subsetI trancl_mono)
    moreover have "(a, b) \<in> {(c, d) \<in> ?E. a \<le> c \<and> d \<le> b}\<^sup>+" by (rule trancl_between[OF True up])
    ultimately show ?thesis by auto
  qed
qed

lemma reduce_keeps_paths:
  assumes "upward edges"
  shows "(edge_rel (reduce_edges edges))\<^sup>+ = (edge_rel edges)\<^sup>+"
proof
  have "edge_rel (reduce_edges edges) \<subseteq> edge_rel edges" unfolding reduced_rel by blast
  then show "(edge_rel (reduce_edges edges))\<^sup>+ \<subseteq> (edge_rel edges)\<^sup>+" by (meson subsetI trancl_mono)
  have "edge_rel edges \<subseteq> (edge_rel (reduce_edges edges))\<^sup>+" using reduced_covers[OF assms] by auto
  then have "(edge_rel edges)\<^sup>+ \<subseteq> ((edge_rel (reduce_edges edges))\<^sup>+)\<^sup>+" by (meson subsetI trancl_mono)
  then show "(edge_rel edges)\<^sup>+ \<subseteq> (edge_rel (reduce_edges edges))\<^sup>+" by simp
qed

lemma reduce_is_minimal:
  "e \<in> edge_rel (reduce_edges edges) \<Longrightarrow> e \<notin> (edge_rel (reduce_edges edges) - {e})\<^sup>+"
proof
  assume e: "e \<in> edge_rel (reduce_edges edges)" "e \<in> (edge_rel (reduce_edges edges) - {e})\<^sup>+"
  have "edge_rel (reduce_edges edges) - {e} \<subseteq> edge_rel edges - {e}" unfolding reduced_rel by blast
  with e(2) have "e \<in> (edge_rel edges - {e})\<^sup>+" by (meson trancl_mono)
  with e(1) show False unfolding reduced_rel by blast
qed

section \<open>Laws: adding edges\<close>

lemma edge_rel_add [simp]: "edge_rel (add_edge edges a b file) = insert (a, b) (edge_rel edges)"
proof -
  have "edge_rel (add_name k file edges) = insert k (edge_rel edges)" for k
    by (induction k "file" edges rule: add_name.induct) (auto simp: edge_rel_def)
  then show ?thesis by (simp add: add_edge_def)
qed

end
