(* ===== verification/Quilt_Graph.thy ===== *)
theory Quilt_Graph
  imports Graph_Reach Stack_Query Builtin_Diff Quilt_Annotate
    Complex_Main "HOL-Library.List_Lexorder" "HOL-Library.Char_ord"
begin

text \<open>
  The command graph (\<open>cmd_graph.cpp\<close> part of \<open>src/src/quilt.cpp\<close>): the line
  ranges of a patch read from its diff, the test for conflicting ranges, the nodes and edges of
  the dependency graph, its output for dot, and the command. A node's files are the entries of
  the ordered map, with their ranges. A failed \<open>checked_cast\<close> is \<open>None\<close>, and so is
  a sum that does not fit \<open>int\<close>, which the language leaves undefined.
\<close>

section \<open>Nodes\<close>

record line_ranges =
  lr_computed :: bool
  lr_left :: "int list"
  lr_right :: "int list"

definition no_ranges :: line_ranges where
  "no_ranges = \<lparr>lr_computed = False, lr_left = [], lr_right = []\<rparr>"

record graph_node =
  g_number :: nat
  g_name :: string
  g_files :: "(string \<times> line_ranges) list"
  g_attrs :: "string list"

definition has_file :: "graph_node \<Rightarrow> string \<Rightarrow> bool" where
  "has_file node file \<longleftrightarrow> file \<in> fst ` set (g_files node)"

definition ranges_of :: "graph_node \<Rightarrow> string \<Rightarrow> line_ranges" where
  "ranges_of node file = (case map_of (g_files node) file of Some r \<Rightarrow> r | None \<Rightarrow> no_ranges)"

definition set_ranges :: "string \<Rightarrow> line_ranges \<Rightarrow> graph_node \<Rightarrow> graph_node" where
  "set_ranges file r node = node\<lparr>g_files := map (\<lambda>(f, x). if f = file then (f, r) else (f, x)) (g_files node)\<rparr>"

section \<open>Text\<close>

definition is_number :: "string \<Rightarrow> bool" where
  "is_number v \<longleftrightarrow> v \<noteq> [] \<and> (\<forall>c \<in> set v. is_digit c)"

definition is_zero_length_file :: "'w platform \<Rightarrow> string \<Rightarrow> 'w \<Rightarrow> bool" where
  "is_zero_length_file P path w \<longleftrightarrow> file_exists P path w \<and> read_file P path w = []"

definition dot_escape :: "string \<Rightarrow> string" where
  "dot_escape s = concat (map (\<lambda>c. if c = bslash \<or> c = dquote then [bslash, c]
     else if c = nl then bslash # ''n'' else [c]) s)"

section \<open>Ranges of a diff\<close>

text \<open>The regular expression of a hunk header: a number, and one that may be missing.\<close>

definition match_digits :: "string \<Rightarrow> (string \<times> string) option" where
  "match_digits s = (let ds = takeWhile is_digit s in if ds = [] then None else Some (ds, dropWhile is_digit s))"

definition match_count :: "string \<Rightarrow> string \<times> string" where
  "match_count s =
     (if starts_with s '','' then case match_digits (tl s) of Some m \<Rightarrow> m | None \<Rightarrow> ([], s) else ([], s))"

definition match_literal :: "string \<Rightarrow> string \<Rightarrow> string option" where
  "match_literal p s = (if starts_with s p then Some (drop (length p) s) else None)"

definition match_hunk_header :: "string \<Rightarrow> (string \<times> string \<times> string \<times> string) option" where
  "match_hunk_header line =
     (case match_literal ''@@ -'' line of None \<Rightarrow> None
      | Some s \<Rightarrow> case match_digits s of None \<Rightarrow> None
      | Some (m1, s) \<Rightarrow> let (m2, s) = match_count s in
        case match_literal '' +'' s of None \<Rightarrow> None
      | Some s \<Rightarrow> case match_digits s of None \<Rightarrow> None
      | Some (m3, s) \<Rightarrow> let (m4, s) = match_count s in
        case match_literal '' @@'' s of None \<Rightarrow> None
      | Some s \<Rightarrow> Some (m1, m2, m3, m4))"

definition parse_hunk_count :: "string \<Rightarrow> int option" where
  "parse_hunk_count m = (if m = [] then Some 1 else checked_int (parse_int m))"

definition hunk_ranges :: "string \<times> string \<times> string \<times> string \<Rightarrow> (int list \<times> int list) option" where
  "hunk_ranges = (\<lambda>(m1, m2, m3, m4).
     case (checked_int (parse_int m1), parse_hunk_count m2, checked_int (parse_int m3), parse_hunk_count m4) of
       (Some old_start, Some old_count, Some new_start, Some new_count) \<Rightarrow>
         (case (checked_int (new_start + new_count), checked_int (old_start + old_count)) of
            (Some new_end, Some old_end) \<Rightarrow> Some ([new_start, new_end], [old_start, old_end])
          | _ \<Rightarrow> None)
     | _ \<Rightarrow> None)"

fun ranges_loop :: "lines \<Rightarrow> line_ranges \<Rightarrow> line_ranges option" where
  "ranges_loop [] r = Some r"
| "ranges_loop (line # ls) r =
     (case match_hunk_header line of
        None \<Rightarrow> ranges_loop ls r
      | Some m \<Rightarrow>
          case hunk_ranges m of
            None \<Rightarrow> None
          | Some (lft, rgt) \<Rightarrow> ranges_loop ls (r\<lparr>lr_left := lr_left r @ lft, lr_right := lr_right r @ rgt\<rparr>))"

definition parse_ranges :: "string \<Rightarrow> line_ranges option" where
  "parse_ranges diff_text = ranges_loop (split_lines diff_text) (no_ranges\<lparr>lr_computed := True\<rparr>)"

section \<open>Conflicts\<close>

definition next_node_for_file :: "graph_node list \<Rightarrow> nat \<Rightarrow> string \<Rightarrow> nat option" where
  "next_node_for_file nodes index file =
     (case filter (\<lambda>i. has_file (nodes ! i) file) [index + 1..<length nodes] of [] \<Rightarrow> None | i # is \<Rightarrow> Some i)"

definition compute_ranges ::
  "'w platform \<Rightarrow> quilt_state \<Rightarrow> graph_node list \<Rightarrow> nat \<Rightarrow> string \<Rightarrow> int \<Rightarrow> 'w \<Rightarrow> graph_node list option" where
  "compute_ranges P q nodes index file context_lines w =
     (let node = nodes ! index in
      if \<not> has_file node file \<or> lr_computed (ranges_of node file) then Some nodes
      else
        let done_ranges = (ranges_of node file)\<lparr>lr_computed := True\<rparr>;
            update = (\<lambda>r. nodes[index := set_ranges file r node]);
            old_path = path_join (pc_patch_dir q (g_name node)) file;
            new_path = (case next_node_for_file nodes index file of
              Some i \<Rightarrow> path_join (pc_patch_dir q (g_name (nodes ! i))) file
            | None \<Rightarrow> path_join (q_work_dir q) file);
            old_missing = is_zero_length_file P old_path w;
            new_missing = is_zero_length_file P new_path w
        in if old_missing \<and> new_missing then Some (update done_ranges)
           else
             let (exit_code, output) = builtin_diff P (if old_missing then ''/dev/null'' else old_path)
                   (if new_missing then ''/dev/null'' else new_path) context_lines [] [] Unified Myers
                   \<lparr>io_fs = None, io_world = w\<rparr>
             in if exit_code = 0 then Some (update done_ranges)
                else map_option update (parse_ranges output))"

fun ranges_collide :: "int list \<Rightarrow> int list \<Rightarrow> bool" where
  "ranges_collide (a # as) (b # bs) =
     (if a < b then odd (length (b # bs)) \<or> ranges_collide as (b # bs)
      else if a > b then odd (length (a # as)) \<or> ranges_collide (a # as) bs
      else length (a # as) mod 2 = length (b # bs) mod 2 \<or> ranges_collide as bs)"
| "ranges_collide as bs = False"

definition is_conflict ::
  "'w platform \<Rightarrow> quilt_state \<Rightarrow> graph_node list \<Rightarrow> nat \<Rightarrow> nat \<Rightarrow> string \<Rightarrow> int \<Rightarrow> 'w \<Rightarrow>
   (bool \<times> graph_node list) option" where
  "is_conflict P q nodes from to file context_lines w =
     (case compute_ranges P q nodes from file context_lines w of
        None \<Rightarrow> None
      | Some nodes \<Rightarrow>
          map_option (\<lambda>nodes. (ranges_collide (lr_right (ranges_of (nodes ! from) file))
                                 (lr_left (ranges_of (nodes ! to) file)), nodes))
            (compute_ranges P q nodes to file context_lines w))"

section \<open>The edges\<close>

record graph_state =
  gs_nodes :: "graph_node list"
  gs_seen :: "string \<Rightarrow> nat list"
  gs_edges :: edge_map
  gs_used :: "nat set"

text \<open>The loop over the earlier nodes with the file, from the last one back.\<close>

fun find_conflict ::
  "'w platform \<Rightarrow> quilt_state \<Rightarrow> nat \<Rightarrow> string \<Rightarrow> int \<Rightarrow> 'w \<Rightarrow> nat list \<Rightarrow> graph_node list \<Rightarrow>
   (nat option \<times> graph_node list) option" where
  "find_conflict P q number file ctx w [] nodes = Some (None, nodes)"
| "find_conflict P q number file ctx w (prev # prevs) nodes =
     (case is_conflict P q nodes number prev file ctx w of
        None \<Rightarrow> None
      | Some (found, nodes) \<Rightarrow>
          if found then Some (Some prev, nodes) else find_conflict P q number file ctx w prevs nodes)"

definition find_dependency ::
  "'w platform \<Rightarrow> quilt_state \<Rightarrow> int option \<Rightarrow> 'w \<Rightarrow> nat \<Rightarrow> string \<Rightarrow> graph_state \<Rightarrow>
   (nat option \<times> graph_node list) option" where
  "find_dependency P q opt_lines w number file g =
     (let seen = gs_seen g file in
      if seen = [] then Some (None, gs_nodes g)
      else case opt_lines of
             Some ctx \<Rightarrow> find_conflict P q number file ctx w (rev seen) (gs_nodes g)
           | None \<Rightarrow> Some (Some (last seen), gs_nodes g))"

definition graph_file ::
  "'w platform \<Rightarrow> quilt_state \<Rightarrow> int option \<Rightarrow> 'w \<Rightarrow> nat \<Rightarrow> string \<Rightarrow> graph_state \<Rightarrow> graph_state option" where
  "graph_file P q opt_lines w number file g =
     map_option (\<lambda>(dependency, nodes).
       let g = g\<lparr>gs_nodes := nodes, gs_seen := (gs_seen g)(file := gs_seen g file @ [number])\<rparr> in
       case dependency of
         None \<Rightarrow> g
       | Some d \<Rightarrow> g\<lparr>gs_edges := add_edge (gs_edges g) d number file, gs_used := gs_used g \<union> {d, number}\<rparr>)
     (find_dependency P q opt_lines w number file g)"

fun graph_files ::
  "'w platform \<Rightarrow> quilt_state \<Rightarrow> int option \<Rightarrow> 'w \<Rightarrow> nat \<Rightarrow> string list \<Rightarrow> graph_state \<Rightarrow> graph_state option" where
  "graph_files P q opt_lines w number [] g = Some g"
| "graph_files P q opt_lines w number (file # fs) g =
     (case graph_file P q opt_lines w number file g of
        None \<Rightarrow> None | Some g \<Rightarrow> graph_files P q opt_lines w number fs g)"

text \<open>The loop over the nodes: their numbers and files do not change.\<close>

fun graph_nodes ::
  "'w platform \<Rightarrow> quilt_state \<Rightarrow> int option \<Rightarrow> 'w \<Rightarrow> graph_node list \<Rightarrow> graph_state \<Rightarrow> graph_state option" where
  "graph_nodes P q opt_lines w [] g = Some g"
| "graph_nodes P q opt_lines w (node # ns) g =
     (case graph_files P q opt_lines w (g_number node) (map fst (g_files node)) g of
        None \<Rightarrow> None | Some g \<Rightarrow> graph_nodes P q opt_lines w ns g)"

definition start_graph :: "graph_node list \<Rightarrow> graph_state" where
  "start_graph nodes = \<lparr>gs_nodes = nodes, gs_seen = (\<lambda>f. []), gs_edges = [], gs_used = {}\<rparr>"

section \<open>Output\<close>

fun comma_join :: "string list \<Rightarrow> string" where
  "comma_join [] = []"
| "comma_join [a] = a"
| "comma_join (a # as) = a @ '','' @ comma_join as"

text \<open>The logarithm printed with two decimals.\<close>

definition format_len_attr :: "nat \<Rightarrow> nat \<Rightarrow> string" where
  "format_len_attr from to =
     (let hundredths = nat (round (100 * ln (real_of_int (\<bar>int to - int from\<bar> + 3)))) in
      ''len='' @ [dquote] @ nat_str (hundredths div 100) @ ''.'' @ nat_str (hundredths mod 100 div 10) @
        nat_str (hundredths mod 10) @ [dquote])"

definition label_attr :: "string \<Rightarrow> string" where
  "label_attr text = ''label='' @ [dquote] @ text @ [dquote]"

definition render_node :: "graph_node \<Rightarrow> string" where
  "render_node node =
     [tab] @ ''n'' @ nat_str (g_number node) @ '' ['' @
       comma_join (g_attrs node @ [label_attr (dot_escape (g_name node))]) @ ''];'' @ [nl]"

fun label_lines :: "string list \<Rightarrow> string" where
  "label_lines [] = []"
| "label_lines [a] = dot_escape a"
| "label_lines (a # as) = dot_escape a @ [bslash] @ ''n'' @ label_lines as"

definition render_edge :: "bool \<Rightarrow> edge_key \<times> string list \<Rightarrow> string" where
  "render_edge edge_labels = (\<lambda>((from, to), names).
     let names = remdups_adj (sort names);
         attrs = (if edge_labels \<and> names \<noteq> [] then [label_attr (label_lines names)] else []) @
           [format_len_attr from to]
     in [tab] @ ''n'' @ nat_str from @ '' -> n'' @ nat_str to @ '' ['' @ comma_join attrs @ ''];'' @ [nl])"

definition reduced_nodes :: "graph_node list \<Rightarrow> edge_map \<Rightarrow> nat set" where
  "reduced_nodes nodes edges =
     edge_nodes edges \<union> set (map g_number (filter (\<lambda>n. ''style=bold'' \<in> set (g_attrs n)) nodes))"

definition render_dot :: "graph_node list \<Rightarrow> edge_map \<Rightarrow> nat set \<Rightarrow> bool \<Rightarrow> bool \<Rightarrow> string" where
  "render_dot nodes edges used_nodes reduce edge_labels =
     (let edges = (if reduce then reduce_edges edges else edges);
          used_nodes = (if reduce then reduced_nodes nodes edges else used_nodes)
      in ''digraph dependencies {'' @ [nl] @
         concat (map render_node (filter (\<lambda>n. g_number n \<in> used_nodes) nodes)) @
         concat (map (render_edge edge_labels) edges) @ ''}'' @ [nl])"

section \<open>The command\<close>

record graph_opts =
  go_all :: bool
  go_reduce :: bool
  go_edge_labels :: bool
  go_lines :: "int option"
  go_patch :: string

definition graph_defaults :: graph_opts where
  "graph_defaults = \<lparr>go_all = False, go_reduce = False, go_edge_labels = False, go_lines = None, go_patch = []\<rparr>"

definition graph_usage :: "'w platform \<Rightarrow> 'w qs \<Rightarrow> ('a, 'w qs) res" where
  "graph_usage P s = Exit 1 (world (err_line P
     ''Usage: quilt graph [--all] [--reduce] [--lines[=num]] [--edge-labels=files] [-T ps] [patch]'') s)"

definition graph_no_ps :: "'w platform \<Rightarrow> 'w qs \<Rightarrow> ('a, 'w qs) res" where
  "graph_no_ps P s = Exit 1 (world (err_line P ''quilt graph -T ps: not implemented'') s)"

function graph_args :: "'w platform \<Rightarrow> string list \<Rightarrow> graph_opts \<Rightarrow> 'w qs \<Rightarrow> (graph_opts, 'w qs) res" where
  "graph_args P [] u s = Go u s"
| "graph_args P (arg # args) u s =
     (if arg = ''--all'' then graph_args P args (u\<lparr>go_all := True\<rparr>) s
      else if arg = ''--reduce'' then graph_args P args (u\<lparr>go_reduce := True\<rparr>) s
      else if arg = ''--lines'' then
        (if args \<noteq> [] \<and> is_number (hd args) then
           (case checked_int (parse_int (hd args)) of
              None \<Rightarrow> Abort | Some n \<Rightarrow> graph_args P (tl args) (u\<lparr>go_lines := Some n\<rparr>) s)
         else graph_args P args (u\<lparr>go_lines := Some 2\<rparr>) s)
      else if starts_with arg ''--lines='' then
        (if \<not> is_number (drop 8 arg) then graph_usage P s
         else case checked_int (parse_int (drop 8 arg)) of
                None \<Rightarrow> Abort | Some n \<Rightarrow> graph_args P args (u\<lparr>go_lines := Some n\<rparr>) s)
      else if arg = ''--edge-labels'' then
        (if args = [] \<or> hd args \<noteq> ''files'' then graph_usage P s
         else graph_args P (tl args) (u\<lparr>go_edge_labels := True\<rparr>) s)
      else if arg = ''--edge-labels=files'' then graph_args P args (u\<lparr>go_edge_labels := True\<rparr>) s
      else if arg = ''-T'' then (if args = [] \<or> hd args \<noteq> ''ps'' then graph_usage P s else graph_no_ps P s)
      else if arg = ''-Tps'' then graph_no_ps P s
      else if is_option arg then graph_usage P s
      else if go_patch u \<noteq> [] then graph_usage P s
      else graph_args P args (u\<lparr>go_patch := strip_patches_prefix (fst s) arg\<rparr>) s)"
  by pat_completeness auto
termination
  by (relation "measure (\<lambda>(P, args, u, s). length args)") auto

text \<open>The patch whose dependencies are shown; none for all patches.\<close>

definition graph_selected :: "'w platform \<Rightarrow> graph_opts \<Rightarrow> 'w qs \<Rightarrow> (string, 'w qs) res" where
  "graph_selected P u = (\<lambda>(q, w).
     if go_patch u \<noteq> [] \<and> go_all u then graph_usage P (q, w)
     else if go_all u then
       (if q_applied q = [] then Exit 1 (q, err_line P ''No patches applied'' w) else Go [] (q, w))
     else if q_applied q = [] then
       Exit 1 (q, err_line P (if \<not> q_series_file_exists q then ''No series file found''
         else if q_series q = [] then ''No patches in series'' else ''No patches applied'') w)
     else
       let selected = (if go_patch u = [] then last (q_applied q) else go_patch u) in
       if find_in_series q selected = None then
         Exit 1 (q, err_line P '' is not in series'' (err P selected (err P ''Patch '' w)))
       else if \<not> is_applied q selected then
         Exit 1 (q, err_line P '' is not applied'' (err P selected (err P ''Patch '' w)))
       else Go selected (q, w))"

definition make_node :: "'w platform \<Rightarrow> quilt_state \<Rightarrow> 'w \<Rightarrow> nat \<Rightarrow> graph_node" where
  "make_node P q w i =
     \<lparr>g_number = i, g_name = q_applied q ! i,
      g_files = map (\<lambda>f. (f, no_ranges)) (remdups (sort (files_in_patch P q (q_applied q ! i) w))),
      g_attrs = []\<rparr>"

definition make_nodes :: "'w platform \<Rightarrow> quilt_state \<Rightarrow> 'w \<Rightarrow> graph_node list" where
  "make_nodes P q w = map (make_node P q w) [0..<length (q_applied q)]"

text \<open>Marking the first node of the selected patch, and keeping only its files.\<close>

definition select_node :: "string \<Rightarrow> graph_node list \<Rightarrow> nat option" where
  "select_node name nodes = (case filter (\<lambda>n. g_name n = name) nodes of [] \<Rightarrow> None | n # ns \<Rightarrow> Some (g_number n))"

definition keep_files :: "graph_node \<Rightarrow> graph_node \<Rightarrow> graph_node" where
  "keep_files sel node = node\<lparr>g_files := filter (\<lambda>(f, r). has_file sel f) (g_files node)\<rparr>"

definition mark_selected :: "nat \<Rightarrow> graph_node list \<Rightarrow> graph_node list" where
  "mark_selected i nodes =
     (let sel = (nodes ! i)\<lparr>g_attrs := g_attrs (nodes ! i) @ [''style=bold'', ''color=grey'']\<rparr>
      in map (keep_files sel) (nodes[i := sel]))"

definition connected :: "edge_map \<Rightarrow> nat \<Rightarrow> nat set" where
  "connected edges i = collect_reachable edges i True \<union> collect_reachable edges i False"

definition restrict_edges :: "nat set \<Rightarrow> edge_map \<Rightarrow> edge_map" where
  "restrict_edges nodes edges = filter (\<lambda>(k, v). fst k \<in> nodes \<and> snd k \<in> nodes) edges"

definition graph_text ::
  "'w platform \<Rightarrow> quilt_state \<Rightarrow> graph_opts \<Rightarrow> nat option \<Rightarrow> graph_node list \<Rightarrow> 'w \<Rightarrow> string option" where
  "graph_text P q u selected nodes w =
     map_option (\<lambda>g.
       let (edges, used) = (case selected of
             Some i \<Rightarrow> (restrict_edges (connected (gs_edges g) i) (gs_edges g), connected (gs_edges g) i)
           | None \<Rightarrow> (gs_edges g, gs_used g))
       in render_dot (gs_nodes g) edges used (go_reduce u) (go_edge_labels u))
     (graph_nodes P q (go_lines u) w nodes (start_graph nodes))"

definition cmd_graph :: "'w platform \<Rightarrow> string list \<Rightarrow> 'w qs \<Rightarrow> (int, 'w qs) res" where
  "cmd_graph P args s =
     bind_res (graph_args P args graph_defaults s) (\<lambda>u s.
     bind_res (graph_selected P u s) (\<lambda>selected_patch (q, w).
       let nodes = make_nodes P q w;
           selected = (if selected_patch = [] then None else select_node selected_patch nodes);
           nodes = (case selected of Some i \<Rightarrow> mark_selected i nodes | None \<Rightarrow> nodes)
       in if selected_patch \<noteq> [] \<and> selected = None then
            Exit 1 (q, err_line P '' is not applied'' (err P selected_patch (err P ''Patch '' w)))
          else case graph_text P q u selected nodes w of
                 None \<Rightarrow> Abort
               | Some dot \<Rightarrow> Go 0 (q, out P dot w)))"

section \<open>Laws: conflicts\<close>

text \<open>Half-open intervals in order, as the vectors of ranges hold them.\<close>

fun flat_ranges :: "(int \<times> int) list \<Rightarrow> int list" where
  "flat_ranges [] = []"
| "flat_ranges ((s, e) # rs) = s # e # flat_ranges rs"

fun ranges_ok :: "int \<Rightarrow> (int \<times> int) list \<Rightarrow> bool" where
  "ranges_ok lo [] = True"
| "ranges_ok lo ((s, e) # rs) \<longleftrightarrow> lo \<le> s \<and> s < e \<and> ranges_ok e rs"

definition overlap :: "(int \<times> int) list \<Rightarrow> (int \<times> int) list \<Rightarrow> bool" where
  "overlap as bs \<longleftrightarrow> (\<exists>(s, e) \<in> set as. \<exists>(s', e') \<in> set bs. max s s' < min e e')"

lemma length_flat [simp]: "length (flat_ranges rs) = 2 * length rs"
  by (induction rs rule: flat_ranges.induct) auto

lemma ranges_ok_bounds: "ranges_ok lo rs \<Longrightarrow> (s, e) \<in> set rs \<Longrightarrow> lo \<le> s \<and> s < e"
  by (induction lo rs rule: ranges_ok.induct) fastforce+

lemma ranges_ok_mono: "ranges_ok lo rs \<Longrightarrow> lo' \<le> lo \<Longrightarrow> ranges_ok lo' rs"
  by (cases rs) auto

lemma overlap_Nil [simp]: "overlap [] bs \<longleftrightarrow> False" "overlap as [] \<longleftrightarrow> False"
  by (auto simp: overlap_def)

lemma overlap_Cons:
  "overlap ((s, e) # as) bs \<longleftrightarrow> (\<exists>(s', e') \<in> set bs. max s s' < min e e') \<or> overlap as bs"
  "overlap as ((s, e) # bs) \<longleftrightarrow> (\<exists>(s', e') \<in> set as. max s s' < min e e') \<or> overlap as bs"
  by (auto simp: overlap_def max.commute min.commute)

lemma no_overlap_behind: "ranges_ok e rs \<Longrightarrow> \<not> (\<exists>(s', e') \<in> set rs. max s s' < min e e')"
  using ranges_ok_bounds by fastforce

text \<open>The three states of the merge: outside of both, inside of the first, inside of the
  second.\<close>

lemma conflict_loop_states:
  "length as + length bs < n \<Longrightarrow>
   (\<forall>l l'. ranges_ok l as \<and> ranges_ok l' bs \<longrightarrow>
      ranges_collide (flat_ranges as) (flat_ranges bs) = overlap as bs) \<and>
   (\<forall>s e. ranges_ok e as \<and> s < e \<and> ranges_ok s bs \<longrightarrow>
      ranges_collide (e # flat_ranges as) (flat_ranges bs) = overlap ((s, e) # as) bs) \<and>
   (\<forall>s e. ranges_ok s as \<and> s < e \<and> ranges_ok e bs \<longrightarrow>
      ranges_collide (flat_ranges as) (e # flat_ranges bs) = overlap as ((s, e) # bs))"
proof (induction n arbitrary: as bs)
  case (Suc n)
  have inside: "ranges_collide (e # flat_ranges as') (flat_ranges bs') = overlap ((s, e) # as') bs'"
      "ranges_collide (flat_ranges bs') (e # flat_ranges as') = overlap bs' ((s, e) # as')"
    if "length as' + length bs' < n" "ranges_ok e as'" "s < e" "ranges_ok s bs'" for as' bs' s e
    using Suc.IH[of as' bs'] Suc.IH[of bs' as'] that by (simp_all add: add.commute)
  have outside: "ranges_collide (flat_ranges as) (flat_ranges bs) = overlap as bs"
    if ok: "ranges_ok l as" "ranges_ok l' bs" for l l'
  proof (cases "as = [] \<or> bs = []")
    case False
    then obtain s e as' s' e' bs' where c: "as = (s, e) # as'" "bs = (s', e') # bs'"
      by (metis neq_Nil_conv surj_pair)
    consider "s < s'" | "s > s'" | "s = s'" by linarith
    then show ?thesis
    proof cases
      case 1
      then have "ranges_ok s bs" using ok c by simp
      then show ?thesis using 1 inside(1)[of as' bs e s] ok c Suc.prems by auto
    next
      case 2
      then have "ranges_ok s' as" using ok c by simp
      then show ?thesis using 2 inside(2)[of bs' as e' s'] ok c Suc.prems by auto
    next
      case 3
      then show ?thesis using ok c by (auto simp: overlap_Cons)
    qed
  qed auto
  have first: "ranges_collide (e # flat_ranges as) (flat_ranges bs) = overlap ((s, e) # as) bs"
    if ok: "ranges_ok e as" "s < e" "ranges_ok s bs" for s e
  proof (cases bs)
    case (Cons b bs')
    obtain s' e' where b: "b = (s', e')" by (cases b)
    consider "e < s'" | "e > s'" | "e = s'" by linarith
    then show ?thesis
    proof cases
      case 1
      then have "ranges_ok e bs" using ok b Cons by simp
      then have "overlap ((s, e) # as) bs = overlap as bs"
        unfolding overlap_Cons(1) using no_overlap_behind[of e bs s] by blast
      then show ?thesis using 1 outside[OF ok(1) ok(3)] b Cons by simp
    next
      case 2
      then show ?thesis using ok b Cons by (auto simp: overlap_Cons)
    next
      case 3
      then have "ranges_ok e bs" using ok b Cons by simp
      then have "overlap ((s, e) # as) bs = overlap as bs"
        unfolding overlap_Cons(1) using no_overlap_behind[of e bs s] by blast
      then show ?thesis using 3 inside(2)[of bs' as e' s'] ok b Cons Suc.prems by simp
    qed
  qed (auto simp: overlap_def)
  have second: "ranges_collide (flat_ranges as) (e # flat_ranges bs) = overlap as ((s, e) # bs)"
    if ok: "ranges_ok s as" "s < e" "ranges_ok e bs" for s e
  proof (cases as)
    case (Cons a as')
    obtain s' e' where a: "a = (s', e')" by (cases a)
    consider "e < s'" | "e > s'" | "e = s'" by linarith
    then show ?thesis
    proof cases
      case 1
      then have "ranges_ok e as" using ok a Cons by simp
      then have "overlap as ((s, e) # bs) = overlap as bs"
        unfolding overlap_Cons(2) using no_overlap_behind[of e as s] by blast
      then show ?thesis using 1 outside[OF ok(1) ok(3)] a Cons by simp
    next
      case 2
      then show ?thesis using ok a Cons by (auto simp: overlap_Cons)
    next
      case 3
      then have "ranges_ok e as" using ok a Cons by simp
      then have "overlap as ((s, e) # bs) = overlap as bs"
        unfolding overlap_Cons(2) using no_overlap_behind[of e as s] by blast
      then show ?thesis using 3 inside(1)[of as' bs e' s'] ok a Cons Suc.prems by simp
    qed
  qed (auto simp: overlap_def)
  show ?case using outside first second by blast
qed simp

lemma conflict_loop_overlap:
  "ranges_ok l as \<Longrightarrow> ranges_ok l' bs \<Longrightarrow>
   ranges_collide (flat_ranges as) (flat_ranges bs) \<longleftrightarrow> overlap as bs"
  using conflict_loop_states[OF lessI, of as bs] by blast

section \<open>Laws: the edges\<close>

lemma find_conflict_in:
  "find_conflict P q number file ctx w prevs nodes = Some (Some d, nodes') \<Longrightarrow> d \<in> set prevs"
proof (induction prevs arbitrary: nodes)
  case (Cons prev prevs)
  then obtain found nodes1 where "is_conflict P q nodes number prev file ctx w = Some (found, nodes1)"
    by (auto split: option.splits)
  with Cons show ?case by (cases found) auto
qed simp

lemma find_dependency_seen:
  "find_dependency P q lns w number file g = Some (Some d, nodes') \<Longrightarrow> d \<in> set (gs_seen g file)"
  using find_conflict_in[of P q number "file" _ w "rev (gs_seen g file)" "gs_nodes g" d nodes']
  by (auto simp: find_dependency_def Let_def split: if_splits option.splits)

text \<open>Before the files \<open>fs\<close> of node \<open>k\<close>: the nodes seen lie below, and the
  edges go upwards.\<close>

definition seen_below :: "nat \<Rightarrow> string list \<Rightarrow> graph_state \<Rightarrow> bool" where
  "seen_below k fs g \<longleftrightarrow>
     (\<forall>f x. x \<in> set (gs_seen g f) \<longrightarrow> x \<le> k \<and> (f \<in> set fs \<longrightarrow> x < k)) \<and> upward (gs_edges g)"

lemma graph_file_fields:
  assumes "graph_file P q lns w k file g = Some g'"
  obtains dep nodes where "find_dependency P q lns w k file g = Some (dep, nodes)"
    "gs_seen g' = (gs_seen g)(file := gs_seen g file @ [k])"
    "gs_edges g' = (case dep of None \<Rightarrow> gs_edges g | Some d \<Rightarrow> add_edge (gs_edges g) d k file)"
    "gs_nodes g' = nodes"
  using assms by (fastforce simp: graph_file_def Let_def split: option.splits)

lemma graph_file_below:
  assumes "seen_below k (file # fs) g" "file \<notin> set fs" "graph_file P q lns w k file g = Some g'"
  shows "seen_below k fs g'"
proof -
  from assms(3) obtain dep nodes where d: "find_dependency P q lns w k file g = Some (dep, nodes)"
    "gs_seen g' = (gs_seen g)(file := gs_seen g file @ [k])"
    "gs_edges g' = (case dep of None \<Rightarrow> gs_edges g | Some d \<Rightarrow> add_edge (gs_edges g) d k file)"
    by (rule graph_file_fields)
  have "d < k" if "dep = Some d" for d
    using find_dependency_seen[of P q lns w k "file" g d nodes] d that assms(1) by (auto simp: seen_below_def)
  then show ?thesis
    using assms(1,2) by (auto simp: d seen_below_def upward_def split: option.splits)
qed

lemma graph_files_below:
  "seen_below k fs g \<Longrightarrow> distinct fs \<Longrightarrow> graph_files P q lns w k fs g = Some g' \<Longrightarrow> seen_below k [] g'"
proof (induction fs arbitrary: g)
  case (Cons f fs)
  then obtain g1 where g: "graph_file P q lns w k f g = Some g1" "graph_files P q lns w k fs g1 = Some g'"
    by (auto split: option.splits)
  show ?case
    by (rule Cons.IH[OF graph_file_below[OF Cons.prems(1) _ g(1)] _ g(2)]) (use Cons.prems in auto)
qed simp

definition nodes_ok :: "graph_node list \<Rightarrow> bool" where
  "nodes_ok nodes \<longleftrightarrow>
     (\<forall>i < length nodes. g_number (nodes ! i) = i \<and> distinct (map fst (g_files (nodes ! i))))"

lemma graph_nodes_below:
  assumes "\<forall>i < length ns. g_number (ns ! i) = k + i \<and> distinct (map fst (g_files (ns ! i)))"
    "\<forall>f x. x \<in> set (gs_seen g f) \<longrightarrow> x < k" "upward (gs_edges g)" "graph_nodes P q lns w ns g = Some g'"
  shows "upward (gs_edges g')"
  using assms
proof (induction ns arbitrary: k g)
  case (Cons n ns)
  then obtain g1 where g: "graph_files P q lns w (g_number n) (map fst (g_files n)) g = Some g1"
      "graph_nodes P q lns w ns g1 = Some g'"
    by (auto split: option.splits)
  have n: "g_number n = k" "distinct (map fst (g_files n))" using Cons.prems(1)[rule_format, of 0] by auto
  have "seen_below k (map fst (g_files n)) g" using Cons.prems(2,3) by (auto simp: seen_below_def intro: less_imp_le)
  then have "seen_below k [] g1" by (rule graph_files_below[OF _ n(2) g(1)[unfolded n(1)]])
  then have "\<forall>f x. x \<in> set (gs_seen g1 f) \<longrightarrow> x < k + 1" "upward (gs_edges g1)"
    by (auto simp: seen_below_def less_Suc_eq_le)
  moreover have "\<forall>i < length ns. g_number (ns ! i) = (k + 1) + i \<and> distinct (map fst (g_files (ns ! i)))"
    using Cons.prems(1) by (metis Suc_eq_plus1 add_Suc_right add_Suc_shift length_Cons Suc_less_eq nth_Cons_Suc)
  ultimately show ?case using Cons.IH g(2) by blast
qed simp

lemma graph_edges_upward:
  "nodes_ok nodes \<Longrightarrow> graph_nodes P q lns w nodes (start_graph nodes) = Some g \<Longrightarrow> upward (gs_edges g)"
  by (rule graph_nodes_below[of nodes 0 "start_graph nodes"])
    (auto simp: nodes_ok_def start_graph_def upward_def edge_rel_def)

text \<open>Without line ranges: a node depends on the last node below it that has a file of its
  own.\<close>

definition last_below :: "graph_node list \<Rightarrow> nat \<Rightarrow> nat \<Rightarrow> string \<Rightarrow> bool" where
  "last_below nodes a b f \<longleftrightarrow>
     a < b \<and> has_file (nodes ! a) f \<and> has_file (nodes ! b) f \<and> (\<forall>c. a < c \<and> c < b \<longrightarrow> \<not> has_file (nodes ! c) f)"

lemma last_filter_upt:
  assumes "filter p [0..<k] \<noteq> []"
  shows "last (filter p [0..<k]) < k \<and> p (last (filter p [0..<k])) \<and>
    (\<forall>c. last (filter p [0..<k]) < c \<and> c < k \<longrightarrow> \<not> p c)"
  using assms
proof (induction k)
  case (Suc k)
  show ?case
  proof (cases "p k")
    case False
    then have eq: "filter p [0..<Suc k] = filter p [0..<k]" by simp
    show ?thesis unfolding eq using Suc.IH Suc.prems[unfolded eq] False by (metis less_Suc_eq)
  qed auto
qed simp

lemma last_below_iff:
  assumes "b < length nodes" "has_file (nodes ! b) f"
  defines "seen \<equiv> filter (\<lambda>i. has_file (nodes ! i) f) [0..<b]"
  shows "last_below nodes a b f \<longleftrightarrow> seen \<noteq> [] \<and> a = last seen"
proof
  assume l: "last_below nodes a b f"
  then have "a \<in> set seen" unfolding seen_def by (simp add: last_below_def)
  then have ne: "seen \<noteq> []" by auto
  note s = last_filter_upt[OF ne[unfolded seen_def], folded seen_def]
  have "\<not> last seen < a" using s l unfolding last_below_def by blast
  moreover have "\<not> a < last seen" using s l unfolding last_below_def by blast
  ultimately show "seen \<noteq> [] \<and> a = last seen" using ne by simp
next
  assume a: "seen \<noteq> [] \<and> a = last seen"
  note s = last_filter_upt[of "\<lambda>i. has_file (nodes ! i) f" b, folded seen_def]
  show "last_below nodes a b f" using s a assms(2) by (simp add: last_below_def)
qed

text \<open>The state while node \<open>k\<close> is treated, with the files \<open>done\<close> behind.\<close>

definition graph_at :: "graph_node list \<Rightarrow> nat \<Rightarrow> string set \<Rightarrow> graph_state \<Rightarrow> bool" where
  "graph_at nodes k fs g \<longleftrightarrow>
     gs_seen g = (\<lambda>f. filter (\<lambda>i. has_file (nodes ! i) f) [0..<k] @ (if f \<in> fs then [k] else [])) \<and>
     edge_rel (gs_edges g) = {(a, b). \<exists>f. last_below nodes a b f \<and> (b < k \<or> (b = k \<and> f \<in> fs))}"

lemma graph_files_at:
  assumes "k < length nodes" "graph_at nodes k S g" "distinct fs" "S \<inter> set fs = {}"
    "\<forall>f \<in> set fs. has_file (nodes ! k) f" "graph_files P q None w k fs g = Some g'"
  shows "graph_at nodes k (S \<union> set fs) g'"
  using assms(2-6)
proof (induction fs arbitrary: S g)
  case (Cons f fs)
  then obtain g1 where g: "graph_file P q None w k f g = Some g1" "graph_files P q None w k fs g1 = Some g'"
    by (auto split: option.splits)
  let ?seen = "filter (\<lambda>i. has_file (nodes ! i) f) [0..<k]"
  have f: "f \<notin> S" "has_file (nodes ! k) f" using Cons.prems(3,4) by auto
  have seen: "gs_seen g f = ?seen" using Cons.prems(1) f(1) by (simp add: graph_at_def)
  have lb: "last_below nodes a k f \<longleftrightarrow> ?seen \<noteq> [] \<and> a = last ?seen" for a
    by (rule last_below_iff[OF assms(1) f(2)])
  from g(1) obtain dep ns where d: "find_dependency P q None w k f g = Some (dep, ns)"
    "gs_seen g1 = (gs_seen g)(f := gs_seen g f @ [k])"
    "gs_edges g1 = (case dep of None \<Rightarrow> gs_edges g | Some d \<Rightarrow> add_edge (gs_edges g) d k f)"
    by (rule graph_file_fields)
  have dep: "dep = (if ?seen = [] then None else Some (last ?seen))"
    using d(1) unfolding find_dependency_def Let_def seen by (auto split: if_splits)
  have "edge_rel (gs_edges g1) = edge_rel (gs_edges g) \<union> {(a, b). b = k \<and> last_below nodes a k f}"
    unfolding d(3) dep lb by auto
  then have "graph_at nodes k (insert f S) g1"
    using Cons.prems(1) f(1) unfolding graph_at_def d(2) by (auto simp: fun_eq_iff)
  then have "graph_at nodes k (insert f S \<union> set fs) g'"
    by (rule Cons.IH) (use Cons.prems g(2) in auto)
  then show ?case by simp
qed simp

lemma graph_nodes_at:
  assumes "nodes_ok nodes" "k + length ns = length nodes" "ns = drop k nodes" "graph_at nodes k {} g"
    "graph_nodes P q None w ns g = Some g'"
  shows "graph_at nodes (length nodes) {} g'"
  using assms(2-5)
proof (induction ns arbitrary: k g)
  case (Cons n ns)
  from Cons.prems(4) obtain g1 where g: "graph_files P q None w (g_number n) (map fst (g_files n)) g = Some g1"
      "graph_nodes P q None w ns g1 = Some g'"
    by (auto split: option.splits)
  have k: "k < length nodes" using Cons.prems(1) by simp
  then have n: "n = nodes ! k" "ns = drop (k + 1) nodes"
    using Cons.prems(2) by (metis Cons_nth_drop_Suc list.inject Suc_eq_plus1)+
  have ok: "g_number n = k" "distinct (map fst (g_files n))" using assms(1) k n(1) by (auto simp: nodes_ok_def)
  have "graph_at nodes k ({} \<union> set (map fst (g_files n))) g1"
    by (rule graph_files_at[OF k Cons.prems(3) ok(2)]) (use g(1) ok n in \<open>auto simp: has_file_def\<close>)
  moreover have "f \<in> set (map fst (g_files n)) \<longleftrightarrow> has_file (nodes ! k) f" for f
    by (simp add: has_file_def n(1))
  ultimately have "graph_at nodes (k + 1) {} g1"
    by (auto simp: graph_at_def fun_eq_iff last_below_def less_Suc_eq)
  then show ?case using Cons.IH[of "k + 1" g1] Cons.prems(1) g(2) n(2) by simp
qed simp

lemma graph_edges_files:
  assumes "nodes_ok nodes" "graph_nodes P q None w nodes (start_graph nodes) = Some g"
  shows "edge_rel (gs_edges g) = {(a, b). b < length nodes \<and> (\<exists>f. last_below nodes a b f)}"
proof -
  have "graph_at nodes 0 {} (start_graph nodes)" by (auto simp: graph_at_def start_graph_def edge_rel_def)
  then have "graph_at nodes (length nodes) {} g"
    using graph_nodes_at[OF assms(1), of 0 nodes "start_graph nodes"] assms(2) by simp
  then show ?thesis by (auto simp: graph_at_def)
qed

lemma graph_files_total: "graph_files P q None w k fs g \<noteq> None"
  by (induction fs arbitrary: g) (auto simp: graph_file_def find_dependency_def Let_def split: option.splits)

lemma graph_nodes_total: "graph_nodes P q None w ns g \<noteq> None"
  by (induction ns arbitrary: g) (use graph_files_total in \<open>auto split: option.splits\<close>)

lemma make_nodes_ok: "nodes_ok (make_nodes P q w)"
  by (simp add: nodes_ok_def make_nodes_def make_node_def comp_def)

lemma mark_selected_ok:
  assumes "nodes_ok nodes" "i < length nodes"
  shows "nodes_ok (mark_selected i nodes)"
proof -
  have "distinct (map fst (filter p xs))" if "distinct (map fst xs)" for p and xs :: "(string \<times> line_ranges) list"
    using that by (induction xs) auto
  then show ?thesis using assms
    by (auto simp: nodes_ok_def mark_selected_def keep_files_def Let_def nth_list_update)
qed

end
