(* ===== verification/Quilt_Mail.thy ===== *)
theory Quilt_Mail
  imports Header_Text Stack_Query "HOL-Library.Word" "HOL-Library.Signed_Division"
begin

unbundle bit_operations_syntax

text \<open>
  The command mail (\<open>cmd_mail.cpp\<close> part of \<open>src/src/quilt.cpp\<close>) and the
  commands that are not implemented: the encoding of a subject with other than ASCII characters,
  the date and the message id, the message of a patch, the range of patches, and the mbox file.
  The laws: decoding the encoded subject gives the subject back, and its lines are short and in
  ASCII.
\<close>

section \<open>Header fields\<close>

definition has_non_ascii :: "string \<Rightarrow> bool" where
  "has_non_ascii s \<longleftrightarrow> (\<exists>c \<in> set s. (of_char c :: nat) > 127)"

definition must_encode :: "char \<Rightarrow> bool" where
  "must_encode c \<longleftrightarrow> c = CHR ''='' \<or> c = CHR ''?'' \<or> c = CHR ''_'' \<or> c = spc \<or> (of_char c :: nat) > 127"

definition hex_digit_upper :: "nat \<Rightarrow> char" where
  "hex_digit_upper n = ''0123456789ABCDEF'' ! n"

definition encode_char :: "char \<Rightarrow> string" where
  "encode_char c =
     (if must_encode c then [CHR ''='', hex_digit_upper (of_char c div 16), hex_digit_upper (of_char c mod 16)] else [c])"

definition word_open :: string where "word_open = ''=?UTF-8?q?''"
definition word_close :: string where "word_close = ''?=''"
definition word_break :: string where "word_break = word_close @ [nl] @ '' '' @ word_open"

fun rfc2047_loop :: "string \<Rightarrow> int \<Rightarrow> string" where
  "rfc2047_loop [] line_len = word_close"
| "rfc2047_loop (ch # s) line_len =
     (let encoded = encode_char ch in
      if line_len + int (length encoded) + 2 > 75 then
        word_break @ encoded @ rfc2047_loop s (12 + int (length encoded))
      else encoded @ rfc2047_loop s (line_len + int (length encoded)))"

definition rfc2047_encode :: "string \<Rightarrow> string" where
  "rfc2047_encode s = word_open @ rfc2047_loop s 10"

text \<open>The access to a table, \<open>None\<close> out of its bounds.\<close>

definition table_at :: "string list \<Rightarrow> int \<Rightarrow> string option" where
  "table_at t i = (if 0 \<le> i \<and> i < int (length t) then Some (t ! nat i) else None)"

definition day_names :: "string list" where
  "day_names = [''Sun'', ''Mon'', ''Tue'', ''Wed'', ''Thu'', ''Fri'', ''Sat'']"

definition month_names :: "string list" where
  "month_names = [''Jan'', ''Feb'', ''Mar'', ''Apr'', ''May'', ''Jun'', ''Jul'', ''Aug'', ''Sep'', ''Oct'', ''Nov'', ''Dec'']"

definition format_zone :: "int \<Rightarrow> string" where
  "format_zone utc_offset =
     (let tz_hours = utc_offset sdiv 3600; tz_mins = (utc_offset smod 3600) sdiv 60
      in pad_signed 3 tz_hours @ pad_int 2 (if tz_mins < 0 then - tz_mins else tz_mins))"

definition format_rfc2822_date :: "'w platform \<Rightarrow> int \<Rightarrow> 'w \<Rightarrow> string option" where
  "format_rfc2822_date P t w =
     (let dt = local_time P t w in
      case (table_at day_names (dt_weekday dt), table_at month_names (dt_month dt - 1)) of
        (Some day, Some month) \<Rightarrow>
          Some (day @ '', '' @ int_str (dt_day dt) @ '' '' @ month @ '' '' @ int_str (dt_year dt) @ '' '' @
            pad_int 2 (dt_hour dt) @ '':'' @ pad_int 2 (dt_min dt) @ '':'' @ pad_int 2 (dt_sec dt) @ '' '' @
            format_zone (dt_utc_offset dt))
      | _ \<Rightarrow> None)"

definition fnv1a_64 :: "string \<Rightarrow> 64 word" where
  "fnv1a_64 data =
     fold (\<lambda>ch h. (h XOR word_of_nat (of_char ch)) * 0x100000001b3) data 0xcbf29ce484222325"

definition hex16 :: "64 word \<Rightarrow> string" where
  "hex16 h = map (\<lambda>i. ''0123456789abcdef'' ! (unat h div 16 ^ (15 - i) mod 16)) [0..<16]"

definition mail_domain :: "string \<Rightarrow> string" where
  "mail_domain from =
     (let at = str_find from (CHR ''@'') 0 in
      if at \<ge> 0 then
        let e = str_find from (CHR ''>'') at; e = (if e < 0 then int (length from) else e)
        in substr from (at + 1) (e - at - 1)
      else ''localhost'')"

definition make_message_id :: "'w platform \<Rightarrow> int \<Rightarrow> int \<Rightarrow> string \<Rightarrow> string \<Rightarrow> 'w \<Rightarrow> string" where
  "make_message_id P t sq from content w =
     ''<'' @ int_str t @ ''.'' @ int_str sq @ ''.'' @ hex16 (fnv1a_64 content) @ ''.'' @
       int_str (current_time P w) @ ''@'' @ mail_domain from @ ''>''"

definition num_width :: "int \<Rightarrow> nat" where
  "num_width n = (if n < 10 then 1 else if n < 100 then 2 else if n < 1000 then 3 else 4)"

section \<open>Options\<close>

record mail_opts =
  ml_mbox :: string
  ml_from :: string
  ml_sender :: string
  ml_prefix :: string
  ml_to :: "string list"
  ml_cc :: "string list"
  ml_bcc :: "string list"
  ml_args :: "string list"

definition mail_defaults :: mail_opts where
  "mail_defaults = \<lparr>ml_mbox = [], ml_from = [], ml_sender = [], ml_prefix = ''PATCH'',
     ml_to = [], ml_cc = [], ml_bcc = [], ml_args = []\<rparr>"

definition ignored_mail_options :: "string list" where
  "ignored_mail_options = [''--subject'', ''-m'', ''-M'', ''--reply-to'', ''--charset'', ''--signature'']"

definition mail_usage :: string where
  "mail_usage = ''Usage: quilt mail {--mbox file} [--prefix prefix] '' @
     ''[--sender ...] [--from ...] [--to ...] [--cc ...] '' @ ''[--bcc ...] [first_patch [last_patch]]''"

function mail_parse :: "'w platform \<Rightarrow> string list \<Rightarrow> mail_opts \<Rightarrow> 'w qs \<Rightarrow> (mail_opts, 'w qs) res" where
  "mail_parse P [] u s = Go u s"
| "mail_parse P (arg # args) u s =
     (let more = (args \<noteq> []) in
      if arg = ''--mbox'' \<and> more then mail_parse P (tl args) (u\<lparr>ml_mbox := hd args\<rparr>) s
      else if arg = ''--send'' then
        Exit 1 (world (err_line P ''quilt mail: send mode is not supported; use --mbox'') s)
      else if arg = ''--sender'' \<and> more then mail_parse P (tl args) (u\<lparr>ml_sender := hd args\<rparr>) s
      else if arg = ''--from'' \<and> more then mail_parse P (tl args) (u\<lparr>ml_from := hd args\<rparr>) s
      else if arg = ''--prefix'' \<and> more then mail_parse P (tl args) (u\<lparr>ml_prefix := hd args\<rparr>) s
      else if arg = ''--to'' \<and> more then mail_parse P (tl args) (u\<lparr>ml_to := ml_to u @ [hd args]\<rparr>) s
      else if arg = ''--cc'' \<and> more then mail_parse P (tl args) (u\<lparr>ml_cc := ml_cc u @ [hd args]\<rparr>) s
      else if arg = ''--bcc'' \<and> more then mail_parse P (tl args) (u\<lparr>ml_bcc := ml_bcc u @ [hd args]\<rparr>) s
      else if arg \<in> set ignored_mail_options \<and> more then mail_parse P (tl args) u s
      else if arg = ''-h'' \<or> arg = ''--help'' then Exit 0 (world (out_line P mail_usage) s)
      else if \<not> is_option arg \<or> arg = ''-'' then mail_parse P args (u\<lparr>ml_args := ml_args u @ [arg]\<rparr>) s
      else Exit 1 (world (\<lambda>w. err_line P arg (err P ''quilt mail: unknown option: '' w)) s))"
  by pat_completeness auto
termination
  by (relation "measure (\<lambda>(P, args, u, s). length args)") auto

definition effective_from :: "mail_opts \<Rightarrow> string" where
  "effective_from u = (if ml_from u = [] then ml_sender u else ml_from u)"

text \<open>An end of the range: the position of a patch, or the default for a dash.\<close>

definition mail_bound :: "'w platform \<Rightarrow> string \<Rightarrow> int \<Rightarrow> 'w qs \<Rightarrow> (int, 'w qs) res" where
  "mail_bound P name dflt = (\<lambda>(q, w).
     if name = ''-'' then Go dflt (q, w)
     else case find_in_series q name of
            None \<Rightarrow> Exit 1 (q, err_line P (''Patch '' @ name @ '' is not in series'') w)
          | Some i \<Rightarrow> Go i (q, w))"

definition mail_range :: "'w platform \<Rightarrow> string list \<Rightarrow> 'w qs \<Rightarrow> (int \<times> int, 'w qs) res" where
  "mail_range P positional s =
     (let n = int (length (q_series (fst s))) in
      case positional of
        [] \<Rightarrow> Go (0, n - 1) s
      | [name] \<Rightarrow>
          if name = ''-'' then Go (0, n - 1) s else bind_res (mail_bound P name 0 s) (\<lambda>i s. Go (i, i) s)
      | [first_name, last_name] \<Rightarrow>
          bind_res (mail_bound P first_name 0 s) (\<lambda>first_idx s.
          bind_res (mail_bound P last_name (n - 1) s) (\<lambda>last_idx s.
            if first_idx > last_idx then
              Exit 1 (world (err_line P ''quilt mail: first patch must come before last patch in series'') s)
            else Go (first_idx, last_idx) s))
      | _ \<Rightarrow> Exit 1 (world (err_line P
          ''Usage: quilt mail {--mbox file} [options] [first_patch [last_patch]]'') s))"

section \<open>Messages\<close>

definition subject_and_body :: "string \<Rightarrow> string \<times> string" where
  "subject_and_body header =
     (case dropWhile (\<lambda>l. trim l = []) (split_lines header) of
        [] \<Rightarrow> ([], [])
      | l # ls \<Rightarrow> (trim l, unlines ls))"

definition subject_prefix :: "string \<Rightarrow> int \<Rightarrow> int \<Rightarrow> string" where
  "subject_prefix pfx sq num =
     (if num = 1 then ''['' @ pfx @ '']''
      else ''['' @ pfx @ '' '' @ pad_int (num_width num) sq @ ''/'' @ int_str num @ '']'')"

definition address_lines :: "string \<Rightarrow> string list \<Rightarrow> string" where
  "address_lines field addrs = concat (map (\<lambda>a. field @ '': '' @ a @ [nl]) addrs)"

definition mail_header ::
  "mail_opts \<Rightarrow> string \<Rightarrow> string \<Rightarrow> string \<Rightarrow> string \<Rightarrow> string \<Rightarrow> string" where
  "mail_header u date full_subject message_id header diff =
     ''From 0000000000000000000000000000000000000000 Mon Sep 17 00:00:00 2001'' @ [nl] @
     ''From: '' @ effective_from u @ [nl] @
     ''Date: '' @ date @ [nl] @
     ''Subject: '' @ (if has_non_ascii full_subject then rfc2047_encode full_subject else full_subject) @ [nl] @
     ''Message-ID: '' @ message_id @ [nl] @
     (if has_non_ascii header \<or> has_non_ascii diff \<or> has_non_ascii full_subject then
        ''MIME-Version: 1.0'' @ [nl] @ ''Content-Type: text/plain; charset=UTF-8'' @ [nl] @
        ''Content-Transfer-Encoding: 8bit'' @ [nl]
      else []) @
     address_lines ''To'' (ml_to u) @ address_lines ''Cc'' (ml_cc u) @ address_lines ''Bcc'' (ml_bcc u) @ [nl]"

definition mail_body :: "string \<Rightarrow> string" where
  "mail_body body = end_line (dropWhile (\<lambda>c. c = nl) body)"

definition blank_before_diff :: "string \<Rightarrow> string" where
  "blank_before_diff msg =
     (if msg \<noteq> [] \<and> last msg = nl \<and> (length msg < 2 \<or> msg ! (length msg - 2) \<noteq> nl) then msg @ [nl] else msg)"

definition mail_trailer :: string where
  "mail_trailer = ''-- '' @ [nl] @ ''quilt'' @ [nl] @ [nl]"

definition mail_message ::
  "'w platform \<Rightarrow> mail_opts \<Rightarrow> string \<Rightarrow> string \<Rightarrow> string \<Rightarrow> int \<Rightarrow> int \<Rightarrow> 'w \<Rightarrow> string option" where
  "mail_message P u patch patch_file content sq num w =
     (let header = extract_header content;
          diff = extract_diff content;
          (subject_text, body) = subject_and_body header;
          subject_text = (if subject_text = [] then patch else subject_text);
          full_subject = subject_prefix (ml_prefix u) sq num @ '' '' @ subject_text;
          mtime = file_mtime P patch_file w;
          msg_time = (if mtime = - 1 then current_time P w else mtime)
      in map_option (\<lambda>date.
           let msg = mail_header u date full_subject
                 (make_message_id P msg_time sq (effective_from u) content w) header diff
           in blank_before_diff (msg @ mail_body body) @ end_line diff @ mail_trailer)
         (format_rfc2822_date P msg_time w))"

fun mail_loop ::
  "'w platform \<Rightarrow> quilt_state \<Rightarrow> mail_opts \<Rightarrow> int \<Rightarrow> int \<Rightarrow> string list \<Rightarrow> string \<Rightarrow> 'w \<Rightarrow> (string \<times> 'w) option" where
  "mail_loop P q u sq num [] mbox w = Some (mbox, w)"
| "mail_loop P q u sq num (patch # ps) mbox w =
     (let patch_file = path_join3 (q_work_dir q) (q_patches_dir q) patch;
          content = read_file P patch_file w
      in if content = [] then
           mail_loop P q u (sq + 1) num ps mbox
             (err_line P '' is empty, skipping'' (err P patch (err P ''Warning: patch '' w)))
         else case mail_message P u patch patch_file content sq num w of
                None \<Rightarrow> None
              | Some msg \<Rightarrow> mail_loop P q u (sq + 1) num ps (mbox @ msg) w)"

definition mail_write :: "'w platform \<Rightarrow> mail_opts \<Rightarrow> int \<Rightarrow> string \<Rightarrow> 'w qs \<Rightarrow> (int, 'w qs) res" where
  "mail_write P u num mbox = (\<lambda>(q, w).
     let (ok, w) = write_file P (ml_mbox u) mbox w in
     if \<not> ok then Exit 1 (q, err_line P (''Failed to write mbox file: '' @ ml_mbox u) w)
     else
       let w = out P '' patch'' (out P (int_str num) (out P ''Wrote '' w));
           w = (if num \<noteq> 1 then out P ''es'' w else w)
       in Go 0 (q, out_line P (ml_mbox u) (out P '' to '' w)))"

definition mail_patches :: "'w platform \<Rightarrow> mail_opts \<Rightarrow> int \<Rightarrow> int \<Rightarrow> 'w qs \<Rightarrow> (int, 'w qs) res" where
  "mail_patches P u first_idx last_idx = (\<lambda>(q, w).
     let num = last_idx - first_idx + 1 in
     case checked_int num of
       None \<Rightarrow> Abort
     | Some _ \<Rightarrow>
         case mail_loop P q u 1 num (take (nat num) (drop (nat first_idx) (q_series q))) [] w of
           None \<Rightarrow> Abort
         | Some (mbox, w) \<Rightarrow> mail_write P u num mbox (q, w))"

definition cmd_mail :: "'w platform \<Rightarrow> string list \<Rightarrow> 'w qs \<Rightarrow> (int, 'w qs) res" where
  "cmd_mail P args s =
     bind_res (mail_parse P args mail_defaults s) (\<lambda>u s.
       if ml_mbox u = [] then Exit 1 (world (err_line P ''quilt mail: --mbox is required'') s)
       else if effective_from u = [] then
         Exit 1 (world (err_line P ''quilt mail: --from or --sender is required'') s)
       else if q_series (fst s) = [] then Exit 1 (world (err_line P ''No patches in series'') s)
       else bind_res (mail_range P (ml_args u) s) (\<lambda>(first_idx, last_idx) s.
              mail_patches P u first_idx last_idx s))"

section \<open>Commands that are not implemented\<close>

definition not_implemented :: "'w platform \<Rightarrow> string \<Rightarrow> 'w qs \<Rightarrow> (int, 'w qs) res" where
  "not_implemented P name s =
     Exit 1 (world (\<lambda>w. err_line P '': not implemented'' (err P name (err P ''quilt '' w))) s)"

definition cmd_grep :: "'w platform \<Rightarrow> string list \<Rightarrow> 'w qs \<Rightarrow> (int, 'w qs) res" where
  "cmd_grep P args s = not_implemented P ''grep'' s"

definition cmd_setup :: "'w platform \<Rightarrow> string list \<Rightarrow> 'w qs \<Rightarrow> (int, 'w qs) res" where
  "cmd_setup P args s = not_implemented P ''setup'' s"

definition cmd_shell :: "'w platform \<Rightarrow> string list \<Rightarrow> 'w qs \<Rightarrow> (int, 'w qs) res" where
  "cmd_shell P args s = not_implemented P ''shell'' s"

section \<open>Laws: encoded words\<close>

text \<open>Reading the text of encoded words back, as RFC 2047 says for the encoding Q: an
  underscore is a space, and the break between two encoded words vanishes.\<close>

definition hex_value :: "char \<Rightarrow> nat" where
  "hex_value c = (if is_digit c then of_char c - 48 else of_char c - 55)"

function decode_words :: "string \<Rightarrow> string" where
  "decode_words s =
     (if s = [] then []
      else if hd s = CHR ''?'' then
        (if starts_with s word_break then decode_words (drop (length word_break) s) else [])
      else if hd s = CHR ''='' then
        char_of (16 * hex_value (s ! 1) + hex_value (s ! 2)) # decode_words (drop 3 s)
      else (if hd s = CHR ''_'' then spc else hd s) # decode_words (tl s))"
  by pat_completeness auto
termination
  by (relation "measure length") (auto simp: word_break_def word_close_def word_open_def)

declare decode_words.simps [simp del]

lemma hex_value_upper: "n < 16 \<Longrightarrow> hex_value (hex_digit_upper n) = n"
proof -
  assume "n < 16"
  then have "n \<in> set [0..<16]" by simp
  moreover have "\<forall>n \<in> set [0..<16]. hex_value (hex_digit_upper n) = n" by code_simp
  ultimately show ?thesis by blast
qed

lemma decode_encode_char: "decode_words (encode_char c @ s) = c # decode_words s"
proof (cases "must_encode c")
  case True
  let ?n = "of_char c :: nat"
  have n: "?n div 16 < 16" "?n mod 16 < 16" by (simp_all add: of_char_def [symmetric] less_mult_imp_div_less)
  have "char_of (16 * (?n div 16) + ?n mod 16) = c" by simp
  then show ?thesis using True n by (subst decode_words.simps) (simp add: encode_char_def hex_value_upper)
next
  case False
  then show ?thesis by (subst decode_words.simps) (auto simp: encode_char_def must_encode_def)
qed

lemma decode_break: "decode_words (word_break @ s) = decode_words s"
proof -
  have "hd (word_break @ s) = CHR ''?''" "word_break \<noteq> []"
    by (simp_all add: word_break_def word_close_def)
  then show ?thesis by (subst decode_words.simps) (simp add: starts_with_def)
qed

lemma decode_loop: "decode_words (rfc2047_loop s n) = s"
proof (induction s n rule: rfc2047_loop.induct)
  case (1 n)
  then show ?case
    by (subst rfc2047_loop.simps, subst decode_words.simps)
      (simp add: word_close_def word_break_def starts_with_def)
next
  case (2 c s n)
  then show ?case by (simp add: Let_def decode_break decode_encode_char)
qed

lemma decode_encode: "decode_words (drop (length word_open) (rfc2047_encode s)) = s"
  by (simp add: rfc2047_encode_def decode_loop)

text \<open>The lines of the encoded subject: \<open>k\<close> characters of the current line are
  written.\<close>

lemma encode_char_plain:
  "nl \<noteq> c \<Longrightarrow> cr \<noteq> c \<Longrightarrow> nl \<notin> set (encode_char c) \<and> cr \<notin> set (encode_char c)"
proof -
  assume c: "nl \<noteq> c" "cr \<noteq> c"
  have "hex_digit_upper n \<noteq> nl \<and> hex_digit_upper n \<noteq> cr" if "n < 16" for n
  proof -
    have "n \<in> set [0..<16]" using that by simp
    moreover have "\<forall>n \<in> set [0..<16]. hex_digit_upper n \<noteq> nl \<and> hex_digit_upper n \<noteq> cr" by code_simp
    ultimately show ?thesis by blast
  qed
  moreover have "of_char c div 16 < (16 :: nat)" "of_char c mod 16 < (16 :: nat)"
    using of_char_of [of "of_char c"] by (simp_all add: less_mult_imp_div_less)
  ultimately show ?thesis using c by (auto simp: encode_char_def; metis)
qed

lemma rfc2047_lines:
  assumes "nl \<notin> set s" "cr \<notin> set s" "nl \<notin> set pre" "cr \<notin> set pre" "int (length pre) \<le> n" "n + 2 \<le> 75"
    "l \<in> set (split_lines (pre @ rfc2047_loop s n))"
  shows "length l \<le> 75"
  using assms
proof (induction s n arbitrary: pre rule: rfc2047_loop.induct)
  case (1 n)
  then have "split_lines (pre @ word_close) = [pre @ word_close]"
    by (subst split_lines_last) (auto simp: word_close_def strip_cr_def)
  then show ?case using 1 by (simp add: word_close_def)
next
  case (2 c s n)
  let ?e = "encode_char c"
  have e: "nl \<notin> set ?e" "cr \<notin> set ?e" "length ?e \<le> 3"
    using 2(3,4) encode_char_plain[of c] by (auto simp: encode_char_def)
  show ?case
  proof (cases "n + int (length ?e) + 2 > 75")
    case True
    let ?p = "'' '' @ word_open @ ?e"
    have "split_lines ((pre @ word_close) @ nl # ?p @ rfc2047_loop s (12 + int (length ?e))) =
        strip_cr (pre @ word_close) # split_lines (?p @ rfc2047_loop s (12 + int (length ?e)))"
      by (rule split_lines_hit) (use 2(5) in \<open>simp add: word_close_def\<close>)
    moreover have "length l \<le> 75" if "l \<in> set (split_lines (?p @ rfc2047_loop s (12 + int (length ?e))))"
      by (rule 2(1)[OF refl True _ _ _ _ _ _ that]) (use 2(3,4) e in \<open>auto simp: word_open_def\<close>)
    moreover have "length (strip_cr (pre @ word_close)) \<le> 75"
      using 2(7,8) by (simp add: strip_cr_def word_close_def)
    ultimately show ?thesis using 2(9) True by (auto simp: Let_def word_break_def)
  next
    case False
    have "length l \<le> 75"
      by (rule 2(2)[OF refl False, of "pre @ ?e"]) (use 2 e False in \<open>auto simp: Let_def\<close>)
    then show ?thesis .
  qed
qed

lemma rfc2047_encode_lines:
  "nl \<notin> set s \<Longrightarrow> cr \<notin> set s \<Longrightarrow> l \<in> set (split_lines (rfc2047_encode s)) \<Longrightarrow> length l \<le> 75"
  by (rule rfc2047_lines[of s word_open 10 l]) (auto simp: rfc2047_encode_def word_open_def)

lemma encode_char_ascii: "\<not> has_non_ascii (encode_char c)"
proof -
  have "(of_char (hex_digit_upper n) :: nat) \<le> 127" if "n < 16" for n
  proof -
    have "n \<in> set [0..<16]" using that by simp
    moreover have "\<forall>n \<in> set [0..<16]. (of_char (hex_digit_upper n) :: nat) \<le> 127" by code_simp
    ultimately show ?thesis by blast
  qed
  moreover have "of_char c div 16 < (16 :: nat)" "of_char c mod 16 < (16 :: nat)"
    using of_char_of [of "of_char c"] by (simp_all add: less_mult_imp_div_less)
  ultimately have "of_char (hex_digit_upper (of_char c div 16)) \<le> (127 :: nat)"
    "of_char (hex_digit_upper (of_char c mod 16)) \<le> (127 :: nat)" by blast+
  then show ?thesis by (auto simp: has_non_ascii_def encode_char_def must_encode_def)
qed

lemma has_non_ascii_append [simp]: "has_non_ascii (s @ t) \<longleftrightarrow> has_non_ascii s \<or> has_non_ascii t"
  by (auto simp: has_non_ascii_def)

lemma rfc2047_ascii: "\<not> has_non_ascii (rfc2047_encode s)"
proof -
  have c: "\<not> has_non_ascii word_close" "\<not> has_non_ascii word_break" "\<not> has_non_ascii word_open"
    by (simp_all add: has_non_ascii_def word_close_def word_break_def word_open_def)
  have "\<not> has_non_ascii (rfc2047_loop s n)" for n
    by (induction s n rule: rfc2047_loop.induct) (simp_all add: c encode_char_ascii Let_def)
  then show ?thesis by (simp add: rfc2047_encode_def c)
qed

end
