(* ===== verification/Quilt_Main.thy ===== *)
theory Quilt_Main
  imports Patch_Diff Quilt_Import Quilt_Graph Quilt_Mail
begin

text \<open>
  The program (\<open>commands\<close> and \<open>quilt_main\<close> in \<open>src/src/quilt.cpp\<close>): the
  table of the commands with their usage texts, the options in front of the command, the help,
  the settings file applied to the environment, the look-up of a command by a unique prefix, the
  start-up of the state, and the call. \<open>None\<close> stands for a program that aborts.
\<close>

section \<open>The commands\<close>

record 'w command =
  cm_name :: string
  cm_run :: "string list \<Rightarrow> 'w qs \<Rightarrow> (int, 'w qs) res option"
  cm_usage :: string
  cm_description :: string

definition entry_new :: "'w platform \<Rightarrow> 'w command" where
  "entry_new P = \<lparr>cm_name = ''new'', cm_run = (\<lambda>args s. Some (cmd_new P args s)),
     cm_usage = unlines [
      ''Usage: quilt new [-p n] patchname'',
      [],
      ''Create a new empty patch and insert it after the topmost applied'',
      ''patch in the series. The new patch becomes the top of the stack'',
      ''immediately, but no patch file is written until quilt refresh.'',
      [],
      ''Options:'',
      ''  -p n        Set the strip level for the patch (default: 1).''],
     cm_description = ''Create a new empty patch''\<rparr>"

definition entry_add :: "'w platform \<Rightarrow> 'w command" where
  "entry_add P = \<lparr>cm_name = ''add'', cm_run = (\<lambda>args s. Some (cmd_add P args s)),
     cm_usage = unlines [
      ''Usage: quilt add [-P patch] file ...'',
      [],
      ''Register files with the topmost patch by backing up their current'',
      ''contents. Files must be added before modification so that quilt'',
      ''can capture the pre-change state. Use quilt edit to add and open'',
      ''files in a single step.'',
      [],
      ''Options:'',
      ''  -P patch    Add files to the named patch instead of the top.''],
     cm_description = ''Add files to the topmost patch''\<rparr>"

definition entry_push :: "'w platform \<Rightarrow> 'w command" where
  "entry_push P = \<lparr>cm_name = ''push'', cm_run = (\<lambda>args s. Some (cmd_push P (cmd_refresh P) args s)),
     cm_usage = unlines [
      ''Usage: quilt push [-afqv] [--fuzz=N] [-m] [--merge[=merge|diff3]]'',
      ''       [--leave-rejects] [--refresh] [num|patch]'',
      [],
      ''Apply the next unapplied patch from the series. Without arguments,'',
      ''applies one patch. With a patch name, applies patches up to and'',
      ''including it. With a number, applies that many patches.'',
      [],
      ''Options:'',
      ''  -a                      Apply all unapplied patches.'',
      ''  -f                      Force apply even when the patch has rejects.'',
      ''  -q                      Quiet; print only error messages.'',
      ''  -v                      Verbose; pass --verbose to patch.'',
      ''  --fuzz=N                Set the maximum fuzz factor for patch.'',
      ''  -m, --merge[=merge|diff3]'',
      ''                          Merge using patch's merge mode.'',
      ''  --leave-rejects         Leave .rej files in the working tree.'',
      ''  --refresh               Refresh each patch after applying.''],
     cm_description = ''Apply patches to the source tree''\<rparr>"

definition entry_pop :: "'w platform \<Rightarrow> 'w command" where
  "entry_pop P = \<lparr>cm_name = ''pop'', cm_run = cmd_pop P (cmd_refresh P),
     cm_usage = unlines [
      ''Usage: quilt pop [-afRqv] [--refresh] [num|patch]'',
      [],
      ''Remove the topmost applied patch by restoring files from backup.'',
      ''Without arguments, removes one patch. With a patch name, removes'',
      ''patches until the named patch is on top. With a number, removes'',
      ''that many patches.'',
      [],
      ''Options:'',
      ''  -a          Remove all applied patches.'',
      ''  -f          Force removal even if the patch needs refresh.'',
      ''  -R          Always verify that the patch removes cleanly.'',
      ''  -q          Quiet; print only error messages.'',
      ''  -v          Verbose; print file-level restore messages.'',
      ''  --refresh   Automatically refresh every patch before it gets unapplied.''],
     cm_description = ''Remove applied patches from the stack''\<rparr>"

definition entry_refresh :: "'w platform \<Rightarrow> 'w command" where
  "entry_refresh P = \<lparr>cm_name = ''refresh'', cm_run = (\<lambda>args s. Some (cmd_refresh P args s)),
     cm_usage = unlines [
      ''Usage: quilt refresh [-p n] [-u | -U num | -c | -C num] [-z [new_name]]'',
      ''       [-f] [--no-timestamps] [--no-index] [--diffstat] [--sort]'',
      ''       [--strip-trailing-whitespace] [--backup]'',
      ''       [--diff-algorithm={myers|minimal|patience|histogram}] [patch]'',
      [],
      ''Regenerate the topmost or named patch by diffing backup copies in'',
      ''.pc/ against the current working tree. This is what actually writes'',
      ''the patch file; changes are not recorded until you refresh.'',
      [],
      ''Options:'',
      ''  -p n              Set the path label style (0, 1, or ab).'',
      ''  -u                Create a unified diff (default).'',
      ''  -U num            Create a unified diff with num lines of context.'',
      ''  -c                Create a context diff.'',
      ''  -C num            Create a context diff with num lines of context.'',
      ''  -z [new_name]     Create a new patch (fork) containing the changes;'',
      ''                    the current patch is left as-is.'',
      ''  -f                Refresh even when files are shadowed by patches'',
      ''                    applied above.'',
      ''  --no-timestamps   Omit timestamps from diff headers.'',
      ''  --no-index        Omit Index: lines from the patch.'',
      ''  --diffstat        Add a diffstat section to the patch header.'',
      ''  --sort            Sort files alphabetically in the patch.'',
      ''  --strip-trailing-whitespace'',
      ''                    Strip trailing whitespace from each line.'',
      ''  --backup          Save the old patch file as name~ before updating.'',
      ''  --diff-algorithm=name'',
      ''                    Select the diff algorithm: myers (default),'',
      ''                    minimal, patience, or histogram.'',
      [],
      ''The QUILT_DIFF_ALGORITHM environment variable sets the default'',
      ''algorithm (overridden by --diff-algorithm on the command line).''],
     cm_description = ''Regenerate a patch from working tree changes''\<rparr>"

definition entry_diff :: "'w platform \<Rightarrow> 'w command" where
  "entry_diff P = \<lparr>cm_name = ''diff'', cm_run = (\<lambda>args s. Some (cmd_diff P args s)),
     cm_usage = unlines [
      ''Usage: quilt diff [-p n] [-u | -U num | -c | -C num]'',
      ''       [--combine patch] [-P patch] [-z] [-R] [--snapshot]'',
      ''       [--diff=utility] [--no-timestamps] [--no-index] [--sort]'',
      ''       [--diff-algorithm={myers|minimal|patience|histogram}] [file ...]'',
      [],
      ''Show the diff that quilt refresh would produce for the topmost or'',
      ''named patch. Without -z, shows the full patch content (backup vs.'',
      ''working tree). With -z, shows only uncommitted changes since the'',
      ''last refresh.'',
      [],
      ''Options:'',
      ''  -p n              Set the path label style (0, 1, or ab).'',
      ''  -u                Create a unified diff (default).'',
      ''  -U num            Create a unified diff with num lines of context.'',
      ''  -c                Create a context diff.'',
      ''  -C num            Create a context diff with num lines of context.'',
      ''  --combine patch   Create a combined diff for all patches between'',
      ''                    this patch and the topmost or specified patch.'',
      ''                    A patch name of '-' is the first applied patch.'',
      ''  -P patch          Show the diff for the named patch.'',
      ''  -z                Show only changes since the last refresh.'',
      ''  -R                Produce a reverse diff.'',
      ''  --snapshot        Diff against a previously saved snapshot.'',
      ''  --diff=utility    Use the specified diff utility instead of the'',
      ''                    built-in diff engine.'',
      ''  --no-timestamps   Omit timestamps from diff headers.'',
      ''  --no-index        Omit Index: lines from the output.'',
      ''  --sort            Sort files alphabetically in the output.'',
      ''  --diff-algorithm=name'',
      ''                    Select the diff algorithm: myers (default),'',
      ''                    minimal, patience, or histogram.'',
      [],
      ''The QUILT_DIFF_ALGORITHM environment variable sets the default'',
      ''algorithm (overridden by --diff-algorithm on the command line).''],
     cm_description = ''Show the diff of the topmost or a specified patch''\<rparr>"

definition entry_series :: "'w platform \<Rightarrow> 'w command" where
  "entry_series P = \<lparr>cm_name = ''series'', cm_run = (\<lambda>args s. Some (cmd_series P args s)),
     cm_usage = unlines [
      ''Usage: quilt series [-v]'',
      [],
      ''List all patches in the series file, both applied and unapplied.'',
      [],
      ''Options:'',
      ''  -v          Mark applied patches with = and the top with =.''],
     cm_description = ''List all patches in the series''\<rparr>"

definition entry_applied :: "'w platform \<Rightarrow> 'w command" where
  "entry_applied P = \<lparr>cm_name = ''applied'', cm_run = (\<lambda>args s. Some (cmd_applied P args s)),
     cm_usage = unlines [
      ''Usage: quilt applied [patch]'',
      [],
      ''List the currently applied patches in stack order. With a patch'',
      ''name, lists all applied patches up to and including it.''],
     cm_description = ''List applied patches''\<rparr>"

definition entry_unapplied :: "'w platform \<Rightarrow> 'w command" where
  "entry_unapplied P = \<lparr>cm_name = ''unapplied'', cm_run = (\<lambda>args s. Some (cmd_unapplied P args s)),
     cm_usage = unlines [
      ''Usage: quilt unapplied [patch]'',
      [],
      ''List the patches that have not been applied yet. With a patch'',
      ''name, lists all patches after the named one in the series.''],
     cm_description = ''List patches not yet applied''\<rparr>"

definition entry_top :: "'w platform \<Rightarrow> 'w command" where
  "entry_top P = \<lparr>cm_name = ''top'', cm_run = (\<lambda>args s. Some (cmd_top P args s)),
     cm_usage = unlines [
      ''Usage: quilt top'',
      [],
      ''Print the name of the topmost applied patch.''],
     cm_description = ''Show the topmost applied patch''\<rparr>"

definition entry_next :: "'w platform \<Rightarrow> 'w command" where
  "entry_next P = \<lparr>cm_name = ''next'', cm_run = (\<lambda>args s. Some (cmd_next P args s)),
     cm_usage = unlines [
      ''Usage: quilt next [patch]'',
      [],
      ''Print the patch after the topmost applied patch, or after the'',
      ''named patch in the series.''],
     cm_description = ''Show the next patch after the top or a given patch''\<rparr>"

definition entry_previous :: "'w platform \<Rightarrow> 'w command" where
  "entry_previous P = \<lparr>cm_name = ''previous'', cm_run = (\<lambda>args s. Some (cmd_previous P args s)),
     cm_usage = unlines [
      ''Usage: quilt previous [patch]'',
      [],
      ''Print the patch before the topmost applied patch, or before the'',
      ''named patch in the series.''],
     cm_description = ''Show the patch before the top or a given patch''\<rparr>"

definition entry_delete :: "'w platform \<Rightarrow> 'w command" where
  "entry_delete P = \<lparr>cm_name = ''delete'', cm_run = (\<lambda>args s. Some (cmd_delete P args s)),
     cm_usage = unlines [
      ''Usage: quilt delete [-r] [--backup] [-n] [patch]'',
      [],
      ''Remove the topmost applied patch or a named unapplied patch from'',
      ''the series. The patch file is kept unless -r is given.'',
      [],
      ''Options:'',
      ''  -r          Remove the patch file as well.'',
      ''  --backup    Rename the patch file to name~ instead of deleting.'',
      ''  -n          Delete the next unapplied patch instead of the top.''],
     cm_description = ''Remove a patch from the series''\<rparr>"

definition entry_rename :: "'w platform \<Rightarrow> 'w command" where
  "entry_rename P = \<lparr>cm_name = ''rename'', cm_run = (\<lambda>args s. Some (cmd_rename P args s)),
     cm_usage = unlines [
      ''Usage: quilt rename [-P patch] new_name'',
      [],
      ''Rename the topmost or named patch. Updates the series file and'',
      ''renames the patch file in the patches directory.'',
      [],
      ''Options:'',
      ''  -P patch    Rename the named patch instead of the top.''],
     cm_description = ''Rename a patch''\<rparr>"

definition entry_import :: "'w platform \<Rightarrow> 'w command" where
  "entry_import P = \<lparr>cm_name = ''import'', cm_run = (\<lambda>args s. Some (cmd_import P args s)),
     cm_usage = unlines [
      ''Usage: quilt import [-p n] [-R] [-P name] [-f] [-d {o|a|n}] file ...'',
      [],
      ''Copy an external patch file into the patches directory and add it'',
      ''to the series after the topmost applied patch. The patch is not'',
      ''applied; use quilt push afterward.'',
      [],
      ''Options:'',
      ''  -p n        Set the strip level for the imported patch.'',
      ''  -R          Apply patch in reverse.'',
      ''  -P name     Use this name instead of the original filename.'',
      ''  -f          Overwrite if a patch with the same name exists.'',
      ''  -d {o|a|n}  When overwriting: keep old, append all, or use'',
      ''              new header.''],
     cm_description = ''Import an external patch into the series''\<rparr>"

definition entry_header :: "'w platform \<Rightarrow> 'w command" where
  "entry_header P = \<lparr>cm_name = ''header'', cm_run = (\<lambda>args s. Some (cmd_header P args s)),
     cm_usage = unlines [
      ''Usage: quilt header [-a|-r|-e] [--backup] [--dep3]'',
      ''       [--strip-diffstat] [--strip-trailing-whitespace] [patch]'',
      [],
      ''Print the header (description) of the topmost or named patch.'',
      ''The header is all text in the patch file before the first diff.'',
      [],
      ''Options:'',
      ''  -a                Append text from standard input to the header.'',
      ''  -r                Replace the header with text from standard input.'',
      ''  -e                Open the header in $EDITOR.'',
      ''  --backup          Save the old patch file as name~ before modifying.'',
      ''  --dep3            Insert DEP-3 template when editing empty headers.'',
      ''  --strip-diffstat  Remove the diffstat section from the header.'',
      ''  --strip-trailing-whitespace'',
      ''                    Strip trailing whitespace from each header line.''],
     cm_description = ''Print or modify a patch header''\<rparr>"

definition entry_files :: "'w platform \<Rightarrow> 'w command" where
  "entry_files P = \<lparr>cm_name = ''files'', cm_run = (\<lambda>args s. Some (cmd_files P args s)),
     cm_usage = unlines [
      ''Usage: quilt files [-v] [-a] [-l] [--combine patch] [patch]'',
      [],
      ''List the files that the topmost or named patch modifies.'',
      [],
      ''Options:'',
      ''  -v              Show the patch name alongside each filename.'',
      ''  -a              List files for all applied patches, not just one.'',
      ''  -l              Add patch name to output lines.'',
      ''  --combine patch List files for a range of patches.''],
     cm_description = ''List files modified by a patch''\<rparr>"

definition entry_patches :: "'w platform \<Rightarrow> 'w command" where
  "entry_patches P = \<lparr>cm_name = ''patches'', cm_run = (\<lambda>args s. Some (cmd_patches P args s)),
     cm_usage = unlines [
      ''Usage: quilt patches [-v] file ...'',
      [],
      ''List the patches that modify the given file or files. Searches'',
      ''both applied patches (via .pc/ metadata) and unapplied patches'',
      ''(by parsing patch files).'',
      [],
      ''Options:'',
      ''  -v          Mark applied patches in the output.''],
     cm_description = ''List patches that modify a given file''\<rparr>"

definition entry_edit :: "'w platform \<Rightarrow> 'w command" where
  "entry_edit P = \<lparr>cm_name = ''edit'', cm_run = (\<lambda>args s. Some (cmd_edit P args s)),
     cm_usage = unlines [
      ''Usage: quilt edit file ...'',
      [],
      ''Add files to the topmost patch and open them in $EDITOR. This is'',
      ''a shortcut for quilt add followed by $EDITOR, and is the safest'',
      ''way to modify tracked files.''],
     cm_description = ''Add files to the topmost patch and open an editor''\<rparr>"

definition entry_revert :: "'w platform \<Rightarrow> 'w command" where
  "entry_revert P = \<lparr>cm_name = ''revert'', cm_run = (\<lambda>args s. Some (cmd_revert P args s)),
     cm_usage = unlines [
      ''Usage: quilt revert [-P patch] file ...'',
      [],
      ''Discard uncommitted changes to files by restoring them from the'',
      ''backup copies in .pc/. Only reverts changes not yet captured by'',
      ''quilt refresh.'',
      [],
      ''Options:'',
      ''  -P patch    Revert files in the named patch instead of the top.''],
     cm_description = ''Discard working tree changes to files in a patch''\<rparr>"

definition entry_remove :: "'w platform \<Rightarrow> 'w command" where
  "entry_remove P = \<lparr>cm_name = ''remove'', cm_run = (\<lambda>args s. Some (cmd_remove P args s)),
     cm_usage = unlines [
      ''Usage: quilt remove [-P patch] file ...'',
      [],
      ''Remove files from the topmost or named patch and restore them'',
      ''from backup. The opposite of quilt add.'',
      [],
      ''Options:'',
      ''  -P patch    Remove files from the named patch instead of the top.''],
     cm_description = ''Remove files from the topmost patch''\<rparr>"

definition entry_fold :: "'w platform \<Rightarrow> 'w command" where
  "entry_fold P = \<lparr>cm_name = ''fold'', cm_run = (\<lambda>args s. Some (cmd_fold P args s)),
     cm_usage = unlines [
      ''Usage: quilt fold [-R] [-q] [-f] [-p n]'',
      [],
      ''Fold a diff read from standard input into the topmost patch.'',
      ''Files touched by the incoming diff are automatically added to'',
      ''the patch. Run quilt refresh afterward to update the patch file.'',
      [],
      ''Options:'',
      ''  -R          Apply the diff in reverse.'',
      ''  -q          Quiet; print only error messages.'',
      ''  -f          Force apply even when the diff has rejects.'',
      ''  -p n        Set the strip level for the incoming diff.''],
     cm_description = ''Fold a diff from stdin into the topmost patch''\<rparr>"

definition entry_fork :: "'w platform \<Rightarrow> 'w command" where
  "entry_fork P = \<lparr>cm_name = ''fork'', cm_run = (\<lambda>args s. Some (cmd_fork P args s)),
     cm_usage = unlines [
      ''Usage: quilt fork [new_name]'',
      [],
      ''Copy the topmost patch to a new name. The series is updated to'',
      ''reference the copy; the original file is kept but removed from'',
      ''the series. If no name is given, -2 is appended (or -3, etc.).''],
     cm_description = ''Create a copy of the topmost patch under a new name''\<rparr>"

definition entry_annotate :: "'w platform \<Rightarrow> 'w command" where
  "entry_annotate P = \<lparr>cm_name = ''annotate'', cm_run = (\<lambda>args s. Some (cmd_annotate P args s)),
     cm_usage = unlines [
      ''Usage: quilt annotate [-P patch] file'',
      [],
      ''Show which applied patch last modified each line of a file,'',
      ''similar to git blame. Works by comparing successive backup'',
      ''copies in .pc/.'',
      [],
      ''Options:'',
      ''  -P patch    Stop at the named patch instead of the top.''],
     cm_description = ''Show which patch modified each line of a file''\<rparr>"

definition entry_graph :: "'w platform \<Rightarrow> 'w command" where
  "entry_graph P = \<lparr>cm_name = ''graph'', cm_run = (\<lambda>args s. Some (cmd_graph P args s)),
     cm_usage = unlines [
      ''Usage: quilt graph [--all] [--reduce] [--lines[=num]]'',
      ''                   [--edge-labels=files] [patch]'',
      [],
      ''Print a dot-format dependency graph of applied patches. Two'',
      ''patches are dependent if they modify the same file, or with'',
      ''--lines, if their changes overlap.'',
      [],
      ''Options:'',
      ''  --all             Include all applied patches (default: only'',
      ''                    dependencies of the top or named patch).'',
      ''  --reduce          Remove transitive edges from the graph.'',
      ''  --lines[=num]     Compute line-level dependencies using num'',
      ''                    lines of context (default: 2).'',
      ''  --edge-labels=files  Label edges with shared filenames.''],
     cm_description = ''Print a dot dependency graph of applied patches''\<rparr>"

definition entry_mail :: "'w platform \<Rightarrow> 'w command" where
  "entry_mail P = \<lparr>cm_name = ''mail'', cm_run = (\<lambda>args s. Some (cmd_mail P args s)),
     cm_usage = unlines [
      ''Usage: quilt mail {--mbox file} [--prefix prefix] [--sender addr]'',
      ''                  [--from addr] [--to addr] [--cc addr] [--bcc addr]'',
      ''                  [first_patch [last_patch]]'',
      [],
      ''Generate an mbox file containing one message per patch in the'',
      ''given range. Output is intended for git am. Either --from or'',
      ''--sender is required.'',
      [],
      ''Options:'',
      ''  --mbox file       Write output to file (required).'',
      ''  --prefix prefix   Subject line prefix (default: PATCH).'',
      ''  --sender addr     Set the envelope sender address.'',
      ''  --from addr       Set the From: header address.'',
      ''  --to addr         Add a To: recipient (repeatable).'',
      ''  --cc addr         Add a Cc: recipient (repeatable).'',
      ''  --bcc addr        Add a Bcc: recipient (repeatable).''],
     cm_description = ''Generate an mbox file from a range of patches''\<rparr>"

definition entry_grep :: "'w platform \<Rightarrow> 'w command" where
  "entry_grep P = \<lparr>cm_name = ''grep'', cm_run = (\<lambda>args s. Some (cmd_grep P args s)),
     cm_usage = unlines [
      ''Usage: quilt grep [-h|options] pattern'',
      [],
      ''Search source files, skipping patches/ and .pc/ directories.'',
      ''Not yet implemented.''],
     cm_description = ''Search source files (not implemented)''\<rparr>"

definition entry_setup :: "'w platform \<Rightarrow> 'w command" where
  "entry_setup P = \<lparr>cm_name = ''setup'', cm_run = (\<lambda>args s. Some (cmd_setup P args s)),
     cm_usage = unlines [
      ''Usage: quilt setup [-d path] series'',
      [],
      ''Initialize a source tree from a series file or RPM spec.'',
      ''Not yet implemented.''],
     cm_description = ''Set up a source tree from a series file (not implemented)''\<rparr>"

definition entry_shell :: "'w platform \<Rightarrow> 'w command" where
  "entry_shell P = \<lparr>cm_name = ''shell'', cm_run = (\<lambda>args s. Some (cmd_shell P args s)),
     cm_usage = unlines [
      ''Usage: quilt shell [command]'',
      [],
      ''Open a shell or run a command in the quilt environment.'',
      ''Not yet implemented.''],
     cm_description = ''Open a subshell (not implemented)''\<rparr>"

definition entry_snapshot :: "'w platform \<Rightarrow> 'w command" where
  "entry_snapshot P = \<lparr>cm_name = ''snapshot'', cm_run = (\<lambda>args s. Some (cmd_snapshot P args s)),
     cm_usage = unlines [
      ''Usage: quilt snapshot [-d]'',
      [],
      ''Save a copy of the current working tree state for later'',
      ''comparison with quilt diff --snapshot.'',
      [],
      ''Options:'',
      ''  -d          Remove the current snapshot instead of creating one.''],
     cm_description = ''Save a snapshot of the working tree for later diff''\<rparr>"

definition entry_upgrade :: "'w platform \<Rightarrow> 'w command" where
  "entry_upgrade P = \<lparr>cm_name = ''upgrade'', cm_run = (\<lambda>args s. Some (cmd_upgrade P args s)),
     cm_usage = unlines [
      ''Usage: quilt upgrade'',
      [],
      ''Upgrade quilt metadata in .pc/ to the current format. This is'',
      ''a no-op because only the version 2 format is supported.''],
     cm_description = ''Upgrade quilt metadata to the current format''\<rparr>"

definition entry_init :: "'w platform \<Rightarrow> 'w command" where
  "entry_init P = \<lparr>cm_name = ''init'', cm_run = (\<lambda>args s. Some (cmd_init P args s)),
     cm_usage = unlines [
      ''Usage: quilt init'',
      [],
      ''Initialize quilt metadata in the current directory. This is'',
      ''optional since any quilt command creates .pc/ and patches/ as'',
      ''needed, but it lets you establish the project root before'',
      ''working from a subdirectory.''],
     cm_description = ''Initialize quilt metadata in the current directory''\<rparr>"

definition command_table :: "'w platform \<Rightarrow> 'w command list" where
  "command_table P =
     [entry_new P, entry_add P, entry_push P, entry_pop P, entry_refresh P, entry_diff P, 
      entry_series P, entry_applied P, entry_unapplied P, entry_top P, entry_next P, 
      entry_previous P, entry_delete P, entry_rename P, entry_import P, entry_header P, 
      entry_files P, entry_patches P, entry_edit P, entry_revert P, entry_remove P, entry_fold 
      P, entry_fork P, entry_annotate P, entry_graph P, entry_mail P, entry_grep P, entry_setup 
      P, entry_shell P, entry_snapshot P, entry_upgrade P, entry_init P]"

section \<open>The options of the program\<close>

definition to_upper :: "string \<Rightarrow> string" where
  "to_upper s = map (\<lambda>c. if char_in (CHR ''a'') (CHR ''z'') c then char_of ((of_char c :: nat) - 32) else c) s"

text \<open>The settings file when one is given, and the other arguments.\<close>

function global_args :: "string list \<Rightarrow> string option \<Rightarrow> string option \<times> string list" where
  "global_args [] rc = (rc, [])"
| "global_args (a # args) rc =
     (if a = ''--quiltrc'' \<and> args \<noteq> [] then global_args (tl args) (Some (hd args))
      else if starts_with a ''--quiltrc='' then global_args args (Some (drop 10 a))
      else if a = ''--trace'' then global_args args rc
      else let (rc, rest) = global_args args rc in (rc, a # rest))"
  by pat_completeness auto
termination
  by (relation "measure (\<lambda>(args, rc). length args)") auto

definition usage_line :: string where
  "usage_line = ''Usage: quilt [--quiltrc file] <command> [options] [args]''"

definition help_hint :: string where
  "help_hint = ''Use '' @ [dquote] @ ''quilt --help'' @ [dquote] @ '' for a list of commands.''"

definition quilt_version :: string where
  "quilt_version = ''0.69''"

definition print_help :: "'w platform \<Rightarrow> 'w \<Rightarrow> 'w" where
  "print_help P w =
     (let cs = command_table P;
          max_len = Max (insert 0 (set (map (\<lambda>c. length (cm_name c)) cs)));
          w = out_line P ''Commands:'' (out_line P [] (out_line P usage_line w));
          w = fold (\<lambda>c. out_line P (''  '' @ cm_name c @ replicate (max_len + 2 - length (cm_name c)) spc @
                cm_description c)) cs w
      in out_line P (''Use '' @ [dquote] @ ''quilt <command> --help'' @ [dquote] @ '' for details on a specific command.'')
           (out_line P [] w))"

section \<open>Settings\<close>

text \<open>The text \<open>load_quiltrc\<close> parses, and the names it assigns, in the order of the
  map.\<close>

definition quiltrc_text :: "'w platform \<Rightarrow> string \<Rightarrow> 'w \<Rightarrow> string" where
  "quiltrc_text P quiltrc_path w =
     (if quiltrc_path = ''-'' then []
      else if quiltrc_path \<noteq> [] then read_file P quiltrc_path w
      else
        let home = get_home_dir P w;
            user_content = (if home \<noteq> [] then read_file P (path_join home ''.quiltrc'') w else [])
        in if user_content \<noteq> [] then user_content else read_file P (get_system_quiltrc P w) w)"

definition rc_names :: "string \<Rightarrow> string list" where
  "rc_names text = sort (remdups (map fst (List.map_filter rc_line (split_lines text))))"

definition apply_settings :: "'w platform \<Rightarrow> string list \<Rightarrow> (string \<rightharpoonup> string) \<Rightarrow> 'w \<Rightarrow> 'w" where
  "apply_settings P names rc w =
     fold (\<lambda>k w. case rc k of Some v \<Rightarrow> set_env P k v w | None \<Rightarrow> w) names w"

definition merged_config :: "'w platform \<Rightarrow> (string \<rightharpoonup> string) \<Rightarrow> 'w \<Rightarrow> (string \<rightharpoonup> string)" where
  "merged_config P rc w =
     (\<lambda>k. case rc k of Some v \<Rightarrow> Some (let e = get_env P k w in if e \<noteq> [] then e else v) | None \<Rightarrow> None)"

section \<open>Finding the command\<close>

text \<open>An exact name ends the search; else the last command with the prefix, and how many
  there are.\<close>

fun find_loop :: "string \<Rightarrow> 'w command list \<Rightarrow> 'w command option \<Rightarrow> nat \<Rightarrow> 'w command option \<times> nat" where
  "find_loop name [] found n = (found, n)"
| "find_loop name (c # cs) found n =
     (if name = cm_name c then (Some c, 1)
      else if starts_with (cm_name c) name then find_loop name cs (Some c) (n + 1)
      else find_loop name cs found n)"

section \<open>The program\<close>

definition dispatch ::
  "'w platform \<Rightarrow> 'w command \<Rightarrow> (string \<rightharpoonup> string) \<Rightarrow> string list \<Rightarrow> 'w \<Rightarrow> (int, 'w qs) res option" where
  "dispatch P c rc args w =
     (let original_cwd = get_cwd P w in
      case load_state P w of
        None \<Rightarrow> None
      | Some (q, w) \<Rightarrow>
          let w = (if cm_name c = ''init'' \<and> get_cwd P w \<noteq> original_cwd then snd (set_cwd P original_cwd w) else w);
              q = q\<lparr>q_config := merged_config P rc w\<rparr>;
              extra = shell_split (\<lambda>n. get_env P n w) (get_env P (''QUILT_'' @ to_upper (cm_name c) @ ''_ARGS'') w)
          in cm_run c (extra @ args) (q, w))"

definition quilt_command :: "'w platform \<Rightarrow> string \<Rightarrow> (string \<rightharpoonup> string) \<Rightarrow> string list \<Rightarrow> 'w \<Rightarrow> (int \<times> 'w) option" where
  "quilt_command P name rc args w =
     (let (found, n) = find_loop name (command_table P) None 0 in
      if n > 1 then Some (1, err_line P (''quilt: command '' @ [squote] @ name @ [squote] @ '' is ambiguous'') w)
      else case found of
        None \<Rightarrow> Some (1, err_line P help_hint (err_line P (''quilt: unknown command '' @ [squote] @ name @ [squote]) w))
      | Some c \<Rightarrow>
          if ''-h'' \<in> set args \<or> ''--help'' \<in> set args then Some (0, out_line P (cm_usage c) w)
          else (case dispatch P c rc args w of
                  None \<Rightarrow> None
                | Some r \<Rightarrow> map_option (\<lambda>(code, q, w). (code, w)) (finish r)))"

definition quilt_main :: "'w platform \<Rightarrow> string list \<Rightarrow> 'w \<Rightarrow> (int \<times> 'w) option" where
  "quilt_main P args w =
     (let (rc_path, rest) = global_args args None in
      case rest of
        [] \<Rightarrow> Some (1, err_line P help_hint (err_line P usage_line w))
      | arg1 # args \<Rightarrow>
          if arg1 = ''--version'' \<or> arg1 = ''-v'' then Some (0, out_line P quilt_version w)
          else if arg1 = ''--help'' \<or> arg1 = ''-h'' \<or> arg1 = ''help'' then Some (0, print_help P w)
          else
            let path = (case rc_path of Some p \<Rightarrow> p | None \<Rightarrow> []);
                rc = load_quiltrc P path w;
                w = apply_settings P (rc_names (quiltrc_text P path w)) rc w
            in quilt_command P arg1 rc args w)"

section \<open>Laws\<close>

text \<open>The command a name stands for.\<close>

lemma find_loop_spec:
  "find_loop name cs found n =
     (case filter (\<lambda>c. cm_name c = name) cs of
        c # _ \<Rightarrow> (Some c, 1)
      | [] \<Rightarrow> (let ms = filter (\<lambda>c. starts_with (cm_name c) name) cs in
               (if ms = [] then found else Some (last ms), n + length ms)))"
  by (induction cs arbitrary: found n) (auto simp: Let_def split: list.splits)

end
