(* ===== verification/Stack_Safety.thy ===== *)
theory Stack_Safety
  imports Quilt_Main
begin

text \<open>
  The invariant of the stack over the whole table of commands: whatever a command of
  \<open>src/src/quilt.cpp\<close> does, with any arguments and however it ends, the applied patches
  stay the first ones of a series without doubles. Most commands leave the
  \<open>QuiltState\<close> alone; init, new, delete, rename, fork, import, push, pop and refresh with
  a fork change it.
\<close>

section \<open>Commands that leave the state alone\<close>

lemma keeps_call [simp]: "keeps q (call m) \<longleftrightarrow> keeps q m"
  by (simp add: keeps_def)

lemma keeps_errors [simp]:
  "keeps q (unrecognized P arg s) \<longleftrightarrow> fst s = q"
  "keeps q (bad_color P arg s) \<longleftrightarrow> fst s = q"
  "keeps q (patch_error P code t what s) \<longleftrightarrow> fst s = q"
  "keeps q (no_patches P code s) \<longleftrightarrow> fst s = q"
  "keeps q (fail P msg s) \<longleftrightarrow> fst s = q"
  "keeps q (not_in_series P name s) \<longleftrightarrow> fst s = q"
  "keeps q (fully_applied P code s) \<longleftrightarrow> fst s = q"
  "keeps q (bad_algorithm P name s) \<longleftrightarrow> fst s = q"
  "keeps q (file_error P code f what p s) \<longleftrightarrow> fst s = q"
  "keeps q (file_failed P what f s) \<longleftrightarrow> fst s = q"
  by (cases s; auto simp: unrecognized_def bad_color_def patch_error_def no_patches_def fail_def
      not_in_series_def fully_applied_def bad_algorithm_def file_error_def file_failed_def world_def Let_def)+

text \<open>Case analysis on a goal without simplifying its conditions.\<close>

lemma keeps_if: "(c \<Longrightarrow> keeps q a) \<Longrightarrow> (\<not> c \<Longrightarrow> keeps q b) \<Longrightarrow> keeps q (if c then a else b)"
  by simp

lemma keeps_option:
  "(m = None \<Longrightarrow> keeps q a) \<Longrightarrow> (\<And>x. m = Some x \<Longrightarrow> keeps q (f x)) \<Longrightarrow>
   keeps q (case m of None \<Rightarrow> a | Some x \<Rightarrow> f x)"
  by (cases m) auto

lemmas keeps_cases = keeps_if keeps_option

lemma keeps_each:
  assumes "\<And>x s. fst s = q \<Longrightarrow> keeps q (step x s)" "fst s = q"
  shows "keeps q (each step xs s)"
  using assms(2)
proof (induction xs arbitrary: s)
  case (Cons x xs)
  show ?case using assms(1)[OF Cons.prems] by (simp, rule keeps_bind) (use Cons.IH in auto)
qed simp

lemma target_args_keeps: "keeps (fst s) (target_args P args t s)"
  by (induction P args t s rule: target_args.induct) auto

lemma series_args_keeps: "keeps (fst s) (series_args P args v c s)"
  by (induction P args v c s rule: series_args.induct) (auto simp: Let_def)

lemma top_args_keeps: "keeps (fst s) (top_args P args s)"
  by (induction P args s rule: top_args.induct) auto

lemma cmd_series_keeps: "keeps (fst s) (cmd_series P args s)"
  unfolding cmd_series_def by (rule keeps_bind[OF series_args_keeps]) (auto simp: Let_def split: prod.split)

lemma cmd_applied_keeps: "keeps (fst s) (cmd_applied P args s)"
  unfolding cmd_applied_def by (rule keeps_bind[OF target_args_keeps]) (auto split: prod.split)

lemma cmd_unapplied_keeps: "keeps (fst s) (cmd_unapplied P args s)"
  unfolding cmd_unapplied_def
  by (rule keeps_bind[OF target_args_keeps]) (auto split: prod.split option.split)

lemma cmd_top_keeps: "keeps (fst s) (cmd_top P args s)"
  unfolding cmd_top_def by (rule keeps_bind[OF top_args_keeps]) (auto split: prod.split)

lemma cmd_next_keeps: "keeps (fst s) (cmd_next P args s)"
  unfolding cmd_next_def by (rule keeps_bind[OF target_args_keeps]) (auto simp: Let_def split: prod.split)

lemma cmd_previous_keeps: "keeps (fst s) (cmd_previous P args s)"
  unfolding cmd_previous_def
  by (rule keeps_bind[OF target_args_keeps]) (auto split: prod.split option.split)

lemma cmd_annotate_keeps: "keeps (fst s) (cmd_annotate P args s)"
  by (cases s) (simp add: cmd_annotate_def annotate_file_def no_applied_patches_error_def Let_def split: option.split)

lemma graph_errors_keep [simp]:
  "keeps q (graph_usage P s) \<longleftrightarrow> fst s = q" "keeps q (graph_no_ps P s) \<longleftrightarrow> fst s = q"
  by (simp_all add: graph_usage_def graph_no_ps_def)

lemma graph_args_keeps: "keeps (fst s) (graph_args P args u s)"
proof (induction args arbitrary: u rule: length_induct)
  case (1 args)
  show ?case
  proof (cases args)
    case (Cons arg rest)
    have "keeps (fst s) (graph_args P rest v s)" "keeps (fst s) (graph_args P (tl rest) v s)" for v
      using 1 Cons by simp_all
    then show ?thesis unfolding Cons graph_args.simps by (intro keeps_cases) simp_all
  qed simp
qed

lemma cmd_graph_keeps: "keeps (fst s) (cmd_graph P args s)"
  unfolding cmd_graph_def
proof (rule keeps_bind[OF graph_args_keeps], rule keeps_bind, goal_cases)
  case (1 u s1)
  then show ?case by (auto simp: graph_selected_def Let_def split: prod.split option.split)
qed (auto simp: Let_def split: prod.split option.split)

lemma mail_parse_keeps: "keeps (fst s) (mail_parse P args u s)"
  by (induction P args u s rule: mail_parse.induct) (auto simp: Let_def split: option.split)

lemma mail_bound_keeps: "fst s = q \<Longrightarrow> keeps q (mail_bound P name d s)"
  by (cases s) (simp add: mail_bound_def split: option.split)

lemma mail_range_keeps: "keeps (fst s) (mail_range P args s)"
  by (auto simp: mail_range_def Let_def mail_bound_keeps split: list.split intro!: keeps_bind[OF mail_bound_keeps])

lemma cmd_mail_keeps: "keeps (fst s) (cmd_mail P args s)"
  unfolding cmd_mail_def
proof (rule keeps_bind[OF mail_parse_keeps], goal_cases)
  case (1 u s1)
  have "keeps (fst s1) (bind_res (mail_range P (ml_args u) s1)
      (\<lambda>(first_idx, last_idx) s. mail_patches P u first_idx last_idx s))"
    by (rule keeps_bind[OF mail_range_keeps])
      (auto simp: mail_patches_def mail_write_def Let_def split: option.split prod.split)
  then show ?case using 1 by auto
qed

lemma stub_keeps:
  "keeps (fst s) (cmd_grep P args s)" "keeps (fst s) (cmd_setup P args s)" "keeps (fst s) (cmd_shell P args s)"
  by (simp_all add: cmd_grep_def cmd_setup_def cmd_shell_def not_implemented_def)

lemma cmd_upgrade_keeps: "keeps (fst s) (cmd_upgrade P args s)"
  by (induction P args s rule: cmd_upgrade.induct) auto

lemma file_args_keeps: "keeps (fst s) (file_args P args u s)"
  by (induction P args u s rule: file_args.induct) (auto split: list.split)

lemma file_command_keeps:
  assumes "\<And>patch files s. fst s = q \<Longrightarrow> keeps q (run patch files s)" "fst s = q"
  shows "keeps q (file_command P usage run args s)"
  unfolding file_command_def
  by (rule keeps_bind) (use file_args_keeps[of s] assms in \<open>auto split: prod.split\<close>)

lemma each_command_keeps:
  assumes "\<And>x s. fst s = q \<Longrightarrow> keeps q (step x s)" "fst s = q"
  shows "keeps q (bind_res (each step xs s) (\<lambda>_ s. Go 0 s))"
  by (rule keeps_bind[OF keeps_each[OF assms]]) auto

lemma add_backup_keeps: "fst s = q \<Longrightarrow> keeps q (add_backup P patch f s)"
  by (cases s) (simp add: add_backup_def file_note_def Let_def split: prod.split)

lemma cmd_add_keeps: "keeps (fst s) (cmd_add P args s)"
proof -
  have "keeps (fst s) (add_file P patch f s')" if "fst s' = fst s" for patch f s'
    using that add_backup_keeps[of s' "fst s" P patch f] by (cases s') (simp add: add_file_def split: option.split)
  then show ?thesis unfolding cmd_add_def by (auto intro!: file_command_keeps each_command_keeps)
qed

lemma cmd_remove_keeps: "keeps (fst s) (cmd_remove P args s)"
proof -
  have "keeps (fst s) (remove_file P patch f s')" if "fst s' = fst s" for patch f s'
    using that by (cases s') (simp add: remove_file_def file_note_def Let_def split: prod.split)
  then show ?thesis unfolding cmd_remove_def by (auto intro!: file_command_keeps each_command_keeps)
qed

lemma edit_args_keeps: "keeps (fst s) (edit_args P args fs s)"
  by (induction P args fs s rule: edit_args.induct) auto

lemma cmd_edit_keeps: "keeps (fst s) (cmd_edit P args s)"
proof -
  have step: "keeps (fst s) (edit_track P patch f s')" if "fst s' = fst s" for patch f s'
    using that add_backup_keeps[of s' "fst s" P patch f] by (simp add: edit_track_def)
  have run: "keeps (fst s) (bind_res (each (edit_track P patch) files s') (\<lambda>_ (q, w).
      case run_cmd_tty P (edit_command P files q w) w of (code, w) \<Rightarrow> Go code (q, w)))" if "fst s' = fst s" for patch files s'
    by (rule keeps_bind[OF keeps_each]) (use step that in \<open>auto split: prod.split\<close>)
  show ?thesis
    unfolding cmd_edit_def
    by (auto intro!: keeps_bind[OF edit_args_keeps] run)
qed

lemma snapshot_args_keeps: "keeps (fst s) (snapshot_args P args rm s)"
  by (induction P args rm s rule: snapshot_args.induct) auto

lemma pc_dir_ready_keeps: "fst s = q \<Longrightarrow> keeps q (pc_dir_ready P s)"
  by (cases s) (simp add: pc_dir_ready_def split: prod.split)

lemma cmd_snapshot_keeps: "keeps (fst s) (cmd_snapshot P args s)"
proof -
  have one: "keeps q (snapshot_file P f s')" if "fst s' = q" for q f and s' :: "'a qs"
    using that by (cases s') (simp add: snapshot_file_def split: prod.split)
  have clear: "keeps q (snapshot_clear P d s')" if "fst s' = q" for q d and s' :: "'a qs"
    using that by (cases s') (simp add: snapshot_clear_def split: prod.split)
  have make: "keeps q (snapshot_make P d s')" if "fst s' = q" for q d and s' :: "'a qs"
    using that by (cases s') (simp add: snapshot_make_def split: prod.split)
  show ?thesis
    unfolding cmd_snapshot_def Let_def
    by (rule keeps_bind[OF snapshot_args_keeps])
      (auto intro!: keeps_bind[OF clear] keeps_bind[OF pc_dir_ready_keeps] keeps_bind[OF make]
        each_command_keeps one split: prod.split)
qed

lemma revert_conflict_keeps: "keeps (fst s) (revert_conflict P files aps s)"
  by (induction P files aps s rule: revert_conflict.induct) (auto simp: Let_def split: option.split)

lemma cmd_revert_keeps: "keeps (fst s) (cmd_revert P args s)"
proof -
  have target: "keeps k (revert_to P patch f c s')" if "fst s' = k" for k patch f c and s' :: "'a qs"
    using that by (cases s') (simp add: revert_to_def reverted_def Let_def split: prod.split)
  have one: "keeps q (revert_file P patch tx f s')" if "fst s' = q" for q patch tx f and s' :: "'a qs"
    using that target by (cases s') (simp add: revert_file_def Let_def split: option.split prod.split)
  have run: "keeps (fst s) (bind_res (revert_conflict P files aps s') (\<lambda>_ (q, w).
      let patch_text = read_file P (patch_path q patch) w in
      bind_res (each (revert_file P patch patch_text) files (q, w)) (\<lambda>_ s. Go 0 s)))" if "fst s' = fst s"
    for files aps patch s'
    by (rule keeps_bind)
      (use that revert_conflict_keeps[of s'] in \<open>auto simp: Let_def intro!: each_command_keeps one split: prod.split\<close>)
  show ?thesis
    unfolding cmd_revert_def by (auto simp del: Let_def split_paired_All intro!: file_command_keeps run[unfolded Let_def] simp: Let_def)
qed

lemma env_algorithm_keeps: "keeps (fst s) (env_algorithm P s)"
  by (simp add: env_algorithm_def Let_def split: option.split)

lemma diff_value_keeps: "diff_value P arg v u s = Some r \<Longrightarrow> keeps (fst s) r"
  by (auto simp: diff_value_def split: if_splits option.splits)

lemma diff_flag_keeps: "keeps (fst s) (diff_flag P arg u s)"
  by (simp add: diff_flag_def diff_color_def split: option.split)

lemma diff_args_keeps: "keeps (fst s) (diff_args P args u s)"
proof (induction P args u s rule: diff_args.induct)
  case (2 P arg args u s)
  show ?case
  proof (cases "if args = [] then None else diff_value P arg (hd args) u s")
    case None
    show ?thesis
      by (simp add: None del: diff_args.simps(1)) (rule keeps_bind[OF diff_flag_keeps], use 2(1)[OF None] in auto)
  next
    case (Some r)
    then have "keeps (fst s) r" using diff_value_keeps[of P arg "hd args" u s r] by (auto split: if_splits)
    then show ?thesis
      by (simp add: Some) (rule keeps_bind, use 2(2)[OF Some] in auto)
  qed
qed simp

lemma show_diff_keeps: "fst s = q \<Longrightarrow> keeps q (show_diff P u h file old new s)"
  by (cases s) (simp add: show_diff_def split: option.split prod.split)

lemma diff_plain_keeps: "fst s = q \<Longrightarrow> keeps q (diff_plain P u h patch warned files s)"
proof (induction files arbitrary: warned s)
  case (Cons f fs)
  then show ?case by (cases s) (auto simp: Let_def intro!: keeps_bind[OF show_diff_keeps])
qed simp

lemma diff_files_keeps: "keeps (fst s) (diff_files P u h patch tracked s)"
proof -
  have one: "keeps q (diff_since_file P u h stored patch tmp f s')" if "fst s' = q" for q stored tmp f and s' :: "'a qs"
    using that by (cases s') (simp add: diff_since_file_def Let_def split: option.split prod.split)
  have since: "keeps (fst s) (diff_since P u h patch tracked s)"
    by (cases s) (auto simp: diff_since_def Let_def intro!: keeps_bind[OF keeps_each] one split: prod.split)
  have snap: "keeps q (diff_snapshot_file P u h patch f s')" if "fst s' = q" for q f and s' :: "'a qs"
    using that show_diff_keeps[of s' q] by (cases s') (simp add: diff_snapshot_file_def Let_def)
  have comb: "keeps q (diff_combine_file P u h patch f s')" if "fst s' = q" for q f and s' :: "'a qs"
    using that show_diff_keeps[of s' q] by (cases s') (simp add: diff_combine_file_def Let_def)
  show ?thesis unfolding diff_files_def by (auto intro: since keeps_each snap comb diff_plain_keeps)
qed

lemma cmd_diff_keeps: "keeps (fst s) (cmd_diff P args s)"
proof -
  have tracked: "keeps q (diff_tracked P u patch s')" if "fst s' = q" for q u patch and s' :: "'a qs"
    using that by (cases s') (simp add: diff_tracked_def)
  have conf: "keeps q (diff_conflicts P u s')" if "fst s' = q" for q u and s' :: "'a qs"
    using that by (simp add: diff_conflicts_def)
  have files: "keeps q (bind_res (diff_files P u h patch ts s') (\<lambda>_ s. Go 0 s))" if "fst s' = q"
    for q u h patch ts and s' :: "'a qs"
    by (rule keeps_bind) (use that diff_files_keeps[of s'] in auto)
  show ?thesis
    unfolding cmd_diff_def Let_def
    by (auto intro!: keeps_bind[OF env_algorithm_keeps] keeps_bind[OF tracked] keeps_bind[OF conf] files
        keeps_bind[OF diff_args_keeps, THEN subst[where P = "\<lambda>q. keeps q _", rotated]] split: option.split)
qed

section \<open>Refresh\<close>

abbreviation stacked :: "'w qs \<Rightarrow> bool" where
  "stacked s \<equiv> stack_ok (fst s)"

lemma keeps_stacked: "keeps (fst s) m \<Longrightarrow> stacked s \<Longrightarrow> holds stacked m"
  unfolding keeps_def by (erule holds_mono) simp

lemma stacked_bind:
  "holds stacked m \<Longrightarrow> (\<And>a s. m = Go a s \<Longrightarrow> stacked s \<Longrightarrow> holds stacked (f a s)) \<Longrightarrow> holds stacked (bind_res m f)"
  by (rule holds_bindI) auto

lemma holds_if: "(c \<Longrightarrow> holds Q a) \<Longrightarrow> (\<not> c \<Longrightarrow> holds Q b) \<Longrightarrow> holds Q (if c then a else b)"
  by simp

lemma holds_option:
  "(m = None \<Longrightarrow> holds Q a) \<Longrightarrow> (\<And>x. m = Some x \<Longrightarrow> holds Q (f x)) \<Longrightarrow>
   holds Q (case m of None \<Rightarrow> a | Some x \<Rightarrow> f x)"
  by (cases m) auto

lemmas holds_cases = holds_if holds_option

lemma refresh_value_keeps: "refresh_value P arg v u s = Some r \<Longrightarrow> keeps (fst s) r"
  by (auto simp: refresh_value_def split: if_splits option.splits)

lemma refresh_flag_keeps: "keeps (fst s) (refresh_flag P arg u s)"
  unfolding refresh_flag_def by (intro keeps_cases) simp_all

lemma refresh_args_keeps: "keeps (fst s) (refresh_args P args u s)"
proof (induction P args u s rule: refresh_args.induct)
  case (2 P arg args u s)
  show ?case
  proof (cases "if args = [] then None else refresh_value P arg (hd args) u s")
    case None
    show ?thesis
      by (simp add: None del: refresh_args.simps(1)) (rule keeps_bind[OF refresh_flag_keeps], use 2(1)[OF None] in auto)
  next
    case (Some r)
    then have "keeps (fst s) r" using refresh_value_keeps[of P arg "hd args" u s r] by (auto split: if_splits)
    then show ?thesis
      by (simp add: Some) (rule keeps_bind, use 2(2)[OF Some] in auto)
  qed
qed simp

lemma refresh_file_keeps: "fst s = q \<Longrightarrow> keeps q (refresh_file P u h patch shadows f content s)"
  by (cases s) (simp add: refresh_file_def split: option.split prod.split)

lemma refresh_files_keeps: "fst s = q \<Longrightarrow> keeps q (refresh_files P u h patch shadows fs content s)"
proof (induction fs arbitrary: content s)
  case (Cons f fs)
  then show ?case by (auto intro!: keeps_bind[OF refresh_file_keeps])
qed simp

lemma refresh_write_keeps: "fst s = q \<Longrightarrow> keeps q (refresh_write P patch did_fork content s)"
  by (cases s) (simp add: refresh_write_def refresh_report_def Let_def split: prod.split)

lemma refresh_patch_keeps: "keeps (fst s) (refresh_patch P u h patch did_fork s)"
proof -
  obtain q w where s: "s = (q, w)" by (cases s)
  show ?thesis
    unfolding s refresh_patch_def Let_def
    by (auto simp: refresh_report_def Let_def intro!: keeps_bind[OF refresh_files_keeps] refresh_write_keeps
        split: prod.split)
qed

lemma fork_backups_keeps: "keeps (fst s) (fork_backups P old new s)"
  by (cases s) (simp add: fork_backups_def Let_def split: option.split)

lemma fork_settings_lists [simp]:
  "q_series (fork_settings old new q) = q_series q" "q_applied (fork_settings old new q) = q_applied q"
  by (simp_all add: fork_settings_def)

lemma fork_stack_stacked:
  assumes "stacked s" "new \<notin> set (q_series (fst s))" "q_applied (fst s) \<noteq> []"
    "find_in_series (fst s) (last (q_applied (fst s))) = Some idx"
  shows "holds stacked (fork_stack P old new idx s)"
proof -
  obtain q w where s: "s = (q, w)" by (cases s)
  have "top_index q = idx" using assms(3,4) s by (simp add: top_index_def find_in_series_def)
  then have k: "nat idx + 1 = length (q_applied q)" using top_index_stack[of q] assms(1,3) s by (cases "q_applied q") auto
  let ?q = "(fork_settings old new q)\<lparr>q_series := take (nat idx + 1) (q_series q) @ new # drop (nat idx + 1) (q_series q)\<rparr>"
  have n: "named q new ?q" unfolding named_def k by simp
  have "stack_ok ?q" "stack_ok (?q\<lparr>q_applied := q_applied q @ [new]\<rparr>)"
    using named_stack[OF _ _ n] assms(1,2) s by auto
  then show ?thesis unfolding s fork_stack_def Let_def
    by (auto simp: write_applied_patches_def split: prod.split)
qed

lemma refresh_fork_stacked:
  assumes "stacked s" "q_applied (fst s) \<noteq> []"
  shows "holds stacked (refresh_fork P u patch s)"
proof -
  let ?new = "refresh_fork_name u patch"
  have "holds stacked (bind_res (fork_backups P patch ?new s) (\<lambda>_ s.
      bind_res (fork_stack P patch ?new idx s) (\<lambda>_ (q, w).
        Go (?new, True) (q, out_line P (''Fork of patch '' @ format_patch P q patch w @
          '' created as '' @ format_patch P q ?new w) w))))"
    if idx: "find_in_series (fst s) patch = Some idx" "find_in_series (fst s) ?new = None"
      "patch = last (q_applied (fst s))" for idx
  proof (rule stacked_bind[OF keeps_stacked[OF fork_backups_keeps assms(1)]], rule stacked_bind, goal_cases)
    case (1 a s1)
    then have "fst s1 = fst s" using fork_backups_keeps[of s P patch ?new] by simp
    then show ?case using fork_stack_stacked[of s1 ?new idx P patch] idx assms by (simp add: find_in_series_None)
  qed (auto split: prod.split)
  then show ?thesis
    unfolding refresh_fork_def Let_def
    using assms(1) by (intro holds_cases) (simp_all add: keeps_stacked)
qed

lemma cmd_refresh_stacked:
  assumes "stacked s"
  shows "holds stacked (cmd_refresh P args s)"
proof (cases "q_applied (fst s) = []")
  case True
  then show ?thesis using assms by (simp add: cmd_refresh_def fail_def)
next
  case False
  have run: "holds stacked (bind_res (refresh_fork P u patch s') (\<lambda>(patch, did_fork) s.
      refresh_patch P u (refresh_how u p_format shape) patch did_fork s))" if "fst s' = fst s" for u patch p_format shape s'
    by (rule stacked_bind[OF refresh_fork_stacked])
      (use that False assms keeps_stacked[OF refresh_patch_keeps] in \<open>auto split: prod.split\<close>)
  show ?thesis
  proof (cases "env_algorithm P s")
    case (Go a s1)
    then have s1: "fst s1 = fst s" using env_algorithm_keeps[of s P] by simp
    show ?thesis
    proof (cases "refresh_args P args (refresh_defaults P (snd s1) a) s1")
      case (Go u s2)
      then have "fst s2 = fst s" using refresh_args_keeps[of s1 P args "refresh_defaults P (snd s1) a"] s1 by simp
      then show ?thesis using run \<open>env_algorithm P s = Go a s1\<close> Go False
        by (simp add: cmd_refresh_def Let_def split: option.split)
    next
      case (Exit n s2)
      then show ?thesis using refresh_args_keeps[of s1 P args "refresh_defaults P (snd s1) a"] s1 assms
          \<open>env_algorithm P s = Go a s1\<close> False by (simp add: cmd_refresh_def)
    qed (use \<open>env_algorithm P s = Go a s1\<close> False in \<open>simp add: cmd_refresh_def\<close>)
  next
    case (Exit n s1)
    then show ?thesis using env_algorithm_keeps[of s P] assms False by (simp add: cmd_refresh_def)
  qed (use False in \<open>simp add: cmd_refresh_def\<close>)
qed

text \<open>Without arguments, as push calls it, refresh leaves the state alone.\<close>

lemma cmd_refresh_plain_keeps: "keeps (fst s) (cmd_refresh P [] s)"
proof -
  have "refresh_fork P (refresh_defaults P w a) patch s' = Go (patch, False) s'" for w a patch s'
    by (simp add: refresh_fork_def refresh_defaults_def Let_def)
  then have "keeps q (bind_res (refresh_fork P (refresh_defaults P w a) patch s') (\<lambda>(patch, did_fork) s.
      refresh_patch P (refresh_defaults P w a) h patch did_fork s))" if "fst s' = q" for w a patch s' q h
    using refresh_patch_keeps[of s'] that by simp
  then show ?thesis
    unfolding cmd_refresh_def Let_def
    by (auto intro!: keeps_bind[OF env_algorithm_keeps] split: option.split)
qed

section \<open>Push and pop\<close>

text \<open>Push calls refresh without arguments only.\<close>

lemma push_content_plain:
  "push_content P refresh u extra name d t s = push_content P (\<lambda>_. refresh []) u extra name d t s"
  by (simp add: push_content_def)

lemma push_one_plain: "push_one P refresh u extra f name s = push_one P (\<lambda>_. refresh []) u extra f name s"
  by (simp only: push_one_def push_content_plain[of P refresh])

lemma push_loop_plain:
  "push_loop P refresh u extra st e i l s = push_loop P (\<lambda>_. refresh []) u extra st e i l s"
proof (induction "nat (e - i + 1)" arbitrary: i l s rule: less_induct)
  case less
  have IH: "push_loop P refresh u extra st e (i + 1) nm = push_loop P (\<lambda>_. refresh []) u extra st e (i + 1) nm"
    if "i \<le> e" for nm
    using less[of "i + 1"] that by (intro ext) simp
  then show ?case
    by (subst (1 2) push_loop.simps) (simp add: Let_def push_one_plain[of P refresh])
qed

lemma cmd_push_plain: "cmd_push P refresh args s = cmd_push P (\<lambda>_. refresh []) args s"
  unfolding cmd_push_def by (simp only: push_loop_plain[of P refresh])

lemma keeps_state_refresh: "keeps_state (\<lambda>_. cmd_refresh P [])"
  using cmd_refresh_plain_keeps[of _ P] by (simp add: keeps_state_def keeps_def)

lemma stack_ok_with_applied: "stack_ok q \<Longrightarrow> k \<le> int (length (q_series q)) \<Longrightarrow> stack_ok (with_applied q k)"
  by (simp add: stack_ok_def min_def)

lemma finish_holds: "(\<And>n s. finish r = Some (n, s) \<Longrightarrow> Q s) \<Longrightarrow> holds Q r"
  by (cases r) auto

lemma cmd_push_stacked:
  assumes "stacked s"
  shows "holds stacked (cmd_push P (cmd_refresh P) args s)"
proof (rule finish_holds)
  fix n s' assume f: "finish (cmd_push P (cmd_refresh P) args s) = Some (n, s')"
  obtain q w q' w' where s: "s = (q, w)" "s' = (q', w')" by (cases s, cases s')
  have "\<exists>k. int (length (q_applied q)) \<le> k \<and> k \<le> int (length (q_series q)) \<and> q' = with_applied q k \<and>
      (n = 0 \<longrightarrow> int (length (q_applied q)) < k)"
    by (rule cmd_push_stack[OF keeps_state_refresh, where w = w and w' = w'])
      (use assms f s cmd_push_plain[of P "cmd_refresh P"] in simp_all)
  then show "stacked s'" using assms s stack_ok_with_applied by auto
qed

lemma pop_one_stacked:
  assumes "\<And>args s. stacked s \<Longrightarrow> holds stacked (refresh args s)" "stacked s"
  shows "holds stacked (pop_one P refresh v fp s)"
proof -
  have "holds stacked (pop_refresh P refresh d s)" for d
  proof (cases s)
    case (Pair q w)
    then show ?thesis unfolding pop_refresh_def
      using assms(2) by (auto intro!: stacked_bind assms(1) split: prod.split)
  qed
  then show ?thesis
    unfolding pop_one_def Let_def
    by (intro stacked_bind) (use assms(2) keeps_stacked[OF neutral_keeps[OF pop_check_neutral]] in
      \<open>auto intro: stack_ok_popped\<close>)
qed

lemma pop_loop_stacked:
  assumes "\<And>args s. stacked s \<Longrightarrow> holds stacked (refresh args s)"
    "pop_loop P refresh v stop fp s = Some r" "stacked s"
  shows "holds stacked r"
proof -
  let ?Q = "\<lambda>(((((P, f), v), stop), fp), s) r. (\<forall>args s. stacked s \<longrightarrow> holds stacked (f args s)) \<longrightarrow>
      stacked s \<longrightarrow> holds stacked r"
  have "?Q (((((P, refresh), v), stop), fp), s) r"
  proof (rule pop_loop.raw_induct[OF _ assms(2)], goal_cases)
    case (1 pop_loop P' f v' stop' fp' s' r')
    show ?case
    proof (cases "stop' < int (length (q_applied (fst s')))")
      case True
      have "\<forall>args s. stacked s \<longrightarrow> holds stacked (f args s) \<Longrightarrow> stacked s' \<Longrightarrow> holds stacked (pop_one P' f v' fp' s')"
        by (rule pop_one_stacked) auto
      then show ?thesis using 1 True by (cases "pop_one P' f v' fp' s'") auto
    qed (use 1(2) in auto)
  qed
  then show ?thesis using assms(1,3) by simp
qed

lemma cmd_pop_stacked:
  assumes "stacked s" "cmd_pop P (cmd_refresh P) args s = Some r"
  shows "holds stacked r"
proof -
  let ?m = "bind_res (pop_args P args pop_defaults s) (\<lambda>v s. bind_res (pop_stop P v s) (\<lambda>stop s. Go (v, stop) s))"
  have m: "neutral (fst s) ?m"
    by (rule neutral_bindI[OF pop_args_neutral], rule neutral_bindI) (use pop_stop_neutral in \<open>metis, simp\<close>)
  show ?thesis
  proof (cases ?m)
    case (Go vs s1)
    obtain v stop where vs: "vs = (v, stop)" by (cases vs)
    have s1: "stacked s1" using m Go assms(1) by simp
    obtain r1 where r: "pop_loop P (cmd_refresh P) v stop True s1 = Some r1" "r = bind_res r1 (\<lambda>_ s. pop_report P v s)"
      using assms(2) Go vs by (auto simp: cmd_pop_def)
    have "holds stacked r1" using pop_loop_stacked[OF cmd_refresh_stacked r(1) s1] .
    then show ?thesis unfolding r(2)
      by (rule stacked_bind) (auto simp: pop_report_def Let_def split: prod.split)
  qed (use assms m in \<open>auto simp: cmd_pop_def\<close>)
qed

section \<open>Commands that edit the lists\<close>

lemma commit_name_stacked:
  assumes "stacked s" "find_in_series (fst s) old = Some idx" "new \<notin> set (q_series (fst s))"
    "applied \<longleftrightarrow> old \<in> set (q_applied (fst s))"
  shows "holds stacked (commit_name P undo applied old new idx s)"
proof -
  obtain q w where s: "s = (q, w)" by (cases s)
  let ?q = "migrate old new q"
  have same: "stack_ok ?q" "stack_ok (unmigrate q old new ?q)"
    using assms(1) s stack_ok_cong[of ?q q] stack_ok_cong[of "unmigrate q old new ?q" q] by simp_all
  have done': "stack_ok (?q\<lparr>q_series := (q_series q)[nat idx := new],
      q_applied := if applied then replace_first old new (q_applied q) else q_applied q\<rparr>)"
    by (rule stack_ok_renamed[of q old idx new]) (use assms s in \<open>auto simp: replace_first_id\<close>)
  show ?thesis unfolding s commit_name_def Let_def
    using same done' by (cases applied) (simp_all split: prod.split)
qed

lemma ensure_dir_keeps: "fst s = q \<Longrightarrow> keeps q (ensure_dir P d s)"
  using neutral_keeps[OF ensure_dir_neutral[of s P d]] by simp

lemma stacked_keeps_bind:
  "keeps (fst s) m \<Longrightarrow> stacked s \<Longrightarrow> (\<And>a s'. m = Go a s' \<Longrightarrow> fst s' = fst s \<Longrightarrow> holds stacked (f a s')) \<Longrightarrow>
   holds stacked (bind_res m f)"
  by (cases m) auto

lemma rename_patch_stacked:
  assumes "stacked s" "find_in_series (fst s) old = Some idx" "new \<notin> set (q_series (fst s))"
  shows "holds stacked (rename_patch P old new idx s)"
  unfolding rename_patch_def Let_def
proof (rule stacked_keeps_bind[OF neutral_keeps[OF rename_patch_file_neutral] assms(1)], goal_cases)
  case (1 a s1)
  show ?case
  proof (rule stacked_keeps_bind[of s1], goal_cases)
    case 1
    show ?case using neutral_keeps[OF rename_backups_neutral[of s1]] by simp
  next
    case (3 b s2)
    then show ?case
      by (intro stacked_bind[OF commit_name_stacked])
        (use 1 assms in \<open>auto simp: is_applied_def split: prod.split\<close>)
  qed (use 1 assms in simp)
qed

lemma cmd_rename_stacked:
  assumes "stacked s"
  shows "holds stacked (cmd_rename P args s)"
  unfolding cmd_rename_def
proof (rule stacked_keeps_bind[OF neutral_keeps[OF rename_args_neutral] assms], goal_cases)
  case (1 u s1)
  then have "stacked s1" using assms by simp
  then show ?case
    by (intro stacked_keeps_bind[OF neutral_keeps[OF rename_names_neutral[of s1]]])
      (auto dest!: rename_names_spec intro: rename_patch_stacked)
qed

lemma fork_patch_stacked:
  assumes "stacked s" "old \<in> set (q_applied (fst s))"
  shows "holds stacked (fork_patch P old new s)"
proof -
  let ?drop = "\<lambda>copied w. if copied then snd (delete_file P (patch_path (fst s) new) w) else w"
  have "holds stacked (bind_res (fork_copy P (patch_path (fst s) old) (patch_path (fst s) new) s) (\<lambda>copied s1.
      bind_res (rename_backups P (?drop copied) (pc_patch_dir (fst s) old) (pc_patch_dir (fst s) new) s1) (\<lambda>renamed_pc s2.
      bind_res (commit_name P (\<lambda>w. ?drop copied (rename_back P renamed_pc (pc_patch_dir (fst s) new)
          (pc_patch_dir (fst s) old) w)) True old new idx s2) (\<lambda>_ (q, w).
        Go 0 (q, out_line P (''Fork of patch '' @ old @ '' created as '' @ new) w)))))"
    if "find_in_series (fst s) old = Some idx" "new \<notin> set (q_series (fst s))" for idx
  proof (rule stacked_keeps_bind[OF neutral_keeps[OF fork_copy_neutral] assms(1)], goal_cases)
    case (1 a s1)
    show ?case
    proof (rule stacked_keeps_bind[OF neutral_keeps[OF rename_backups_neutral]], goal_cases)
      case (2 b s2)
      then show ?case
        by (intro stacked_bind[OF commit_name_stacked]) (use 1 that assms in \<open>auto split: prod.split\<close>)
    qed (use 1 assms in simp)
  qed
  then show ?thesis
    unfolding fork_patch_def Let_def
    using assms(1) by (intro holds_cases) (simp_all add: keeps_stacked find_in_series_None)
qed

lemma cmd_fork_stacked:
  assumes "stacked s"
  shows "holds stacked (cmd_fork P args s)"
proof (cases "q_applied (fst s) = []")
  case True
  then show ?thesis using assms by (simp add: cmd_fork_def keeps_stacked)
next
  case False
  have arg: "keeps (fst s) (fork_arg P args s)" by (simp add: fork_arg_def split: list.split)
  have go: "holds stacked (fork_patch P (last (q_applied (fst s))) new s')" if "fst s' = fst s" for s' new
    using fork_patch_stacked[of s'] that assms False by simp
  show ?thesis
    unfolding cmd_fork_def Let_def if_not_P[OF False]
    by (rule stacked_keeps_bind[OF arg assms]) (use go in \<open>auto split: option.split\<close>)
qed

lemma cmd_delete_stacked: "stacked s \<Longrightarrow> holds stacked (cmd_delete P args s)"
  using cmd_delete_ends[of "fst s" P args "snd s"]
  by (cases "cmd_delete P args s") (auto simp: delete_ends_def)

lemma cmd_import_stacked: "stacked s \<Longrightarrow> holds stacked (cmd_import P args s)"
  using cmd_import_kept[of "fst s" P args "snd s"] by (auto elim: holds_mono)

lemma cmd_new_stacked: "stacked s \<Longrightarrow> holds stacked (cmd_new P args s)"
  using cmd_new_ends[of "fst s" P args "snd s"]
  by (cases "cmd_new P args s") (auto simp: new_ends_def)

lemma init_file_keeps: "fst s = q \<Longrightarrow> keeps q (init_file P path f msg s)"
  by (cases s) (simp add: init_file_def split: prod.split)

lemma cmd_init_stacked:
  assumes "stacked s"
  shows "holds stacked (cmd_init P args s)"
proof (cases "args = []")
  case True
  let ?q = "init_dirs P (fst s) (snd s)"
  have q: "stack_ok ?q" using assms stack_ok_cong[of ?q "fst s"] by (simp add: init_dirs_def Let_def)
  have "keeps ?q (cmd_init P args s)"
    unfolding cmd_init_def Let_def True
    by (auto intro!: keeps_bind[OF pc_dir_ready_keeps] keeps_bind[OF ensure_dir_keeps] keeps_bind[OF init_file_keeps])
  then show ?thesis using q unfolding keeps_def by (auto elim: holds_mono)
next
  case False
  then show ?thesis using assms by (simp add: cmd_init_def keeps_stacked)
qed

section \<open>The whole table\<close>

lemmas command_keeps =
  cmd_series_keeps cmd_applied_keeps cmd_unapplied_keeps cmd_top_keeps cmd_next_keeps cmd_previous_keeps
  cmd_annotate_keeps cmd_graph_keeps cmd_mail_keeps stub_keeps cmd_upgrade_keeps cmd_add_keeps cmd_remove_keeps
  cmd_edit_keeps cmd_snapshot_keeps cmd_revert_keeps cmd_diff_keeps cmd_header_keeps cmd_files_keeps
  cmd_patches_keeps cmd_fold_keeps

lemmas command_stacked =
  command_keeps[THEN keeps_stacked] cmd_refresh_stacked cmd_push_stacked cmd_rename_stacked
  cmd_fork_stacked cmd_delete_stacked cmd_import_stacked cmd_new_stacked cmd_init_stacked

lemmas command_entries =
  entry_new_def entry_add_def entry_push_def entry_pop_def entry_refresh_def entry_diff_def entry_series_def
  entry_applied_def entry_unapplied_def entry_top_def entry_next_def entry_previous_def entry_delete_def
  entry_rename_def entry_import_def entry_header_def entry_files_def entry_patches_def entry_edit_def
  entry_revert_def entry_remove_def entry_fold_def entry_fork_def entry_annotate_def entry_graph_def
  entry_mail_def entry_grep_def entry_setup_def entry_shell_def entry_snapshot_def entry_upgrade_def entry_init_def

lemma command_runs:
  "cm_run (entry_push P) = (\<lambda>args s. Some (cmd_push P (cmd_refresh P) args s))"
  "cm_run (entry_pop P) = cmd_pop P (cmd_refresh P)"
  "cm_run (entry_new P) = (\<lambda>args s. Some (cmd_new P args s))"
  "cm_run (entry_add P) = (\<lambda>args s. Some (cmd_add P args s))"
  "cm_run (entry_refresh P) = (\<lambda>args s. Some (cmd_refresh P args s))"
  "cm_run (entry_diff P) = (\<lambda>args s. Some (cmd_diff P args s))"
  "cm_run (entry_series P) = (\<lambda>args s. Some (cmd_series P args s))"
  "cm_run (entry_applied P) = (\<lambda>args s. Some (cmd_applied P args s))"
  "cm_run (entry_unapplied P) = (\<lambda>args s. Some (cmd_unapplied P args s))"
  "cm_run (entry_top P) = (\<lambda>args s. Some (cmd_top P args s))"
  "cm_run (entry_next P) = (\<lambda>args s. Some (cmd_next P args s))"
  "cm_run (entry_previous P) = (\<lambda>args s. Some (cmd_previous P args s))"
  "cm_run (entry_delete P) = (\<lambda>args s. Some (cmd_delete P args s))"
  "cm_run (entry_rename P) = (\<lambda>args s. Some (cmd_rename P args s))"
  "cm_run (entry_import P) = (\<lambda>args s. Some (cmd_import P args s))"
  "cm_run (entry_header P) = (\<lambda>args s. Some (cmd_header P args s))"
  "cm_run (entry_files P) = (\<lambda>args s. Some (cmd_files P args s))"
  "cm_run (entry_patches P) = (\<lambda>args s. Some (cmd_patches P args s))"
  "cm_run (entry_edit P) = (\<lambda>args s. Some (cmd_edit P args s))"
  "cm_run (entry_revert P) = (\<lambda>args s. Some (cmd_revert P args s))"
  "cm_run (entry_remove P) = (\<lambda>args s. Some (cmd_remove P args s))"
  "cm_run (entry_fold P) = (\<lambda>args s. Some (cmd_fold P args s))"
  "cm_run (entry_fork P) = (\<lambda>args s. Some (cmd_fork P args s))"
  "cm_run (entry_annotate P) = (\<lambda>args s. Some (cmd_annotate P args s))"
  "cm_run (entry_graph P) = (\<lambda>args s. Some (cmd_graph P args s))"
  "cm_run (entry_mail P) = (\<lambda>args s. Some (cmd_mail P args s))"
  "cm_run (entry_grep P) = (\<lambda>args s. Some (cmd_grep P args s))"
  "cm_run (entry_setup P) = (\<lambda>args s. Some (cmd_setup P args s))"
  "cm_run (entry_shell P) = (\<lambda>args s. Some (cmd_shell P args s))"
  "cm_run (entry_snapshot P) = (\<lambda>args s. Some (cmd_snapshot P args s))"
  "cm_run (entry_upgrade P) = (\<lambda>args s. Some (cmd_upgrade P args s))"
  "cm_run (entry_init P) = (\<lambda>args s. Some (cmd_init P args s))"
  by (simp_all only: command_entries command.simps)

lemma names_distinct: "distinct (map cm_name (command_table P))"
  by (simp add: command_table_def command_entries)

definition runs_stacked :: "'w command \<Rightarrow> bool" where
  "runs_stacked c \<longleftrightarrow> (\<forall>args s r. stacked s \<longrightarrow> cm_run c args s = Some r \<longrightarrow> holds stacked r)"

lemma table_runs_stacked: "list_all runs_stacked (command_table P)"
proof -
  have one: "runs_stacked c" if "cm_run c = (\<lambda>args s. Some (run args s))" "\<And>args s. stacked s \<Longrightarrow> holds stacked (run args s)"
    for c and run :: "string list \<Rightarrow> 'a qs \<Rightarrow> (int, 'a qs) res"
    using that by (simp add: runs_stacked_def)
  have pop: "runs_stacked (entry_pop P)" using cmd_pop_stacked by (auto simp: runs_stacked_def command_runs)
  show ?thesis
    unfolding command_table_def list.pred_inject
    by (intro conjI pop) ((rule one, rule command_runs, rule command_stacked, assumption)+, simp)
qed

end
