(* ===== verification/Refresh_Roundtrip.thy ===== *)
theory Refresh_Roundtrip
  imports Stack_Safety Diff_Roundtrip
begin

text \<open>
  What refresh writes, push and revert read back: a patch file of any number of diffs, each
  behind its index lines and with time stamps on its labels, under any header, is parsed as one
  file per diff, and applying it to the files the diffs were made from gives the files they were
  made to.
\<close>

section \<open>One diff in a patch file\<close>

text \<open>A label that names a file: the parser cuts off a time stamp behind a tab.\<close>

definition label_of :: "string \<Rightarrow> string \<Rightarrow> bool" where
  "label_of l path \<longleftrightarrow> nl \<notin> set l \<and> no_cr_end l \<and> extract_path l = path \<and> path \<noteq> ''/dev/null''"

text \<open>Lines behind a diff that end it.\<close>

definition ends_diff :: "lines \<Rightarrow> bool" where
  "ends_diff rest \<longleftrightarrow> rest = [] \<or> (\<exists>t. hd rest = CHR ''I'' # t)"

lemma parse_body_end: "ends_diff rest \<Longrightarrow> parse_body rv h os ns rest = (h, rest)"
  by (cases rest) (auto simp: ends_diff_def parse_body.simps(2) body_step_def is_no_newline_line_def starts_with_def)

lemma parse_hunks_end: "ends_diff rest \<Longrightarrow> parse_hunks rv rest acc = (acc, rest)"
  by (cases rest) (auto simp: ends_diff_def starts_with_def)

lemma parse_hunks_rest_printed:
  assumes "\<forall>h \<in> set hs. header_ok h \<and> (\<exists>i j i' j'. hunk_at a b i j h i' j')" "ends_diff rest"
  shows "parse_hunks rv (concat (map (hunk_lines a b on nn) hs) @ rest) acc =
    (acc @ map (parsed_hunk rv a b on nn) hs, rest)"
  using assms(1)
proof (induction hs arbitrary: acc)
  case Nil
  then show ?case using parse_hunks_end[OF assms(2)] by simp
next
  case (Cons h hs)
  from Cons.prems obtain i j i' j' where h: "header_ok h" "hunk_at a b i j h i' j'" by auto
  let ?rest = "concat (map (hunk_lines a b on nn) hs) @ rest"
  have cnt: "p_old_count (empty_hunk rv h) = (if rv then j' - j else i' - i)"
    "p_new_count (empty_hunk rv h) = (if rv then i' - i else j' - j)"
    using h(2) by (auto simp: hunk_at_def empty_hunk_def)
  have s: "script_from a b i j (h_ops h) i' j'" using h(2) by (simp add: hunk_at_def)
  have stop: "parse_body rv k os ns ?rest = (k, ?rest)" for k os ns
  proof (cases hs)
    case Nil
    then show ?thesis using parse_body_end[OF assms(2)] by simp
  next
    case (Cons h' hs')
    then have "\<exists>t. hd ?rest = CHR ''@'' # t" by (simp add: hunk_lines_def unified_header_ranges)
    then show ?thesis by (intro parse_body_stop) simp
  qed
  have "parse_body rv (empty_hunk rv h) 0 0 (concat (map (op_lines a b on nn) (h_ops h)) @ ?rest) =
      (parsed_hunk rv a b on nn h, ?rest)"
    using parse_body_ops[OF s, of 0 rv "empty_hunk rv h" 0 on nn ?rest]
    by (auto simp: cnt stop parsed_hunk_def)
  moreover have "starts_with (unified_header h) ''@@ ''"
    by (simp add: unified_header_ranges starts_with_def)
  ultimately show ?case
    using Cons.IH[of "acc @ [parsed_hunk rv a b on nn h]"] Cons.prems
    by (simp add: hunk_lines_def[of _ _ _ _ h] parse_header_printed[OF h(1)])
qed

lemma hunk_lines_clean:
  assumes "\<forall>h \<in> set hs. header_ok h \<and> (\<exists>i j i' j'. hunk_at a b i j h i' j')"
    "\<forall>l \<in> set a \<union> set b. no_cr_end l \<and> nl \<notin> set l" "l \<in> set (concat (map (hunk_lines a b on nn) hs))"
  shows "no_cr_end l \<and> nl \<notin> set l"
proof -
  from assms(3) obtain h where h: "h \<in> set hs" "l \<in> set (hunk_lines a b on nn h)" by auto
  from assms(1) h(1) obtain i j i' j' where hk: "header_ok h" "script_from a b i j (h_ops h) i' j'"
    unfolding hunk_at_def by blast
  show ?thesis
    using h(2) header_line_ok[OF hk(1)] op_lines_ok[OF hk(2) _ assms(2)] by (auto simp: hunk_lines_def)
qed

text \<open>The printed diff of two files: its lines, and the parsed file they stand for.\<close>

definition diff_block :: "string \<Rightarrow> string \<Rightarrow> string \<Rightarrow> string \<Rightarrow> lines \<Rightarrow> patch_hunk list \<Rightarrow> bool" where
  "diff_block s t ol nl' hls hs \<longleftrightarrow>
     (\<forall>l \<in> set hls. no_cr_end l \<and> nl \<notin> set l) \<and> hs \<noteq> [] \<and>
     (\<forall>rest. ends_diff rest \<longrightarrow> parse_hunks False (hls @ rest) [] = (hs, rest)) \<and>
     patch_chain (fl_lines (split_file_lines s)) (fl_lines (split_file_lines t))
       (fl_trailing_nl (split_file_lines s)) (fl_trailing_nl (split_file_lines t)) 0 0 hs"

lemma printed_diff_block:
  assumes "s \<noteq> t" "plain_text s" "plain_text t" "1 \<le> ctx"
  shows "\<exists>hls hs. snd (diff_texts s t ctx ol nl' Unified alg) = unlines ((''--- '' @ ol) # (''+++ '' @ nl') # hls) \<and>
    diff_block s t ol nl' hls hs"
proof -
  let ?x = "split_file_lines s" and ?y = "split_file_lines t"
  let ?a = "fl_lines ?x" and ?b = "fl_lines ?y" and ?on = "fl_trailing_nl ?x" and ?nn = "fl_trailing_nl ?y"
  from diff_text_hunks[OF assms(1), of ctx ol nl' alg] obtain ops where ops: "edit_script ?a ?b ops"
    "\<exists>p \<in> set ops. ty p \<noteq> OpE"
    "eq_op (int (length ?a) - 1) (int (length ?b) - 1) \<in> set ops \<longrightarrow> ?on = ?nn"
    "snd (diff_texts s t ctx ol nl' Unified alg) = format_unified ?a ?b ?on ?nn (build_hunks ops ctx) ol nl'"
    by blast
  let ?hs = "build_hunks ops ctx"
  have hc: "hunk_chain ?a ?b ops ctx 0 0 ?hs" using build_hunks_chain[OF ops(1)] assms(4) by simp
  have pc: "patch_chain ?a ?b ?on ?nn 0 0 (map (parsed_hunk False ?a ?b ?on ?nn) ?hs)"
    using hunk_chain_patch[OF hc assms(4) _ _ _ _ ops(3)] by simp
  have len: "int (length ?a) \<le> PTRDIFF_MAX" "int (length ?b) \<le> PTRDIFF_MAX"
    using assms(2,3) length_file_lines[of s] length_file_lines[of t] by (auto simp: plain_text_def)
  have hd: "\<forall>h \<in> set ?hs. header_ok h \<and> (\<exists>i j i' j'. hunk_at ?a ?b i j h i' j')"
    using hunk_chain_headers[OF hc _ _ _ _ len] by simp
  have ls: "\<forall>l \<in> set ?a \<union> set ?b. no_cr_end l \<and> nl \<notin> set l"
    using assms(2,3) split_file_lines_no_nl by (auto simp: plain_text_def)
  have ne: "?hs \<noteq> []" using build_hunks_nonempty[OF ops(1)] ops(2) assms(4) by auto
  let ?hls = "concat (map (hunk_lines ?a ?b ?on ?nn) ?hs)"
  have "diff_block s t ol nl' ?hls (map (parsed_hunk False ?a ?b ?on ?nn) ?hs)"
    using hunk_lines_clean[OF hd ls] parse_hunks_rest_printed[OF hd, of _ False ?on ?nn "[]"] ne pc
    by (simp add: diff_block_def)
  then show ?thesis using ops(4) format_unified_lines by metis
qed

section \<open>Many diffs\<close>

text \<open>What refresh writes for a file: nothing when it is unchanged.\<close>

record file_change =
  ch_file :: string
  ch_old :: string
  ch_new :: string
  ch_old_label :: string
  ch_new_label :: string

definition change_text :: "(string \<Rightarrow> lines) \<Rightarrow> int \<Rightarrow> diff_algorithm \<Rightarrow> file_change \<Rightarrow> string" where
  "change_text ix ctx alg c =
     (if ch_old c = ch_new c then []
      else unlines (ix (ch_file c)) @
        snd (diff_texts (ch_old c) (ch_new c) ctx (ch_old_label c) (ch_new_label c) Unified alg))"

definition change_ok :: "int \<Rightarrow> file_change \<Rightarrow> bool" where
  "change_ok sl c \<longleftrightarrow> plain_text (ch_old c) \<and> plain_text (ch_new c) \<and> ch_file c \<noteq> [] \<and>
     (\<exists>old_path new_path. label_of (ch_old_label c) old_path \<and> label_of (ch_new_label c) new_path \<and>
        choose_target old_path new_path sl = ch_file c)"

text \<open>Lines in front of a diff: the first one ends the diff before.\<close>

definition index_ok :: "lines \<Rightarrow> bool" where
  "index_ok ix \<longleftrightarrow> ix \<noteq> [] \<and> ends_diff ix \<and> (\<forall>l \<in> set ix. no_cr_end l \<and> nl \<notin> set l \<and> \<not> starts_with l ''--- '')"

definition change_file :: "int \<Rightarrow> file_change \<Rightarrow> patch_hunk list \<Rightarrow> patch_file" where
  "change_file sl c hs =
     (new_patch_file sl False (''--- '' @ ch_old_label c) (''+++ '' @ ch_new_label c))\<lparr>pf_hunks := hs\<rparr>"

lemma parse_files_skip: "\<forall>l \<in> set ls. \<not> starts_with l ''--- '' \<Longrightarrow> parse_files sl rv (ls @ rest) = parse_files sl rv rest"
  by (induction ls) auto

text \<open>The lines of the changes, and what the parser makes of them.\<close>

definition parsed_changes :: "int \<Rightarrow> file_change list \<Rightarrow> patch_file list \<Rightarrow> bool" where
  "parsed_changes sl cs pfs \<longleftrightarrow>
     list_all2 (\<lambda>c pf. \<exists>hs hls. pf = change_file sl c hs \<and> diff_block (ch_old c) (ch_new c) (ch_old_label c) (ch_new_label c) hls hs)
       (filter (\<lambda>c. ch_old c \<noteq> ch_new c) cs) pfs"

lemma changes_parse:
  assumes "\<forall>c \<in> set cs. change_ok sl c \<and> index_ok (ix (ch_file c))" "1 \<le> ctx"
  shows "\<exists>ls pfs. concat (map (change_text ix ctx alg) cs) = unlines ls \<and>
    (\<forall>l \<in> set ls. no_cr_end l \<and> nl \<notin> set l) \<and> ends_diff ls \<and>
    parse_files sl False ls = pfs \<and> parsed_changes sl cs pfs"
  using assms(1)
proof (induction cs)
  case Nil
  show ?case by (rule exI[of _ "[]"]) (simp add: ends_diff_def parsed_changes_def)
next
  case (Cons c cs)
  then obtain ls pfs where IH: "concat (map (change_text ix ctx alg) cs) = unlines ls"
    "\<forall>l \<in> set ls. no_cr_end l \<and> nl \<notin> set l" "ends_diff ls" "parse_files sl False ls = pfs" "parsed_changes sl cs pfs"
    by auto
  show ?case
  proof (cases "ch_old c = ch_new c")
    case True
    then have "change_text ix ctx alg c = []" by (simp add: change_text_def)
    then show ?thesis using IH True by (intro exI[of _ ls]) (simp add: parsed_changes_def)
  next
    case False
    have c: "change_ok sl c" "index_ok (ix (ch_file c))" using Cons.prems by auto
    then have pt: "plain_text (ch_old c)" "plain_text (ch_new c)" by (simp_all add: change_ok_def)
    from printed_diff_block[OF False pt assms(2)] obtain hls hs where d: "snd (diff_texts (ch_old c) (ch_new c) ctx (ch_old_label c) (ch_new_label c) Unified alg) =
        unlines ((''--- '' @ ch_old_label c) # (''+++ '' @ ch_new_label c) # hls)"
      "diff_block (ch_old c) (ch_new c) (ch_old_label c) (ch_new_label c) hls hs"
      by blast
    let ?ls = "ix (ch_file c) @ (''--- '' @ ch_old_label c) # (''+++ '' @ ch_new_label c) # hls @ ls"
    have "no_cr_end (''--- '' @ ch_old_label c)" "nl \<notin> set (''--- '' @ ch_old_label c)"
      "no_cr_end (''+++ '' @ ch_new_label c)" "nl \<notin> set (''+++ '' @ ch_new_label c)"
      using c(1) by (auto simp: change_ok_def label_of_def)
    then have clean: "\<forall>l \<in> set ?ls. no_cr_end l \<and> nl \<notin> set l"
      using c(2) d(2) IH(2) by (auto simp: index_ok_def diff_block_def)
    have fin: "ends_diff ?ls" using c(2) by (auto simp: index_ok_def ends_diff_def)
    have st: "starts_with (''--- '' @ ch_old_label c) ''--- ''" "starts_with (''+++ '' @ ch_new_label c) ''+++ ''"
      by (simp_all add: starts_with_def)
    have "parse_hunks False (hls @ ls) [] = (hs, ls)" using d(2) IH(3) by (simp add: diff_block_def)
    then have p: "parse_files sl False ?ls = change_file sl c hs # pfs"
      using c(2) st IH(4) by (simp add: parse_files_skip index_ok_def change_file_def Let_def)
    have whole_text: "concat (map (change_text ix ctx alg) (c # cs)) = unlines ?ls"
      using False d(1) IH(1) by (simp add: change_text_def)
    have "parsed_changes sl (c # cs) (change_file sl c hs # pfs)"
      using IH(5) False d(2) by (auto simp: parsed_changes_def)
    then show ?thesis using whole_text clean fin p by blast
  qed
qed

section \<open>Patching many files\<close>

text \<open>The files with their new contents.\<close>

definition changed_files :: "file_change list \<Rightarrow> (string \<rightharpoonup> string) \<Rightarrow> (string \<rightharpoonup> string)" where
  "changed_files cs m = fold (\<lambda>c m. m(ch_file c \<mapsto> ch_new c)) cs m"

lemma changed_files_Cons [simp]: "changed_files (c # cs) m = changed_files cs (m(ch_file c \<mapsto> ch_new c))"
  by (simp add: changed_files_def)

lemma changed_files_Nil [simp]: "changed_files [] m = m"
  by (simp add: changed_files_def)

lemma changed_files_other: "f \<notin> ch_file ` set cs \<Longrightarrow> changed_files cs m f = m f"
  by (induction cs arbitrary: m) auto

lemma changed_files_same:
  "distinct (map ch_file cs) \<Longrightarrow> c \<in> set cs \<Longrightarrow> changed_files cs m (ch_file c) = Some (ch_new c)"
  by (induction cs arbitrary: m) (auto simp: changed_files_other)

lemma change_file_facts:
  assumes "change_ok sl c"
  shows "pf_target_path (change_file sl c hs) = ch_file c" "\<not> pf_is_creation (change_file sl c hs)"
    "pf_hunks (change_file sl c hs) = hs"
  using assms by (auto simp: change_ok_def label_of_def change_file_def new_patch_file_def Let_def)

definition plain_run :: "patch_options \<Rightarrow> bool" where
  "plain_run opts \<longleftrightarrow> 0 \<le> o_fuzz opts \<and> \<not> o_dry_run opts \<and> \<not> o_remove_empty opts \<and> \<not> o_reverse opts"

lemma changes_patched:
  assumes o: "plain_run opts" and "\<forall>c \<in> set cs. change_ok sl c" "distinct (map ch_file cs)"
    "parsed_changes sl cs pfs" "\<forall>c \<in> set cs. m (ch_file c) = Some (ch_old c)"
  shows "\<exists>res'. patch_files P opts pfs (res, False, mem_io m w) = Some (res', False, mem_io (changed_files cs m) w) \<and>
    r_exit_code res' = r_exit_code res \<and> r_err res' = r_err res"
  using assms(2-)
proof (induction cs arbitrary: pfs m res)
  case Nil
  then show ?case by (simp add: parsed_changes_def)
next
  case (Cons c cs)
  have rest: "\<forall>d \<in> set cs. (m(ch_file c \<mapsto> ch_new c)) (ch_file d) = Some (ch_old d)"
    using Cons.prems(2,4) by (auto intro!: rev_image_eqI)
  show ?case
  proof (cases "ch_old c = ch_new c")
    case True
    then have "m(ch_file c \<mapsto> ch_new c) = m" using Cons.prems(4) by auto
    then show ?thesis
      using Cons.IH[of pfs m res] Cons.prems True by (simp add: parsed_changes_def)
  next
    case False
    then obtain hs hls pfs' where pfs: "pfs = change_file sl c hs # pfs'" "parsed_changes sl cs pfs'"
      "diff_block (ch_old c) (ch_new c) (ch_old_label c) (ch_new_label c) hls hs"
      using Cons.prems(3) by (auto simp: parsed_changes_def list_all2_Cons1)
    have c: "change_ok sl c" "ch_file c \<noteq> []" "plain_text (ch_old c)" "m (ch_file c) = Some (ch_old c)"
      using Cons.prems(1,4) by (auto simp: change_ok_def)
    note facts = change_file_facts[OF c(1), of hs]
    have "\<exists>res'. patch_one_file P opts (change_file sl c hs) (res, False, mem_io m w) =
        Some (res', False, mem_io (m(ch_file c \<mapsto> ch_new c)) w) \<and>
        r_exit_code res' = r_exit_code res \<and> r_err res' = r_err res"
      by (rule patch_one_chain[where s = "ch_old c"]) (use facts pfs(3) c o in \<open>auto simp: diff_block_def plain_run_def\<close>)
    then obtain r where r: "patch_one_file P opts (change_file sl c hs) (res, False, mem_io m w) =
        Some (r, False, mem_io (m(ch_file c \<mapsto> ch_new c)) w)"
      "r_exit_code r = r_exit_code res" "r_err r = r_err res" by blast
    define m1 where "m1 = m(ch_file c \<mapsto> ch_new c)"
    have "\<forall>d \<in> set cs. m1 (ch_file d) = Some (ch_old d)" using rest by (simp only: m1_def)
    from Cons.IH[OF _ _ pfs(2) this, of r] show ?thesis
      using Cons.prems(1,2) r pfs(1) unfolding m1_def[symmetric] changed_files_Cons by simp
  qed
qed

lemma strip_cr_starts: "starts_with (strip_cr l) p \<Longrightarrow> starts_with l p"
  by (cases l rule: rev_cases)
    (auto simp: starts_with_def strip_cr_def take_append split: if_splits, metis length_take min.cobounded1)

lemma split_lines_header:
  "\<forall>l \<in> set hls. nl \<notin> set l \<Longrightarrow> split_lines (unlines hls @ rest) = map strip_cr hls @ split_lines rest"
  using split_lines_unlines[of hls rest] by simp

theorem patch_of_changes:
  assumes o: "plain_run opts" and cs: "\<forall>c \<in> set cs. change_ok (o_strip_level opts) c \<and> index_ok (ix (ch_file c))"
    "distinct (map ch_file cs)" "1 \<le> ctx" "\<forall>c \<in> set cs. m (ch_file c) = Some (ch_old c)"
    and hs: "\<forall>l \<in> set hls. nl \<notin> set l \<and> \<not> starts_with l ''--- ''"
  shows "\<exists>res. builtin_patch P (unlines hls @ concat (map (change_text ix ctx alg) cs)) opts (mem_io m w) =
      Some (res, mem_io (changed_files cs m) w) \<and> r_exit_code res = 0 \<and> r_err res = []"
proof -
  let ?sl = "o_strip_level opts"
  from changes_parse[OF cs(1,3), of alg] obtain ls pfs where ls:
    "concat (map (change_text ix ctx alg) cs) = unlines ls" "\<forall>l \<in> set ls. no_cr_end l \<and> nl \<notin> set l"
    "parse_files ?sl False ls = pfs" "parsed_changes ?sl cs pfs" by blast
  have "split_lines (unlines hls @ unlines ls) = map strip_cr hls @ ls"
    using split_printed[OF ls(2)] hs by (simp add: split_lines_header)
  moreover have "parse_files ?sl False (map strip_cr hls @ ls) = pfs"
    using ls(3) hs by (subst parse_files_skip) (auto dest: strip_cr_starts)
  ultimately have parse: "parse_patch (unlines hls @ unlines ls) ?sl False = pfs"
    by (simp add: parse_patch_def)
  obtain res where "patch_files P opts pfs (\<lparr>r_exit_code = 0, r_out = [], r_err = []\<rparr>, False, mem_io m w) =
      Some (res, False, mem_io (changed_files cs m) w)" "r_exit_code res = 0" "r_err res = []"
    using changes_patched[OF o _ cs(2) ls(4) cs(4), of P "\<lparr>r_exit_code = 0, r_out = [], r_err = []\<rparr>" w] cs(1)
    by auto
  then show ?thesis
    using o parse ls(1) by (cases "pfs = []") (auto simp: builtin_patch_def Let_def plain_run_def)
qed

section \<open>Labels\<close>

definition label_name :: "string \<Rightarrow> bool" where
  "label_name f \<longleftrightarrow> f \<noteq> [] \<and> nl \<notin> set f \<and> tab \<notin> set f \<and> last f \<notin> {spc, cr} \<and> hd f \<noteq> slash"

definition plain_dir :: "string \<Rightarrow> bool" where
  "plain_dir d \<longleftrightarrow> d \<noteq> [] \<and> nl \<notin> set d \<and> tab \<notin> set d \<and> slash \<notin> set d"

lemma pad_chars:
  "c \<in> set (pad_int n i) \<Longrightarrow> is_digit c \<or> c = CHR ''-''"
  "c \<in> set (pad_signed n i) \<Longrightarrow> is_digit c \<or> c = CHR ''-'' \<or> c = CHR ''+''"
  using nat_str_digits[of c] by (auto simp: pad_int_def pad_signed_def Let_def is_digit_def char_in_def split: if_splits)

lemma nl_no_digit [simp]: "\<not> is_digit nl" "\<not> is_digit cr"
  by (simp_all add: is_digit_def char_in_def)

lemma pad_no_nl [simp]: "nl \<notin> set (pad_int n i)" "nl \<notin> set (pad_signed n i)" "cr \<notin> set (pad_int n i)"
  "pad_int n i \<noteq> []"
  using pad_chars(1)[of nl n i] pad_chars(1)[of cr n i] pad_chars(2)[of nl n i]
  by (auto simp: pad_int_def Let_def)

lemma stamp_shape:
  "format_file_timestamp P path w = [] \<or>
   (\<exists>t. format_file_timestamp P path w = tab # t \<and> nl \<notin> set t \<and> no_cr_end (tab # t))"
proof -
  have "last (pad_int 2 i) \<noteq> cr" for i using pad_no_nl(3,4)[of 2 i] last_in_set by metis
  then show ?thesis by (simp add: format_file_timestamp_def Let_def no_cr_end_def)
qed

text \<open>A label the parser reads back, with or without a time stamp.\<close>

definition clean_label :: "string \<Rightarrow> bool" where
  "clean_label l \<longleftrightarrow> nl \<notin> set l \<and> tab \<notin> set l \<and> l \<noteq> [] \<and> last l \<notin> {spc, cr} \<and> l \<noteq> ''/dev/null''"

lemma label_of_stamped:
  assumes "clean_label l" "st = [] \<or> (\<exists>t. st = tab # t \<and> nl \<notin> set t \<and> no_cr_end (tab # t))"
  shows "label_of (l @ st) l"
  using assms
  by (auto simp: clean_label_def label_of_def extract_path_def str_find_hit str_find_miss rdrop_while_id no_cr_end_def)

lemma strip_one_dir:
  assumes "slash \<notin> set d" "hd f \<noteq> slash" "f \<noteq> []"
  shows "strip_path (d @ slash # f) 1 = f"
  using assms by (cases f) (simp_all add: strip_path_def str_find_hit Let_def eval_nat_numeral)

lemma clean_label_dir:
  assumes "label_name f" "d \<noteq> []" "nl \<notin> set d" "tab \<notin> set d" "slash \<notin> set d"
  shows "clean_label (d @ slash # f)"
proof -
  have "hd (d @ slash # f) \<noteq> slash" using assms(2,5) by (cases d) auto
  then have "d @ slash # f \<noteq> ''/dev/null''" by (metis list.sel(1))
  then show ?thesis using assms by (auto simp: label_name_def clean_label_def)
qed

lemma clean_label_name:
  assumes "label_name f"
  shows "clean_label f" "clean_label (f @ ''.orig'')"
proof -
  have "hd f \<noteq> slash" "hd (f @ ''.orig'') \<noteq> slash" using assms by (auto simp: label_name_def)
  then have "f \<noteq> ''/dev/null''" "f @ ''.orig'' \<noteq> ''/dev/null''" by (metis list.sel(1))+
  then show "clean_label f" "clean_label (f @ ''.orig'')"
    using assms by (auto simp: label_name_def clean_label_def)
qed

lemma choose_target_dirs:
  assumes "label_name f" "plain_dir d" "plain_dir d'"
  shows "choose_target (d @ slash # f) (d' @ slash # f) 1 = f"
proof -
  have "clean_label (d @ slash # f)" "clean_label (d' @ slash # f)"
    using assms by (auto intro!: clean_label_dir simp: plain_dir_def)
  then show ?thesis
    using assms strip_one_dir[of d f] strip_one_dir[of d' f]
    by (simp add: choose_target_def Let_def clean_label_def plain_dir_def label_name_def)
qed

lemma labels_choose:
  assumes "label_name f" "plain_dir (basename (q_work_dir q))" "path_labels q f pf = (ol, nl')"
    "pf \<in> {''0'', ''1'', ''ab''}"
  shows "choose_target ol nl' (if pf = ''0'' then 0 else 1) = f \<and> clean_label ol \<and> clean_label nl'"
proof -
  let ?d = "basename (q_work_dir q)"
  consider (zero) "pf = ''0''" | (ab) "pf = ''ab''" | (one) "pf = ''1''" using assms(4) by auto
  then show ?thesis
  proof cases
    case zero
    then have l: "ol = f @ ''.orig''" "nl' = f" using assms(3) by (auto simp: path_labels_def)
    have "choose_target (f @ ''.orig'') f 0 = f"
      using clean_label_name[OF assms(1)] by (simp add: choose_target_def clean_label_def strip_path_def ends_with_def)
    then show ?thesis using zero l clean_label_name[OF assms(1)] by simp
  next
    case ab
    have "plain_dir ''a''" "plain_dir ''b''" by (simp_all add: plain_dir_def)
    from choose_target_dirs[OF assms(1) this] show ?thesis
      using ab assms(3) clean_label_dir[OF assms(1), of "''a''"] clean_label_dir[OF assms(1), of "''b''"]
      by (auto simp: path_labels_def)
  next
    case one
    then have l: "ol = (?d @ ''.orig'') @ slash # f" "nl' = ?d @ slash # f"
      using assms(3) by (simp_all add: path_labels_def)
    have d: "plain_dir (?d @ ''.orig'')" using assms(2) by (simp add: plain_dir_def)
    show ?thesis
      unfolding l using one choose_target_dirs[OF assms(1) d assms(2)] d assms(2)
        clean_label_dir[OF assms(1), of "?d @ ''.orig''"] clean_label_dir[OF assms(1), of ?d]
      by (simp add: plain_dir_def)
  qed
qed

section \<open>The text refresh builds\<close>

text \<open>A tracked file the theorem speaks of: it existed before the patch and exists now, and both
  contents are lines of text.\<close>

definition tracked_text :: "'w platform \<Rightarrow> quilt_state \<Rightarrow> string \<Rightarrow> string \<Rightarrow> 'w \<Rightarrow> bool" where
  "tracked_text P q patch file w \<longleftrightarrow>
     (let old_path = path_join (pc_patch_dir q patch) file; new_path = path_join (q_work_dir q) file in
      label_name file \<and> file_exists P old_path w \<and> file_exists P new_path w \<and>
      read_file P old_path w \<noteq> [] \<and> plain_text (read_file P old_path w) \<and> plain_text (read_file P new_path w) \<and>
      \<not> is_binary P old_path w \<and> \<not> is_binary P new_path w \<and>
      old_path \<notin> {[], ''/dev/null''} \<and> new_path \<notin> {[], ''/dev/null''})"

definition plain_how :: "diff_how \<Rightarrow> bool" where
  "plain_how h \<longleftrightarrow> h_p_format h \<in> {''0'', ''1'', ''ab''} \<and> \<not> h_reverse h \<and> h_cmd h = [] \<and> h_format h = Unified \<and>
     1 \<le> h_context h"

definition tracked_change :: "'w platform \<Rightarrow> quilt_state \<Rightarrow> diff_how \<Rightarrow> string \<Rightarrow> 'w \<Rightarrow> string \<Rightarrow> file_change" where
  "tracked_change P q h patch w file =
     (let old_path = path_join (pc_patch_dir q patch) file; new_path = path_join (q_work_dir q) file;
          labels = path_labels q file (h_p_format h);
          stamp = (\<lambda>path. if h_no_timestamps h then [] else format_file_timestamp P path w)
      in \<lparr>ch_file = file, ch_old = read_file P old_path w, ch_new = read_file P new_path w,
          ch_old_label = fst labels @ stamp old_path, ch_new_label = snd labels @ stamp new_path\<rparr>)"

definition index_line_list :: "quilt_state \<Rightarrow> string \<Rightarrow> string \<Rightarrow> lines" where
  "index_line_list q pf file =
     [''Index: '' @ index_name q pf file, ''===================================================================''] "

lemma index_line_list_text: "unlines (index_line_list q pf file) = index_lines q pf file"
  by (simp add: index_line_list_def index_lines_def)

lemma index_line_list_ok:
  assumes "label_name file" "plain_dir (basename (q_work_dir q))"
  shows "index_ok (index_line_list q pf file)"
  using assms by (auto simp: index_line_list_def index_ok_def ends_diff_def index_name_def no_cr_end_def
      starts_with_def label_name_def plain_dir_def)

lemma tracked_change_ok:
  assumes "tracked_text P q patch file w" "plain_dir (basename (q_work_dir q))" "plain_how h"
  shows "change_ok (if h_p_format h = ''0'' then 0 else 1) (tracked_change P q h patch w file)"
proof -
  obtain ol nl' where l: "path_labels q file (h_p_format h) = (ol, nl')" by force
  have f: "label_name file" "h_p_format h \<in> {''0'', ''1'', ''ab''}"
    using assms(1,3) by (simp_all add: tracked_text_def plain_how_def Let_def)
  note c = labels_choose[OF f(1) assms(2) l f(2)]
  have "label_of (ch_old_label (tracked_change P q h patch w file)) ol"
    "label_of (ch_new_label (tracked_change P q h patch w file)) nl'"
    unfolding tracked_change_def Let_def l
    using c stamp_shape[of P _ w] label_of_stamped[of ol "[]"] label_of_stamped[of nl' "[]"]
    by (auto intro!: label_of_stamped)
  moreover have "ch_file (tracked_change P q h patch w file) = file"
    "ch_old (tracked_change P q h patch w file) = read_file P (path_join (pc_patch_dir q patch) file) w"
    "ch_new (tracked_change P q h patch w file) = read_file P (path_join (q_work_dir q) file) w"
    by (simp_all add: tracked_change_def Let_def)
  ultimately show ?thesis
    using c assms(1) unfolding change_ok_def tracked_text_def Let_def label_name_def by metis
qed

lemma tracked_diff:
  assumes t: "tracked_text P q patch file w" "plain_dir (basename (q_work_dir q))" and h: "plain_how h"
    and o: "extra_diff_opts P w = []"
  shows "generate_file_diff P q h patch file w =
    (let c = tracked_change P q h patch w file in
     Some (snd (diff_texts (ch_old c) (ch_new c) (h_context h) (ch_old_label c) (ch_new_label c) Unified
       (h_algorithm h)), w))"
proof -
  let ?old = "path_join (pc_patch_dir q patch) file" and ?new = "path_join (q_work_dir q) file"
  have missing: "\<not> side_missing P ?old True w" "\<not> side_missing P ?new False w"
    using t(1) by (auto simp: tracked_text_def side_missing_def is_placeholder_copy_def Let_def)
  obtain ol nl' where l: "path_labels q file (h_p_format h) = (ol, nl')" by force
  have "label_name file" "h_p_format h \<in> {''0'', ''1'', ''ab''}"
    using t(1) h by (simp_all add: tracked_text_def plain_how_def Let_def)
  from labels_choose[OF this(1) t(2) l this(2)] have "ol \<noteq> []" "nl' \<noteq> []"
    by (auto simp: clean_label_def)
  then show ?thesis
    using missing t(1) h o l
    by (simp add: generate_file_diff_def generate_path_diff_def tracked_text_def plain_how_def inner_diff_def
        builtin_diff_def diff_input_def fs_exists_def fs_read_def tracked_change_def Let_def)
qed

lemma diff_texts_same: "snd (diff_texts s s ctx ol nl' f alg) = []"
  by (simp add: diff_texts_def Let_def chosen.engine_quiet_iff)

lemma unlines_ends: "ls \<noteq> [] \<Longrightarrow> last (unlines ls) = nl \<and> unlines ls \<noteq> []"
  by (cases ls rule: rev_cases) simp_all

lemma refresh_file_text:
  assumes t: "tracked_text P q patch file w" "plain_dir (basename (q_work_dir q))" and h: "plain_how h"
    and o: "extra_diff_opts P w = []" "\<not> rf_strip u" "\<not> rf_no_index u"
  shows "refresh_file P u h patch [] file content (q, w) =
    Go (content @ change_text (index_line_list q (h_p_format h)) (h_context h) (h_algorithm h)
          (tracked_change P q h patch w file)) (q, w)"
proof -
  let ?c = "tracked_change P q h patch w file"
  let ?d = "snd (diff_texts (ch_old ?c) (ch_new ?c) (h_context h) (ch_old_label ?c) (ch_new_label ?c) Unified (h_algorithm h))"
  have g: "refresh_file P u h patch [] file content (q, w) =
     (if starts_with ?d ''Binary files '' then
        Exit 1 (q, err_line P (squote # '', aborting'') (err P file (err P (''Diff failed on file '' @ [squote]) w)))
      else Go (append_diff q h False file ?d content) (q, w))"
    using tracked_diff[OF t h o(1)] o(2,3) by (simp add: refresh_file_def Let_def)
  have named: "ch_file ?c = file" by (simp add: tracked_change_def Let_def)
  show ?thesis
  proof (cases "ch_old ?c = ch_new ?c")
    case True
    then show ?thesis using g by (simp add: diff_texts_same starts_with_def append_diff_def change_text_def)
  next
    case False
    have "plain_text (ch_old ?c)" "plain_text (ch_new ?c)" "1 \<le> h_context h"
      using t(1) h by (simp_all add: tracked_text_def tracked_change_def plain_how_def Let_def)
    from printed_diff_block[OF False this] obtain ls where ls:
      "?d = unlines ((''--- '' @ ch_old_label ?c) # ls)" by blast
    have e: "last ?d = nl" "?d \<noteq> []" using unlines_ends[of "(''--- '' @ ch_old_label ?c) # ls"] ls by auto
    have "\<not> starts_with ?d ''Binary files ''" unfolding ls by (simp add: starts_with_def)
    then show ?thesis
      using g e False by (simp add: append_diff_def end_line_def change_text_def index_line_list_text named)
  qed
qed

lemma refresh_files_text:
  assumes "\<forall>f \<in> set files. tracked_text P q patch f w" "plain_dir (basename (q_work_dir q))" "plain_how h"
    "extra_diff_opts P w = []" "\<not> rf_strip u" "\<not> rf_no_index u"
  shows "refresh_files P u h patch [] files content (q, w) =
    Go (content @ concat (map (\<lambda>f. change_text (index_line_list q (h_p_format h)) (h_context h) (h_algorithm h)
          (tracked_change P q h patch w f)) files)) (q, w)"
  using assms(1)
proof (induction files arbitrary: content)
  case (Cons f files)
  then have "tracked_text P q patch f w" by simp
  from refresh_file_text[OF this assms(2-6)] show ?case using Cons by simp
qed simp

text \<open>The header that refresh keeps.\<close>

lemma starts_with_dashes: "starts_with l ''--- '' \<Longrightarrow> starts_with l ''---''"
  by (cases l; cases "tl l"; cases "tl (tl l)") (auto simp: starts_with_def)

lemma kept_header:
  "\<exists>hls. read_patch_header P path w = unlines hls \<and> (\<forall>l \<in> set hls. nl \<notin> set l \<and> \<not> starts_with l ''--- '')"
proof (cases "read_file P path w = []")
  case True
  then show ?thesis by (auto simp: read_patch_header_def intro: exI[of _ "[]"])
next
  case False
  let ?hls = "takeWhile (\<lambda>l. \<not> starts_old_diff l) (split_lines (read_file P path w))"
  have "nl \<notin> set l \<and> \<not> starts_with l ''--- ''" if "l \<in> set ?hls" for l
    using set_takeWhileD[OF that] split_lines_no_nl starts_with_dashes by (auto simp: starts_old_diff_def)
  then show ?thesis using False by (auto simp: read_patch_header_def)
qed

section \<open>The command\<close>

text \<open>The files refresh touches besides the patch file are other files.\<close>

definition patch_file_apart :: "quilt_state \<Rightarrow> string \<Rightarrow> bool" where
  "patch_file_apart q patch \<longleftrightarrow>
     patch_path q patch \<noteq> path_join (pc_patch_dir q patch) ''.timestamp'' \<and>
     patch_path q patch \<noteq> needs_refresh_path q patch"

lemma refresh_report_keeps:
  assumes "files_law P"
  shows "fst (refresh_report P a patch b s) = fst s"
    "platform_content P p (snd (refresh_report P a patch b s)) = platform_content P p (snd s)"
  using assms by (simp_all add: refresh_report_def Let_def split: prod.splits)

lemma refresh_write_content:
  assumes "files_law P" "patch_file_apart q patch" "refresh_write P patch False content (q, w) = Go r s'"
  shows "fst s' = q \<and> platform_content P (patch_path q patch) (snd s') = Some content"
proof -
  let ?p = "patch_path q patch" and ?nr = "needs_refresh_path q patch"
  define w1 where "w1 = (if \<not> is_directory P (dirname ?p) w then snd (make_dirs P (dirname ?p) w) else w)"
  obtain ok w2 where w2: "write_file P ?p content w1 = (ok, w2)" by force
  define w3 where "w3 = snd (write_file P (path_join (pc_patch_dir q patch) ''.timestamp'') [] w2)"
  define w4 where "w4 = (if file_exists P ?nr w3 then snd (delete_file P ?nr w3) else w3)"
  have ok: "ok" and go: "s' = (if \<not> has_diff content then refresh_report P ''Nothing in patch '' patch [] (q, w4)
      else refresh_report P ''Refreshed patch '' patch [] (q, w4))"
    using assms(3) w2
    by (auto simp: refresh_write_def Let_def w1_def[symmetric] w3_def[symmetric] w4_def[symmetric] fail_def split: if_splits)
  have "platform_content P ?p w2 = Some content" using files_law_write[OF assms(1)] w2 ok by auto
  then have "platform_content P ?p w4 = Some content"
    using assms(1,2) by (simp add: w4_def w3_def patch_file_apart_def files_law_write_other files_law_delete_other)
  then show ?thesis using go refresh_report_keeps[OF assms(1)] by simp
qed

lemma refresh_write_succeeds:
  assumes "\<forall>v. fst (write_file P (patch_path q patch) content v)"
  shows "\<exists>s'. refresh_write P patch False content (q, w) = Go 0 s'"
proof -
  have "\<exists>v'. write_file P (patch_path q patch) content v = (True, v')" for v
    using assms by (metis prod.collapse)
  then obtain v' where "write_file P (patch_path q patch) content
      (if \<not> is_directory P (dirname (patch_path q patch)) w then snd (make_dirs P (dirname (patch_path q patch)) w) else w)
      = (True, v')" by blast
  then show ?thesis by (simp add: refresh_write_def Let_def)
qed

text \<open>What refresh does with the new text.\<close>

lemma refresh_patch_text:
  assumes top: "patch = last (q_applied q)"
    and t: "\<forall>f \<in> set (files_in_patch P q patch w). tracked_text P q patch f w" "plain_dir (basename (q_work_dir q))"
    and h: "plain_how h" "extra_diff_opts P w = []"
      "\<not> rf_strip u" "\<not> rf_no_index u" "\<not> rf_diffstat u" "\<not> rf_backup u"
  shows "\<exists>hls. (\<forall>l \<in> set hls. nl \<notin> set l \<and> \<not> starts_with l ''--- '') \<and>
    (let content = unlines hls @ concat (map (\<lambda>f. change_text (index_line_list q (h_p_format h)) (h_context h) (h_algorithm h)
        (tracked_change P q h patch w f)) (sort (files_in_patch P q patch w))) in
     refresh_patch P u h patch False (q, w) =
      (if content = read_file P (patch_path q patch) w \<and> file_exists P (patch_path q patch) w then
        Go 0 (if \<not> has_diff content then refresh_report P ''Nothing in patch '' patch [] (q, w)
                  else refresh_report P ''Patch '' patch '' is unchanged'' (q, w))
      else refresh_write P patch False content (q, w)))"
proof -
  let ?p = "patch_path q patch" and ?files = "sort (files_in_patch P q patch w)"
  define header where "header = (if file_exists P ?p w then read_patch_header P ?p w else [])"
  obtain hls where hls: "header = unlines hls" "\<forall>l \<in> set hls. nl \<notin> set l \<and> \<not> starts_with l ''--- ''"
    using kept_header[of P ?p w] that[of "[]"] by (cases "file_exists P ?p w") (auto simp: header_def)
  define body where "body = concat (map (\<lambda>f. change_text (index_line_list q (h_p_format h)) (h_context h) (h_algorithm h)
        (tracked_change P q h patch w f)) ?files)"
  have "refresh_files P u h patch [] ?files header (q, w) = Go (header @ body) (q, w)"
    unfolding body_def by (rule refresh_files_text) (use t h in auto)
  moreover have no_shadows: "shadowed P q patch w = []" using top by (simp add: shadowed_def)
  ultimately have r: "refresh_patch P u h patch False (q, w) =
     (if header @ body = read_file P ?p w \<and> file_exists P ?p w then
        Go 0 (if \<not> has_diff (header @ body) then refresh_report P ''Nothing in patch '' patch [] (q, w)
                  else refresh_report P ''Patch '' patch '' is unchanged'' (q, w))
      else refresh_write P patch False (header @ body) (q, w))"
    using no_shadows h(5,6) by (cases "file_exists P ?p w") (simp_all add: refresh_patch_def Let_def header_def)
  then show ?thesis using hls unfolding Let_def hls(1) body_def by blast
qed

lemma refresh_patch_content:
  assumes law: "files_law P" and top: "patch = last (q_applied q)" and apart: "patch_file_apart q patch"
    and t: "\<forall>f \<in> set (files_in_patch P q patch w). tracked_text P q patch f w" "plain_dir (basename (q_work_dir q))"
    and h: "plain_how h" "extra_diff_opts P w = []"
      "\<not> rf_strip u" "\<not> rf_no_index u" "\<not> rf_diffstat u" "\<not> rf_backup u"
    and wr: "\<forall>c v. fst (write_file P (patch_path q patch) c v)"
  shows "\<exists>s' hls. refresh_patch P u h patch False (q, w) = Go 0 s' \<and> fst s' = q \<and>
    (\<forall>l \<in> set hls. nl \<notin> set l \<and> \<not> starts_with l ''--- '') \<and>
    platform_content P (patch_path q patch) (snd s') =
      Some (unlines hls @ concat (map (\<lambda>f. change_text (index_line_list q (h_p_format h)) (h_context h) (h_algorithm h)
        (tracked_change P q h patch w f)) (sort (files_in_patch P q patch w))))"
proof -
  let ?p = "patch_path q patch"
  from refresh_patch_text[OF top t h] obtain hls content where hls: "\<forall>l \<in> set hls. nl \<notin> set l \<and> \<not> starts_with l ''--- ''"
    and c: "content = unlines hls @ concat (map (\<lambda>f. change_text (index_line_list q (h_p_format h)) (h_context h) (h_algorithm h)
        (tracked_change P q h patch w f)) (sort (files_in_patch P q patch w)))"
    and r: "refresh_patch P u h patch False (q, w) =
      (if content = read_file P ?p w \<and> file_exists P ?p w then
        Go 0 (if \<not> has_diff content then refresh_report P ''Nothing in patch '' patch [] (q, w)
                  else refresh_report P ''Patch '' patch '' is unchanged'' (q, w))
      else refresh_write P patch False content (q, w))"
    unfolding Let_def by blast
  have "\<exists>s'. refresh_patch P u h patch False (q, w) = Go 0 s' \<and> fst s' = q \<and> platform_content P ?p (snd s') = Some content"
  proof (cases "content = read_file P ?p w \<and> file_exists P ?p w")
    case True
    then have "platform_content P ?p w = Some content" by (simp add: platform_content_def)
    then show ?thesis unfolding r if_P[OF True] using refresh_report_keeps[OF law] by simp
  next
    case False
    obtain s' where s': "refresh_write P patch False content (q, w) = Go 0 s'"
      using refresh_write_succeeds[of P q patch content w] wr by blast
    then show ?thesis unfolding r if_not_P[OF False] using refresh_write_content[OF law apart s'] by blast
  qed
  then show ?thesis using hls unfolding c by blast
qed

definition plain_environment :: "'w platform \<Rightarrow> 'w \<Rightarrow> bool" where
  "plain_environment P w \<longleftrightarrow> get_env P ''QUILT_DIFF_ALGORITHM'' w = [] \<and> extra_diff_opts P w = [] \<and>
     get_env P ''QUILT_NO_DIFF_INDEX'' w = []"

lemma cmd_refresh_top:
  assumes "q_applied q \<noteq> []" "plain_environment P w" "patch = last (q_applied q)"
  shows "cmd_refresh P [] (q, w) = refresh_patch P (refresh_defaults P w Myers)
    (refresh_how (refresh_defaults P w Myers) (get_p_format q patch) (Unified, 3)) patch False (q, w)"
  using assms by (simp add: cmd_refresh_def env_algorithm_def plain_environment_def refresh_defaults_def
      diff_shape_def refresh_fork_def Let_def)

text \<open>The files as the backups have them, and as the work tree has them.\<close>

definition backed_up :: "'w platform \<Rightarrow> quilt_state \<Rightarrow> string \<Rightarrow> 'w \<Rightarrow> (string \<rightharpoonup> string)" where
  "backed_up P q patch w f =
     (if f \<in> set (files_in_patch P q patch w) then Some (read_file P (path_join (pc_patch_dir q patch) f) w) else None)"

definition in_work_tree :: "'w platform \<Rightarrow> quilt_state \<Rightarrow> string \<Rightarrow> 'w \<Rightarrow> (string \<rightharpoonup> string)" where
  "in_work_tree P q patch w f =
     (if f \<in> set (files_in_patch P q patch w) then Some (read_file P (path_join (q_work_dir q) f) w) else None)"

lemma refreshed_patch_applies:
  assumes law: "files_law P" and top: "q_applied q \<noteq> []" "patch = last (q_applied q)"
    and env: "plain_environment P w" and apart: "patch_file_apart q patch"
    and t: "\<forall>f \<in> set (files_in_patch P q patch w). tracked_text P q patch f w" "plain_dir (basename (q_work_dir q))"
      "distinct (files_in_patch P q patch w)"
    and o: "plain_run opts" "o_strip_level opts = get_strip_level q patch" "get_strip_level q patch \<in> {0, 1}"
    and wr: "\<forall>c v. fst (write_file P (patch_path q patch) c v)"
  shows "\<exists>w'. cmd_refresh P [] (q, w) = Go 0 (q, w') \<and> (\<exists>res. builtin_patch P (read_file P (patch_path q patch) w') opts (mem_io (backed_up P q patch w) v) =
      Some (res, mem_io (in_work_tree P q patch w) v) \<and> r_exit_code res = 0 \<and> r_err res = [])"
proof -
  let ?u = "refresh_defaults P w Myers" and ?files = "sort (files_in_patch P q patch w)"
  let ?h = "refresh_how ?u (get_p_format q patch) (Unified, 3)"
  let ?cs = "map (tracked_change P q ?h patch w) ?files"
  let ?ix = "index_line_list q (h_p_format ?h)"
  have h: "plain_how ?h" by (simp add: plain_how_def refresh_how_def get_p_format_def)
  have u: "\<not> rf_strip ?u" "\<not> rf_no_index ?u" "\<not> rf_diffstat ?u" "\<not> rf_backup ?u" "extra_diff_opts P w = []"
    using env by (simp_all add: refresh_defaults_def plain_environment_def)
  from refresh_patch_content[OF law top(2) apart t(1,2) h u(5,1-4) wr] obtain w' hls
    where q: "cmd_refresh P [] (q, w) = Go 0 (q, w')"
    and hls: "\<forall>l \<in> set hls. nl \<notin> set l \<and> \<not> starts_with l ''--- ''"
    and c: "platform_content P (patch_path q patch) w' =
      Some (unlines hls @ concat (map (change_text ?ix (h_context ?h) (h_algorithm ?h)) ?cs))"
    unfolding cmd_refresh_top[OF top(1) env top(2)] by (auto simp: comp_def)
  have fields: "ch_file (tracked_change P q ?h patch w f) = f"
    "ch_old (tracked_change P q ?h patch w f) = read_file P (path_join (pc_patch_dir q patch) f) w"
    "ch_new (tracked_change P q ?h patch w f) = read_file P (path_join (q_work_dir q) f) w" for f
    by (simp_all add: tracked_change_def Let_def)
  then have names: "map ch_file ?cs = ?files" by (simp add: comp_def)
  have sl: "o_strip_level opts = (if h_p_format ?h = ''0'' then 0 else 1)"
    using o(2,3) by (auto simp: refresh_how_def get_p_format_def)
  have ok: "\<forall>c \<in> set ?cs. change_ok (o_strip_level opts) c \<and> index_ok (?ix (ch_file c))"
  proof (intro ballI)
    fix c assume "c \<in> set ?cs"
    then obtain f where f: "c = tracked_change P q ?h patch w f" "tracked_text P q patch f w" using t(1) by auto
    then have "label_name f" by (simp add: tracked_text_def Let_def)
    then show "change_ok (o_strip_level opts) c \<and> index_ok (?ix (ch_file c))"
      unfolding sl f(1) fields using tracked_change_ok[OF f(2) t(2) h] index_line_list_ok[OF _ t(2)] by blast
  qed
  have old: "\<forall>c \<in> set ?cs. backed_up P q patch w (ch_file c) = Some (ch_old c)"
    by (auto simp: fields backed_up_def)
  have dist: "distinct (map ch_file ?cs)" unfolding names using t(3) by simp
  have "changed_files ?cs (backed_up P q patch w) f = in_work_tree P q patch w f" for f
  proof (cases "f \<in> set ?files")
    case True
    then have "tracked_change P q ?h patch w f \<in> set ?cs" by simp
    from changed_files_same[OF dist this] show ?thesis using True by (simp add: fields in_work_tree_def)
  next
    case False
    then have "f \<notin> ch_file ` set ?cs" by (auto simp: fields)
    from changed_files_other[OF this] show ?thesis using False by (simp add: backed_up_def in_work_tree_def)
  qed
  then have "changed_files ?cs (backed_up P q patch w) = in_work_tree P q patch w" by blast
  moreover have "1 \<le> h_context ?h" using h by (simp add: plain_how_def)
  ultimately show ?thesis
    using q patch_of_changes[OF o(1) ok dist _ old hls] read_file_content[OF c] by simp
qed

end
