(* ===== verification/Spec2Isabelle.thy ===== *)
theory Spec2Isabelle
  imports Known_Divergences Patch_Effects Mem_Platform Pkg_Win32 Refresh_Roundtrip
begin

text \<open>
  Verification of the programs of w64devkit (\<open>src/src\<close>). The centre is \<open>quilt.cpp\<close>, a
  patch stack manager with its own diff and patch engines: \<open>quilt_main\<close> finds a command in a
  table, the command reads the state of the stack from the files under \<open>.pc\<close> and the series
  file, calls the engines on the work tree, and writes the state back. Beside it stand
  \<open>pkg-config.c\<close>, \<open>rexxd.c\<close> (an \<open>xxd\<close>) and \<open>uuidgen.c\<close>.

  \<^bold>\<open>quilt: engines.\<close>

  \<^item> \<open>Quilt_Prelude\<close>: characters, lists indexed by signed integers, the named
    collections \<open>edit_simps\<close>, \<open>text_simps\<close> and \<open>state_simps\<close>.
  \<^item> \<open>Quilt_Strings\<close>: the helpers of the \<open>quilt.hpp\<close> and \<open>core.cpp\<close> parts
    (\<open>str_find\<close>, \<open>parse_int\<close>, \<open>split_lines\<close>, \<open>trim\<close>, \<open>basename\<close>,
    \<open>dirname\<close>, \<open>path_join\<close>). Bytes are \<^typ>\<open>char\<close>, \<open>ptrdiff_t\<close> values are
    \<^typ>\<open>int\<close> with their bounds where the code checks them (\<open>checked_int\<close>,
    \<open>PTRDIFF_MAX\<close>).
  \<^item> \<open>Edit_Script\<close>, \<open>Myers_Diff\<close>, \<open>Diff_Trim\<close>, \<open>Patience_Diff\<close>,
    \<open>Histogram_Diff\<close>: the \<open>diff.cpp\<close> part, \<open>struct EditOp\<close> and the engines
    \<open>myers_diff\<close>, \<open>patience_diff\<close>, \<open>histogram_diff\<close>. The locale
    \<open>diff_engine\<close> is the contract of an engine; \<open>Builtin_Diff\<close> extends it to
    \<open>exact_engine\<close> and interprets it on \<open>run_engine\<close>, the choice the code makes.
  \<^item> \<open>Diff_Hunks\<close>, \<open>Diff_Format\<close>, \<open>Builtin_Diff\<close>: \<open>build_hunks\<close>,
    \<open>split_file_lines\<close>, \<open>format_unified\<close>, \<open>format_context\<close>,
    \<open>builtin_diff\<close>. \<open>hunk_chain\<close> is the abstract specification of the hunks.
  \<^item> \<open>File_Store\<close>: \<open>record platform\<close> lists the functions of \<open>platform.hpp\<close> the
    commands call; it is a parameter everywhere, over a world of any type. \<open>record io\<close>
    adds the in-memory file system of the engines; the locale \<open>file_store\<close> is its
    contract, interpreted on the four lambdas of the code.
  \<^item> \<open>Patch_Parse\<close>, \<open>Patch_Match\<close>, \<open>Patch_Apply\<close>, \<open>Builtin_Patch\<close>: the
    \<open>patch.cpp\<close> part: \<open>parse_patch\<close>, \<open>locate_hunk\<close>, \<open>build_output\<close>,
    \<open>build_merge_output\<close>, \<open>format_rejects\<close>, \<open>builtin_patch\<close>.
  \<^item> \<open>Patch_Effects\<close>, \<open>Patch_Chain\<close>, \<open>Diff_Reparse\<close>, \<open>Diff_Roundtrip\<close>: what a
    patch run may change, and the composition of the two engines.

  \<^bold>\<open>quilt: commands.\<close>

  \<^item> \<open>Quilt_Shell\<close>, \<open>Quilt_Core\<close>, \<open>Quilt_Command\<close>: \<open>shell_split\<close>,
    \<open>parse_quiltrc\<close>, \<open>struct QuiltState\<close> as a record, \<open>load_state\<close>, the
    series and applied-patches files, backups; results of a command (\<open>Go\<close> for going on,
    \<open>Exit\<close> for a return with a code, \<open>Abort\<close> for a failed assertion).
  \<^item> \<open>Stack_Query\<close>, \<open>Stack_Move\<close>, \<open>Quilt_Annotate\<close>: the \<open>cmd_stack.cpp\<close> part
    and \<open>annotate\<close>. The call of \<open>refresh\<close> is an argument of push and pop there.
  \<^item> \<open>Patch_Files\<close> (\<open>init\<close>, \<open>new\<close>, \<open>add\<close>, \<open>remove\<close>,
    \<open>edit\<close>, \<open>revert\<close>, \<open>snapshot\<close>), \<open>Patch_Texts\<close> (headers and diffs of a patch file,
    conversion to context format, diffstat with its doubles as exact binary fractions rounded to 53
    bits), \<open>Patch_Refresh\<close>, \<open>Patch_Diff\<close>: the \<open>cmd_patch.cpp\<close> part.
  \<^item> \<open>Header_Text\<close>, \<open>Quilt_Manage\<close>, \<open>Quilt_Import\<close>: the \<open>cmd_manage.cpp\<close>
    part: \<open>header\<close>, \<open>delete\<close>, \<open>rename\<close>, \<open>fork\<close>, \<open>fold\<close>,
    \<open>files\<close>, \<open>patches\<close>, \<open>import\<close>, \<open>grep\<close>, \<open>setup\<close>,
    \<open>shell\<close>, \<open>upgrade\<close>.
  \<^item> \<open>Graph_Reach\<close>, \<open>Quilt_Graph\<close>, \<open>Quilt_Mail\<close>: \<open>graph\<close> (searches and
    reduction of the edges, line ranges, the dot text) and \<open>mail\<close>.
  \<^item> \<open>Quilt_Main\<close>: the command table, the global options, the help, the settings file and
    \<open>quilt_main\<close>; here push and pop get the real \<open>refresh\<close>.
  \<^item> \<open>Stack_Safety\<close>: every command of the table keeps the applied patches a prefix of the
    series. \<open>Refresh_Roundtrip\<close>: patch files of many diffs, and that \<open>refresh\<close> writes one
    the patch engine turns back into the work tree.
  \<^item> \<open>Mem_Platform\<close>: the laws of the files that backups and refresh rely on
    (\<open>files_law\<close>) and a platform in memory that has them, for concrete runs.

  \<^bold>\<open>The other programs.\<close>

  \<^item> \<open>Byte_Output\<close>, \<open>Uuidgen\<close>: the output buffer and \<open>uuidgen.c\<close> with its cipher on
    64-bit words; the random source is a parameter.
  \<^item> \<open>Hash_Trie\<close>, \<open>Pkg_Strings\<close>, \<open>Pkg_Version\<close>, \<open>Pkg_Parse\<close>,
    \<open>Level_Order\<close>, \<open>Pkg_Expand\<close>, \<open>Pkg_Args\<close>, \<open>Pkg_Process\<close>,
    \<open>Pkg_Output\<close>, \<open>Pkg_Config\<close>: \<open>pkg-config.c\<close> from the hash tries to the main
    function; \<open>Bit_Arith\<close>, \<open>Utf_Coding\<close>, \<open>Cmdline_Argv\<close>, \<open>Pkg_Win32\<close>: its
    Windows part, the command line and the console.
  \<^item> \<open>Rexxd_Text\<close>, \<open>Rexxd_Numbers\<close>, \<open>Rexxd_Io\<close>, \<open>Rexxd_Platform\<close>,
    \<open>Rexxd_Dump\<close>, \<open>Rexxd_Reverse\<close>, \<open>Rexxd_Row\<close>, \<open>Rexxd_Roundtrip\<close>,
    \<open>Rexxd_Postscript\<close>, \<open>Rexxd_Main\<close>, \<open>Rexxd_Whole\<close>: \<open>rexxd.c\<close>, its buffers,
    dumps, reverse modes and options.
  \<^item> \<open>Known_Divergences\<close>: behaviour that is not what the code means to do.

  \<^bold>\<open>What the lemmas show.\<close> An edit script walks both files in lock step
  (\<open>script_from\<close>); all engines return one, the Myers engine a shortest one. The hunks of a
  script are framed pieces of it; printed, parsed and located they become a
  \<open>patch_chain\<close> in either direction, from which the round trips follow: a diff turns the old
  file into the new one and back, and a refreshed patch turns the backups into the work tree. The
  search for a hunk is sound, complete and nearest first. The parser yields only lines whose first
  character may be read, so the conflict loop ends. All commands keep the applied patches a prefix
  of the series; renames are all or nothing; what is written to disk is read back. The graph has the
  edges of the shared files, and its reduction the same paths. pkg-config parses what it renders,
  orders versions totally, expands variables by substitution and prints words no shell touches;
  the dumps of rexxd are read back to the same bytes.

  \<^bold>\<open>Loops and bounds.\<close> Recursion follows the code; \<open>function\<close>s carry a
  measure. \<open>patience_fuel\<close> takes the length of both files plus one as fuel and never
  uses it up; \<open>conflict_loop\<close> and \<open>pop_loop\<close> are partial functions shown to return.
  The Myers trace keeps one vector per round, as in the code.

  \<^bold>\<open>Not modelled.\<close> Of \<open>quilt.cpp\<close>: the Win32 platform at its end, which only calls the
  system; it is the record \<open>platform\<close>, and external editors and diff programs are its
  \<open>run_cmd\<close> and \<open>run_cmd_tty\<close>. Of \<open>rexxd.c\<close>: the test programs behind the
  \<open>TEST\<close> macros. \<open>peports.c\<close>, \<open>vc++filt.c\<close>, \<open>w64devkit.c\<close>, the thread,
  alias and debug helpers and \<open>libmemory.c\<close> are small tools around system calls and are listed
  in the manifest; scripts, patches and build files hold no code of the programs.
\<close>

section \<open>Diff and patch together\<close>

text \<open>C1: The unified diff of two files, given to \<open>builtin_patch\<close>, turns the old file into the
  new one, and reversed turns the new file back into the old one, byte for byte: exit code 0,
  nothing on standard error, no other file touched. It holds for every diff engine, every context
  of at least one line, files with and without a final newline, and empty files; lines must not end
  in a carriage return.\<close>

theorem diff_then_patch:
  assumes "patch_call old_label new_label opts f" "1 \<le> ctx" "plain_text s" "plain_text t"
    "m f = Some (if o_reverse opts then t else s)"
  shows "\<exists>res. builtin_patch P (snd (diff_texts s t ctx old_label new_label Unified alg)) opts (mem_io m w) =
      Some (res, mem_io (m(f \<mapsto> (if o_reverse opts then s else t))) w) \<and> r_exit_code res = 0 \<and> r_err res = []"
  by (rule patch_of_diff[where m = m, OF assms(1,3,4,2,5)])

theorem diff_then_patch_witness:
  "\<exists>res. builtin_patch mem_platform
      (snd (diff_texts ''x'' (''y'' @ [nl] @ ''x'' @ [nl]) 3 ''a/f'' ''b/f'' Unified Patience)) default_options
      (mem_io (Map.empty(''f'' \<mapsto> ''x'')) (mem_start [])) =
      Some (res, mem_io (Map.empty(''f'' \<mapsto> ''x'', ''f'' \<mapsto> ''y'' @ [nl] @ ''x'' @ [nl])) (mem_start [])) \<and>
    r_exit_code res = 0 \<and> r_err res = []"
proof -
  have c: "patch_call ''a/f'' ''b/f'' default_options ''f''" "\<not> o_reverse default_options"
    by (simp_all add: patch_call_def plain_label_def default_options_def choose_target_def strip_path_def str_find_def
        find_from_def ends_with_def Let_def)
  have t: "plain_text ''x''" "plain_text (''y'' @ [nl] @ ''x'' @ [nl])"
    by (simp_all add: plain_text_def split_file_lines_def no_cr_end_def PTRDIFF_MAX_def Let_def)
  show ?thesis
    using diff_then_patch[OF c(1) _ t, of 3 "Map.empty(''f'' \<mapsto> ''x'')" mem_platform Patience "mem_start []"] c(2)
    by simp
qed



section \<open>The diff engine\<close>

text \<open>C3: Every diff engine returns a correct edit script: its old side is the old file, its
  new side the new file, and replaying it on the old file gives the new one.\<close>

theorem engines_replay:
  "old_side a (run_engine alg a b) = a \<and> new_side b (run_engine alg a b) = b \<and>
   replay a b (run_engine alg a b) = b"
  by (simp add: chosen.engine_old_side chosen.engine_new_side chosen.engine_replay)

text \<open>C4: \<open>builtin_diff\<close> exits with 0 exactly when both inputs hold the same bytes, with any engine, format and
  context: the code 0 never hides a change, not even of the final newline.\<close>

theorem diff_exit_code:
  "fst (builtin_diff P old_path new_path ctx old_label new_label format alg s) =
     (if diff_input P old_path s = diff_input P new_path s then 0 else 1)"
  by (simp add: builtin_diff_def Let_def diff_texts_exit)

text \<open>C5: The Myers engine returns a script with the fewest edits of all scripts between the
  files, in the minimal mode always and in the default mode while the files have at most 256
  lines together.\<close>

theorem myers_fewest_edits:
  assumes "alg \<noteq> Myers \<or> length a + length b \<le> 256" "edit_script a b ps"
  shows "edits (myers_diff alg a b) \<le> edits ps"
  using assms by (rule myers_diff_fewest)

theorem myers_fewest_edits_witness:
  "edits (myers_diff Minimal [''a'', ''b''] [''b'']) \<le> edits [del_op 0, eq_op 1 0]"
  by (rule myers_fewest_edits) (simp_all add: edit_script_def)

text \<open>C6: The anchors of the patience engine increase strictly in both files, are matches, and
  exist whenever there is a match: the patience piles and the walk back never fail.\<close>

theorem patience_anchors:
  "\<exists>as. lis_anchors (unique_matches a b) = Some as \<and>
     sorted_wrt (\<lambda>p q. fst p < fst q \<and> snd p < snd q) as \<and>
     list_all (match_ok a b) as \<and> (as = [] \<longleftrightarrow> unique_matches a b = [])"
proof -
  from lis_anchors_ok[OF unique_matches_ok(2), of a b] obtain as where
    "lis_anchors (unique_matches a b) = Some as" "sorted_wrt (\<lambda>p q. fst p < fst q \<and> snd p < snd q) as"
    "set as \<subseteq> set (unique_matches a b)" "as = [] \<longleftrightarrow> unique_matches a b = []" by blast
  then show ?thesis using unique_matches_ok(1) by (auto simp: list_all_iff)
qed

section \<open>Hunks\<close>



section \<open>The patch engine\<close>

text \<open>C9: \<open>locate_hunk\<close> returns a position that matches at the least fuzz that has one,
  and fails only when no position matches at any allowed fuzz.\<close>

theorem hunk_located_with_least_fuzz:
  assumes "locate_hunk f h (get_old_pattern (p_lines h)) frozen off max_fuzz = p"
  shows "if p = - 1 then \<forall>fuzz q. 0 \<le> fuzz \<and> fuzz \<le> max_fuzz \<longrightarrow> \<not> hunk_pos_ok f h frozen fuzz q
    else \<exists>fuzz. 0 \<le> fuzz \<and> fuzz \<le> max_fuzz \<and> hunk_pos_ok f h frozen fuzz p \<and>
      (\<forall>k q. 0 \<le> k \<and> k < fuzz \<longrightarrow> \<not> hunk_pos_ok f h frozen k q)"
  using locate_hunk_spec[of f h frozen off max_fuzz] unfolding assms by simp

theorem hunk_located_with_least_fuzz_witness:
  fixes h :: patch_hunk
  defines "h \<equiv> \<lparr>p_old_start = 2, p_old_count = 1, p_new_start = 2, p_new_count = 0,
    p_lines = [''-b''], p_old_no_newline = False, p_new_no_newline = False\<rparr>"
  shows "\<exists>fuzz. 0 \<le> fuzz \<and> fuzz \<le> 2 \<and> hunk_pos_ok [''a'', ''b''] h 0 fuzz 1 \<and>
      (\<forall>k q. 0 \<le> k \<and> k < fuzz \<longrightarrow> \<not> hunk_pos_ok [''a'', ''b''] h 0 k q)"
proof -
  have "locate_hunk [''a'', ''b''] h (get_old_pattern (p_lines h)) 0 0 2 = 1"
    by (simp add: h_def locate_hunk_def search_at_fuzz_def fuzz_loop.simps[of _ _ 0] pos_ok_def
        max_search_of_def try_match_def get_hunk_context_def)
  from hunk_located_with_least_fuzz[OF this] show ?thesis by simp
qed




text \<open>C11: Every body line of a parsed hunk starts with a space, a minus or a plus sign: the
  reads of its first character are in bounds.\<close>

theorem parsed_lines_safe:
  assumes "pf \<in> set (parse_patch text strip rv)" "h \<in> set (pf_hunks pf)" "l \<in> set (p_lines h)"
  shows "l \<noteq> [] \<and> (hd l = spc \<or> hd l = CHR ''-'' \<or> hd l = CHR ''+'')"
  using parse_files_lines[OF assms(1)[unfolded parse_patch_def] assms(2,3)] by (simp add: line_ok_def)

theorem parsed_lines_safe_witness:
  "''+x'' \<noteq> [] \<and> (hd ''+x'' = spc \<or> hd ''+x'' = CHR ''-'' \<or> hd ''+x'' = CHR ''+'')"
proof -
  let ?h = "\<lparr>h_old_start = 0, h_old_count = 0, h_new_start = 1, h_new_count = 1, h_ops = [ins_op 0]\<rparr>"
  have "parse_patch (format_unified [] [''x''] True True [?h] ''a'' ''b'') 0 False =
      [(new_patch_file 0 False (''--- '' @ ''a'') (''+++ '' @ ''b''))
         \<lparr>pf_hunks := map (parsed_hunk False [] [''x''] True True) [?h]\<rparr>]"
    by (rule parse_printed)
      (auto simp: header_ok_def ranged_def PTRDIFF_MAX_def hunk_at_def no_cr_end_def plain_label_def
        intro!: exI[of _ "0 :: int"] exI[of _ "1 :: int"])
  moreover have "p_lines (parsed_hunk False [] [''x''] True True ?h) = [''+x'']"
    by (simp add: parsed_hunk_def empty_hunk_def op_body_def Let_def)
  ultimately show ?thesis
    by (intro parsed_lines_safe[of _ "format_unified [] [''x''] True True [?h] ''a'' ''b''" 0 False
          "parsed_hunk False [] [''x''] True True ?h"]) auto
qed

section \<open>Words, numbers and files of text\<close>

text \<open>C17: On text without quotes, dollars and backslashes \<open>shell_split\<close> splits exactly like
  \<open>split_on_whitespace\<close>.\<close>

theorem shell_split_is_whitespace:
  assumes "list_all plain_char s"
  shows "shell_split env s = split_on_whitespace s"
  using assms by (rule shell_split_plain)

theorem shell_split_is_whitespace_witness: "shell_split (\<lambda>_. ''v'') '' -p1  -R'' = split_on_whitespace '' -p1  -R''"
  by (rule shell_split_is_whitespace) (simp add: plain_char_def)

section \<open>The state of quilt\<close>



section \<open>The stack commands\<close>




text \<open>C14: \<open>push\<close> only appends to the applied patches, in the order of the series, also when
  it fails halfway; on success at least one patch was added.\<close>

theorem push_extends_stack:
  assumes "stack_ok q" "finish (cmd_push P (cmd_refresh P) args (q, w)) = Some (code, (q', w'))"
  shows "\<exists>k. int (length (q_applied q)) \<le> k \<and> k \<le> int (length (q_series q)) \<and> q' = with_applied q k \<and>
    (code = 0 \<longrightarrow> int (length (q_applied q)) < k)"
  by (rule cmd_push_stack[OF keeps_state_refresh assms(1) assms(2)[unfolded cmd_push_plain[of P "cmd_refresh P"]]])

theorem push_extends_stack_witness:
  fixes w :: mem_world
  defines "w \<equiv> (mem_start [(''/w/.pc/.version'', ''2''), (''/w/.pc/.quilt_patches'', ''p''),
    (''/w/.pc/.quilt_series'', ''s'')])\<lparr>w_dirs := [''/w/.pc'']\<rparr>"
  shows "\<exists>code q' w'. finish (cmd_push mem_platform (cmd_refresh mem_platform) [] (plain_state [''a''] [], w)) = Some (code, (q', w')) \<and>
    (\<exists>k \<ge> 0. k \<le> int (length [''a'']) \<and> q' = with_applied (plain_state [''a''] []) k \<and> (code = 0 \<longrightarrow> 0 < k))"
proof -
  let ?q = "plain_state [''a''] []"
  have s: "stack_ok ?q" by (simp add: stack_ok_def)
  have e: "ensure_pc_dir mem_platform ?q w = (True, w)"
    by (simp add: ensure_pc_dir_def write_if_missing_def w_def mem_start_def mem_exists_def path_join_def is_absolute_path_def)
  have g: "push_range mem_platform push_defaults (?q, w) = Go (0, 0) (?q, w)"
    by (simp add: push_range_def push_defaults_def top_index_def)
  have m: "mem_read ''/w/patches/a'' w = []" "\<not> mem_exists ''/w/patches/a'' w"
    by (simp_all add: mem_read_def mem_exists_def w_def mem_start_def)
  have ap: "path_join3 ''/w'' ''patches'' ''a'' = ''/w/patches/a''"
    by (simp add: path_join3_def path_join_def is_absolute_path_def)
  have ol: "\<exists>t. out_line mem_platform x v = v\<lparr>w_out := t\<rparr>" for x v
    by (auto simp: out_line_def mem_platform_def)
  have o1: "\<exists>s'. push_one mem_platform (cmd_refresh mem_platform) push_defaults x True ''a'' (?q, w) = Exit 1 s'" for x
  proof -
    obtain t where t: "out_line mem_platform (''Applying patch '' @ format_patch mem_platform ?q ''a'' w) w = w\<lparr>w_out := t\<rparr>"
      using ol by blast
    have "mem_read ''/w/patches/a'' (w\<lparr>w_out := t\<rparr>) = []" "\<not> mem_exists ''/w/patches/a'' (w\<lparr>w_out := t\<rparr>)"
      using m by (simp_all add: mem_read_def mem_exists_def)
    then show ?thesis by (simp only: push_one_def split Let_def plain_state_simps ap if_True t mem_platform_simps) simp
  qed
  have l: "\<exists>s'. push_loop mem_platform (cmd_refresh mem_platform) push_defaults x 0 0 0 [] (?q, w) = Exit 1 s'" for x
    using o1[of x] by (subst push_loop.simps) auto
  have "\<exists>s'. cmd_push mem_platform (cmd_refresh mem_platform) [] (?q, w) = Exit 1 s'"
  proof -
    let ?x = "shell_split (\<lambda>n. mem_env n w) (mem_env ''QUILT_PATCH_OPTS'' w)"
    obtain s' where "push_loop mem_platform (cmd_refresh mem_platform) push_defaults ?x 0 0 0 [] (?q, w) = Exit 1 s'"
      using l by blast
    then show ?thesis by (simp add: cmd_push_def g e Let_def)
  qed
  then obtain code q' w' where c: "finish (cmd_push mem_platform (cmd_refresh mem_platform) [] (?q, w)) = Some (code, (q', w'))"
    by fastforce
  from push_extends_stack[OF s c] obtain k where "0 \<le> k" "k \<le> int (length [''a''])" "q' = with_applied ?q k"
    "code = 0 \<longrightarrow> 0 < k"
    by auto
  then show ?thesis using c by (intro exI[of _ code] exI[of _ q'] exI[of _ w'] conjI exI[of _ k]) simp_all
qed



section \<open>Names, headers, annotations, graphs and mail\<close>





text \<open>C20: \<open>annotate\<close> follows a longest alignment: from one version of a file to the next, the
  lines of some alignment of the versions that no other alignment exceeds keep their annotations,
  and all other lines get the patch that made the version.\<close>

theorem annotation_follows_alignment:
  "\<exists>ps. alignment old new ps \<and> (\<forall>ps'. alignment old new ps' \<longrightarrow> length ps' \<le> length ps) \<and>
     reannotate_lines old old_annotations new annotation = map (annotation_at ps old_annotations annotation) [0..<length new]"
  by (rule reannotate_lines_longest)

theorem annotation_follows_alignment_witness:
  "\<exists>ps. alignment [''a'', ''b''] [''b'', ''c''] ps \<and> 1 \<le> length ps \<and>
     reannotate_lines [''a'', ''b''] [''1'', ''2''] [''b'', ''c''] ''3'' = map (annotation_at ps [''1'', ''2''] ''3'') [0..<2]"
proof -
  obtain ps where ps: "alignment [''a'', ''b''] [''b'', ''c''] ps"
    "\<forall>ps'. alignment [''a'', ''b''] [''b'', ''c''] ps' \<longrightarrow> length ps' \<le> length ps"
    "reannotate_lines [''a'', ''b''] [''1'', ''2''] [''b'', ''c''] ''3'' =
       map (annotation_at ps [''1'', ''2''] ''3'') [0..<length [''b'', ''c'']]"
    using annotation_follows_alignment[of "[''a'', ''b'']" "[''b'', ''c'']" "[''1'', ''2'']" "''3''"] by blast
  have "alignment [''a'', ''b''] [''b'', ''c''] [(1, 0)]" by (simp add: alignment_def)
  then have "1 \<le> length ps" using ps(2) by fastforce
  then show ?thesis using ps by (intro exI[of _ ps]) (simp add: numeral_2_eq_2)
qed

text \<open>C21: The dependency graph without line ranges: patch \<open>b\<close> depends on patch \<open>a\<close>
  exactly when \<open>a\<close> is the last patch below it that changes one of its files. The search always
  returns.\<close>

theorem dependency_edges:
  "\<exists>g. graph_nodes P q None w (make_nodes P q w) (start_graph (make_nodes P q w)) = Some g \<and>
    edge_rel (gs_edges g) = {(a, b). b < length (make_nodes P q w) \<and> (\<exists>f. last_below (make_nodes P q w) a b f)}"
proof -
  obtain g where "graph_nodes P q None w (make_nodes P q w) (start_graph (make_nodes P q w)) = Some g"
    using graph_nodes_total[of P q w "make_nodes P q w" "start_graph (make_nodes P q w)"] by blast
  from graph_edges_files[OF make_nodes_ok this] this show ?thesis by blast
qed

text \<open>C22: \<open>graph --reduce\<close> keeps exactly what the graph says: the reduced graph connects the
  same patches by paths, and no edge that is left can be dropped without losing a connection. It
  holds with line ranges too.\<close>

theorem reduction_minimal:
  assumes "graph_nodes P q lines w (make_nodes P q w) (start_graph (make_nodes P q w)) = Some g"
  shows "(edge_rel (reduce_edges (gs_edges g)))\<^sup>+ = (edge_rel (gs_edges g))\<^sup>+ \<and>
    (\<forall>e \<in> edge_rel (reduce_edges (gs_edges g)). e \<notin> (edge_rel (reduce_edges (gs_edges g)) - {e})\<^sup>+)"
  using reduce_keeps_paths[OF graph_edges_upward[OF make_nodes_ok assms]] reduce_is_minimal by blast

theorem reduction_minimal_witness:
  fixes q :: quilt_state and w :: mem_world
  defines "q \<equiv> plain_state [''p'', ''q'', ''r''] [''p'', ''q'', ''r'']"
    and "w \<equiv> (mem_start [(''/w/.pc/p/a'', ''x''), (''/w/.pc/p/b'', ''x''), (''/w/.pc/q/a'', ''x''), (''/w/.pc/r/a'', ''x''),
      (''/w/.pc/r/b'', ''x'')])\<lparr>w_dirs := [''/w/.pc/p'', ''/w/.pc/q'', ''/w/.pc/r'']\<rparr>"
  shows "\<exists>g. graph_nodes mem_platform q None w (make_nodes mem_platform q w) (start_graph (make_nodes mem_platform q w)) = Some g \<and>
    gs_edges g = [((0, 1), [''a'']), ((0, 2), [''b'']), ((1, 2), [''a''])] \<and>
    reduce_edges (gs_edges g) = [((0, 1), [''a'']), ((1, 2), [''a''])] \<and>
    (edge_rel (reduce_edges (gs_edges g)))\<^sup>+ = (edge_rel (gs_edges g))\<^sup>+"
proof -
  have "map_option gs_edges (graph_nodes mem_platform q None w (make_nodes mem_platform q w)
      (start_graph (make_nodes mem_platform q w))) = Some [((0, 1), [''a'']), ((0, 2), [''b'']), ((1, 2), [''a''])]"
    unfolding q_def w_def by code_simp
  then obtain g where g: "graph_nodes mem_platform q None w (make_nodes mem_platform q w)
      (start_graph (make_nodes mem_platform q w)) = Some g" "gs_edges g = [((0, 1), [''a'']), ((0, 2), [''b'']), ((1, 2), [''a''])]"
    by auto
  have r: "reduce_edges (gs_edges g) = [((0, 1), [''a'']), ((1, 2), [''a''])]" unfolding g(2) by code_simp
  show ?thesis by (intro exI[of _ g] conjI g r reduction_minimal[OF g(1), THEN conjunct1])
qed





section \<open>uuidgen\<close>

text \<open>C25: An exit code of zero means that \<open>uuidgen\<close> has written, whatever the system
  did with the writes, the text of every UUID asked for, in the order of the counter, and
  nothing else: a failed write is never lost.\<close>

theorem uuidgen_output:
  assumes "uuid_args args uuid_defaults = Inr o'" "ur_code (uuidgen args plt seed w) = 0"
  shows "o_sent (ur_out (uuidgen args plt seed w)) =
    concat (map (\<lambda>i. mode_text o' (generate (speck_init seed) i)) [0..u_count o' - 1])"
  using assms by (rule uuidgen_sent)

theorem uuidgen_output_witness:
  "o_sent (ur_out (uuidgen [''-n2'', ''/c'', ''-s''] log_plt \<lparr>blk_x = 1, blk_y = 2\<rparr> [])) =
    concat (map (\<lambda>i. mode_text \<lparr>u_mode = MODE_C, u_hex = hex_upper, u_count = 2, u_path = None\<rparr>
      (generate (speck_init \<lparr>blk_x = 1, blk_y = 2\<rparr>) i)) [0, 1])"
proof -
  have o': "uuid_args [''-n2'', ''/c'', ''-s''] uuid_defaults =
      Inr \<lparr>u_mode = MODE_C, u_hex = hex_upper, u_count = 2, u_path = None\<rparr>"
    by (simp add: uuid_defaults_def Let_def cstr_at_def parse_count_def i64_max_def)
  have "ur_code (uuidgen [''-n2'', ''/c'', ''-s''] log_plt \<lparr>blk_x = 1, blk_y = 2\<rparr> []) = 0"
    using uuidgen_code[OF log_plt_writes] by (simp add: o' uuid_redirect_def del: uuid_args.simps)
  from uuidgen_output[OF o' this] show ?thesis by (simp add: upto.simps)
qed

text \<open>C26: A printed UUID has 36 characters in the groups 8-4-4-4-12, with the version digit 4
  and a variant digit from 8 to b, and two UUIDs that print alike are equal.\<close>

theorem printed_uuid:
  assumes "hex \<in> {hex_lower, hex_upper}"
  shows "(let t = accepted (printuuid plt hex (generate ctx i) (newoutput 1, w)) in
      length t = 36 \<and> t ! 8 = CHR ''-'' \<and> t ! 13 = CHR ''-'' \<and> t ! 18 = CHR ''-'' \<and> t ! 23 = CHR ''-'' \<and>
      t ! 14 = CHR ''4'' \<and> t ! 19 \<in> {hex ! 8, hex ! 9, hex ! 10, hex ! 11}) \<and>
    (accepted (printuuid plt hex a (newoutput 1, w)) = accepted (printuuid plt hex b (newoutput 1, w)) \<longleftrightarrow> a = b)"
proof
  have "unat (drop_bit 12 (blk_y (generate ctx i)) AND 15) \<in> {8, 9, 10, 11}"
    using generate_variant[of ctx i] by auto
  then have "uuid_text hex (generate ctx i) ! 19 \<in> {hex ! 8, hex ! 9, hex ! 10, hex ! 11}"
    unfolding uuid_text_variant by auto
  moreover have "hex ! 4 = CHR ''4''" using assms by (auto simp: hex_lower_def hex_upper_def)
  ultimately show "let t = accepted (printuuid plt hex (generate ctx i) (newoutput 1, w)) in
      length t = 36 \<and> t ! 8 = CHR ''-'' \<and> t ! 13 = CHR ''-'' \<and> t ! 18 = CHR ''-'' \<and> t ! 23 = CHR ''-'' \<and>
      t ! 14 = CHR ''4'' \<and> t ! 19 \<in> {hex ! 8, hex ! 9, hex ! 10, hex ! 11}"
    by (simp only: printuuid_new Let_def)
      (auto simp: uuid_text_dashes uuid_text_version generate_version)
  show "accepted (printuuid plt hex a (newoutput 1, w)) = accepted (printuuid plt hex b (newoutput 1, w)) \<longleftrightarrow> a = b"
    using uuid_text_inj[OF assms] by (auto simp: printuuid_new)
qed

theorem printed_uuid_witness:
  "let t = accepted (printuuid log_plt hex_lower (generate (speck_init \<lparr>blk_x = 1, blk_y = 2\<rparr>) 7) (newoutput 1, [])) in
      length t = 36 \<and> t ! 14 = CHR ''4''"
  using printed_uuid[of hex_lower log_plt "speck_init \<lparr>blk_x = 1, blk_y = 2\<rparr>" 7 "[]"] by (simp add: Let_def)

section \<open>pkg-config\<close>




text \<open>C29: \<open>expand\<close> always ends; a text printed without an error is what the references and
  escaped dollars of the field mean, and an error is an undefined variable or the stack limit.\<close>

theorem expand_meaning:
  "case expand global p s of
     (t, None) \<Rightarrow> expands (pc_lookup global (pk_env p)) s t
   | (t, Some e) \<Rightarrow> e = Recursion_in (pk_path p) \<or>
       (\<exists>name. e = Undefined_variable name (pk_path p) \<and> pc_lookup global (pk_env p) name = None)"
  using expand_sound[of global p s] expand_error[of "pc_lookup global (pk_env p)" "pk_path p" "[s]"]
  by (auto simp: expand_def split: prod.split option.split)





text \<open>C32: When the traversal succeeds its assertion holds: every package of the table is in the
  load order exactly once. All requested packages are there, and, unless the depth is limited,
  all that they require, publicly or privately.\<close>

theorem packages_complete:
  assumes "process pv specs = Inr t"
  shows "allpresent t \<and> distinct (ps_list t) \<and> set (ps_list t) = dom (trie_lookup (ps_pkgs t)) \<and>
    (\<forall>sp \<in> set specs. spec_realname sp \<in> set (ps_list t)) \<and>
    (pv_recursive pv \<and> 256 < pv_maxdepth pv \<longrightarrow>
      (\<forall>n p. trie_lookup (ps_pkgs t) n = Some p \<longrightarrow> spec_realname ` all_requires p \<subseteq> set (ps_list t)))"
  using package_process_result[OF assms] by blast

theorem packages_complete_witness:
  "\<exists>t. process sample_processor [newpkgspec ''a''] = Inr t \<and> allpresent t \<and> ''a'' \<in> set (ps_list t)"
proof -
  have "case process sample_processor [newpkgspec ''a''] of Inr t \<Rightarrow> ps_list t = [''a'', ''pkg-config''] | _ \<Rightarrow> False"
    by code_simp
  then obtain t where t: "process sample_processor [newpkgspec ''a''] = Inr t" "ps_list t = [''a'', ''pkg-config'']"
    by (auto split: sum.splits)
  have "allpresent t" using packages_complete[OF t(1)] by blast
  then show ?thesis using t by auto
qed


text \<open>C34: Arguments written on a command line by the documented quoting rule, spaces, quotes and
  backslashes included, are the arguments of the program, whatever code points they hold.\<close>

theorem command_line_round_trip:
  assumes "list_all valid_rune prog" "0x22 \<notin> set prog" "list_all (list_all valid_rune) args"
  shows "cmdline_to_argv8 (wide (quote_line prog args)) = narrow8 prog # map narrow8 args"
  using assms by (rule argv_of_quote_line)

theorem command_line_round_trip_witness:
  "cmdline_to_argv8 (wide (quote_line [0x70] [[0x61, 0x20, 0x5c, 0x22], [0x1f600]])) =
     narrow8 [0x70] # map narrow8 [[0x61, 0x20, 0x5c, 0x22], [0x1f600]]"
  by (rule command_line_round_trip) (simp_all add: valid_rune_def)



text \<open>C36: The whole program on Windows: asked on the command line with \<open>--exists\<close>, it prints nothing
  and its exit code tells whether the package and all it requires can be loaded.\<close>

theorem exists_query:
  assumes "w_cmdline w = wide (quote_line prog [map of_char ''--exists'', name])"
    "list_all valid_rune prog" "0x22 \<notin> set prog" "list_all valid_rune name" "plain_arg (narrow8 name)"
  shows "win_main w = ([], [], if can_load (query_processor (win_os w) (win_config w)) (narrow8 name) then 0 else 1)"
  using assms by (rule exists_from_cmdline)

theorem exists_query_witness:
  fixes w :: win_sys
  defines "w \<equiv> \<lparr>w_environ = Map.empty, w_exe = [0x70], w_cmdline = wide (quote_line [0x70] [map of_char ''--exists'', [0x61]]),
    w_read = \<lambda>_. None, w_find = \<lambda>_. [], w_space = 100\<rparr>"
  shows "win_main w = ([], [], if can_load (query_processor (win_os w) (win_config w)) (narrow8 [0x61]) then 0 else 1)"
  by (rule exists_query[of w "[0x70]" "[0x61]"]) (simp_all add: w_def valid_rune_def plain_arg_def narrow8_def utf8encode_def utf8_bytes_def)

section \<open>xxd\<close>

text \<open>C37: The two functions of the DLL: given room for the rows, \<open>xxd_hexdump\<close> returns a text from which
  \<open>xxd_reverse\<close> gives every byte of the input back, whatever stands in memory after a line.\<close>

theorem hexdump_round_trip:
  assumes "76 * ((int (length src) + 15) div 16) \<le> n" "n < 2 ^ 63" "int (length src) \<le> m" "length src < 2 ^ 62"
  shows "\<exists>dump. xxd_hexdump beyond n src = Some (int (length dump), dump) \<and>
    xxd_reverse beyond' m dump = Some (int (length src), src)"
proof -
  let ?t = "hexdump_text plain_dump 0 src"
  have "int (length ?t) \<le> int (76 * ((length src + 15) div 16))"
    using length_hexdump_text[of 0 src] by (simp only: of_nat_le_iff)
  then have t: "int (length ?t) \<le> n" using assms(1) by (simp add: zdiv_int)
  then have "int (length ?t) < int (2 ^ 63)" using assms(2) by simp
  then have "length ?t < 2 ^ 63" by (simp only: of_nat_less_iff)
  then show ?thesis
    using dll_hexdump[OF t assms(2), of beyond] dll_reverse[OF assms(3), of beyond'] assms(4) by auto
qed

theorem hexdump_round_trip_witness:
  "\<exists>dump. xxd_hexdump (\<lambda>_ _. CHR ''0'') 100 ''AB'' = Some (int (length dump), dump) \<and>
    xxd_reverse (\<lambda>_ _. CHR ''0'') 2 dump = Some (int (length ''AB''), ''AB'')"
  by (rule hexdump_round_trip) simp_all

text \<open>C38: The same with the options \<open>-p\<close> and \<open>-r -p\<close>: the program prints plain hexadecimal and reads
  the bytes back, with status 0 both times.\<close>

theorem postscript_round_trip:
  assumes "3 * int (length src) \<le> n" "n < 2 ^ 63" "int (length src) \<le> m"
  shows "\<exists>w w'. xxd dll_platform beyond avail [[], ''-p''] (dll_start n src) = Some (STATUS_OK, w) \<and>
    xxd dll_platform beyond' avail [[], ''-r'', ''-p''] (dll_start m (d_output w)) = Some (STATUS_OK, w') \<and>
    d_output w' = src"
proof -
  let ?t = "postscript_text postscript_conf src"
  have "int (length ?t) \<le> int (3 * length src)"
    using length_postscript_text[of postscript_conf src] by (simp only: of_nat_le_iff)
  then have t: "int (length ?t) \<le> n" using assms(1) by simp
  then have fit: "length ?t \<le> nat n" "length src \<le> nat m" using assms(3) by linarith+
  have "int (length ?t) < int (2 ^ 63)" "int (length src) < int (2 ^ 63)" using t assms(1,2) by simp_all
  then have l: "length ?t < 2 ^ 63" "length src < 2 ^ 63" by (simp_all only: of_nat_less_iff)
  have d: "digits_of ?t = hex_of (hexset (xc_upper postscript_conf)) src"
    using postscript_text_digits[of postscript_conf src]
    by (simp add: xhexset_def postscript_conf_def conf_defaults_def zero_conf_def dflt_def Let_def)
  obtain w where w: "xxd dll_platform beyond avail [[], ''-p''] (dll_start n src) = Some (STATUS_OK, w)" "d_output w = ?t"
    using dll.xxd_postscript_text[of "dll_start n src" beyond avail] fit l by (auto simp: dll_start_simps)
  obtain w' where "xxd dll_platform beyond' avail [[], ''-r'', ''-p''] (dll_start m ?t) = Some (STATUS_OK, w')"
      "d_output w' = src"
    using dll.xxd_rpostscript_text[of "dll_start m ?t" "xc_upper postscript_conf" src beyond' avail] d l fit(2)
    by (auto simp: dll_start_simps)
  then show ?thesis using w by auto
qed

theorem postscript_round_trip_witness:
  "\<exists>w w'. xxd dll_platform (\<lambda>_ _. CHR ''0'') 9 [[], ''-p''] (dll_start 100 ''AB'') = Some (STATUS_OK, w) \<and>
    xxd dll_platform (\<lambda>_ _. CHR ''0'') 9 [[], ''-r'', ''-p''] (dll_start 2 (d_output w)) = Some (STATUS_OK, w') \<and>
    d_output w' = ''AB''"
  by (rule postscript_round_trip) simp_all

text \<open>C39: \<open>parse64\<close> accepts exactly the decimal, octal and hexadecimal numerals whose value fits in
  63 bits, and returns that value.\<close>

theorem numerals_exact:
  "parse64 s = (case numeral_value s of Some v \<Rightarrow> if v < 2 ^ 63 then Some v else None | None \<Rightarrow> None)"
  by (rule parse64_exact)



section \<open>Further theorems\<close>

text \<open>The same patch reversed turns the new file back into the old one.\<close>

theorem diff_then_unpatch:
  assumes "patch_call old_label new_label opts f" "o_reverse opts" "1 \<le> ctx"
    "plain_text s" "plain_text t" "m f = Some t"
  shows "\<exists>res. builtin_patch P (snd (diff_texts s t ctx old_label new_label Unified alg)) opts (mem_io m w) =
      Some (res, mem_io (m(f \<mapsto> s)) w) \<and> r_exit_code res = 0 \<and> r_err res = []"
  using patch_of_diff[OF assms(1,4,5,3), of m P alg w] assms(2,6) by simp

theorem diff_then_unpatch_witness:
  "\<exists>res. builtin_patch mem_platform
      (snd (diff_texts ''x'' [] 1 ''a/f'' ''b/f'' Unified Myers)) (default_options\<lparr>o_reverse := True\<rparr>)
      (mem_io (Map.empty(''f'' \<mapsto> [])) (mem_start [])) =
      Some (res, mem_io (Map.empty(''f'' \<mapsto> [], ''f'' \<mapsto> ''x'')) (mem_start [])) \<and>
    r_exit_code res = 0 \<and> r_err res = []"
  by (rule diff_then_unpatch)
    (simp_all add: patch_call_def plain_label_def default_options_def plain_text_def split_file_lines_def
      no_cr_end_def PTRDIFF_MAX_def choose_target_def strip_path_def str_find_def find_from_def ends_with_def Let_def)

text \<open>What the unified format prints, the patch parser reads back: one file with the
  labels' paths and one parsed hunk per printed hunk, forwards and reversed.\<close>

theorem printed_diff_parses:
  assumes "\<forall>h \<in> set hs. header_ok h \<and> (\<exists>i j i' j'. hunk_at a b i j h i' j')"
    "\<forall>l \<in> set a \<union> set b. no_cr_end l \<and> nl \<notin> set l" "plain_label old_label" "plain_label new_label"
  shows "parse_patch (format_unified a b old_nl new_nl hs old_label new_label) strip rv =
    [(new_patch_file strip rv (''--- '' @ old_label) (''+++ '' @ new_label))
       \<lparr>pf_hunks := map (parsed_hunk rv a b old_nl new_nl) hs\<rparr>]"
  using assms by (rule parse_printed)

theorem printed_diff_parses_witness:
  "parse_patch (format_unified [] [''x''] True False
      [\<lparr>h_old_start = 0, h_old_count = 0, h_new_start = 1, h_new_count = 1, h_ops = [ins_op 0]\<rparr>] ''a'' ''b'') 0 False =
    [(new_patch_file 0 False (''--- '' @ ''a'') (''+++ '' @ ''b''))
       \<lparr>pf_hunks := map (parsed_hunk False [] [''x''] True False)
          [\<lparr>h_old_start = 0, h_old_count = 0, h_new_start = 1, h_new_count = 1, h_ops = [ins_op 0]\<rparr>]\<rparr>]"
  by (rule printed_diff_parses)
    (auto simp: header_ok_def ranged_def PTRDIFF_MAX_def hunk_at_def no_cr_end_def plain_label_def
      intro!: exI[of _ "0 :: int"] exI[of _ "1 :: int"])

text \<open>The block the histogram engine anchors on lies inside both spans and holds the same
  lines in both files.\<close>

theorem histogram_block:
  assumes "pre + len_old \<le> length a"
  shows "block_ok a b pre len_old len_new (find_block a b pre len_old len_new)"
  using assms by (rule find_block_ok)

theorem histogram_block_witness:
  "block_ok [''a'', ''b'', ''c''] [''b'', ''c''] 0 3 2 (find_block [''a'', ''b'', ''c''] [''b'', ''c''] 0 3 2)"
  by (rule histogram_block) simp

text \<open>The hunks of a diff, put back over the unchanged lines of the old file, give the new
  file: no change is lost between hunks, whatever the context.\<close>

theorem hunks_replay:
  assumes "0 \<le> ctx"
  shows "replay_hunks a b 0 (build_hunks (run_engine alg a b) ctx) = b"
  using replay_hunks_chain[OF build_hunks_chain[OF chosen.engine_script assms]] by simp

theorem hunks_replay_witness:
  "replay_hunks [''a'', ''b''] [''b''] 0 (build_hunks (run_engine Patience [''a'', ''b''] [''b'']) 3) = [''b'']"
  by (rule hunks_replay) simp

text \<open>The search at one fuzz level returns the position nearest to the expected line.\<close>

theorem hunk_found_nearest:
  assumes "search_at_fuzz f pat ctx frozen guess fuzz = Some p"
    "pos_ok f pat ctx fuzz (max_search_of f pat ctx fuzz) frozen q"
  shows "\<bar>p - guess\<bar> \<le> \<bar>q - guess\<bar>"
  using assms by (rule search_at_fuzz_nearest)

theorem hunk_found_nearest_witness: "\<bar>1 - (1 :: int)\<bar> \<le> \<bar>3 - 1\<bar>"
proof (rule hunk_found_nearest)
  let ?f = "[''a'', ''b'', ''a'', ''b'']" and ?p = "[\<lparr>pl_text = ''b'', pl_is_context = False\<rparr>]"
  let ?c = "\<lparr>ctx_prefix = 0, ctx_suffix = 0\<rparr>"
  show "search_at_fuzz ?f ?p ?c 0 1 0 = Some 1"
    by (simp add: search_at_fuzz_def pos_ok_def max_search_of_def try_match_def)
  show "pos_ok ?f ?p ?c 0 (max_search_of ?f ?p ?c 0) 0 3"
    by (simp add: pos_ok_def max_search_of_def try_match_def)
qed

text \<open>A dry run changes nothing, neither in the in-memory file system nor in the
  world.\<close>

theorem dry_run_touches_nothing:
  assumes "o_dry_run opts" "builtin_patch P text opts s = Some (res, s')"
  shows "s' = s"
  using assms by (rule builtin_patch_dry)

theorem dry_run_touches_nothing_witness:
  "\<exists>res. builtin_patch mem_platform ''junk'' (default_options\<lparr>o_dry_run := True\<rparr>) (mem_io Map.empty (mem_start [])) =
    Some (res, mem_io Map.empty (mem_start []))"
proof -
  obtain res s where r: "builtin_patch mem_platform ''junk'' (default_options\<lparr>o_dry_run := True\<rparr>)
      (mem_io Map.empty (mem_start [])) = Some (res, s)"
    using builtin_patch_total[of mem_platform "''junk''" "default_options\<lparr>o_dry_run := True\<rparr>"] by fastforce
  from dry_run_touches_nothing[OF _ r] r show ?thesis by simp
qed

text \<open>Restoring a file from its backup gives back what it was when it was backed up,
  whatever happened to it since; but an empty file comes back as no file.\<close>

theorem backup_then_restore:
  assumes "files_law P" "backup_file P q patch file w = (True, w1)"
    "platform_content P (path_join (pc_patch_dir q patch) file) w2 =
     platform_content P (path_join (pc_patch_dir q patch) file) w1"
    "restore_file P q patch file w2 = (True, w3)"
  shows "platform_content P (path_join (q_work_dir q) file) w3 =
    (if platform_content P (path_join (q_work_dir q) file) w = Some [] then None
     else platform_content P (path_join (q_work_dir q) file) w)"
  using backup_content(1)[OF assms(1,2)] restore_content[OF assms(1,4)] assms(3)
  by (auto split: option.splits)

theorem backup_then_restore_witness:
  fixes q :: quilt_state
  defines "q \<equiv> plain_state [''p''] []" and "w0 \<equiv> mem_start [(''/w/f'', ''old'')]"
  defines "w1 \<equiv> snd (backup_file mem_platform q ''p'' ''f'' w0)"
  defines "w2 \<equiv> snd (write_file mem_platform ''/w/f'' ''new'' w1)"
  shows "platform_content mem_platform (path_join (q_work_dir q) ''f'') (snd (restore_file mem_platform q ''p'' ''f'' w2)) =
    (if platform_content mem_platform (path_join (q_work_dir q) ''f'') w0 = Some [] then None
     else platform_content mem_platform (path_join (q_work_dir q) ''f'') w0)"
proof -
  have j: "path_join (q_work_dir q) ''f'' = ''/w/f''" "path_join (pc_patch_dir q ''p'') ''f'' = ''/w/.pc/p/f''"
    by (simp_all add: q_def path_join_def pc_patch_dir_def path_join3_def is_absolute_path_def)
  have b: "backup_file mem_platform q ''p'' ''f'' w0 = (True, w1)"
    by (simp add: backup_file_def w1_def j w0_def mem_platform_def mem_copy_def mem_write_def need_dir_def mem_exists_def
        mem_start_def Let_def split: prod.split)
  have l: "write_file mem_platform ''/w/f'' ''new'' w1 = (True, w2)"
    by (simp add: w2_def mem_platform_def mem_write_def)
  have c: "platform_content mem_platform ''/w/.pc/p/f'' w2 = platform_content mem_platform ''/w/.pc/p/f'' w1"
    by (simp add: files_law_write[OF mem_files_law l])
  have s: "platform_content mem_platform ''/w/.pc/p/f'' w1 = Some ''old''"
    using backup_content(1)[OF mem_files_law b] unfolding j
    by (simp add: w0_def platform_content_def mem_platform_def mem_exists_def mem_read_def mem_start_def)
  obtain w3 where r: "restore_file mem_platform q ''p'' ''f'' w2 = (True, w3)"
    using restore_mem[of q "''p''" "''f''" w2] s c
    by (cases "restore_file mem_platform q ''p'' ''f'' w2") (auto simp: j platform_content_def split: if_splits)
  from backup_then_restore[OF mem_files_law b _ r] c show ?thesis by (simp add: j r)
qed

text \<open>A value written to quiltrc in double quotes, with quotes and backslashes escaped, is
  read back as it was.\<close>

theorem quiltrc_round_trip:
  assumes "key \<noteq> []" "list_all is_varname_char key" "take 7 key \<noteq> ''export ''"
  shows "rc_line (key @ ''='' @ [dquote] @ rc_escape v @ [dquote]) = Some (key, v)"
  using assms by (rule rc_line_quoted)

theorem quiltrc_round_trip_witness:
  "rc_line (''QUILT_DIFF_ARGS'' @ ''='' @ [dquote] @ rc_escape (''-p '' @ [dquote, bslash]) @ [dquote]) =
     Some (''QUILT_DIFF_ARGS'', ''-p '' @ [dquote, bslash])"
  by (rule quiltrc_round_trip) (simp_all add: is_varname_char_def is_varname_start_def char_in_def)

text \<open>The count of \<open>-n\<close> is the value of the leading digits, saturated at the largest
  64-bit integer; what follows the digits is ignored.\<close>

theorem count_saturates:
  assumes "ds \<noteq> []" "list_all is_dec ds" "rest = [] \<or> \<not> is_dec (hd rest)"
  shows "parse_count (ds @ rest) = min (dec_value ds 0) i64_max"
proof -
  have "hd ds \<noteq> CHR ''+''" using assms by (cases ds) (auto simp: is_dec_def)
  then show ?thesis
    using assms count_loop_digits[of ds rest 0 0] by (cases ds) (auto simp: parse_count_def i64_max_def)
qed

theorem count_saturates_witness:
  "parse_count ''9223372036854775808x'' = 9223372036854775807 \<and> parse_count ''12-'' = 12"
  using count_saturates[of "''9223372036854775808''" "''x''"] count_saturates[of "''12''" "''-''"]
  by (simp add: is_dec_def dec_value_def i64_max_def)

text \<open>The word search of \<open>hexdumptrim\<close> finds the first double space, where bit 7 of a byte
  is ignored; without one the data is the whole line, less a final space, and one byte
  more when the length is a multiple of seven.\<close>

theorem hexdump_columns_end:
  "hexdumptrim s = (case find_pair blank s of
      Some k \<Rightarrow> k
    | None \<Rightarrow>
        if s = [] then 0
        else if blank (last s) then length s - 1
        else if 7 dvd length s then length s + 1
        else length s)"
  using hexdumptrim_spec[of s] by (simp add: trim_end_def)

end
